(* ===== verification/Prelude.thy ===== *)
theory Prelude
  imports Main "HOL-Library.Word" "HOL-Library.Signed_Division"
begin

text \<open>
  Shared vocabulary of the development: the widths of the C integer types used by the
  firmware, the type of programs (a C function is a function from the state of the
  globals to an outcome: it returns, or the processor stops making progress), the
  combinators the translated function bodies are written with, and the
  weakest-precondition rules the component proofs are carried by.
\<close>

unbundle bit_operations_syntax

named_theorems wp_rule \<open>weakest-precondition equations of the program combinators\<close>

section \<open>C integers\<close>

type_synonym u8 = "8 word"
type_synonym u16 = "16 word"
type_synonym u32 = "32 word"
type_synonym u64 = "64 word"

text \<open>
  Signed C integers are HOL integers; a conversion to \<^verbatim>\<open>int16_t\<close> or \<^verbatim>\<open>int\<close> (32 bit on the
  Cortex-M3) keeps the low bits in two's complement, as the compiler used by the
  Makefile (gcc) defines it.
\<close>

definition to_int16 :: "int \<Rightarrow> int" where
  "to_int16 x = signed_take_bit 15 x"

definition to_int32 :: "int \<Rightarrow> int" where
  "to_int32 x = signed_take_bit 31 x"

lemma to_int16_bounds: "- 32768 \<le> to_int16 x" "to_int16 x < 32768"
  using signed_take_bit_int_greater_eq_minus_exp [of 15 x] signed_take_bit_int_less_exp [of 15 x]
  by (simp_all add: to_int16_def)

lemma to_int16_id: "- 32768 \<le> x \<Longrightarrow> x < 32768 \<Longrightarrow> to_int16 x = x"
  by (simp add: to_int16_def signed_take_bit_int_eq_self)

lemma to_int32_id: "- 2147483648 \<le> x \<Longrightarrow> x < 2147483648 \<Longrightarrow> to_int32 x = x"
  by (simp add: to_int32_def signed_take_bit_int_eq_self)

lemma low_byte [simp]: "(ucast (x AND 0xff) :: u8) = ucast x" for x :: u16
proof -
  have m: "(0xff :: u16) = mask 8" by (simp add: mask_eq_exp_minus_1)
  show ?thesis unfolding m by (intro bit_word_eqI) (simp add: bit_simps)
qed

section \<open>Programs\<close>

text \<open>
  Why a function may fail to return: \<^verbatim>\<open>panic()\<close> loops forever after printing its
  message, a busy-wait loop whose condition never comes true hangs, and a null or
  out-of-range access or a negative shift has no defined behaviour in C. In all cases the outcome
  keeps the state reached.
\<close>

datatype halt = Panic string | Hang | Undefined string

datatype ('s, 'a) outcome = Ret 'a 's | Halt halt 's

type_synonym ('s, 'a) prog = "'s \<Rightarrow> ('s, 'a) outcome"

definition ret :: "'a \<Rightarrow> ('s, 'a) prog" where
  "ret x = (\<lambda>s. Ret x s)"

definition halt_with :: "halt \<Rightarrow> ('s, 'a) prog" where
  "halt_with h = (\<lambda>s. Halt h s)"

definition gets :: "('s \<Rightarrow> 'a) \<Rightarrow> ('s, 'a) prog" where
  "gets f = (\<lambda>s. Ret (f s) s)"

definition modify :: "('s \<Rightarrow> 's) \<Rightarrow> ('s, unit) prog" where
  "modify f = (\<lambda>s. Ret () (f s))"

definition bindM :: "('s, 'a) prog \<Rightarrow> ('a \<Rightarrow> ('s, 'b) prog) \<Rightarrow> ('s, 'b) prog" where
  "bindM m f = (\<lambda>s. case m s of Ret x t \<Rightarrow> f x t | Halt h t \<Rightarrow> Halt h t)"

definition thenM :: "('s, 'a) prog \<Rightarrow> ('s, 'b) prog \<Rightarrow> ('s, 'b) prog" where
  "thenM m n = bindM m (\<lambda>_. n)"

definition whenM :: "bool \<Rightarrow> ('s, unit) prog \<Rightarrow> ('s, unit) prog" where
  "whenM b m = (if b then m else ret ())"

text \<open>A straight-line sequence of statements.\<close>

fun seqM :: "('s, unit) prog list \<Rightarrow> ('s, unit) prog" where
  "seqM [] = ret ()"
| "seqM (m # ms) = thenM m (seqM ms)"

text \<open>A counted loop: the body runs \<open>n\<close> times.\<close>

fun repeatM :: "nat \<Rightarrow> ('s, unit) prog \<Rightarrow> ('s, unit) prog" where
  "repeatM 0 m = ret ()"
| "repeatM (Suc n) m = thenM m (repeatM n m)"

text \<open>
  A busy-wait loop: \<open>m\<close> is one evaluation of the loop condition and answers whether
  the wait is over. The loop is given a number of rounds; running out of them is the
  outcome \<^const>\<open>Hang\<close>.
\<close>

fun pollM :: "nat \<Rightarrow> ('s, bool) prog \<Rightarrow> ('s, unit) prog" where
  "pollM 0 m = halt_with Hang"
| "pollM (Suc n) m = bindM m (\<lambda>ready. if ready then ret () else pollM n m)"

section \<open>Weakest preconditions\<close>

text \<open>
  \<open>wp m Q H s\<close>: running \<open>m\<close> from \<open>s\<close> either returns and establishes \<open>Q\<close>, or
  stops and establishes \<open>H\<close>. With \<open>H = (\<lambda>_ _. False)\<close> it is total correctness.
\<close>

definition wp :: "('s, 'a) prog \<Rightarrow> ('a \<Rightarrow> 's \<Rightarrow> bool) \<Rightarrow> (halt \<Rightarrow> 's \<Rightarrow> bool) \<Rightarrow> 's \<Rightarrow> bool" where
  "wp m Q H s = (case m s of Ret x t \<Rightarrow> Q x t | Halt h t \<Rightarrow> H h t)"

lemma wp_ret [wp_rule, simp]: "wp (ret x) Q H s = Q x s"
  by (simp add: wp_def ret_def)

lemma wp_halt_with [wp_rule, simp]: "wp (halt_with h) Q H s = H h s"
  by (simp add: wp_def halt_with_def)

lemma wp_gets [wp_rule, simp]: "wp (gets f) Q H s = Q (f s) s"
  by (simp add: wp_def gets_def)

lemma wp_modify [wp_rule, simp]: "wp (modify f) Q H s = Q () (f s)"
  by (simp add: wp_def modify_def)

lemma wp_bindM [wp_rule, simp]: "wp (bindM m f) Q H s = wp m (\<lambda>x t. wp (f x) Q H t) H s"
  by (simp add: wp_def bindM_def split: outcome.split)

lemma wp_thenM [wp_rule, simp]: "wp (thenM m n) Q H s = wp m (\<lambda>_ t. wp n Q H t) H s"
  by (simp add: thenM_def)

lemma wp_whenM [wp_rule, simp]: "wp (whenM b m) Q H s = (if b then wp m Q H s else Q () s)"
  by (simp add: whenM_def)

lemma wp_if [wp_rule]:
  "wp (if b then m else n) Q H s = (if b then wp m Q H s else wp n Q H s)"
  by simp

lemma wp_mono:
  assumes "wp m Q H s" and "\<And>x t. Q x t \<Longrightarrow> Q' x t" and "\<And>h t. H h t \<Longrightarrow> H' h t"
  shows "wp m Q' H' s"
  using assms by (auto simp: wp_def split: outcome.splits)

lemma wp_conj:
  "wp m (\<lambda>x t. Q x t \<and> Q' x t) (\<lambda>h t. H h t \<and> H' h t) s \<longleftrightarrow> wp m Q H s \<and> wp m Q' H' s"
  by (simp add: wp_def split: outcome.split)

text \<open>The two readings of a weakest precondition used in the properties.\<close>

lemma wp_RetI: "m s = Ret x t \<Longrightarrow> Q x t \<Longrightarrow> wp m Q H s"
  by (simp add: wp_def)

lemma wp_RetD: "wp m Q H s \<Longrightarrow> m s = Ret x t \<Longrightarrow> Q x t"
  by (simp add: wp_def)

lemma wp_HaltD: "wp m Q H s \<Longrightarrow> m s = Halt h t \<Longrightarrow> H h t"
  by (simp add: wp_def)

lemma wp_total_ex: "wp m Q (\<lambda>_ _. False) s \<longleftrightarrow> (\<exists>x t. m s = Ret x t \<and> Q x t)"
  by (auto simp: wp_def split: outcome.splits)

lemma wp_eq_Ret: "wp m (\<lambda>x t. x = y \<and> t = u) (\<lambda>_ _. False) s \<longleftrightarrow> m s = Ret y u"
  by (auto simp: wp_def split: outcome.splits)

lemma wp_seqM_append:
  "wp (seqM (ms @ ns)) Q H s = wp (seqM ms) (\<lambda>_. wp (seqM ns) Q H) H s"
  by (induction ms arbitrary: s) simp_all

lemma wp_repeatM:
  assumes "I n s"
    and "\<And>k t. I (Suc k) t \<Longrightarrow> wp m (\<lambda>_. I k) H t"
  shows "wp (repeatM n m) (\<lambda>_. I 0) H s"
  using assms(1)
proof (induction n arbitrary: s)
  case 0
  then show ?case by simp
next
  case (Suc n)
  then have "wp m (\<lambda>_. I n) H s" by (blast intro: assms(2))
  then show ?case by (simp, rule wp_mono) (auto intro: Suc.IH)
qed

text \<open>
  A busy wait under an invariant: each round keeps the invariant, and the loop leaves
  with the postcondition of the round that saw the condition come true.
\<close>

lemma wp_pollM_partial:
  assumes "I s"
    and "\<And>t. I t \<Longrightarrow> wp m (\<lambda>b u. if b then Q () u else I u) H t"
    and "\<And>t. I t \<Longrightarrow> H Hang t"
  shows "wp (pollM n m) Q H s"
  using assms(1)
proof (induction n arbitrary: s)
  case 0
  then show ?case by (simp add: assms(3))
next
  case (Suc n)
  have "wp m (\<lambda>b u. if b then Q () u else I u) H s" by (rule assms(2) [OF Suc.prems])
  then show ?case by (simp, rule wp_mono) (auto intro: Suc.IH split: if_splits)
qed

text \<open>Running equations, for evaluating a program on a known state.\<close>

lemma ret_run [simp]: "ret x s = Ret x s"
  by (simp add: ret_def)

lemma halt_with_run [simp]: "halt_with h s = Halt h s"
  by (simp add: halt_with_def)

lemma gets_run [simp]: "gets f s = Ret (f s) s"
  by (simp add: gets_def)

lemma modify_run [simp]: "modify f s = Ret () (f s)"
  by (simp add: modify_def)

lemma bindM_run: "bindM m f s = (case m s of Ret x t \<Rightarrow> f x t | Halt h t \<Rightarrow> Halt h t)"
  by (simp add: bindM_def)

lemma bindM_Ret [simp]: "m s = Ret x t \<Longrightarrow> bindM m f s = f x t"
  by (simp add: bindM_def)

lemma bindM_Halt [simp]: "m s = Halt h t \<Longrightarrow> bindM m f s = Halt h t"
  by (simp add: bindM_def)

lemma thenM_Ret [simp]: "m s = Ret x t \<Longrightarrow> thenM m n s = n t"
  by (simp add: thenM_def)

lemma thenM_Halt [simp]: "m s = Halt h t \<Longrightarrow> thenM m n s = Halt h t"
  by (simp add: thenM_def)

lemma whenM_run [simp]: "whenM b m s = (if b then m s else Ret () s)"
  by (simp add: whenM_def)

lemma pollM_Suc_run:
  "m s = Ret b t \<Longrightarrow> pollM (Suc n) m s = (if b then Ret () t else pollM n m t)"
  by simp

lemma seqM_append_Ret: "seqM ms s = Ret () t \<Longrightarrow> seqM (ms @ ns) s = seqM ns t"
  by (induction ms arbitrary: s)
    (auto simp: thenM_def bindM_def split: outcome.splits)

section \<open>Frames\<close>

text \<open>
  \<open>keeps R m\<close>: whatever \<open>m\<close> does, returning or not, the state it leaves is related by \<open>R\<close> to the
  one it started in. For a relation that is reflexive and transitive this follows from the parts
  of a program; the locale states the rules once for all such relations.
\<close>

definition keeps :: "('s \<Rightarrow> 's \<Rightarrow> bool) \<Rightarrow> ('s, 'a) prog \<Rightarrow> bool" where
  "keeps R m \<longleftrightarrow> (\<forall>s. wp m (\<lambda>_ t. R s t) (\<lambda>_ t. R s t) s)"

lemma keeps_mono: "keeps R m \<Longrightarrow> (\<And>s t. R s t \<Longrightarrow> R' s t) \<Longrightarrow> keeps R' m"
  unfolding keeps_def by (blast intro: wp_mono)

lemma keepsD: "keeps R m \<Longrightarrow> wp m (\<lambda>_ t. R s t) (\<lambda>_ t. R s t) s"
  by (simp add: keeps_def)

locale frame_relation =
  fixes R :: "'s \<Rightarrow> 's \<Rightarrow> bool"
  assumes R_refl: "R s s"
    and R_trans: "R s t \<Longrightarrow> R t u \<Longrightarrow> R s u"
begin

lemma keeps_ret: "keeps R (ret x)"
  by (simp add: keeps_def R_refl)

lemma keeps_gets: "keeps R (gets f)"
  by (simp add: keeps_def R_refl)

lemma keeps_halt: "keeps R (halt_with h)"
  by (simp add: keeps_def R_refl)

lemma keeps_modify: "(\<And>s. R s (f s)) \<Longrightarrow> keeps R (modify f)"
  by (simp add: keeps_def)

lemma keeps_bindM:
  assumes "keeps R m" and "\<And>x. keeps R (f x)"
  shows "keeps R (bindM m f)"
  unfolding keeps_def wp_bindM
proof
  fix s
  show "wp m (\<lambda>x. wp (f x) (\<lambda>_. R s) (\<lambda>_. R s)) (\<lambda>_. R s) s"
    by (rule wp_mono [OF keepsD [OF assms(1)]], rule wp_mono [OF keepsD [OF assms(2)]]) (blast intro: R_trans)+
qed

lemma keeps_thenM: "keeps R m \<Longrightarrow> keeps R n \<Longrightarrow> keeps R (thenM m n)"
  unfolding thenM_def by (rule keeps_bindM)

lemma keeps_whenM: "(b \<Longrightarrow> keeps R m) \<Longrightarrow> keeps R (whenM b m)"
  by (simp add: whenM_def keeps_ret)

lemma keeps_if: "(b \<Longrightarrow> keeps R m) \<Longrightarrow> (\<not> b \<Longrightarrow> keeps R n) \<Longrightarrow> keeps R (if b then m else n)"
  by simp

lemma keeps_case_option: "keeps R m \<Longrightarrow> (\<And>x. keeps R (f x)) \<Longrightarrow> keeps R (case v of None \<Rightarrow> m | Some x \<Rightarrow> f x)"
  by (cases v) simp_all

lemma keeps_case_prod: "(\<And>x y. keeps R (f x y)) \<Longrightarrow> keeps R (case v of (x, y) \<Rightarrow> f x y)"
  by (cases v) simp

lemma keeps_seqM: "(\<And>m. m \<in> set ms \<Longrightarrow> keeps R m) \<Longrightarrow> keeps R (seqM ms)"
  by (induction ms) (simp_all add: keeps_ret keeps_thenM)

lemma keeps_seq_Nil: "keeps R (seqM [])"
  by (simp add: keeps_ret)

lemma keeps_seq_Cons: "keeps R m \<Longrightarrow> keeps R (seqM ms) \<Longrightarrow> keeps R (seqM (m # ms))"
  by (simp add: keeps_thenM)

lemma keeps_repeatM: "keeps R m \<Longrightarrow> keeps R (repeatM n m)"
  by (induction n) (simp_all add: keeps_ret keeps_thenM)

lemma keeps_pollM: "keeps R m \<Longrightarrow> keeps R (pollM n m)"
  by (induction n) (simp_all add: keeps_halt keeps_ret keeps_bindM)

lemmas keeps_intros = keeps_bindM keeps_thenM keeps_whenM keeps_if keeps_ret keeps_gets keeps_halt
  keeps_case_option keeps_case_prod keeps_seq_Cons keeps_seq_Nil keeps_repeatM keeps_pollM

end

end
