(* ===== verification/Hardware.thy ===== *)
theory Hardware
  imports Prelude
begin

text \<open>
  The boundary of the firmware. Everything behind the Silicon Labs library (emlib and
  CMSIS, not part of the repository) is seen through two things: the trace of the calls
  the firmware makes, in order, and an environment that chooses what each call answers.
  An answer may depend on the whole history of calls, so any device that reacts to what
  the firmware did is an environment; nothing about it is fixed here.
\<close>

section \<open>Calls\<close>

datatype gpio_port = gpioPortA | gpioPortB | gpioPortC | gpioPortD | gpioPortE | gpioPortF

datatype gpio_mode = gpioModeDisabled | gpioModeInput | gpioModeInputPull
  | gpioModeInputPullFilter | gpioModePushPull | gpioModeWiredAndPullUpFilter

datatype usart = USART0 | USART1 | USART2

datatype i2c_flag = I2C_FLAG_WRITE | I2C_FLAG_READ

text \<open>
  The calls. \<open>Ext\<close> is any other library call that only configures a peripheral, by name
  and arguments; \<open>RegSet\<close> and \<open>RegGet\<close> are direct accesses to a memory-mapped register,
  \<open>Spi\<close> a byte exchanged on a USART (sent, received), \<open>I2cStart\<close> the start of an I2C
  transfer with the bytes written and \<open>I2cPoll\<close> one call of the transfer state machine.
\<close>

datatype io =
    Ext string "int list"
  | PinMode gpio_port nat gpio_mode nat
  | PinSet gpio_port nat
  | PinClear gpio_port nat
  | PinGet gpio_port nat bool
  | Spi usart u8 u8
  | I2cStart u16 i2c_flag "u8 list"
  | I2cPoll
  | RegSet string u32
  | RegGet string u32
  | TimerSet u32
  | TimerGet u32
  | Printf string

text \<open>
  The state the firmware shares with the hardware is the trace; every translation unit
  extends this record with its own static variables.
\<close>

record hw =
  trace :: "io list"

text \<open>
  The environment. \<open>env_fuel\<close> bounds the rounds of every busy-wait loop; theorems that
  say a wait ends ask for an environment that answers within that bound.
\<close>

record env =
  env_pin :: "io list \<Rightarrow> gpio_port \<Rightarrow> nat \<Rightarrow> bool"
  env_spi :: "io list \<Rightarrow> usart \<Rightarrow> u8 \<Rightarrow> u8"
  env_i2c_busy :: "io list \<Rightarrow> bool"
  env_i2c_rx :: "io list \<Rightarrow> u8"
  env_reg :: "io list \<Rightarrow> string \<Rightarrow> u32"
  env_timer :: "io list \<Rightarrow> u32"
  env_ticks :: "io list \<Rightarrow> nat"
  env_call :: "io list \<Rightarrow> string \<Rightarrow> int"
  env_msc_write :: "io list \<Rightarrow> u8 list \<Rightarrow> u8 list \<Rightarrow> u8 list \<times> bool"
  env_msc_erase :: "io list \<Rightarrow> u8 list \<Rightarrow> u8 list"
  env_fuel :: nat

definition emit :: "io \<Rightarrow> ('z hw_scheme, unit) prog" where
  "emit e = modify (\<lambda>s. s\<lparr>trace := trace s @ [e]\<rparr>)"

section \<open>Library calls\<close>

definition ext_call :: "string \<Rightarrow> int list \<Rightarrow> ('z hw_scheme, unit) prog" where
  "ext_call f args = emit (Ext f args)"

text \<open>A call whose result the firmware uses.\<close>

definition ext_ask :: "env \<Rightarrow> string \<Rightarrow> int list \<Rightarrow> ('z hw_scheme, int) prog" where
  "ext_ask E f args = thenM (ext_call f args) (gets (\<lambda>s. env_call E (trace s) f))"

definition printf :: "string \<Rightarrow> ('z hw_scheme, unit) prog" where
  "printf t = emit (Printf t)"

text \<open>A failed \<^verbatim>\<open>LWIP_ASSERT\<close> or \<^verbatim>\<open>LWIP_ERROR\<close> of lwIP: the message and \<^verbatim>\<open>abort()\<close>.\<close>

definition lwip_assert_fails :: "string \<Rightarrow> ('z hw_scheme, 'a) prog" where
  "lwip_assert_fails msg = thenM (printf (''Assertion '' @ msg @ '' failed'')) (halt_with (Panic msg))"

definition GPIO_PinModeSet ::
  "gpio_port \<Rightarrow> nat \<Rightarrow> gpio_mode \<Rightarrow> nat \<Rightarrow> ('z hw_scheme, unit) prog" where
  "GPIO_PinModeSet p b m out = emit (PinMode p b m out)"

definition GPIO_PinOutSet :: "gpio_port \<Rightarrow> nat \<Rightarrow> ('z hw_scheme, unit) prog" where
  "GPIO_PinOutSet p b = emit (PinSet p b)"

definition GPIO_PinOutClear :: "gpio_port \<Rightarrow> nat \<Rightarrow> ('z hw_scheme, unit) prog" where
  "GPIO_PinOutClear p b = emit (PinClear p b)"

definition GPIO_PinInGet :: "env \<Rightarrow> gpio_port \<Rightarrow> nat \<Rightarrow> ('z hw_scheme, bool) prog" where
  "GPIO_PinInGet E p b =
     bindM (gets (\<lambda>s. env_pin E (trace s) p b)) (\<lambda>v.
     thenM (emit (PinGet p b v)) (ret v))"

definition USART_SpiTransfer :: "env \<Rightarrow> usart \<Rightarrow> u8 \<Rightarrow> ('z hw_scheme, u8) prog" where
  "USART_SpiTransfer E u tx =
     bindM (gets (\<lambda>s. env_spi E (trace s) u tx)) (\<lambda>rx.
     thenM (emit (Spi u tx rx)) (ret rx))"

definition reg_get :: "env \<Rightarrow> string \<Rightarrow> ('z hw_scheme, u32) prog" where
  "reg_get E r =
     bindM (gets (\<lambda>s. env_reg E (trace s) r)) (\<lambda>v.
     thenM (emit (RegGet r v)) (ret v))"

definition reg_set :: "string \<Rightarrow> u32 \<Rightarrow> ('z hw_scheme, unit) prog" where
  "reg_set r v = emit (RegSet r v)"

definition TIMER_CounterSet :: "u32 \<Rightarrow> ('z hw_scheme, unit) prog" where
  "TIMER_CounterSet v = emit (TimerSet v)"

definition TIMER_CounterGet :: "env \<Rightarrow> ('z hw_scheme, u32) prog" where
  "TIMER_CounterGet E =
     bindM (gets (\<lambda>s. env_timer E (trace s))) (\<lambda>v.
     thenM (emit (TimerGet v)) (ret v))"

text \<open>
  \<^verbatim>\<open>while (!(REG & FLAG));\<close>: the masked register is read until it is not zero.
\<close>

definition wait_flag :: "env \<Rightarrow> string \<Rightarrow> ('z hw_scheme, unit) prog" where
  "wait_flag E r = pollM (env_fuel E) (bindM (reg_get E r) (\<lambda>v. ret (v \<noteq> 0)))"

text \<open>
  \<^verbatim>\<open>panic\<close> of main.c: the message goes out, then \<^verbatim>\<open>while(true)\<close>.
\<close>

definition panic :: "string \<Rightarrow> ('z hw_scheme, 'a) prog" where
  "panic msg = thenM (printf (''\<newline>Panic: '' @ msg @ ''\<newline>'')) (halt_with (Panic msg))"

text \<open>
  \<^verbatim>\<open>usleep\<close> of main.c: the free-running timer is reset and polled until it has counted three
  ticks per microsecond. The product is computed in \<^verbatim>\<open>int\<close>, so it does not wrap.
\<close>

definition usleep :: "env \<Rightarrow> u16 \<Rightarrow> ('z hw_scheme, unit) prog" where
  "usleep E us =
     thenM (TIMER_CounterSet 0)
       (pollM (env_fuel E) (bindM (TIMER_CounterGet E) (\<lambda>v. ret (\<not> v < ucast us * 3))))"

section \<open>Weakest preconditions of the calls\<close>

lemma wp_emit [wp_rule, simp]:
  "wp (emit e) Q H s = Q () (s\<lparr>trace := trace s @ [e]\<rparr>)"
  by (simp add: emit_def)

lemma emit_run [simp]: "emit e s = Ret () (s\<lparr>trace := trace s @ [e]\<rparr>)"
  by (simp add: emit_def)

lemmas call_defs = ext_call_def printf_def GPIO_PinModeSet_def GPIO_PinOutSet_def
  GPIO_PinOutClear_def reg_set_def TIMER_CounterSet_def

lemma wp_calls [wp_rule, simp]:
  "wp (ext_call f as) Q H s = Q () (s\<lparr>trace := trace s @ [Ext f as]\<rparr>)"
  "wp (printf t) Q H s = Q () (s\<lparr>trace := trace s @ [Printf t]\<rparr>)"
  "wp (GPIO_PinModeSet p b m out) Q H s = Q () (s\<lparr>trace := trace s @ [PinMode p b m out]\<rparr>)"
  "wp (GPIO_PinOutSet p b) Q H s = Q () (s\<lparr>trace := trace s @ [PinSet p b]\<rparr>)"
  "wp (GPIO_PinOutClear p b) Q H s = Q () (s\<lparr>trace := trace s @ [PinClear p b]\<rparr>)"
  "wp (reg_set r v) Q H s = Q () (s\<lparr>trace := trace s @ [RegSet r v]\<rparr>)"
  "wp (TIMER_CounterSet v) Q H s = Q () (s\<lparr>trace := trace s @ [TimerSet v]\<rparr>)"
  by (simp_all add: call_defs)

lemma wp_reads [wp_rule, simp]:
  "wp (GPIO_PinInGet E p b) Q H s =
     (let v = env_pin E (trace s) p b in Q v (s\<lparr>trace := trace s @ [PinGet p b v]\<rparr>))"
  "wp (USART_SpiTransfer E u tx) Q8 H s =
     (let v = env_spi E (trace s) u tx in Q8 v (s\<lparr>trace := trace s @ [Spi u tx v]\<rparr>))"
  "wp (reg_get E r) Q32 H s =
     (let v = env_reg E (trace s) r in Q32 v (s\<lparr>trace := trace s @ [RegGet r v]\<rparr>))"
  "wp (TIMER_CounterGet E) Q32 H s =
     (let v = env_timer E (trace s) in Q32 v (s\<lparr>trace := trace s @ [TimerGet v]\<rparr>))"
  by (simp_all add: GPIO_PinInGet_def USART_SpiTransfer_def reg_get_def TIMER_CounterGet_def Let_def)

lemma wp_ext_ask [wp_rule, simp]:
  "wp (ext_ask E f as) Q H s =
     Q (env_call E (trace s @ [Ext f as]) f) (s\<lparr>trace := trace s @ [Ext f as]\<rparr>)"
  by (simp add: ext_ask_def)

lemma wp_panic [wp_rule, simp]:
  "wp (panic msg) Q H s =
     H (Panic msg) (s\<lparr>trace := trace s @ [Printf (''\<newline>Panic: '' @ msg @ ''\<newline>'')]\<rparr>)"
  by (simp add: panic_def)

lemma ext_ask_run [simp]:
  "ext_ask E f as s = Ret (env_call E (trace s @ [Ext f as]) f) (s\<lparr>trace := trace s @ [Ext f as]\<rparr>)"
  by (simp add: ext_ask_def call_defs)

lemma call_runs [simp]:
  "ext_call f as s = Ret () (s\<lparr>trace := trace s @ [Ext f as]\<rparr>)"
  "printf t s = Ret () (s\<lparr>trace := trace s @ [Printf t]\<rparr>)"
  "GPIO_PinModeSet p b m out s = Ret () (s\<lparr>trace := trace s @ [PinMode p b m out]\<rparr>)"
  "GPIO_PinOutSet p b s = Ret () (s\<lparr>trace := trace s @ [PinSet p b]\<rparr>)"
  "GPIO_PinOutClear p b s = Ret () (s\<lparr>trace := trace s @ [PinClear p b]\<rparr>)"
  "reg_set r v s = Ret () (s\<lparr>trace := trace s @ [RegSet r v]\<rparr>)"
  "TIMER_CounterSet v s = Ret () (s\<lparr>trace := trace s @ [TimerSet v]\<rparr>)"
  "GPIO_PinInGet E p b s =
     Ret (env_pin E (trace s) p b) (s\<lparr>trace := trace s @ [PinGet p b (env_pin E (trace s) p b)]\<rparr>)"
  "USART_SpiTransfer E u tx s =
     Ret (env_spi E (trace s) u tx) (s\<lparr>trace := trace s @ [Spi u tx (env_spi E (trace s) u tx)]\<rparr>)"
  "reg_get E r s =
     Ret (env_reg E (trace s) r) (s\<lparr>trace := trace s @ [RegGet r (env_reg E (trace s) r)]\<rparr>)"
  "TIMER_CounterGet E s =
     Ret (env_timer E (trace s)) (s\<lparr>trace := trace s @ [TimerGet (env_timer E (trace s))]\<rparr>)"
  "panic msg s = Halt (Panic msg) (s\<lparr>trace := trace s @ [Printf (''\<newline>Panic: '' @ msg @ ''\<newline>'')]\<rparr>)"
  by (simp_all add: call_defs GPIO_PinInGet_def USART_SpiTransfer_def reg_get_def
      TIMER_CounterGet_def panic_def thenM_def bindM_def)

section \<open>What a trace says about the pins\<close>

text \<open>
  The level a push-pull output is driven to: the value of the last call that set it.
  \<open>None\<close> before the first one.
\<close>

definition pin_effect :: "gpio_port \<Rightarrow> nat \<Rightarrow> io \<Rightarrow> bool option" where
  "pin_effect p b e =
     (case e of
        PinMode p' b' m out \<Rightarrow> if p' = p \<and> b' = b then Some (out \<noteq> 0) else None
      | PinSet p' b' \<Rightarrow> if p' = p \<and> b' = b then Some True else None
      | PinClear p' b' \<Rightarrow> if p' = p \<and> b' = b then Some False else None
      | _ \<Rightarrow> None)"

fun pin_level :: "gpio_port \<Rightarrow> nat \<Rightarrow> bool option \<Rightarrow> io list \<Rightarrow> bool option" where
  "pin_level p b l [] = l"
| "pin_level p b l (e # es) =
     pin_level p b (case pin_effect p b e of None \<Rightarrow> l | Some v \<Rightarrow> Some v) es"

definition pin_out :: "gpio_port \<Rightarrow> nat \<Rightarrow> io list \<Rightarrow> bool option" where
  "pin_out p b es = pin_level p b None es"

lemma pin_level_append [simp]:
  "pin_level p b l (xs @ ys) = pin_level p b (pin_level p b l xs) ys"
  by (induction xs arbitrary: l) simp_all

lemma pin_out_snoc:
  "pin_out p b (es @ [e]) = (case pin_effect p b e of None \<Rightarrow> pin_out p b es | Some v \<Rightarrow> Some v)"
  by (simp add: pin_out_def split: option.split)

lemma pin_level_frame:
  "(\<forall>e \<in> set ys. pin_effect p b e = None) \<Longrightarrow> pin_level p b l ys = l"
  by (induction ys) simp_all

lemma pin_out_frame:
  "(\<forall>e \<in> set ys. pin_effect p b e = None) \<Longrightarrow> pin_out p b (xs @ ys) = pin_out p b xs"
  by (simp add: pin_out_def pin_level_frame)

lemma pin_out_append: "pin_out p b (xs @ ys) = pin_level p b (pin_out p b xs) ys"
  by (simp add: pin_out_def)

section \<open>What a trace says about an SPI bus\<close>

text \<open>
  A device on an SPI bus sees the bytes clocked while its chip select is low. \<open>cs\<close> is the
  frame in progress (\<open>None\<close> while the select is high); a frame is complete when the
  select goes high, and selecting a selected device changes nothing. The result is the
  frame left open and the frames completed.
\<close>

definition bus_step :: "gpio_port \<Rightarrow> nat \<Rightarrow> usart \<Rightarrow> u8 list option \<Rightarrow> io \<Rightarrow> u8 list option \<times> u8 list list" where
  "bus_step p b u cs e =
     (case pin_effect p b e of
        Some True \<Rightarrow> (None, case cs of Some bs \<Rightarrow> [bs] | None \<Rightarrow> [])
      | Some False \<Rightarrow> (Some (case cs of Some bs \<Rightarrow> bs | None \<Rightarrow> []), [])
      | None \<Rightarrow>
          (case e of
             Spi u' tx rx \<Rightarrow> (if u' = u then map_option (\<lambda>bs. bs @ [tx]) cs else cs, [])
           | _ \<Rightarrow> (cs, [])))"

fun bus :: "gpio_port \<Rightarrow> nat \<Rightarrow> usart \<Rightarrow> u8 list option \<Rightarrow> io list \<Rightarrow> u8 list option \<times> u8 list list" where
  "bus p b u cs [] = (cs, [])"
| "bus p b u cs (e # es) =
     (let (cs1, fs1) = bus_step p b u cs e; (cs2, fs2) = bus p b u cs1 es in (cs2, fs1 @ fs2))"

lemma bus_append:
  "bus p b u cs (xs @ ys) =
     (let (cs1, fs1) = bus p b u cs xs; (cs2, fs2) = bus p b u cs1 ys in (cs2, fs1 @ fs2))"
  by (induction xs arbitrary: cs) (auto simp: Let_def split: prod.splits)

text \<open>The bytes of a transfer while the device is selected.\<close>

lemma bus_spi:
  "length rxs = length txs \<Longrightarrow> bus p b u (Some bs) (map2 (Spi u) txs rxs) = (Some (bs @ txs), [])"
proof (induction txs arbitrary: rxs bs)
  case (Cons tx txs)
  then show ?case by (cases rxs) (simp_all add: bus_step_def pin_effect_def)
qed simp

lemma bus_frame:
  "(\<forall>e \<in> set es. pin_effect p b e = None \<and> (\<forall>tx rx. e \<noteq> Spi u tx rx)) \<Longrightarrow> bus p b u cs es = (cs, [])"
  by (induction es) (auto simp: bus_step_def split: io.splits)

lemma pin_effect_simps [simp]:
  "pin_effect p b (PinSet p' b') = (if p' = p \<and> b' = b then Some True else None)"
  "pin_effect p b (PinClear p' b') = (if p' = p \<and> b' = b then Some False else None)"
  "pin_effect p b (PinMode p' b' m out) = (if p' = p \<and> b' = b then Some (out \<noteq> 0) else None)"
  "pin_effect p b (Ext f as) = None" "pin_effect p b (PinGet q n v) = None"
  "pin_effect p b (Spi u tx rx) = None" "pin_effect p b (I2cStart a fl bs) = None"
  "pin_effect p b I2cPoll = None" "pin_effect p b (RegSet r v32) = None"
  "pin_effect p b (RegGet r v32) = None" "pin_effect p b (TimerSet v32) = None"
  "pin_effect p b (TimerGet v32) = None" "pin_effect p b (Printf t) = None"
  by (simp_all add: pin_effect_def)

section \<open>Programs that only talk to the hardware\<close>

text \<open>The program returns, and of the state it changes nothing but the trace.\<close>

definition quiet :: "('z hw_scheme, 'a) prog \<Rightarrow> bool" where
  "quiet m \<longleftrightarrow> (\<forall>s. wp m (\<lambda>_ t. \<exists>tr. t = s\<lparr>trace := tr\<rparr>) (\<lambda>_ _. False) s)"

lemma wp_quiet: "quiet m \<Longrightarrow> (\<And>x tr. Q x (s\<lparr>trace := tr\<rparr>)) \<Longrightarrow> wp m Q H s"
  unfolding quiet_def by (elim allE [of _ s] wp_mono) auto

lemma wp_when_panic:
  assumes "b \<Longrightarrow> H (Panic msg) (s\<lparr>trace := trace s @ [Printf (''\<newline>Panic: '' @ msg @ ''\<newline>'')]\<rparr>)"
    and "\<not> b \<Longrightarrow> Q () s"
  shows "wp (whenM b (panic msg)) Q H s"
  using assms by simp

lemma quiet_ret: "quiet (ret x)"
  unfolding quiet_def by (simp, metis hw.surjective hw.update_convs(1))

lemma quiet_gets: "quiet (gets f)"
  unfolding quiet_def by (simp, metis hw.surjective hw.update_convs(1))

lemma quiet_emit: "quiet (emit e)"
  unfolding quiet_def by auto

lemma quiet_bindM: "quiet m \<Longrightarrow> (\<And>x. quiet (f x)) \<Longrightarrow> quiet (bindM m f)"
  unfolding quiet_def
proof (intro allI, simp)
  fix s :: "'a hw_scheme"
  assume m: "\<forall>s. wp m (\<lambda>_ t. \<exists>tr. t = s\<lparr>trace := tr\<rparr>) (\<lambda>_ _. False) s"
    and f: "\<And>x. \<forall>s. wp (f x) (\<lambda>_ t. \<exists>tr. t = s\<lparr>trace := tr\<rparr>) (\<lambda>_ _. False) s"
  show "wp m (\<lambda>x. wp (f x) (\<lambda>_ t. \<exists>tr. t = s\<lparr>trace := tr\<rparr>) (\<lambda>_ _. False)) (\<lambda>_ _. False) s"
    by (rule wp_mono [OF spec [OF m, of s]]) (auto intro!: wp_mono [OF spec [OF f]])
qed

lemma quiet_thenM: "quiet m \<Longrightarrow> quiet n \<Longrightarrow> quiet (thenM m n)"
  unfolding thenM_def by (rule quiet_bindM)

lemma quiet_whenM: "(b \<Longrightarrow> quiet m) \<Longrightarrow> quiet (whenM b m)"
  by (simp add: whenM_def quiet_ret)

lemma quiet_if: "(b \<Longrightarrow> quiet m) \<Longrightarrow> (\<not> b \<Longrightarrow> quiet n) \<Longrightarrow> quiet (if b then m else n)"
  by simp

lemma quiet_repeatM: "quiet m \<Longrightarrow> quiet (repeatM n m)"
  by (induction n) (simp_all add: quiet_ret quiet_thenM)

lemma quiet_calls:
  "quiet (ext_call f as)" "quiet (printf t)" "quiet (GPIO_PinModeSet p b m out)" "quiet (GPIO_PinOutSet p b)"
  "quiet (GPIO_PinOutClear p b)" "quiet (reg_set r v)" "quiet (TIMER_CounterSet v)"
  by (simp_all add: call_defs quiet_emit)

lemma quiet_reads:
  "quiet (GPIO_PinInGet E p b)" "quiet (USART_SpiTransfer E u tx)" "quiet (reg_get E r)"
  "quiet (TIMER_CounterGet E)" "quiet (ext_ask E f as)"
  unfolding GPIO_PinInGet_def USART_SpiTransfer_def reg_get_def TIMER_CounterGet_def ext_ask_def
  by (intro quiet_bindM quiet_thenM quiet_gets quiet_emit quiet_ret quiet_calls)+

lemmas quiet_intros = quiet_bindM quiet_thenM quiet_whenM quiet_if quiet_ret quiet_gets quiet_emit
  quiet_calls quiet_reads quiet_repeatM

section \<open>Flags come up\<close>

text \<open>The trace after \<open>n\<close> further reads of a register.\<close>

fun reg_trace :: "env \<Rightarrow> string \<Rightarrow> io list \<Rightarrow> nat \<Rightarrow> io list" where
  "reg_trace E r tr 0 = tr"
| "reg_trace E r tr (Suc n) = reg_trace E r (tr @ [RegGet r (env_reg E tr r)]) n"

text \<open>
  Every status flag the firmware waits for comes up within the rounds the model allows. The
  waits have no timeout, so they rely on it.
\<close>

definition flags_rise :: "env \<Rightarrow> bool" where
  "flags_rise E \<longleftrightarrow> (\<forall>tr r. \<exists>n < env_fuel E. env_reg E (reg_trace E r tr n) r \<noteq> 0)"

definition flag_round :: "env \<Rightarrow> string \<Rightarrow> ('z hw_scheme, bool) prog" where
  "flag_round E r = bindM (reg_get E r) (\<lambda>v. ret (v \<noteq> 0))"

lemma flag_round_run:
  "flag_round E r s = Ret (env_reg E (trace s) r \<noteq> 0) (s\<lparr>trace := trace s @ [RegGet r (env_reg E (trace s) r)]\<rparr>)"
  by (simp add: flag_round_def)

lemma flag_poll_run:
  assumes "env_reg E (reg_trace E r (trace s) n) r \<noteq> 0" and "n < fuel"
  shows "\<exists>vs. pollM fuel (flag_round E r) s = Ret () (s\<lparr>trace := trace s @ map (RegGet r) vs\<rparr>)"
  using assms
proof (induction n arbitrary: fuel s)
  case 0
  obtain f where "fuel = Suc f" using 0 by (cases fuel) auto
  then show ?case
    using 0 by (intro exI [of _ "[env_reg E (trace s) r]"]) (simp add: pollM_Suc_run [OF flag_round_run] del: pollM.simps)
next
  case (Suc n)
  obtain f where f: "fuel = Suc f" using Suc by (cases fuel) auto
  let ?s = "s\<lparr>trace := trace s @ [RegGet r (env_reg E (trace s) r)]\<rparr>"
  obtain vs where vs: "pollM f (flag_round E r) ?s = Ret () (?s\<lparr>trace := trace ?s @ map (RegGet r) vs\<rparr>)"
    using Suc.IH [of ?s f] Suc.prems f by auto
  show ?case
  proof (cases "env_reg E (trace s) r = 0")
    case True
    then show ?thesis
      using vs by (intro exI [of _ "env_reg E (trace s) r # vs"]) (simp add: f pollM_Suc_run [OF flag_round_run] del: pollM.simps)
  next
    case False
    then show ?thesis by (intro exI [of _ "[env_reg E (trace s) r]"]) (simp add: f pollM_Suc_run [OF flag_round_run] del: pollM.simps)
  qed
qed

lemma wait_flag_run:
  assumes "flags_rise E"
  shows "\<exists>vs. wait_flag E r s = Ret () (s\<lparr>trace := trace s @ map (RegGet r) vs\<rparr>)"
proof -
  obtain n where "n < env_fuel E" "env_reg E (reg_trace E r (trace s) n) r \<noteq> 0"
    using assms unfolding flags_rise_def by blast
  then show ?thesis unfolding wait_flag_def flag_round_def [symmetric] by (metis flag_poll_run)
qed

lemma quiet_wait_flag: "flags_rise E \<Longrightarrow> quiet (wait_flag E r)"
  unfolding quiet_def wp_total_ex using wait_flag_run by blast

section \<open>Delays\<close>

text \<open>The trace after \<open>n\<close> further reads of the timer.\<close>

fun timer_trace :: "env \<Rightarrow> io list \<Rightarrow> nat \<Rightarrow> io list" where
  "timer_trace E tr 0 = tr"
| "timer_trace E tr (Suc n) = timer_trace E (tr @ [TimerGet (env_timer E tr)]) n"

text \<open>
  TIMER0 is a free-running 16-bit up-counter: polled often enough it reaches any 16-bit
  value. The delays rely on it.
\<close>

definition timer_runs :: "env \<Rightarrow> bool" where
  "timer_runs E \<longleftrightarrow>
     (\<forall>tr lim. lim \<le> 65535 \<longrightarrow> (\<exists>n < env_fuel E. lim \<le> env_timer E (timer_trace E tr n)))"

definition timer_16bit :: "env \<Rightarrow> bool" where
  "timer_16bit E \<longleftrightarrow> (\<forall>tr. env_timer E tr \<le> 65535)"

definition is_timer_call :: "io \<Rightarrow> bool" where
  "is_timer_call e = (case e of TimerSet _ \<Rightarrow> True | TimerGet _ \<Rightarrow> True | _ \<Rightarrow> False)"

definition timer_round :: "env \<Rightarrow> u32 \<Rightarrow> ('z hw_scheme, bool) prog" where
  "timer_round E lim = bindM (TIMER_CounterGet E) (\<lambda>v. ret (\<not> v < lim))"

lemma timer_round_run:
  "timer_round E lim s = Ret (\<not> env_timer E (trace s) < lim) (s\<lparr>trace := trace s @ [TimerGet (env_timer E (trace s))]\<rparr>)"
  by (simp add: timer_round_def)

lemma timer_poll_run:
  assumes "lim \<le> env_timer E (timer_trace E (trace s) n)" and "n < fuel"
  shows "\<exists>es. pollM fuel (timer_round E lim) s = Ret () (s\<lparr>trace := trace s @ es\<rparr>) \<and> (\<forall>e \<in> set es. is_timer_call e)"
  using assms
proof (induction n arbitrary: fuel s)
  case 0
  obtain f where f: "fuel = Suc f" using 0 by (cases fuel) auto
  then show ?case
    using 0 by (intro exI [of _ "[TimerGet (env_timer E (trace s))]"])
      (auto simp: pollM_Suc_run [OF timer_round_run] is_timer_call_def simp del: pollM.simps)
next
  case (Suc n)
  obtain f where f: "fuel = Suc f" using Suc by (cases fuel) auto
  let ?s = "s\<lparr>trace := trace s @ [TimerGet (env_timer E (trace s))]\<rparr>"
  obtain es where es: "pollM f (timer_round E lim) ?s = Ret () (?s\<lparr>trace := trace ?s @ es\<rparr>)" "\<forall>e \<in> set es. is_timer_call e"
    using Suc.IH [of ?s f] Suc.prems f by auto
  show ?case
  proof (cases "env_timer E (trace s) < lim")
    case True
    then show ?thesis
      using es by (intro exI [of _ "TimerGet (env_timer E (trace s)) # es"])
        (simp add: f pollM_Suc_run [OF timer_round_run] is_timer_call_def del: pollM.simps)
  next
    case False
    then show ?thesis
      by (intro exI [of _ "[TimerGet (env_timer E (trace s))]"])
        (simp add: f pollM_Suc_run [OF timer_round_run] is_timer_call_def del: pollM.simps)
  qed
qed

lemma usleep_product: "unat (ucast us * 3 :: u32) = unat us * 3" for us :: u16
  using unsigned_less [of us, where ?'a = nat]
  by (simp add: unat_word_ariths unsigned_ucast_eq take_bit_nat_eq_self)

lemma usleep_limit: "ucast us * 3 \<le> (65535 :: u32) \<longleftrightarrow> us \<le> 21845" for us :: u16
  by (auto simp: word_le_nat_alt usleep_product)

lemma usleep_run:
  assumes "timer_runs E" and "us \<le> 21845"
  shows "\<exists>es. usleep E us s = Ret () (s\<lparr>trace := trace s @ es\<rparr>) \<and> (\<forall>e \<in> set es. is_timer_call e)"
proof -
  let ?s = "s\<lparr>trace := trace s @ [TimerSet 0]\<rparr>"
  obtain n where "n < env_fuel E" "ucast us * 3 \<le> env_timer E (timer_trace E (trace ?s) n)"
    using assms usleep_limit [of us] unfolding timer_runs_def by blast
  then obtain es where "pollM (env_fuel E) (timer_round E (ucast us * 3)) ?s = Ret () (?s\<lparr>trace := trace ?s @ es\<rparr>)"
    "\<forall>e \<in> set es. is_timer_call e"
    using timer_poll_run [of "ucast us * 3" E ?s n] by blast
  then show ?thesis
    by (intro exI [of _ "TimerSet 0 # es"]) (simp add: usleep_def timer_round_def is_timer_call_def)
qed

lemma quiet_usleep: "timer_runs E \<Longrightarrow> us \<le> 21845 \<Longrightarrow> quiet (usleep E us)"
  unfolding quiet_def wp_total_ex using usleep_run by blast

lemma is_timer_call_pins: "is_timer_call e \<Longrightarrow> pin_effect p b e = None"
  by (cases e) (simp_all add: is_timer_call_def)

lemma timer_poll_hangs:
  assumes "timer_16bit E" and "65535 < lim"
  shows "\<exists>t. pollM n (timer_round E lim) s = Halt Hang t"
proof (induction n arbitrary: s)
  case (Suc n)
  have "env_timer E (trace s) < lim" using assms by (auto simp: timer_16bit_def intro: le_less_trans)
  then show ?case using Suc.IH by (simp add: pollM_Suc_run [OF timer_round_run] del: pollM.simps)
qed simp

text \<open>An environment whose devices answer at once, used to instantiate hypotheses.\<close>

definition ideal_env :: env where
  "ideal_env = \<lparr>env_pin = \<lambda>_ _ _. True, env_spi = \<lambda>_ _ _. 0xff, env_i2c_busy = \<lambda>_. False,
     env_i2c_rx = \<lambda>_. 0x70, env_reg = \<lambda>_ _. 1, env_timer = \<lambda>_. 65535, env_ticks = \<lambda>_. 1, env_call = \<lambda>_ _. 0,
     env_msc_write = \<lambda>_ _ data. (data, True), env_msc_erase = \<lambda>_ old. map (\<lambda>_. 0xff) old,
     env_fuel = 3\<rparr>"

lemma ideal_env_timer: "timer_runs ideal_env" "timer_16bit ideal_env"
  by (auto simp: timer_runs_def timer_16bit_def ideal_env_def intro!: exI [of _ 0])

lemma ideal_env_flags: "flags_rise ideal_env"
  by (auto simp: flags_rise_def ideal_env_def intro!: exI [of _ 0])

text \<open>
  C19. The delay loop returns for every delay up to 21845 microseconds and touches nothing but
  the timer; for a longer one it never returns, because the 16-bit counter cannot reach three
  times the delay.
\<close>

theorem usleep_returns_iff:
  assumes "timer_runs E" and "timer_16bit E"
  shows "if us \<le> 21845
    then \<exists>es. usleep E us s = Ret () (s\<lparr>trace := trace s @ es\<rparr>) \<and> (\<forall>e \<in> set es. is_timer_call e)
    else \<exists>t. usleep E us s = Halt Hang t"
proof (cases "us \<le> 21845")
  case True
  then show ?thesis using usleep_run [OF assms(1)] by simp
next
  case False
  then have "65535 < (ucast us * 3 :: u32)" using usleep_limit [of us] by (metis not_le)
  from timer_poll_hangs [OF assms(2) this] show ?thesis
    using False by (simp add: usleep_def timer_round_def)
qed

theorem usleep_returns_iff_witness:
  "(\<exists>es. usleep ideal_env 1000 \<lparr>trace = []\<rparr> = Ret () \<lparr>trace = es\<rparr>) \<and> (\<exists>t. usleep ideal_env 30000 \<lparr>trace = []\<rparr> = Halt Hang t)"
  using usleep_returns_iff [OF ideal_env_timer, of 1000 "\<lparr>trace = []\<rparr>"]
    usleep_returns_iff [OF ideal_env_timer, of 30000 "\<lparr>trace = []\<rparr>"]
  by (auto simp: word_le_nat_alt)

end
