(* ===== verification/CLib.thy ===== *)
theory CLib
  imports Prelude
begin

text \<open>
  The parts of the C standard library the firmware uses on memory and strings: byte
  images of C strings, \<^verbatim>\<open>strncmp\<close>, \<^verbatim>\<open>strcpy\<close> into a buffer, and the little-endian layout
  of the integer members of a union (Cortex-M3 is little endian).
\<close>

section \<open>Strings as bytes\<close>

definition byte_of :: "char \<Rightarrow> u8" where
  "byte_of c = word_of_nat (of_char c)"

definition char_of_byte :: "u8 \<Rightarrow> char" where
  "char_of_byte b = char_of (unat b)"

text \<open>The bytes of a C string without its terminator, and with it.\<close>

definition bytes_of :: "string \<Rightarrow> u8 list" where
  "bytes_of s = map byte_of s"

definition cstr :: "string \<Rightarrow> u8 list" where
  "cstr s = bytes_of s @ [0]"

text \<open>A HOL string that is the value of a C string: it does not contain the terminator.\<close>

definition is_cstring :: "string \<Rightarrow> bool" where
  "is_cstring s \<longleftrightarrow> CHR 0x00 \<notin> set s"

lemma of_char_lt_256: "(of_char c :: nat) < 256"
  using nat_of_char_less_256 [of c] by simp

lemma char_of_byte_of [simp]: "char_of_byte (byte_of c) = c"
proof -
  have "unat (word_of_nat (of_char c) :: u8) = of_char c"
    using of_char_lt_256 [of c] by (simp add: unat_of_nat)
  then show ?thesis by (simp add: char_of_byte_def byte_of_def)
qed

lemma byte_of_char_of_byte [simp]: "byte_of (char_of_byte b) = b"
proof -
  have "unat b < 256" using unsigned_less [of b] by simp
  then have "unat b mod 256 = unat b" by simp
  then show ?thesis by (simp add: char_of_byte_def byte_of_def)
qed

lemma byte_of_inj [simp]: "byte_of c = byte_of d \<longleftrightarrow> c = d"
  by (metis char_of_byte_of)

lemma byte_of_0_iff [simp]: "byte_of c = 0 \<longleftrightarrow> c = CHR 0x00"
proof -
  have "byte_of (CHR 0x00) = 0" by (simp add: byte_of_def)
  then show ?thesis by (metis byte_of_inj)
qed

lemma length_bytes_of [simp]: "length (bytes_of s) = length s"
  by (simp add: bytes_of_def)

lemma bytes_of_inj [simp]: "bytes_of s = bytes_of t \<longleftrightarrow> s = t"
  by (simp add: bytes_of_def inj_def)

lemma bytes_of_Nil [simp]: "bytes_of s = [] \<longleftrightarrow> s = []" "[] = bytes_of s \<longleftrightarrow> s = []"
  by (auto simp: bytes_of_def)

lemma is_cstring_bytes: "is_cstring s \<longleftrightarrow> 0 \<notin> set (bytes_of s)"
  by (auto simp: is_cstring_def bytes_of_def image_iff)

section \<open>strncmp and strcpy\<close>

text \<open>
  \<^verbatim>\<open>strncmp(a, b, n)\<close> on the memory from \<open>a\<close> and from \<open>b\<close> on: the difference of the first
  pair of bytes that differ, 0 if the first \<open>n\<close> bytes or everything up to a terminator
  agree. The model gives it enough memory for the comparison to end inside.
\<close>

fun strncmp :: "u8 list \<Rightarrow> u8 list \<Rightarrow> nat \<Rightarrow> int" where
  "strncmp (x # xs) (y # ys) (Suc n) =
     (if x \<noteq> y then uint x - uint y else if x = 0 then 0 else strncmp xs ys n)"
| "strncmp _ _ _ = 0"

text \<open>The string held by a fixed-width character array: up to a terminator or the end.\<close>

definition field_string :: "u8 list \<Rightarrow> u8 list" where
  "field_string bs = takeWhile (\<lambda>b. b \<noteq> 0) bs"

lemma strncmp_eq_iff:
  assumes "0 \<notin> set s" and "length s \<le> n" and "n \<le> length a"
  shows "strncmp a (s @ [0]) n = 0 \<longleftrightarrow> field_string (take n a) = s"
  using assms
proof (induction s arbitrary: a n)
  case Nil
  then show ?case
    by (cases a; cases n) (auto simp: field_string_def uint_0_iff)
next
  case (Cons c s)
  obtain k where n: "n = Suc k" using Cons.prems by (cases n) auto
  obtain x xs where a: "a = x # xs" using Cons.prems n by (cases a) auto
  have "strncmp xs (s @ [0]) k = 0 \<longleftrightarrow> field_string (take k xs) = s"
    using Cons.prems n a by (intro Cons.IH) auto
  then show ?case
    using Cons.prems by (auto simp: n a field_string_def uint_0_iff simp flip: word_uint_eq_iff)
qed

lemma field_string_take:
  "0 \<notin> set s \<Longrightarrow> length s \<le> n \<Longrightarrow> field_string (take n (s @ [0] @ r)) = s"
proof (induction s arbitrary: n)
  case Nil
  then show ?case by (cases n) (simp_all add: field_string_def)
next
  case (Cons c s)
  then show ?case by (cases n) (auto simp: field_string_def)
qed

text \<open>
  A store of the bytes \<open>bs\<close> at offset \<open>off\<close> of an object; \<^verbatim>\<open>strcpy\<close> stores the string and
  its terminator.
\<close>

definition store_at :: "nat \<Rightarrow> u8 list \<Rightarrow> u8 list \<Rightarrow> u8 list" where
  "store_at off bs m = take off m @ bs @ drop (off + length bs) m"

definition strcpy_at :: "nat \<Rightarrow> string \<Rightarrow> u8 list \<Rightarrow> u8 list" where
  "strcpy_at off s m = store_at off (cstr s) m"

lemma length_store_at [simp]:
  "off + length bs \<le> length m \<Longrightarrow> length (store_at off bs m) = length m"
  by (simp add: store_at_def)

lemma take_store_at [simp]: "n \<le> off \<Longrightarrow> off \<le> length m \<Longrightarrow> take n (store_at off bs m) = take n m"
  by (simp add: store_at_def)

lemma take_drop_store_at [simp]:
  "off \<le> length m \<Longrightarrow> n = length bs \<Longrightarrow> take n (drop off (store_at off bs m)) = bs"
  by (simp add: store_at_def)

lemma length_cstr [simp]: "length (cstr s) = Suc (length s)"
  by (simp add: cstr_def)

section \<open>Integers in memory\<close>

text \<open>The \<open>n\<close> low bytes of a word, least significant first.\<close>

fun le_bytes :: "nat \<Rightarrow> 'a::len word \<Rightarrow> u8 list" where
  "le_bytes 0 w = []"
| "le_bytes (Suc n) w = ucast w # le_bytes n (drop_bit 8 w)"

text \<open>The value of a sequence of bytes, least significant first.\<close>

fun le_word :: "u8 list \<Rightarrow> 'a::len word" where
  "le_word [] = 0"
| "le_word (b # bs) = ucast b OR push_bit 8 (le_word bs)"

lemma length_le_bytes [simp]: "length (le_bytes n w) = n"
  by (induction n arbitrary: w) simp_all

lemma le_word_step:
  "ucast (ucast w :: u8) OR push_bit 8 (take_bit n (drop_bit 8 w)) = take_bit (8 + n) (w :: 'a::len word)"
proof (rule bit_word_eqI)
  fix k assume "k < LENGTH('a)"
  then show "bit (ucast (ucast w :: u8) OR push_bit 8 (take_bit n (drop_bit 8 w))) k
    = bit (take_bit (8 + n) w) k"
    by (cases "k < 8") (auto simp: bit_simps)
qed

lemma le_word_le_bytes: "le_word (le_bytes n w) = take_bit (8 * n) w"
  by (induction n arbitrary: w) (simp_all add: le_word_step)

lemma le_word_le_bytes_id [simp]: "LENGTH('a) \<le> 8 * n \<Longrightarrow> le_word (le_bytes n w) = (w :: 'a::len word)"
  by (simp add: le_word_le_bytes take_bit_word_eq_self)

lemma le_bytes_2: "le_bytes 2 w = [ucast w, ucast (drop_bit 8 w)]"
  by (simp add: eval_nat_numeral)

end
