(* ===== verification/Interfaces.thy ===== *)
theory Interfaces
  imports Prelude
begin

text \<open>
  The contracts between components: what a client may rely on, stated without the
  data layout behind it. Each locale is interpreted in the theory of the component that
  provides it.
\<close>

section \<open>A bounded store of settings\<close>

text \<open>
  A store with a limited number of free places: storing a key that is present, or that
  finds a free place, makes it readable and leaves every other key alone; when there is
  no place left a new key is dropped without any other effect.
\<close>

locale settings_store =
  fixes invar :: "'m \<Rightarrow> bool"
    and lookup :: "'m \<Rightarrow> 'k \<Rightarrow> 'v option"
    and store :: "'k \<Rightarrow> 'v \<Rightarrow> 'm \<Rightarrow> 'm"
    and ok_key :: "'k \<Rightarrow> bool"
    and ok_val :: "'v \<Rightarrow> bool"
    and places :: "'m \<Rightarrow> nat"
  assumes invar_store: "invar m \<Longrightarrow> ok_key k \<Longrightarrow> ok_val v \<Longrightarrow> invar (store k v m)"
    and lookup_same: "invar m \<Longrightarrow> ok_key k \<Longrightarrow> ok_val v \<Longrightarrow>
          lookup m k \<noteq> None \<or> 0 < places m \<Longrightarrow> lookup (store k v m) k = Some v"
    and lookup_other: "invar m \<Longrightarrow> ok_key k \<Longrightarrow> ok_val v \<Longrightarrow> ok_key j \<Longrightarrow> j \<noteq> k \<Longrightarrow>
          lookup (store k v m) j = lookup m j"
    and store_full: "invar m \<Longrightarrow> ok_key k \<Longrightarrow> ok_val v \<Longrightarrow>
          lookup m k = None \<Longrightarrow> places m = 0 \<Longrightarrow> store k v m = m"
    and places_store: "invar m \<Longrightarrow> ok_key k \<Longrightarrow> ok_val v \<Longrightarrow> places m \<le> Suc (places (store k v m))"
    and places_present: "invar m \<Longrightarrow> ok_key k \<Longrightarrow> ok_val v \<Longrightarrow> lookup m k \<noteq> None \<Longrightarrow>
          places (store k v m) = places m"
begin

text \<open>Storing one key is the update of a map, as long as the key has a place.\<close>

lemma store_is_update:
  assumes "invar m" and "ok_key k" and "ok_val v" and "lookup m k \<noteq> None \<or> 0 < places m"
    and "ok_key j"
  shows "lookup (store k v m) j = ((lookup m)(k \<mapsto> v)) j"
  using assms lookup_same lookup_other by (cases "j = k") auto

lemma lookup_stays:
  assumes "invar m" and "ok_key k" and "ok_val v" and "ok_key j" and "lookup m j \<noteq> None"
  shows "lookup (store k v m) j \<noteq> None"
  using assms lookup_same [of m k v] lookup_other [of m k v j] by (cases "j = k") auto

text \<open>A client that stores several keys reads all of them back.\<close>

lemma store_all:
  assumes "invar m" and "\<forall>(k, v) \<in> set kvs. ok_key k \<and> ok_val v"
    and "distinct (map fst kvs)" and "length kvs \<le> places m" and "ok_key j"
  shows "invar (fold (\<lambda>(k, v). store k v) kvs m) \<and>
    lookup (fold (\<lambda>(k, v). store k v) kvs m) j =
      (case map_of kvs j of Some v \<Rightarrow> Some v | None \<Rightarrow> lookup m j)"
  using assms
proof (induction kvs arbitrary: m)
  case Nil
  then show ?case by simp
next
  case (Cons kv kvs)
  obtain k v where kv: "kv = (k, v)" by fastforce
  have k: "ok_key k" "ok_val v" using Cons.prems kv by auto
  let ?m = "store k v m"
  have "length kvs \<le> places ?m"
    using Cons.prems places_store [OF _ k, of m] by simp
  then have IH: "invar (fold (\<lambda>(k, v). store k v) kvs ?m) \<and>
    lookup (fold (\<lambda>(k, v). store k v) kvs ?m) j =
      (case map_of kvs j of Some v \<Rightarrow> Some v | None \<Rightarrow> lookup ?m j)"
    using Cons.prems kv k by (intro Cons.IH) (auto intro: invar_store)
  have "lookup ?m j = (if j = k then Some v else lookup m j)"
    using Cons.prems k store_is_update [OF _ k, of m j] by auto
  moreover have "j = k \<Longrightarrow> map_of kvs j = None"
    using Cons.prems kv by (auto simp: map_of_eq_None_iff)
  ultimately show ?case using IH kv by (auto split: option.split)
qed

end

end
