(* ===== verification/Config.thy ===== *)
theory Config
  imports Hardware CLib Interfaces
begin

text \<open>
  The settings store of config.c: a table of 32 lines of 64 bytes kept in RAM
  (\<^verbatim>\<open>configMem\<close>) and mirrored in the user page of the flash. Line 0 holds the identifier of
  the table, the other lines hold one setting each: an identifier of up to 8 characters
  and a 56-byte union. The lemmas show that the table behaves as a finite map from
  identifiers to values, that the map survives a restart, and what happens when the
  table is full.
\<close>

section \<open>Layout\<close>

definition CONFIG_FLASH_SIZE :: nat where
  "CONFIG_FLASH_SIZE = 2048"

definition ID_SIZE :: nat where
  "ID_SIZE = 8"

definition VALUE_SIZE :: nat where
  "VALUE_SIZE = 56"

definition CONFIG_FLASH_ID :: string where
  "CONFIG_FLASH_ID = ''ASD''"

definition CONFIG_FLASH_VERSION :: string where
  "CONFIG_FLASH_VERSION = ''1''"

lemmas config_consts [simp] = CONFIG_FLASH_SIZE_def ID_SIZE_def VALUE_SIZE_def

text \<open>A line; the members of the union are views of the first bytes of \<open>cvalue\<close>.\<close>

record configLine =
  cid :: "u8 list"
  cvalue :: "u8 list"

definition line_bytes :: "configLine \<Rightarrow> u8 list" where
  "line_bytes l = cid l @ cvalue l"

definition bytes_line :: "u8 list \<Rightarrow> configLine" where
  "bytes_line bs = \<lparr>cid = take ID_SIZE bs, cvalue = drop ID_SIZE bs\<rparr>"

definition CONFIG_LINES :: nat where
  "CONFIG_LINES = CONFIG_FLASH_SIZE div (ID_SIZE + VALUE_SIZE)"

lemma CONFIG_LINES_32 [simp]: "CONFIG_LINES = 32"
  by (simp add: CONFIG_LINES_def)

definition uint32Value :: "configLine \<Rightarrow> u32" where
  "uint32Value l = le_word (take 4 (cvalue l))"

definition int16Value :: "configLine \<Rightarrow> int" where
  "int16Value l = sint (le_word (take 2 (cvalue l)) :: u16)"

text \<open>A \<^verbatim>\<open>double\<close> is its 64-bit pattern; the store never computes with it.\<close>

definition doubleValue :: "configLine \<Rightarrow> u64" where
  "doubleValue l = le_word (take 8 (cvalue l))"

text \<open>The globals of config.c, and the flash page it mirrors.\<close>

record config_state = hw +
  configMem :: "configLine list"
  flash :: "u8 list"

section \<open>Operations\<close>

definition flushConfig :: "env \<Rightarrow> ('z config_state_scheme, unit) prog" where
  "flushConfig E =
     seqM [
       ext_call ''MSC_Init'' [],
       ext_call ''MSC_ErasePage'' [],
       modify (\<lambda>s. s\<lparr>flash := env_msc_erase E (trace s) (flash s)\<rparr>),
       ext_call ''MSC_WriteWord'' [],
       bindM (gets (\<lambda>s. env_msc_write E (trace s) (flash s)
                (concat (map line_bytes (take CONFIG_LINES (configMem s)))))) (\<lambda>(page, ok).
         thenM (modify (\<lambda>s. s\<lparr>flash := page\<rparr>))
           (whenM (\<not> ok) (printf ''Can't write flash\<newline>''))),
       ext_call ''MSC_Deinit'' []]"

text \<open>The table of a page: 64 bytes per line.\<close>

fun page_lines :: "nat \<Rightarrow> u8 list \<Rightarrow> configLine list" where
  "page_lines 0 bs = []"
| "page_lines (Suc n) bs =
     bytes_line (take (ID_SIZE + VALUE_SIZE) bs) # page_lines n (drop (ID_SIZE + VALUE_SIZE) bs)"

definition clear_line :: "configLine \<Rightarrow> configLine" where
  "clear_line l = \<lparr>cid = (cid l)[0 := 0], cvalue = (cvalue l)[0 := 0]\<rparr>"

text \<open>
  The table \<^verbatim>\<open>configInit\<close> builds when line 0 does not carry the magic identifier: \<open>m\<close> is the
  memory just read from flash.
\<close>

definition fresh_table :: "configLine list \<Rightarrow> configLine list" where
  "fresh_table m =
     (let l0 = bytes_line (strcpy_at 0 CONFIG_FLASH_ID (line_bytes (m ! 0)));
          l1 = bytes_line (strcpy_at ID_SIZE CONFIG_FLASH_VERSION (line_bytes l0))
      in l1 # map clear_line (take (CONFIG_LINES - 1) (drop 1 m)) @ drop CONFIG_LINES m)"

definition configInit :: "env \<Rightarrow> ('z config_state_scheme, unit) prog" where
  "configInit E =
     thenM (modify (\<lambda>s. s\<lparr>configMem := page_lines CONFIG_LINES (flash s) @ drop CONFIG_LINES (configMem s)\<rparr>))
       (bindM (gets configMem) (\<lambda>mem.
         whenM (strncmp (line_bytes (mem ! 0)) (cstr CONFIG_FLASH_ID) (length CONFIG_FLASH_ID) \<noteq> 0)
           (seqM [
             printf ''Initializing flash\<newline>'',
             modify (\<lambda>s. s\<lparr>configMem := fresh_table (configMem s)\<rparr>),
             flushConfig E])))"

text \<open>The search loops over lines \<open>1 .. CONFIG_LINES - 1\<close>.\<close>

fun find_line :: "(configLine \<Rightarrow> bool) \<Rightarrow> configLine list \<Rightarrow> nat \<Rightarrow> nat \<Rightarrow> nat option" where
  "find_line p mem i 0 = None"
| "find_line p mem i (Suc n) = (if p (mem ! i) then Some i else find_line p mem (Suc i) n)"

definition getLine :: "string \<Rightarrow> configLine list \<Rightarrow> nat option" where
  "getLine i mem = find_line (\<lambda>l. strncmp (line_bytes l) (cstr i) 8 = 0) mem 1 (CONFIG_LINES - 1)"

definition getFreeLine :: "configLine list \<Rightarrow> nat option" where
  "getFreeLine mem = find_line (\<lambda>l. cid l ! 0 = 0) mem 1 (CONFIG_LINES - 1)"

definition configExists :: "string \<Rightarrow> configLine list \<Rightarrow> bool" where
  "configExists i mem = (getLine i mem \<noteq> None)"

definition getInt16 :: "string \<Rightarrow> configLine list \<Rightarrow> int" where
  "getInt16 i mem = (case getLine i mem of Some k \<Rightarrow> int16Value (mem ! k) | None \<Rightarrow> 0)"

definition getUint32 :: "string \<Rightarrow> configLine list \<Rightarrow> u32" where
  "getUint32 i mem = (case getLine i mem of Some k \<Rightarrow> uint32Value (mem ! k) | None \<Rightarrow> 0)"

definition getDouble :: "string \<Rightarrow> configLine list \<Rightarrow> u64" where
  "getDouble i mem = (case getLine i mem of Some k \<Rightarrow> doubleValue (mem ! k) | None \<Rightarrow> 0)"

text \<open>The string a pointer to \<open>cvalue\<close> denotes; \<open>None\<close> is the null pointer.\<close>

definition getString :: "string \<Rightarrow> configLine list \<Rightarrow> string option" where
  "getString i mem =
     (case getLine i mem of
        Some k \<Rightarrow> Some (map char_of_byte (field_string (cvalue (mem ! k))))
      | None \<Rightarrow> None)"

text \<open>
  The line a setter works on, and its two stores: \<^verbatim>\<open>strcpy\<close> of the identifier at the start of
  the line (the terminator of an 8-character identifier lands in the first byte of the
  value, which the store of the value then overwrites), and the value at offset 8.
\<close>

definition put_value :: "string \<Rightarrow> u8 list \<Rightarrow> configLine list \<Rightarrow> configLine list" where
  "put_value i bs mem =
     (case (case getLine i mem of Some k \<Rightarrow> Some k | None \<Rightarrow> getFreeLine mem) of
        Some k \<Rightarrow> mem[k := bytes_line (store_at ID_SIZE bs (strcpy_at 0 i (line_bytes (mem ! k))))]
      | None \<Rightarrow> mem)"

definition setInt16 :: "string \<Rightarrow> int \<Rightarrow> ('z config_state_scheme, unit) prog" where
  "setInt16 i v =
     (if length i > ID_SIZE then panic ''Config id length''
      else modify (\<lambda>s. s\<lparr>configMem := put_value i (le_bytes 2 (word_of_int v :: u16)) (configMem s)\<rparr>))"

definition setUint32 :: "string \<Rightarrow> u32 \<Rightarrow> ('z config_state_scheme, unit) prog" where
  "setUint32 i v =
     (if length i > ID_SIZE then panic ''Config id length''
      else modify (\<lambda>s. s\<lparr>configMem := put_value i (le_bytes 4 v) (configMem s)\<rparr>))"

definition setDouble :: "string \<Rightarrow> u64 \<Rightarrow> ('z config_state_scheme, unit) prog" where
  "setDouble i v =
     (if length i > ID_SIZE then panic ''Config id length''
      else modify (\<lambda>s. s\<lparr>configMem := put_value i (le_bytes 8 v) (configMem s)\<rparr>))"

definition setString :: "string \<Rightarrow> string \<Rightarrow> ('z config_state_scheme, unit) prog" where
  "setString i v =
     (if length i > ID_SIZE then panic ''Config id length''
      else if length v \<ge> VALUE_SIZE then panic ''Config value length''
      else modify (\<lambda>s. s\<lparr>configMem := put_value i (cstr v) (configMem s)\<rparr>))"

definition clearConfig :: "env \<Rightarrow> ('z config_state_scheme, unit) prog" where
  "clearConfig E =
     seqM [
       modify (\<lambda>s. s\<lparr>configMem := (configMem s)[0 := (configMem s ! 0)\<lparr>cid := (cid (configMem s ! 0))[0 := 0]\<rparr>]\<rparr>),
       flushConfig E,
       configInit E]"

section \<open>Well-formed tables\<close>

definition line_ok :: "configLine \<Rightarrow> bool" where
  "line_ok l \<longleftrightarrow> length (cid l) = ID_SIZE \<and> length (cvalue l) = VALUE_SIZE"

text \<open>The identifier of a line; a free line has the empty one.\<close>

definition line_id :: "configLine \<Rightarrow> u8 list" where
  "line_id l = field_string (cid l)"

text \<open>
  The invariant of the table: 33 lines of the right size, the magic identifier in line 0,
  and no two settings with the same identifier.
\<close>

definition config_wf :: "configLine list \<Rightarrow> bool" where
  "config_wf mem \<longleftrightarrow>
     length mem = CONFIG_LINES + 1 \<and> (\<forall>l \<in> set mem. line_ok l) \<and>
     take (length CONFIG_FLASH_ID) (cid (mem ! 0)) = bytes_of CONFIG_FLASH_ID \<and>
     (\<forall>j \<in> {1..<CONFIG_LINES}. \<forall>k \<in> {1..<CONFIG_LINES}.
        line_id (mem ! j) = line_id (mem ! k) \<longrightarrow> line_id (mem ! j) \<noteq> [] \<longrightarrow> j = k)"

definition ok_id :: "string \<Rightarrow> bool" where
  "ok_id i \<longleftrightarrow> is_cstring i \<and> i \<noteq> [] \<and> length i \<le> ID_SIZE"

definition free_lines :: "configLine list \<Rightarrow> nat" where
  "free_lines mem = length (filter (\<lambda>k. line_id (mem ! k) = []) [1..<CONFIG_LINES])"

lemma line_ok_len: "line_ok l \<Longrightarrow> length (line_bytes l) = 64"
  by (simp add: line_ok_def line_bytes_def)

lemma bytes_line_bytes [simp]: "line_ok l \<Longrightarrow> bytes_line (line_bytes l) = l"
  by (simp add: line_ok_def line_bytes_def bytes_line_def)

lemma line_id_eq_strncmp:
  assumes "line_ok l" and "ok_id i"
  shows "strncmp (line_bytes l) (cstr i) 8 = 0 \<longleftrightarrow> line_id l = bytes_of i"
  using assms strncmp_eq_iff [of "bytes_of i" 8 "line_bytes l"]
  by (simp add: ok_id_def is_cstring_bytes cstr_def line_id_def line_bytes_def line_ok_def)

lemma free_line_iff: "line_ok l \<Longrightarrow> cid l ! 0 = 0 \<longleftrightarrow> line_id l = []"
  by (cases "cid l") (auto simp: line_ok_def line_id_def field_string_def)

section \<open>Searching\<close>

lemma find_line_Some:
  "find_line p mem i n = Some k \<Longrightarrow> i \<le> k \<and> k < i + n \<and> p (mem ! k)"
  by (induction n arbitrary: i) (fastforce split: if_splits)+

lemma find_line_None: "find_line p mem i n = None \<longleftrightarrow> (\<forall>k \<in> {i..<i + n}. \<not> p (mem ! k))"
proof (induction n arbitrary: i)
  case (Suc n)
  have "{i..<i + Suc n} = insert i {Suc i..<Suc i + n}" by auto
  then show ?case using Suc.IH [of "Suc i"] by simp
qed simp

lemma config_wf_line: "config_wf mem \<Longrightarrow> k \<le> 32 \<Longrightarrow> line_ok (mem ! k)"
  by (auto simp: config_wf_def)

lemma getLine_Some_iff:
  assumes wf: "config_wf mem" and i: "ok_id i"
  shows "getLine i mem = Some k \<longleftrightarrow> 1 \<le> k \<and> k < 32 \<and> line_id (mem ! k) = bytes_of i"
proof
  assume "getLine i mem = Some k"
  from find_line_Some [OF this [unfolded getLine_def]]
  show "1 \<le> k \<and> k < 32 \<and> line_id (mem ! k) = bytes_of i"
    using line_id_eq_strncmp [OF config_wf_line [OF wf] i, of k] by simp
next
  assume k: "1 \<le> k \<and> k < 32 \<and> line_id (mem ! k) = bytes_of i"
  then have hit: "strncmp (line_bytes (mem ! k)) (cstr i) 8 = 0"
    using line_id_eq_strncmp [OF config_wf_line [OF wf] i] by simp
  then have "getLine i mem \<noteq> None"
    using k by (auto simp: getLine_def find_line_None)
  then obtain j where j: "getLine i mem = Some j" by blast
  from find_line_Some [OF this [unfolded getLine_def]]
  have "1 \<le> j" "j < 32" "line_id (mem ! j) = bytes_of i"
    using line_id_eq_strncmp [OF config_wf_line [OF wf] i] by auto
  moreover have "line_id (mem ! k) \<noteq> []" using k i by (simp add: ok_id_def)
  ultimately have "j = k" using wf k by (auto simp: config_wf_def)
  with j show "getLine i mem = Some k" by simp
qed

lemma getLine_None_iff:
  assumes "config_wf mem" and "ok_id i"
  shows "getLine i mem = None \<longleftrightarrow> (\<forall>k \<in> {1..<32}. line_id (mem ! k) \<noteq> bytes_of i)"
  using line_id_eq_strncmp [OF config_wf_line [OF assms(1)] assms(2)]
  by (auto simp: getLine_def find_line_None)

lemma getFreeLine_Some:
  assumes "config_wf mem" and "getFreeLine mem = Some k"
  shows "1 \<le> k" and "k < 32" and "line_id (mem ! k) = []"
  using find_line_Some [OF assms(2) [unfolded getFreeLine_def]]
    free_line_iff [OF config_wf_line [OF assms(1)]] by auto

lemma getFreeLine_None_iff:
  assumes "config_wf mem"
  shows "getFreeLine mem = None \<longleftrightarrow> free_lines mem = 0"
  using free_line_iff [OF config_wf_line [OF assms]]
  by (auto simp: getFreeLine_def find_line_None free_lines_def filter_empty_conv)

section \<open>Writing a line\<close>

definition put_line :: "string \<Rightarrow> u8 list \<Rightarrow> configLine \<Rightarrow> configLine" where
  "put_line i bs l = bytes_line (store_at ID_SIZE bs (strcpy_at 0 i (line_bytes l)))"

lemma put_line_facts:
  assumes "line_ok l" and "ok_id i" and "length bs \<le> VALUE_SIZE"
  shows "line_ok (put_line i bs l)"
    and "line_id (put_line i bs l) = bytes_of i"
    and "take (length bs) (cvalue (put_line i bs l)) = bs"
proof -
  let ?m = "strcpy_at 0 i (line_bytes l)"
  have len: "length ?m = 64"
    using assms line_ok_len [OF assms(1)] by (simp add: strcpy_at_def ok_id_def)
  then show "line_ok (put_line i bs l)"
    using assms by (simp add: put_line_def line_ok_def bytes_line_def)
  have i: "length i \<le> 8" "0 \<notin> set (bytes_of i)"
    using assms by (auto simp: ok_id_def is_cstring_bytes)
  have "cid (put_line i bs l) = take 8 ?m"
    using len by (simp add: put_line_def bytes_line_def)
  also have "\<dots> = take 8 (bytes_of i @ [0] @ drop (Suc (length i)) (line_bytes l))"
    by (simp add: strcpy_at_def store_at_def cstr_def)
  finally show "line_id (put_line i bs l) = bytes_of i"
    by (simp only: line_id_def field_string_take [OF i(2)] length_bytes_of i(1))
  show "take (length bs) (cvalue (put_line i bs l)) = bs"
    using len assms by (simp add: put_line_def bytes_line_def store_at_def)
qed

text \<open>The line a setter writes to, if there is one.\<close>

definition target_line :: "string \<Rightarrow> configLine list \<Rightarrow> nat option" where
  "target_line i mem = (case getLine i mem of Some k \<Rightarrow> Some k | None \<Rightarrow> getFreeLine mem)"

lemma put_value_eq:
  "put_value i bs mem =
     (case target_line i mem of Some k \<Rightarrow> mem[k := put_line i bs (mem ! k)] | None \<Rightarrow> mem)"
  by (simp add: put_value_def target_line_def put_line_def split: option.split)

lemma target_line_Some:
  assumes wf: "config_wf mem" and i: "ok_id i" and t: "target_line i mem = Some k"
  shows "1 \<le> k" and "k < 32" and "line_id (mem ! k) = [] \<or> line_id (mem ! k) = bytes_of i"
    and "\<And>j. 1 \<le> j \<Longrightarrow> j < 32 \<Longrightarrow> j \<noteq> k \<Longrightarrow> line_id (mem ! j) \<noteq> bytes_of i"
proof -
  have "(getLine i mem = Some k) \<or> (getLine i mem = None \<and> getFreeLine mem = Some k)"
    using t by (auto simp: target_line_def split: option.splits)
  then show "1 \<le> k" "k < 32" "line_id (mem ! k) = [] \<or> line_id (mem ! k) = bytes_of i"
    using getLine_Some_iff [OF wf i] getFreeLine_Some [OF wf] by blast+
  fix j assume j: "1 \<le> j" "j < 32" "j \<noteq> k"
  show "line_id (mem ! j) \<noteq> bytes_of i"
  proof
    assume "line_id (mem ! j) = bytes_of i"
    then have "getLine i mem = Some j" using j getLine_Some_iff [OF wf i] by blast
    then show False using t j by (simp add: target_line_def)
  qed
qed

lemma put_value_wf:
  assumes wf: "config_wf mem" and i: "ok_id i" and bs: "length bs \<le> VALUE_SIZE"
  shows "config_wf (put_value i bs mem)"
proof (cases "target_line i mem")
  case None
  then show ?thesis using wf by (simp add: put_value_eq)
next
  case (Some k)
  note t = target_line_Some [OF wf i Some]
  note pl = put_line_facts [OF config_wf_line [OF wf] i bs, of k]
  let ?mem = "mem[k := put_line i bs (mem ! k)]"
  have ids: "line_id (?mem ! j) = (if j = k then bytes_of i else line_id (mem ! j))"
    if "j < 32" for j
    using that wf t(2) pl(2) by (auto simp: config_wf_def)
  have "j = n" if "1 \<le> j" "j < 32" "1 \<le> n" "n < 32"
    "line_id (?mem ! j) = line_id (?mem ! n)" "line_id (?mem ! j) \<noteq> []" for j n
    using that wf t(4) [of j] t(4) [of n] ids by (auto simp: config_wf_def split: if_splits)
  moreover have "line_ok l" if "l \<in> set ?mem" for l
    using that wf pl(1) t(2) by (auto simp: config_wf_def dest!: set_update_subset_insert [THEN subsetD])
  ultimately show ?thesis
    using wf t Some by (auto simp: put_value_eq config_wf_def)
qed

lemma getLine_put_value_same:
  assumes wf: "config_wf mem" and i: "ok_id i" and bs: "length bs \<le> VALUE_SIZE"
    and t: "target_line i mem = Some k"
  shows "getLine i (put_value i bs mem) = Some k"
    and "take (length bs) (cvalue (put_value i bs mem ! k)) = bs"
proof -
  note tl = target_line_Some [OF wf i t]
  note pl = put_line_facts [OF config_wf_line [OF wf] i bs, of k]
  have "length mem = 33" using wf by (simp add: config_wf_def)
  then have nth: "put_value i bs mem ! k = put_line i bs (mem ! k)"
    using tl(2) t by (simp add: put_value_eq)
  then show "take (length bs) (cvalue (put_value i bs mem ! k)) = bs"
    using pl(3) tl(2) by simp
  show "getLine i (put_value i bs mem) = Some k"
    using getLine_Some_iff [OF put_value_wf [OF wf i bs] i] tl nth pl(2) by simp
qed

lemma getLine_put_value_other:
  assumes wf: "config_wf mem" and i: "ok_id i" and j: "ok_id j" and ne: "j \<noteq> i"
    and bs: "length bs \<le> VALUE_SIZE"
  shows "getLine j (put_value i bs mem) = getLine j mem"
    and "getLine j mem = Some k \<Longrightarrow> put_value i bs mem ! k = mem ! k"
proof -
  have nth: "put_value i bs mem ! k = mem ! k"
    if "line_id (mem ! k) = bytes_of j" "1 \<le> k" "k < 32" for k
  proof (cases "target_line i mem")
    case (Some t)
    have "t \<noteq> k" using target_line_Some(3) [OF wf i Some] that j ne by (auto simp: ok_id_def)
    then show ?thesis using Some by (simp add: put_value_eq)
  qed (simp add: put_value_eq)
  then show "getLine j mem = Some k \<Longrightarrow> put_value i bs mem ! k = mem ! k"
    using getLine_Some_iff [OF wf j] by blast
  have bwd: "line_id (mem ! k) = bytes_of j"
    if "line_id (put_value i bs mem ! k) = bytes_of j" "1 \<le> k" "k < 32" for k
  proof (cases "target_line i mem")
    case (Some t)
    note pl = put_line_facts(2) [OF config_wf_line [OF wf] i bs, of t]
    have "t < 32" "length mem = 33"
      using target_line_Some(2) [OF wf i Some] wf by (auto simp: config_wf_def)
    then show ?thesis
      using that ne pl Some by (cases "t = k") (auto simp: put_value_eq)
  qed (use that in \<open>simp add: put_value_eq\<close>)
  have "getLine j (put_value i bs mem) = Some k \<longleftrightarrow> getLine j mem = Some k" for k
    using getLine_Some_iff [OF wf j] getLine_Some_iff [OF put_value_wf [OF wf i bs] j] nth bwd
    by metis
  then show "getLine j (put_value i bs mem) = getLine j mem"
    by (metis not_None_eq)
qed

lemma target_line_None_iff:
  assumes "config_wf mem"
  shows "target_line i mem = None \<longleftrightarrow> getLine i mem = None \<and> free_lines mem = 0"
  using getFreeLine_None_iff [OF assms] by (auto simp: target_line_def split: option.splits)

section \<open>The table as a store of settings\<close>

text \<open>
  A setting seen through one member of the union: \<open>f\<close> is the view, and a value is
  written as the bytes \<open>g\<close> gives it.
\<close>

definition view :: "(configLine \<Rightarrow> 'v) \<Rightarrow> configLine list \<Rightarrow> string \<Rightarrow> 'v option" where
  "view f mem i = map_option (\<lambda>k. f (mem ! k)) (getLine i mem)"

lemma free_lines_put_value:
  assumes wf: "config_wf mem" and i: "ok_id i" and bs: "length bs \<le> VALUE_SIZE"
  shows "free_lines mem \<le> Suc (free_lines (put_value i bs mem))"
    and "getLine i mem \<noteq> None \<Longrightarrow> free_lines (put_value i bs mem) = free_lines mem"
proof -
  have ids: "line_id (put_value i bs mem ! j) = (if target_line i mem = Some j then bytes_of i else line_id (mem ! j))"
    if "j < 32" for j
  proof (cases "target_line i mem")
    case (Some t)
    have "t < 32" "length mem = 33"
      using target_line_Some(2) [OF wf i Some] wf by (auto simp: config_wf_def)
    then show ?thesis
      using Some put_line_facts(2) [OF config_wf_line [OF wf] i bs, of t]
      by (auto simp: put_value_eq)
  qed (simp add: put_value_eq)
  have count: "free_lines m = card {j. 1 \<le> j \<and> j < 32 \<and> line_id (m ! j) = []}" for m
  proof -
    have "{j \<in> set [1..<CONFIG_LINES]. line_id (m ! j) = []} = {j. 1 \<le> j \<and> j < 32 \<and> line_id (m ! j) = []}"
      by auto
    then show ?thesis
      by (metis free_lines_def distinct_card distinct_filter distinct_upt set_filter)
  qed
  let ?F = "{j. 1 \<le> j \<and> j < 32 \<and> line_id (mem ! j) = []}"
  let ?G = "{j. 1 \<le> j \<and> j < 32 \<and> line_id (put_value i bs mem ! j) = []}"
  have fin: "finite ?F" "finite ?G" by (auto intro: finite_subset [of _ "{..<32}"])
  have "?F \<subseteq> insert (the (target_line i mem)) ?G" using ids by auto
  then have "card ?F \<le> card (insert (the (target_line i mem)) ?G)"
    using fin by (intro card_mono) auto
  also have "\<dots> \<le> Suc (card ?G)" using fin by (simp add: card_insert_if)
  finally show "free_lines mem \<le> Suc (free_lines (put_value i bs mem))" by (simp add: count)
  assume "getLine i mem \<noteq> None"
  then obtain k where k: "getLine i mem = Some k" by blast
  then have "target_line i mem = Some k" by (simp add: target_line_def)
  moreover have "line_id (mem ! k) = bytes_of i" using k getLine_Some_iff [OF wf i] by blast
  ultimately have "?F = ?G" using ids i by (auto simp: ok_id_def split: if_splits)
  then show "free_lines (put_value i bs mem) = free_lines mem" by (simp add: count)
qed

lemma view_settings_store:
  assumes len: "\<And>v. ok v \<Longrightarrow> length (g v) \<le> VALUE_SIZE"
    and rd: "\<And>l v. ok v \<Longrightarrow> take (length (g v)) (cvalue l) = g v \<Longrightarrow> f l = v"
  shows "settings_store config_wf (view f) (\<lambda>i v. put_value i (g v)) ok_id ok free_lines"
proof
  fix m k v
  assume a: "config_wf m" "ok_id k" "ok v"
  note l = len [OF a(3)]
  show "config_wf (put_value k (g v) m)" by (rule put_value_wf [OF a(1,2) l])
  show "free_lines m \<le> Suc (free_lines (put_value k (g v) m))"
    by (rule free_lines_put_value [OF a(1,2) l])
  show "view f m k \<noteq> None \<Longrightarrow> free_lines (put_value k (g v) m) = free_lines m"
    using free_lines_put_value(2) [OF a(1,2) l] by (simp add: view_def)
  show "view f m k \<noteq> None \<or> 0 < free_lines m \<Longrightarrow> view f (put_value k (g v) m) k = Some v"
  proof -
    assume "view f m k \<noteq> None \<or> 0 < free_lines m"
    then have "target_line k m \<noteq> None"
      using target_line_None_iff [OF a(1)] by (auto simp: view_def)
    then obtain t where t: "target_line k m = Some t" by blast
    show ?thesis
      using getLine_put_value_same [OF a(1,2) l t] rd [OF a(3)] by (simp add: view_def)
  qed
  show "view f m k = None \<Longrightarrow> free_lines m = 0 \<Longrightarrow> put_value k (g v) m = m"
    using target_line_None_iff [OF a(1), of k] by (auto simp: view_def put_value_eq split: option.splits)
  fix j assume j: "ok_id j" "j \<noteq> k"
  show "view f (put_value k (g v) m) j = view f m j"
    using getLine_put_value_other [OF a(1,2) j l] by (cases "getLine j m") (auto simp: view_def)
qed

text \<open>The four views of config.c, each a bounded store of settings.\<close>

interpretation u32_store: settings_store config_wf "view uint32Value"
  "\<lambda>i v. put_value i (le_bytes 4 v)" ok_id "\<lambda>_. True" free_lines
  by (rule view_settings_store) (simp_all add: uint32Value_def)

interpretation i16_store: settings_store config_wf "view int16Value"
  "\<lambda>i v. put_value i (le_bytes 2 (word_of_int v :: u16))" ok_id
  "\<lambda>v. - 32768 \<le> v \<and> v < 32768" free_lines
  by (rule view_settings_store)
    (simp_all add: int16Value_def signed_of_int signed_take_bit_int_eq_self)

interpretation double_store: settings_store config_wf "view doubleValue"
  "\<lambda>i v. put_value i (le_bytes 8 v)" ok_id "\<lambda>_. True" free_lines
  by (rule view_settings_store) (simp_all add: doubleValue_def)

lemma field_string_prefix:
  "take (length s + 1) bs = s @ [0] \<Longrightarrow> 0 \<notin> set s \<Longrightarrow> field_string bs = s"
proof (induction s arbitrary: bs)
  case Nil
  then show ?case by (cases bs) (auto simp: field_string_def)
next
  case (Cons c s)
  then show ?case by (cases bs) (auto simp: field_string_def)
qed

interpretation string_store: settings_store config_wf
  "view (\<lambda>l. map char_of_byte (field_string (cvalue l)))" "\<lambda>i v. put_value i (cstr v)" ok_id
  "\<lambda>v. is_cstring v \<and> length v < VALUE_SIZE" free_lines
proof (rule view_settings_store)
  fix l :: configLine and v
  assume v: "is_cstring v \<and> length v < VALUE_SIZE" "take (length (cstr v)) (cvalue l) = cstr v"
  then have "field_string (cvalue l) = bytes_of v"
    by (intro field_string_prefix) (simp_all add: cstr_def is_cstring_bytes)
  then show "map char_of_byte (field_string (cvalue l)) = v"
    by (simp add: bytes_of_def comp_def)
qed simp

lemma getUint32_view: "getUint32 i mem = (case view uint32Value mem i of Some v \<Rightarrow> v | None \<Rightarrow> 0)"
  by (simp add: getUint32_def view_def split: option.split)

lemma getInt16_view: "getInt16 i mem = (case view int16Value mem i of Some v \<Rightarrow> v | None \<Rightarrow> 0)"
  by (simp add: getInt16_def view_def split: option.split)

lemma getDouble_view: "getDouble i mem = (case view doubleValue mem i of Some v \<Rightarrow> v | None \<Rightarrow> 0)"
  by (simp add: getDouble_def view_def split: option.split)

lemma getString_view: "getString i mem = view (\<lambda>l. map char_of_byte (field_string (cvalue l))) mem i"
  by (simp add: getString_def view_def split: option.split)

section \<open>The table and the flash page\<close>

definition page_of :: "configLine list \<Rightarrow> u8 list" where
  "page_of mem = concat (map line_bytes (take CONFIG_LINES mem))"

text \<open>
  What the flash driver documents: erasing a page and then programming it stores the
  data and reports success. A named hypothesis of the properties that need it.
\<close>

definition msc_works :: "env \<Rightarrow> bool" where
  "msc_works E \<longleftrightarrow>
     (\<forall>tr tr' old data. length data = CONFIG_FLASH_SIZE \<longrightarrow>
        env_msc_write E tr (env_msc_erase E tr' old) data = (data, True))"

lemma length_concat_lines:
  "(\<forall>l \<in> set ls. line_ok l) \<Longrightarrow> length (concat (map line_bytes ls)) = 64 * length ls"
  by (induction ls) (auto simp: line_ok_len)

lemma page_lines_concat:
  "(\<forall>l \<in> set ls. line_ok l) \<Longrightarrow> page_lines (length ls) (concat (map line_bytes ls)) = ls"
proof (induction ls)
  case (Cons l ls)
  then have "length (line_bytes l) = 64" by (simp add: line_ok_len)
  with Cons show ?case by simp
qed simp

lemma page_lines_ok: "length bs = 64 * n \<Longrightarrow> l \<in> set (page_lines n bs) \<Longrightarrow> line_ok l"
  by (induction n bs rule: page_lines.induct) (auto simp: line_ok_def bytes_line_def)

lemma length_page_lines [simp]: "length (page_lines n bs) = n"
  by (induction n bs rule: page_lines.induct) simp_all

lemma page_of_facts:
  assumes "config_wf mem"
  shows "length (page_of mem) = CONFIG_FLASH_SIZE" and "page_lines CONFIG_LINES (page_of mem) = take CONFIG_LINES mem"
proof -
  have ok: "\<forall>l \<in> set (take 32 mem). line_ok l" and len: "length (take 32 mem) = 32"
    using assms by (auto simp: config_wf_def dest: in_set_takeD)
  show "length (page_of mem) = CONFIG_FLASH_SIZE"
    using length_concat_lines [OF ok] len by (simp add: page_of_def)
  show "page_lines CONFIG_LINES (page_of mem) = take CONFIG_LINES mem"
    using page_lines_concat [OF ok] len by (simp add: page_of_def)
qed

definition msc_calls :: "io list" where
  "msc_calls = [Ext ''MSC_Init'' [], Ext ''MSC_ErasePage'' [], Ext ''MSC_WriteWord'' [], Ext ''MSC_Deinit'' []]"

lemma flushConfig_run:
  assumes "msc_works E" and "length (page_of (configMem s)) = CONFIG_FLASH_SIZE"
  shows "flushConfig E s = Ret () (s\<lparr>flash := page_of (configMem s), trace := trace s @ msc_calls\<rparr>)"
  using assms
  by (simp add: flushConfig_def msc_works_def page_of_def msc_calls_def)

lemma header_strncmp:
  assumes "line_ok l"
  shows "strncmp (line_bytes l) (cstr CONFIG_FLASH_ID) (length CONFIG_FLASH_ID) = 0
    \<longleftrightarrow> take (length CONFIG_FLASH_ID) (cid l) = bytes_of CONFIG_FLASH_ID"
proof -
  have "field_string xs = bytes_of CONFIG_FLASH_ID \<longleftrightarrow> xs = bytes_of CONFIG_FLASH_ID" if "length xs = 3" for xs
  proof
    assume "field_string xs = bytes_of CONFIG_FLASH_ID"
    then show "xs = bytes_of CONFIG_FLASH_ID"
      using that by (metis CONFIG_FLASH_ID_def append.right_neutral append_eq_append_conv field_string_def
          length_bytes_of list.size(3,4) numeral_3_eq_3 takeWhile_dropWhile_id
          add.right_neutral add_Suc_right)
  next
    assume "xs = bytes_of CONFIG_FLASH_ID"
    then show "field_string xs = bytes_of CONFIG_FLASH_ID"
      by (simp add: field_string_def CONFIG_FLASH_ID_def bytes_of_def)
  qed
  then show ?thesis
    using assms strncmp_eq_iff [of "bytes_of CONFIG_FLASH_ID" 3 "line_bytes l"]
    by (simp add: line_ok_def line_bytes_def cstr_def bytes_of_def CONFIG_FLASH_ID_def numeral_3_eq_3)
qed

text \<open>A table written by a flush is read back as it was.\<close>

lemma configInit_run:
  assumes "config_wf mem" and "flash s = page_of mem"
  shows "configInit E s = Ret () (s\<lparr>configMem := take CONFIG_LINES mem @ drop CONFIG_LINES (configMem s)\<rparr>)"
proof -
  have "length mem = 33" "line_ok (mem ! 0)"
    "take (length CONFIG_FLASH_ID) (cid (mem ! 0)) = bytes_of CONFIG_FLASH_ID"
    using assms(1) by (auto simp: config_wf_def)
  then have "strncmp (line_bytes (mem ! 0)) (cstr CONFIG_FLASH_ID) (length CONFIG_FLASH_ID) = 0"
    and "(take 32 mem @ r) ! 0 = mem ! 0" for r
    using header_strncmp by (auto simp: nth_append)
  then show ?thesis
    using page_of_facts(2) [OF assms(1)] assms(2) by (simp add: configInit_def)
qed

text \<open>What a table reads does not depend on the line behind the page.\<close>

lemma find_line_cong:
  "(\<And>k. i \<le> k \<Longrightarrow> k < i + n \<Longrightarrow> m ! k = m' ! k) \<Longrightarrow> find_line p m i n = find_line p m' i n"
  by (induction n arbitrary: i) simp_all

lemma view_take_cong:
  assumes "take CONFIG_LINES m = take CONFIG_LINES m'"
  shows "view f m i = view f m' i"
proof -
  have nth: "m ! k = m' ! k" if "k < 32" for k
    using assms that by (metis CONFIG_LINES_32 nth_take)
  then have "getLine i m = getLine i m'"
    unfolding getLine_def by (intro find_line_cong) simp
  moreover have "k < 32" if "getLine i m' = Some k" for k
    using find_line_Some [OF that [unfolded getLine_def]] by simp
  ultimately show ?thesis
    using nth by (cases "getLine i m'") (auto simp: view_def)
qed

section \<open>A page without a table\<close>

text \<open>The empty table: the magic line and 31 free lines.\<close>

definition config_empty :: "configLine list \<Rightarrow> bool" where
  "config_empty mem \<longleftrightarrow> config_wf mem \<and> free_lines mem = CONFIG_LINES - 1"

lemma config_empty_view:
  assumes "config_empty mem" and "ok_id i"
  shows "view f mem i = None"
proof -
  have "line_id (mem ! k) = []" if "k \<in> {1..<32}" for k
    using assms(1) that length_filter_less [of k "[1..<32]" "\<lambda>k. line_id (mem ! k) = []"]
    by (auto simp: config_empty_def free_lines_def simp del: upt_Suc)
  then show ?thesis
    using getLine_None_iff [of mem i] assms by (auto simp: view_def config_empty_def ok_id_def)
qed

lemma clear_line_facts: "line_ok l \<Longrightarrow> line_ok (clear_line l) \<and> line_id (clear_line l) = []"
  by (cases "cid l") (auto simp: line_ok_def clear_line_def line_id_def field_string_def)

lemma fresh_header:
  assumes "line_ok l"
  shows "let l0 = bytes_line (strcpy_at 0 CONFIG_FLASH_ID (line_bytes l));
             l1 = bytes_line (strcpy_at ID_SIZE CONFIG_FLASH_VERSION (line_bytes l0))
         in line_ok l1 \<and> take (length CONFIG_FLASH_ID) (cid l1) = bytes_of CONFIG_FLASH_ID"
  using assms
  by (simp add: Let_def line_ok_def bytes_line_def line_bytes_def strcpy_at_def store_at_def
      cstr_def bytes_of_def CONFIG_FLASH_ID_def CONFIG_FLASH_VERSION_def)

lemma fresh_table_empty:
  assumes "length m = CONFIG_LINES + 1" and "\<forall>l \<in> set m. line_ok l"
  shows "config_empty (fresh_table m)"
proof -
  define l1 where "l1 = hd (fresh_table m)"
  define rest where "rest = map clear_line (take 31 (drop 1 m))"
  have ft: "fresh_table m = l1 # rest @ drop 32 m"
    by (simp add: l1_def rest_def fresh_table_def Let_def)
  have "line_ok (m ! 0)" using assms by simp
  from fresh_header [OF this] have l1: "line_ok l1" "take (length CONFIG_FLASH_ID) (cid l1) = bytes_of CONFIG_FLASH_ID"
    by (simp_all add: l1_def fresh_table_def Let_def)
  have len: "length rest = 31" using assms(1) by (simp add: rest_def)
  have ok: "line_ok l" "line_id l = []" if "l \<in> set rest" for l
    using that assms(2) clear_line_facts by (auto simp: rest_def dest!: in_set_takeD in_set_dropD)
  have ids: "line_id (fresh_table m ! k) = []" if "k \<in> {1..<32}" for k
    using that len ok(2) by (cases k) (auto simp: ft nth_append)
  have "config_wf (fresh_table m)"
    using assms l1 len ok(1) ids unfolding config_wf_def
    by (auto simp: ft dest: in_set_dropD)
  moreover have "free_lines (fresh_table m) = length [1..<32]"
    unfolding free_lines_def using ids by (subst filter_True) auto
  ultimately show ?thesis by (simp add: config_empty_def)
qed

lemma configInit_fresh:
  assumes "msc_works E" and "length (flash s) = CONFIG_FLASH_SIZE"
    and "length (configMem s) = CONFIG_LINES + 1" and "\<forall>l \<in> set (configMem s). line_ok l"
    and hdr: "take (length CONFIG_FLASH_ID) (flash s) \<noteq> bytes_of CONFIG_FLASH_ID"
  shows "\<exists>t. configInit E s = Ret () t \<and> config_empty (configMem t) \<and> flash t = page_of (configMem t)"
proof -
  define m where "m = page_lines 32 (flash s) @ drop 32 (configMem s)"
  have len: "length m = CONFIG_LINES + 1" using assms(3) by (simp add: m_def)
  have ok: "\<forall>l \<in> set m. line_ok l"
    using assms(2,4) page_lines_ok [of "flash s" 32] by (auto simp: m_def dest: in_set_dropD)
  have "m ! 0 = bytes_line (take 64 (flash s))"
    by (simp add: m_def nth_append numeral_eq_Suc)
  then have "take (length CONFIG_FLASH_ID) (cid (m ! 0)) \<noteq> bytes_of CONFIG_FLASH_ID"
    using hdr by (simp add: bytes_line_def CONFIG_FLASH_ID_def)
  then have "strncmp (line_bytes (m ! 0)) (cstr CONFIG_FLASH_ID) (length CONFIG_FLASH_ID) \<noteq> 0"
    using header_strncmp ok len by simp
  moreover have e: "config_empty (fresh_table m)" by (rule fresh_table_empty [OF len ok])
  moreover have "length (page_of (fresh_table m)) = CONFIG_FLASH_SIZE"
    using e page_of_facts(1) by (simp add: config_empty_def)
  ultimately show ?thesis
    by (simp add: configInit_def m_def [symmetric] flushConfig_run [OF assms(1)] thenM_def bindM_def)
qed

lemma clearConfig_empties:
  assumes E: "msc_works E" and wf: "config_wf (configMem s)"
  shows "\<exists>t. clearConfig E s = Ret () t \<and> config_empty (configMem t) \<and> flash t = page_of (configMem t)"
proof -
  define mem where "mem = (configMem s)[0 := (configMem s ! 0)\<lparr>cid := (cid (configMem s ! 0))[0 := 0]\<rparr>]"
  have l: "length mem = 33" and ok: "\<forall>l \<in> set mem. line_ok l"
    using wf by (auto simp: mem_def config_wf_def line_ok_def dest!: set_update_subset_insert [THEN subsetD])
  have ok32: "\<forall>l \<in> set (take 32 mem). line_ok l" using ok by (auto dest: in_set_takeD)
  have len: "length (page_of mem) = CONFIG_FLASH_SIZE"
    using length_concat_lines [OF ok32] l by (simp add: page_of_def)
  have "cid (mem ! 0) ! 0 = 0" "length (cid (mem ! 0)) = 8"
    using wf l by (auto simp: mem_def config_wf_def line_ok_def)
  then have "take 3 (cid (mem ! 0)) \<noteq> bytes_of CONFIG_FLASH_ID"
    by (cases "cid (mem ! 0)") (auto simp: CONFIG_FLASH_ID_def bytes_of_def)
  moreover have "take 3 (page_of mem) = take 3 (cid (mem ! 0))"
    using l \<open>length (cid (mem ! 0)) = 8\<close> by (cases mem) (auto simp: page_of_def line_bytes_def)
  ultimately have hdr: "take (length CONFIG_FLASH_ID) (page_of mem) \<noteq> bytes_of CONFIG_FLASH_ID"
    by (simp add: CONFIG_FLASH_ID_def numeral_3_eq_3)
  let ?s = "s\<lparr>configMem := mem, flash := page_of mem, trace := trace s @ msc_calls\<rparr>"
  have "flushConfig E (s\<lparr>configMem := mem\<rparr>) = Ret () ?s"
    using flushConfig_run [OF E, of "s\<lparr>configMem := mem\<rparr>"] len by simp
  moreover obtain t where "configInit E ?s = Ret () t" "config_empty (configMem t)" "flash t = page_of (configMem t)"
    using configInit_fresh [OF E, of ?s] len l ok hdr by auto
  ultimately show ?thesis
    by (simp add: clearConfig_def mem_def [symmetric] thenM_def bindM_def)
qed

section \<open>Properties\<close>

text \<open>A table with no settings, the concrete instance used below.\<close>

definition blank_line :: configLine where
  "blank_line = \<lparr>cid = replicate 8 0, cvalue = replicate 56 0\<rparr>"

definition blank_table :: "configLine list" where
  "blank_table = fresh_table (replicate 33 blank_line)"

lemma blank_table_empty: "config_empty blank_table"
  unfolding blank_table_def
  by (rule fresh_table_empty) (auto simp: blank_line_def line_ok_def)

lemma ideal_env_msc: "msc_works ideal_env"
  by (simp add: msc_works_def ideal_env_def)

lemma blank_table_free: "config_wf blank_table" "0 < free_lines blank_table"
  using blank_table_empty by (simp_all add: config_empty_def)

definition blank_state :: config_state where
  "blank_state = \<lparr>trace = [], configMem = blank_table, flash = replicate 2048 0xff\<rparr>"

text \<open>Every reader of config.c gives the same answer on the two tables.\<close>

definition same_setting :: "string \<Rightarrow> configLine list \<Rightarrow> configLine list \<Rightarrow> bool" where
  "same_setting j m m' \<longleftrightarrow>
     getUint32 j m = getUint32 j m' \<and> getInt16 j m = getInt16 j m' \<and> getDouble j m = getDouble j m' \<and>
     getString j m = getString j m' \<and> configExists j m = configExists j m'"

lemma same_setting_put_value:
  assumes "config_wf mem" and "ok_id i" and "ok_id j" and "j \<noteq> i" and "length bs \<le> VALUE_SIZE"
  shows "same_setting j (put_value i bs mem) mem"
  using getLine_put_value_other [OF assms(1-4)] assms(5)
  by (cases "getLine j mem")
    (simp_all add: same_setting_def getUint32_def getInt16_def getDouble_def getString_def configExists_def)

lemma configExists_view: "configExists i mem \<longleftrightarrow> view f mem i \<noteq> None"
  by (simp add: configExists_def view_def)

lemma same_setting_take:
  assumes "take CONFIG_LINES m = take CONFIG_LINES m'"
  shows "same_setting j m m'"
proof -
  have "configExists j m = configExists j m'"
    using view_take_cong [OF assms, where f = id] by (metis configExists_view)
  then show ?thesis
    by (simp add: same_setting_def getUint32_view getInt16_view getDouble_view getString_view view_take_cong [OF assms])
qed

text \<open>
  C6. A 32-bit setting that is stored is read back, and the store is the update of a map:
  on a well-formed table, \<^verbatim>\<open>setUint32\<close> of a legal identifier that is present or finds a free
  line returns, \<^verbatim>\<open>getUint32\<close> then answers the value, every other setting reads as before
  through every member of the union, the table stays well-formed, and no hardware is touched.
\<close>

theorem setUint32_is_map_update:
  assumes "config_wf (configMem s)" and "ok_id i"
    and "configExists i (configMem s) \<or> 0 < free_lines (configMem s)"
  shows "\<exists>mem. setUint32 i v s = Ret () (s\<lparr>configMem := mem\<rparr>) \<and> config_wf mem \<and>
     getUint32 i mem = v \<and> configExists i mem \<and>
     (\<forall>j. ok_id j \<longrightarrow> j \<noteq> i \<longrightarrow> same_setting j mem (configMem s))"
proof -
  let ?mem = "put_value i (le_bytes 4 v) (configMem s)"
  have "setUint32 i v s = Ret () (s\<lparr>configMem := ?mem\<rparr>)"
    using assms(2) by (simp add: setUint32_def ok_id_def)
  moreover have "config_wf ?mem" by (rule u32_store.invar_store [OF assms(1,2) TrueI])
  moreover have "view uint32Value ?mem i = Some v"
    using assms by (intro u32_store.lookup_same) (auto simp: configExists_view [where f = uint32Value])
  moreover have "same_setting j ?mem (configMem s)" if "ok_id j" "j \<noteq> i" for j
    by (rule same_setting_put_value [OF assms(1,2) that]) simp
  ultimately show ?thesis
    by (auto simp: getUint32_view configExists_view [where f = uint32Value])
qed

theorem setUint32_is_map_update_witness:
  "\<exists>mem. setUint32 ''volume'' 800 blank_state = Ret () (blank_state\<lparr>configMem := mem\<rparr>) \<and>
     getUint32 ''volume'' mem = 800 \<and> same_setting ''gain'' mem blank_table"
  using setUint32_is_map_update [of blank_state "''volume''" 800] blank_table_free
  by (auto simp: blank_state_def ok_id_def is_cstring_def)

text \<open>
  The same for strings: a string of less than 56 characters is read back as it was and the
  other settings are untouched; a longer one, or an identifier of more than 8 characters,
  stops the firmware with the message of the source and leaves the table as it was.
\<close>

theorem setString_roundtrip:
  assumes "config_wf (configMem s)" and "ok_id i" and "is_cstring v"
    and "configExists i (configMem s) \<or> 0 < free_lines (configMem s)"
  shows "(length v < VALUE_SIZE \<longrightarrow> (\<exists>mem. setString i v s = Ret () (s\<lparr>configMem := mem\<rparr>) \<and> config_wf mem \<and>
       getString i mem = Some v \<and> (\<forall>j. ok_id j \<longrightarrow> j \<noteq> i \<longrightarrow> same_setting j mem (configMem s)))) \<and>
    (VALUE_SIZE \<le> length v \<longrightarrow>
       (\<exists>t. setString i v s = Halt (Panic ''Config value length'') t \<and> configMem t = configMem s)) \<and>
    (\<forall>k. ID_SIZE < length k \<longrightarrow>
       (\<exists>t. setString k v s = Halt (Panic ''Config id length'') t \<and> configMem t = configMem s))"
proof (intro conjI impI allI)
  let ?mem = "put_value i (cstr v) (configMem s)"
  assume len: "length v < VALUE_SIZE"
  then have ok: "is_cstring v \<and> length v < VALUE_SIZE" using assms(3) by blast
  have "setString i v s = Ret () (s\<lparr>configMem := ?mem\<rparr>)"
    using assms(2) len by (simp add: setString_def ok_id_def)
  moreover have "config_wf ?mem" by (rule string_store.invar_store [OF assms(1,2) ok])
  moreover have "getString i ?mem = Some v"
    unfolding getString_view using assms(1,2,4) ok
    by (intro string_store.lookup_same) (auto simp: configExists_def view_def)
  moreover have "same_setting j ?mem (configMem s)" if "ok_id j" "j \<noteq> i" for j
    by (rule same_setting_put_value [OF assms(1,2) that]) (use len in simp)
  ultimately show "\<exists>mem. setString i v s = Ret () (s\<lparr>configMem := mem\<rparr>) \<and> config_wf mem \<and>
       getString i mem = Some v \<and> (\<forall>j. ok_id j \<longrightarrow> j \<noteq> i \<longrightarrow> same_setting j mem (configMem s))"
    by blast
qed (use assms in \<open>auto simp: setString_def ok_id_def\<close>)

theorem setString_roundtrip_witness:
  "(\<exists>mem. setString ''name'' ''amp'' blank_state = Ret () (blank_state\<lparr>configMem := mem\<rparr>) \<and>
     getString ''name'' mem = Some ''amp'') \<and>
   (\<exists>t. setString ''name'' (replicate 56 (CHR ''x'')) blank_state = Halt (Panic ''Config value length'') t) \<and>
   (\<exists>t. setString ''much_too_long'' ''amp'' blank_state = Halt (Panic ''Config id length'') t)"
proof -
  have b: "config_wf (configMem blank_state)" "0 < free_lines (configMem blank_state)" "ok_id ''name''"
    "is_cstring ''amp''" "is_cstring (replicate 56 (CHR ''x''))"
    using blank_table_free by (auto simp: blank_state_def ok_id_def is_cstring_def)
  note r = setString_roundtrip [OF b(1) b(3) _ disjI2 [OF b(2)]]
  show ?thesis
  proof (intro conjI)
    show "\<exists>mem. setString ''name'' ''amp'' blank_state = Ret () (blank_state\<lparr>configMem := mem\<rparr>) \<and>
        getString ''name'' mem = Some ''amp''"
      using r [OF b(4), THEN conjunct1] by auto
    show "\<exists>t. setString ''name'' (replicate 56 (CHR ''x'')) blank_state = Halt (Panic ''Config value length'') t"
      using r [OF b(5), THEN conjunct2, THEN conjunct1] by auto
    show "\<exists>t. setString ''much_too_long'' ''amp'' blank_state = Halt (Panic ''Config id length'') t"
      using r [OF b(4), THEN conjunct2, THEN conjunct2, THEN spec, of "''much_too_long''"] by auto
  qed
qed

text \<open>
  A full table loses new settings silently: with no free line, storing an identifier that
  is not in the table returns normally and changes nothing, whatever the type of the value, and
  identifiers that are present can still be changed.
\<close>

theorem full_table_drops:
  assumes "config_wf (configMem s)" and "ok_id i" and "free_lines (configMem s) = 0"
    and "\<not> configExists i (configMem s)" and "length str < VALUE_SIZE"
  shows "setUint32 i v s = Ret () s \<and> setInt16 i w s = Ret () s \<and> setDouble i d s = Ret () s \<and>
    setString i str s = Ret () s"
proof -
  have "target_line i (configMem s) = None"
    using target_line_None_iff [OF assms(1)] assms(3,4) by (simp add: configExists_def)
  then have "put_value i bs (configMem s) = configMem s" for bs by (simp add: put_value_eq)
  then show ?thesis
    using assms by (simp add: setUint32_def setInt16_def setDouble_def setString_def ok_id_def)
qed

definition full_table :: "configLine list" where
  "full_table = hd blank_table # map (\<lambda>k. \<lparr>cid = of_nat k # replicate 7 0, cvalue = replicate 56 0\<rparr>) [1..<33]"

lemma full_table_id: "1 \<le> k \<Longrightarrow> k < 32 \<Longrightarrow> line_id (full_table ! k) = [of_nat k]"
proof -
  assume k: "1 \<le> k" "k < 32"
  have "(of_nat k :: u8) \<noteq> 0" using k by (simp add: word_of_nat_eq_0_iff nat_dvd_not_less)
  then show "line_id (full_table ! k) = [of_nat k]"
    using k by (cases k) (simp_all add: full_table_def line_id_def field_string_def del: upt_Suc)
qed

lemma full_table_full: "config_wf full_table" "free_lines full_table = 0"
proof -
  have b: "blank_table \<noteq> []" "line_ok (hd blank_table)"
    "take (length CONFIG_FLASH_ID) (cid (hd blank_table)) = bytes_of CONFIG_FLASH_ID"
    using blank_table_free(1) by (auto simp: config_wf_def hd_conv_nth simp flip: length_greater_0_conv)
  have inj: "(of_nat j :: u8) = of_nat k \<Longrightarrow> j = k" if "j < 32" "k < 32" for j k
    using that by (simp add: word_of_nat_eq_iff take_bit_nat_eq_self)
  show "config_wf full_table"
    using b inj full_table_id unfolding config_wf_def
    by (auto simp: full_table_def line_ok_def simp del: upt_Suc)
  show "free_lines full_table = 0"
    using full_table_id by (auto simp: free_lines_def filter_empty_conv simp del: upt_Suc)
qed

theorem full_table_drops_witness:
  "setUint32 ''volume'' 800 (blank_state\<lparr>configMem := full_table\<rparr>) = Ret () (blank_state\<lparr>configMem := full_table\<rparr>)"
proof -
  have i: "ok_id ''volume''" by (simp add: ok_id_def is_cstring_def)
  have "\<not> configExists ''volume'' full_table"
    using getLine_None_iff [OF full_table_full(1) i] full_table_id
    by (auto simp: configExists_def bytes_of_def)
  then show ?thesis
    using full_table_drops [of "blank_state\<lparr>configMem := full_table\<rparr>" "''volume''" "[]" 800 0 0] i full_table_full
    by simp
qed

text \<open>
  C13. Settings survive a restart: with a flash driver that works, \<^verbatim>\<open>flushConfig\<close> returns, and a
  later \<^verbatim>\<open>configInit\<close> that finds the page as it was left rebuilds, from any contents of the RAM,
  a table on which every reader gives the answer it gave before, for every identifier.
\<close>

theorem settings_survive_restart:
  assumes "msc_works E" and "config_wf (configMem s)" and "length (configMem r) = CONFIG_LINES + 1"
  shows "\<exists>t u. flushConfig E s = Ret () t \<and> configMem t = configMem s \<and>
    configInit E' (r\<lparr>flash := flash t\<rparr>) = Ret () u \<and> trace u = trace r \<and> flash u = flash t \<and>
    (\<forall>j. same_setting j (configMem u) (configMem s))"
proof -
  let ?m = "take CONFIG_LINES (configMem s) @ drop CONFIG_LINES (configMem r)"
  have f: "flushConfig E s = Ret () (s\<lparr>flash := page_of (configMem s), trace := trace s @ msc_calls\<rparr>)"
    by (rule flushConfig_run [OF assms(1) page_of_facts(1) [OF assms(2)]])
  have i: "configInit E' (r\<lparr>flash := page_of (configMem s)\<rparr>) =
      Ret () (r\<lparr>flash := page_of (configMem s), configMem := ?m\<rparr>)"
    using configInit_run [OF assms(2), of "r\<lparr>flash := page_of (configMem s)\<rparr>"] by simp
  have "same_setting j ?m (configMem s)" for j
    by (rule same_setting_take) (use assms(2) in \<open>simp add: config_wf_def\<close>)
  with f i show ?thesis by simp
qed

theorem settings_survive_restart_witness:
  "\<exists>t u. flushConfig ideal_env blank_state = Ret () t \<and>
     configInit ideal_env (blank_state\<lparr>configMem := replicate 33 blank_line, flash := flash t\<rparr>) = Ret () u \<and>
     (\<forall>j. same_setting j (configMem u) blank_table)"
  using settings_survive_restart [OF ideal_env_msc, of blank_state "blank_state\<lparr>configMem := replicate 33 blank_line\<rparr>" ideal_env]
    blank_table_free
  by (auto simp: blank_state_def)

text \<open>
  \<^verbatim>\<open>clearConfig\<close> erases everything: it returns, no legal identifier is present any more, all 31
  lines are free, and the flash page holds that empty table.
\<close>

theorem clearConfig_forgets:
  assumes "msc_works E" and "config_wf (configMem s)"
  shows "\<exists>t. clearConfig E s = Ret () t \<and> config_wf (configMem t) \<and> free_lines (configMem t) = CONFIG_LINES - 1 \<and>
    flash t = page_of (configMem t) \<and> (\<forall>j. ok_id j \<longrightarrow> \<not> configExists j (configMem t))"
  using clearConfig_empties [OF assms] config_empty_view [where f = id]
  by (fastforce simp: config_empty_def configExists_view [where f = id])

theorem clearConfig_forgets_witness:
  "\<exists>t. clearConfig ideal_env blank_state = Ret () t \<and> \<not> configExists ''volume'' (configMem t)"
  using clearConfig_forgets [OF ideal_env_msc, of blank_state] blank_table_free
  by (auto simp: blank_state_def ok_id_def is_cstring_def)

end
