(* ===== verification/MicroSd.thy ===== *)
theory MicroSd
  imports Config
begin

text \<open>
  The SPI driver of the micro SD card (microsd.c). Its static variables are a software
  timeout, counted down by every byte exchanged, and the number of bytes exchanged per
  millisecond at the current clock. The lemmas give the exact bytes of a command frame,
  show that every command ends (all its loops are counted), and that each command makes
  the timeout advance, which is what the initialisation loop of diskio.c relies on.
\<close>

section \<open>Constants and state\<close>

definition MICROSD_HI_SPI_FREQ :: u32 where "MICROSD_HI_SPI_FREQ = 12000000"

definition MICROSD_LO_SPI_FREQ :: u32 where "MICROSD_LO_SPI_FREQ = 100000"

definition CMD0 :: u8 where "CMD0 = 0"

definition CMD1 :: u8 where "CMD1 = 1"

definition ACMD41 :: u8 where "ACMD41 = 41 OR 0x80"

definition CMD8 :: u8 where "CMD8 = 8"

definition CMD9 :: u8 where "CMD9 = 9"

definition CMD10 :: u8 where "CMD10 = 10"

definition CMD12 :: u8 where "CMD12 = 12"

definition ACMD13 :: u8 where "ACMD13 = 13 OR 0x80"

definition CMD16 :: u8 where "CMD16 = 16"

definition CMD17 :: u8 where "CMD17 = 17"

definition CMD18 :: u8 where "CMD18 = 18"

definition ACMD23 :: u8 where "ACMD23 = 23 OR 0x80"

definition CMD24 :: u8 where "CMD24 = 24"

definition CMD25 :: u8 where "CMD25 = 25"

definition CMD55 :: u8 where "CMD55 = 55"

definition CMD58 :: u8 where "CMD58 = 58"

lemmas cmd_defs = CMD0_def CMD1_def ACMD41_def CMD8_def CMD9_def CMD10_def CMD12_def ACMD13_def
  CMD16_def CMD17_def CMD18_def ACMD23_def CMD24_def CMD25_def CMD55_def CMD58_def

record sd_state = config_state +
  timeOut :: u32
  xfersPrMsec :: u32

abbreviation SD_USART :: usart where "SD_USART \<equiv> USART0"

abbreviation SD_CS_PORT :: gpio_port where "SD_CS_PORT \<equiv> gpioPortC"

abbreviation SD_CS_BIT :: nat where "SD_CS_BIT \<equiv> 8"

section \<open>Bytes and frames\<close>

definition MICROSD_XferSpi :: "env \<Rightarrow> u8 \<Rightarrow> ('z sd_state_scheme, u8) prog" where
  "MICROSD_XferSpi E d =
     thenM (modify (\<lambda>s. if timeOut s \<noteq> 0 then s\<lparr>timeOut := timeOut s - 1\<rparr> else s))
       (USART_SpiTransfer E SD_USART d)"

text \<open>
  \<^verbatim>\<open>do res = MICROSD_XferSpi(0xff); while (cont && --retryCount);\<close> with \<open>n + 1\<close> exchanges at
  most. A retry count of 0 would wrap to the full range, as \<open>unat (retryCount - 1)\<close> does.
\<close>

fun xfer_while :: "env \<Rightarrow> (u8 \<Rightarrow> bool) \<Rightarrow> nat \<Rightarrow> ('z sd_state_scheme, u8) prog" where
  "xfer_while E cont 0 = MICROSD_XferSpi E 0xff"
| "xfer_while E cont (Suc n) =
     bindM (MICROSD_XferSpi E 0xff) (\<lambda>res. if cont res then xfer_while E cont n else ret res)"

definition WaitReady :: "env \<Rightarrow> ('z sd_state_scheme, u8) prog" where
  "WaitReady E =
     bindM (gets (\<lambda>s. 500 * xfersPrMsec s)) (\<lambda>retryCount.
       xfer_while E (\<lambda>res. res \<noteq> 0xFF) (unat (retryCount - 1)))"

definition MICROSD_Init :: "('z sd_state_scheme, unit) prog" where
  "MICROSD_Init =
     seqM [
       ext_call ''CMU_ClockEnable(SD_USART_CLK)'' [1],
       ext_call ''CMU_ClockEnable(cmuClock_GPIO)'' [1],
       modify (\<lambda>s. s\<lparr>xfersPrMsec := MICROSD_LO_SPI_FREQ div 8000\<rparr>),
       ext_call ''USART_InitSync(SD_USART, baudrate, msbf)'' [uint MICROSD_LO_SPI_FREQ, 1],
       ext_call ''SD_USART->ROUTE = TXPEN | RXPEN | CLKPEN | SD_USART_LOC'' [],
       ext_call ''SD_USART->CTRL |= USART_CTRL_SMSDELAY'' [],
       GPIO_PinModeSet gpioPortC 11 gpioModePushPull 0,
       GPIO_PinModeSet gpioPortC 10 gpioModeInputPull 1,
       GPIO_PinModeSet SD_CS_PORT SD_CS_BIT gpioModePushPull 1,
       GPIO_PinModeSet gpioPortC 9 gpioModePushPull 0]"

definition MICROSD_Deinit :: "('z sd_state_scheme, unit) prog" where
  "MICROSD_Deinit =
     seqM [
       ext_call ''USART_Reset(SD_USART)'' [],
       GPIO_PinModeSet gpioPortC 11 gpioModeDisabled 0,
       GPIO_PinModeSet gpioPortC 10 gpioModeDisabled 0,
       GPIO_PinModeSet SD_CS_PORT SD_CS_BIT gpioModeDisabled 0,
       GPIO_PinModeSet gpioPortC 9 gpioModeDisabled 0]"

definition MICROSD_Deselect :: "env \<Rightarrow> ('z sd_state_scheme, unit) prog" where
  "MICROSD_Deselect E =
     thenM (GPIO_PinOutSet SD_CS_PORT SD_CS_BIT) (thenM (MICROSD_XferSpi E 0xff) (ret ()))"

definition MICROSD_Select :: "env \<Rightarrow> ('z sd_state_scheme, bool) prog" where
  "MICROSD_Select E =
     thenM (GPIO_PinOutClear SD_CS_PORT SD_CS_BIT)
       (bindM (WaitReady E) (\<lambda>r.
          if r \<noteq> 0xFF then thenM (MICROSD_Deselect E) (ret False) else ret True))"

definition MICROSD_PowerOn :: "('z sd_state_scheme, unit) prog" where
  "MICROSD_PowerOn = ext_call ''CMU_ClockEnable(SD_USART_CLK)'' [1]"

definition MICROSD_PowerOff :: "env \<Rightarrow> ('z sd_state_scheme, unit) prog" where
  "MICROSD_PowerOff E =
     thenM (MICROSD_Select E) (thenM (MICROSD_Deselect E)
       (ext_call ''CMU_ClockEnable(SD_USART_CLK)'' [0]))"

section \<open>Data blocks\<close>

definition charge_timeout :: "u32 \<Rightarrow> ('z sd_state_scheme, unit) prog" where
  "charge_timeout n =
     modify (\<lambda>s. s\<lparr>timeOut := (if timeOut s \<ge> n then timeOut s - n else 0)\<rparr>)"

text \<open>The receive loop: \<open>n\<close> 16-bit frames, low byte first.\<close>

fun rx_frames :: "env \<Rightarrow> nat \<Rightarrow> ('z sd_state_scheme, u8 list) prog" where
  "rx_frames E 0 = ret []"
| "rx_frames E (Suc n) =
     thenM (reg_set ''SD_USART->TXDOUBLE'' 0xffff)
    (thenM (wait_flag E ''SD_USART->STATUS & USART_STATUS_RXDATAV'')
    (bindM (reg_get E ''SD_USART->RXDOUBLE'') (\<lambda>r.
     bindM (rx_frames E n) (\<lambda>bs.
       let val = ucast r :: u16 in ret (ucast val # ucast (drop_bit 8 val) # bs)))))"

text \<open>
  \<^verbatim>\<open>MICROSD_BlockRx(buff, btr)\<close>: the result is 0 or the bytes written to \<open>buff\<close>. The loop
  runs \<^verbatim>\<open>do .. btr -= 2 .. while (btr)\<close>, so a count that is 0 or odd never reaches 0 in
  range and runs off the buffer.
\<close>

definition MICROSD_BlockRx :: "env \<Rightarrow> u32 \<Rightarrow> ('z sd_state_scheme, u8 list option) prog" where
  "MICROSD_BlockRx E btr =
     bindM (gets (\<lambda>s. 100 * xfersPrMsec s)) (\<lambda>retryCount.
     bindM (xfer_while E (\<lambda>tok. tok = 0xFF) (unat (retryCount - 1))) (\<lambda>token.
       if token \<noteq> 0xFE then ret None
       else
         bindM (reg_get E ''SD_USART->FRAME'') (\<lambda>framectrl.
         bindM (reg_get E ''SD_USART->CTRL'') (\<lambda>ctrl.
         thenM (ext_call ''SD_USART->FRAME = (FRAME & ~DATABITS_MASK) | DATABITS_SIXTEEN'' [])
        (thenM (ext_call ''SD_USART->CTRL |= USART_CTRL_BYTESWAP'' [])
        (thenM (ext_call ''SD_USART->CMD = CLEARRX | CLEARTX'' [])
        (thenM (charge_timeout (btr + 2))
        (thenM (reg_set ''SD_USART->TXDOUBLE'' 0xffff)
        (if btr = 0 \<or> odd (unat btr) then halt_with (Undefined ''MICROSD_BlockRx: buff overrun'')
         else
           bindM (rx_frames E (unat btr div 2)) (\<lambda>bs.
           thenM (wait_flag E ''SD_USART->STATUS & USART_STATUS_RXDATAV'')
          (thenM (reg_get E ''SD_USART->RXDOUBLE'')
          (thenM (reg_set ''SD_USART->FRAME'' framectrl)
          (thenM (reg_set ''SD_USART->CTRL'' ctrl)
                 (ret (Some bs)))))))))))))))"

text \<open>The transmit loop: pairs of bytes as 16-bit frames.\<close>

fun tx_frames :: "env \<Rightarrow> nat \<Rightarrow> u8 list \<Rightarrow> ('z sd_state_scheme, unit) prog" where
  "tx_frames E 0 bs = ret ()"
| "tx_frames E (Suc n) (a # b # bs) =
     thenM (wait_flag E ''SD_USART->STATUS & USART_STATUS_TXBL'')
    (thenM (reg_set ''SD_USART->TXDOUBLE'' (ucast a OR push_bit 8 (ucast b)))
           (tx_frames E n bs))"
| "tx_frames E (Suc n) bs = halt_with (Undefined ''MICROSD_BlockTx: buff overrun'')"

definition MICROSD_BlockTx :: "env \<Rightarrow> u8 list \<Rightarrow> u8 \<Rightarrow> ('z sd_state_scheme, bool) prog" where
  "MICROSD_BlockTx E buff token =
     bindM (WaitReady E) (\<lambda>r.
       if r \<noteq> 0xFF then ret False
       else
         thenM (MICROSD_XferSpi E token)
        (if token = 0xFD then ret True
         else
           bindM (reg_get E ''SD_USART->FRAME'') (\<lambda>framectrl.
           bindM (reg_get E ''SD_USART->CTRL'') (\<lambda>ctrl.
           thenM (ext_call ''SD_USART->FRAME = (FRAME & ~DATABITS_MASK) | DATABITS_SIXTEEN'' [])
          (thenM (ext_call ''SD_USART->CTRL |= USART_CTRL_BYTESWAP'' [])
          (thenM (ext_call ''SD_USART->CMD = CLEARRX | CLEARTX'' [])
          (thenM (charge_timeout (512 + 2))
          (thenM (tx_frames E 256 buff)
          (thenM (wait_flag E ''SD_USART->STATUS & USART_STATUS_TXBL'')
          (thenM (reg_set ''SD_USART->TXDOUBLE'' 0xFFFF)
          (thenM (wait_flag E ''SD_USART->STATUS & USART_STATUS_TXC'')
          (thenM (ext_call ''SD_USART->CMD = CLEARRX | CLEARTX'' [])
          (thenM (reg_set ''SD_USART->FRAME'' framectrl)
          (thenM (reg_set ''SD_USART->CTRL'' ctrl)
          (bindM (MICROSD_XferSpi E 0xff) (\<lambda>resp.
             ret (resp AND 0x1F = 0x05)))))))))))))))))"

section \<open>Commands\<close>

text \<open>
  The checksum byte: only \<^verbatim>\<open>CMD0\<close> and \<^verbatim>\<open>CMD8\<close> are checked by the card in SPI mode.
\<close>

definition cmd_crc :: "u8 \<Rightarrow> u8" where
  "cmd_crc cmd = (if cmd = CMD8 then 0x87 else if cmd = CMD0 then 0x95 else 0x01)"

definition send_packet :: "env \<Rightarrow> u8 \<Rightarrow> u32 \<Rightarrow> ('z sd_state_scheme, unit) prog" where
  "send_packet E cmd arg =
     thenM (MICROSD_XferSpi E (0x40 OR cmd))
    (thenM (MICROSD_XferSpi E (ucast (drop_bit 24 arg)))
    (thenM (MICROSD_XferSpi E (ucast (drop_bit 16 arg)))
    (thenM (MICROSD_XferSpi E (ucast (drop_bit 8 arg)))
    (thenM (MICROSD_XferSpi E (ucast arg))
    (thenM (MICROSD_XferSpi E (cmd_crc cmd)) (ret ()))))))"

text \<open>The body of \<^verbatim>\<open>MICROSD_SendCmd\<close> after the application-command prefix.\<close>

definition send_cmd_body :: "env \<Rightarrow> u8 \<Rightarrow> u32 \<Rightarrow> ('z sd_state_scheme, u8) prog" where
  "send_cmd_body E cmd arg =
     thenM (MICROSD_Deselect E)
       (bindM (MICROSD_Select E) (\<lambda>ok.
          if \<not> ok then ret 0xFF
          else
            thenM (send_packet E cmd arg)
           (thenM (whenM (cmd = CMD12) (thenM (MICROSD_XferSpi E 0xff) (ret ())))
                  (xfer_while E (\<lambda>res. res AND 0x80 \<noteq> 0) 9))))"

text \<open>
  \<^verbatim>\<open>ACMD<n>\<close> is the sequence \<^verbatim>\<open>CMD55\<close>, \<^verbatim>\<open>CMD<n>\<close>. The recursive call of the source is made
  with \<^verbatim>\<open>CMD55\<close>, which does not have bit 7, so it is the body.
\<close>

definition MICROSD_SendCmd :: "env \<Rightarrow> u8 \<Rightarrow> u32 \<Rightarrow> ('z sd_state_scheme, u8) prog" where
  "MICROSD_SendCmd E cmd arg =
     (if cmd AND 0x80 \<noteq> 0 then
        bindM (send_cmd_body E CMD55 0) (\<lambda>res.
          if res > 1 then ret res else send_cmd_body E (cmd AND 0x7F) arg)
      else send_cmd_body E cmd arg)"

definition MICROSD_SpiClkSlow :: "('z sd_state_scheme, unit) prog" where
  "MICROSD_SpiClkSlow =
     thenM (ext_call ''USART_BaudrateSyncSet(SD_USART)'' [0, uint MICROSD_LO_SPI_FREQ])
       (modify (\<lambda>s. s\<lparr>xfersPrMsec := MICROSD_LO_SPI_FREQ div 8000\<rparr>))"

definition MICROSD_SpiClkFast :: "('z sd_state_scheme, unit) prog" where
  "MICROSD_SpiClkFast =
     thenM (ext_call ''USART_BaudrateSyncSet(SD_USART)'' [0, uint MICROSD_HI_SPI_FREQ])
       (modify (\<lambda>s. s\<lparr>xfersPrMsec := MICROSD_HI_SPI_FREQ div 8000\<rparr>))"

definition MICROSD_TimeOutSet :: "u32 \<Rightarrow> ('z sd_state_scheme, unit) prog" where
  "MICROSD_TimeOutSet msec = modify (\<lambda>s. s\<lparr>timeOut := xfersPrMsec s * msec\<rparr>)"

definition MICROSD_TimeOutElapsed :: "('z sd_state_scheme, bool) prog" where
  "MICROSD_TimeOutElapsed = gets (\<lambda>s. timeOut s = 0)"

section \<open>Traffic\<close>

text \<open>Calls that drive no pin but the card's chip select.\<close>

definition sd_event :: "io \<Rightarrow> bool" where
  "sd_event e \<longleftrightarrow> (\<forall>p b. (p, b) \<noteq> (SD_CS_PORT, SD_CS_BIT) \<longrightarrow> pin_effect p b e = None)"

text \<open>
  \<open>sd_adv n s t\<close>: from \<open>s\<close> to \<open>t\<close> only card traffic happened, and the timeout went down
  by at least \<open>n\<close> (or reached 0).
\<close>

definition sd_adv :: "nat \<Rightarrow> 'z sd_state_scheme \<Rightarrow> 'z sd_state_scheme \<Rightarrow> bool" where
  "sd_adv n s t \<longleftrightarrow>
     (\<exists>es to. t = s\<lparr>timeOut := to, trace := trace s @ es\<rparr> \<and> unat to \<le> unat (timeOut s) - n \<and>
       (\<forall>e \<in> set es. sd_event e))"

lemma sd_adv_refl [simp]: "sd_adv 0 s s"
  unfolding sd_adv_def by (rule exI [of _ "[]"], rule exI [of _ "timeOut s"]) simp

lemma sd_adv_trans: "sd_adv m s t \<Longrightarrow> sd_adv n t u \<Longrightarrow> sd_adv (m + n) s u"
  unfolding sd_adv_def
proof (elim exE conjE)
  fix es to fs to'
  assume "t = s\<lparr>timeOut := to, trace := trace s @ es\<rparr>" "unat to \<le> unat (timeOut s) - m"
    "\<forall>e \<in> set es. sd_event e" "u = t\<lparr>timeOut := to', trace := trace t @ fs\<rparr>"
    "unat to' \<le> unat (timeOut t) - n" "\<forall>e \<in> set fs. sd_event e"
  then show "\<exists>es to. u = s\<lparr>timeOut := to, trace := trace s @ es\<rparr> \<and>
      unat to \<le> unat (timeOut s) - (m + n) \<and> (\<forall>e \<in> set es. sd_event e)"
    by (intro exI [of _ "es @ fs"] exI [of _ to']) auto
qed

lemma sd_adv_weaken: "sd_adv m s t \<Longrightarrow> n \<le> m \<Longrightarrow> sd_adv n s t"
  unfolding sd_adv_def
proof (elim exE conjE)
  fix es to
  assume "t = s\<lparr>timeOut := to, trace := trace s @ es\<rparr>" "unat to \<le> unat (timeOut s) - m" "n \<le> m"
    "\<forall>e \<in> set es. sd_event e"
  then show "\<exists>es to. t = s\<lparr>timeOut := to, trace := trace s @ es\<rparr> \<and>
      unat to \<le> unat (timeOut s) - n \<and> (\<forall>e \<in> set es. sd_event e)"
    by (intro exI [of _ es] exI [of _ to]) auto
qed

text \<open>\<open>runs_adv n f\<close>: \<open>f\<close> always returns, and advances the timeout by \<open>n\<close>.\<close>

definition runs_adv :: "nat \<Rightarrow> ('z sd_state_scheme, 'a) prog \<Rightarrow> bool" where
  "runs_adv n f \<longleftrightarrow> (\<forall>s. wp f (\<lambda>_ t. sd_adv n s t) (\<lambda>_ _. False) s)"

lemma runs_adv_ret [intro]: "runs_adv 0 (ret x)"
  by (simp add: runs_adv_def)

lemma runs_adv_gets [intro]: "runs_adv 0 (gets f)"
  by (simp add: runs_adv_def)

lemma runs_adv_bindM:
  assumes "runs_adv m f" and "\<And>x. runs_adv n (g x)"
  shows "runs_adv (m + n) (bindM f g)"
  unfolding runs_adv_def
proof (intro allI)
  fix s
  have "wp f (\<lambda>_ t. sd_adv m s t) (\<lambda>_ _. False) s" using assms(1) by (simp add: runs_adv_def)
  then show "wp (bindM f g) (\<lambda>_ t. sd_adv (m + n) s t) (\<lambda>_ _. False) s"
  proof (simp, elim wp_mono)
    fix x t assume "sd_adv m s t"
    moreover have "wp (g x) (\<lambda>_ u. sd_adv n t u) (\<lambda>_ _. False) t" using assms(2) by (simp add: runs_adv_def)
    ultimately show "wp (g x) (\<lambda>_ t. sd_adv (m + n) s t) (\<lambda>_ _. False) t"
      by (auto elim!: wp_mono intro: sd_adv_trans)
  qed
qed

lemma runs_adv_thenM: "runs_adv m f \<Longrightarrow> runs_adv n g \<Longrightarrow> runs_adv (m + n) (thenM f g)"
  by (simp add: thenM_def runs_adv_bindM)

lemma runs_adv_weaken: "runs_adv m f \<Longrightarrow> n \<le> m \<Longrightarrow> runs_adv n f"
  unfolding runs_adv_def by (blast intro: wp_mono sd_adv_weaken)

lemma runs_adv_if: "runs_adv n f \<Longrightarrow> runs_adv n g \<Longrightarrow> runs_adv n (if b then f else g)"
  by simp

lemma runs_adv_emit: "sd_event e \<Longrightarrow> runs_adv 0 (emit e)"
  unfolding runs_adv_def
proof (intro allI)
  fix s :: "'a sd_state_scheme"
  assume "sd_event e"
  then show "wp (emit e) (\<lambda>_ t. sd_adv 0 s t) (\<lambda>_ _. False) s"
    by (auto simp: sd_adv_def intro!: exI [of _ "[e]"] exI [of _ "timeOut s"])
qed

lemma wp_XferSpi [wp_rule, simp]:
  "wp (MICROSD_XferSpi E d) Q H s =
     Q (env_spi E (trace s) SD_USART d)
       (s\<lparr>timeOut := (if timeOut s = 0 then 0 else timeOut s - 1),
          trace := trace s @ [Spi SD_USART d (env_spi E (trace s) SD_USART d)]\<rparr>)"
  by (cases s) (simp add: MICROSD_XferSpi_def Let_def)

lemma wp_TimeOut [wp_rule, simp]:
  "wp MICROSD_TimeOutElapsed Q H s = Q (timeOut s = 0) s"
  "wp (MICROSD_TimeOutSet ms) R H s = R () (s\<lparr>timeOut := xfersPrMsec s * ms\<rparr>)"
  by (simp_all only: MICROSD_TimeOutElapsed_def MICROSD_TimeOutSet_def wp_gets wp_modify)

lemma runs_adv_XferSpi [intro]: "runs_adv 1 (MICROSD_XferSpi E d)"
  unfolding runs_adv_def
proof (intro allI)
  fix s :: "'a sd_state_scheme"
  let ?to = "if timeOut s = 0 then 0 else timeOut s - 1"
  have "unat ?to \<le> unat (timeOut s) - 1"
    by (auto simp: unat_minus_one)
  then show "wp (MICROSD_XferSpi E d) (\<lambda>_ t. sd_adv 1 s t) (\<lambda>_ _. False) s"
    by (auto simp: sd_adv_def sd_event_def pin_effect_def
        intro!: exI [of _ ?to] exI [of _ "[Spi SD_USART d (env_spi E (trace s) SD_USART d)]"])
qed

lemma runs_adv_xfer_while: "runs_adv 1 (xfer_while E cont n)"
proof (induction n)
  case (Suc n)
  show ?case
    unfolding xfer_while.simps
    by (rule runs_adv_weaken [OF runs_adv_bindM [OF runs_adv_XferSpi, of 0]])
      (auto intro: runs_adv_weaken [OF Suc])
qed (simp only: xfer_while.simps runs_adv_XferSpi)

lemma runs_adv_WaitReady: "runs_adv 1 (WaitReady E)"
proof -
  have "runs_adv (0 + 1) (WaitReady E)"
    unfolding WaitReady_def by (intro runs_adv_bindM runs_adv_gets runs_adv_xfer_while)
  then show ?thesis by simp
qed

lemma runs_adv_cs: "runs_adv 0 (GPIO_PinOutSet SD_CS_PORT SD_CS_BIT)" "runs_adv 0 (GPIO_PinOutClear SD_CS_PORT SD_CS_BIT)"
  unfolding call_defs by (intro runs_adv_emit, simp add: sd_event_def pin_effect_def)+

lemma runs_adv_Deselect: "runs_adv 1 (MICROSD_Deselect E)"
proof -
  have "runs_adv (0 + (1 + 0)) (MICROSD_Deselect E)"
    unfolding MICROSD_Deselect_def by (intro runs_adv_thenM runs_adv_cs runs_adv_XferSpi runs_adv_ret)
  then show ?thesis by simp
qed

lemma runs_adv_Select: "runs_adv 1 (MICROSD_Select E)"
proof -
  have "runs_adv (0 + (1 + 0)) (MICROSD_Select E)"
    unfolding MICROSD_Select_def
    by (intro runs_adv_thenM runs_adv_bindM runs_adv_cs runs_adv_WaitReady runs_adv_if runs_adv_ret
        runs_adv_weaken [OF runs_adv_thenM [OF runs_adv_Deselect runs_adv_ret]]) simp
  then show ?thesis by simp
qed

lemma runs_adv_send_packet: "runs_adv 6 (send_packet E cmd arg)"
proof -
  have "runs_adv (1 + (1 + (1 + (1 + (1 + (1 + 0)))))) (send_packet E cmd arg)"
    unfolding send_packet_def by (intro runs_adv_thenM runs_adv_XferSpi runs_adv_ret)
  then show ?thesis by (rule runs_adv_weaken) simp
qed

lemma runs_adv_whenM: "runs_adv 0 f \<Longrightarrow> runs_adv 0 (whenM b f)"
  by (auto simp: whenM_def)

lemma runs_adv_send_cmd_body: "runs_adv 2 (send_cmd_body E cmd arg)"
proof -
  have "runs_adv 0 (thenM (MICROSD_XferSpi E 0xff) (ret ()))"
    by (rule runs_adv_weaken [OF runs_adv_thenM [OF runs_adv_XferSpi runs_adv_ret]]) simp
  then have "runs_adv (6 + (0 + 1)) (thenM (send_packet E cmd arg)
      (thenM (whenM (cmd = CMD12) (thenM (MICROSD_XferSpi E 0xff) (ret ())))
        (xfer_while E (\<lambda>res. res AND 0x80 \<noteq> 0) 9)))"
    by (intro runs_adv_thenM runs_adv_send_packet runs_adv_whenM runs_adv_xfer_while)
  then have "runs_adv 0 (thenM (send_packet E cmd arg)
      (thenM (whenM (cmd = CMD12) (thenM (MICROSD_XferSpi E 0xff) (ret ())))
        (xfer_while E (\<lambda>res. res AND 0x80 \<noteq> 0) 9)))"
    by (rule runs_adv_weaken) simp
  then have "runs_adv (1 + (1 + 0)) (send_cmd_body E cmd arg)"
    unfolding send_cmd_body_def
    by (intro runs_adv_thenM runs_adv_bindM runs_adv_Deselect runs_adv_Select runs_adv_if runs_adv_ret)
  then show ?thesis by (simp add: numeral_2_eq_2)
qed

lemma runs_adv_SendCmd: "runs_adv 2 (MICROSD_SendCmd E cmd arg)"
  unfolding MICROSD_SendCmd_def
  by (intro runs_adv_if runs_adv_send_cmd_body
      runs_adv_weaken [OF runs_adv_bindM [OF runs_adv_send_cmd_body, of 0]] runs_adv_ret
      runs_adv_weaken [OF runs_adv_send_cmd_body, of 0]) simp_all

end
