(* ===== verification/DiskIo.thy ===== *)
theory DiskIo
  imports MicroSd
begin

text \<open>
  The disk layer of diskio.c: card identification, sector reads and writes and the
  control functions FatFs calls. The central result is that \<^verbatim>\<open>disk_initialize\<close> returns for
  every card, present, absent or broken, and that the status it returns says whether a
  card type was recognised.
\<close>

section \<open>Constants and state\<close>

definition STA_NOINIT :: u8 where "STA_NOINIT = 0x01"

definition STA_NODISK :: u8 where "STA_NODISK = 0x02"

definition STA_PROTECT :: u8 where "STA_PROTECT = 0x04"

definition CT_MMC :: u8 where "CT_MMC = 0x01"

definition CT_SD1 :: u8 where "CT_SD1 = 0x02"

definition CT_SD2 :: u8 where "CT_SD2 = 0x04"

definition CT_SDC :: u8 where "CT_SDC = CT_SD1 OR CT_SD2"

definition CT_BLOCK :: u8 where "CT_BLOCK = 0x08"

lemmas disk_consts = STA_NOINIT_def STA_NODISK_def STA_PROTECT_def CT_MMC_def CT_SD1_def CT_SD2_def
  CT_SDC_def CT_BLOCK_def

datatype dresult = RES_OK | RES_ERROR | RES_WRPRT | RES_NOTRDY | RES_PARERR

record disk_state = sd_state +
  dstat :: u8
  CardType :: u8

section \<open>Operations\<close>

definition disk_status :: "u8 \<Rightarrow> ('z disk_state_scheme, u8) prog" where
  "disk_status pdrv = (if pdrv \<noteq> 0 then ret STA_NOINIT else gets dstat)"

text \<open>Four bytes read from the card.\<close>

definition read4 :: "env \<Rightarrow> ('z disk_state_scheme, u8 list) prog" where
  "read4 E =
     bindM (MICROSD_XferSpi E 0xff) (\<lambda>a.
     bindM (MICROSD_XferSpi E 0xff) (\<lambda>b.
     bindM (MICROSD_XferSpi E 0xff) (\<lambda>c.
     bindM (MICROSD_XferSpi E 0xff) (\<lambda>d. ret [a, b, c, d]))))"

text \<open>
  \<^verbatim>\<open>while (!MICROSD_TimeOutElapsed() && MICROSD_SendCmd(cmd, arg));\<close> The number of rounds is
  bounded by the timeout at the start of the loop, since every command uses some of it.
\<close>

fun wait_leave_idle :: "env \<Rightarrow> u8 \<Rightarrow> u32 \<Rightarrow> nat \<Rightarrow> ('z disk_state_scheme, unit) prog" where
  "wait_leave_idle E cmd arg 0 = halt_with Hang"
| "wait_leave_idle E cmd arg (Suc n) =
     bindM MICROSD_TimeOutElapsed (\<lambda>elapsed.
       if elapsed then ret ()
       else bindM (MICROSD_SendCmd E cmd arg) (\<lambda>r.
         if r = 0 then ret () else wait_leave_idle E cmd arg n))"

definition leave_idle :: "env \<Rightarrow> u8 \<Rightarrow> u32 \<Rightarrow> ('z disk_state_scheme, unit) prog" where
  "leave_idle E cmd arg =
     bindM (gets (\<lambda>s. Suc (unat (timeOut s)))) (wait_leave_idle E cmd arg)"

text \<open>The identification sequence; the result is the card type, 0 if there is none.\<close>

definition identify_v2 :: "env \<Rightarrow> ('z disk_state_scheme, u8) prog" where
  "identify_v2 E =
     bindM (read4 E) (\<lambda>ocr.
       if ocr ! 2 = 0x01 \<and> ocr ! 3 = 0xAA then
         thenM (leave_idle E ACMD41 0x40000000)
          (bindM MICROSD_TimeOutElapsed (\<lambda>elapsed.
             if elapsed then ret 0
             else bindM (MICROSD_SendCmd E CMD58 0) (\<lambda>r.
               if r = 0 then bindM (read4 E) (\<lambda>ocr.
                 ret (if (ocr ! 0) AND 0x40 \<noteq> 0 then CT_SD2 OR CT_BLOCK else CT_SD2))
               else ret 0)))
       else ret 0)"

definition identify_v1 :: "env \<Rightarrow> ('z disk_state_scheme, u8) prog" where
  "identify_v1 E =
     bindM (MICROSD_SendCmd E ACMD41 0) (\<lambda>r.
       let (ty, cmd) = (if r \<le> 1 then (CT_SD1, ACMD41) else (CT_MMC, CMD1))
       in thenM (leave_idle E cmd 0)
           (bindM MICROSD_TimeOutElapsed (\<lambda>elapsed.
              if elapsed then ret 0
              else bindM (MICROSD_SendCmd E CMD16 512) (\<lambda>r.
                ret (if r \<noteq> 0 then 0 else ty)))))"

definition identify :: "env \<Rightarrow> ('z disk_state_scheme, u8) prog" where
  "identify E =
     bindM (MICROSD_SendCmd E CMD0 0) (\<lambda>r0.
       if r0 = 1 then
         thenM (MICROSD_TimeOutSet 1000)
          (bindM (MICROSD_SendCmd E CMD8 0x1AA) (\<lambda>r8.
             if r8 = 1 then identify_v2 E else identify_v1 E))
       else ret 0)"

text \<open>The end of the initialisation: the outcome is recorded in the status.\<close>

definition finish_init :: "env \<Rightarrow> u8 \<Rightarrow> ('z disk_state_scheme, unit) prog" where
  "finish_init E ty =
     (if ty \<noteq> 0 then
        thenM (modify (\<lambda>s. s\<lparr>dstat := dstat s AND NOT STA_NOINIT\<rparr>)) MICROSD_SpiClkFast
      else
        thenM (MICROSD_PowerOff E) (modify (\<lambda>s. s\<lparr>dstat := dstat s OR STA_NOINIT\<rparr>)))"

definition disk_initialize :: "env \<Rightarrow> u8 \<Rightarrow> ('z disk_state_scheme, u8) prog" where
  "disk_initialize E pdrv =
     (if pdrv \<noteq> 0 then ret STA_NOINIT
      else bindM (gets dstat) (\<lambda>st.
        if st AND STA_NODISK \<noteq> 0 then ret st
        else
          thenM MICROSD_PowerOn
         (thenM MICROSD_SpiClkSlow
         (thenM (repeatM 10 (thenM (MICROSD_XferSpi E 0xff) (ret ())))
         (bindM (identify E) (\<lambda>ty.
          thenM (modify (\<lambda>s. s\<lparr>CardType := ty\<rparr>))
         (thenM (MICROSD_Deselect E)
         (thenM (finish_init E ty)
                (gets dstat)))))))))"

text \<open>
  Block addressing: cards without the block flag take a byte address.
\<close>

definition card_address :: "u8 \<Rightarrow> u32 \<Rightarrow> u32" where
  "card_address ct sector = (if ct AND CT_BLOCK = 0 then sector * 512 else sector)"

text \<open>\<^verbatim>\<open>do { if (!BlockRx) break; } while (--count)\<close>: the blocks read and what is left of \<open>count\<close>.\<close>

fun read_blocks :: "env \<Rightarrow> nat \<Rightarrow> ('z disk_state_scheme, u8 list \<times> nat) prog" where
  "read_blocks E 0 = ret ([], 0)"
| "read_blocks E (Suc n) =
     bindM (MICROSD_BlockRx E 512) (\<lambda>r.
       case r of
         None \<Rightarrow> ret ([], Suc n)
       | Some bs \<Rightarrow> bindM (read_blocks E n) (\<lambda>(rest, left). ret (bs @ rest, left)))"

definition disk_read :: "env \<Rightarrow> u8 \<Rightarrow> u32 \<Rightarrow> nat \<Rightarrow> ('z disk_state_scheme, dresult \<times> u8 list) prog" where
  "disk_read E pdrv sector count =
     (if pdrv \<noteq> 0 \<or> count = 0 then ret (RES_PARERR, [])
      else bindM (gets dstat) (\<lambda>st. bindM (gets CardType) (\<lambda>ct.
        if st AND STA_NOINIT \<noteq> 0 then ret (RES_NOTRDY, [])
        else
          bindM
            (if count = 1 then
               bindM (MICROSD_SendCmd E CMD17 (card_address ct sector)) (\<lambda>r.
                 if r = 0 then
                   bindM (MICROSD_BlockRx E 512) (\<lambda>b.
                     case b of Some bs \<Rightarrow> ret (bs, 0) | None \<Rightarrow> ret ([], count))
                 else ret ([], count))
             else
               bindM (MICROSD_SendCmd E CMD18 (card_address ct sector)) (\<lambda>r.
                 if r = 0 then
                   bindM (read_blocks E count) (\<lambda>res.
                     thenM (MICROSD_SendCmd E CMD12 0) (ret res))
                 else ret ([], count)))
            (\<lambda>(bs, left).
              thenM (MICROSD_Deselect E)
                (ret (if left \<noteq> 0 then RES_ERROR else RES_OK, bs))))))"

fun write_blocks :: "env \<Rightarrow> nat \<Rightarrow> u8 list \<Rightarrow> ('z disk_state_scheme, nat) prog" where
  "write_blocks E 0 bs = ret 0"
| "write_blocks E (Suc n) bs =
     bindM (MICROSD_BlockTx E bs 0xFC) (\<lambda>ok.
       if \<not> ok then ret (Suc n) else write_blocks E n (drop 512 bs))"

definition disk_write :: "env \<Rightarrow> u8 \<Rightarrow> u8 list \<Rightarrow> u32 \<Rightarrow> nat \<Rightarrow> ('z disk_state_scheme, dresult) prog" where
  "disk_write E pdrv buff sector count =
     (if pdrv \<noteq> 0 \<or> count = 0 then ret RES_PARERR
      else bindM (gets dstat) (\<lambda>st. bindM (gets CardType) (\<lambda>ct.
        if st AND STA_NOINIT \<noteq> 0 then ret RES_NOTRDY
        else if st AND STA_PROTECT \<noteq> 0 then ret RES_WRPRT
        else
          bindM
            (if count = 1 then
               bindM (MICROSD_SendCmd E CMD24 (card_address ct sector)) (\<lambda>r.
                 if r = 0 then
                   bindM (MICROSD_BlockTx E buff 0xFE) (\<lambda>ok. ret (if ok then 0 else count))
                 else ret count)
             else
               thenM (whenM (ct AND CT_SDC \<noteq> 0)
                        (thenM (MICROSD_SendCmd E ACMD23 (word_of_nat count)) (ret ())))
                (bindM (MICROSD_SendCmd E CMD25 (card_address ct sector)) (\<lambda>r.
                   if r = 0 then
                     bindM (write_blocks E count buff) (\<lambda>left.
                     bindM (MICROSD_BlockTx E [] 0xFD) (\<lambda>ok.
                       ret (if \<not> ok then 1 else left)))
                   else ret count)))
            (\<lambda>left.
              thenM (MICROSD_Deselect E)
                (ret (if left \<noteq> 0 then RES_ERROR else RES_OK))))))"

section \<open>Control functions\<close>

definition CTRL_SYNC :: u8 where "CTRL_SYNC = 0"

definition GET_SECTOR_COUNT :: u8 where "GET_SECTOR_COUNT = 1"

definition GET_SECTOR_SIZE :: u8 where "GET_SECTOR_SIZE = 2"

definition GET_BLOCK_SIZE :: u8 where "GET_BLOCK_SIZE = 3"

definition MMC_GET_TYPE :: u8 where "MMC_GET_TYPE = 10"

definition MMC_GET_CSD :: u8 where "MMC_GET_CSD = 11"

definition MMC_GET_CID :: u8 where "MMC_GET_CID = 12"

definition MMC_GET_OCR :: u8 where "MMC_GET_OCR = 13"

definition MMC_GET_SDSTAT :: u8 where "MMC_GET_SDSTAT = 14"

lemmas ioctl_consts = CTRL_SYNC_def GET_SECTOR_COUNT_def GET_SECTOR_SIZE_def GET_BLOCK_SIZE_def
  MMC_GET_TYPE_def MMC_GET_CSD_def MMC_GET_CID_def MMC_GET_OCR_def MMC_GET_SDSTAT_def

text \<open>What is stored through \<open>buff\<close>, with the type the code stores it at.\<close>

datatype ioctl_out = NoOut | OutDword u32 | OutWord u16 | OutBytes "u8 list"

definition csd_byte :: "u8 list \<Rightarrow> nat \<Rightarrow> nat" where
  "csd_byte csd i = unat (csd ! i)"

text \<open>The capacity of the card in sectors, from its CSD register.\<close>

definition csd_sectors :: "u8 list \<Rightarrow> u32 option" where
  "csd_sectors csd =
     (let c = csd_byte csd in
      if c 0 div 64 = 1 then Some (push_bit 10 (word_of_nat (c 9 + c 8 * 256 + 1)))
      else
        let n = c 5 mod 16 + c 10 div 128 + (c 9 mod 4) * 2 + 2;
            csize = c 8 div 64 + c 7 * 4 + (c 6 mod 4) * 1024 + 1
        in if n < 9 then None else Some (push_bit (n - 9) (word_of_nat csize)))"

text \<open>The erase block size of an SDv1 or MMC card, from its CSD register.\<close>

definition csd_erase_block :: "u8 \<Rightarrow> u8 list \<Rightarrow> u32 option" where
  "csd_erase_block ct csd =
     (let c = csd_byte csd in
      if ct AND CT_SD1 \<noteq> 0 then
        (if c 13 div 64 = 0 then None
         else Some (push_bit (c 13 div 64 - 1) (word_of_nat ((c 10 mod 64) * 2 + c 11 div 128 + 1))))
      else
        Some (word_of_nat ((c 10 mod 128 div 4 + 1) * ((c 11 mod 4) * 8 + c 11 div 32 + 1))))"

definition shift_result :: "u32 option \<Rightarrow> ('z disk_state_scheme, dresult \<times> ioctl_out) prog" where
  "shift_result v =
     (case v of Some w \<Rightarrow> ret (RES_OK, OutDword w) | None \<Rightarrow> halt_with (Undefined ''negative shift''))"

text \<open>Read a 16-byte register with the given command and go on with it.\<close>

definition with_reg16 :: "env \<Rightarrow> u8 \<Rightarrow> (u8 list \<Rightarrow> ('z disk_state_scheme, dresult \<times> ioctl_out) prog)
    \<Rightarrow> ('z disk_state_scheme, dresult \<times> ioctl_out) prog" where
  "with_reg16 E cmd f =
     bindM (MICROSD_SendCmd E cmd 0) (\<lambda>r.
       if r = 0 then
         bindM (MICROSD_BlockRx E 16) (\<lambda>b. case b of Some csd \<Rightarrow> f csd | None \<Rightarrow> ret (RES_ERROR, NoOut))
       else ret (RES_ERROR, NoOut))"

definition ioctl_body :: "env \<Rightarrow> u8 \<Rightarrow> u8 list \<Rightarrow> ('z disk_state_scheme, dresult \<times> ioctl_out) prog" where
  "ioctl_body E cmd buff =
     (if cmd = CTRL_SYNC then
        bindM (MICROSD_Select E) (\<lambda>ok.
          if ok then thenM (MICROSD_Deselect E) (ret (RES_OK, NoOut)) else ret (RES_ERROR, NoOut))
      else if cmd = GET_SECTOR_COUNT then with_reg16 E CMD9 (\<lambda>csd. shift_result (csd_sectors csd))
      else if cmd = GET_SECTOR_SIZE then ret (RES_OK, OutWord 512)
      else if cmd = GET_BLOCK_SIZE then
        bindM (gets CardType) (\<lambda>ct.
          if ct AND CT_SD2 \<noteq> 0 then
            bindM (MICROSD_SendCmd E ACMD13 0) (\<lambda>r.
              if r = 0 then
                thenM (MICROSD_XferSpi E 0xff)
                 (bindM (MICROSD_BlockRx E 16) (\<lambda>b.
                    case b of
                      Some csd \<Rightarrow>
                        thenM (repeatM 48 (thenM (MICROSD_XferSpi E 0xff) (ret ())))
                              (ret (RES_OK, OutDword (push_bit (csd_byte csd 10 div 16) 16)))
                    | None \<Rightarrow> ret (RES_ERROR, NoOut)))
              else ret (RES_ERROR, NoOut))
          else with_reg16 E CMD9 (\<lambda>csd. shift_result (csd_erase_block ct csd)))
      else if cmd = MMC_GET_TYPE then bindM (gets CardType) (\<lambda>ct. ret (RES_OK, OutBytes [ct]))
      else if cmd = MMC_GET_CSD then with_reg16 E CMD9 (\<lambda>csd. ret (RES_OK, OutBytes csd))
      else if cmd = MMC_GET_CID then with_reg16 E CMD10 (\<lambda>csd. ret (RES_OK, OutBytes csd))
      else if cmd = MMC_GET_OCR then
        bindM (MICROSD_SendCmd E CMD58 0) (\<lambda>r.
          if r = 0 then bindM (read4 E) (\<lambda>ocr. ret (RES_OK, OutBytes ocr))
          else ret (RES_ERROR, NoOut))
      else if cmd = MMC_GET_SDSTAT then
        bindM (MICROSD_SendCmd E ACMD13 0) (\<lambda>r.
          if r = 0 then
            thenM (MICROSD_XferSpi E 0xff)
             (bindM (MICROSD_BlockTx E buff 64) (\<lambda>ok. ret (if ok then RES_OK else RES_ERROR, NoOut)))
          else ret (RES_ERROR, NoOut))
      else ret (RES_PARERR, NoOut))"

definition disk_ioctl :: "env \<Rightarrow> u8 \<Rightarrow> u8 \<Rightarrow> u8 list \<Rightarrow> ('z disk_state_scheme, dresult \<times> ioctl_out) prog" where
  "disk_ioctl E pdrv cmd buff =
     (if pdrv \<noteq> 0 then ret (RES_PARERR, NoOut)
      else bindM (gets dstat) (\<lambda>st.
        if st AND STA_NOINIT \<noteq> 0 then ret (RES_NOTRDY, NoOut)
        else bindM (ioctl_body E cmd buff) (\<lambda>res. thenM (MICROSD_Deselect E) (ret res))))"

section \<open>Initialisation returns\<close>

text \<open>
  \<open>sd_io s t\<close>: card traffic and changes of the driver's own two variables only.
  \<open>runs_io P f\<close>: \<open>f\<close> always returns, with a result satisfying \<open>P\<close>.
\<close>

definition sd_io :: "'z sd_state_scheme \<Rightarrow> 'z sd_state_scheme \<Rightarrow> bool" where
  "sd_io s t \<longleftrightarrow>
     (\<exists>es to x. t = s\<lparr>timeOut := to, xfersPrMsec := x, trace := trace s @ es\<rparr> \<and> (\<forall>e \<in> set es. sd_event e))"

definition runs_io :: "('a \<Rightarrow> bool) \<Rightarrow> ('z sd_state_scheme, 'a) prog \<Rightarrow> bool" where
  "runs_io P f \<longleftrightarrow> (\<forall>s. wp f (\<lambda>x t. sd_io s t \<and> P x) (\<lambda>_ _. False) s)"

lemma sd_io_refl [simp]: "sd_io s s"
  unfolding sd_io_def
  by (rule exI [of _ "[]"], rule exI [of _ "timeOut s"], rule exI [of _ "xfersPrMsec s"]) simp

lemma sd_io_trans: "sd_io s t \<Longrightarrow> sd_io t u \<Longrightarrow> sd_io s u"
  unfolding sd_io_def
proof (elim exE conjE)
  fix es to x fs to' x'
  assume "t = s\<lparr>timeOut := to, xfersPrMsec := x, trace := trace s @ es\<rparr>" "\<forall>e \<in> set es. sd_event e"
    "u = t\<lparr>timeOut := to', xfersPrMsec := x', trace := trace t @ fs\<rparr>" "\<forall>e \<in> set fs. sd_event e"
  then show "\<exists>es to x. u = s\<lparr>timeOut := to, xfersPrMsec := x, trace := trace s @ es\<rparr> \<and> (\<forall>e \<in> set es. sd_event e)"
    by (intro exI [of _ "es @ fs"] exI [of _ to'] exI [of _ x']) auto
qed

lemma sd_adv_io: "sd_adv n s t \<Longrightarrow> sd_io s t"
  unfolding sd_adv_def sd_io_def
proof (elim exE conjE)
  fix es to
  assume "t = s\<lparr>timeOut := to, trace := trace s @ es\<rparr>" "\<forall>e \<in> set es. sd_event e"
  then show "\<exists>es to x. t = s\<lparr>timeOut := to, xfersPrMsec := x, trace := trace s @ es\<rparr> \<and> (\<forall>e \<in> set es. sd_event e)"
    by (intro exI [of _ es] exI [of _ to] exI [of _ "xfersPrMsec s"]) simp
qed

lemma sd_io_modify:
  "sd_io s (s\<lparr>timeOut := to\<rparr>)" "sd_io s (s\<lparr>xfersPrMsec := x\<rparr>)"
  unfolding sd_io_def
  by (rule exI [of _ "[]"], rule exI [of _ to], rule exI [of _ "xfersPrMsec s"], simp)
    (rule exI [of _ "[]"], rule exI [of _ "timeOut s"], rule exI [of _ x], simp)

lemma runs_io_ret: "P x \<Longrightarrow> runs_io P (ret x)"
  by (simp add: runs_io_def)

lemma runs_io_gets: "(\<And>s. P (f s)) \<Longrightarrow> runs_io P (gets f)"
  by (simp add: runs_io_def)

lemma runs_adv_io: "runs_adv n f \<Longrightarrow> runs_io (\<lambda>_. True) f"
  unfolding runs_io_def runs_adv_def by (blast intro: wp_mono sd_adv_io)

lemma runs_io_bindM:
  assumes "runs_io P f" and "\<And>x. P x \<Longrightarrow> runs_io R (g x)"
  shows "runs_io R (bindM f g)"
  unfolding runs_io_def
proof (intro allI)
  fix s
  have "wp f (\<lambda>x t. sd_io s t \<and> P x) (\<lambda>_ _. False) s" using assms(1) by (simp add: runs_io_def)
  then show "wp (bindM f g) (\<lambda>x t. sd_io s t \<and> R x) (\<lambda>_ _. False) s"
  proof (simp, elim wp_mono)
    fix x t assume *: "sd_io s t \<and> P x"
    then have "wp (g x) (\<lambda>y u. sd_io t u \<and> R y) (\<lambda>_ _. False) t"
      using assms(2) by (simp add: runs_io_def)
    then show "wp (g x) (\<lambda>y u. sd_io s u \<and> R y) (\<lambda>_ _. False) t"
      using * by (auto elim!: wp_mono intro: sd_io_trans)
  qed
qed

lemma runs_io_thenM: "runs_io P f \<Longrightarrow> runs_io R g \<Longrightarrow> runs_io R (thenM f g)"
  unfolding thenM_def by (rule runs_io_bindM)

lemma runs_io_if: "(b \<Longrightarrow> runs_io P f) \<Longrightarrow> (\<not> b \<Longrightarrow> runs_io P g) \<Longrightarrow> runs_io P (if b then f else g)"
  by simp

lemma runs_io_emit: "sd_event e \<Longrightarrow> runs_io (\<lambda>_. True) (emit e)"
  by (rule runs_adv_io [OF runs_adv_emit])

lemma runs_io_repeatM: "runs_io (\<lambda>_. True) m \<Longrightarrow> runs_io (\<lambda>_. True) (repeatM n m)"
  by (induction n) (auto intro: runs_io_ret runs_io_thenM)

text \<open>The loop that waits for the card to leave the idle state ends before its bound.\<close>

lemma wait_leave_idle_adv:
  "unat (timeOut s) < n \<Longrightarrow> wp (wait_leave_idle E cmd arg n) (\<lambda>_ t. sd_adv 0 s t) (\<lambda>_ _. False) s"
proof (induction n arbitrary: s)
  case 0
  then show ?case by simp
next
  case (Suc n)
  show ?case
  proof (cases "timeOut s = 0")
    case True
    then show ?thesis by simp
  next
    case False
    have body: "wp (MICROSD_SendCmd E cmd arg) (\<lambda>_ t. sd_adv 2 s t) (\<lambda>_ _. False) s"
      by (rule runs_adv_SendCmd [unfolded runs_adv_def, THEN spec])
    have "wp (wait_leave_idle E cmd arg n) (\<lambda>_ u. sd_adv 0 s u) (\<lambda>_ _. False) t" if "sd_adv 2 s t" for t
    proof -
      have "0 < unat (timeOut s)" using False by (simp add: unat_gt_0)
      then have "unat (timeOut t) < n" using that Suc.prems by (auto simp: sd_adv_def)
      from Suc.IH [OF this] show ?thesis
        by (elim wp_mono) (auto intro: sd_adv_weaken [OF sd_adv_trans [OF that]])
    qed
    then show ?thesis
      using False body
      by (auto elim!: wp_mono intro: sd_adv_weaken)
  qed
qed

lemma runs_io_leave_idle: "runs_io (\<lambda>_. True) (leave_idle E cmd arg)"
  unfolding runs_io_def leave_idle_def
  by (auto intro!: wp_mono [OF wait_leave_idle_adv] sd_adv_io simp del: wait_leave_idle.simps)

lemma runs_io_read4: "runs_io (\<lambda>_. True) (read4 E)"
  unfolding read4_def by (intro runs_io_bindM [OF runs_adv_io [OF runs_adv_XferSpi]] runs_io_ret TrueI)

definition card_types :: "u8 set" where
  "card_types = {0, CT_MMC, CT_SD1, CT_SD2, CT_SD2 OR CT_BLOCK}"

lemmas runs_io_cmd = runs_adv_io [OF runs_adv_SendCmd]

lemma runs_io_elapsed: "runs_io (\<lambda>_. True) MICROSD_TimeOutElapsed"
  unfolding MICROSD_TimeOutElapsed_def by (rule runs_io_gets) simp

lemma runs_io_identify_v2: "runs_io (\<lambda>ty. ty \<in> card_types) (identify_v2 E)"
  unfolding identify_v2_def
  by (intro runs_io_bindM [OF runs_io_read4] runs_io_if runs_io_thenM [OF runs_io_leave_idle]
      runs_io_bindM [OF runs_io_elapsed] runs_io_bindM [OF runs_io_cmd] runs_io_ret)
    (auto simp: card_types_def)

lemma runs_io_identify_v1: "runs_io (\<lambda>ty. ty \<in> card_types) (identify_v1 E)"
  unfolding identify_v1_def Let_def prod.case
  by (intro runs_io_bindM [OF runs_io_cmd])
    (auto split: prod.split if_splits intro!: runs_io_thenM [OF runs_io_leave_idle]
      runs_io_bindM [OF runs_io_elapsed] runs_io_bindM [OF runs_io_cmd] runs_io_ret simp: card_types_def)

lemma runs_io_identify: "runs_io (\<lambda>ty. ty \<in> card_types) (identify E)"
proof -
  have "runs_io (\<lambda>_. True) (MICROSD_TimeOutSet 1000)"
    by (simp add: runs_io_def sd_io_modify)
  then show ?thesis
    unfolding identify_def
    by (intro runs_io_bindM [OF runs_io_cmd] runs_io_if runs_io_thenM runs_io_identify_v1 runs_io_identify_v2
        runs_io_ret) (simp_all add: card_types_def)
qed

text \<open>
  Initialisation of drive 0 with a socket that is not marked empty: it returns for every
  environment, the status is the one it leaves in \<open>dstat\<close>, and the drive is usable
  exactly when a card type was recognised.
\<close>

lemma wp_runs_io:
  "runs_io P f \<Longrightarrow> (\<And>x t. sd_io s t \<Longrightarrow> P x \<Longrightarrow> Q x t) \<Longrightarrow> wp f Q H s"
  unfolding runs_io_def by (elim allE [of _ s] wp_mono) auto

lemma runs_io_setup:
  "runs_io (\<lambda>_. True) MICROSD_PowerOn" "runs_io (\<lambda>_. True) MICROSD_SpiClkSlow"
  "runs_io (\<lambda>_. True) MICROSD_SpiClkFast" "runs_io (\<lambda>_. True) (MICROSD_PowerOff E)"
proof -
  have ev: "sd_event (Ext f as)" for f as by (simp add: sd_event_def pin_effect_def)
  show "runs_io (\<lambda>_. True) MICROSD_PowerOn"
    unfolding MICROSD_PowerOn_def ext_call_def by (rule runs_io_emit [OF ev])
  show "runs_io (\<lambda>_. True) MICROSD_SpiClkSlow" "runs_io (\<lambda>_. True) MICROSD_SpiClkFast"
    unfolding MICROSD_SpiClkSlow_def MICROSD_SpiClkFast_def ext_call_def
    by (rule runs_io_thenM [OF runs_io_emit [OF ev]], simp add: runs_io_def sd_io_modify)+
  show "runs_io (\<lambda>_. True) (MICROSD_PowerOff E)"
    unfolding MICROSD_PowerOff_def ext_call_def
    by (intro runs_io_thenM [OF runs_adv_io [OF runs_adv_Select]]
        runs_io_thenM [OF runs_adv_io [OF runs_adv_Deselect]] runs_io_emit [OF ev])
qed

lemma runs_io_dummy_clocks:
  "runs_io (\<lambda>_. True) (repeatM n (thenM (MICROSD_XferSpi E 0xff) (ret ())))"
  by (intro runs_io_repeatM runs_io_thenM [OF runs_adv_io [OF runs_adv_XferSpi]] runs_io_ret TrueI)

lemma sd_io_disk: "sd_io s t \<Longrightarrow> dstat t = dstat s \<and> CardType t = CardType s"
  by (auto simp: sd_io_def)

lemma noinit_bits: "(w AND NOT STA_NOINIT) AND STA_NOINIT = 0" "(w OR STA_NOINIT) AND STA_NOINIT \<noteq> 0"
proof -
  show "(w AND NOT STA_NOINIT) AND STA_NOINIT = 0" by (simp add: and.assoc)
  have "bit ((w OR STA_NOINIT) AND STA_NOINIT) 0" by (simp add: STA_NOINIT_def bit_simps)
  then show "(w OR STA_NOINIT) AND STA_NOINIT \<noteq> 0" by auto
qed

definition disk_ready :: "'z disk_state_scheme \<Rightarrow> bool" where
  "disk_ready s \<longleftrightarrow> dstat s AND STA_NOINIT = 0"

text \<open>Card traffic, and new values of the two variables of this file.\<close>

definition disk_io :: "'z disk_state_scheme \<Rightarrow> 'z disk_state_scheme \<Rightarrow> bool" where
  "disk_io s t \<longleftrightarrow> sd_io (s\<lparr>CardType := CardType t, dstat := dstat t\<rparr>) t"

lemma disk_ioI:
  "t = s\<lparr>CardType := ct, dstat := st, timeOut := to, xfersPrMsec := x, trace := trace s @ es\<rparr> \<Longrightarrow>
   (\<And>e. e \<in> set es \<Longrightarrow> sd_event e) \<Longrightarrow> disk_io s t"
  unfolding disk_io_def sd_io_def by (intro exI [of _ es] exI [of _ to] exI [of _ x]) simp

lemma disk_ioE:
  assumes "disk_io s t"
  obtains ct st to x es where
    "t = s\<lparr>CardType := ct, dstat := st, timeOut := to, xfersPrMsec := x, trace := trace s @ es\<rparr>"
    and "\<And>e. e \<in> set es \<Longrightarrow> sd_event e"
proof -
  obtain es to x where "t = s\<lparr>CardType := CardType t, dstat := dstat t, timeOut := to, xfersPrMsec := x, trace := trace s @ es\<rparr>"
    "\<forall>e \<in> set es. sd_event e"
    using assms by (auto simp: disk_io_def sd_io_def)
  with that show ?thesis by blast
qed

lemma disk_io_trans: "disk_io s t \<Longrightarrow> disk_io t u \<Longrightarrow> disk_io s u"
proof (elim disk_ioE)
  fix ct st to x es ct' st' to' x' fs
  assume "t = s\<lparr>CardType := ct, dstat := st, timeOut := to, xfersPrMsec := x, trace := trace s @ es\<rparr>"
    "u = t\<lparr>CardType := ct', dstat := st', timeOut := to', xfersPrMsec := x', trace := trace t @ fs\<rparr>"
    "\<And>e. e \<in> set es \<Longrightarrow> sd_event e" "\<And>e. e \<in> set fs \<Longrightarrow> sd_event e"
  then show "disk_io s u"
    by (intro disk_ioI [where ct = ct' and st = st' and to = to' and x = x' and es = "es @ fs"]) auto
qed

lemma sd_io_disk_io: "sd_io s t \<Longrightarrow> disk_io s t"
  using sd_io_disk [of s t] by (simp add: disk_io_def)

lemma disk_io_modify: "disk_io s (s\<lparr>CardType := ct\<rparr>)" "disk_io s (s\<lparr>dstat := st\<rparr>)"
  by (simp_all add: disk_io_def)

lemma finish_init_wp:
  "wp (finish_init E (CardType s)) (\<lambda>_ t. disk_io s t \<and> CardType t = CardType s \<and>
     (disk_ready t \<longleftrightarrow> CardType s \<noteq> 0)) (\<lambda>_ _. False) s"
proof (cases "CardType s = 0")
  case False
  let ?s = "s\<lparr>dstat := dstat s AND NOT STA_NOINIT\<rparr>"
  have "wp MICROSD_SpiClkFast (\<lambda>_ t. disk_io s t \<and> CardType t = CardType s \<and> disk_ready t) (\<lambda>_ _. False) ?s"
  proof (rule wp_runs_io [OF runs_io_setup(3)])
    fix t assume "sd_io ?s t"
    then show "disk_io s t \<and> CardType t = CardType s \<and> disk_ready t"
      using sd_io_disk [of ?s t] noinit_bits(1) disk_io_trans [OF disk_io_modify(2) sd_io_disk_io]
      by (simp add: disk_ready_def)
  qed
  then show ?thesis using False by (simp add: finish_init_def)
next
  case True
  have "wp (MICROSD_PowerOff E) (\<lambda>_ t. disk_io s t \<and> CardType t = CardType s) (\<lambda>_ _. False) s"
    by (rule wp_runs_io [OF runs_io_setup(4)]) (use sd_io_disk sd_io_disk_io in blast)
  then have "wp (MICROSD_PowerOff E) (\<lambda>_ t. disk_io s (t\<lparr>dstat := dstat t OR STA_NOINIT\<rparr>) \<and> CardType t = CardType s)
      (\<lambda>_ _. False) s"
    by (rule wp_mono) (auto intro: disk_io_trans disk_io_modify)
  then show ?thesis
    using True noinit_bits(2) by (simp add: finish_init_def disk_ready_def)
qed

lemma disk_initialize_wp:
  fixes s :: "'z disk_state_scheme"
  assumes "dstat s AND STA_NODISK = 0" and idf: "runs_io (\<lambda>ty. ty \<in> T) (identify E :: ('z disk_state_scheme, u8) prog)"
  shows "wp (disk_initialize E 0) (\<lambda>r t. disk_io s t \<and> r = dstat t \<and> CardType t \<in> T \<and>
      (disk_ready t \<longleftrightarrow> CardType t \<noteq> 0)) (\<lambda>_ _. False) s"
proof -
  define ini :: "('z disk_state_scheme, u8) prog" where "ini = thenM MICROSD_PowerOn (thenM MICROSD_SpiClkSlow
       (thenM (repeatM 10 (thenM (MICROSD_XferSpi E 0xff) (ret ()))) (identify E)))"
  have r: "runs_io (\<lambda>ty. ty \<in> T) ini"
    unfolding ini_def
    by (intro runs_io_thenM [OF runs_io_setup(1)] runs_io_thenM [OF runs_io_setup(2)]
        runs_io_thenM [OF runs_io_dummy_clocks] idf)
  let ?Q = "\<lambda>r t. disk_io s t \<and> r = dstat t \<and> CardType t \<in> T \<and> (disk_ready t \<longleftrightarrow> CardType t \<noteq> 0)"
  have "wp ini (\<lambda>ty t. wp (MICROSD_Deselect E) (\<lambda>_ u. wp (finish_init E ty) (\<lambda>_ v. ?Q (dstat v) v) (\<lambda>_ _. False) u)
      (\<lambda>_ _. False) (t\<lparr>CardType := ty\<rparr>)) (\<lambda>_ _. False) s"
  proof (rule wp_runs_io [OF r], rule wp_runs_io [OF runs_adv_io [OF runs_adv_Deselect]])
    fix ty t u
    assume a: "sd_io s t" "ty \<in> T" "sd_io (t\<lparr>CardType := ty\<rparr>) u"
    have "CardType u = ty" using sd_io_disk [OF a(3)] by simp
    moreover have "disk_io s u"
      by (rule disk_io_trans [OF disk_io_trans [OF sd_io_disk_io [OF a(1)] disk_io_modify(1)] sd_io_disk_io [OF a(3)]])
    ultimately show "wp (finish_init E ty) (\<lambda>_ v. ?Q (dstat v) v) (\<lambda>_ _. False) u"
      using finish_init_wp [of E u] a(2) by (auto elim!: wp_mono intro: disk_io_trans)
  qed
  then show ?thesis
    using assms by (simp add: disk_initialize_def ini_def)
qed

section \<open>Properties\<close>

text \<open>A drive before initialisation, used to instantiate the properties.\<close>

definition blank_disk :: disk_state where
  "blank_disk = \<lparr>trace = [], configMem = blank_table, flash = [], timeOut = 0, xfersPrMsec = 0,
     dstat = STA_NOINIT, CardType = 0\<rparr>"

text \<open>
  C16. Initialisation of the card always ends, whatever the card answers: it returns the new
  status of the drive, the card type is one of the five the code knows, and the drive is
  usable exactly when a type was recognised. Besides the card's own traffic it changes only the
  variables of the driver.
\<close>

theorem disk_initialize_total:
  assumes "dstat s AND STA_NODISK = 0"
  shows "\<exists>r t. disk_initialize E 0 s = Ret r t \<and> r = dstat t \<and> CardType t \<in> card_types \<and>
    (r AND STA_NOINIT = 0 \<longleftrightarrow> CardType t \<noteq> 0) \<and> disk_io s t"
  using disk_initialize_wp [OF assms runs_io_identify, of E] unfolding wp_total_ex disk_ready_def by auto

theorem disk_initialize_total_witness:
  "\<exists>r t. disk_initialize ideal_env 0 blank_disk = Ret r t \<and> r = dstat t \<and> CardType t \<in> card_types"
  using disk_initialize_total [of blank_disk ideal_env] by (auto simp: blank_disk_def STA_NOINIT_def STA_NODISK_def)

text \<open>An empty socket or a dead card: the data line stays high.\<close>

definition sd_silent :: "env \<Rightarrow> bool" where
  "sd_silent E \<longleftrightarrow> (\<forall>tr d. env_spi E tr SD_USART d = 0xff)"

lemma silent_xfer: "sd_silent E \<Longrightarrow> runs_io (\<lambda>r. r = 0xff) (MICROSD_XferSpi E d)"
  using runs_adv_io [OF runs_adv_XferSpi, of E d]
  unfolding runs_io_def sd_silent_def by (simp del: split_paired_All)

lemma silent_xfer_while: "sd_silent E \<Longrightarrow> runs_io (\<lambda>r. r = 0xff) (xfer_while E c n)"
  by (induction n) (auto intro!: runs_io_bindM [OF silent_xfer] runs_io_ret simp: silent_xfer)

lemma silent_send_cmd_body: "sd_silent E \<Longrightarrow> runs_io (\<lambda>r. r = 0xff) (send_cmd_body E cmd arg)"
  unfolding send_cmd_body_def whenM_def
  by (intro runs_io_thenM [OF runs_adv_io [OF runs_adv_Deselect]] runs_io_bindM [OF runs_adv_io [OF runs_adv_Select]]
      runs_io_if runs_io_ret runs_io_thenM [OF runs_adv_io [OF runs_adv_send_packet]]
      runs_io_thenM [where P = "\<lambda>_. True"] silent_xfer_while)
    (auto intro: runs_io_ret runs_adv_io [OF runs_adv_XferSpi])

lemma silent_SendCmd: "sd_silent E \<Longrightarrow> runs_io (\<lambda>r. r = 0xff) (MICROSD_SendCmd E cmd arg)"
  unfolding MICROSD_SendCmd_def
  by (intro runs_io_if runs_io_bindM [OF silent_send_cmd_body] runs_io_ret silent_send_cmd_body) auto

lemma silent_not_ready:
  assumes "sd_silent E" and "dstat s AND STA_NODISK = 0"
  shows "\<exists>r t. disk_initialize E 0 s = Ret r t \<and> r = dstat t \<and> r AND STA_NOINIT \<noteq> 0 \<and> CardType t = 0"
proof -
  have "runs_io (\<lambda>ty. ty \<in> {0}) (identify E :: ('a disk_state_scheme, u8) prog)"
    unfolding identify_def by (rule runs_io_bindM [OF silent_SendCmd [OF assms(1)]]) (simp add: runs_io_ret)
  from disk_initialize_wp [OF assms(2) this] show ?thesis
    unfolding wp_total_ex disk_ready_def by auto
qed

text \<open>
  An empty socket is reported as an error: if the card's data line stays high, the
  initialisation returns with the drive marked as not initialised and no card type, and every
  later read, write or control call on the drive is refused without touching the card.
\<close>

theorem silent_card_not_ready:
  assumes "sd_silent E" and "dstat s AND STA_NODISK = 0"
  shows "\<exists>r t. disk_initialize E 0 s = Ret r t \<and> r AND STA_NOINIT \<noteq> 0 \<and> CardType t = 0 \<and>
    disk_read E 0 sector (Suc n) t = Ret (RES_NOTRDY, []) t \<and>
    disk_write E 0 buff sector (Suc n) t = Ret RES_NOTRDY t \<and>
    disk_ioctl E 0 cmd buff t = Ret (RES_NOTRDY, NoOut) t"
  using silent_not_ready [OF assms] by (auto simp: disk_read_def disk_write_def disk_ioctl_def)

theorem silent_card_not_ready_witness:
  "\<exists>r t. disk_initialize ideal_env 0 blank_disk = Ret r t \<and> r AND STA_NOINIT \<noteq> 0 \<and> CardType t = 0"
  using silent_card_not_ready [of ideal_env blank_disk 0 0 "[]" 0]
  by (auto simp: sd_silent_def ideal_env_def blank_disk_def STA_NOINIT_def STA_NODISK_def)

section \<open>Reading\<close>

lemma sd_event_simps [simp]:
  "sd_event (Ext f as)" "sd_event (RegSet r v)" "sd_event (RegGet r v)" "sd_event (Spi u tx rx)" "sd_event (Printf t)"
  by (simp_all add: sd_event_def)

lemma runs_io_calls:
  "runs_io (\<lambda>_. True) (ext_call f as)" "runs_io (\<lambda>_. True) (reg_set r v)" "runs_io (\<lambda>_. True) (reg_get E r)"
proof -
  show "runs_io (\<lambda>_. True) (ext_call f as)" "runs_io (\<lambda>_. True) (reg_set r v)"
    unfolding call_defs by (intro runs_io_emit sd_event_simps)+
  show "runs_io (\<lambda>_. True) (reg_get E r)"
    unfolding reg_get_def
    by (intro runs_io_bindM [OF runs_io_gets [where P = "\<lambda>_. True"]] runs_io_thenM [OF runs_io_emit] runs_io_ret) simp_all
qed

lemma runs_io_wait_flag:
  assumes "flags_rise E"
  shows "runs_io (\<lambda>_. True) (wait_flag E r)"
  unfolding runs_io_def wp_total_ex
proof (intro allI)
  fix s :: "'a sd_state_scheme"
  obtain vs where v: "wait_flag E r s = Ret () (s\<lparr>trace := trace s @ map (RegGet r) vs\<rparr>)"
    using wait_flag_run [OF assms] by blast
  have "sd_io s (s\<lparr>trace := trace s @ map (RegGet r) vs\<rparr>)"
    unfolding sd_io_def
    by (rule exI [of _ "map (RegGet r) vs"], rule exI [of _ "timeOut s"], rule exI [of _ "xfersPrMsec s"]) auto
  with v show "\<exists>x t. wait_flag E r s = Ret x t \<and> sd_io s t \<and> True" by blast
qed

lemma runs_io_rx_frames: "flags_rise E \<Longrightarrow> runs_io (\<lambda>bs. length bs = 2 * n) (rx_frames E n)"
  by (induction n)
    (auto intro!: runs_io_ret runs_io_thenM [OF runs_io_calls(2)] runs_io_thenM [OF runs_io_wait_flag]
      runs_io_bindM [OF runs_io_calls(3)] runs_io_bindM [where P = "\<lambda>bs. length bs = 2 * n" for n] simp: Let_def)

lemma runs_io_charge: "runs_io (\<lambda>_. True) (charge_timeout n)"
  unfolding charge_timeout_def runs_io_def by (simp add: sd_io_modify)

lemma runs_io_weaken: "runs_io P f \<Longrightarrow> (\<And>x. P x \<Longrightarrow> R x) \<Longrightarrow> runs_io R f"
  unfolding runs_io_def by (blast intro: wp_mono)

lemmas runs_io_any = runs_io_calls runs_io_charge runs_adv_io [OF runs_adv_XferSpi] runs_adv_io [OF runs_adv_xfer_while]
  runs_adv_io [OF runs_adv_WaitReady] runs_adv_io [OF runs_adv_Deselect]

lemma runs_io_BlockRx:
  assumes "flags_rise E" and "btr \<noteq> 0" and "even (unat btr)"
  shows "runs_io (\<lambda>r. \<forall>bs. r = Some bs \<longrightarrow> length bs = unat btr) (MICROSD_BlockRx E btr)"
proof -
  have ne: "\<not> (btr = 0 \<or> odd (unat btr))" using assms(2,3) by simp
  have rx: "runs_io (\<lambda>bs. length bs = unat btr) (rx_frames E (unat btr div 2))"
    using runs_io_rx_frames [OF assms(1), of "unat btr div 2"] assms(3) by simp
  show ?thesis
    unfolding MICROSD_BlockRx_def if_not_P [OF ne]
    by (intro runs_io_bindM [OF runs_io_gets [where P = "\<lambda>_. True"]] runs_io_any [THEN runs_io_bindM] runs_io_any [THEN runs_io_thenM]
        runs_io_if runs_io_bindM [OF rx] runs_io_thenM [OF runs_io_wait_flag [OF assms(1)]] runs_io_ret) auto
qed

lemma runs_io_BlockRx_512:
  "flags_rise E \<Longrightarrow> runs_io (\<lambda>r. \<forall>bs. r = Some bs \<longrightarrow> length bs = 512) (MICROSD_BlockRx E 512)"
  using runs_io_BlockRx [of E 512] by simp

lemma runs_io_read_blocks:
  "flags_rise E \<Longrightarrow> runs_io (\<lambda>(bs, left). length bs + 512 * left = 512 * n)
     (read_blocks E n :: ('z disk_state_scheme, u8 list \<times> nat) prog)"
proof (induction n)
  case (Suc n)
  show ?case
    unfolding read_blocks.simps
  proof (rule runs_io_bindM [OF runs_io_BlockRx_512 [OF Suc.prems]])
    fix r :: "u8 list option" assume r: "\<forall>bs. r = Some bs \<longrightarrow> length bs = 512"
    show "runs_io (\<lambda>(bs, left). length bs + 512 * left = 512 * Suc n)
      (case r of None \<Rightarrow> ret ([], Suc n)
       | Some bs \<Rightarrow> bindM (read_blocks E n :: ('z disk_state_scheme, u8 list \<times> nat) prog) (\<lambda>(rest, left). ret (bs @ rest, left)))"
    proof (cases r)
      case (Some a)
      show ?thesis
        unfolding Some option.case
        by (rule runs_io_bindM [OF Suc.IH [OF Suc.prems]]) (use r Some in \<open>auto intro!: runs_io_ret\<close>)
    qed (simp add: runs_io_ret)
  qed
qed (simp add: runs_io_ret)

text \<open>
  Reading sectors: on an initialised drive with a working USART, \<^verbatim>\<open>disk_read\<close> of a positive
  number of sectors always returns, with the result OK exactly when all sectors were
  received, and then the buffer holds exactly 512 bytes per sector; otherwise the result is an error and
  only whole sectors were stored. The status and the type of the drive are unchanged.
\<close>

theorem disk_read_result:
  assumes "flags_rise E" and "disk_ready s" and "0 < count"
  shows "\<exists>res bs t. disk_read E 0 sector count s = Ret (res, bs) t \<and> sd_io s t \<and>
    dstat t = dstat s \<and> CardType t = CardType s \<and>
    res \<in> {RES_OK, RES_ERROR} \<and> length bs \<le> 512 * count \<and> 512 dvd length bs \<and>
    (res = RES_OK \<longleftrightarrow> length bs = 512 * count)"
proof -
  let ?P = "\<lambda>(bs, left). length bs + 512 * left = 512 * count"
  let ?body = "if count = 1 then
       bindM (MICROSD_SendCmd E CMD17 (card_address (CardType s) sector)) (\<lambda>r.
         if r = 0 then
           bindM (MICROSD_BlockRx E 512) (\<lambda>b. case b of Some bs \<Rightarrow> ret (bs, 0) | None \<Rightarrow> ret ([], count))
         else ret ([], count))
     else
       bindM (MICROSD_SendCmd E CMD18 (card_address (CardType s) sector)) (\<lambda>r.
         if r = 0 then bindM (read_blocks E count) (\<lambda>res. thenM (MICROSD_SendCmd E CMD12 0) (ret res))
         else ret ([], count))"
  have one: "runs_io ?P (bindM (MICROSD_BlockRx E 512) (\<lambda>b. case b of Some bs \<Rightarrow> ret (bs, 0) | None \<Rightarrow> ret ([], count)))"
    if "count = 1"
    by (rule runs_io_bindM [OF runs_io_BlockRx_512 [OF assms(1)]]) (use that in \<open>auto intro: runs_io_ret split: option.split\<close>)
  have many: "runs_io ?P (bindM (read_blocks E count) (\<lambda>res. thenM (MICROSD_SendCmd E CMD12 0) (ret res)))"
    by (intro runs_io_bindM [OF runs_io_read_blocks [OF assms(1)]] runs_io_thenM [OF runs_io_cmd] runs_io_ret)
  have b: "runs_io ?P ?body"
    by (intro runs_io_if runs_io_bindM [OF runs_io_cmd] runs_io_ret one many) auto
  let ?R = "\<lambda>(res, bs). res \<in> {RES_OK, RES_ERROR} \<and> length bs \<le> 512 * count \<and> 512 dvd length bs \<and>
    (res = RES_OK \<longleftrightarrow> length bs = 512 * count)"
  have "runs_io ?R (bindM ?body (\<lambda>(bs, left). thenM (MICROSD_Deselect E) (ret (if left \<noteq> 0 then RES_ERROR else RES_OK, bs))))"
  proof (rule runs_io_bindM [OF b])
    fix x :: "u8 list \<times> nat" assume "?P x"
    then obtain bs left where x: "x = (bs, left)" "length bs + 512 * left = 512 * count" by (cases x) auto
    then have "512 dvd length bs" by (metis dvd_add_times_triv_right_iff dvd_triv_left mult.commute)
    then have "?R (if left \<noteq> 0 then RES_ERROR else RES_OK, bs)" using x by auto
    then show "runs_io ?R (case x of (bs, left) \<Rightarrow> thenM (MICROSD_Deselect E) (ret (if left \<noteq> 0 then RES_ERROR else RES_OK, bs)))"
      unfolding x(1) by (simp only: prod.case) (intro runs_io_thenM [OF runs_adv_io [OF runs_adv_Deselect]] runs_io_ret, auto)
  qed
  then obtain x t where "bindM ?body (\<lambda>(bs, left). thenM (MICROSD_Deselect E) (ret (if left \<noteq> 0 then RES_ERROR else RES_OK, bs))) s = Ret x t"
    "sd_io s t" "?R x"
    unfolding runs_io_def wp_total_ex by blast
  moreover have "disk_read E 0 sector count s =
      bindM ?body (\<lambda>(bs, left). thenM (MICROSD_Deselect E) (ret (if left \<noteq> 0 then RES_ERROR else RES_OK, bs))) s"
    using assms(2,3) unfolding disk_read_def disk_ready_def by simp
  ultimately show ?thesis using sd_io_disk [of s t] by (cases x) auto
qed

theorem disk_read_result_witness:
  "\<exists>res bs t. disk_read ideal_env 0 7 1 (blank_disk\<lparr>dstat := 0\<rparr>) = Ret (res, bs) t \<and>
     (res = RES_OK \<longleftrightarrow> length bs = 512)"
  using disk_read_result [OF ideal_env_flags, of "blank_disk\<lparr>dstat := 0\<rparr>" 1 7]
  by (auto simp: disk_ready_def)

end
