(* ===== verification/Netif.thy ===== *)
theory Netif
  imports DiskIo
begin

text \<open>
  The network interface of lwIP (core/netif.c) for the one \<^verbatim>\<open>struct netif\<close> of net.c, in the
  configuration of platform/lwipopts.h: IPv4 only, DHCP compiled in, status callback but no link
  callback, no SNMP, IGMP, AutoIP or loopback. ARP, the DHCP client and the
  TCP connection lists behind it are calls recorded in the trace.
\<close>

definition NETIF_FLAG_UP :: u8 where "NETIF_FLAG_UP = 0x01"

definition NETIF_FLAG_BROADCAST :: u8 where "NETIF_FLAG_BROADCAST = 0x02"

definition NETIF_FLAG_LINK_UP :: u8 where "NETIF_FLAG_LINK_UP = 0x10"

definition NETIF_FLAG_ETHARP :: u8 where "NETIF_FLAG_ETHARP = 0x20"

lemmas netif_consts = NETIF_FLAG_UP_def NETIF_FLAG_BROADCAST_def NETIF_FLAG_LINK_UP_def NETIF_FLAG_ETHARP_def

text \<open>
  The fields of the interface, then the statics of netif.c: the next interface number, whether
  the interface is on the list and whether it is the default. The \<^verbatim>\<open>dhcp\<close> and
  \<^verbatim>\<open>status_callback\<close> pointers are kept as whether they are not null. Addresses are in network byte order.
\<close>

record netif_state = disk_state +
  netif_ip_addr :: u32
  netif_netmask :: u32
  netif_gw :: u32
  netif_flags :: u8
  netif_hwaddr :: "u8 list"
  netif_mtu :: u16
  netif_num :: u8
  netif_dhcp :: bool
  netif_status_cb :: bool
  next_netif_num :: u8
  netif_listed :: bool
  netif_default :: bool

definition IP4_ADDR :: "u8 \<Rightarrow> u8 \<Rightarrow> u8 \<Rightarrow> u8 \<Rightarrow> u32" where
  "IP4_ADDR a b c d = push_bit 24 (ucast d) OR push_bit 16 (ucast c) OR push_bit 8 (ucast b) OR ucast a"

section \<open>Addresses\<close>

text \<open>
  When the address changes, open connections of the old address are aborted and listening ones
  are moved to the new address; this is done on the lists of the TCP implementation.
\<close>

definition netif_set_ipaddr :: "u32 \<Rightarrow> ('z netif_state_scheme, unit) prog" where
  "netif_set_ipaddr ipaddr =
     bindM (gets netif_ip_addr) (\<lambda>old.
     thenM (whenM (ipaddr \<noteq> old) (ext_call ''rebind tcp pcbs'' [uint old, uint ipaddr]))
           (modify (\<lambda>s. s\<lparr>netif_ip_addr := ipaddr\<rparr>)))"

definition netif_set_gw :: "u32 \<Rightarrow> ('z netif_state_scheme, unit) prog" where
  "netif_set_gw gw = modify (\<lambda>s. s\<lparr>netif_gw := gw\<rparr>)"

definition netif_set_netmask :: "u32 \<Rightarrow> ('z netif_state_scheme, unit) prog" where
  "netif_set_netmask netmask = modify (\<lambda>s. s\<lparr>netif_netmask := netmask\<rparr>)"

definition netif_set_addr :: "u32 \<Rightarrow> u32 \<Rightarrow> u32 \<Rightarrow> ('z netif_state_scheme, unit) prog" where
  "netif_set_addr ipaddr netmask gw =
     seqM [netif_set_ipaddr ipaddr, netif_set_netmask netmask, netif_set_gw gw]"

section \<open>Adding and removing\<close>

text \<open>\<open>drv_init\<close> is the driver's initialisation function; the result says whether the interface was added.\<close>

definition netif_add ::
  "u32 \<Rightarrow> u32 \<Rightarrow> u32 \<Rightarrow> ('z netif_state_scheme, int) prog \<Rightarrow> ('z netif_state_scheme, bool) prog" where
  "netif_add ipaddr netmask gw drv_init =
     thenM (modify (\<lambda>s. s\<lparr>netif_ip_addr := 0, netif_netmask := 0, netif_gw := 0, netif_flags := 0,
                          netif_dhcp := False, netif_status_cb := False,
                          netif_num := next_netif_num s, next_netif_num := next_netif_num s + 1\<rparr>))
    (thenM (netif_set_addr ipaddr netmask gw)
    (bindM drv_init (\<lambda>err.
       if err \<noteq> 0 then ret False
       else thenM (modify (\<lambda>s. s\<lparr>netif_listed := True\<rparr>)) (ret True))))"

definition netif_set_default :: "bool \<Rightarrow> ('z netif_state_scheme, unit) prog" where
  "netif_set_default b = modify (\<lambda>s. s\<lparr>netif_default := b\<rparr>)"

section \<open>Up and down\<close>

text \<open>\<open>cb\<close> is what the status callback does.\<close>

definition NETIF_STATUS_CALLBACK :: "('z netif_state_scheme, unit) prog \<Rightarrow> ('z netif_state_scheme, unit) prog" where
  "NETIF_STATUS_CALLBACK cb = bindM (gets netif_status_cb) (\<lambda>b. whenM b cb)"

definition netif_set_up :: "('z netif_state_scheme, unit) prog \<Rightarrow> ('z netif_state_scheme, unit) prog" where
  "netif_set_up cb =
     bindM (gets netif_flags) (\<lambda>flags.
       whenM (flags AND NETIF_FLAG_UP = 0)
         (thenM (modify (\<lambda>s. s\<lparr>netif_flags := netif_flags s OR NETIF_FLAG_UP\<rparr>))
         (thenM (NETIF_STATUS_CALLBACK cb)
         (bindM (gets netif_flags) (\<lambda>fl.
            whenM (fl AND NETIF_FLAG_LINK_UP \<noteq> 0)
              (whenM (fl AND NETIF_FLAG_ETHARP \<noteq> 0) (ext_call ''etharp_gratuitous'' [])))))))"

definition netif_set_down :: "('z netif_state_scheme, unit) prog \<Rightarrow> ('z netif_state_scheme, unit) prog" where
  "netif_set_down cb =
     bindM (gets netif_flags) (\<lambda>flags.
       whenM (flags AND NETIF_FLAG_UP \<noteq> 0)
         (thenM (modify (\<lambda>s. s\<lparr>netif_flags := netif_flags s AND NOT NETIF_FLAG_UP\<rparr>))
         (thenM (whenM (flags AND NETIF_FLAG_ETHARP \<noteq> 0) (ext_call ''etharp_cleanup_netif'' []))
                (NETIF_STATUS_CALLBACK cb))))"

definition netif_set_status_callback :: "bool \<Rightarrow> ('z netif_state_scheme, unit) prog" where
  "netif_set_status_callback b = modify (\<lambda>s. s\<lparr>netif_status_cb := b\<rparr>)"

definition netif_set_link_up :: "('z netif_state_scheme, unit) prog" where
  "netif_set_link_up =
     bindM (gets netif_flags) (\<lambda>flags.
       whenM (flags AND NETIF_FLAG_LINK_UP = 0)
         (thenM (modify (\<lambda>s. s\<lparr>netif_flags := netif_flags s OR NETIF_FLAG_LINK_UP\<rparr>))
         (bindM (gets netif_dhcp) (\<lambda>dhcp.
          thenM (whenM dhcp (ext_call ''dhcp_network_changed'' []))
         (bindM (gets netif_flags) (\<lambda>fl.
            whenM (fl AND NETIF_FLAG_UP \<noteq> 0)
              (whenM (fl AND NETIF_FLAG_ETHARP \<noteq> 0) (ext_call ''etharp_gratuitous'' []))))))))"

definition netif_set_link_down :: "('z netif_state_scheme, unit) prog" where
  "netif_set_link_down =
     bindM (gets netif_flags) (\<lambda>flags.
       whenM (flags AND NETIF_FLAG_LINK_UP \<noteq> 0)
         (modify (\<lambda>s. s\<lparr>netif_flags := netif_flags s AND NOT NETIF_FLAG_LINK_UP\<rparr>)))"

definition netif_remove :: "('z netif_state_scheme, unit) prog \<Rightarrow> ('z netif_state_scheme, unit) prog" where
  "netif_remove cb =
     bindM (gets netif_flags) (\<lambda>flags.
     thenM (whenM (flags AND NETIF_FLAG_UP \<noteq> 0) (netif_set_down cb))
    (bindM (gets netif_listed) (\<lambda>l.
       whenM l
         (thenM (modify (\<lambda>s. s\<lparr>netif_listed := False\<rparr>))
         (bindM (gets netif_default) (\<lambda>d. whenM d (netif_set_default False)))))))"

section \<open>Announcing the address\<close>

lemma flag_set_get: "(f OR k) AND k = k" "(f AND NOT k) AND k = 0" for f k :: u8
  by (auto simp: bit_eq_iff bit_simps)

lemma flag_other: "k AND j = 0 \<Longrightarrow> (f OR k) AND j = f AND j" "k AND j = 0 \<Longrightarrow> (f AND NOT k) AND j = f AND j" for f k j :: u8
proof -
  assume "k AND j = 0"
  then have d: "\<not> (bit k n \<and> bit j n)" for n by (metis bit_and_iff bit_0_eq bot_apply bot_bool_def)
  show "(f OR k) AND j = f AND j" using d by (intro bit_word_eqI) (auto simp: bit_simps)
  show "(f AND NOT k) AND j = f AND j" using d by (intro bit_word_eqI) (auto simp: bit_simps)
qed

lemma flags_disjoint:
  "NETIF_FLAG_UP AND NETIF_FLAG_LINK_UP = 0" "NETIF_FLAG_LINK_UP AND NETIF_FLAG_UP = 0"
  "NETIF_FLAG_UP AND NETIF_FLAG_ETHARP = 0" "NETIF_FLAG_LINK_UP AND NETIF_FLAG_ETHARP = 0"
  by (simp_all add: netif_consts)

lemma flags_nonzero [simp]: "NETIF_FLAG_UP \<noteq> 0" "NETIF_FLAG_LINK_UP \<noteq> 0" "NETIF_FLAG_ETHARP \<noteq> 0"
  by (simp_all add: netif_consts)

lemmas flag_simps = flag_set_get flag_other [OF flags_disjoint(1)] flag_other [OF flags_disjoint(2)]
  flag_other [OF flags_disjoint(3)] flag_other [OF flags_disjoint(4)]

definition is_up :: "'z netif_state_scheme \<Rightarrow> bool" where
  "is_up s \<longleftrightarrow> netif_flags s AND NETIF_FLAG_UP \<noteq> 0"

definition is_link_up :: "'z netif_state_scheme \<Rightarrow> bool" where
  "is_link_up s \<longleftrightarrow> netif_flags s AND NETIF_FLAG_LINK_UP \<noteq> 0"

text \<open>The interface can be used: it is up, has a link and speaks ARP.\<close>

definition is_ready :: "'z netif_state_scheme \<Rightarrow> bool" where
  "is_ready s \<longleftrightarrow> is_up s \<and> is_link_up s \<and> netif_flags s AND NETIF_FLAG_ETHARP \<noteq> 0"

definition announcements :: "io list \<Rightarrow> nat" where
  "announcements tr = length (filter (\<lambda>e. e = Ext ''etharp_gratuitous'' []) tr)"

text \<open>The events an interface sees; the status callback does nothing here.\<close>

datatype netif_event = SetUp | SetDown | LinkUp | LinkDown

definition netif_event_prog :: "netif_event \<Rightarrow> ('z netif_state_scheme, unit) prog" where
  "netif_event_prog e =
     (case e of SetUp \<Rightarrow> netif_set_up (ret ()) | SetDown \<Rightarrow> netif_set_down (ret ())
      | LinkUp \<Rightarrow> netif_set_link_up | LinkDown \<Rightarrow> netif_set_link_down)"

text \<open>
  C21. Announcing the address: whatever order the interface is brought up, taken down and its link
  comes and goes in, each event returns, has the effect its name says on its own flag and none on
  the other, and the address is announced by a gratuitous ARP exactly when the event makes the
  interface ready.
\<close>

theorem netif_event_announces:
  "\<exists>t. netif_event_prog e s = Ret () t \<and>
     is_up t = (e = SetUp \<or> e \<noteq> SetDown \<and> is_up s) \<and>
     is_link_up t = (e = LinkUp \<or> e \<noteq> LinkDown \<and> is_link_up s) \<and>
     announcements (trace t) = announcements (trace s) + of_bool (is_ready t \<and> \<not> is_ready s)"
proof (cases e)
  case SetUp
  then show ?thesis
    by (auto simp: netif_event_prog_def netif_set_up_def NETIF_STATUS_CALLBACK_def is_up_def is_link_up_def is_ready_def
        announcements_def flag_simps whenM_def bindM_run thenM_def)
next
  case SetDown
  then show ?thesis
    by (auto simp: netif_event_prog_def netif_set_down_def NETIF_STATUS_CALLBACK_def is_up_def is_link_up_def is_ready_def
        announcements_def flag_simps whenM_def bindM_run thenM_def)
next
  case LinkUp
  then show ?thesis
    by (auto simp: netif_event_prog_def netif_set_link_up_def is_up_def is_link_up_def is_ready_def
        announcements_def flag_simps whenM_def bindM_run thenM_def)
next
  case LinkDown
  then show ?thesis
    by (auto simp: netif_event_prog_def netif_set_link_down_def is_up_def is_link_up_def is_ready_def
        announcements_def flag_simps whenM_def bindM_run thenM_def)
qed

end
