(* ===== verification/CText.thy ===== *)
theory CText
  imports CLib
begin

text \<open>
  Text functions of the C library used by the command server of net.c: decimal output
  (\<^verbatim>\<open>sprintf\<close> with \<^verbatim>\<open>%d\<close>), \<^verbatim>\<open>strtok\<close> and \<^verbatim>\<open>strtol\<close> with base 0. The main facts are that
  \<^verbatim>\<open>strtol\<close> reads back what \<^verbatim>\<open>%d\<close> prints, and what \<^verbatim>\<open>strtok\<close> cuts out of a line.
\<close>

section \<open>Decimal output\<close>

definition digit_char :: "nat \<Rightarrow> char" where
  "digit_char d = char_of (48 + d)"

fun dec_nat :: "nat \<Rightarrow> string" where
  "dec_nat n = (if n < 10 then [digit_char n] else dec_nat (n div 10) @ [digit_char (n mod 10)])"

declare dec_nat.simps [simp del]

definition dec_int :: "int \<Rightarrow> string" where
  "dec_int i = (if i < 0 then ''-'' @ dec_nat (nat (- i)) else dec_nat (nat i))"

text \<open>Hexadecimal output (\<^verbatim>\<open>%x\<close>).\<close>

fun hex_nat :: "nat \<Rightarrow> string" where
  "hex_nat n = (if n < 16 then [''0123456789abcdef'' ! n]
     else hex_nat (n div 16) @ [''0123456789abcdef'' ! (n mod 16)])"

declare hex_nat.simps [simp del]

section \<open>strtok\<close>

definition delims :: "char list" where
  "delims = [CHR '' '', CHR 0x09, CHR 0x0A, CHR 0x0D]"

text \<open>
  One call of \<^verbatim>\<open>strtok\<close> with the delimiters \<^verbatim>\<open>" \t\n\r"\<close>: leading delimiters are skipped, the
  token runs to the next delimiter or the end, and the rest starts behind that
  delimiter. \<open>None\<close> is the null pointer.
\<close>

definition strtok :: "string \<Rightarrow> string option \<times> string" where
  "strtok s =
     (let t = dropWhile (\<lambda>c. c \<in> set delims) s;
          tok = takeWhile (\<lambda>c. c \<notin> set delims) t;
          rest = dropWhile (\<lambda>c. c \<notin> set delims) t
      in if t = [] then (None, []) else (Some tok, drop 1 rest))"

section \<open>strtol\<close>

definition isspace :: "char \<Rightarrow> bool" where
  "isspace c \<longleftrightarrow> c \<in> {CHR '' '', CHR 0x09, CHR 0x0A, CHR 0x0B, CHR 0x0C, CHR 0x0D}"

definition digit_val :: "char \<Rightarrow> nat option" where
  "digit_val c =
     (let n = of_char c in
      if 48 \<le> n \<and> n \<le> 57 then Some (n - 48)
      else if 65 \<le> n \<and> n \<le> 90 then Some (n - 55)
      else if 97 \<le> n \<and> n \<le> 122 then Some (n - 87)
      else None)"

text \<open>The digits of the given base at the start of the text, as a number.\<close>

fun digits_val :: "nat \<Rightarrow> nat \<Rightarrow> string \<Rightarrow> nat" where
  "digits_val base acc [] = acc"
| "digits_val base acc (c # cs) =
     (case digit_val c of
        Some d \<Rightarrow> if d < base then digits_val base (acc * base + d) cs else acc
      | None \<Rightarrow> acc)"

text \<open>
  \<^verbatim>\<open>strtol(s, NULL, 0)\<close>: white space, a sign, then hexadecimal after \<^verbatim>\<open>0x\<close>, octal after
  \<^verbatim>\<open>0\<close>, decimal otherwise; out-of-range values saturate at \<^verbatim>\<open>LONG_MIN\<close> and \<^verbatim>\<open>LONG_MAX\<close>
  (\<^verbatim>\<open>long\<close> has 32 bits on the target).
\<close>

definition unsigned_val :: "string \<Rightarrow> nat" where
  "unsigned_val u =
     (if take 2 u = ''0x'' \<or> take 2 u = ''0X'' then digits_val 16 0 (drop 2 u)
      else if take 1 u = ''0'' then digits_val 8 0 (drop 1 u)
      else digits_val 10 0 u)"

definition strtol :: "string \<Rightarrow> int" where
  "strtol s =
     (let t = dropWhile isspace s;
          v = (if take 1 t = ''-'' then - int (unsigned_val (drop 1 t))
               else if take 1 t = ''+'' then int (unsigned_val (drop 1 t))
               else int (unsigned_val t))
      in max (- (2 ^ 31)) (min (2 ^ 31 - 1) v))"

section \<open>Reading back what was printed\<close>

lemma of_char_digit: "d < 10 \<Longrightarrow> of_char (digit_char d) = 48 + d"
  by (simp add: digit_char_def)

lemma digit_val_digit [simp]: "d < 10 \<Longrightarrow> digit_val (digit_char d) = Some d"
  by (simp add: digit_val_def of_char_digit Let_def)

lemma digit_char_eq_iff: "d < 10 \<Longrightarrow> digit_char d = c \<longleftrightarrow> of_char c = 48 + d"
  using of_char_digit [of d] by (metis of_char_eq_iff)

definition is_digit :: "char \<Rightarrow> bool" where
  "is_digit c \<longleftrightarrow> (\<exists>d < 10. c = digit_char d)"

lemma dec_nat_digits: "c \<in> set (dec_nat n) \<Longrightarrow> is_digit c"
proof (induction n rule: dec_nat.induct)
  case (1 n)
  then show ?case
    by (subst (asm) dec_nat.simps) (force simp: is_digit_def split: if_splits)
qed

lemma dec_nat_nonempty [simp]: "dec_nat n \<noteq> []"
  by (subst dec_nat.simps) simp

lemma hd_dec_nat: "0 < n \<Longrightarrow> \<exists>d. 0 < d \<and> d < 10 \<and> hd (dec_nat n) = digit_char d"
proof (induction n rule: dec_nat.induct)
  case (1 n)
  show ?case
  proof (cases "n < 10")
    case True
    then show ?thesis using 1 by (auto simp: dec_nat.simps [of n])
  next
    case False
    then have "hd (dec_nat n) = hd (dec_nat (n div 10))"
      by (simp add: dec_nat.simps [of n])
    with 1 False show ?thesis by simp
  qed
qed

lemma digits_val_append:
  assumes "\<forall>c \<in> set xs. is_digit c"
  shows "digits_val 10 acc (xs @ ys) = digits_val 10 (digits_val 10 acc xs) ys"
  using assms by (induction xs arbitrary: acc) (auto simp: is_digit_def)

lemma digits_val_dec_nat: "digits_val 10 0 (dec_nat n) = n"
proof (induction n rule: dec_nat.induct)
  case (1 n)
  show ?case
  proof (cases "n < 10")
    case True
    then show ?thesis by (simp add: dec_nat.simps [of n])
  next
    case False
    with 1 have IH: "digits_val 10 0 (dec_nat (n div 10)) = n div 10" by simp
    have "dec_nat n = dec_nat (n div 10) @ [digit_char (n mod 10)]"
      using False by (simp add: dec_nat.simps [of n])
    then show ?thesis
      using IH dec_nat_digits by (simp add: digits_val_append)
  qed
qed

lemma is_digit_neq: "is_digit c \<Longrightarrow> \<not> isspace c \<and> c \<noteq> CHR ''-'' \<and> c \<noteq> CHR ''+''"
proof -
  assume "is_digit c"
  then have "48 \<le> (of_char c :: nat)" by (auto simp: is_digit_def of_char_digit)
  then show ?thesis by (auto simp: isspace_def)
qed

lemma unsigned_val_dec_nat [simp]: "unsigned_val (dec_nat n) = n"
proof (cases "n = 0")
  case True
  then show ?thesis
    by (simp add: dec_nat.simps [of 0] unsigned_val_def digit_char_eq_iff)
next
  case False
  obtain c cs where c: "dec_nat n = c # cs" by (cases "dec_nat n") auto
  then have "c \<noteq> CHR ''0''"
    using hd_dec_nat [of n] False by (auto simp: digit_char_eq_iff)
  then have "unsigned_val (c # cs) = digits_val 10 0 (c # cs)"
    by (simp add: unsigned_val_def numeral_2_eq_2)
  then show ?thesis using digits_val_dec_nat [of n] c by simp
qed

theorem strtol_dec_int: "- (2 ^ 31) \<le> i \<Longrightarrow> i < 2 ^ 31 \<Longrightarrow> strtol (dec_int i) = i"
proof -
  assume i: "- (2 ^ 31) \<le> i" "i < 2 ^ 31"
  show ?thesis
  proof (cases "i < 0")
    case True
    have "strtol (''-'' @ dec_nat (nat (- i))) = max (- (2 ^ 31)) (min (2 ^ 31 - 1) (- int (nat (- i))))"
      by (simp add: strtol_def isspace_def)
    then show ?thesis using True i by (simp add: dec_int_def)
  next
    case False
    obtain c cs where c: "dec_nat (nat i) = c # cs" by (cases "dec_nat (nat i)") auto
    then have "is_digit c" using dec_nat_digits [of c "nat i"] by simp
    then have "dropWhile isspace (c # cs) = c # cs" "c \<noteq> CHR ''-''" "c \<noteq> CHR ''+''"
      using is_digit_neq by auto
    then have "strtol (c # cs) = max (- (2 ^ 31)) (min (2 ^ 31 - 1) (int (unsigned_val (c # cs))))"
      by (simp add: strtol_def Let_def)
    then show ?thesis using False i c unsigned_val_dec_nat [of "nat i"] by (simp add: dec_int_def)
  qed
qed

lemma dec_int_no_delims: "c \<in> set (dec_int i) \<Longrightarrow> c \<notin> set delims"
  using dec_nat_digits is_digit_neq
  by (auto simp: dec_int_def delims_def isspace_def split: if_splits)

lemma dec_int_cstring: "is_cstring (dec_int i)"
proof -
  have "\<not> is_digit (CHR 0x00)" by (auto simp: is_digit_def digit_char_eq_iff eq_commute [of "CHR 0x00"])
  then show ?thesis
    using dec_nat_digits by (auto simp: is_cstring_def dec_int_def)
qed

lemma length_dec_nat: "n < 10 ^ k \<Longrightarrow> 0 < k \<Longrightarrow> length (dec_nat n) \<le> k"
proof (induction k arbitrary: n)
  case (Suc k)
  show ?case
  proof (cases "n < 10")
    case False
    then have "n div 10 < 10 ^ k" "0 < k" using Suc.prems by (auto intro!: Nat.gr0I)
    then have "length (dec_nat (n div 10)) \<le> k" by (rule Suc.IH)
    then show ?thesis using False by (simp add: dec_nat.simps [of n])
  qed (simp add: dec_nat.simps [of n])
qed simp

lemma length_dec_int: "\<bar>i\<bar> < 10 ^ 10 \<Longrightarrow> length (dec_int i) \<le> 11"
  using length_dec_nat [of "nat \<bar>i\<bar>" 10] by (auto simp: dec_int_def nat_less_iff)

section \<open>Tokens\<close>

lemma strtok_word:
  assumes "t \<noteq> []" and "\<forall>c \<in> set t. c \<notin> set delims" and "d \<in> set delims"
  shows "strtok (t @ d # r) = (Some t, r)" and "strtok (d # s) = strtok s" and "strtok t = (Some t, [])"
proof -
  have tw: "takeWhile (\<lambda>c. c \<notin> set delims) (t @ d # r) = t" "dropWhile (\<lambda>c. c \<notin> set delims) (t @ d # r) = d # r"
    using assms by (simp_all add: takeWhile_append dropWhile_append)
  have hd: "dropWhile (\<lambda>c. c \<in> set delims) (t @ x) = t @ x" for x
    using assms by (cases t) auto
  show "strtok (t @ d # r) = (Some t, r)"
    using assms(1) by (simp add: strtok_def Let_def hd tw)
  show "strtok (d # s) = strtok s" using assms(3) by (simp add: strtok_def)
  have "takeWhile (\<lambda>c. c \<notin> set delims) t = t" and dw: "dropWhile (\<lambda>c. c \<notin> set delims) t = []"
    using assms by simp_all
  then show "strtok t = (Some t, [])"
    using assms(1) hd [of "[]"] by (simp add: strtok_def Let_def dw del: dropWhile_eq_Nil_conv)
qed

lemma strtok_None_iff: "fst (strtok s) = None \<longleftrightarrow> (\<forall>c \<in> set s. c \<in> set delims)"
  by (auto simp: strtok_def Let_def)

end
