(* ===== verification/Enc424.thy ===== *)
theory Enc424
  imports Netif CText
begin

text \<open>
  The Ethernet driver: enc424j600_spi.c on top of the SPI bus of USART1 (chip select on
  port D, pin 3). The driver is translated as it is built here: ENC424J600_DEBUG is 0, no
  on-chip flow control, auto negotiation. Packet buffers of lwIP are lists of segments; the
  allocation of a receive buffer and the input function of the network interface are
  parameters of the receive path.
\<close>

section \<open>Registers, bits and opcodes\<close>

definition ENC424J600_READCR :: u8 where "ENC424J600_READCR = 0x00"

definition ENC424J600_WRITECR :: u8 where "ENC424J600_WRITECR = 0x40"

definition ENC424J600_BITFIELDSET :: u8 where "ENC424J600_BITFIELDSET = 0x80"

definition ENC424J600_BITFIELDCLEAR :: u8 where "ENC424J600_BITFIELDCLEAR = 0xa0"

definition ENC424J600_READCRU :: u8 where "ENC424J600_READCRU = 0x20"

definition ENC424J600_WRITECRU :: u8 where "ENC424J600_WRITECRU = 0x22"

definition ENC424J600_BITFIELDSETU :: u8 where "ENC424J600_BITFIELDSETU = 0x24"

definition ENC424J600_SETPKTDEC :: u8 where "ENC424J600_SETPKTDEC = 0xcc"

definition ENC424J600_SETTXRTS :: u8 where "ENC424J600_SETTXRTS = 0xd4"

definition ENC424J600_FCDISABLE :: u8 where "ENC424J600_FCDISABLE = 0xe0"

definition ENC424J600_ENABLERX :: u8 where "ENC424J600_ENABLERX = 0xe8"

definition ENC424J600_DISABLERX :: u8 where "ENC424J600_DISABLERX = 0xea"

definition ENC424J600_SETEIE :: u8 where "ENC424J600_SETEIE = 0xec"

definition ENC424J600_CLREIE :: u8 where "ENC424J600_CLREIE = 0xee"

definition ENC424J600_RXRDPT :: u8 where "ENC424J600_RXRDPT = 0x64"

definition ENC424J600_GPBWRPT :: u8 where "ENC424J600_GPBWRPT = 0x6c"

definition ENC424J600_WGPDATA :: u8 where "ENC424J600_WGPDATA = 0x2a"

definition ENC424J600_RRXDATA :: u8 where "ENC424J600_RRXDATA = 0x2c"

definition ENC424J600_EUDASTL :: u8 where "ENC424J600_EUDASTL = 0x16"

definition ENC424J600_ESTATL :: u8 where "ENC424J600_ESTATL = 0x1a"

definition ENC424J600_EIRL :: u8 where "ENC424J600_EIRL = 0x1c"

definition ENC424J600_EIRH :: u8 where "ENC424J600_EIRH = 0x1d"

definition ENC424J600_ECON1L :: u8 where "ENC424J600_ECON1L = 0x1e"

definition ENC424J600_ECON1H :: u8 where "ENC424J600_ECON1H = 0x1f"

definition ENC424J600_ETXST_U :: u8 where "ENC424J600_ETXST_U = 0x00"

definition ENC424J600_ETXLEN_U :: u8 where "ENC424J600_ETXLEN_U = 0x02"

definition ENC424J600_ERXST_U :: u8 where "ENC424J600_ERXST_U = 0x04"

definition ENC424J600_ERXTAIL_U :: u8 where "ENC424J600_ERXTAIL_U = 0x06"

definition ENC424J600_ERXHEAD_U :: u8 where "ENC424J600_ERXHEAD_U = 0x08"

definition ENC424J600_ERXFCON_U :: u8 where "ENC424J600_ERXFCON_U = 0x34"

definition ENC424J600_MACON2_U :: u8 where "ENC424J600_MACON2_U = 0x42"

definition ENC424J600_MABBIPG_U :: u8 where "ENC424J600_MABBIPG_U = 0x44"

definition ENC424J600_MAMXFL_U :: u8 where "ENC424J600_MAMXFL_U = 0x4a"

definition ENC424J600_MIREGADR_U :: u8 where "ENC424J600_MIREGADR_U = 0x54"

definition ENC424J600_MAADR3_U :: u8 where "ENC424J600_MAADR3_U = 0x60"

definition ENC424J600_MIWR_U :: u8 where "ENC424J600_MIWR_U = 0x66"

definition ENC424J600_ECON2_U :: u8 where "ENC424J600_ECON2_U = 0x6e"

definition ENC424J600_EIE_U :: u8 where "ENC424J600_EIE_U = 0x72"

definition ENC424J600_PHCON1 :: u8 where "ENC424J600_PHCON1 = 0x00"

definition ENC424J600_PHANA :: u8 where "ENC424J600_PHANA = 0x04"

definition ENC424J600_LINKIF :: u8 where "ENC424J600_LINKIF = 0x08"

definition ENC424J600_PKTIF :: u8 where "ENC424J600_PKTIF = 0x40"

definition ENC424J600_TXIF :: u8 where "ENC424J600_TXIF = 0x08"

definition ENC424J600_TXABTIF :: u8 where "ENC424J600_TXABTIF = 0x04"

definition ENC424J600_RXABTIF :: u8 where "ENC424J600_RXABTIF = 0x02"

definition ENC424J600_PCFULIF :: u8 where "ENC424J600_PCFULIF = 0x01"

definition ENC424J600_LINKIE :: u8 where "ENC424J600_LINKIE = 0x08"

definition ENC424J600_PKTIE :: u8 where "ENC424J600_PKTIE = 0x40"

definition ENC424J600_TXIE :: u8 where "ENC424J600_TXIE = 0x08"

definition ENC424J600_TXABTIE :: u8 where "ENC424J600_TXABTIE = 0x04"

definition ENC424J600_RXABTIE :: u8 where "ENC424J600_RXABTIE = 0x02"

definition ENC424J600_PCFULIE :: u8 where "ENC424J600_PCFULIE = 0x01"

definition ENC424J600_PHYLNK :: u8 where "ENC424J600_PHYLNK = 0x01"

definition ENC424J600_PHYDPX :: u8 where "ENC424J600_PHYDPX = 0x04"

definition ENC424J600_CLKRDY :: u8 where "ENC424J600_CLKRDY = 0x10"

definition ENC424J600_TXRTS :: u8 where "ENC424J600_TXRTS = 0x02"

definition ENC424J600_ETHRST :: u8 where "ENC424J600_ETHRST = 0x10"

definition ENC424J600_FULDPX :: u8 where "ENC424J600_FULDPX = 0x01"

definition ENC424J600_TXCRCEN :: u8 where "ENC424J600_TXCRCEN = 0x10"

definition ENC424J600_BCEN :: u8 where "ENC424J600_BCEN = 0x01"

definition ENC424J600_UCEN :: u8 where "ENC424J600_UCEN = 0x08"

definition ENC424J600_RUNTEN :: u8 where "ENC424J600_RUNTEN = 0x10"

definition ENC424J600_CRCEN :: u8 where "ENC424J600_CRCEN = 0x40"

definition ENC424J600_ANEN :: u8 where "ENC424J600_ANEN = 0x10"

definition ENC424J600_AD100FD :: u8 where "ENC424J600_AD100FD = 0x01"

definition ENC424J600_AD100 :: u8 where "ENC424J600_AD100 = 0x80"

definition ENC424J600_AD10FD :: u8 where "ENC424J600_AD10FD = 0x40"

definition ENC424J600_AD10 :: u8 where "ENC424J600_AD10 = 0x20"

definition ENC424J600_IEEE802_3STD :: u8 where "ENC424J600_IEEE802_3STD = 0x01"

definition ENC424J600_CLKO_25M00 :: u8 where "ENC424J600_CLKO_25M00 = 0x02"

lemmas enc_consts = ENC424J600_READCR_def ENC424J600_WRITECR_def ENC424J600_BITFIELDSET_def
  ENC424J600_BITFIELDCLEAR_def ENC424J600_READCRU_def ENC424J600_WRITECRU_def ENC424J600_BITFIELDSETU_def
  ENC424J600_SETPKTDEC_def ENC424J600_SETTXRTS_def ENC424J600_FCDISABLE_def ENC424J600_ENABLERX_def
  ENC424J600_DISABLERX_def ENC424J600_SETEIE_def ENC424J600_CLREIE_def ENC424J600_RXRDPT_def
  ENC424J600_GPBWRPT_def ENC424J600_WGPDATA_def ENC424J600_RRXDATA_def ENC424J600_EUDASTL_def
  ENC424J600_ESTATL_def ENC424J600_EIRL_def ENC424J600_EIRH_def ENC424J600_ECON1L_def ENC424J600_ECON1H_def
  ENC424J600_ETXST_U_def ENC424J600_ETXLEN_U_def ENC424J600_ERXST_U_def ENC424J600_ERXTAIL_U_def
  ENC424J600_ERXHEAD_U_def ENC424J600_ERXFCON_U_def ENC424J600_MACON2_U_def ENC424J600_MABBIPG_U_def
  ENC424J600_MAMXFL_U_def ENC424J600_MIREGADR_U_def ENC424J600_MAADR3_U_def ENC424J600_MIWR_U_def
  ENC424J600_ECON2_U_def ENC424J600_EIE_U_def ENC424J600_PHCON1_def ENC424J600_PHANA_def ENC424J600_LINKIF_def
  ENC424J600_PKTIF_def ENC424J600_TXIF_def ENC424J600_TXABTIF_def ENC424J600_RXABTIF_def ENC424J600_PCFULIF_def
  ENC424J600_LINKIE_def ENC424J600_PKTIE_def ENC424J600_TXIE_def ENC424J600_TXABTIE_def ENC424J600_RXABTIE_def
  ENC424J600_PCFULIE_def ENC424J600_PHYLNK_def ENC424J600_PHYDPX_def ENC424J600_CLKRDY_def ENC424J600_TXRTS_def
  ENC424J600_ETHRST_def ENC424J600_FULDPX_def ENC424J600_TXCRCEN_def ENC424J600_BCEN_def ENC424J600_UCEN_def
  ENC424J600_RUNTEN_def ENC424J600_CRCEN_def ENC424J600_ANEN_def ENC424J600_AD100FD_def ENC424J600_AD100_def
  ENC424J600_AD10FD_def ENC424J600_AD10_def ENC424J600_IEEE802_3STD_def ENC424J600_CLKO_25M00_def

definition ENC424J600_TXBUF_START :: u16 where "ENC424J600_TXBUF_START = 0"

definition TXBUF_SIZE :: u16 where "TXBUF_SIZE = 1024"

definition ENC424J600_RXBUF_START :: u16 where
  "ENC424J600_RXBUF_START = ENC424J600_TXBUF_START + TXBUF_SIZE"

definition ENC424J600_ACCEPTABLE_PACKET_SIZE :: u16 where "ENC424J600_ACCEPTABLE_PACKET_SIZE = 1024"

lemmas enc_buf_consts = ENC424J600_TXBUF_START_def TXBUF_SIZE_def ENC424J600_RXBUF_START_def
  ENC424J600_ACCEPTABLE_PACKET_SIZE_def

text \<open>
  The driver's data (\<^verbatim>\<open>enc424j600_priv_data_t\<close>).
\<close>

record enc_state = netif_state +
  NextPacketPointer :: u16
  link_status :: bool
  txbusy :: bool
  hwaddr :: "u8 list"

abbreviation ETH_USART :: usart where "ETH_USART \<equiv> USART1"

abbreviation ETH_CS_PORT :: gpio_port where "ETH_CS_PORT \<equiv> gpioPortD"

abbreviation ETH_CS_BIT :: nat where "ETH_CS_BIT \<equiv> 3"

section \<open>SPI access\<close>

definition spiInit :: "('z hw_scheme, unit) prog" where
  "spiInit =
     seqM [
       GPIO_PinModeSet gpioPortD 0 gpioModePushPull 1,
       GPIO_PinModeSet gpioPortD 1 gpioModeInput 0,
       GPIO_PinModeSet gpioPortD 2 gpioModePushPull 0,
       GPIO_PinModeSet ETH_CS_PORT ETH_CS_BIT gpioModePushPull 1,
       ext_call ''USART_Reset(ETH_USART)'' [],
       ext_call ''CMU_ClockEnable(ETH_USART_CLK)'' [1],
       ext_call ''USART_InitSync(ETH_USART, baudrate, msbf)'' [12000000, 1],
       ext_call ''ETH_USART->ROUTE location'' [],
       ext_call ''ETH_USART->ROUTE |= TXPEN | RXPEN | CLKPEN'' []]"

text \<open>
  The bytes of a transfer and their answers. A null \<^verbatim>\<open>tx_data\<close> sends zeros; a null \<^verbatim>\<open>rx_data\<close>
  drops the answers.
\<close>

fun spi_bytes :: "env \<Rightarrow> u8 list \<Rightarrow> ('z hw_scheme, u8 list) prog" where
  "spi_bytes E [] = ret []"
| "spi_bytes E (tx # txs) =
     bindM (USART_SpiTransfer E ETH_USART tx) (\<lambda>rx.
     bindM (spi_bytes E txs) (\<lambda>rxs. ret (rx # rxs)))"

definition spi_transfer :: "env \<Rightarrow> u8 list \<Rightarrow> bool \<Rightarrow> ('z hw_scheme, u8 list) prog" where
  "spi_transfer E txs drop_cs =
     thenM (GPIO_PinOutClear ETH_CS_PORT ETH_CS_BIT)
    (bindM (spi_bytes E txs) (\<lambda>rxs.
     thenM (whenM drop_cs (GPIO_PinOutSet ETH_CS_PORT ETH_CS_BIT)) (ret rxs)))"

definition simple_operation :: "env \<Rightarrow> u8 \<Rightarrow> ('z hw_scheme, unit) prog" where
  "simple_operation E opcode = thenM (spi_transfer E [opcode] True) (ret ())"

text \<open>
  Register operations: the result code and the buffer afterwards. An empty buffer stands
  for \<^verbatim>\<open>length == 0\<close>.
\<close>

definition banked_register_operation ::
  "env \<Rightarrow> u8 \<Rightarrow> u8 \<Rightarrow> u8 list \<Rightarrow> ('z hw_scheme, int \<times> u8 list) prog" where
  "banked_register_operation E opcode address buffer =
     (if buffer = [] then ret (- 1, buffer)
      else if ENC424J600_ECON1H < address \<or> opcode AND ENC424J600_ECON1H \<noteq> 0 then ret (- 1, buffer)
      else
        thenM (spi_transfer E [address OR opcode] False)
       (bindM (spi_transfer E (if ENC424J600_READCR = opcode then replicate (length buffer) 0 else buffer) True) (\<lambda>rxs.
        ret (0, if ENC424J600_READCR = opcode then rxs else buffer))))"

definition unbanked_register_operation ::
  "env \<Rightarrow> u8 \<Rightarrow> u8 \<Rightarrow> u8 list \<Rightarrow> ('z hw_scheme, int \<times> u8 list) prog" where
  "unbanked_register_operation E opcode address buffer =
     (if buffer = [] then ret (- 1, buffer)
      else
        thenM (spi_transfer E [opcode] False)
       (thenM (spi_transfer E [address] False)
       (bindM (spi_transfer E (if ENC424J600_READCRU = opcode then replicate (length buffer) 0 else buffer) True) (\<lambda>rxs.
        ret (0, if ENC424J600_READCRU = opcode then rxs else buffer)))))"

text \<open>Calls that ignore the result code.\<close>

definition banked_write :: "env \<Rightarrow> u8 \<Rightarrow> u8 \<Rightarrow> u8 list \<Rightarrow> ('z hw_scheme, unit) prog" where
  "banked_write E opcode address buffer =
     thenM (banked_register_operation E opcode address buffer) (ret ())"

definition banked_read :: "env \<Rightarrow> u8 \<Rightarrow> nat \<Rightarrow> ('z hw_scheme, u8 list) prog" where
  "banked_read E address n =
     bindM (banked_register_operation E ENC424J600_READCR address (replicate n 0)) (\<lambda>(_, buf). ret buf)"

definition unbanked_write :: "env \<Rightarrow> u8 \<Rightarrow> u8 \<Rightarrow> u8 list \<Rightarrow> ('z hw_scheme, unit) prog" where
  "unbanked_write E opcode address buffer =
     thenM (unbanked_register_operation E opcode address buffer) (ret ())"

definition unbanked_read :: "env \<Rightarrow> u8 \<Rightarrow> nat \<Rightarrow> ('z hw_scheme, u8 list) prog" where
  "unbanked_read E address n =
     bindM (unbanked_register_operation E ENC424J600_READCRU address (replicate n 0)) (\<lambda>(_, buf). ret buf)"

definition read_esa_u :: "env \<Rightarrow> ('z hw_scheme, int \<times> u8 list) prog" where
  "read_esa_u E =
     bindM (unbanked_register_operation E ENC424J600_READCRU ENC424J600_MAADR3_U (replicate 6 0)) (\<lambda>(retval, msg).
       if retval \<noteq> 0 then ret (retval, [])
       else ret (0, [msg ! 4, msg ! 5, msg ! 2, msg ! 3, msg ! 0, msg ! 1]))"

definition write_phy :: "env \<Rightarrow> u8 \<Rightarrow> u16 \<Rightarrow> ('z hw_scheme, unit) prog" where
  "write_phy E pr_address v =
     thenM (unbanked_write E ENC424J600_WRITECRU ENC424J600_MIREGADR_U [pr_address, 0x01])
           (unbanked_write E ENC424J600_WRITECRU ENC424J600_MIWR_U [ucast (v AND 0xff), ucast (drop_bit 8 v AND 0xff)])"

text \<open>The pointer value goes out as it lies in memory, low byte first.\<close>

definition set_pointer :: "env \<Rightarrow> u8 \<Rightarrow> u16 \<Rightarrow> ('z hw_scheme, unit) prog" where
  "set_pointer E oc_pointer v =
     thenM (spi_transfer E [oc_pointer] False) (thenM (spi_transfer E (le_bytes 2 v) True) (ret ()))"

definition write_to_tx_buffer :: "env \<Rightarrow> u8 list \<Rightarrow> ('z hw_scheme, unit) prog" where
  "write_to_tx_buffer E buffer =
     thenM (spi_transfer E [ENC424J600_WGPDATA] False) (thenM (spi_transfer E buffer True) (ret ()))"

text \<open>The data read; \<open>None\<close> is the error result for a length of 0, which leaves the buffer alone.\<close>

definition read_from_rx_buffer :: "env \<Rightarrow> nat \<Rightarrow> ('z hw_scheme, u8 list option) prog" where
  "read_from_rx_buffer E n =
     (if n = 0 then ret None
      else thenM (spi_transfer E [ENC424J600_RRXDATA] False)
          (bindM (spi_transfer E (replicate n 0) True) (\<lambda>rxs. ret (Some rxs))))"

section \<open>Link and interrupt events\<close>

text \<open>
  \<^verbatim>\<open>!ENC424J600_FULDPX\<close> in the half-duplex branch is the logical negation: it is 0, so the
  conjunction clears the whole byte.
\<close>

definition set_MAC :: "env \<Rightarrow> u8 \<Rightarrow> ('z hw_scheme, unit) prog" where
  "set_MAC E ethernet_status =
     (if ethernet_status AND ENC424J600_PHYDPX \<noteq> 0 then
        bindM (unbanked_read E ENC424J600_MACON2_U 2) (\<lambda>aux.
        thenM (unbanked_write E ENC424J600_WRITECRU ENC424J600_MACON2_U [aux ! 0 OR ENC424J600_FULDPX, aux ! 1])
              (unbanked_write E ENC424J600_WRITECRU ENC424J600_MABBIPG_U [0x15, 0]))
      else
        bindM (unbanked_read E ENC424J600_MACON2_U 2) (\<lambda>aux.
        thenM (unbanked_write E ENC424J600_WRITECRU ENC424J600_MACON2_U
                 [aux ! 0 AND (if ENC424J600_FULDPX \<noteq> 0 then 0 else 1), aux ! 1])
              (unbanked_write E ENC424J600_WRITECRU ENC424J600_MABBIPG_U [0x12, 0])))"

definition enc424j600_spi_LINKevent :: "env \<Rightarrow> ('z enc_state_scheme, unit) prog" where
  "enc424j600_spi_LINKevent E =
     thenM (bindM (banked_read E ENC424J600_ESTATL 2) (\<lambda>aux.
       if aux ! 1 AND ENC424J600_PHYLNK \<noteq> 0 then
         seqM [
           modify (\<lambda>s. s\<lparr>link_status := True\<rparr>),
           set_MAC E (aux ! 1),
           printf ''ETH link is up\<newline>'',
           netif_set_link_up]
       else
         seqM [
           modify (\<lambda>s. s\<lparr>link_status := False\<rparr>),
           modify (\<lambda>s. s\<lparr>netif_flags := netif_flags s AND NOT NETIF_FLAG_LINK_UP\<rparr>),
           printf ''ETH link is down\<newline>'',
           netif_set_link_down]))
      (banked_write E ENC424J600_BITFIELDCLEAR ENC424J600_EIRH [ENC424J600_LINKIF])"

definition enc424j600_spi_PCFULevent :: "env \<Rightarrow> ('z hw_scheme, unit) prog" where
  "enc424j600_spi_PCFULevent E =
     thenM (simple_operation E ENC424J600_SETPKTDEC)
       (banked_write E ENC424J600_BITFIELDCLEAR ENC424J600_EIRL [ENC424J600_PCFULIF])"

definition enc424j600_spi_RXABTevent :: "env \<Rightarrow> ('z hw_scheme, unit) prog" where
  "enc424j600_spi_RXABTevent E =
     banked_write E ENC424J600_BITFIELDCLEAR ENC424J600_EIRL [ENC424J600_RXABTIF]"

definition enc424j600_spi_TXevent :: "env \<Rightarrow> ('z enc_state_scheme, unit) prog" where
  "enc424j600_spi_TXevent E =
     thenM (modify (\<lambda>s. s\<lparr>txbusy := False\<rparr>))
       (banked_write E ENC424J600_BITFIELDCLEAR ENC424J600_EIRL [ENC424J600_TXIF])"

definition enc424j600_spi_TXABTevent :: "env \<Rightarrow> ('z enc_state_scheme, unit) prog" where
  "enc424j600_spi_TXABTevent E =
     thenM (modify (\<lambda>s. s\<lparr>txbusy := False\<rparr>))
       (banked_write E ENC424J600_BITFIELDCLEAR ENC424J600_EIRL [ENC424J600_TXABTIF])"

section \<open>Receiving\<close>

text \<open>
  \<^verbatim>\<open>while(p)\<close> over the segments of the packet buffer; a segment of length 0 is not read.
\<close>

fun read_segments :: "env \<Rightarrow> nat list \<Rightarrow> ('z hw_scheme, u8 list list) prog" where
  "read_segments E [] = ret []"
| "read_segments E (n # ns) =
     bindM (read_from_rx_buffer E n) (\<lambda>d.
     bindM (read_segments E ns) (\<lambda>ds.
     ret ((case d of Some bs \<Rightarrow> bs | None \<Rightarrow> []) # ds)))"

text \<open>The receive tail written back for a packet that ends where the next one starts.\<close>

definition rx_tail :: "u16 \<Rightarrow> u16" where
  "rx_tail np =
     (let rbuf_tail = np - 2 in if rbuf_tail = ENC424J600_RXBUF_START then 0x5ffe else rbuf_tail)"

text \<open>
  \<open>alloc\<close> is \<^verbatim>\<open>pbuf_alloc(PBUF_RAW, len, PBUF_POOL)\<close> (the lengths of the segments, \<open>[]\<close> when
  the pool is empty) and \<open>inp\<close> is \<^verbatim>\<open>netif->input\<close>.
\<close>

definition enc424j600_spi_recv ::
  "env \<Rightarrow> (io list \<Rightarrow> nat \<Rightarrow> nat list) \<Rightarrow> (u8 list list \<Rightarrow> ('z enc_state_scheme, unit) prog)
     \<Rightarrow> u16 \<Rightarrow> ('z enc_state_scheme, unit) prog" where
  "enc424j600_spi_recv E alloc inp len =
     bindM (gets (\<lambda>s. alloc (trace s) (unat len))) (\<lambda>segs.
     bindM (read_segments E segs) (\<lambda>pbuf.
     bindM (gets NextPacketPointer) (\<lambda>np.
     thenM (unbanked_write E ENC424J600_WRITECRU ENC424J600_ERXTAIL_U
              [ucast (rx_tail np AND 0xff), ucast (drop_bit 8 (rx_tail np) AND 0xff)])
    (thenM (simple_operation E ENC424J600_SETPKTDEC)
           (inp pbuf)))))"

definition enc424j600_spi_RXevent ::
  "env \<Rightarrow> (io list \<Rightarrow> nat \<Rightarrow> nat list) \<Rightarrow> (u8 list list \<Rightarrow> ('z enc_state_scheme, unit) prog)
     \<Rightarrow> ('z enc_state_scheme, unit) prog" where
  "enc424j600_spi_RXevent E alloc inp =
     bindM (banked_read E ENC424J600_ESTATL 1) (\<lambda>pkcnt.
       whenM (pkcnt ! 0 \<noteq> 0)
        (bindM (gets NextPacketPointer) (\<lambda>np.
         thenM (set_pointer E ENC424J600_RXRDPT np)
        (bindM (read_from_rx_buffer E 2) (\<lambda>next_bytes.
         thenM (modify (\<lambda>s. s\<lparr>NextPacketPointer :=
                  (case next_bytes of Some bs \<Rightarrow> le_word bs | None \<Rightarrow> NextPacketPointer s)\<rparr>))
        (bindM (read_from_rx_buffer E 2) (\<lambda>rsv.
         thenM (read_from_rx_buffer E 4)
               (enc424j600_spi_recv E alloc inp
                  (case rsv of Some bs \<Rightarrow> ucast (bs ! 0) + ucast (bs ! 1) * 256 | None \<Rightarrow> 0)))))))))"

section \<open>Start-up\<close>

text \<open>The loop that looks for the chip: it writes a pattern and reads it back.\<close>

fun spi_ready :: "env \<Rightarrow> nat \<Rightarrow> ('z hw_scheme, bool) prog" where
  "spi_ready E 0 = ret False"
| "spi_ready E (Suc n) =
     thenM (banked_write E ENC424J600_WRITECR ENC424J600_EUDASTL [0x34, 0x12])
    (bindM (banked_read E ENC424J600_EUDASTL 2) (\<lambda>aux.
       if aux ! 1 = 0x12 \<and> aux ! 0 = 0x34 then ret True
       else thenM (usleep E 100) (spi_ready E n)))"

text \<open>
  The loop that waits for the clock; it answers the value of its counter, which grows by
  two in every round that fails.
\<close>

function clk_ready :: "env \<Rightarrow> nat \<Rightarrow> ('z hw_scheme, nat) prog" where
  "clk_ready E i =
     (if i \<le> 100 then
        bindM (banked_read E ENC424J600_ESTATL 2) (\<lambda>aux.
          if aux ! 1 AND ENC424J600_CLKRDY = 0 then
            thenM (usleep E 100) (clk_ready E (i + 1 + 1))
          else ret i)
      else ret i)"
  by pat_completeness auto
termination by (relation "measure (\<lambda>(E, i). 101 - i)") auto

declare clk_ready.simps [simp del]

definition hw_init :: "env \<Rightarrow> ('z enc_state_scheme, unit) prog" where
  "hw_init E =
     seqM [
       spiInit,
       bindM (spi_ready E 101) (\<lambda>ok. whenM (\<not> ok) (panic ''enc424j600 SPI is not ready!\<newline>'')),
       bindM (clk_ready E 0) (\<lambda>i. whenM (i > 100) (panic ''enc424j600 clock is not ready!\<newline>'')),
       unbanked_write E ENC424J600_BITFIELDSETU ENC424J600_ECON2_U [ENC424J600_ETHRST],
       usleep E 25,
       bindM (banked_read E ENC424J600_EUDASTL 2) (\<lambda>aux.
         whenM (aux ! 0 \<noteq> 0 \<or> aux ! 1 \<noteq> 0) (panic ''enc424j600 is not reset!\<newline>'')),
       usleep E 256,
       bindM (unbanked_read E (ENC424J600_ECON2_U + 1) 1) (\<lambda>aux.
         unbanked_write E ENC424J600_WRITECRU (ENC424J600_ECON2_U + 1)
           [(aux ! 0 AND 0xf0) OR ENC424J600_CLKO_25M00]),
       bindM (read_esa_u E) (\<lambda>(retval, esa).
         if retval \<noteq> 0 then panic ''Reading HW address from chip failed.\<newline>''
         else
           thenM (modify (\<lambda>s. s\<lparr>hwaddr := esa\<rparr>))
             (printf (''HW address '' @ concat (map (\<lambda>k. (if k = 0 then '''' else '':'') @ hex_nat (unat (esa ! k))) [0..<6]) @ ''\<newline>''))),
       unbanked_write E ENC424J600_WRITECRU ENC424J600_ERXFCON_U
         [ENC424J600_BCEN OR ENC424J600_UCEN OR ENC424J600_RUNTEN OR ENC424J600_CRCEN],
       simple_operation E ENC424J600_FCDISABLE,
       write_phy E ENC424J600_PHCON1 (push_bit 8 (ucast ENC424J600_ANEN) + 0),
       usleep E 26,
       write_phy E ENC424J600_PHANA
         (push_bit 8 (ucast ENC424J600_AD100FD) +
          ucast (ENC424J600_IEEE802_3STD OR (ENC424J600_AD100 OR ENC424J600_AD10FD OR ENC424J600_AD10))),
       bindM (unbanked_read E ENC424J600_MACON2_U 2) (\<lambda>aux.
         unbanked_write E ENC424J600_WRITECRU ENC424J600_MACON2_U [0xa0 OR ENC424J600_TXCRCEN, aux ! 1]),
       unbanked_write E ENC424J600_WRITECRU ENC424J600_MAMXFL_U
         [ucast (ENC424J600_ACCEPTABLE_PACKET_SIZE AND 0xff), ucast (drop_bit 8 ENC424J600_ACCEPTABLE_PACKET_SIZE AND 0xff)]]"

definition enc424j600_spi_start :: "env \<Rightarrow> ('z enc_state_scheme, unit) prog" where
  "enc424j600_spi_start E =
     seqM [
       simple_operation E ENC424J600_DISABLERX,
       simple_operation E ENC424J600_CLREIE,
       unbanked_write E ENC424J600_BITFIELDSETU ENC424J600_EIE_U
         [ENC424J600_PKTIE OR ENC424J600_TXIE OR ENC424J600_TXABTIE OR ENC424J600_RXABTIE OR ENC424J600_PCFULIE,
          ENC424J600_LINKIE],
       bindM (banked_read E ENC424J600_ESTATL 1) (\<lambda>pkcnt.
         repeatM (unat (pkcnt ! 0)) (simple_operation E ENC424J600_SETPKTDEC)),
       unbanked_write E ENC424J600_WRITECRU ENC424J600_ERXST_U
         [ucast (ENC424J600_RXBUF_START AND 0xfe), ucast (drop_bit 8 ENC424J600_RXBUF_START AND 0x7f)],
       unbanked_write E ENC424J600_WRITECRU ENC424J600_ERXHEAD_U
         [ucast (ENC424J600_RXBUF_START AND 0xfe), ucast (drop_bit 8 ENC424J600_RXBUF_START AND 0x7f)],
       modify (\<lambda>s. s\<lparr>NextPacketPointer := ENC424J600_RXBUF_START\<rparr>),
       unbanked_write E ENC424J600_WRITECRU ENC424J600_ERXTAIL_U [0xfe, 0x5f],
       banked_write E ENC424J600_BITFIELDCLEAR ENC424J600_ECON1L [ENC424J600_TXRTS],
       modify (\<lambda>s. s\<lparr>txbusy := False\<rparr>),
       unbanked_write E ENC424J600_WRITECRU ENC424J600_ETXST_U
         [ucast (ENC424J600_TXBUF_START AND 0xff), ucast (drop_bit 8 ENC424J600_TXBUF_START AND 0xff)],
       banked_write E ENC424J600_BITFIELDCLEAR ENC424J600_EIRL
         [ENC424J600_TXIF OR ENC424J600_TXABTIF OR ENC424J600_RXABTIF OR ENC424J600_PCFULIF, ENC424J600_LINKIF],
       simple_operation E ENC424J600_SETEIE,
       simple_operation E ENC424J600_ENABLERX,
       bindM (banked_read E ENC424J600_ESTATL 2) (\<lambda>aux.
         if aux ! 1 AND ENC424J600_PHYLNK \<noteq> 0 then
           bindM (gets link_status) (\<lambda>on.
             whenM (\<not> on) (thenM (modify (\<lambda>s. s\<lparr>link_status := True\<rparr>)) (set_MAC E (aux ! 1))))
         else modify (\<lambda>s. s\<lparr>link_status := False\<rparr>))]"

section \<open>Sending, polling and the interface to lwIP\<close>

fun send_segments :: "env \<Rightarrow> u8 list list \<Rightarrow> ('z hw_scheme, unit) prog" where
  "send_segments E [] = ret ()"
| "send_segments E (p # ps) = thenM (spi_transfer E p (ps = [])) (send_segments E ps)"

text \<open>The packet is a chain of segments and its \<^verbatim>\<open>tot_len\<close>.\<close>

definition enc424j600_spi_send :: "env \<Rightarrow> u8 list list \<Rightarrow> u16 \<Rightarrow> ('z enc_state_scheme, unit) prog" where
  "enc424j600_spi_send E p tot_len =
     (if uint tot_len > uint ENC424J600_RXBUF_START - uint ENC424J600_TXBUF_START then ret ()
      else
        seqM [
          modify (\<lambda>s. s\<lparr>txbusy := True\<rparr>),
          set_pointer E ENC424J600_GPBWRPT
            (push_bit 8 (ucast (drop_bit 8 (ucast ENC424J600_TXBUF_START :: u8))) + (ENC424J600_TXBUF_START AND 0xff)),
          thenM (spi_transfer E [ENC424J600_WGPDATA] False) (ret ()),
          send_segments E p,
          unbanked_write E ENC424J600_WRITECRU ENC424J600_ETXLEN_U
            [ucast (tot_len AND 0xff), ucast (drop_bit 8 tot_len AND 0xff)],
          simple_operation E ENC424J600_SETTXRTS])"

text \<open>One round of the loop of \<^verbatim>\<open>hw_poll\<close>; it answers whether no flag was set.\<close>

definition poll_round ::
  "env \<Rightarrow> (io list \<Rightarrow> nat \<Rightarrow> nat list) \<Rightarrow> (u8 list list \<Rightarrow> ('z enc_state_scheme, unit) prog)
     \<Rightarrow> ('z enc_state_scheme, bool) prog" where
  "poll_round E alloc inp =
     bindM (banked_read E ENC424J600_EIRL 2) (\<lambda>eir.
       let aux1 = eir ! 1 AND ENC424J600_LINKIF;
           aux0 = eir ! 0 AND (ENC424J600_PKTIF OR ENC424J600_TXIF OR ENC424J600_TXABTIF OR ENC424J600_RXABTIF OR ENC424J600_PCFULIF);
           iflags = (ucast aux0 + 256 * ucast aux1 :: u16)
       in thenM (seqM [
            whenM (aux0 AND ENC424J600_PKTIF \<noteq> 0) (enc424j600_spi_RXevent E alloc inp),
            whenM (aux1 AND ENC424J600_LINKIF \<noteq> 0) (enc424j600_spi_LINKevent E),
            whenM (aux0 AND ENC424J600_TXIF \<noteq> 0) (enc424j600_spi_TXevent E),
            whenM (aux0 AND ENC424J600_TXABTIF \<noteq> 0) (enc424j600_spi_TXABTevent E),
            whenM (aux0 AND ENC424J600_PCFULIF \<noteq> 0) (enc424j600_spi_PCFULevent E),
            whenM (aux0 AND ENC424J600_RXABTIF \<noteq> 0) (enc424j600_spi_RXABTevent E)])
          (ret (iflags = 0)))"

definition hw_poll ::
  "env \<Rightarrow> (io list \<Rightarrow> nat \<Rightarrow> nat list) \<Rightarrow> (u8 list list \<Rightarrow> ('z enc_state_scheme, unit) prog)
     \<Rightarrow> ('z enc_state_scheme, unit) prog" where
  "hw_poll E alloc inp =
     seqM [
       simple_operation E ENC424J600_CLREIE,
       pollM (env_fuel E) (poll_round E alloc inp),
       simple_operation E ENC424J600_SETEIE]"

definition enc424j600_spi_linkoutput :: "env \<Rightarrow> u8 list list \<Rightarrow> u16 \<Rightarrow> ('z enc_state_scheme, int) prog" where
  "enc424j600_spi_linkoutput E p tot_len = thenM (enc424j600_spi_send E p tot_len) (ret 0)"

definition enc424j600_spi_poll ::
  "env \<Rightarrow> (io list \<Rightarrow> nat \<Rightarrow> nat list) \<Rightarrow> (u8 list list \<Rightarrow> ('z enc_state_scheme, unit) prog)
     \<Rightarrow> ('z enc_state_scheme, unit) prog" where
  "enc424j600_spi_poll E alloc inp = hw_poll E alloc inp"

definition enc424j600_spi_init :: "env \<Rightarrow> ('z enc_state_scheme, int) prog" where
  "enc424j600_spi_init E =
     thenM (hw_init E)
    (thenM (enc424j600_spi_start E)
    (thenM (modify (\<lambda>s. s\<lparr>netif_hwaddr := hwaddr s, netif_mtu := 1500, netif_flags := netif_flags s OR NETIF_FLAG_ETHARP\<rparr>))
           (ret 0)))"

section \<open>What the chip sees\<close>

abbreviation enc_bus :: "u8 list option \<Rightarrow> io list \<Rightarrow> u8 list option \<times> u8 list list" where
  "enc_bus \<equiv> bus ETH_CS_PORT ETH_CS_BIT ETH_USART"

text \<open>The answers of the chip to the bytes of a transfer.\<close>

fun spi_rx :: "env \<Rightarrow> io list \<Rightarrow> u8 list \<Rightarrow> u8 list" where
  "spi_rx E tr [] = []"
| "spi_rx E tr (tx # txs) =
     (let rx = env_spi E tr ETH_USART tx in rx # spi_rx E (tr @ [Spi ETH_USART tx rx]) txs)"

lemma length_spi_rx [simp]: "length (spi_rx E tr txs) = length txs"
  by (induction txs arbitrary: tr) (simp_all add: Let_def)

definition spi_calls :: "env \<Rightarrow> io list \<Rightarrow> u8 list \<Rightarrow> io list" where
  "spi_calls E tr txs = map2 (Spi ETH_USART) txs (spi_rx E tr txs)"

lemma spi_bytes_run:
  "spi_bytes E txs s = Ret (spi_rx E (trace s) txs) (s\<lparr>trace := trace s @ spi_calls E (trace s) txs\<rparr>)"
proof (induction txs arbitrary: s)
  case (Cons tx txs)
  let ?s = "s\<lparr>trace := trace s @ [Spi ETH_USART tx (env_spi E (trace s) ETH_USART tx)]\<rparr>"
  show ?case using Cons.IH [of ?s] by (simp add: Let_def spi_calls_def)
qed (simp add: spi_calls_def)

definition transfer_calls :: "env \<Rightarrow> io list \<Rightarrow> u8 list \<Rightarrow> bool \<Rightarrow> io list" where
  "transfer_calls E tr txs drop_cs =
     PinClear ETH_CS_PORT ETH_CS_BIT # spi_calls E (tr @ [PinClear ETH_CS_PORT ETH_CS_BIT]) txs @
     (if drop_cs then [PinSet ETH_CS_PORT ETH_CS_BIT] else [])"

lemma spi_transfer_run:
  "spi_transfer E txs drop_cs s =
     Ret (spi_rx E (trace s @ [PinClear ETH_CS_PORT ETH_CS_BIT]) txs)
         (s\<lparr>trace := trace s @ transfer_calls E (trace s) txs drop_cs\<rparr>)"
  by (simp add: spi_transfer_def transfer_calls_def bindM_Ret [OF spi_bytes_run])

text \<open>Events of the Ethernet bus.\<close>

definition enc_event :: "io \<Rightarrow> bool" where
  "enc_event e =
     (case e of
        Spi u _ _ \<Rightarrow> u = ETH_USART
      | PinSet p b \<Rightarrow> p = ETH_CS_PORT \<and> b = ETH_CS_BIT
      | PinClear p b \<Rightarrow> p = ETH_CS_PORT \<and> b = ETH_CS_BIT
      | _ \<Rightarrow> False)"

lemma transfer_calls_event: "e \<in> set (transfer_calls E tr txs d) \<Longrightarrow> enc_event e"
  by (auto simp: transfer_calls_def spi_calls_def enc_event_def split: if_splits)

lemma transfer_calls_bus:
  "enc_bus cs (transfer_calls E tr txs d) =
     (let bs = (case cs of Some bs \<Rightarrow> bs | None \<Rightarrow> []) @ txs in if d then (None, [bs]) else (Some bs, []))"
  by (simp add: transfer_calls_def spi_calls_def bus_append bus_spi bus_step_def Let_def)

text \<open>
  A piece of the driver that only talks to the chip: it extends the trace by bus events, from
  the open frame \<open>cs\<close> to the open frame \<open>cs'\<close>, completing the frames \<open>fs\<close>.
\<close>

definition enc_ext :: "u8 list option \<Rightarrow> u8 list list \<Rightarrow> u8 list option \<Rightarrow> 'z hw_scheme \<Rightarrow> 'z hw_scheme \<Rightarrow> bool" where
  "enc_ext cs fs cs' s t \<longleftrightarrow>
     (\<exists>es. t = s\<lparr>trace := trace s @ es\<rparr> \<and> enc_bus cs es = (cs', fs) \<and> (\<forall>e \<in> set es. enc_event e))"

abbreviation enc_step :: "u8 list list \<Rightarrow> 'z hw_scheme \<Rightarrow> 'z hw_scheme \<Rightarrow> bool" where
  "enc_step fs \<equiv> enc_ext None fs None"

lemma enc_ext_refl: "enc_ext cs [] cs s s"
  unfolding enc_ext_def by (rule exI [of _ "[]"]) simp

lemma enc_ext_trans: "enc_ext cs fs cs' s t \<Longrightarrow> enc_ext cs' gs cs'' t u \<Longrightarrow> enc_ext cs (fs @ gs) cs'' s u"
  unfolding enc_ext_def
proof (elim exE conjE)
  fix es es'
  assume "t = s\<lparr>trace := trace s @ es\<rparr>" "u = t\<lparr>trace := trace t @ es'\<rparr>"
    "enc_bus cs es = (cs', fs)" "enc_bus cs' es' = (cs'', gs)"
    "\<forall>e \<in> set es. enc_event e" "\<forall>e \<in> set es'. enc_event e"
  then show "\<exists>es. u = s\<lparr>trace := trace s @ es\<rparr> \<and> enc_bus cs es = (cs'', fs @ gs) \<and> (\<forall>e \<in> set es. enc_event e)"
    by (intro exI [of _ "es @ es'"]) (auto simp: bus_append)
qed

lemma enc_event_pins: "enc_event e \<Longrightarrow> (p, b) \<noteq> (ETH_CS_PORT, ETH_CS_BIT) \<Longrightarrow> pin_effect p b e = None"
  by (cases e) (auto simp: enc_event_def)

lemma enc_ext_state: "enc_ext cs fs cs' s t \<Longrightarrow> t = s\<lparr>trace := trace t\<rparr>"
  by (auto simp: enc_ext_def)

text \<open>Rules for the pieces of the driver: which frames a call completes.\<close>

lemma wp_spi_transfer:
  assumes "\<And>rxs t. length rxs = length txs \<Longrightarrow>
      enc_ext cs (if d then [(case cs of Some bs \<Rightarrow> bs | None \<Rightarrow> []) @ txs] else [])
        (if d then None else Some ((case cs of Some bs \<Rightarrow> bs | None \<Rightarrow> []) @ txs)) s t \<Longrightarrow> Q rxs t"
  shows "wp (spi_transfer E txs d) Q H s"
proof (rule wp_RetI [OF spi_transfer_run], rule assms)
  show "enc_ext cs (if d then [(case cs of Some bs \<Rightarrow> bs | None \<Rightarrow> []) @ txs] else [])
        (if d then None else Some ((case cs of Some bs \<Rightarrow> bs | None \<Rightarrow> []) @ txs)) s
        (s\<lparr>trace := trace s @ transfer_calls E (trace s) txs d\<rparr>)"
    unfolding enc_ext_def
    by (intro exI [of _ "transfer_calls E (trace s) txs d"]) (simp add: transfer_calls_bus Let_def transfer_calls_event)
qed simp

lemma wp_simple_operation:
  assumes "\<And>t. enc_step [[opcode]] s t \<Longrightarrow> Q () t"
  shows "wp (simple_operation E opcode) Q H s"
  unfolding simple_operation_def
  by (simp, rule wp_spi_transfer [where cs = None]) (simp add: assms)

lemma wp_two_transfers:
  assumes "\<And>rxs t. length rxs = length ys \<Longrightarrow> enc_step [x # ys] s t \<Longrightarrow> Q rxs t"
  shows "wp (thenM (spi_transfer E [x] False) (spi_transfer E ys True)) Q H s"
proof (simp, rule wp_spi_transfer [where cs = None], simp)
  fix t assume 1: "enc_ext None [] (Some [x]) s t"
  show "wp (spi_transfer E ys True) Q H t"
  proof (rule wp_spi_transfer [where cs = "Some [x]"], simp)
    fix rxs :: "u8 list" and u assume 2: "length rxs = length ys" "enc_ext (Some [x]) [x # ys] None t u"
    show "Q rxs u" using assms [OF 2(1)] enc_ext_trans [OF 1 2(2)] by simp
  qed
qed

lemma wp_three_transfers:
  assumes "\<And>rxs t. length rxs = length ys \<Longrightarrow> enc_step [x # y # ys] s t \<Longrightarrow> Q rxs t"
  shows "wp (thenM (spi_transfer E [x] False) (thenM (spi_transfer E [y] False) (spi_transfer E ys True))) Q H s"
proof (simp, rule wp_spi_transfer [where cs = None], simp)
  fix t assume 1: "enc_ext None [] (Some [x]) s t"
  show "wp (spi_transfer E [y] False) (\<lambda>_. wp (spi_transfer E ys True) Q H) H t"
  proof (rule wp_spi_transfer [where cs = "Some [x]"], simp)
    fix u assume 2: "enc_ext (Some [x]) [] (Some [x, y]) t u"
    show "wp (spi_transfer E ys True) Q H u"
    proof (rule wp_spi_transfer [where cs = "Some [x, y]"], simp)
      fix rxs :: "u8 list" and v assume 3: "length rxs = length ys" "enc_ext (Some [x, y]) [x # y # ys] None u v"
      show "Q rxs v" using assms [OF 3(1)] enc_ext_trans [OF enc_ext_trans [OF 1 2] 3(2)] by simp
    qed
  qed
qed

text \<open>The legal banked accesses: the address fits its five bits and the opcode has none of them.\<close>

definition banked_ok :: "u8 \<Rightarrow> u8 \<Rightarrow> bool" where
  "banked_ok opcode address \<longleftrightarrow> address \<le> ENC424J600_ECON1H \<and> opcode AND ENC424J600_ECON1H = 0"

lemma wp_banked_op:
  assumes "banked_ok opcode address" and "buf \<noteq> []"
    and "\<And>buf' t. length buf' = length buf \<Longrightarrow> (opcode \<noteq> ENC424J600_READCR \<Longrightarrow> buf' = buf) \<Longrightarrow>
       enc_step [(address OR opcode) # (if opcode = ENC424J600_READCR then replicate (length buf) 0 else buf)] s t \<Longrightarrow>
       Q (0, buf') t"
  shows "wp (banked_register_operation E opcode address buf) Q H s"
proof -
  let ?ys = "if ENC424J600_READCR = opcode then replicate (length buf) 0 else buf"
  have "wp (thenM (spi_transfer E [address OR opcode] False) (spi_transfer E ?ys True))
      (\<lambda>rxs t. Q (0, if ENC424J600_READCR = opcode then rxs else buf) t) H s"
    by (rule wp_two_transfers) (rule assms(3), auto split: if_splits)
  then show ?thesis
    using assms(1,2) by (auto simp: banked_register_operation_def banked_ok_def dest: leD)
qed

lemma wp_unbanked_op:
  assumes "buf \<noteq> []"
    and "\<And>buf' t. length buf' = length buf \<Longrightarrow> (opcode \<noteq> ENC424J600_READCRU \<Longrightarrow> buf' = buf) \<Longrightarrow>
       enc_step [opcode # address # (if opcode = ENC424J600_READCRU then replicate (length buf) 0 else buf)] s t \<Longrightarrow>
       Q (0, buf') t"
  shows "wp (unbanked_register_operation E opcode address buf) Q H s"
proof -
  let ?ys = "if ENC424J600_READCRU = opcode then replicate (length buf) 0 else buf"
  have "wp (thenM (spi_transfer E [opcode] False) (thenM (spi_transfer E [address] False) (spi_transfer E ?ys True)))
      (\<lambda>rxs t. Q (0, if ENC424J600_READCRU = opcode then rxs else buf) t) H s"
    by (rule wp_three_transfers) (rule assms(2), auto split: if_splits)
  then show ?thesis using assms(1) by (simp add: unbanked_register_operation_def)
qed

lemma wp_banked_write:
  assumes "banked_ok opcode address" and "buf \<noteq> []" and "opcode \<noteq> ENC424J600_READCR"
    and "\<And>t. enc_step [(address OR opcode) # buf] s t \<Longrightarrow> Q () t"
  shows "wp (banked_write E opcode address buf) Q H s"
  unfolding banked_write_def by (simp, rule wp_banked_op [OF assms(1,2)]) (simp add: assms(3,4))

lemma wp_banked_read:
  assumes "address \<le> ENC424J600_ECON1H" and "0 < n"
    and "\<And>buf t. length buf = n \<Longrightarrow> enc_step [address # replicate n 0] s t \<Longrightarrow> Q buf t"
  shows "wp (banked_read E address n) Q H s"
  unfolding banked_read_def
  by (simp, rule wp_banked_op) (use assms in \<open>auto simp: banked_ok_def ENC424J600_READCR_def\<close>)

lemma wp_unbanked_write:
  assumes "buf \<noteq> []" and "opcode \<noteq> ENC424J600_READCRU"
    and "\<And>t. enc_step [opcode # address # buf] s t \<Longrightarrow> Q () t"
  shows "wp (unbanked_write E opcode address buf) Q H s"
  unfolding unbanked_write_def by (simp, rule wp_unbanked_op [OF assms(1)]) (simp add: assms(2,3))

lemma wp_unbanked_read:
  assumes "0 < n"
    and "\<And>buf t. length buf = n \<Longrightarrow> enc_step [ENC424J600_READCRU # address # replicate n 0] s t \<Longrightarrow> Q buf t"
  shows "wp (unbanked_read E address n) Q H s"
  unfolding unbanked_read_def
  by (simp, rule wp_unbanked_op) (use assms in auto)

lemma wp_set_pointer:
  assumes "\<And>t. enc_step [ptr # le_bytes 2 v] s t \<Longrightarrow> Q () t"
  shows "wp (set_pointer E ptr v) Q H s"
proof -
  have "wp (thenM (spi_transfer E [ptr] False) (spi_transfer E (le_bytes 2 v) True)) (\<lambda>_ t. Q () t) H s"
    by (rule wp_two_transfers) (rule assms)
  then show ?thesis by (simp add: set_pointer_def)
qed

lemma wp_read_from_rx_buffer:
  assumes "0 < n" and "\<And>bs t. length bs = n \<Longrightarrow> enc_step [ENC424J600_RRXDATA # replicate n 0] s t \<Longrightarrow> Q (Some bs) t"
  shows "wp (read_from_rx_buffer E n) Q H s"
proof -
  have "wp (thenM (spi_transfer E [ENC424J600_RRXDATA] False) (spi_transfer E (replicate n 0) True)) (\<lambda>bs t. Q (Some bs) t) H s"
    by (rule wp_two_transfers) (rule assms(2), auto)
  then show ?thesis using assms(1) by (simp add: read_from_rx_buffer_def)
qed

lemma enc_step_trans: "enc_step fs s t \<Longrightarrow> enc_step gs t u \<Longrightarrow> enc_step (fs @ gs) s u"
  by (rule enc_ext_trans)

section \<open>Sending a packet\<close>

lemma wp_send_segments:
  assumes "ps \<noteq> []" and "\<And>t. enc_ext (Some bs) [bs @ concat ps] None s t \<Longrightarrow> Q () t"
  shows "wp (send_segments E ps) Q H s"
  using assms
proof (induction ps arbitrary: bs s)
  case (Cons p ps)
  show ?case
  proof (cases "ps = []")
    case True
    show ?thesis
      by (simp add: True, rule wp_spi_transfer [where cs = "Some bs"]) (use Cons.prems(2) True in simp)
  next
    case False
    show ?thesis
    proof (simp add: False, rule wp_spi_transfer [where cs = "Some bs"], simp)
      fix t assume 1: "enc_ext (Some bs) [] (Some (bs @ p)) s t"
      show "wp (send_segments E ps) Q H t"
      proof (rule Cons.IH [OF False, where bs = "bs @ p"])
        fix u assume "enc_ext (Some (bs @ p)) [(bs @ p) @ concat ps] None t u"
        then show "Q () u" using Cons.prems(2) [of u] enc_ext_trans [OF 1] by simp
      qed
    qed
  qed
qed simp

lemma enc_step_upd:
  fixes s t :: "'z enc_state_scheme"
  shows "enc_step fs (s\<lparr>txbusy := b\<rparr>) t \<Longrightarrow> \<exists>es. t = s\<lparr>txbusy := b, trace := trace s @ es\<rparr> \<and> enc_bus None es = (None, fs)"
  by (auto simp: enc_ext_def)

lemma linkoutput_run:
  assumes "p \<noteq> []"
  shows "if tot_len \<le> 1024
    then \<exists>es. enc424j600_spi_linkoutput E p tot_len s = Ret 0 (s\<lparr>txbusy := True, trace := trace s @ es\<rparr>) \<and>
      enc_bus None es = (None,
        [[ENC424J600_GPBWRPT, 0, 0], ENC424J600_WGPDATA # concat p,
         [ENC424J600_WRITECRU, ENC424J600_ETXLEN_U, ucast tot_len, ucast (drop_bit 8 tot_len)],
         [ENC424J600_SETTXRTS]])
    else enc424j600_spi_linkoutput E p tot_len s = Ret 0 s"
proof (cases "tot_len \<le> 1024")
  case True
  let ?s = "s\<lparr>txbusy := True\<rparr>"
  let ?fs = "[[ENC424J600_GPBWRPT, 0, 0], ENC424J600_WGPDATA # concat p,
         [ENC424J600_WRITECRU, ENC424J600_ETXLEN_U, ucast tot_len, ucast (drop_bit 8 tot_len)], [ENC424J600_SETTXRTS]]"
  have fits: "\<not> uint tot_len > uint ENC424J600_RXBUF_START - uint ENC424J600_TXBUF_START"
    using True by (simp add: enc_buf_consts word_le_def)
  have ptr: "push_bit 8 (ucast (drop_bit 8 (ucast ENC424J600_TXBUF_START :: u8))) + (ENC424J600_TXBUF_START AND 0xff) = 0"
    by (simp add: enc_buf_consts)
  have "wp (enc424j600_spi_send E p tot_len) (\<lambda>_ t. enc_step ?fs ?s t) (\<lambda>_ _. False) s"
    unfolding enc424j600_spi_send_def if_not_P [OF fits] ptr seqM.simps wp_thenM wp_modify
  proof (rule wp_set_pointer, unfold wp_ret, rule wp_spi_transfer [where cs = None], simp)
    fix t1 t2
    assume 1: "enc_step [ENC424J600_GPBWRPT # le_bytes 2 (0 :: u16)] ?s t1"
      and 2: "enc_ext None [] (Some [ENC424J600_WGPDATA]) t1 t2"
    show "wp (send_segments E p) (\<lambda>_. wp (unbanked_write E ENC424J600_WRITECRU ENC424J600_ETXLEN_U
        [ucast tot_len, ucast (drop_bit 8 tot_len)])
        (\<lambda>_. wp (simple_operation E ENC424J600_SETTXRTS) (\<lambda>_ t. enc_step ?fs ?s t) (\<lambda>_ _. False)) (\<lambda>_ _. False)) (\<lambda>_ _. False) t2"
    proof (rule wp_send_segments [OF assms], rule wp_unbanked_write, simp, simp add: enc_consts, rule wp_simple_operation)
      fix t3 t4 t5
      assume "enc_ext (Some [ENC424J600_WGPDATA]) [[ENC424J600_WGPDATA] @ concat p] None t2 t3"
        "enc_step [[ENC424J600_WRITECRU, ENC424J600_ETXLEN_U, ucast tot_len, ucast (drop_bit 8 tot_len)]] t3 t4"
        "enc_step [[ENC424J600_SETTXRTS]] t4 t5"
      from enc_ext_trans [OF 1 enc_ext_trans [OF 2 enc_ext_trans [OF this(1) enc_ext_trans [OF this(2,3)]]]]
      show "enc_step ?fs ?s t5" by (simp add: le_bytes_2)
    qed
  qed
  then show ?thesis
    using True enc_step_upd unfolding wp_total_ex
    by (fastforce simp: enc424j600_spi_linkoutput_def)
next
  case False
  then have "uint tot_len > uint ENC424J600_RXBUF_START - uint ENC424J600_TXBUF_START"
    by (simp add: enc_buf_consts word_le_def)
  then show ?thesis using False by (simp add: enc424j600_spi_linkoutput_def enc424j600_spi_send_def)
qed

text \<open>
  C11. A packet goes to the chip as one block: for a chain of segments whose total length fits
  the transmit buffer, the driver sends exactly four complete frames, the write pointer set to
  the start of the buffer, the data command followed by the bytes of all segments in order, the
  length register holding the total length, and the transmit request; the chip is deselected
  afterwards and the driver is marked busy. A longer packet is dropped without any access.
\<close>

theorem send_is_one_block:
  assumes "p \<noteq> []"
  shows "if tot_len \<le> 1024
    then \<exists>es. enc424j600_spi_linkoutput E p tot_len s = Ret 0 (s\<lparr>txbusy := True, trace := trace s @ es\<rparr>) \<and>
      enc_bus None es = (None,
        [[ENC424J600_GPBWRPT, 0, 0], ENC424J600_WGPDATA # concat p,
         [ENC424J600_WRITECRU, ENC424J600_ETXLEN_U, ucast tot_len, ucast (drop_bit 8 tot_len)],
         [ENC424J600_SETTXRTS]])
    else enc424j600_spi_linkoutput E p tot_len s = Ret 0 s"
  using assms by (rule linkoutput_run)

text \<open>A driver before initialisation, used to instantiate the properties.\<close>

definition blank_enc :: enc_state where
  "blank_enc = \<lparr>trace = [], configMem = blank_table, flash = [], timeOut = 0, xfersPrMsec = 0,
     dstat = STA_NOINIT, CardType = 0, netif_ip_addr = 0, netif_netmask = 0, netif_gw = 0,
     netif_flags = 0, netif_hwaddr = [], netif_mtu = 0, netif_num = 0, netif_dhcp = False, netif_status_cb = False,
     next_netif_num = 0, netif_listed = False, netif_default = False,
     NextPacketPointer = 0, link_status = False, txbusy = False, hwaddr = []\<rparr>"

theorem send_is_one_block_witness:
  "\<exists>es. enc424j600_spi_linkoutput ideal_env [[1, 2], [3]] 3 blank_enc = Ret 0 (blank_enc\<lparr>txbusy := True, trace := es\<rparr>) \<and>
     enc_bus None es = (None, [[0x6c, 0, 0], [0x2a, 1, 2, 3], [0x22, 2, 3, 0], [0xd4]])"
  using send_is_one_block [of "[[1, 2], [3]]" 3 ideal_env blank_enc]
  by (auto simp: blank_enc_def enc_consts word_le_nat_alt)

section \<open>Register access\<close>

definition enc_answers :: "io list \<Rightarrow> u8 list" where
  "enc_answers es = concat (map (\<lambda>e. case e of Spi u tx rx \<Rightarrow> if u = ETH_USART then [rx] else [] | _ \<Rightarrow> []) es)"

lemma enc_answers_append [simp]: "enc_answers (xs @ ys) = enc_answers xs @ enc_answers ys"
  by (simp add: enc_answers_def)

lemma enc_answers_transfer:
  "enc_answers (transfer_calls E tr txs d) = spi_rx E (tr @ [PinClear ETH_CS_PORT ETH_CS_BIT]) txs"
proof -
  have "enc_answers (map2 (Spi ETH_USART) xs ys) = ys" if "length ys = length xs" for xs ys
    using that by (induction xs ys rule: list_induct2') (simp_all add: enc_answers_def)
  then show ?thesis by (simp add: transfer_calls_def spi_calls_def enc_answers_def)
qed

text \<open>
  A register access is one frame on the bus: a banked operation with a legal opcode and
  address sends the combined opcode and the data (zeros for a read) with the chip selected
  throughout and deselected afterwards, an unbanked one sends opcode, address and data; a read
  answers exactly the bytes the chip shifted out after the header, a write leaves the buffer as
  it was. An empty buffer, or an illegal opcode or address, is an error with no bus activity.
\<close>

theorem register_access_is_one_frame:
  shows "(if buf \<noteq> [] \<and> banked_ok opcode address
     then \<exists>es buf'. banked_register_operation E opcode address buf s = Ret (0, buf') (s\<lparr>trace := trace s @ es\<rparr>) \<and>
       (let rd = (opcode = ENC424J600_READCR) in
        enc_bus None es = (None, [(address OR opcode) # (if rd then replicate (length buf) 0 else buf)]) \<and>
        buf' = (if rd then drop 1 (enc_answers es) else buf))
     else banked_register_operation E opcode address buf s = Ret (- 1, buf) s) \<and>
   (if buf \<noteq> []
     then \<exists>es buf'. unbanked_register_operation E opcode address buf s = Ret (0, buf') (s\<lparr>trace := trace s @ es\<rparr>) \<and>
       (let rd = (opcode = ENC424J600_READCRU) in
        enc_bus None es = (None, [opcode # address # (if rd then replicate (length buf) 0 else buf)]) \<and>
        buf' = (if rd then drop 2 (enc_answers es) else buf))
     else unbanked_register_operation E opcode address buf s = Ret (- 1, buf) s)"
proof (intro conjI)
  let ?d = "if opcode = ENC424J600_READCR then replicate (length buf) 0 else buf"
  let ?a = "transfer_calls E (trace s) [address OR opcode] False"
  let ?b = "transfer_calls E (trace s @ ?a) ?d True"
  have "banked_register_operation E opcode address buf s =
      Ret (0, if opcode = ENC424J600_READCR then drop 1 (enc_answers (?a @ ?b)) else buf) (s\<lparr>trace := trace s @ ?a @ ?b\<rparr>)"
    if "buf \<noteq> [] \<and> banked_ok opcode address"
    using that by (auto simp: banked_register_operation_def banked_ok_def thenM_Ret [OF spi_transfer_run]
        bindM_Ret [OF spi_transfer_run] enc_answers_transfer Let_def dest: leD)
  moreover have "enc_bus None (?a @ ?b) = (None, [(address OR opcode) # ?d])"
    by (simp add: bus_append transfer_calls_bus)
  ultimately show "if buf \<noteq> [] \<and> banked_ok opcode address
     then \<exists>es buf'. banked_register_operation E opcode address buf s = Ret (0, buf') (s\<lparr>trace := trace s @ es\<rparr>) \<and>
       (let rd = (opcode = ENC424J600_READCR) in
        enc_bus None es = (None, [(address OR opcode) # (if rd then replicate (length buf) 0 else buf)]) \<and>
        buf' = (if rd then drop 1 (enc_answers es) else buf))
     else banked_register_operation E opcode address buf s = Ret (- 1, buf) s"
    unfolding Let_def
    by (auto simp: banked_register_operation_def banked_ok_def not_le intro!: exI [of _ "?a @ ?b"])
next
  let ?d = "if opcode = ENC424J600_READCRU then replicate (length buf) 0 else buf"
  let ?a = "transfer_calls E (trace s) [opcode] False"
  let ?b = "transfer_calls E (trace s @ ?a) [address] False"
  let ?c = "transfer_calls E (trace s @ ?a @ ?b) ?d True"
  have "unbanked_register_operation E opcode address buf s =
      Ret (0, if opcode = ENC424J600_READCRU then drop 2 (enc_answers (?a @ ?b @ ?c)) else buf) (s\<lparr>trace := trace s @ ?a @ ?b @ ?c\<rparr>)"
    if "buf \<noteq> []"
    using that by (auto simp: unbanked_register_operation_def thenM_Ret [OF spi_transfer_run]
        bindM_Ret [OF spi_transfer_run] enc_answers_transfer Let_def)
  moreover have "enc_bus None (?a @ ?b @ ?c) = (None, [opcode # address # ?d])"
    by (simp add: bus_append transfer_calls_bus)
  ultimately show "if buf \<noteq> []
     then \<exists>es buf'. unbanked_register_operation E opcode address buf s = Ret (0, buf') (s\<lparr>trace := trace s @ es\<rparr>) \<and>
       (let rd = (opcode = ENC424J600_READCRU) in
        enc_bus None es = (None, [opcode # address # (if rd then replicate (length buf) 0 else buf)]) \<and>
        buf' = (if rd then drop 2 (enc_answers es) else buf))
     else unbanked_register_operation E opcode address buf s = Ret (- 1, buf) s"
    unfolding Let_def
    by (auto simp: unbanked_register_operation_def intro!: exI [of _ "?a @ ?b @ ?c"])
qed

section \<open>Receiving a packet\<close>

lemma read_from_rx_buffer_run:
  assumes "0 < n"
  shows "\<exists>j bs es. read_from_rx_buffer E n s = Ret (Some bs) (s\<lparr>trace := trace s @ es\<rparr>) \<and> length bs = n \<and>
    enc_bus None es = (None, [ENC424J600_RRXDATA # replicate n 0]) \<and> enc_answers es = j # bs"
proof -
  let ?a = "transfer_calls E (trace s) [ENC424J600_RRXDATA] False"
  let ?b = "transfer_calls E (trace s @ ?a) (replicate n 0) True"
  obtain j where "spi_rx E (trace s @ [PinClear ETH_CS_PORT ETH_CS_BIT]) [ENC424J600_RRXDATA] = [j]"
    using length_spi_rx [of E "trace s @ [PinClear ETH_CS_PORT ETH_CS_BIT]" "[ENC424J600_RRXDATA]"]
    by (auto simp: length_Suc_conv)
  then show ?thesis
    using assms
    by (intro exI [of _ j] exI [of _ "enc_answers ?b"] exI [of _ "?a @ ?b"])
      (simp add: read_from_rx_buffer_def thenM_Ret [OF spi_transfer_run] bindM_Ret [OF spi_transfer_run] enc_answers_transfer
        bus_append transfer_calls_bus)
qed

text \<open>
  Reading the segments: one frame each, and the bytes of a segment are those the chip sends after its answer to the
  opcode, which is thrown away.
\<close>

lemma read_segments_run:
  assumes "\<forall>n \<in> set ns. 0 < n"
  shows "\<exists>bss es js. read_segments E ns s = Ret bss (s\<lparr>trace := trace s @ es\<rparr>) \<and> map length bss = ns \<and>
    enc_bus None es = (None, map (\<lambda>n. ENC424J600_RRXDATA # replicate n 0) ns) \<and> length js = length ns \<and>
    enc_answers es = concat (map2 (#) js bss)"
  using assms
proof (induction ns arbitrary: s)
  case Nil
  show ?case by (intro exI [of _ "[]"]) (simp add: enc_answers_def)
next
  case (Cons n ns)
  obtain j bs es where 1: "read_from_rx_buffer E n s = Ret (Some bs) (s\<lparr>trace := trace s @ es\<rparr>)" "length bs = n"
      "enc_bus None es = (None, [ENC424J600_RRXDATA # replicate n 0])" "enc_answers es = j # bs"
    using read_from_rx_buffer_run [of n E s] Cons.prems by auto
  obtain bss fs js where 2: "read_segments E ns (s\<lparr>trace := trace s @ es\<rparr>) = Ret bss (s\<lparr>trace := trace s @ es @ fs\<rparr>)" "map length bss = ns"
      "enc_bus None fs = (None, map (\<lambda>n. ENC424J600_RRXDATA # replicate n 0) ns)" "length js = length ns"
      "enc_answers fs = concat (map2 (#) js bss)"
    using Cons.IH [of "s\<lparr>trace := trace s @ es\<rparr>"] Cons.prems by auto
  show ?case
    by (rule exI [of _ "bs # bss"], rule exI [of _ "es @ fs"], rule exI [of _ "j # js"])
      (use 1 2 in \<open>simp add: bindM_Ret bus_append\<close>)
qed

lemma rx_tail_bytes:
  "uint (ucast (rx_tail np AND 0xff) :: u8) + 256 * uint (ucast (drop_bit 8 (rx_tail np) AND 0xff) :: u8) =
     (if np = 0x402 then 0x5ffe else (uint np - 2) mod 65536)"
proof -
  have bytes: "uint (ucast (w AND 0xff) :: u8) + 256 * uint (ucast (drop_bit 8 w AND 0xff) :: u8) = uint w" for w :: u16
  proof -
    have "uint w < 65536" "0 \<le> uint w" using uint_lt2p [of w] by simp_all
    then have "uint w div 256 < 256" "0 \<le> uint w div 256" by (simp_all add: pos_imp_zdiv_nonneg_iff)
    then have "uint (ucast w :: u8) = uint w mod 256" "uint (ucast (drop_bit 8 w) :: u8) = uint w div 256"
      by (simp_all add: unsigned_ucast_eq take_bit_eq_mod drop_bit_eq_div uint_div)
    then show ?thesis by simp
  qed
  have "np - 2 = 0x400 \<longleftrightarrow> np = 0x402" by (simp add: diff_eq_eq)
  moreover have "uint (np - 2) = (uint np - 2) mod 65536" by (simp add: uint_word_ariths)
  ultimately show ?thesis unfolding bytes by (simp add: rx_tail_def enc_buf_consts Let_def)
qed

text \<open>
  C15. Receiving a packet: when the buffer pool has room, the driver reads exactly the segments of the
  buffer from the receive memory, one frame each, then hands the memory back by moving the tail to two bytes before the next packet
  (to the end of the memory instead when that is the start of the receive memory), decrements the packet counter, and only
  then calls the input function of the interface, once. The segments it hands over hold the bytes the chip sent in those
  frames, after its answer to each opcode, in that order; the pointer to the next packet and the rest of the driver's data are not touched.
\<close>

theorem recv_hands_over_packet:
  assumes "alloc (trace s) (unat len) = ns" and "\<forall>n \<in> set ns. 0 < n"
  shows "\<exists>pbuf es js ks lo hi. enc424j600_spi_recv E alloc inp len s = inp pbuf (s\<lparr>trace := trace s @ es\<rparr>) \<and>
    map length pbuf = ns \<and> length js = length ns \<and> enc_answers es = concat (map2 (#) js pbuf) @ ks \<and>
    enc_bus None es = (None, map (\<lambda>n. ENC424J600_RRXDATA # replicate n 0) ns @
      [[ENC424J600_WRITECRU, ENC424J600_ERXTAIL_U, lo, hi], [ENC424J600_SETPKTDEC]]) \<and>
    uint lo + 256 * uint hi = (if NextPacketPointer s = 0x402 then 0x5ffe else (uint (NextPacketPointer s) - 2) mod 65536)"
proof -
  obtain bss es js where 1: "read_segments E ns s = Ret bss (s\<lparr>trace := trace s @ es\<rparr>)" "map length bss = ns"
      "enc_bus None es = (None, map (\<lambda>n. ENC424J600_RRXDATA # replicate n 0) ns)" "length js = length ns"
      "enc_answers es = concat (map2 (#) js bss)"
    using read_segments_run [OF assms(2)] by blast
  let ?np = "NextPacketPointer s" and ?t = "s\<lparr>trace := trace s @ es\<rparr>"
  let ?lo = "ucast (rx_tail ?np AND 0xff) :: u8" and ?hi = "ucast (drop_bit 8 (rx_tail ?np) AND 0xff) :: u8"
  have "wp (thenM (unbanked_write E ENC424J600_WRITECRU ENC424J600_ERXTAIL_U [?lo, ?hi]) (simple_operation E ENC424J600_SETPKTDEC))
      (\<lambda>_. enc_step [[ENC424J600_WRITECRU, ENC424J600_ERXTAIL_U, ?lo, ?hi], [ENC424J600_SETPKTDEC]] ?t) (\<lambda>_ _. False) ?t"
    unfolding wp_thenM
    by (rule wp_unbanked_write, simp, simp add: enc_consts, rule wp_simple_operation) (auto dest: enc_step_trans)
  then obtain fs where 2: "thenM (unbanked_write E ENC424J600_WRITECRU ENC424J600_ERXTAIL_U [?lo, ?hi]) (simple_operation E ENC424J600_SETPKTDEC) ?t =
      Ret () (s\<lparr>trace := trace s @ es @ fs\<rparr>)"
      "enc_bus None fs = (None, [[ENC424J600_WRITECRU, ENC424J600_ERXTAIL_U, ?lo, ?hi], [ENC424J600_SETPKTDEC]])"
    by (auto simp: wp_total_ex enc_ext_def)
  have "enc424j600_spi_recv E alloc inp len s = inp bss (s\<lparr>trace := trace s @ es @ fs\<rparr>)"
    using assms(1) 1(1) 2(1)
    by (auto simp: enc424j600_spi_recv_def thenM_def bindM_def split: outcome.splits)
  then show ?thesis
    using 1 2(2) rx_tail_bytes [of ?np]
    by - (rule exI [of _ bss], rule exI [of _ "es @ fs"], rule exI [of _ js], rule exI [of _ "enc_answers fs"],
        rule exI [of _ ?lo], rule exI [of _ ?hi], simp only: bus_append enc_answers_append append.assoc, simp)
qed

theorem recv_hands_over_packet_witness:
  "\<exists>pbuf es js ks. enc424j600_spi_recv ideal_env (\<lambda>_ n. [2, n - 2]) (\<lambda>p. ext_call ''input'' (map uint (concat p))) 5
      (blank_enc\<lparr>trace := [], NextPacketPointer := 0x0600\<rparr>) =
      Ret () (blank_enc\<lparr>NextPacketPointer := 0x0600, trace := es @ [Ext ''input'' (map uint (concat pbuf))]\<rparr>) \<and>
    map length pbuf = [2, 3] \<and> length js = 2 \<and> enc_answers es = concat (map2 (#) js pbuf) @ ks \<and>
    enc_bus None es = (None, [[0x2c, 0, 0], [0x2c, 0, 0, 0], [0x22, 0x06, 0xfe, 0x05], [0xcc]])"
proof -
  let ?s = "blank_enc\<lparr>trace := [], NextPacketPointer := 0x0600\<rparr>"
  let ?inp = "\<lambda>p. ext_call ''input'' (map uint (concat p))"
  have a: "(\<lambda>_ n. [2, n - 2]) (trace ?s) (unat (5 :: u16)) = [2, 3]" and b: "\<forall>n \<in> set [2 :: nat, 3]. 0 < n" by simp_all
  obtain pbuf es js ks lo hi where *: "enc424j600_spi_recv ideal_env (\<lambda>_ n. [2, n - 2]) ?inp 5 ?s = ?inp pbuf (?s\<lparr>trace := trace ?s @ es\<rparr>)"
      "map length pbuf = [2, 3]" "length js = length [2 :: nat, 3]" "enc_answers es = concat (map2 (#) js pbuf) @ ks"
      "enc_bus None es = (None, map (\<lambda>n. ENC424J600_RRXDATA # replicate n 0) [2, 3] @
        [[ENC424J600_WRITECRU, ENC424J600_ERXTAIL_U, lo, hi], [ENC424J600_SETPKTDEC]])"
      "uint lo + 256 * uint hi = (if NextPacketPointer ?s = 0x402 then 0x5ffe else (uint (NextPacketPointer ?s) - 2) mod 65536)"
    using recv_hands_over_packet [where alloc = "\<lambda>_ n. [2, n - 2]" and s = ?s, OF a b, of ideal_env ?inp] by (elim exE conjE) (rule that)
  have "uint lo + 256 * uint hi = 0x5fe" using *(6) by simp
  moreover have "uint lo < 256" "uint hi < 256" "0 \<le> uint lo" "0 \<le> uint hi" using uint_lt2p [of lo] uint_lt2p [of hi] by simp_all
  ultimately have "uint lo = 0xfe" "uint hi = 0x05" by presburger+
  then have "lo = 0xfe" "hi = 0x05" by (simp_all add: word_uint_eq_iff)
  with * show ?thesis
    by - (rule exI [of _ pbuf], rule exI [of _ es], rule exI [of _ js], rule exI [of _ ks],
        simp add: enc_consts ext_call_def numeral_3_eq_3 numeral_2_eq_2)
qed

text \<open>
  The receive tail handed back: for a next packet that starts more than two bytes behind the
  start of the receive memory it is the address two below, and it stays inside the receive
  memory. At the start of the receive memory, where a packet that ends at the last byte puts
  the next one, it is not wrapped but points into the transmit buffer, and two bytes further it
  is wrapped although the address below is valid.
\<close>

theorem rx_tail_range:
  fixes np :: u16
  assumes "ENC424J600_RXBUF_START + 2 < np" and "np \<le> 0x5fff"
  shows "rx_tail np = np - 2 \<and> ENC424J600_RXBUF_START < rx_tail np \<and> rx_tail np \<le> 0x5fff \<and>
    rx_tail (ENC424J600_RXBUF_START + 2) = 0x5ffe \<and>
    rx_tail ENC424J600_RXBUF_START = ENC424J600_RXBUF_START - 2 \<and>
    rx_tail ENC424J600_RXBUF_START < ENC424J600_RXBUF_START"
proof -
  have np: "1026 < unat np" "unat np \<le> 0x5fff"
    using assms by (simp_all add: enc_buf_consts word_less_nat_alt word_le_nat_alt)
  then have sub: "unat (np - 2) = unat np - 2"
    by (subst unat_sub) (simp_all add: word_le_nat_alt)
  then have "np - 2 \<noteq> 1024" using np by auto
  then have "rx_tail np = np - 2" by (simp add: rx_tail_def enc_buf_consts)
  moreover have "ENC424J600_RXBUF_START < np - 2" "np - 2 \<le> 0x5fff"
    using sub np by (simp_all add: enc_buf_consts word_less_nat_alt word_le_nat_alt)
  ultimately show ?thesis by (simp add: rx_tail_def enc_buf_consts)
qed

theorem rx_tail_range_witness: "rx_tail 0x0600 = 0x05fe \<and> rx_tail 0x0400 = 0x03fe"
  using rx_tail_range [of "0x0600"] by (simp add: enc_buf_consts)

section \<open>Start-up\<close>

lemma quiet_spi_transfer: "quiet (spi_transfer E txs d)"
  unfolding quiet_def by (simp add: wp_def spi_transfer_run) blast

lemma quiet_enc:
  "quiet (simple_operation E opcode)"
  "quiet (banked_register_operation E opcode address buf)"
  "quiet (unbanked_register_operation E opcode address buf)"
  unfolding simple_operation_def banked_register_operation_def unbanked_register_operation_def
  by (intro quiet_intros quiet_spi_transfer)+

lemma quiet_enc_rw:
  "quiet (banked_write E opcode address buf)" "quiet (banked_read E address n)"
  "quiet (unbanked_write E opcode address buf)" "quiet (unbanked_read E address n)"
  unfolding banked_write_def banked_read_def unbanked_write_def unbanked_read_def
  by (auto intro!: quiet_intros quiet_enc split: prod.split)

lemma quiet_write_phy: "quiet (write_phy E pr v)" and quiet_set_MAC: "quiet (set_MAC E st)"
  unfolding write_phy_def set_MAC_def by (intro quiet_intros quiet_enc_rw)+

lemma quiet_spiInit: "quiet spiInit"
  unfolding spiInit_def seqM.simps by (intro quiet_intros)

lemma quiet_spi_ready: "timer_runs E \<Longrightarrow> quiet (spi_ready E n)"
  by (induction n) (auto intro!: quiet_intros quiet_enc_rw quiet_usleep simp: word_le_nat_alt)

lemma quiet_clk_ready: "timer_runs E \<Longrightarrow> quiet (clk_ready E i)"
proof (induction E i rule: clk_ready.induct)
  case (1 E i)
  then show ?case
    by (subst clk_ready.simps) (auto intro!: quiet_intros quiet_enc_rw quiet_usleep simp: word_le_nat_alt)
qed

lemma wp_read_esa_u: "(\<And>esa tr. length esa = 6 \<Longrightarrow> Q (0, esa) (s\<lparr>trace := tr\<rparr>)) \<Longrightarrow> wp (read_esa_u E) Q H s"
  unfolding read_esa_u_def wp_bindM
  by (rule wp_unbanked_op) (auto simp: enc_ext_def)

definition start_messages :: "halt set" where
  "start_messages = {Panic ''enc424j600 SPI is not ready!\<newline>'', Panic ''enc424j600 clock is not ready!\<newline>'',
     Panic ''enc424j600 is not reset!\<newline>''}"

lemma wp_hw_init:
  assumes "timer_runs E"
  shows "wp (hw_init E) (\<lambda>_ t. length (hwaddr t) = 6 \<and> t = s\<lparr>trace := trace t, hwaddr := hwaddr t\<rparr>)
    (\<lambda>h t. h \<in> start_messages \<and> t = s\<lparr>trace := trace t\<rparr>) s"
proof -
  have us: "quiet (usleep E 25)" "quiet (usleep E 256)" "quiet (usleep E 26)"
    using assms by (auto intro!: quiet_usleep simp: word_le_nat_alt)
  note q = us quiet_enc quiet_enc_rw quiet_write_phy quiet_spiInit quiet_spi_ready [OF assms] quiet_clk_ready [OF assms]
  define Q where "Q = (\<lambda>(_ :: unit) t. length (hwaddr t) = 6 \<and> t = s\<lparr>trace := trace t, hwaddr := hwaddr t\<rparr>)"
  define H where "H = (\<lambda>h t. h \<in> start_messages \<and> t = s\<lparr>trace := trace t\<rparr>)"
  have "wp (hw_init E) Q H s"
    unfolding hw_init_def seqM.simps wp_thenM wp_bindM
    by (rule q [THEN wp_quiet] wp_when_panic wp_read_esa_u
        | simp only: prod.case simp_thms if_False wp_thenM wp_modify wp_calls wp_ret
        | simp add: H_def start_messages_def | simp add: Q_def)+
  then show ?thesis unfolding Q_def H_def .
qed

text \<open>What starting the chip and initialising the interface change.\<close>

lemma wp_spi_start:
  "wp (enc424j600_spi_start E) (\<lambda>_ t. t = s\<lparr>trace := trace t, NextPacketPointer := NextPacketPointer t,
     link_status := link_status t, txbusy := txbusy t\<rparr>) H s"
proof -
  note q = quiet_enc quiet_enc_rw quiet_set_MAC quiet_repeatM [OF quiet_enc(1)]
  define Q where "Q = (\<lambda>(_ :: unit) t. t = s\<lparr>trace := trace t, NextPacketPointer := NextPacketPointer t,
     link_status := link_status t, txbusy := txbusy t\<rparr>)"
  have "wp (enc424j600_spi_start E) Q H s"
    unfolding enc424j600_spi_start_def seqM.simps wp_thenM wp_bindM
    by (rule q [THEN wp_quiet]
        | simp only: prod.case simp_thms wp_thenM wp_bindM wp_modify wp_calls wp_ret wp_gets wp_if wp_whenM split: if_split
        | intro conjI impI
        | simp add: Q_def)+
  then show ?thesis unfolding Q_def .
qed

lemma wp_spi_init:
  assumes "timer_runs E"
  shows "wp (enc424j600_spi_init E) (\<lambda>err t. err = 0 \<and> length (netif_hwaddr t) = 6 \<and> netif_mtu t = 1500 \<and>
      netif_flags t = netif_flags s OR NETIF_FLAG_ETHARP \<and>
      t = s\<lparr>trace := trace t, NextPacketPointer := NextPacketPointer t, link_status := link_status t, txbusy := txbusy t,
        hwaddr := hwaddr t, netif_hwaddr := netif_hwaddr t, netif_mtu := netif_mtu t, netif_flags := netif_flags t\<rparr>)
    (\<lambda>h t. h \<in> start_messages) s"
  (is "wp _ ?Q _ _")
proof -
  have start: "wp (enc424j600_spi_start E) (\<lambda>_ t. t = u\<lparr>trace := trace t, NextPacketPointer := NextPacketPointer t,
     link_status := link_status t, txbusy := txbusy t\<rparr>) (\<lambda>h t. h \<in> start_messages) u" for u :: "'a enc_state_scheme"
    by (rule wp_spi_start)
  show ?thesis
    unfolding enc424j600_spi_init_def wp_thenM wp_modify wp_ret
  proof (rule wp_mono [OF wp_hw_init [OF assms]])
    fix x :: unit and t assume "length (hwaddr t) = 6 \<and> t = s\<lparr>trace := trace t, hwaddr := hwaddr t\<rparr>"
    then obtain tr ha where t: "t = s\<lparr>trace := tr, hwaddr := ha\<rparr>" "length ha = 6" by blast
    show "wp (enc424j600_spi_start E) (\<lambda>_ u. ?Q 0 (u\<lparr>netif_hwaddr := hwaddr u, netif_mtu := 1500, netif_flags := netif_flags u OR NETIF_FLAG_ETHARP\<rparr>))
      (\<lambda>h t. h \<in> start_messages) t"
    proof (rule wp_mono [OF start])
      fix x :: unit and u assume "u = t\<lparr>trace := trace u, NextPacketPointer := NextPacketPointer u, link_status := link_status u, txbusy := txbusy u\<rparr>"
      then obtain tr np l b where "u = t\<lparr>trace := tr, NextPacketPointer := np, link_status := l, txbusy := b\<rparr>" by blast
      then show "?Q 0 (u\<lparr>netif_hwaddr := hwaddr u, netif_mtu := 1500, netif_flags := netif_flags u OR NETIF_FLAG_ETHARP\<rparr>)"
        using t by simp
    qed
  qed simp
qed



lemma wp_MAC_update:
  "wp (bindM (unbanked_read E ENC424J600_MACON2_U 2) (\<lambda>aux.
        thenM (unbanked_write E ENC424J600_WRITECRU ENC424J600_MACON2_U [f aux, aux ! 1])
              (unbanked_write E ENC424J600_WRITECRU ENC424J600_MABBIPG_U [gap, 0])))
     (\<lambda>_ t. \<exists>aux. enc_step [[ENC424J600_READCRU, ENC424J600_MACON2_U, 0, 0],
        [ENC424J600_WRITECRU, ENC424J600_MACON2_U, f aux, aux ! 1], [ENC424J600_WRITECRU, ENC424J600_MABBIPG_U, gap, 0]] s t)
     (\<lambda>_ _. False) s"
proof (unfold wp_bindM, rule wp_unbanked_read, simp, unfold wp_thenM, rule wp_unbanked_write)
  have ne: "ENC424J600_WRITECRU \<noteq> ENC424J600_READCRU" by (simp add: enc_consts)
  show "ENC424J600_WRITECRU \<noteq> ENC424J600_READCRU" by (rule ne)
  fix aux :: "u8 list" and t u
  assume 1: "enc_step [ENC424J600_READCRU # ENC424J600_MACON2_U # replicate 2 0] s t"
    and 2: "enc_step [[ENC424J600_WRITECRU, ENC424J600_MACON2_U, f aux, aux ! 1]] t u"
  show "wp (unbanked_write E ENC424J600_WRITECRU ENC424J600_MABBIPG_U [gap, 0])
     (\<lambda>_ t. \<exists>aux. enc_step [[ENC424J600_READCRU, ENC424J600_MACON2_U, 0, 0],
        [ENC424J600_WRITECRU, ENC424J600_MACON2_U, f aux, aux ! 1], [ENC424J600_WRITECRU, ENC424J600_MABBIPG_U, gap, 0]] s t)
     (\<lambda>_ _. False) u"
  proof (rule wp_unbanked_write [OF _ ne], simp)
    fix v assume 3: "enc_step [[ENC424J600_WRITECRU, ENC424J600_MABBIPG_U, gap, 0]] u v"
    show "\<exists>aux. enc_step [[ENC424J600_READCRU, ENC424J600_MACON2_U, 0, 0],
        [ENC424J600_WRITECRU, ENC424J600_MACON2_U, f aux, aux ! 1], [ENC424J600_WRITECRU, ENC424J600_MABBIPG_U, gap, 0]] s v"
      using enc_step_trans [OF 1 enc_step_trans [OF 2 3]] by (auto simp: numeral_2_eq_2)
  qed
qed simp

text \<open>
  The MAC set-up after a link change: the driver reads MACON2 and writes it back with the
  duplex bit set and the full-duplex gap when the link is full duplex. When it is half duplex
  the low byte written back is 0 whatever was read, so the CRC generation and padding that
  \<^verbatim>\<open>hw_init\<close> enabled in the same byte are switched off.
\<close>

theorem set_MAC_frames:
  "\<exists>lo hi es. set_MAC E st s = Ret () (s\<lparr>trace := trace s @ es\<rparr>) \<and>
     enc_bus None es = (None,
       [[ENC424J600_READCRU, ENC424J600_MACON2_U, 0, 0],
        [ENC424J600_WRITECRU, ENC424J600_MACON2_U,
           if st AND ENC424J600_PHYDPX \<noteq> 0 then lo OR ENC424J600_FULDPX else 0, hi],
        [ENC424J600_WRITECRU, ENC424J600_MABBIPG_U, if st AND ENC424J600_PHYDPX \<noteq> 0 then 0x15 else 0x12, 0]])"
proof (cases "st AND ENC424J600_PHYDPX = 0")
  case True
  have z: "b AND (if ENC424J600_FULDPX \<noteq> 0 then 0 else 1) = 0" for b :: u8
    by (simp add: enc_consts)
  show ?thesis
    using wp_MAC_update [of E "\<lambda>_. 0" "0x12" s] True unfolding set_MAC_def z
    by (auto simp: wp_total_ex enc_ext_def)
next
  case False
  then show ?thesis
    using wp_MAC_update [of E "\<lambda>aux. aux ! 0 OR ENC424J600_FULDPX" "0x15" s] unfolding set_MAC_def
    by (auto simp: wp_total_ex enc_ext_def)
qed

end
