(* ===== verification/Dac.thy ===== *)
theory Dac
  imports Hardware CText
begin

text \<open>
  The DAC driver of dac.c: register access over I2C, volume, mute and the power-up
  sequence. The register file of the chip is read off the trace, so the lemmas speak of
  the values the chip ends up with. Every transfer is a busy wait on the I2C state
  machine.
\<close>

section \<open>Constants\<close>

definition DAC_ADDRESS :: u16 where "DAC_ADDRESS = 0x98"

definition REG_CHIP_ID :: u8 where "REG_CHIP_ID = 1"

definition REG_VOL_MIX_INV :: u8 where "REG_VOL_MIX_INV = 3"

definition REG_MUTE_CTRL :: u8 where "REG_MUTE_CTRL = 4"

definition REG_VOLUME_A :: u8 where "REG_VOLUME_A = 5"

definition REG_MISC_CTRL :: u8 where "REG_MISC_CTRL = 8"

definition CHIP_ID :: u8 where "CHIP_ID = 0x70"

definition REV_MASK :: u8 where "REV_MASK = 0x7"

lemmas dac_consts = DAC_ADDRESS_def REG_CHIP_ID_def REG_VOL_MIX_INV_def REG_MUTE_CTRL_def
  REG_VOLUME_A_def REG_MISC_CTRL_def CHIP_ID_def REV_MASK_def

section \<open>Transfers\<close>

text \<open>
  \<^verbatim>\<open>I2C_TransferInit\<close> followed by \<^verbatim>\<open>while (ret == i2cTransferInProgress) ret = I2C_Transfer(..)\<close>.
\<close>

definition i2c_round :: "env \<Rightarrow> ('z hw_scheme, bool) prog" where
  "i2c_round E =
     bindM (gets (\<lambda>s. env_i2c_busy E (trace s))) (\<lambda>busy.
       if busy then thenM (emit I2cPoll) (ret False) else ret True)"

definition i2c_transfer :: "env \<Rightarrow> i2c_flag \<Rightarrow> u8 list \<Rightarrow> ('z hw_scheme, unit) prog" where
  "i2c_transfer E flag buf =
     thenM (emit (I2cStart DAC_ADDRESS flag buf)) (pollM (env_fuel E) (i2c_round E))"

definition dacWriteReg :: "env \<Rightarrow> u8 \<Rightarrow> u8 \<Rightarrow> ('z hw_scheme, unit) prog" where
  "dacWriteReg E reg v = i2c_transfer E I2C_FLAG_WRITE [reg, v]"

definition dacReadReg :: "env \<Rightarrow> u32 \<Rightarrow> ('z hw_scheme, u8) prog" where
  "dacReadReg E reg =
     thenM (i2c_transfer E I2C_FLAG_WRITE [ucast reg])
       (thenM (i2c_transfer E I2C_FLAG_READ [0])
         (gets (\<lambda>s. env_i2c_rx E (trace s))))"

definition dacSetVolume :: "env \<Rightarrow> u8 \<Rightarrow> ('z hw_scheme, unit) prog" where
  "dacSetVolume E vol = dacWriteReg E REG_VOLUME_A vol"

definition dacMute :: "env \<Rightarrow> bool \<Rightarrow> ('z hw_scheme, unit) prog" where
  "dacMute E on = (if on then dacWriteReg E REG_MUTE_CTRL 0xf8 else dacWriteReg E REG_MUTE_CTRL 0xe0)"

definition dacInit :: "env \<Rightarrow> u8 \<Rightarrow> ('z hw_scheme, unit) prog" where
  "dacInit E startVol =
     seqM [
       ext_call ''CMU_ClockEnable(cmuClock_I2C0)'' [1],
       GPIO_PinModeSet gpioPortE 15 gpioModePushPull 1,
       GPIO_PinModeSet gpioPortA 1 gpioModeWiredAndPullUpFilter 1,
       GPIO_PinModeSet gpioPortA 0 gpioModeWiredAndPullUpFilter 1,
       ext_call ''I2C0->ROUTE = I2C_ROUTE_SDAPEN | I2C_ROUTE_SCLPEN'' [],
       ext_call ''I2C_Init'' [],
       dacWriteReg E REG_MISC_CTRL 0xc0,
       bindM (dacReadReg E (ucast REG_CHIP_ID)) (\<lambda>version.
         thenM (whenM (version AND NOT REV_MASK \<noteq> CHIP_ID) (panic ''Can't find DAC''))
           (printf (''DAC revision '' @ dec_int (uint (version AND REV_MASK)) @ ''\<newline>''))),
       dacWriteReg E REG_MUTE_CTRL 0xe0,
       dacWriteReg E REG_VOL_MIX_INV 0x89,
       printf (''Setting initial volume to '' @ dec_int (uint startVol) @ ''\<newline>''),
       dacSetVolume E startVol,
       dacWriteReg E REG_MISC_CTRL 0x40]"

section \<open>The register file\<close>

definition dac_write_of :: "io \<Rightarrow> (u8 \<times> u8) option" where
  "dac_write_of e =
     (case e of
        I2cStart a I2C_FLAG_WRITE [r, v] \<Rightarrow> if a = DAC_ADDRESS then Some (r, v) else None
      | _ \<Rightarrow> None)"

fun dac_regs :: "(u8 \<rightharpoonup> u8) \<Rightarrow> io list \<Rightarrow> (u8 \<rightharpoonup> u8)" where
  "dac_regs m [] = m"
| "dac_regs m (e # es) =
     dac_regs (case dac_write_of e of Some (r, v) \<Rightarrow> m(r \<mapsto> v) | None \<Rightarrow> m) es"

definition dac_file :: "io list \<Rightarrow> (u8 \<rightharpoonup> u8)" where
  "dac_file tr = dac_regs Map.empty tr"

lemma dac_regs_append [simp]: "dac_regs m (xs @ ys) = dac_regs (dac_regs m xs) ys"
  by (induction xs arbitrary: m) simp_all

lemma dac_regs_frame: "(\<forall>e \<in> set es. dac_write_of e = None) \<Longrightarrow> dac_regs m es = m"
  by (induction es) simp_all

lemma dac_file_append: "dac_file (xs @ ys) = dac_regs (dac_file xs) ys"
  by (simp add: dac_file_def)

section \<open>Transfers end\<close>

text \<open>
  The I2C controller finishes every transfer within the number of polls the model
  allows. The driver relies on it: there is no timeout in the code.
\<close>

definition i2c_responds :: "env \<Rightarrow> bool" where
  "i2c_responds E \<longleftrightarrow> (\<forall>tr. \<exists>n < env_fuel E. \<not> env_i2c_busy E (tr @ replicate n I2cPoll))"

lemma i2c_poll_run:
  assumes "\<not> env_i2c_busy E (trace s @ replicate n I2cPoll)" and "n < fuel"
  shows "\<exists>k. pollM fuel (i2c_round E) s = Ret () (s\<lparr>trace := trace s @ replicate k I2cPoll\<rparr>)"
  using assms
proof (induction n arbitrary: fuel s)
  case 0
  obtain f where f: "fuel = Suc f" using 0 by (cases fuel) auto
  have "pollM fuel (i2c_round E) s = Ret () (s\<lparr>trace := trace s @ replicate 0 I2cPoll\<rparr>)"
    using 0 by (simp add: f i2c_round_def bindM_def)
  then show ?case by blast
next
  case (Suc n)
  obtain f where f: "fuel = Suc f" using Suc by (cases fuel) auto
  show ?case
  proof (cases "env_i2c_busy E (trace s)")
    case False
    then have "pollM fuel (i2c_round E) s = Ret () (s\<lparr>trace := trace s @ replicate 0 I2cPoll\<rparr>)"
      by (simp add: f i2c_round_def bindM_def)
    then show ?thesis by blast
  next
    case True
    let ?s = "s\<lparr>trace := trace s @ [I2cPoll]\<rparr>"
    have "\<not> env_i2c_busy E (trace ?s @ replicate n I2cPoll)"
      using Suc.prems by simp
    then obtain k where k: "pollM f (i2c_round E) ?s = Ret () (?s\<lparr>trace := trace ?s @ replicate k I2cPoll\<rparr>)"
      using Suc.IH [of ?s f] Suc.prems f by auto
    have "pollM fuel (i2c_round E) s = pollM f (i2c_round E) ?s"
      using True by (simp add: f i2c_round_def bindM_def thenM_def)
    with k have "pollM fuel (i2c_round E) s = Ret () (s\<lparr>trace := trace s @ replicate (Suc k) I2cPoll\<rparr>)"
      by simp
    then show ?thesis by blast
  qed
qed

lemma i2c_transfer_run:
  assumes "i2c_responds E"
  shows "\<exists>k. i2c_transfer E flag buf s =
    Ret () (s\<lparr>trace := trace s @ I2cStart DAC_ADDRESS flag buf # replicate k I2cPoll\<rparr>)"
proof -
  let ?s = "s\<lparr>trace := trace s @ [I2cStart DAC_ADDRESS flag buf]\<rparr>"
  obtain n where "n < env_fuel E" "\<not> env_i2c_busy E (trace ?s @ replicate n I2cPoll)"
    using assms unfolding i2c_responds_def by blast
  then obtain k where "pollM (env_fuel E) (i2c_round E) ?s = Ret () (?s\<lparr>trace := trace ?s @ replicate k I2cPoll\<rparr>)"
    using i2c_poll_run [of E ?s n "env_fuel E"] by blast
  then show ?thesis by (auto simp: i2c_transfer_def)
qed

text \<open>Total correctness of a register write, in the form the callers use.\<close>

lemma wp_dacWriteReg:
  assumes "i2c_responds E"
    and "\<And>k. Q () (s\<lparr>trace := trace s @ I2cStart DAC_ADDRESS I2C_FLAG_WRITE [r, v] # replicate k I2cPoll\<rparr>)"
  shows "wp (dacWriteReg E r v) Q H s"
  using i2c_transfer_run [OF assms(1), of I2C_FLAG_WRITE "[r, v]" s] assms(2)
  by (auto simp: dacWriteReg_def wp_def)

text \<open>
  The effect of a register write on what the trace says: the register file, no pin, and
  the rest of the state untouched.
\<close>

definition dac_step :: "(u8 \<times> u8) list \<Rightarrow> io list \<Rightarrow> io list \<Rightarrow> bool" where
  "dac_step ws tr tr' \<longleftrightarrow>
     (\<exists>es. tr' = tr @ es \<and> (\<forall>m. dac_regs m es = m ++ map_of (rev ws)) \<and>
           (\<forall>e \<in> set es. \<exists>b. e = I2cPoll \<or> e = I2cStart DAC_ADDRESS I2C_FLAG_WRITE b))"

lemma dac_step_pins: "dac_step ws tr tr' \<Longrightarrow> pin_out p b tr' = pin_out p b tr"
  by (auto simp: dac_step_def pin_effect_def intro!: pin_out_frame split: io.splits)

lemma dac_step_file: "dac_step ws tr tr' \<Longrightarrow> dac_file tr' = dac_file tr ++ map_of (rev ws)"
  by (auto simp: dac_step_def dac_file_append)

lemma dac_step_Nil: "dac_step [] tr tr"
  by (simp add: dac_step_def)

lemma dac_step_trans: "dac_step ws tr tr' \<Longrightarrow> dac_step vs tr' tr'' \<Longrightarrow> dac_step (ws @ vs) tr tr''"
  unfolding dac_step_def
proof (elim exE conjE)
  fix es fs
  assume 1: "tr' = tr @ es" "tr'' = tr' @ fs"
    "\<forall>m. dac_regs m es = m ++ map_of (rev ws)" "\<forall>m. dac_regs m fs = m ++ map_of (rev vs)"
    "\<forall>e \<in> set es. \<exists>b. e = I2cPoll \<or> e = I2cStart DAC_ADDRESS I2C_FLAG_WRITE b"
    "\<forall>e \<in> set fs. \<exists>b. e = I2cPoll \<or> e = I2cStart DAC_ADDRESS I2C_FLAG_WRITE b"
  then show "\<exists>es. tr'' = tr @ es \<and> (\<forall>m. dac_regs m es = m ++ map_of (rev (ws @ vs))) \<and>
      (\<forall>e \<in> set es. \<exists>b. e = I2cPoll \<or> e = I2cStart DAC_ADDRESS I2C_FLAG_WRITE b)"
    by (intro exI [of _ "es @ fs"]) (auto simp: map_add_assoc)
qed

lemma dacWriteReg_step:
  assumes "i2c_responds E"
  shows "\<exists>tr. dacWriteReg E r v s = Ret () (s\<lparr>trace := tr\<rparr>) \<and> dac_step [(r, v)] (trace s) tr"
proof -
  obtain k where k: "dacWriteReg E r v s =
      Ret () (s\<lparr>trace := trace s @ I2cStart DAC_ADDRESS I2C_FLAG_WRITE [r, v] # replicate k I2cPoll\<rparr>)"
    using i2c_transfer_run [OF assms] unfolding dacWriteReg_def by blast
  have "dac_regs m (I2cStart DAC_ADDRESS I2C_FLAG_WRITE [r, v] # replicate k I2cPoll) = m ++ map_of [(r, v)]" for m
    by (simp add: dac_write_of_def dac_regs_frame)
  then have "dac_step [(r, v)] (trace s)
      (trace s @ I2cStart DAC_ADDRESS I2C_FLAG_WRITE [r, v] # replicate k I2cPoll)"
    unfolding dac_step_def by (auto intro!: exI [of _ "I2cStart DAC_ADDRESS I2C_FLAG_WRITE [r, v] # replicate k I2cPoll"])
  with k show ?thesis by blast
qed

end
