(* ===== verification/Fpga.thy ===== *)
theory Fpga
  imports Hardware CText
begin

text \<open>
  The FPGA driver of fpga.c: two-byte commands over SPI framed by the chip-select pin,
  and the start-up sequence that waits for configuration and checks the magic number.
  What the FPGA is told is read off the trace as the list of complete frames.
\<close>

definition CMD_MAGIC :: u8 where "CMD_MAGIC = 0x01"

definition CMD_SOURCE :: u8 where "CMD_SOURCE = 0x02"

definition CMD_GAIN :: u8 where "CMD_GAIN = 0x03"

definition MAGIC :: u8 where "MAGIC = 0xad"

text \<open>The chip-select pin, the USART and the other pins, from asd_pre_1.h.\<close>

abbreviation FPGA_USART :: usart where "FPGA_USART \<equiv> USART2"

abbreviation FPGA_CS_PORT :: gpio_port where "FPGA_CS_PORT \<equiv> gpioPortA"

abbreviation FPGA_CS_BIT :: nat where "FPGA_CS_BIT \<equiv> 3"

section \<open>Operations\<close>

definition fpgaSelectSource :: "env \<Rightarrow> u8 \<Rightarrow> ('z hw_scheme, unit) prog" where
  "fpgaSelectSource E src =
     thenM (printf (''Source '' @ dec_int (uint src) @ ''\<newline>''))
    (thenM (GPIO_PinOutClear FPGA_CS_PORT FPGA_CS_BIT)
    (thenM (USART_SpiTransfer E FPGA_USART CMD_SOURCE)
    (thenM (USART_SpiTransfer E FPGA_USART src)
           (GPIO_PinOutSet FPGA_CS_PORT FPGA_CS_BIT))))"

definition fpgaSetGain :: "env \<Rightarrow> u8 \<Rightarrow> ('z hw_scheme, unit) prog" where
  "fpgaSetGain E gn =
     thenM (GPIO_PinOutClear FPGA_CS_PORT FPGA_CS_BIT)
    (thenM (USART_SpiTransfer E FPGA_USART CMD_GAIN)
    (thenM (USART_SpiTransfer E FPGA_USART gn)
           (GPIO_PinOutSet FPGA_CS_PORT FPGA_CS_BIT)))"

definition readMagic :: "env \<Rightarrow> ('z hw_scheme, u8) prog" where
  "readMagic E =
     thenM (GPIO_PinOutClear FPGA_CS_PORT FPGA_CS_BIT)
    (thenM (USART_SpiTransfer E FPGA_USART CMD_MAGIC)
    (bindM (USART_SpiTransfer E FPGA_USART 0) (\<lambda>rx.
     thenM (GPIO_PinOutSet FPGA_CS_PORT FPGA_CS_BIT) (ret rx))))"

definition fpgaInit :: "env \<Rightarrow> u8 \<Rightarrow> u8 \<Rightarrow> ('z hw_scheme, unit) prog" where
  "fpgaInit E src gn =
     seqM [
       GPIO_PinModeSet gpioPortC 5 gpioModeInput 0,
       GPIO_PinModeSet gpioPortA 4 gpioModePushPull 1,
       GPIO_PinModeSet gpioPortA 5 gpioModeInput 0,
       pollM (env_fuel E) (GPIO_PinInGet E gpioPortA 5),
       GPIO_PinModeSet gpioPortC 2 gpioModePushPull 1,
       GPIO_PinModeSet gpioPortC 3 gpioModeInput 0,
       GPIO_PinModeSet gpioPortC 4 gpioModePushPull 0,
       GPIO_PinModeSet FPGA_CS_PORT FPGA_CS_BIT gpioModePushPull 1,
       ext_call ''USART_Reset(FPGA_USART)'' [],
       ext_call ''CMU_ClockEnable(FPGA_USART_CLK)'' [1],
       ext_call ''USART_InitSync(FPGA_USART, baudrate, msbf)'' [12000000, 1],
       ext_call ''FPGA_USART->ROUTE location'' [],
       ext_call ''FPGA_USART->ROUTE |= TXPEN | RXPEN | CLKPEN'' [],
       bindM (readMagic E) (\<lambda>magic.
         thenM (printf ''Got FPGA magic number\<newline>'')
           (whenM (magic \<noteq> MAGIC) (panic (''Incorrect FPGA magic number '' @ [CHR 0x27] @ hex_nat (unat magic) @ [CHR 0x27])))),
       fpgaSelectSource E src,
       fpgaSetGain E gn]"

section \<open>Frames seen by the FPGA\<close>

abbreviation fpga_bus :: "u8 list option \<Rightarrow> io list \<Rightarrow> u8 list option \<times> u8 list list" where
  "fpga_bus \<equiv> bus FPGA_CS_PORT FPGA_CS_BIT FPGA_USART"

text \<open>The calls of one command: select, opcode, argument, release.\<close>

definition frame_calls :: "u8 \<Rightarrow> u8 \<Rightarrow> u8 \<Rightarrow> u8 \<Rightarrow> io list" where
  "frame_calls tx1 rx1 tx2 rx2 =
     [PinClear FPGA_CS_PORT FPGA_CS_BIT, Spi FPGA_USART tx1 rx1, Spi FPGA_USART tx2 rx2,
      PinSet FPGA_CS_PORT FPGA_CS_BIT]"

lemma frame_calls_bus: "fpga_bus None (frame_calls a b c d) = (None, [[a, c]])"
  by (simp add: frame_calls_def bus_step_def)

lemma fpgaSelectSource_run:
  "\<exists>r1 r2. fpgaSelectSource E src s =
     Ret () (s\<lparr>trace := trace s @ Printf (''Source '' @ dec_int (uint src) @ ''\<newline>'') # frame_calls CMD_SOURCE r1 src r2\<rparr>)"
  by (simp add: fpgaSelectSource_def frame_calls_def thenM_def bindM_def) (intro exI, rule refl)

lemma fpgaSetGain_run:
  "\<exists>r1 r2. fpgaSetGain E gn s = Ret () (s\<lparr>trace := trace s @ frame_calls CMD_GAIN r1 gn r2\<rparr>)"
  by (simp add: fpgaSetGain_def frame_calls_def thenM_def bindM_def) (intro exI, rule refl)

text \<open>What the FPGA driver does to the trace: one frame, and no other pin.\<close>

lemma frame_calls_pins: "(p, b) \<noteq> (FPGA_CS_PORT, FPGA_CS_BIT) \<Longrightarrow> e \<in> set (frame_calls a c d f) \<Longrightarrow> pin_effect p b e = None"
  by (auto simp: frame_calls_def)

end
