(* ===== verification/Swo.thy ===== *)
theory Swo
  imports Hardware CText
begin

text \<open>
  The debug console of swo.c: \<^verbatim>\<open>_write\<close>, which the C library calls for the output of
  \<^verbatim>\<open>printf\<close>, and the set-up of the serial wire output. The part is an EFM32 Giant Gecko
  (PART in the Makefile), so the first branch of the conditional compilation is the one
  that is built.
\<close>

text \<open>\<^verbatim>\<open>_write\<close>: the first \<open>len\<close> bytes go out one by one; the return value is \<open>len\<close>.\<close>

definition ITM_SendChar :: "char \<Rightarrow> ('z hw_scheme, unit) prog" where
  "ITM_SendChar c = ext_call ''ITM_SendChar'' [int (of_char c)]"

fun swo_send :: "string \<Rightarrow> nat \<Rightarrow> nat \<Rightarrow> ('z hw_scheme, unit) prog" where
  "swo_send str i 0 = ret ()"
| "swo_send str i (Suc n) = thenM (ITM_SendChar (str ! i)) (swo_send str (Suc i) n)"

definition swo_write :: "string \<Rightarrow> nat \<Rightarrow> ('z hw_scheme, nat) prog" where
  "swo_write str len = thenM (swo_send str 0 len) (ret len)"

definition swoInit :: "env \<Rightarrow> ('z hw_scheme, unit) prog" where
  "swoInit E =
     seqM [
       ext_call ''GPIO->ROUTE |= GPIO_ROUTE_SWOPEN'' [],
       ext_call ''GPIO->ROUTE SWLOCATION = LOC0'' [],
       ext_call ''GPIO->P[5].MODEL &= ~MODE2_MASK'' [],
       ext_call ''GPIO->P[5].MODEL |= MODE2_PUSHPULL'' [],
       ext_call ''CMU->OSCENCMD = AUXHFRCOEN'' [],
       wait_flag E ''CMU->STATUS & CMU_STATUS_AUXHFRCORDY'',
       ext_call ''CoreDebug->DEMCR |= TRCENA'' [],
       reg_set ''ITM->LAR'' 0xC5ACCE55,
       reg_set ''ITM->TER'' 0x0,
       reg_set ''ITM->TCR'' 0x0,
       reg_set ''TPI->SPPR'' 2,
       reg_set ''TPI->ACPR'' 0xf,
       reg_set ''ITM->TPR'' 0x0,
       reg_set ''DWT->CTRL'' 0x400003FE,
       reg_set ''ITM->TCR'' 0x0001000D,
       reg_set ''TPI->FFCR'' 0x00000100,
       reg_set ''ITM->TER'' 0x1]"

text \<open>The console shows exactly the bytes it was given, in order.\<close>

lemma swo_send_run:
  "i + n \<le> length str \<Longrightarrow> swo_send str i n s =
     Ret () (s\<lparr>trace := trace s @ map (\<lambda>c. Ext ''ITM_SendChar'' [int (of_char c)]) (take n (drop i str))\<rparr>)"
proof (induction n arbitrary: i s)
  case (Suc n)
  then have "take (Suc n) (drop i str) = str ! i # take n (drop (Suc i) str)"
    by (simp add: take_Suc_conv_app_nth Cons_nth_drop_Suc [symmetric])
  with Suc show ?case by (simp add: ITM_SendChar_def thenM_def bindM_def)
qed simp

end
