(* ===== verification/Preamp.thy ===== *)
theory Preamp
  imports Enc424 Config Dac Fpga Swo DiskIo
begin

text \<open>
  The operations of main.c on the preamplifier itself: mute relay, volume with the rotary
  encoder, source and gain selection with their LEDs, the SD card socket, and the delays. The
  globals of main.c extend the state of the drivers. The main function and the interrupt
  handlers are in the theory of the whole firmware.
\<close>

section \<open>Constants and globals\<close>

definition VOL_MAX :: int where "VOL_MAX = 1600"

definition VOL_MIN :: int where "VOL_MIN = 0"

definition VOL_SHIFT :: nat where "VOL_SHIFT = 3"

definition VOL_SLACK :: int where "VOL_SLACK = 100"

definition SOURCES :: int where "SOURCES = 3"

definition MAX_GAIN :: int where "MAX_GAIN = 3"

definition INIT_MUTE_DELAY :: u32 where "INIT_MUTE_DELAY = 2000"

definition MUTE_DELAY :: int where "MUTE_DELAY = 1000"

lemmas preamp_consts [simp] = VOL_MAX_def VOL_MIN_def VOL_SHIFT_def VOL_SLACK_def SOURCES_def
  MAX_GAIN_def INIT_MUTE_DELAY_def MUTE_DELAY_def

text \<open>
  \<^verbatim>\<open>int16_t\<close> and \<^verbatim>\<open>int\<close> globals are integers in the range of their type. The FatFs work area is
  the pair of its registration in the volume table and its type field.
\<close>

record preamp_state = enc_state +
  volume :: int
  last_phase :: int
  dacMuted :: bool
  mute :: bool
  source :: int
  gain :: int
  muteCounter :: int
  msTicks :: u32
  saveSettings :: bool
  init :: bool
  mounted :: bool
  fs_registered :: bool
  fs_type :: u8

abbreviation MUTE_PORT :: gpio_port where "MUTE_PORT \<equiv> gpioPortC"

abbreviation MUTE_BIT :: nat where "MUTE_BIT \<equiv> 12"

abbreviation LED0_PORT :: gpio_port where "LED0_PORT \<equiv> gpioPortF"

abbreviation LED0_BIT :: nat where "LED0_BIT \<equiv> 3"

abbreviation LED1_PORT :: gpio_port where "LED1_PORT \<equiv> gpioPortF"

abbreviation LED1_BIT :: nat where "LED1_BIT \<equiv> 4"

abbreviation LED2_PORT :: gpio_port where "LED2_PORT \<equiv> gpioPortD"

abbreviation LED2_BIT :: nat where "LED2_BIT \<equiv> 7"

abbreviation SOURCE_PORT :: gpio_port where "SOURCE_PORT \<equiv> gpioPortD"

abbreviation SOURCE_BIT :: nat where "SOURCE_BIT \<equiv> 6"

section \<open>Time\<close>

definition SysTick_Handler :: "('z preamp_state_scheme, unit) prog" where
  "SysTick_Handler =
     modify (\<lambda>s. s\<lparr>msTicks := msTicks s + 1,
                   muteCounter := (if muteCounter s > 0 then muteCounter s - 1 else muteCounter s)\<rparr>)"

text \<open>
  A read of the volatile tick counter. The environment says how many timer interrupts were
  taken since the last observable action; in a context where they cannot be taken it says 0.
\<close>

definition read_msTicks :: "env \<Rightarrow> ('z preamp_state_scheme, u32) prog" where
  "read_msTicks E =
     bindM (gets (\<lambda>s. env_ticks E (trace s))) (\<lambda>n.
     thenM (repeatM n SysTick_Handler)
    (bindM (gets msTicks) (\<lambda>v.
     thenM (emit (RegGet ''msTicks'' v)) (ret v))))"

definition msleep :: "env \<Rightarrow> u32 \<Rightarrow> ('z preamp_state_scheme, unit) prog" where
  "msleep E ms =
     bindM (read_msTicks E) (\<lambda>curTicks.
       pollM (env_fuel E) (bindM (read_msTicks E) (\<lambda>now. ret (\<not> now - curTicks < ms))))"

section \<open>Simple set-up functions\<close>

definition spdifInit :: "('z hw_scheme, unit) prog" where
  "spdifInit = GPIO_PinModeSet gpioPortB 8 gpioModePushPull 1"

definition adcInit :: "('z hw_scheme, unit) prog" where
  "adcInit =
     seqM [
       GPIO_PinModeSet gpioPortE 14 gpioModePushPull 1,
       GPIO_PinModeSet gpioPortE 13 gpioModePushPull 0,
       GPIO_PinModeSet gpioPortE 12 gpioModePushPull 0]"

definition GPIO_IntConfig :: "gpio_port \<Rightarrow> nat \<Rightarrow> bool \<Rightarrow> bool \<Rightarrow> bool \<Rightarrow> ('z hw_scheme, unit) prog" where
  "GPIO_IntConfig p b rising falling on =
     ext_call ''GPIO_IntConfig''
       [case p of gpioPortA \<Rightarrow> 0 | gpioPortB \<Rightarrow> 1 | gpioPortC \<Rightarrow> 2 | gpioPortD \<Rightarrow> 3 | gpioPortE \<Rightarrow> 4 | gpioPortF \<Rightarrow> 5,
        int b, of_bool rising, of_bool falling, of_bool on]"

definition paInit :: "('z hw_scheme, unit) prog" where
  "paInit =
     seqM [
       GPIO_PinModeSet MUTE_PORT MUTE_BIT gpioModePushPull 0,
       GPIO_PinModeSet gpioPortC 14 gpioModeInput 0,
       GPIO_PinModeSet gpioPortC 15 gpioModeInput 0,
       GPIO_IntConfig gpioPortC 14 True True True,
       GPIO_IntConfig gpioPortC 15 True True True,
       ext_call ''NVIC_ClearPendingIRQ(GPIO_EVEN_IRQn)'' [],
       ext_call ''NVIC_EnableIRQ(GPIO_EVEN_IRQn)'' [],
       ext_call ''NVIC_ClearPendingIRQ(GPIO_ODD_IRQn)'' [],
       ext_call ''NVIC_EnableIRQ(GPIO_ODD_IRQn)'' [],
       GPIO_PinModeSet SOURCE_PORT SOURCE_BIT gpioModeInputPullFilter 1,
       GPIO_IntConfig SOURCE_PORT SOURCE_BIT False True True,
       GPIO_PinModeSet LED0_PORT LED0_BIT gpioModePushPull 0,
       GPIO_PinModeSet LED1_PORT LED1_BIT gpioModePushPull 0,
       GPIO_PinModeSet LED2_PORT LED2_BIT gpioModePushPull 1]"

section \<open>LEDs, mute and volume\<close>

text \<open>Any other argument falls out of the \<^verbatim>\<open>switch\<close>.\<close>

definition setLed :: "int \<Rightarrow> ('z hw_scheme, unit) prog" where
  "setLed led =
     (if led = 0 then GPIO_PinOutSet LED2_PORT LED2_BIT
      else if led = 1 then GPIO_PinOutClear LED1_PORT LED1_BIT
      else if led = 2 then GPIO_PinOutClear LED0_PORT LED0_BIT
      else ret ())"

definition clearLed :: "int \<Rightarrow> ('z hw_scheme, unit) prog" where
  "clearLed led =
     (if led = 0 then GPIO_PinOutClear LED2_PORT LED2_BIT
      else if led = 1 then GPIO_PinOutSet LED1_PORT LED1_BIT
      else if led = 2 then GPIO_PinOutSet LED0_PORT LED0_BIT
      else ret ())"

definition setMute :: "bool \<Rightarrow> ('z preamp_state_scheme, unit) prog" where
  "setMute newMute =
     thenM (modify (\<lambda>s. s\<lparr>mute := newMute\<rparr>))
    (thenM (GPIO_PinModeSet MUTE_PORT MUTE_BIT gpioModePushPull (if newMute then 0 else 1))
       (if newMute then seqM [clearLed 0, clearLed 1, clearLed 2]
        else bindM (gets source) setLed))"

text \<open>The argument is an \<^verbatim>\<open>int16_t\<close>; the value written to the DAC is cut to eight bits by the call.\<close>

definition setVol :: "env \<Rightarrow> int \<Rightarrow> ('z preamp_state_scheme, unit) prog" where
  "setVol E newVolume =
     thenM (modify (\<lambda>s. s\<lparr>volume := newVolume\<rparr>))
    (thenM (if newVolume \<le> VOL_MIN then dacSetVolume E (word_of_int (drop_bit VOL_SHIFT VOL_MIN))
            else dacSetVolume E (word_of_int (drop_bit VOL_SHIFT newVolume)))
    (bindM (gets dacMuted) (\<lambda>dm.
       if newVolume \<ge> VOL_MAX then
         thenM (dacMute E True) (modify (\<lambda>s. s\<lparr>dacMuted := True\<rparr>))
       else if dm then
         thenM (dacMute E False) (modify (\<lambda>s. s\<lparr>dacMuted := False\<rparr>))
       else ret ())))"

text \<open>The phase of the encoder; the four tests of the source cover all cases.\<close>

definition encoder_phase :: "bool \<Rightarrow> bool \<Rightarrow> int" where
  "encoder_phase a b = (if \<not> a \<and> \<not> b then 0 else if a \<and> \<not> b then 1 else if a \<and> b then 2 else 3)"

text \<open>The two conditional steps of the volume.\<close>

definition turn :: "int \<Rightarrow> int \<Rightarrow> int \<Rightarrow> int" where
  "turn prev phase v =
     (let v1 = (if (prev + 1) mod 4 = phase \<and> v > VOL_MIN - VOL_SLACK then to_int16 (v - 1) else v)
      in if (phase + 1) mod 4 = prev \<and> v1 < VOL_MAX + VOL_SLACK then to_int16 (v1 + 1) else v1)"

definition updateVol :: "env \<Rightarrow> bool \<Rightarrow> bool \<Rightarrow> ('z preamp_state_scheme, unit) prog" where
  "updateVol E a b =
     thenM (modify (\<lambda>s. s\<lparr>volume := turn (last_phase s) (encoder_phase a b) (volume s)\<rparr>))
    (thenM (bindM (gets volume) (setVol E))
           (modify (\<lambda>s. s\<lparr>last_phase := encoder_phase a b\<rparr>)))"

section \<open>Source and gain\<close>

text \<open>
  C's remainder has the sign of the dividend. The FPGA gets the low eight bits.
\<close>

definition setSource :: "env \<Rightarrow> int \<Rightarrow> ('z preamp_state_scheme, unit) prog" where
  "setSource E newSource =
     seqM [
       setMute True,
       repeatM 50 (usleep E 1000),
       modify (\<lambda>s. s\<lparr>muteCounter := MUTE_DELAY\<rparr>),
       bindM (gets source) clearLed,
       modify (\<lambda>s. s\<lparr>source := newSource smod SOURCES\<rparr>),
       bindM (gets source) (\<lambda>src. fpgaSelectSource E (word_of_int src)),
       modify (\<lambda>s. s\<lparr>saveSettings := True\<rparr>),
       bindM (gets source) setLed]"

definition setGain :: "env \<Rightarrow> int \<Rightarrow> ('z preamp_state_scheme, unit) prog" where
  "setGain E newGain =
     seqM [
       modify (\<lambda>s. s\<lparr>gain := newGain smod (MAX_GAIN + 1)\<rparr>),
       bindM (gets gain) (\<lambda>g. fpgaSetGain E (word_of_int g)),
       modify (\<lambda>s. s\<lparr>saveSettings := True\<rparr>)]"

definition INT_SOURCE :: u32 where "INT_SOURCE = 0x40"

definition cycleSource :: "env \<Rightarrow> ('z preamp_state_scheme, unit) prog" where
  "cycleSource E =
     thenM (usleep E 1000)
    (thenM (reg_set ''GPIO_IntClear'' INT_SOURCE)
    (bindM (GPIO_PinInGet E SOURCE_PORT SOURCE_BIT) (\<lambda>released.
       whenM (\<not> released) (bindM (gets source) (\<lambda>src. setSource E (src + 1))))))"

section \<open>The card socket\<close>

datatype fresult = FR_OK | FR_INVALID_DRIVE

text \<open>
  \<^verbatim>\<open>get_ldnumber\<close> of ff.c with one volume, no long names and no string volume ids: a path without
  a colon is drive 0, a path that starts with a digit and a colon is that drive.
\<close>

definition get_ldnumber :: "string option \<Rightarrow> int" where
  "get_ldnumber path =
     (case path of
        None \<Rightarrow> - 1
      | Some p \<Rightarrow>
          (let hd_part = takeWhile (\<lambda>c. (of_char c :: nat) \<ge> 33 \<and> c \<noteq> CHR '':'') p;
               rest = drop (length hd_part) p
           in if rest \<noteq> [] \<and> hd rest = CHR '':'' then
                (if length hd_part = 1 \<and> 48 \<le> (of_char (hd p) :: nat) \<and> (of_char (hd p) :: nat) < 58 \<and>
                    (of_char (hd p) :: nat) - 48 < 1
                 then int ((of_char (hd p) :: nat) - 48) else - 1)
              else 0))"

text \<open>
  \<^verbatim>\<open>f_mount(fs, path, 0)\<close>: without the forced mount of option 1. \<open>fs\<close> says whether the pointer is
  the work area of main.c or null.
\<close>

definition f_mount :: "bool \<Rightarrow> string option \<Rightarrow> ('z preamp_state_scheme, fresult) prog" where
  "f_mount fs path =
     (if get_ldnumber path < 0 then ret FR_INVALID_DRIVE
      else
        bindM (gets fs_registered) (\<lambda>cfs.
        thenM (whenM cfs (modify (\<lambda>s. s\<lparr>fs_type := 0\<rparr>)))
       (thenM (whenM fs (modify (\<lambda>s. s\<lparr>fs_type := 0\<rparr>)))
       (thenM (modify (\<lambda>s. s\<lparr>fs_registered := fs\<rparr>))
              (ret FR_OK)))))"

text \<open>The loop that initialises the card, at most ten times.\<close>

fun mount_retry :: "env \<Rightarrow> nat \<Rightarrow> ('z preamp_state_scheme, unit) prog" where
  "mount_retry E 0 = ret ()"
| "mount_retry E (Suc n) =
     thenM MICROSD_Init
    (bindM (disk_initialize E 0) (\<lambda>resCard.
       if resCard = 0 then ret () else thenM (msleep E 1) (mount_retry E n)))"

definition mountUnmount :: "env \<Rightarrow> ('z preamp_state_scheme, unit) prog" where
  "mountUnmount E =
     bindM (GPIO_PinInGet E gpioPortC 7) (\<lambda>pin.
     bindM (gets mounted) (\<lambda>m.
       let card = \<not> pin in
       if card \<and> m then ret ()
       else if \<not> card \<and> \<not> m then ret ()
       else if card then
         thenM (mount_retry E 10)
        (bindM (f_mount True (Some [])) (\<lambda>res.
         thenM (whenM (res \<noteq> FR_OK)
                  (thenM (printf ''Can not mount card\<newline>'') (modify (\<lambda>s. s\<lparr>mounted := False\<rparr>))))
        (thenM (modify (\<lambda>s. s\<lparr>mounted := True\<rparr>))
               (printf ''Card mounted\<newline>''))))
       else
         thenM (modify (\<lambda>s. s\<lparr>mounted := False\<rparr>))
        (thenM (f_mount False (Some []))
               (printf ''Card unmounted\<newline>''))))"

definition sdInit :: "env \<Rightarrow> ('z preamp_state_scheme, unit) prog" where
  "sdInit E =
     seqM [
       GPIO_PinModeSet gpioPortC 6 gpioModeInputPullFilter 1,
       GPIO_PinModeSet gpioPortC 7 gpioModeInputPullFilter 1,
       GPIO_IntConfig gpioPortC 7 True True True,
       mountUnmount E]"

section \<open>Running the operations\<close>

definition led_calls :: "bool \<Rightarrow> int \<Rightarrow> io list" where
  "led_calls on led =
     (if led = 0 then [if on then PinSet LED2_PORT LED2_BIT else PinClear LED2_PORT LED2_BIT]
      else if led = 1 then [if on then PinClear LED1_PORT LED1_BIT else PinSet LED1_PORT LED1_BIT]
      else if led = 2 then [if on then PinClear LED0_PORT LED0_BIT else PinSet LED0_PORT LED0_BIT]
      else [])"

lemma led_run:
  "setLed led s = Ret () (s\<lparr>trace := trace s @ led_calls True led\<rparr>)"
  "clearLed led s = Ret () (s\<lparr>trace := trace s @ led_calls False led\<rparr>)"
  by (simp_all add: setLed_def clearLed_def led_calls_def)

definition mute_calls :: "bool \<Rightarrow> int \<Rightarrow> io list" where
  "mute_calls on src =
     PinMode MUTE_PORT MUTE_BIT gpioModePushPull (if on then 0 else 1) #
     (if on then led_calls False 0 @ led_calls False 1 @ led_calls False 2 else led_calls True src)"

lemma setMute_run:
  "setMute b s = Ret () (s\<lparr>mute := b, trace := trace s @ mute_calls b (source s)\<rparr>)"
  by (simp add: setMute_def mute_calls_def led_run bindM_run thenM_def)

lemma usleeps_run:
  assumes "timer_runs E" and "us \<le> 21845"
  shows "\<exists>es. repeatM n (usleep E us) s = Ret () (s\<lparr>trace := trace s @ es\<rparr>) \<and> (\<forall>e \<in> set es. is_timer_call e)"
proof (induction n arbitrary: s)
  case 0
  show ?case by (rule exI [of _ "[]"]) simp
next
  case (Suc n)
  obtain es where es: "usleep E us s = Ret () (s\<lparr>trace := trace s @ es\<rparr>)" "\<forall>e \<in> set es. is_timer_call e"
    using usleep_run [OF assms] by blast
  obtain fs where fs: "repeatM n (usleep E us) (s\<lparr>trace := trace s @ es\<rparr>) = Ret () (s\<lparr>trace := trace s @ es @ fs\<rparr>)"
    "\<forall>e \<in> set fs. is_timer_call e"
    using Suc.IH [of "s\<lparr>trace := trace s @ es\<rparr>"] by auto
  then show ?case using es by (intro exI [of _ "es @ fs"]) auto
qed

definition source_calls :: "int \<Rightarrow> u8 \<Rightarrow> u8 \<Rightarrow> io list" where
  "source_calls src r1 r2 =
     Printf (''Source '' @ dec_int (uint (word_of_int src :: u8)) @ ''\<newline>'') #
     frame_calls CMD_SOURCE r1 (word_of_int src) r2 @ led_calls True src"

lemma setSource_run:
  assumes "timer_runs E"
  shows "\<exists>es r1 r2. setSource E n s = Ret () (s\<lparr>mute := True, muteCounter := MUTE_DELAY, source := n smod SOURCES,
      saveSettings := True,
      trace := trace s @ mute_calls True (source s) @ es @ led_calls False (source s) @ source_calls (n smod SOURCES) r1 r2\<rparr>) \<and>
    (\<forall>e \<in> set es. is_timer_call e)"
proof -
  let ?s1 = "s\<lparr>mute := True, trace := trace s @ mute_calls True (source s)\<rparr>"
  obtain es where es: "repeatM 50 (usleep E 1000) ?s1 = Ret () (?s1\<lparr>trace := trace ?s1 @ es\<rparr>)" "\<forall>e \<in> set es. is_timer_call e"
    using usleeps_run [OF assms, of 1000 50 ?s1] by (auto simp: word_le_nat_alt)
  let ?s2 = "s\<lparr>mute := True, muteCounter := MUTE_DELAY,
      trace := trace s @ mute_calls True (source s) @ es @ led_calls False (source s), source := n smod SOURCES\<rparr>"
  obtain r1 r2 where f: "fpgaSelectSource E (word_of_int (n smod SOURCES)) ?s2 =
      Ret () (?s2\<lparr>trace := trace ?s2 @ Printf (''Source '' @ dec_int (uint (word_of_int (n smod SOURCES) :: u8)) @ ''\<newline>'') #
        frame_calls CMD_SOURCE r1 (word_of_int (n smod SOURCES)) r2\<rparr>)"
    using fpgaSelectSource_run [of E "word_of_int (n smod SOURCES)" ?s2] by blast
  show ?thesis
    using es f unfolding setSource_def seqM.simps
    by (rule_tac x = es in exI, rule_tac x = r1 in exI, rule_tac x = r2 in exI)
      (simp add: thenM_Ret [OF setMute_run] led_run source_calls_def del: preamp_consts repeatM.simps)
qed

text \<open>The register writes of a volume change.\<close>

definition vol_byte :: "int \<Rightarrow> u8" where
  "vol_byte v = word_of_int (if v \<le> VOL_MIN then 0 else v div 8)"

definition vol_writes :: "int \<Rightarrow> bool \<Rightarrow> (u8 \<times> u8) list" where
  "vol_writes v dm =
     (REG_VOLUME_A, vol_byte v) #
     (if v \<ge> VOL_MAX then [(REG_MUTE_CTRL, 0xf8)] else if dm then [(REG_MUTE_CTRL, 0xe0)] else [])"

lemma setVol_run:
  assumes "i2c_responds E"
  shows "\<exists>tr. setVol E v s = Ret () (s\<lparr>volume := v, trace := tr, dacMuted := (v \<ge> VOL_MAX)\<rparr>) \<and>
    dac_step (vol_writes v (dacMuted s)) (trace s) tr"
proof -
  let ?s = "s\<lparr>volume := v\<rparr>"
  obtain tr where tr: "dacWriteReg E REG_VOLUME_A (vol_byte v) ?s = Ret () (?s\<lparr>trace := tr\<rparr>)"
    "dac_step [(REG_VOLUME_A, vol_byte v)] (trace s) tr"
    using dacWriteReg_step [OF assms, of REG_VOLUME_A "vol_byte v" ?s] by auto
  have w: "(if v \<le> VOL_MIN then dacSetVolume E (word_of_int (drop_bit VOL_SHIFT VOL_MIN))
      else dacSetVolume E (word_of_int (drop_bit VOL_SHIFT v))) = dacWriteReg E REG_VOLUME_A (vol_byte v)"
    by (simp add: dacSetVolume_def vol_byte_def drop_bit_int_def)
  obtain b where b: "b = (if v \<ge> VOL_MAX then 0xf8 else 0xe0 :: u8)" by simp
  obtain tr' where tr': "dacWriteReg E REG_MUTE_CTRL b (?s\<lparr>trace := tr\<rparr>) = Ret () (?s\<lparr>trace := tr'\<rparr>)"
    "dac_step [(REG_MUTE_CTRL, b)] tr tr'"
    using dacWriteReg_step [OF assms, of REG_MUTE_CTRL b "?s\<lparr>trace := tr\<rparr>"] by auto
  show ?thesis
  proof (cases "v \<ge> VOL_MAX \<or> dacMuted s")
    case True
    then show ?thesis
      using tr tr' b dac_step_trans [OF tr(2) tr'(2)] unfolding setVol_def w
      by (intro exI [of _ tr']) (auto simp: dacMute_def vol_writes_def)
  next
    case False
    then show ?thesis
      using tr unfolding setVol_def w by (intro exI [of _ tr]) (auto simp: vol_writes_def)
  qed
qed

lemma setGain_run:
  "\<exists>r1 r2. setGain E n s = Ret () (s\<lparr>gain := n smod (MAX_GAIN + 1),
      trace := trace s @ frame_calls CMD_GAIN r1 (word_of_int (n smod (MAX_GAIN + 1))) r2, saveSettings := True\<rparr>)"
proof -
  define g where "g = n smod (MAX_GAIN + 1)"
  let ?s = "s\<lparr>gain := g\<rparr>"
  obtain r1 r2 where "fpgaSetGain E (word_of_int g) ?s =
      Ret () (?s\<lparr>trace := trace ?s @ frame_calls CMD_GAIN r1 (word_of_int g) r2\<rparr>)"
    using fpgaSetGain_run [of E "word_of_int g" ?s] by blast
  then have "setGain E n s = Ret () (s\<lparr>gain := g, trace := trace s @ frame_calls CMD_GAIN r1 (word_of_int g) r2, saveSettings := True\<rparr>)"
    unfolding setGain_def seqM.simps g_def [symmetric] by simp
  then show ?thesis unfolding g_def by blast
qed

section \<open>Properties of the volume\<close>

text \<open>The DAC is muted exactly when the firmware believes it is.\<close>

definition dac_ok :: "'z preamp_state_scheme \<Rightarrow> bool" where
  "dac_ok s \<longleftrightarrow> dac_file (trace s) REG_MUTE_CTRL = Some (if dacMuted s then 0xf8 else 0xe0)"

lemma vol_writes_file:
  assumes "m REG_MUTE_CTRL = Some (if dm then 0xf8 else 0xe0)"
  shows "(m ++ map_of (rev (vol_writes v dm))) REG_VOLUME_A = Some (vol_byte v)"
    and "(m ++ map_of (rev (vol_writes v dm))) REG_MUTE_CTRL = Some (if v \<ge> VOL_MAX then 0xf8 else 0xe0)"
  using assms by (auto simp: vol_writes_def map_add_def dac_consts)

text \<open>A complete preamplifier state, used to instantiate the properties.\<close>

definition blank_preamp :: preamp_state where
  "blank_preamp = \<lparr>trace = [I2cStart DAC_ADDRESS I2C_FLAG_WRITE [REG_MUTE_CTRL, 0xe0]], configMem = blank_table,
     flash = [], timeOut = 0, xfersPrMsec = 0,
     dstat = STA_NOINIT, CardType = 0, netif_ip_addr = 0, netif_netmask = 0, netif_gw = 0,
     netif_flags = 0, netif_hwaddr = [], netif_mtu = 0, netif_num = 0, netif_dhcp = False, netif_status_cb = False,
     next_netif_num = 0, netif_listed = False, netif_default = False,
     NextPacketPointer = 0, link_status = False, txbusy = False, hwaddr = [],
     volume = VOL_MAX, last_phase = 0, dacMuted = False, mute = False, source = 0, gain = 0,
     muteCounter = 0, msTicks = 0, saveSettings = False, init = False, mounted = False,
     fs_registered = False, fs_type = 0\<rparr>"

lemma blank_preamp_dac: "dac_ok blank_preamp"
  by (simp add: dac_ok_def blank_preamp_def dac_file_def dac_write_of_def)

lemma ideal_env_i2c: "i2c_responds ideal_env"
  by (auto simp: i2c_responds_def ideal_env_def intro!: exI [of _ 0])

text \<open>
  C14. Setting the volume reaches the DAC: when the I2C bus works, \<^verbatim>\<open>setVol\<close> of any 16-bit value
  returns; the attenuation register holds the value divided by eight (0 for negative values),
  which below \<^verbatim>\<open>VOL_MAX\<close> is not cut by the eight-bit register; the DAC is muted exactly from
  \<^verbatim>\<open>VOL_MAX\<close> on, and the firmware's record of that agrees with the chip; no pin changes.
\<close>

theorem setVol_reaches_dac:
  assumes "i2c_responds E" and "dac_ok s"
  shows "\<exists>tr. setVol E v s = Ret () (s\<lparr>volume := v, trace := tr, dacMuted := (v \<ge> VOL_MAX)\<rparr>) \<and>
    dac_file tr REG_MUTE_CTRL = Some (if v \<ge> VOL_MAX then 0xf8 else 0xe0) \<and>
    dac_file tr REG_VOLUME_A = Some (vol_byte v) \<and>
    (v < VOL_MAX \<longrightarrow> uint (vol_byte v) = max 0 v div 8 \<and> uint (vol_byte v) < 200) \<and>
    (\<forall>p b. pin_out p b tr = pin_out p b (trace s))"
proof -
  obtain tr where tr: "setVol E v s = Ret () (s\<lparr>volume := v, trace := tr, dacMuted := (v \<ge> VOL_MAX)\<rparr>)"
    "dac_step (vol_writes v (dacMuted s)) (trace s) tr"
    using setVol_run [OF assms(1)] by blast
  have "uint (vol_byte v) = max 0 v div 8 \<and> uint (vol_byte v) < 200" if "v < VOL_MAX"
    using that by (auto simp: vol_byte_def uint_word_of_int max_def)
  then show ?thesis
    using tr dac_step_pins [OF tr(2)] dac_step_file [OF tr(2)] vol_writes_file assms(2)
    by (auto simp: dac_ok_def)
qed

theorem setVol_reaches_dac_witness:
  "\<exists>tr. setVol ideal_env 800 blank_preamp = Ret () (blank_preamp\<lparr>volume := 800, trace := tr, dacMuted := False\<rparr>) \<and>
     dac_file tr REG_VOLUME_A = Some (vol_byte 800) \<and> uint (vol_byte 800) = 100"
  using setVol_reaches_dac [OF ideal_env_i2c blank_preamp_dac, of 800] by auto

lemma turn_spec:
  assumes "p \<in> {0..3}" and "q \<in> {0..3}" and "VOL_MIN - VOL_SLACK \<le> v" and "v \<le> VOL_MAX + VOL_SLACK"
  shows "turn p q v =
    (if q = (p + 1) mod 4 then max (VOL_MIN - VOL_SLACK) (v - 1)
     else if p = (q + 1) mod 4 then min (VOL_MAX + VOL_SLACK) (v + 1) else v)"
proof -
  have w: "to_int16 (v - 1) = v - 1" "to_int16 (v + 1) = v + 1"
    using assms(3,4) by (simp_all add: to_int16_id)
  have "p = 0 \<or> p = 1 \<or> p = 2 \<or> p = 3" "q = 0 \<or> q = 1 \<or> q = 2 \<or> q = 3"
    using assms(1,2) by auto
  then show ?thesis
    using assms(3,4) by (elim disjE) (simp_all add: turn_def Let_def w max_def min_def)
qed

lemma encoder_phase_range: "encoder_phase a b \<in> {0..3}"
  by (simp add: encoder_phase_def)

text \<open>
  C7. The rotary encoder: an interrupt with the pins \<open>a\<close>, \<open>b\<close> returns, records the new phase, and
  moves the volume by one step down when the phase advanced by one, by one step up when it went
  back by one, and not at all when it stayed or jumped by two; the volume never leaves the range
  from \<^verbatim>\<open>VOL_MIN - VOL_SLACK\<close> to \<^verbatim>\<open>VOL_MAX + VOL_SLACK\<close>, and the DAC follows it.
\<close>

theorem encoder_moves_volume:
  assumes "i2c_responds E" and "dac_ok s" and "last_phase s \<in> {0..3}"
    and "VOL_MIN - VOL_SLACK \<le> volume s" and "volume s \<le> VOL_MAX + VOL_SLACK"
  shows "\<exists>t. updateVol E a b s = Ret () t \<and> last_phase t = encoder_phase a b \<and> dac_ok t \<and>
    volume t = (if last_phase t = (last_phase s + 1) mod 4 then max (VOL_MIN - VOL_SLACK) (volume s - 1)
                else if last_phase s = (last_phase t + 1) mod 4 then min (VOL_MAX + VOL_SLACK) (volume s + 1)
                else volume s) \<and>
    VOL_MIN - VOL_SLACK \<le> volume t \<and> volume t \<le> VOL_MAX + VOL_SLACK \<and>
    dac_file (trace t) REG_VOLUME_A = Some (vol_byte (volume t)) \<and>
    (dacMuted t \<longleftrightarrow> VOL_MAX \<le> volume t)"
proof -
  let ?q = "encoder_phase a b"
  define v where "v = turn (last_phase s) ?q (volume s)"
  have v: "v = (if ?q = (last_phase s + 1) mod 4 then max (VOL_MIN - VOL_SLACK) (volume s - 1)
                else if last_phase s = (?q + 1) mod 4 then min (VOL_MAX + VOL_SLACK) (volume s + 1) else volume s)"
    unfolding v_def by (rule turn_spec [OF assms(3) encoder_phase_range assms(4,5)])
  obtain tr where tr: "setVol E v (s\<lparr>volume := v\<rparr>) = Ret () (s\<lparr>volume := v, trace := tr, dacMuted := (v \<ge> VOL_MAX)\<rparr>)"
    "dac_step (vol_writes v (dacMuted s)) (trace s) tr"
    using setVol_run [OF assms(1), of v "s\<lparr>volume := v\<rparr>"] by auto
  let ?t = "s\<lparr>volume := v, trace := tr, dacMuted := (v \<ge> VOL_MAX), last_phase := ?q\<rparr>"
  have "updateVol E a b s = Ret () ?t"
    using tr(1) unfolding updateVol_def v_def by simp
  moreover have "dac_file tr REG_VOLUME_A = Some (vol_byte v)" "dac_file tr REG_MUTE_CTRL = Some (if v \<ge> VOL_MAX then 0xf8 else 0xe0)"
    using vol_writes_file dac_step_file [OF tr(2)] assms(2) by (auto simp: dac_ok_def)
  moreover have "VOL_MIN - VOL_SLACK \<le> v" "v \<le> VOL_MAX + VOL_SLACK" using v assms(4,5) by auto
  ultimately show ?thesis using v by (intro exI [of _ ?t]) (simp add: dac_ok_def)
qed

theorem encoder_moves_volume_witness:
  "\<exists>t. updateVol ideal_env True False (blank_preamp\<lparr>volume := 800\<rparr>) = Ret () t \<and> volume t = 799 \<and> last_phase t = 1"
proof -
  have "dac_ok (blank_preamp\<lparr>volume := 800\<rparr>)" using blank_preamp_dac by (simp add: dac_ok_def)
  then show ?thesis
    using encoder_moves_volume [OF ideal_env_i2c, of "blank_preamp\<lparr>volume := 800\<rparr>" True False]
    by (auto simp: blank_preamp_def encoder_phase_def)
qed

section \<open>Properties of mute, source and gain\<close>

definition led_lit :: "int \<Rightarrow> io list \<Rightarrow> bool" where
  "led_lit k tr =
     (if k = 0 then pin_out LED2_PORT LED2_BIT tr = Some True
      else if k = 1 then pin_out LED1_PORT LED1_BIT tr = Some False
      else if k = 2 then pin_out LED0_PORT LED0_BIT tr = Some False
      else False)"

lemma led_calls_pins:
  "pin_level LED2_PORT LED2_BIT l (led_calls on k) = (if k = 0 then Some on else l)"
  "pin_level LED1_PORT LED1_BIT l (led_calls on k) = (if k = 1 then Some (\<not> on) else l)"
  "pin_level LED0_PORT LED0_BIT l (led_calls on k) = (if k = 2 then Some (\<not> on) else l)"
  "pin_level MUTE_PORT MUTE_BIT l (led_calls on k) = l"
  by (auto simp: led_calls_def)

lemma led_lit_calls: "k \<in> {0..2} \<Longrightarrow> led_lit j (tr @ led_calls on k) = (if j = k then on else led_lit j tr)"
  by (auto simp: led_lit_def pin_out_append led_calls_pins)

lemma mute_calls_pins:
  "pin_level MUTE_PORT MUTE_BIT l (mute_calls b src) = Some (\<not> b)"
  "led_lit j (tr @ mute_calls True src) = False"
  by (auto simp: mute_calls_def led_calls_pins led_lit_def pin_out_append)

lemma led_lit_unmute: "k \<in> {0..2} \<Longrightarrow> led_lit j (tr @ mute_calls False k) = (j = k \<or> led_lit j tr)"
  by (auto simp: mute_calls_def led_calls_pins led_lit_def pin_out_append)

lemma timer_pins: "\<forall>e \<in> set es. is_timer_call e \<Longrightarrow> pin_level p b l es = l"
  by (rule pin_level_frame) (auto dest: is_timer_call_pins)

lemma timer_bus: "\<forall>e \<in> set es. is_timer_call e \<Longrightarrow> bus p b u cs es = (cs, [])"
proof (rule bus_frame, intro ballI conjI allI)
  fix e tx rx assume "\<forall>e \<in> set es. is_timer_call e" "e \<in> set es"
  then have "is_timer_call e" by blast
  then show "pin_effect p b e = None" by (rule is_timer_call_pins)
  show "e \<noteq> Spi u tx rx" using \<open>is_timer_call e\<close> by (auto simp: is_timer_call_def)
qed

lemma frame_calls_leds: "led_lit j (tr @ frame_calls a b c d) = led_lit j tr"
  by (simp add: led_lit_def pin_out_append frame_calls_def)

lemma frame_calls_mute: "pin_level MUTE_PORT MUTE_BIT l (frame_calls a b c d) = l"
  by (simp add: frame_calls_def)

text \<open>
  Muting: \<^verbatim>\<open>setMute\<close> always returns; it drives the relay low exactly when it mutes, and low means
  muted; muting turns all three LEDs off, unmuting lights the LED of the current source and
  leaves the others as they are.
\<close>

theorem setMute_outputs:
  "\<exists>tr. setMute b s = Ret () (s\<lparr>mute := b, trace := tr\<rparr>) \<and> pin_out MUTE_PORT MUTE_BIT tr = Some (\<not> b) \<and>
     (\<forall>k. led_lit k tr \<longleftrightarrow> \<not> b \<and> (k = source s \<and> source s \<in> {0..2} \<or> led_lit k (trace s)))"
proof -
  have "led_lit k (trace s @ mute_calls False (source s)) \<longleftrightarrow> k = source s \<and> source s \<in> {0..2} \<or> led_lit k (trace s)" for k
  proof (cases "source s \<in> {0..2}")
    case False
    then have "led_calls True (source s) = []" by (auto simp: led_calls_def)
    then show ?thesis using False by (auto simp: mute_calls_def led_lit_def pin_out_append)
  qed (auto simp: led_lit_unmute)
  then show ?thesis
    using setMute_run [of b s]
    by (cases b) (auto simp: pin_out_append mute_calls_pins)
qed

lemma source_calls_facts:
  "fpga_bus None (source_calls src r1 r2) = (None, [[CMD_SOURCE, word_of_int src]])"
  "pin_level MUTE_PORT MUTE_BIT l (source_calls src r1 r2) = l"
  by (auto simp: source_calls_def frame_calls_def led_calls_def bus_append bus_step_def)

lemma preamp_calls_bus:
  "fpga_bus cs (mute_calls b src) = (cs, [])" "fpga_bus cs (led_calls on k) = (cs, [])"
  by (auto simp: mute_calls_def led_calls_def bus_step_def)

lemma led_lit_append:
  "led_lit k (tr @ es) =
     (if k = 0 then pin_level LED2_PORT LED2_BIT (pin_out LED2_PORT LED2_BIT tr) es = Some True
      else if k = 1 then pin_level LED1_PORT LED1_BIT (pin_out LED1_PORT LED1_BIT tr) es = Some False
      else if k = 2 then pin_level LED0_PORT LED0_BIT (pin_out LED0_PORT LED0_BIT tr) es = Some False
      else False)"
  by (simp add: led_lit_def pin_out_append)

lemma led_lit_timer: "\<forall>e \<in> set es. is_timer_call e \<Longrightarrow> led_lit k (tr @ es) = led_lit k tr"
  by (simp add: led_lit_append timer_pins) (simp add: led_lit_def)

lemma led_lit_off: "\<forall>k. \<not> led_lit k tr \<Longrightarrow> \<not> led_lit k (tr @ led_calls False j)"
proof (cases "j \<in> {0..2}")
  case False
  then have "led_calls False j = []" by (auto simp: led_calls_def)
  then show "\<forall>k. \<not> led_lit k tr \<Longrightarrow> ?thesis" by simp
qed (simp add: led_lit_calls)

lemma led_lit_source:
  "\<forall>k. \<not> led_lit k tr \<Longrightarrow> led_lit k (tr @ source_calls src r1 r2) \<longleftrightarrow> k = src \<and> src \<in> {0..2}"
proof -
  assume dark: "\<forall>k. \<not> led_lit k tr"
  let ?tr = "(tr @ [Printf (''Source '' @ dec_int (uint (word_of_int src :: u8)) @ ''\<newline>'')]) @ frame_calls CMD_SOURCE r1 (word_of_int src) r2"
  have tr: "tr @ source_calls src r1 r2 = ?tr @ led_calls True src" by (simp add: source_calls_def)
  have d: "\<not> led_lit k ?tr" for k
    using spec [OF dark, of k] unfolding frame_calls_leds by (auto simp: led_lit_def pin_out_snoc split: if_splits)
  show "led_lit k (tr @ source_calls src r1 r2) \<longleftrightarrow> k = src \<and> src \<in> {0..2}"
  proof (cases "src \<in> {0..2}")
    case True
    then show ?thesis unfolding tr led_lit_calls [OF True] using d by auto
  next
    case False
    then have "led_calls True src = []" by (auto simp: led_calls_def)
    then show ?thesis unfolding tr using d False by simp
  qed
qed

text \<open>What selecting a source leaves behind, for any argument.\<close>

lemma setSource_post:
  assumes "timer_runs E" and "fpga_bus None (trace s) = (None, fs)"
  shows "\<exists>t. setSource E n s = Ret () t \<and> source t = n smod SOURCES \<and> mute t \<and> muteCounter t = MUTE_DELAY \<and>
    saveSettings t \<and> pin_out MUTE_PORT MUTE_BIT (trace t) = Some False \<and>
    fpga_bus None (trace t) = (None, fs @ [[CMD_SOURCE, word_of_int (source t)]]) \<and>
    (\<forall>k. led_lit k (trace t) \<longleftrightarrow> k = source t \<and> source t \<in> {0..2})"
proof -
  obtain es r1 r2 where r: "setSource E n s = Ret () (s\<lparr>mute := True, muteCounter := MUTE_DELAY, source := n smod SOURCES,
      saveSettings := True,
      trace := trace s @ mute_calls True (source s) @ es @ led_calls False (source s) @ source_calls (n smod SOURCES) r1 r2\<rparr>)"
    and es: "\<forall>e \<in> set es. is_timer_call e"
    using setSource_run [OF assms(1), of n s] by blast
  let ?tr = "((trace s @ mute_calls True (source s)) @ es) @ led_calls False (source s)"
  have "\<not> led_lit k ?tr" for k
    by (rule led_lit_off) (simp add: led_lit_timer [OF es] mute_calls_pins del: append_assoc)
  then have leds: "led_lit k (?tr @ source_calls (n smod SOURCES) r1 r2) \<longleftrightarrow> k = n smod SOURCES \<and> n smod SOURCES \<in> {0..2}" for k
    by (intro led_lit_source) blast
  show ?thesis
    using r leds assms(2)
    by (simp add: bus_append preamp_calls_bus timer_bus [OF es] source_calls_facts pin_out_append mute_calls_pins
        led_calls_pins timer_pins [OF es] del: preamp_consts)
qed

text \<open>
  Selecting a source: for a non-negative argument, \<^verbatim>\<open>setSource\<close> returns with the source reduced
  modulo 3, the FPGA told exactly once in one complete frame, the amplifier muted for the next
  second, the settings marked for saving, and exactly the LED of the new source lit.
\<close>

theorem setSource_selects:
  assumes "timer_runs E" and "fpga_bus None (trace s) = (None, fs)" and "0 \<le> n"
  shows "\<exists>t. setSource E n s = Ret () t \<and> source t = n mod 3 \<and> 0 \<le> source t \<and> source t < SOURCES \<and>
    mute t \<and> pin_out MUTE_PORT MUTE_BIT (trace t) = Some False \<and> muteCounter t = MUTE_DELAY \<and> saveSettings t \<and>
    fpga_bus None (trace t) = (None, fs @ [[CMD_SOURCE, word_of_int (n mod 3)]]) \<and>
    (\<forall>k. led_lit k (trace t) \<longleftrightarrow> k = n mod 3)"
proof -
  have "n smod SOURCES = n mod 3" using assms(3) by (simp add: signed_modulo_int_def sgn_if)
  then show ?thesis using setSource_post [OF assms(1,2), of n] by auto
qed

lemma blank_preamp_bus: "fpga_bus None (trace blank_preamp) = (None, [])"
  by (simp add: blank_preamp_def bus_step_def)

theorem setSource_selects_witness:
  "\<exists>t. setSource ideal_env 5 blank_preamp = Ret () t \<and> source t = 2 \<and> led_lit 2 (trace t)"
  using setSource_selects [OF ideal_env_timer(1) blank_preamp_bus, of 5] by auto

text \<open>
  A negative argument, which the network command can pass, is not brought into range: the
  remainder keeps its sign, so \<^verbatim>\<open>setSource\<close> leaves a negative source, tells the FPGA a source
  number above 253, and lights no LED; \<^verbatim>\<open>setGain\<close> leaves a negative gain in the same way.
\<close>

theorem negative_source_and_gain:
  assumes "timer_runs E" and "fpga_bus None (trace s) = (None, fs)"
  shows "(\<exists>t. setSource E (- 1) s = Ret () t \<and> source t = - 1 \<and>
      fpga_bus None (trace t) = (None, fs @ [[CMD_SOURCE, 255]]) \<and> (\<forall>k. \<not> led_lit k (trace t))) \<and>
    (\<exists>t. setGain E (- 1) s = Ret () t \<and> gain t = - 1 \<and> fpga_bus None (trace t) = (None, fs @ [[CMD_GAIN, 255]]))"
proof
  have "(- 1) smod SOURCES = - 1" "word_of_int (- 1) = (255 :: u8)" by (simp_all add: signed_modulo_int_def)
  then show "\<exists>t. setSource E (- 1) s = Ret () t \<and> source t = - 1 \<and>
      fpga_bus None (trace t) = (None, fs @ [[CMD_SOURCE, 255]]) \<and> (\<forall>k. \<not> led_lit k (trace t))"
    using setSource_post [OF assms, of "- 1"] by auto
  have "(- 1) smod (MAX_GAIN + 1) = - 1" by (simp add: signed_modulo_int_def)
  then show "\<exists>t. setGain E (- 1) s = Ret () t \<and> gain t = - 1 \<and> fpga_bus None (trace t) = (None, fs @ [[CMD_GAIN, 255]])"
    using setGain_run [of E "- 1" s] assms(2) by (auto simp: bus_append frame_calls_bus)
qed

theorem negative_source_and_gain_witness:
  "\<exists>t. setSource ideal_env (- 1) blank_preamp = Ret () t \<and> source t = - 1"
  using negative_source_and_gain [OF ideal_env_timer(1) blank_preamp_bus] by auto

section \<open>Properties of the card socket\<close>

text \<open>A context in which the tick interrupt is not taken, such as an interrupt handler of higher priority.\<close>

definition no_ticks :: "env \<Rightarrow> bool" where
  "no_ticks E \<longleftrightarrow> (\<forall>tr. env_ticks E tr = 0)"

lemma read_msTicks_no_ticks:
  "no_ticks E \<Longrightarrow> read_msTicks E s = Ret (msTicks s) (s\<lparr>trace := trace s @ [RegGet ''msTicks'' (msTicks s)]\<rparr>)"
  by (simp add: read_msTicks_def no_ticks_def)

definition ticks_round :: "env \<Rightarrow> u32 \<Rightarrow> u32 \<Rightarrow> ('z preamp_state_scheme, bool) prog" where
  "ticks_round E cur ms = bindM (read_msTicks E) (\<lambda>now. ret (\<not> now - cur < ms))"

lemma ticks_round_run:
  "no_ticks E \<Longrightarrow> ticks_round E cur ms s =
     Ret (\<not> msTicks s - cur < ms) (s\<lparr>trace := trace s @ [RegGet ''msTicks'' (msTicks s)]\<rparr>)"
  by (simp add: ticks_round_def bindM_Ret [OF read_msTicks_no_ticks])

lemma ticks_poll_hangs:
  assumes "no_ticks E" and "msTicks s = cur" and "0 < ms"
  shows "\<exists>t. pollM n (ticks_round E cur ms) s = Halt Hang t"
  using assms(2)
proof (induction n arbitrary: s)
  case (Suc n)
  then show ?case
    using assms(3) by (simp add: pollM_Suc_run [OF ticks_round_run [OF assms(1)]] del: pollM.simps)
qed simp

lemma msleep_hangs:
  assumes "no_ticks E" and "0 < ms"
  shows "\<exists>t. msleep E ms s = Halt Hang t"
  using ticks_poll_hangs [OF assms(1) _ assms(2), of "s\<lparr>trace := trace s @ [RegGet ''msTicks'' (msTicks s)]\<rparr>" "msTicks s" "env_fuel E"]
  by (simp add: msleep_def bindM_Ret [OF read_msTicks_no_ticks [OF assms(1)]] flip: ticks_round_def)

lemma MICROSD_Init_run:
  "\<exists>es. MICROSD_Init s = Ret () (s\<lparr>xfersPrMsec := MICROSD_LO_SPI_FREQ div 8000, trace := trace s @ es\<rparr>)"
  unfolding MICROSD_Init_def seqM.simps by simp blast

text \<open>
  C20. A dead card stops the firmware when it is inserted after start-up: the socket interrupt
  runs in a context where the tick interrupt is not taken, so if the card does not answer its
  first initialisation, the one-millisecond pause before the next attempt never ends.
\<close>

theorem dead_card_hangs_in_interrupt:
  assumes "no_ticks E" and "sd_silent E" and "dstat s AND STA_NODISK = 0"
    and "\<not> mounted s" and "\<not> env_pin E (trace s) gpioPortC 7"
  shows "\<exists>t. mountUnmount E s = Halt Hang t"
proof -
  let ?s = "s\<lparr>trace := trace s @ [PinGet gpioPortC 7 False]\<rparr>"
  obtain es where i: "MICROSD_Init ?s = Ret () (?s\<lparr>xfersPrMsec := MICROSD_LO_SPI_FREQ div 8000, trace := trace ?s @ es\<rparr>)"
    (is "_ = Ret () ?u") using MICROSD_Init_run by blast
  obtain r t where d: "disk_initialize E 0 ?u = Ret r t" "r AND STA_NOINIT \<noteq> 0"
    using silent_not_ready [OF assms(2), of ?u] assms(3) by auto
  then have "r \<noteq> 0" by auto
  obtain v where "msleep E 1 t = Halt Hang v" using msleep_hangs [OF assms(1), of 1 t] by auto
  then have "mount_retry E 10 ?s = Halt Hang v"
    using i d \<open>r \<noteq> 0\<close> by (simp add: numeral_eq_Suc)
  then show ?thesis using assms(4,5) by (simp add: mountUnmount_def)
qed

definition irq_env :: env where
  "irq_env = ideal_env\<lparr>env_ticks := \<lambda>_. 0, env_pin := \<lambda>_ _ _. False\<rparr>"

theorem dead_card_hangs_in_interrupt_witness: "\<exists>t. mountUnmount irq_env blank_preamp = Halt Hang t"
  using dead_card_hangs_in_interrupt [of irq_env blank_preamp]
  by (simp add: no_ticks_def sd_silent_def irq_env_def ideal_env_def blank_preamp_def STA_NOINIT_def STA_NODISK_def)

lemma f_mount_run: "f_mount fs (Some []) s =
    Ret FR_OK (s\<lparr>fs_type := (if fs_registered s \<or> fs then 0 else fs_type s), fs_registered := fs\<rparr>)"
  by (cases fs; cases "fs_registered s") (simp_all add: f_mount_def get_ldnumber_def whenM_def)

text \<open>
  The socket handler follows the card-detect pin: if the pin agrees with the record nothing
  happens; on removal the work area is unregistered and the card recorded as unmounted; on
  insertion, once the initialisation attempts return, the work area is registered, cleared and
  recorded as mounted, even when every attempt failed.
\<close>

theorem mountUnmount_follows_pin:
  "(if env_pin E (trace s) gpioPortC 7 = (\<not> mounted s) then
      mountUnmount E s = Ret () (s\<lparr>trace := trace s @ [PinGet gpioPortC 7 (env_pin E (trace s) gpioPortC 7)]\<rparr>)
    else if mounted s then
      \<exists>t. mountUnmount E s = Ret () t \<and> \<not> mounted t \<and> \<not> fs_registered t
    else
      case mount_retry E 10 (s\<lparr>trace := trace s @ [PinGet gpioPortC 7 False]\<rparr>) of
        Ret _ t \<Rightarrow> \<exists>u. mountUnmount E s = Ret () u \<and> mounted u \<and> fs_registered u \<and> fs_type u = 0 \<and>
                     dstat u = dstat t \<and> CardType u = CardType t
      | Halt h t \<Rightarrow> mountUnmount E s = Halt h t)"
proof (cases "env_pin E (trace s) gpioPortC 7")
  case True
  then show ?thesis by (simp add: mountUnmount_def bindM_Ret [OF f_mount_run] thenM_Ret [OF f_mount_run])
next
  case False
  then show ?thesis
    by (cases "mount_retry E 10 (s\<lparr>trace := trace s @ [PinGet gpioPortC 7 False]\<rparr>)")
      (simp_all add: mountUnmount_def bindM_Ret [OF f_mount_run])
qed

end
