(* ===== verification/Timers.thy ===== *)
theory Timers
  imports Preamp "HOL-Library.Multiset"
begin

text \<open>
  The timeout list of lwIP (core/timers.c, built with \<^verbatim>\<open>NO_SYS\<close>): a list of timers with relative
  times, the time stamp the first one is relative to, insertion, removal, and the function
  the main loop calls to run the expired ones. \<^verbatim>\<open>sys_now\<close> (platform/sys_arch.c) is the tick counter of main.c. The
  protocol timers \<^verbatim>\<open>tcp_tmr\<close>, \<^verbatim>\<open>etharp_tmr\<close>, \<^verbatim>\<open>dhcp_coarse_tmr\<close> and \<^verbatim>\<open>dhcp_fine_tmr\<close> behind
  the callbacks are calls recorded in the trace.
\<close>

section \<open>The list\<close>

text \<open>The callbacks that are registered; any other one by number.\<close>

datatype timer_handler = tcpip_tcp_timer | arp_timer | dhcp_timer_coarse | dhcp_timer_fine | other_timer nat

text \<open>One entry; a null callback is \<open>None\<close>, and the pointer argument is its address.\<close>

record sys_timeo =
  time :: u32
  h :: "timer_handler option"
  arg :: nat

record timers_state = preamp_state +
  next_timeout :: "sys_timeo list"
  timeouts_last_time :: u32
  tcpip_tcp_timer_active :: bool

definition TCP_TMR_INTERVAL :: u32 where "TCP_TMR_INTERVAL = 250"

definition ARP_TMR_INTERVAL :: u32 where "ARP_TMR_INTERVAL = 1000"

definition DHCP_COARSE_TIMER_MSECS :: u32 where "DHCP_COARSE_TIMER_MSECS = 60000"

definition DHCP_FINE_TIMER_MSECS :: u32 where "DHCP_FINE_TIMER_MSECS = 500"

definition sys_now :: "env \<Rightarrow> ('z preamp_state_scheme, u32) prog" where
  "sys_now E = read_msTicks E"

text \<open>
  The loop of \<^verbatim>\<open>sys_timeout\<close> behind the first entry: the time of the new entry is reduced by each
  entry passed, and the entry behind it is reduced in turn.
\<close>

fun ins_loop :: "sys_timeo \<Rightarrow> sys_timeo list \<Rightarrow> sys_timeo list" where
  "ins_loop n [] = []"
| "ins_loop n [t] = [t, n\<lparr>time := time n - time t\<rparr>]"
| "ins_loop n (t # u # ts) =
     (let n' = n\<lparr>time := time n - time t\<rparr>
      in if time u > time n' then t # n' # u\<lparr>time := time u - time n'\<rparr> # ts
         else t # ins_loop n' (u # ts))"

text \<open>The insertion, \<open>n\<close> being the new entry with the time \<open>msecs + diff\<close>.\<close>

definition insert_timeout :: "u32 \<Rightarrow> sys_timeo \<Rightarrow> sys_timeo list \<Rightarrow> sys_timeo list" where
  "insert_timeout msecs n ts =
     (case ts of
        [] \<Rightarrow> [n]
      | t # rest \<Rightarrow> if time t > msecs then n # t\<lparr>time := time t - msecs\<rparr> # rest else ins_loop n ts)"

definition sys_timeout :: "env \<Rightarrow> u32 \<Rightarrow> timer_handler option \<Rightarrow> nat \<Rightarrow> ('z timers_state_scheme, unit) prog" where
  "sys_timeout E msecs handler a =
     bindM (ext_ask E ''memp_malloc(MEMP_SYS_TIMEOUT)'' []) (\<lambda>timeout.
       if timeout = 0 then lwip_assert_fails ''sys_timeout: timeout != NULL, pool MEMP_SYS_TIMEOUT is empty''
       else
         bindM (sys_now E) (\<lambda>now.
         bindM (gets next_timeout) (\<lambda>ts.
         bindM (gets timeouts_last_time) (\<lambda>l.
         let diff = (if ts = [] then 0 else now - l);
             n = \<lparr>time = msecs + diff, h = handler, arg = a\<rparr>
         in modify (\<lambda>s. s\<lparr>timeouts_last_time := (if ts = [] then now else l),
                          next_timeout := insert_timeout msecs n ts\<rparr>)))))"

text \<open>Removal of the first entry with the callback and argument.\<close>

fun remove_timeout :: "timer_handler option \<Rightarrow> nat \<Rightarrow> sys_timeo list \<Rightarrow> sys_timeo list" where
  "remove_timeout handler a [] = []"
| "remove_timeout handler a (t # ts) =
     (if h t = handler \<and> arg t = a then
        (case ts of [] \<Rightarrow> [] | u # us \<Rightarrow> u\<lparr>time := time u + time t\<rparr> # us)
      else t # remove_timeout handler a ts)"

definition sys_untimeout :: "timer_handler option \<Rightarrow> nat \<Rightarrow> ('z timers_state_scheme, unit) prog" where
  "sys_untimeout handler a =
     modify (\<lambda>s. s\<lparr>next_timeout := remove_timeout handler a (next_timeout s)\<rparr>)"

section \<open>Running the timers\<close>

text \<open>\<^verbatim>\<open>tcp_active_pcbs || tcp_tw_pcbs\<close>, lists of the TCP implementation.\<close>

definition tcp_needed :: "env \<Rightarrow> ('z hw_scheme, bool) prog" where
  "tcp_needed E = bindM (ext_ask E ''tcp_active_pcbs || tcp_tw_pcbs'' []) (\<lambda>v. ret (v \<noteq> 0))"

text \<open>
  The callbacks. \<open>tmr\<close> stands for the four protocol functions, which are not part of this
  model; \<open>other\<close> for callbacks registered elsewhere.
\<close>

definition run_handler ::
  "env \<Rightarrow> (timer_handler \<Rightarrow> ('z timers_state_scheme, unit) prog) \<Rightarrow> timer_handler \<Rightarrow> nat
     \<Rightarrow> ('z timers_state_scheme, unit) prog" where
  "run_handler E tmr hdl a =
     thenM (tmr hdl)
      (case hdl of
         tcpip_tcp_timer \<Rightarrow>
           bindM (tcp_needed E) (\<lambda>needed.
             if needed then sys_timeout E TCP_TMR_INTERVAL (Some tcpip_tcp_timer) 0
             else modify (\<lambda>s. s\<lparr>tcpip_tcp_timer_active := False\<rparr>))
       | arp_timer \<Rightarrow> sys_timeout E ARP_TMR_INTERVAL (Some arp_timer) 0
       | dhcp_timer_coarse \<Rightarrow> sys_timeout E DHCP_COARSE_TIMER_MSECS (Some dhcp_timer_coarse) 0
       | dhcp_timer_fine \<Rightarrow> sys_timeout E DHCP_FINE_TIMER_MSECS (Some dhcp_timer_fine) 0
       | other_timer k \<Rightarrow> ret ())"

definition tcp_timer_needed :: "env \<Rightarrow> ('z timers_state_scheme, unit) prog" where
  "tcp_timer_needed E =
     bindM (gets tcpip_tcp_timer_active) (\<lambda>active.
     if active then ret ()
     else bindM (tcp_needed E) (\<lambda>needed.
       whenM needed
         (thenM (modify (\<lambda>s. s\<lparr>tcpip_tcp_timer_active := True\<rparr>))
                (sys_timeout E TCP_TMR_INTERVAL (Some tcpip_tcp_timer) 0))))"

definition sys_timeouts_init :: "env \<Rightarrow> ('z timers_state_scheme, unit) prog" where
  "sys_timeouts_init E =
     seqM [
       sys_timeout E ARP_TMR_INTERVAL (Some arp_timer) 0,
       sys_timeout E DHCP_COARSE_TIMER_MSECS (Some dhcp_timer_coarse) 0,
       sys_timeout E DHCP_FINE_TIMER_MSECS (Some dhcp_timer_fine) 0,
       bindM (sys_now E) (\<lambda>now. modify (\<lambda>s. s\<lparr>timeouts_last_time := now\<rparr>))]"

text \<open>
  The loop that runs the expired timers; \<open>fire\<close> is the call of a callback. In every round the loop first
  looks whether an allocation found the pool of buffers empty, and then lets TCP give back segments it had queued.
\<close>

definition PBUF_CHECK_FREE_OOSEQ :: "env \<Rightarrow> ('z hw_scheme, unit) prog" where
  "PBUF_CHECK_FREE_OOSEQ E =
     bindM (ext_ask E ''pbuf_free_ooseq_pending'' []) (\<lambda>pending. whenM (pending \<noteq> 0) (ext_call ''pbuf_free_ooseq'' []))"

fun check_loop ::
  "env \<Rightarrow> (timer_handler \<Rightarrow> nat \<Rightarrow> ('z timers_state_scheme, unit) prog) \<Rightarrow> nat \<Rightarrow> u32 \<Rightarrow> ('z timers_state_scheme, unit) prog" where
  "check_loop E fire 0 diff = halt_with Hang"
| "check_loop E fire (Suc n) diff =
     thenM (PBUF_CHECK_FREE_OOSEQ E)
    (bindM (gets next_timeout) (\<lambda>ts.
       case ts of
         [] \<Rightarrow> ret ()
       | t # rest \<Rightarrow>
           if time t \<le> diff then
             thenM (modify (\<lambda>s. s\<lparr>timeouts_last_time := timeouts_last_time s + time t, next_timeout := rest\<rparr>))
            (thenM (case h t of Some hdl \<Rightarrow> fire hdl (arg t) | None \<Rightarrow> ret ())
                   (check_loop E fire n (diff - time t)))
           else ret ()))"

definition sys_check_timeouts ::
  "env \<Rightarrow> (timer_handler \<Rightarrow> nat \<Rightarrow> ('z timers_state_scheme, unit) prog) \<Rightarrow> ('z timers_state_scheme, unit) prog" where
  "sys_check_timeouts E fire =
     bindM (gets next_timeout) (\<lambda>ts.
       whenM (ts \<noteq> [])
        (bindM (sys_now E) (\<lambda>now.
         bindM (gets timeouts_last_time) (\<lambda>l.
         check_loop E fire (env_fuel E) (now - l)))))"

definition sys_restart_timeouts :: "env \<Rightarrow> ('z timers_state_scheme, unit) prog" where
  "sys_restart_timeouts E = bindM (sys_now E) (\<lambda>now. modify (\<lambda>s. s\<lparr>timeouts_last_time := now\<rparr>))"

section \<open>Deadlines\<close>

text \<open>
  The list as what it stands for: each callback with its distance from the time stamp, as a
  plain number.
\<close>

fun deadlines :: "nat \<Rightarrow> sys_timeo list \<Rightarrow> (nat \<times> timer_handler option \<times> nat) list" where
  "deadlines d [] = []"
| "deadlines d (t # ts) = (d + unat (time t), h t, arg t) # deadlines (d + unat (time t)) ts"

text \<open>Specification of insertion: behind all deadlines that are not later.\<close>

definition insert_deadline ::
  "(nat \<times> timer_handler option \<times> nat) \<Rightarrow> (nat \<times> timer_handler option \<times> nat) list
     \<Rightarrow> (nat \<times> timer_handler option \<times> nat) list" where
  "insert_deadline x ds = takeWhile (\<lambda>y. fst y \<le> fst x) ds @ x # dropWhile (\<lambda>y. fst y \<le> fst x) ds"

lemma unat_sub_le: "b \<le> a \<Longrightarrow> unat (a - b) = unat a - unat b" for a b :: u32
  by (rule unat_sub)

lemma ins_loop_deadlines:
  assumes "ts \<noteq> []" and "time (hd ts) \<le> time n"
  shows "deadlines d (ins_loop n ts) = insert_deadline (d + unat (time n), h n, arg n) (deadlines d ts)"
  using assms
proof (induction n ts arbitrary: d rule: ins_loop.induct)
  case (2 n t)
  then have "unat (time n - time t) = unat (time n) - unat (time t)" "unat (time t) \<le> unat (time n)"
    by (simp_all add: unat_sub_le word_le_nat_alt)
  then show ?case by (simp add: insert_deadline_def)
next
  case (3 n t u ts)
  let ?n = "n\<lparr>time := time n - time t\<rparr>"
  have s: "unat (time n - time t) = unat (time n) - unat (time t)" "unat (time t) \<le> unat (time n)"
    using 3(3) by (simp_all add: unat_sub_le word_le_nat_alt)
  show ?case
  proof (cases "time u > time ?n")
    case True
    then have u: "unat (time u - time ?n) = unat (time u) - unat (time ?n)" "unat (time ?n) < unat (time u)"
      by (simp_all add: unat_sub_le less_imp_le word_less_nat_alt)
    then show ?thesis using True s by (auto simp: Let_def insert_deadline_def ac_simps)
  next
    case False
    then have "time (hd (u # ts)) \<le> time ?n" by simp
    from 3(1) [OF refl False _ this, of "d + unat (time t)"]
    have "deadlines (d + unat (time t)) (ins_loop ?n (u # ts)) =
        insert_deadline (d + unat (time n), h n, arg n) (deadlines (d + unat (time t)) (u # ts))"
      using s by simp
    then show ?thesis using False s by (simp add: Let_def insert_deadline_def)
  qed
qed simp

lemma deadlines_shift: "deadlines (d + k) ts = map (\<lambda>(x, y). (x + k, y)) (deadlines d ts)"
proof (induction ts arbitrary: d)
  case (Cons t ts)
  have e: "d + k + unat (time t) = (d + unat (time t)) + k" by simp
  show ?case by (simp only: deadlines.simps list.map prod.case e Cons.IH)
qed simp

lemma insert_in_order:
  assumes "unat msecs + unat diff < 2 ^ 32" and "ts = [] \<or> time (hd ts) \<le> msecs"
  shows "deadlines d (insert_timeout msecs \<lparr>time = msecs + diff, h = hdl, arg = a\<rparr> ts) =
    insert_deadline (d + unat msecs + unat diff, hdl, a) (deadlines d ts)"
proof -
  let ?n = "\<lparr>time = msecs + diff, h = hdl, arg = a\<rparr>"
  have sum: "unat (msecs + diff) = unat msecs + unat diff"
    using assms(1) by (simp add: unat_word_ariths)
  show ?thesis
  proof (cases ts)
    case Nil
    then show ?thesis by (simp add: insert_timeout_def insert_deadline_def sum)
  next
    case (Cons t rest)
    then have "\<not> msecs < time t" "time t \<le> msecs + diff"
      using assms(2) sum by (simp_all add: word_le_nat_alt not_less)
    then show ?thesis
      using ins_loop_deadlines [of ts ?n d] Cons sum by (simp add: insert_timeout_def add.assoc)
  qed
qed

lemma insert_before_first:
  assumes "unat msecs + unat diff < 2 ^ 32" and "ts \<noteq> []" and "msecs < time (hd ts)"
  shows "deadlines d (insert_timeout msecs \<lparr>time = msecs + diff, h = hdl, arg = a\<rparr> ts) =
    (d + unat msecs + unat diff, hdl, a) # map (\<lambda>(e, x). (e + unat diff, x)) (deadlines d ts)"
proof -
  obtain t rest where ts: "ts = t # rest" using assms(2) by (cases ts) auto
  have sum: "unat (msecs + diff) = unat msecs + unat diff"
    using assms(1) by (simp add: unat_word_ariths)
  have e: "unat msecs + unat diff + unat (time t - msecs) = unat (time t) + unat diff"
    using assms(3) ts by (simp add: unat_sub_le less_imp_le word_less_nat_alt)
  have "deadlines (d + unat (time t) + unat diff) rest =
      map (\<lambda>(e, x). (e + unat diff, x)) (deadlines (d + unat (time t)) rest)"
    by (rule deadlines_shift)
  moreover have "insert_timeout msecs \<lparr>time = msecs + diff, h = hdl, arg = a\<rparr> ts =
      \<lparr>time = msecs + diff, h = hdl, arg = a\<rparr> # t\<lparr>time := time t - msecs\<rparr> # rest"
    using assms(3) ts by (simp add: insert_timeout_def)
  moreover have "time (t\<lparr>time := x\<rparr>) = x" "h (t\<lparr>time := x\<rparr>) = h t" "arg (t\<lparr>time := x\<rparr>) = arg t" for x
    by simp_all
  ultimately show ?thesis
    unfolding ts by (simp only: deadlines.simps sys_timeo.simps sum e list.map prod.case add.assoc [of d])
qed

text \<open>
  C17. What scheduling a timer does to all deadlines, as long as the sum of delay and elapsed time fits the
  counter: the new timer gets the deadline of its delay after now, \<open>diff\<close> being the time since the stamp of the list. When the delay is at least the
  time of the first entry, or the list is empty, it is put behind all timers that are not later, and no other deadline
  moves. When the first timer is further than the delay from the stamp, the new timer is put in front, and every other timer is
  delayed by \<open>diff\<close>: nothing moves only when the stamp is current.
\<close>

theorem insert_timeout_in_order:
  assumes "unat msecs + unat diff < 2 ^ 32"
  shows "deadlines 0 (insert_timeout msecs \<lparr>time = msecs + diff, h = hdl, arg = a\<rparr> ts) =
    (if ts \<noteq> [] \<and> msecs < time (hd ts)
     then (unat msecs + unat diff, hdl, a) # map (\<lambda>(d, x). (d + unat diff, x)) (deadlines 0 ts)
     else insert_deadline (unat msecs + unat diff, hdl, a) (deadlines 0 ts))"
  using insert_in_order [OF assms, of ts 0 hdl a] insert_before_first [OF assms, of ts 0 hdl a] by (auto simp: not_less)

theorem insert_timeout_in_order_witness:
  "deadlines 0 (insert_timeout 250 \<lparr>time = 250 + 400, h = Some tcpip_tcp_timer, arg = 0\<rparr>
     [\<lparr>time = 500, h = Some dhcp_timer_fine, arg = 0\<rparr>]) =
     [(650, Some tcpip_tcp_timer, 0), (900, Some dhcp_timer_fine, 0)] \<and>
   deadlines 0 (insert_timeout 500 \<lparr>time = 500 + 400, h = Some dhcp_timer_fine, arg = 0\<rparr>
     [\<lparr>time = 450, h = Some tcpip_tcp_timer, arg = 0\<rparr>, \<lparr>time = 550, h = Some arp_timer, arg = 0\<rparr>]) =
     [(450, Some tcpip_tcp_timer, 0), (900, Some dhcp_timer_fine, 0), (1000, Some arp_timer, 0)]"
  using insert_timeout_in_order [of 250 400 "Some tcpip_tcp_timer" 0 "[\<lparr>time = 500, h = Some dhcp_timer_fine, arg = 0\<rparr>]"]
    insert_timeout_in_order [of 500 400 "Some dhcp_timer_fine" 0
      "[\<lparr>time = 450, h = Some tcpip_tcp_timer, arg = 0\<rparr>, \<lparr>time = 550, h = Some arp_timer, arg = 0\<rparr>]"]
  by (simp add: insert_deadline_def)

text \<open>
  Cancelling: \<^verbatim>\<open>sys_untimeout\<close> removes the first timer with the callback and argument, and no
  other timer moves, as long as the times of the list fit the counter.
\<close>

theorem remove_timeout_keeps_deadlines:
  assumes "sum_list (map (\<lambda>t. unat (time t)) ts) < 2 ^ 32"
  shows "deadlines d (remove_timeout hdl a ts) =
    (let p = (\<lambda>(_, x, y). x \<noteq> hdl \<or> y \<noteq> a) in takeWhile p (deadlines d ts) @ tl (dropWhile p (deadlines d ts)))"
  using assms
proof (induction ts arbitrary: d)
  case (Cons t ts)
  show ?case
  proof (cases "h t = hdl \<and> arg t = a")
    case True
    then show ?thesis
    proof (cases ts)
      case (Cons u us)
      then have "unat (time u + time t) = unat (time u) + unat (time t)"
        using Cons.prems by (simp add: unat_word_ariths)
      then show ?thesis using True Cons by (simp add: Let_def add.commute add.left_commute)
    qed (simp add: Let_def)
  next
    case False
    have "sum_list (map (\<lambda>t. unat (time t)) ts) < 2 ^ 32" using Cons.prems by simp
    then show ?thesis using False Cons.IH [of "d + unat (time t)"] by (auto simp: Let_def)
  qed
qed (simp add: Let_def)

theorem remove_timeout_keeps_deadlines_witness:
  "deadlines 0 (remove_timeout (Some arp_timer) 0
     [\<lparr>time = 500, h = Some arp_timer, arg = 0\<rparr>, \<lparr>time = 100, h = Some dhcp_timer_fine, arg = 0\<rparr>]) =
   [(600, Some dhcp_timer_fine, 0)]"
  using remove_timeout_keeps_deadlines [of "[\<lparr>time = 500, h = Some arp_timer, arg = 0\<rparr>, \<lparr>time = 100, h = Some dhcp_timer_fine, arg = 0\<rparr>]"
      0 "Some arp_timer" 0]
  by (simp add: Let_def)

section \<open>Expiry\<close>

text \<open>The protocol functions behind the callbacks, as calls in the trace.\<close>

definition timer_of :: "io \<Rightarrow> timer_handler option" where
  "timer_of e =
     (case e of
        Ext f _ \<Rightarrow>
          (if f = ''tcp_tmr'' then Some tcpip_tcp_timer else if f = ''etharp_tmr'' then Some arp_timer
           else if f = ''dhcp_coarse_tmr'' then Some dhcp_timer_coarse else if f = ''dhcp_fine_tmr'' then Some dhcp_timer_fine
           else None)
      | _ \<Rightarrow> None)"

definition ran_timers :: "io list \<Rightarrow> timer_handler list" where
  "ran_timers tr = concat (map (\<lambda>e. case timer_of e of Some hdl \<Rightarrow> [hdl] | None \<Rightarrow> []) tr)"

lemma ran_timers_append [simp]: "ran_timers (xs @ ys) = ran_timers xs @ ran_timers ys"
  by (simp add: ran_timers_def)

text \<open>
  What is expected of the parts outside: the protocol functions do their work once and leave the timers and the
  time alone, there is memory for a timer, and TCP needs its timer throughout, or does not.
\<close>

definition timer_work :: "(timer_handler \<Rightarrow> ('z timers_state_scheme, unit) prog) \<Rightarrow> bool" where
  "timer_work tmr \<longleftrightarrow> (\<forall>hdl s. (\<forall>k. hdl \<noteq> other_timer k) \<longrightarrow> (\<exists>t. tmr hdl s = Ret () t \<and> ran_timers (trace t) = ran_timers (trace s) @ [hdl] \<and>
     next_timeout t = next_timeout s \<and> timeouts_last_time t = timeouts_last_time s \<and> msTicks t = msTicks s))"

definition timer_memory :: "env \<Rightarrow> bool \<Rightarrow> bool" where
  "timer_memory E needed \<longleftrightarrow> (\<forall>tr. env_call E tr ''memp_malloc(MEMP_SYS_TIMEOUT)'' \<noteq> 0 \<and>
     (env_call E tr ''tcp_active_pcbs || tcp_tw_pcbs'' \<noteq> 0 \<longleftrightarrow> needed))"

text \<open>The time after which a callback is armed again.\<close>

fun interval :: "bool \<Rightarrow> timer_handler \<Rightarrow> nat option" where
  "interval needed tcpip_tcp_timer = (if needed then Some 250 else None)"
| "interval needed arp_timer = Some 1000"
| "interval needed dhcp_timer_coarse = Some 60000"
| "interval needed dhcp_timer_fine = Some 500"
| "interval needed (other_timer k) = None"

type_synonym deadline = "nat \<times> timer_handler option \<times> nat"

definition rearm :: "bool \<Rightarrow> deadline \<Rightarrow> nat option" where
  "rearm needed x = (case fst (snd x) of Some hdl \<Rightarrow> interval needed hdl | None \<Rightarrow> None)"

definition protocol_timer :: "deadline \<Rightarrow> bool" where
  "protocol_timer x \<longleftrightarrow> (\<exists>hdl. fst (snd x) = Some hdl \<and> (\<forall>k. hdl \<noteq> other_timer k))"

text \<open>
  Of the timers that are due, those that run: up to the first one that is armed again for a time before the
  deadline of the next.
\<close>

fun runs :: "bool \<Rightarrow> deadline list \<Rightarrow> deadline list" where
  "runs needed [] = []"
| "runs needed [x] = [x]"
| "runs needed (x # y # ds) =
     (if (case rearm needed x of Some r \<Rightarrow> fst x + r < fst y | None \<Rightarrow> False) then [x] else x # runs needed (y # ds))"

definition next_run :: "bool \<Rightarrow> nat \<Rightarrow> nat \<Rightarrow> deadline \<Rightarrow> deadline list" where
  "next_run needed now late x = (case rearm needed x of Some r \<Rightarrow> [(now + r + late, fst (snd x), 0)] | None \<Rightarrow> [])"

text \<open>
  The deadlines after a call at time \<open>now\<close> that ran \<open>fired\<close> of the timers \<open>ds\<close>: the last one is armed for its time after now, the others
  that ran and those that did not are late by \<open>late\<close>.
\<close>

definition after_run :: "bool \<Rightarrow> nat \<Rightarrow> nat \<Rightarrow> deadline list \<Rightarrow> deadline list \<Rightarrow> deadline multiset" where
  "after_run needed now late fired rest =
     mset (concat (map (next_run needed now late) (butlast fired))) +
     mset (concat (map (next_run needed now 0) (drop (length fired - 1) fired))) +
     mset (map (\<lambda>(d, x). (d + late, x)) rest)"

lemma runs_prefix: "runs needed ds = take (length (runs needed ds)) ds"
  by (induction needed ds rule: runs.induct) auto

lemma runs_length: "length (runs needed ds) \<le> length ds"
  by (induction needed ds rule: runs.induct) auto

lemma runs_Nil [simp]: "runs needed ds = [] \<longleftrightarrow> ds = []"
  by (induction needed ds rule: runs.induct) auto

text \<open>One callback: it runs, and arms itself again.\<close>

lemma ran_timers_quiet [simp]:
  "ran_timers [Ext ''memp_malloc(MEMP_SYS_TIMEOUT)'' as] = []" "ran_timers [Ext ''tcp_active_pcbs || tcp_tw_pcbs'' as] = []"
  "ran_timers [RegGet r v] = []" "ran_timers [Ext ''pbuf_free_ooseq_pending'' as] = []" "ran_timers [Ext ''pbuf_free_ooseq'' as] = []"
  "ran_timers [] = []"
  by (simp_all add: ran_timers_def timer_of_def)

lemma sys_timeout_run:
  assumes "no_ticks E" and "timer_memory E needed" and "next_timeout s \<noteq> []"
  shows "\<exists>tr. sys_timeout E msecs hdl a s = Ret () (s\<lparr>trace := tr,
      next_timeout := insert_timeout msecs \<lparr>time = msecs + (msTicks s - timeouts_last_time s), h = hdl, arg = a\<rparr> (next_timeout s)\<rparr>) \<and>
    ran_timers tr = ran_timers (trace s)"
proof -
  let ?m = "Ext ''memp_malloc(MEMP_SYS_TIMEOUT)'' []"
  have m: "env_call E (trace s @ [?m]) ''memp_malloc(MEMP_SYS_TIMEOUT)'' \<noteq> 0" using assms(2) by (simp add: timer_memory_def)
  have now: "sys_now E (s\<lparr>trace := trace s @ [?m]\<rparr>) = Ret (msTicks s) (s\<lparr>trace := trace s @ [?m, RegGet ''msTicks'' (msTicks s)]\<rparr>)"
    using read_msTicks_no_ticks [OF assms(1), of "s\<lparr>trace := trace s @ [?m]\<rparr>"] by (simp add: sys_now_def)
  have "sys_timeout E msecs hdl a s = Ret () (s\<lparr>trace := trace s @ [?m, RegGet ''msTicks'' (msTicks s)],
      next_timeout := insert_timeout msecs \<lparr>time = msecs + (msTicks s - timeouts_last_time s), h = hdl, arg = a\<rparr> (next_timeout s)\<rparr>)"
    using m now assms(3) by (simp add: sys_timeout_def bindM_def)
  moreover have "ran_timers (trace s @ [?m, RegGet ''msTicks'' (msTicks s)]) = ran_timers (trace s)"
    by (simp add: ran_timers_def timer_of_def)
  ultimately show ?thesis by blast
qed

lemma run_handler_run:
  assumes "no_ticks E" and "timer_memory E needed" and "timer_work tmr" and "\<forall>k. hdl \<noteq> other_timer k"
    and "interval needed hdl \<noteq> None \<Longrightarrow> next_timeout s \<noteq> []"
  shows "\<exists>u. run_handler E tmr hdl a s = Ret () u \<and> ran_timers (trace u) = ran_timers (trace s) @ [hdl] \<and>
    msTicks u = msTicks s \<and> timeouts_last_time u = timeouts_last_time s \<and>
    next_timeout u = (case interval needed hdl of None \<Rightarrow> next_timeout s
      | Some r \<Rightarrow> insert_timeout (of_nat r) \<lparr>time = of_nat r + (msTicks s - timeouts_last_time s), h = Some hdl, arg = 0\<rparr> (next_timeout s))"
proof -
  obtain t where t: "tmr hdl s = Ret () t" "ran_timers (trace t) = ran_timers (trace s) @ [hdl]" "next_timeout t = next_timeout s"
      "timeouts_last_time t = timeouts_last_time s" "msTicks t = msTicks s"
    using assms(3,4) unfolding timer_work_def by blast
  note st = sys_timeout_run [OF assms(1,2)]
  show ?thesis
  proof (cases hdl)
    case tcpip_tcp_timer
    let ?t = "t\<lparr>trace := trace t @ [Ext ''tcp_active_pcbs || tcp_tw_pcbs'' []]\<rparr>"
    have n: "tcp_needed E t = Ret needed ?t"
      using assms(2) by (simp add: tcp_needed_def bindM_def timer_memory_def)
    show ?thesis
    proof (cases needed)
      case True
      then obtain tr where tr: "sys_timeout E 250 (Some hdl) 0 ?t = Ret () (?t\<lparr>trace := tr,
          next_timeout := insert_timeout 250 \<lparr>time = 250 + (msTicks ?t - timeouts_last_time ?t), h = Some hdl, arg = 0\<rparr> (next_timeout ?t)\<rparr>)"
          "ran_timers tr = ran_timers (trace ?t)"
        using st [of ?t 250 "Some hdl" 0] assms(5) t(3) tcpip_tcp_timer by auto
      then show ?thesis
        using t n True tcpip_tcp_timer by (simp add: run_handler_def thenM_def bindM_def TCP_TMR_INTERVAL_def)
    next
      case False
      then show ?thesis using t n tcpip_tcp_timer by (simp add: run_handler_def thenM_def bindM_def)
    qed
  next
    case arp_timer
    then obtain tr where "sys_timeout E 1000 (Some hdl) 0 t = Ret () (t\<lparr>trace := tr,
          next_timeout := insert_timeout 1000 \<lparr>time = 1000 + (msTicks t - timeouts_last_time t), h = Some hdl, arg = 0\<rparr> (next_timeout t)\<rparr>)"
          "ran_timers tr = ran_timers (trace t)"
      using st [of t 1000 "Some hdl" 0] assms(5) t(3) by auto
    then show ?thesis using t arp_timer by (simp add: run_handler_def thenM_def bindM_def ARP_TMR_INTERVAL_def)
  next
    case dhcp_timer_coarse
    then obtain tr where "sys_timeout E 60000 (Some hdl) 0 t = Ret () (t\<lparr>trace := tr,
          next_timeout := insert_timeout 60000 \<lparr>time = 60000 + (msTicks t - timeouts_last_time t), h = Some hdl, arg = 0\<rparr> (next_timeout t)\<rparr>)"
          "ran_timers tr = ran_timers (trace t)"
      using st [of t 60000 "Some hdl" 0] assms(5) t(3) by auto
    then show ?thesis using t dhcp_timer_coarse by (simp add: run_handler_def thenM_def bindM_def DHCP_COARSE_TIMER_MSECS_def)
  next
    case dhcp_timer_fine
    then obtain tr where "sys_timeout E 500 (Some hdl) 0 t = Ret () (t\<lparr>trace := tr,
          next_timeout := insert_timeout 500 \<lparr>time = 500 + (msTicks t - timeouts_last_time t), h = Some hdl, arg = 0\<rparr> (next_timeout t)\<rparr>)"
          "ran_timers tr = ran_timers (trace t)"
      using st [of t 500 "Some hdl" 0] assms(5) t(3) by auto
    then show ?thesis using t dhcp_timer_fine by (simp add: run_handler_def thenM_def bindM_def DHCP_FINE_TIMER_MSECS_def)
  qed (use assms(4) in simp)
qed

lemma free_ooseq_run: "\<exists>tr. PBUF_CHECK_FREE_OOSEQ E s = Ret () (s\<lparr>trace := tr\<rparr>) \<and> ran_timers tr = ran_timers (trace s)"
proof (cases "env_call E (trace s @ [Ext ''pbuf_free_ooseq_pending'' []]) ''pbuf_free_ooseq_pending'' = 0")
  case True
  then show ?thesis
    by (intro exI [of _ "trace s @ [Ext ''pbuf_free_ooseq_pending'' []]"])
      (simp add: PBUF_CHECK_FREE_OOSEQ_def bindM_def)
next
  case False
  then show ?thesis
    by (intro exI [of _ "trace s @ [Ext ''pbuf_free_ooseq_pending'' [], Ext ''pbuf_free_ooseq'' []]"])
      (simp add: PBUF_CHECK_FREE_OOSEQ_def bindM_def ext_call_def ran_timers_def timer_of_def)
qed

text \<open>What a callback's arming does to the deadlines of the rest of the list, at \<open>d\<close> of \<open>now\<close>.\<close>

lemma rearm_deadlines:
  assumes "d \<le> now" and "now + 60000 < 2 ^ 32" and "r \<le> 60000" and "ts \<noteq> []"
    and "deadlines d ts = ds"
  shows "deadlines d (insert_timeout (of_nat r) \<lparr>time = of_nat r + of_nat (now - d), h = hdl, arg = 0\<rparr> ts) =
    (if d + r < fst (hd ds) then (now + r, hdl, 0) # map (\<lambda>(e, x). (e + (now - d), x)) ds
     else insert_deadline (now + r, hdl, 0) ds)"
proof -
  have small: "unat (of_nat k :: u32) = k" if "k < 2 ^ 32" for k using that by (simp add: unat_of_nat)
  have u: "unat (of_nat r :: u32) = r" "unat (of_nat (now - d) :: u32) = now - d" by (rule small, use assms(1-3) in simp)+
  have "fst (hd ds) = d + unat (time (hd ts))" using assms(4,5) by (cases ts) auto
  then have c: "d + r < fst (hd ds) \<longleftrightarrow> (of_nat r :: u32) < time (hd ts)" by (simp add: word_less_nat_alt u)
  have sum: "unat (of_nat r :: u32) + unat (of_nat (now - d) :: u32) < 2 ^ 32" unfolding u using assms(1-3) by simp
  have e: "d + r + (now - d) = now + r" using assms(1) by simp
  show ?thesis
  proof (cases "(of_nat r :: u32) < time (hd ts)")
    case True
    then show ?thesis using insert_before_first [OF sum assms(4) True, of d hdl 0] unfolding c u e assms(5) by (simp only: if_True)
  next
    case False
    then have "ts = [] \<or> time (hd ts) \<le> of_nat r" by (simp add: not_less)
    from insert_in_order [OF sum this, of d hdl 0] False show ?thesis unfolding c u e assms(5) by (simp only: if_False)
  qed
qed

text \<open>The loop. \<open>P\<close> are the timers that are due, \<open>Q\<close> those that are not, some of them armed again by the loop itself.\<close>

definition loop_state :: "bool \<Rightarrow> u32 \<Rightarrow> nat \<Rightarrow> nat \<Rightarrow> deadline list \<Rightarrow> deadline list \<Rightarrow> 'z timers_state_scheme \<Rightarrow> bool" where
  "loop_state needed l now d P Q s \<longleftrightarrow> deadlines d (next_timeout s) = P @ Q \<and> (\<forall>p \<in> set P. fst p \<le> now) \<and> (\<forall>q \<in> set Q. now < fst q) \<and>
     d \<le> now \<and> timeouts_last_time s = l + of_nat d \<and> msTicks s = l + of_nat now \<and> (\<forall>x \<in> set (P @ Q). protocol_timer x) \<and>
     2 \<le> length (filter (\<lambda>x. rearm needed x \<noteq> None) (P @ Q))"

definition loop_result ::
  "bool \<Rightarrow> u32 \<Rightarrow> nat \<Rightarrow> nat \<Rightarrow> timer_handler list \<Rightarrow> deadline list \<Rightarrow> deadline list \<Rightarrow> 'z timers_state_scheme \<Rightarrow> bool" where
  "loop_result needed l now d before fired rest t \<longleftrightarrow>
     (let lst = (if fired = [] then d else fst (last fired)) in
      ran_timers (trace t) = before @ map (the \<circ> fst \<circ> snd) fired \<and> timeouts_last_time t = l + of_nat lst \<and> msTicks t = l + of_nat now \<and>
      (\<exists>late. late \<le> now - lst \<and> (fired = [] \<longrightarrow> late = 0) \<and>
         mset (deadlines lst (next_timeout t)) = after_run needed now late fired rest))"

lemma insert_deadline_mset: "mset (insert_deadline x ds) = add_mset x (mset ds)"
  unfolding insert_deadline_def by (metis mset_append mset.simps(2) takeWhile_dropWhile_id union_mset_add_mset_right)

lemma insert_deadline_behind:
  assumes "\<forall>p \<in> set P. fst p \<le> fst x"
  shows "insert_deadline x (P @ Q) = P @ insert_deadline x Q"
  using assms unfolding insert_deadline_def by (induction P) auto

lemma rearm_le:
  assumes "rearm needed x = Some r"
  shows "0 < r \<and> r \<le> 60000"
proof -
  obtain hdl where "interval needed hdl = Some r" using assms by (auto simp: rearm_def split: option.splits)
  then show ?thesis by (cases hdl) (auto split: if_splits)
qed

lemma deadlines_ge:
  assumes "x \<in> set (deadlines d ts)"
  shows "fst (hd (deadlines d ts)) \<le> fst x"
proof -
  have ge: "x \<in> set (deadlines d ts) \<Longrightarrow> d \<le> fst x" for d ts
    by (induction ts arbitrary: d) (auto intro: le_trans [OF le_add1])
  show ?thesis using assms ge by (cases ts) auto
qed

lemma dropWhile_deadlines: "\<exists>e us. dropWhile f (deadlines d ts) = deadlines e us"
proof (induction ts arbitrary: d)
  case Nil
  show ?case by (rule exI, rule exI [of _ "[]"]) simp
next
  case (Cons t ts)
  show ?case
  proof (cases "f (d + unat (time t), h t, arg t)")
    case False
    then show ?thesis by (intro exI [of _ d] exI [of _ "t # ts"]) simp
  qed (use Cons.IH in simp)
qed

lemma loop_ends:
  assumes "\<forall>q \<in> set (deadlines d (next_timeout s)). now < fst q" and "d \<le> now" and "now + 60000 < 2 ^ 32"
  shows "\<exists>tr. check_loop E fire (Suc n) (of_nat (now - d)) s = Ret () (s\<lparr>trace := tr\<rparr>) \<and> ran_timers tr = ran_timers (trace s)"
proof -
  obtain tr where tr: "PBUF_CHECK_FREE_OOSEQ E s = Ret () (s\<lparr>trace := tr\<rparr>)" "ran_timers tr = ran_timers (trace s)"
    using free_ooseq_run by blast
  have "\<not> time t \<le> of_nat (now - d)" if "next_timeout s = t # ts" for t ts
  proof -
    have "now < d + unat (time t)" using assms(1) that by simp
    moreover have "unat (of_nat (now - d) :: u32) = now - d"
      using assms(3) by (simp only: unat_of_nat) simp
    ultimately show ?thesis using assms(2) by (simp add: word_le_nat_alt del: of_nat_diff)
  qed
  then have "check_loop E fire (Suc n) (of_nat (now - d)) s = Ret () (s\<lparr>trace := tr\<rparr>)"
    using tr(1) by (cases "next_timeout s") (simp_all add: thenM_def bindM_def del: of_nat_diff)
  then show ?thesis using tr(2) by blast
qed

lemma result_Cons:
  assumes "loop_result needed l now (fst x) (before @ [the (fst (snd x))]) fired (R @ Q') t"
    and "mset Q' = mset (next_run needed now 0 x) + mset Q" and "fired = [] \<Longrightarrow> R = []"
  shows "loop_result needed l now d before (x # fired) (R @ Q) t"
proof -
  obtain late where late: "late \<le> now - (if fired = [] then fst x else fst (last fired))" "fired = [] \<longrightarrow> late = 0"
      "mset (deadlines (if fired = [] then fst x else fst (last fired)) (next_timeout t)) = after_run needed now late fired (R @ Q')"
    using assms(1) by (auto simp: loop_result_def Let_def)
  have s: "mset (map (\<lambda>(d, x). (d + late, x)) Q') = mset (next_run needed now late x) + mset (map (\<lambda>(d, x). (d + late, x)) Q)"
    unfolding mset_map assms(2) image_mset_union by (auto simp: next_run_def split: option.split)
  have "after_run needed now late fired (R @ Q') = after_run needed now late (x # fired) (R @ Q)"
  proof (cases fired)
    case Nil
    then show ?thesis using late(2) s assms(3) by (simp add: after_run_def)
  next
    case (Cons y ys)
    then show ?thesis using s by (simp add: after_run_def)
  qed
  then show ?thesis using assms(1) late by (auto simp: loop_result_def Let_def split: if_splits)
qed

lemma runs_Cons:
  assumes "\<And>r. rearm needed x = Some r \<Longrightarrow> P \<noteq> [] \<Longrightarrow> \<not> fst x + r < fst (hd P)"
  shows "runs needed (x # P) = x # runs needed P"
  using assms by (cases P) (auto split: option.split)

lemma runs_short:
  assumes "rearm needed x = Some r" and "P \<noteq> [] \<Longrightarrow> fst x + r < fst (hd P)"
  shows "runs needed (x # P) = [x]"
  using assms by (cases P) auto

text \<open>One round of the loop with a timer that is due.\<close>

lemma check_loop_round:
  fixes s :: "'z timers_state_scheme"
  assumes E: "no_ticks E" "timer_memory E needed" "timer_work tmr" and now: "now + 60000 < 2 ^ 32"
    and st: "loop_state needed l now d (x # P) Q s"
  obtains u ts where "check_loop E (run_handler E tmr) (Suc n) (of_nat (now - d)) s =
        check_loop E (run_handler E tmr) n (of_nat (now - fst x)) u"
    and "ran_timers (trace u) = ran_timers (trace s) @ [the (fst (snd x))]" and "msTicks u = l + of_nat now"
    and "timeouts_last_time u = l + of_nat (fst x)" and "deadlines (fst x) ts = P @ Q" and "fst x \<le> now"
    and "next_timeout u = (case rearm needed x of None \<Rightarrow> ts
      | Some r \<Rightarrow> insert_timeout (of_nat r) \<lparr>time = of_nat r + of_nat (now - fst x), h = fst (snd x), arg = 0\<rparr> ts)"
    and "rearm needed x \<noteq> None \<Longrightarrow> ts \<noteq> []"
proof -
  obtain t ts where ts: "next_timeout s = t # ts" "x = (d + unat (time t), h t, arg t)" "deadlines (fst x) ts = P @ Q"
    using st by (cases "next_timeout s") (auto simp: loop_state_def)
  obtain hdl where hdl: "h t = Some hdl" "\<forall>k. hdl \<noteq> other_timer k"
    using st ts(2) by (auto simp: loop_state_def protocol_timer_def)
  have le: "fst x \<le> now" "d \<le> now" using st by (auto simp: loop_state_def)
  obtain tr where tr: "PBUF_CHECK_FREE_OOSEQ E s = Ret () (s\<lparr>trace := tr\<rparr>)" "ran_timers tr = ran_timers (trace s)"
    using free_ooseq_run by blast
  have small: "unat (of_nat k :: u32) = k" if "k \<le> now" for k
    using that now by (simp only: unat_of_nat) simp
  have w: "time t = of_nat (unat (time t))" by simp
  have due: "time t \<le> of_nat (now - d)"
    using le(1) ts(2) by (simp add: word_le_nat_alt small del: of_nat_diff)
  have eq: "of_nat (now - d) - time t = of_nat (now - fst x)"
    using le ts(2) by (subst w) (simp add: algebra_simps)
  let ?s1 = "s\<lparr>trace := tr, timeouts_last_time := timeouts_last_time s + time t, next_timeout := ts\<rparr>"
  have re: "rearm needed x = interval needed hdl" using ts(2) hdl(1) by (simp add: rearm_def)
  have ne: "ts \<noteq> []" if "rearm needed x \<noteq> None"
    using st ts(3) that by (cases ts) (auto simp: loop_state_def)
  have stamp: "timeouts_last_time ?s1 = l + of_nat (fst x)" "msTicks ?s1 = l + of_nat now"
    using st ts(2) by (simp_all add: loop_state_def)
  obtain u where u: "run_handler E tmr hdl (arg t) ?s1 = Ret () u" "ran_timers (trace u) = ran_timers (trace ?s1) @ [hdl]"
      "msTicks u = msTicks ?s1" "timeouts_last_time u = timeouts_last_time ?s1"
      "next_timeout u = (case interval needed hdl of None \<Rightarrow> next_timeout ?s1
        | Some r \<Rightarrow> insert_timeout (of_nat r) \<lparr>time = of_nat r + (msTicks ?s1 - timeouts_last_time ?s1), h = Some hdl, arg = 0\<rparr> (next_timeout ?s1))"
    using run_handler_run [OF E hdl(2), of ?s1 "arg t"] ne re by auto
  have diff: "msTicks ?s1 - timeouts_last_time ?s1 = of_nat (now - fst x)" unfolding stamp using le(1) by (simp add: of_nat_diff)
  have "check_loop E (run_handler E tmr) (Suc n) (of_nat (now - d)) s = check_loop E (run_handler E tmr) n (of_nat (now - d) - time t) u"
    using tr(1) ts(1) due hdl(1) u(1) by (simp add: thenM_def bindM_def del: of_nat_diff)
  then have c: "check_loop E (run_handler E tmr) (Suc n) (of_nat (now - d)) s = check_loop E (run_handler E tmr) n (of_nat (now - fst x)) u"
    unfolding eq .
  have ran: "ran_timers (trace u) = ran_timers (trace s) @ [the (fst (snd x))]" using u(2) tr(2) ts(2) hdl(1) by simp
  have stamps: "msTicks u = l + of_nat now" "timeouts_last_time u = l + of_nat (fst x)" unfolding u(3,4) stamp by (rule refl)+
  have "next_timeout u = (case rearm needed x of None \<Rightarrow> ts
      | Some r \<Rightarrow> insert_timeout (of_nat r) \<lparr>time = of_nat r + of_nat (now - fst x), h = fst (snd x), arg = 0\<rparr> ts)"
    using u(5) ts(2) hdl(1) unfolding diff re by (simp del: of_nat_diff split: option.split)
  from that [OF c ran stamps ts(3) le(1) this ne] show ?thesis .
qed

lemma check_loop_runs:
  assumes E: "no_ticks E" "timer_memory E needed" "timer_work tmr" and now: "now + 60000 < 2 ^ 32"
    and "loop_state needed l now d P Q s" and "length P < n"
  shows "\<exists>t. check_loop E (run_handler E tmr) n (of_nat (now - d)) s = Ret () t \<and>
    loop_result needed l now d (ran_timers (trace s)) (runs needed P) (drop (length (runs needed P)) P @ Q) t"
  using assms(5,6)
proof (induction P arbitrary: d Q s n)
  case Nil
  then obtain m where m: "n = Suc m" by (cases n) auto
  have q: "\<forall>q \<in> set (deadlines d (next_timeout s)). now < fst q" "d \<le> now" using Nil.prems by (simp_all add: loop_state_def)
  obtain tr where tr: "check_loop E (run_handler E tmr) n (of_nat (now - d)) s = Ret () (s\<lparr>trace := tr\<rparr>)"
      "ran_timers tr = ran_timers (trace s)"
    using loop_ends [OF q now] unfolding m by blast
  have "mset (deadlines d (next_timeout s)) = after_run needed now 0 [] Q"
    using Nil.prems by (simp add: loop_state_def after_run_def)
  then show ?case
    using tr Nil.prems by (auto simp: loop_result_def loop_state_def)
next
  case (Cons x P)
  then obtain m where m: "n = Suc m" "length P < m" by (cases n) auto
  obtain u ts where u: "check_loop E (run_handler E tmr) n (of_nat (now - d)) s = check_loop E (run_handler E tmr) m (of_nat (now - fst x)) u"
      "ran_timers (trace u) = ran_timers (trace s) @ [the (fst (snd x))]" "msTicks u = l + of_nat now"
      "timeouts_last_time u = l + of_nat (fst x)" "deadlines (fst x) ts = P @ Q" "fst x \<le> now"
      "next_timeout u = (case rearm needed x of None \<Rightarrow> ts
        | Some r \<Rightarrow> insert_timeout (of_nat r) \<lparr>time = of_nat r + of_nat (now - fst x), h = fst (snd x), arg = 0\<rparr> ts)"
      "rearm needed x \<noteq> None \<Longrightarrow> ts \<noteq> []"
    using check_loop_round [OF E now Cons.prems(1), of m] unfolding m(1) by blast
  show ?case
  proof (cases "\<exists>r. rearm needed x = Some r \<and> fst x + r < fst (hd (P @ Q))")
    case True
    then obtain r where r: "rearm needed x = Some r" "fst x + r < fst (hd (P @ Q))" by blast
    have ne: "ts \<noteq> []" using u(8) r(1) by simp
    have n: "next_timeout u = insert_timeout (of_nat r) \<lparr>time = of_nat r + of_nat (now - fst x), h = fst (snd x), arg = 0\<rparr> ts"
      using u(7) r(1) by simp
    have ds: "deadlines (fst x) (next_timeout u) = (now + r, fst (snd x), 0) # map (\<lambda>(e, y). (e + (now - fst x), y)) (P @ Q)"
      using rearm_deadlines [OF u(6) now _ ne u(5), of r "fst (snd x)"] rearm_le [OF r(1)] r(2) unfolding n by simp
    have ge: "fst x + r < fst y" if "y \<in> set (P @ Q)" for y
      using deadlines_ge [of y "fst x" ts] r(2) that unfolding u(5) by simp
    have "\<forall>y \<in> set (P @ Q). now < fst y + (now - fst x)" using ge u(6) by force
    then have "\<forall>q \<in> set (deadlines (fst x) (next_timeout u)). now < fst q"
      unfolding ds using rearm_le [OF r(1)] by (simp add: split_beta image_Un ball_Un)
    moreover obtain k where "m = Suc k" using m(2) by (cases m) auto
    ultimately obtain tr where tr: "check_loop E (run_handler E tmr) m (of_nat (now - fst x)) u = Ret () (u\<lparr>trace := tr\<rparr>)"
        "ran_timers tr = ran_timers (trace u)"
      using loop_ends [of "fst x" u now E "run_handler E tmr" k, OF _ u(6) now] by blast
    have "runs needed (x # P) = [x]" by (rule runs_short [OF r(1)]) (use r(2) in \<open>cases P; simp\<close>)
    moreover have "mset (deadlines (fst x) (next_timeout u)) = after_run needed now (now - fst x) [x] (P @ Q)"
      unfolding ds using r(1) by (simp add: after_run_def next_run_def)
    ultimately show ?thesis
      using tr u(1-4) by (auto simp: loop_result_def Let_def)
  next
    case False
    define Q' where "Q' = (case rearm needed x of None \<Rightarrow> Q | Some r \<Rightarrow> insert_deadline (now + r, fst (snd x), 0) Q)"
    have due: "\<forall>p \<in> set P. fst p \<le> now" "\<forall>q \<in> set Q. now < fst q" using Cons.prems(1) by (simp_all add: loop_state_def)
    have ds: "deadlines (fst x) (next_timeout u) = P @ Q'"
    proof (cases "rearm needed x")
      case None
      then show ?thesis using u(5,7) by (simp add: Q'_def)
    next
      case (Some r)
      then have "ts \<noteq> []" "\<not> fst x + r < fst (hd (P @ Q))" using u(8) False by auto
      moreover have "\<forall>p \<in> set P. fst p \<le> fst (now + r, fst (snd x), 0 :: nat)" using due(1) by auto
      ultimately show ?thesis
        using rearm_deadlines [OF u(6) now _ _ u(5), of r "fst (snd x)"] rearm_le [OF Some] u(7) Some
        by (simp add: Q'_def insert_deadline_behind)
    qed
    have q: "mset Q' = mset (next_run needed now 0 x) + mset Q"
      by (simp add: Q'_def next_run_def insert_deadline_mset split: option.split)
    have set_q: "set Q' \<subseteq> insert (now + the (rearm needed x), fst (snd x), 0) (set Q)" and "rearm needed x = None \<Longrightarrow> Q' = Q"
      and q_new: "rearm needed x = Some r \<Longrightarrow> mset Q' = add_mset (now + r, fst (snd x), 0) (mset Q)" for r
      using q by (auto simp: Q'_def insert_deadline_mset next_run_def simp flip: set_mset_mset split: option.splits)
    have "loop_state needed l now (fst x) P Q' u"
      unfolding loop_state_def
    proof (intro conjI)
      show "\<forall>q \<in> set Q'. now < fst q" using due(2) q_new rearm_le by (cases "rearm needed x") (auto simp: Q'_def simp flip: set_mset_mset)
      have p: "protocol_timer x" "\<forall>y \<in> set (P @ Q). protocol_timer y" using Cons.prems(1) by (simp_all add: loop_state_def)
      then show "\<forall>y \<in> set (P @ Q'). protocol_timer y"
        using q_new by (cases "rearm needed x") (auto simp: Q'_def protocol_timer_def simp flip: set_mset_mset)
      have "rearm needed (now + r, fst (snd x), 0) = rearm needed x" for r by (simp add: rearm_def)
      moreover have len: "length (filter f xs) = size (filter_mset f (mset xs))" for f and xs :: "deadline list"
        by (metis mset_filter size_mset)
      ultimately have "length (filter (\<lambda>y. rearm needed y \<noteq> None) Q') =
          length (filter (\<lambda>y. rearm needed y \<noteq> None) [x]) + length (filter (\<lambda>y. rearm needed y \<noteq> None) Q)"
        using q_new by (cases "rearm needed x") (auto simp: Q'_def len)
      then show "2 \<le> length (filter (\<lambda>y. rearm needed y \<noteq> None) (P @ Q'))"
        using Cons.prems(1) by (simp add: loop_state_def split: if_splits)
    qed (use ds due(1) u(3,4,6) in simp_all)
    from Cons.IH [OF this m(2)] obtain t where t: "check_loop E (run_handler E tmr) m (of_nat (now - fst x)) u = Ret () t"
      "loop_result needed l now (fst x) (ran_timers (trace u)) (runs needed P) (drop (length (runs needed P)) P @ Q') t" by blast
    have c: "runs needed (x # P) = x # runs needed P"
      by (rule runs_Cons) (use False in \<open>cases P; simp\<close>)
    show ?thesis
      using result_Cons [OF t(2) [unfolded u(2)] q] t(1) u(1) by (simp add: c)
  qed
qed

text \<open>
  C8. Expiry, with callbacks that arm themselves again: one call of \<^verbatim>\<open>sys_check_timeouts\<close> at \<open>now\<close> milliseconds since the stamp
  (modulo the 32-bit counter) returns. Of the timers that are due by then it runs those up to the first
  one that is armed again for a time before the deadline of the next, in the order of their deadlines and each once. The timer that ran last is
  armed for its interval after now, the TCP timer only if TCP needs it; the stamp becomes the deadline of that timer, and
  all the others, run or not, are where their deadlines are, or late by one common amount, no more than the
  time by which that timer was late. The four timers of the firmware are in the list, two of them at least.
\<close>

theorem check_timeouts_runs_due:
  fixes s :: "'z timers_state_scheme"
  assumes "no_ticks E" and "timer_memory E needed" and "timer_work tmr"
    and "unat (msTicks s - timeouts_last_time s) + 60000 < 2 ^ 32"
    and "\<forall>x \<in> set (deadlines 0 (next_timeout s)). protocol_timer x"
    and "2 \<le> length (filter (\<lambda>x. rearm needed x \<noteq> None) (deadlines 0 (next_timeout s)))"
    and "length (next_timeout s) < env_fuel E"
  shows "\<exists>t late fired rest lst.
    fired = runs needed (takeWhile (\<lambda>x. fst x \<le> unat (msTicks s - timeouts_last_time s)) (deadlines 0 (next_timeout s))) \<and>
    deadlines 0 (next_timeout s) = fired @ rest \<and> lst = (if fired = [] then 0 else fst (last fired)) \<and>
    sys_check_timeouts E (run_handler E tmr) s = Ret () t \<and>
    ran_timers (trace t) = ran_timers (trace s) @ map (the \<circ> fst \<circ> snd) fired \<and>
    timeouts_last_time t = timeouts_last_time s + of_nat lst \<and>
    late \<le> unat (msTicks s - timeouts_last_time s) - lst \<and> (fired = [] \<longrightarrow> late = 0) \<and>
    mset (deadlines lst (next_timeout t)) = after_run needed (unat (msTicks s - timeouts_last_time s)) late fired rest"
proof -
  define now where "now = unat (msTicks s - timeouts_last_time s)"
  let ?s = "s\<lparr>trace := trace s @ [RegGet ''msTicks'' (msTicks s)]\<rparr>"
  let ?P = "takeWhile (\<lambda>x. fst x \<le> now) (deadlines 0 (next_timeout s))" and ?Q = "dropWhile (\<lambda>x. fst x \<le> now) (deadlines 0 (next_timeout s))"
  have n: "length (deadlines d ts) = length ts" for d ts by (induction ts arbitrary: d) simp_all
  have w: "msTicks s - timeouts_last_time s = of_nat now" by (simp add: now_def)
  have ne: "next_timeout s \<noteq> []" using assms(6) by auto
  have call: "sys_check_timeouts E (run_handler E tmr) s = check_loop E (run_handler E tmr) (env_fuel E) (of_nat (now - 0)) ?s"
    using ne w by (simp add: sys_check_timeouts_def sys_now_def bindM_Ret [OF read_msTicks_no_ticks [OF assms(1)]])
  have later: "\<forall>q \<in> set ?Q. now < fst q"
  proof (cases ?Q)
    case (Cons q qs)
    obtain us e where us: "?Q = deadlines e us" using dropWhile_deadlines by blast
    have "now < fst q" using Cons hd_dropWhile [of "\<lambda>x. fst x \<le> now" "deadlines 0 (next_timeout s)"] by (simp add: not_le)
    then show ?thesis using deadlines_ge [of _ e us] Cons unfolding us by fastforce
  next
    case Nil
    then show ?thesis by (simp only: list.set) simp
  qed
  have "loop_state needed (timeouts_last_time s) now 0 ?P ?Q ?s"
    using later assms(5,6) w by (auto simp: loop_state_def algebra_simps dest: set_takeWhileD)
  moreover have "length ?P < env_fuel E"
    using length_takeWhile_le [of "\<lambda>x. fst x \<le> now" "deadlines 0 (next_timeout s)"] assms(7) by (simp add: n)
  ultimately obtain t where t: "check_loop E (run_handler E tmr) (env_fuel E) (of_nat (now - 0)) ?s = Ret () t"
    "loop_result needed (timeouts_last_time s) now 0 (ran_timers (trace ?s)) (runs needed ?P) (drop (length (runs needed ?P)) ?P @ ?Q) t"
    using check_loop_runs [OF assms(1-3) assms(4) [folded now_def]] by blast
  define F where "F = runs needed ?P"
  define R where "R = drop (length F) ?P @ ?Q"
  define L where "L = (if F = [] then 0 else fst (last F))"
  have split: "deadlines 0 (next_timeout s) = F @ R"
    using runs_prefix [of needed ?P] unfolding R_def F_def by (metis append.assoc append_take_drop_id takeWhile_dropWhile_id)
  obtain late where late: "ran_timers (trace t) = ran_timers (trace ?s) @ map (the \<circ> fst \<circ> snd) F"
    "timeouts_last_time t = timeouts_last_time s + of_nat L" "late \<le> now - L" "F = [] \<longrightarrow> late = 0"
    "mset (deadlines L (next_timeout t)) = after_run needed now late F R"
    using t(2) unfolding loop_result_def Let_def R_def F_def L_def by blast
  have ran: "ran_timers (trace t) = ran_timers (trace s) @ map (the \<circ> fst \<circ> snd) F" using late(1) by simp
  have c: "sys_check_timeouts E (run_handler E tmr) s = Ret () t" unfolding call by (rule t(1))
  show ?thesis
    unfolding now_def [symmetric]
    by (rule exI [of _ t], rule exI [of _ late], rule exI [of _ F], rule exI [of _ R], rule exI [of _ L])
      (intro conjI F_def split L_def c ran late(2-5))
qed

definition blank_timers :: timers_state where
  "blank_timers = preamp_state.extend blank_preamp
     \<lparr>next_timeout = [\<lparr>time = 10, h = Some arp_timer, arg = 0\<rparr>, \<lparr>time = 20, h = Some dhcp_timer_fine, arg = 0\<rparr>],
      timeouts_last_time = - 15, tcpip_tcp_timer_active = False\<rparr>"


text \<open>
  Three timers, now 700: the TCP timer is due at 10 and armed again for 250 later, which is before the
  deadline 600 of the next one; so that one is not run, and it and the ARP timer become 690 late.
\<close>

definition late_timers :: timers_state where
  "late_timers = blank_timers\<lparr>msTicks := 700, timeouts_last_time := 0, next_timeout :=
     [\<lparr>time = 10, h = Some tcpip_tcp_timer, arg = 0\<rparr>, \<lparr>time = 590, h = Some dhcp_timer_fine, arg = 0\<rparr>,
      \<lparr>time = 200, h = Some arp_timer, arg = 0\<rparr>]\<rparr>"

definition work_tmr :: "timer_handler \<Rightarrow> (timers_state, unit) prog" where
  "work_tmr hdl = ext_call (case hdl of tcpip_tcp_timer \<Rightarrow> ''tcp_tmr'' | arp_timer \<Rightarrow> ''etharp_tmr'' | dhcp_timer_coarse \<Rightarrow> ''dhcp_coarse_tmr''
     | _ \<Rightarrow> ''dhcp_fine_tmr'') []"

theorem check_timeouts_runs_due_witness:
  "\<exists>t late. sys_check_timeouts (irq_env\<lparr>env_call := \<lambda>_ _. 1, env_fuel := 4\<rparr>)
       (run_handler (irq_env\<lparr>env_call := \<lambda>_ _. 1, env_fuel := 4\<rparr>) work_tmr) late_timers = Ret () t \<and>
     ran_timers (trace t) = ran_timers (trace late_timers) @ [tcpip_tcp_timer] \<and> timeouts_last_time t = 10 \<and> late \<le> 690 \<and>
     mset (deadlines 10 (next_timeout t)) =
       {#(950, Some tcpip_tcp_timer, 0), (600 + late, Some dhcp_timer_fine, 0), (800 + late, Some arp_timer, 0)#}"
proof -
  let ?E = "irq_env\<lparr>env_call := \<lambda>_ _. 1, env_fuel := 4\<rparr>"
  have E: "no_ticks ?E" "timer_memory ?E True" by (simp_all add: no_ticks_def irq_env_def ideal_env_def timer_memory_def)
  have w: "timer_work work_tmr"
    unfolding timer_work_def
  proof (intro allI impI)
    fix hdl and s :: timers_state assume "\<forall>k. hdl \<noteq> other_timer k"
    then show "\<exists>t. work_tmr hdl s = Ret () t \<and> ran_timers (trace t) = ran_timers (trace s) @ [hdl] \<and>
        next_timeout t = next_timeout s \<and> timeouts_last_time t = timeouts_last_time s \<and> msTicks t = msTicks s"
      by (cases hdl) (simp_all add: work_tmr_def ext_call_def ran_timers_def timer_of_def)
  qed
  have s: "msTicks late_timers = 700" "timeouts_last_time late_timers = 0" "length (next_timeout late_timers) = 3"
    "deadlines 0 (next_timeout late_timers) = [(10, Some tcpip_tcp_timer, 0), (600, Some dhcp_timer_fine, 0), (800, Some arp_timer, 0)]"
    by (simp_all add: late_timers_def)
  show ?thesis
    using check_timeouts_runs_due [OF E w, of late_timers] unfolding s
    by (auto simp: protocol_timer_def rearm_def after_run_def next_run_def add_mset_commute)
qed

end
