(* ===== verification/Net.thy ===== *)
theory Net
  imports Timers
begin

text \<open>
  The command server (net.c): set-up of lwIP and of the interface, the callbacks of a TCP
  connection, and the text commands that control the preamplifier. Of the TCP implementation
  (core/tcp.c) the registration of callbacks and the listening control block are modelled; sending, closing and the
  window update are calls recorded in the trace whose results the environment chooses.
\<close>

section \<open>Control blocks and callbacks\<close>

datatype tcp_state = CLOSED | LISTEN | SYN_SENT | SYN_RCVD | ESTABLISHED | FIN_WAIT_1 | FIN_WAIT_2
  | CLOSE_WAIT | CLOSING | LAST_ACK | TIME_WAIT

text \<open>The functions a callback pointer can hold in this program.\<close>

datatype callback = NULL | CB_server_recv | CB_server_sent | CB_server_err | CB_server_poll
  | CB_server_accept | CB_tcp_accept_null

record tcp_pcb =
  pcb_state :: tcp_state
  callback_arg :: int
  recv :: callback
  sent :: callback
  errf :: callback
  poll :: callback
  pollinterval :: u8
  accept :: callback

text \<open>A pointer to a control block is a number, 0 is null.\<close>

record net_state = timers_state +
  pcbs :: "int \<Rightarrow> tcp_pcb"

definition upd_pcb :: "int \<Rightarrow> (tcp_pcb \<Rightarrow> tcp_pcb) \<Rightarrow> ('z net_state_scheme, unit) prog" where
  "upd_pcb pcb f = modify (\<lambda>s. s\<lparr>pcbs := (pcbs s)(pcb := f (pcbs s pcb))\<rparr>)"

definition not_listening :: "int \<Rightarrow> string \<Rightarrow> ('z net_state_scheme, unit) prog" where
  "not_listening pcb msg =
     bindM (gets (\<lambda>s. pcb_state (pcbs s pcb))) (\<lambda>st. whenM (st = LISTEN) (lwip_assert_fails msg))"

definition tcp_arg :: "int \<Rightarrow> int \<Rightarrow> ('z net_state_scheme, unit) prog" where
  "tcp_arg pcb a = upd_pcb pcb (\<lambda>p. p\<lparr>callback_arg := a\<rparr>)"

definition tcp_recv :: "int \<Rightarrow> callback \<Rightarrow> ('z net_state_scheme, unit) prog" where
  "tcp_recv pcb f =
     thenM (not_listening pcb ''invalid socket state for recv callback'') (upd_pcb pcb (\<lambda>p. p\<lparr>recv := f\<rparr>))"

definition tcp_sent :: "int \<Rightarrow> callback \<Rightarrow> ('z net_state_scheme, unit) prog" where
  "tcp_sent pcb f =
     thenM (not_listening pcb ''invalid socket state for sent callback'') (upd_pcb pcb (\<lambda>p. p\<lparr>sent := f\<rparr>))"

definition tcp_err :: "int \<Rightarrow> callback \<Rightarrow> ('z net_state_scheme, unit) prog" where
  "tcp_err pcb f =
     thenM (not_listening pcb ''invalid socket state for err callback'') (upd_pcb pcb (\<lambda>p. p\<lparr>errf := f\<rparr>))"

definition tcp_accept :: "int \<Rightarrow> callback \<Rightarrow> ('z net_state_scheme, unit) prog" where
  "tcp_accept pcb f = upd_pcb pcb (\<lambda>p. p\<lparr>accept := f\<rparr>)"

definition tcp_poll :: "int \<Rightarrow> callback \<Rightarrow> u8 \<Rightarrow> ('z net_state_scheme, unit) prog" where
  "tcp_poll pcb f n =
     thenM (not_listening pcb ''invalid socket state for poll'') (upd_pcb pcb (\<lambda>p. p\<lparr>poll := f, pollinterval := n\<rparr>))"

text \<open>
  \<^verbatim>\<open>tcp_listen\<close>: a control block that is not closed is an error (the test for one that already
  listens comes behind it and is never true); otherwise a smaller block in the state
  \<^verbatim>\<open>LISTEN\<close> replaces it.
\<close>

definition tcp_listen :: "env \<Rightarrow> int \<Rightarrow> ('z net_state_scheme, int) prog" where
  "tcp_listen E pcb =
     bindM (gets (\<lambda>s. pcbs s pcb)) (\<lambda>p.
       if pcb_state p \<noteq> CLOSED then thenM (ext_call ''LWIP_ERROR tcp_listen: pcb already connected'' []) (ret 0)
       else
         bindM (ext_ask E ''memp_malloc(MEMP_TCP_PCB_LISTEN)'' []) (\<lambda>lpcb.
           if lpcb = 0 then ret 0
           else
             thenM (ext_call ''memp_free(MEMP_TCP_PCB)'' [pcb])
            (thenM (upd_pcb lpcb (\<lambda>l. l\<lparr>callback_arg := callback_arg p, pcb_state := LISTEN, accept := CB_tcp_accept_null\<rparr>))
                   (ret lpcb))))"

text \<open>\<^verbatim>\<open>tcp_accepted\<close> without a backlog is only an assertion.\<close>

definition tcp_accepted :: "int \<Rightarrow> ('z net_state_scheme, unit) prog" where
  "tcp_accepted pcb =
     bindM (gets (\<lambda>s. pcb_state (pcbs s pcb))) (\<lambda>st.
       whenM (st \<noteq> LISTEN) (lwip_assert_fails ''pcb->state == LISTEN (called for wrong pcb?)''))"

section \<open>Error texts\<close>

definition err_strerr :: "string list" where
  "err_strerr =
     [''Ok.'', ''Out of memory error.'', ''Buffer error.'', ''Timeout.'', ''Routing problem.'',
      ''Operation in progress.'', ''Illegal value.'', ''Operation would block.'', ''Address in use.'',
      ''Already connected.'', ''Not connected.'', ''Connection aborted.'', ''Connection reset.'',
      ''Connection closed.'', ''Illegal argument.'', ''Low-level netif error.'']"

text \<open>An index outside the table has no defined result.\<close>

definition lwip_strerr :: "int \<Rightarrow> string option" where
  "lwip_strerr err = (if err \<le> 0 \<and> - err < int (length err_strerr) then Some (err_strerr ! nat (- err)) else None)"

section \<open>The commands\<close>

text \<open>The text in the receive buffer: up to a zero byte or the terminator written behind the data.\<close>

definition recbuf_string :: "u8 list \<Rightarrow> string" where
  "recbuf_string payload = map char_of_byte (takeWhile (\<lambda>b. b \<noteq> 0) payload)"

definition strtol_arg :: "string option \<Rightarrow> (int \<Rightarrow> ('z net_state_scheme, 'a) prog) \<Rightarrow> ('z net_state_scheme, 'a) prog" where
  "strtol_arg ar f =
     (case ar of None \<Rightarrow> halt_with (Undefined ''strtol(NULL)'') | Some a \<Rightarrow> f (strtol a))"

text \<open>The size of the array \<^verbatim>\<open>sendbuf\<close> the replies are formatted into.\<close>

definition SENDBUF_SIZE :: nat where "SENDBUF_SIZE = 80"

text \<open>The chain of comparisons; the result is the text formatted into \<^verbatim>\<open>sendbuf\<close>.\<close>

definition server_command :: "env \<Rightarrow> string \<Rightarrow> string option \<Rightarrow> ('z net_state_scheme, string) prog" where
  "server_command E cmd ar =
     (if cmd = ''SET_VOL'' then strtol_arg ar (\<lambda>v. thenM (setVol E (to_int16 v)) (ret ''OK\<newline>''))
      else if cmd = ''GET_VOL'' then gets (\<lambda>s. ''VOL '' @ dec_int (volume s) @ ''\<newline>'')
      else if cmd = ''GET_VOL_MAX'' then ret (''VOL_MAX '' @ dec_int VOL_MIN @ ''\<newline>'')
      else if cmd = ''GET_VOL_MIN'' then ret (''VOL_MIN '' @ dec_int VOL_MAX @ ''\<newline>'')
      else if cmd = ''SET_SOURCE'' then strtol_arg ar (\<lambda>v. thenM (setSource E v) (ret ''OK\<newline>''))
      else if cmd = ''GET_SOURCE'' then gets (\<lambda>s. ''SOURCE '' @ dec_int (source s) @ ''\<newline>'')
      else if cmd = ''GET_SOURCES'' then ret (''SOURCES '' @ dec_int SOURCES @ ''\<newline>'')
      else if cmd = ''SET_GAIN'' then strtol_arg ar (\<lambda>v. thenM (setGain E v) (ret ''OK\<newline>''))
      else if cmd = ''GET_GAIN'' then gets (\<lambda>s. ''GAIN '' @ dec_int (gain s) @ ''\<newline>'')
      else if cmd = ''GET_MAX_GAIN'' then ret (''MAX_GAIN '' @ dec_int MAX_GAIN @ ''\<newline>'')
      else if cmd = ''SET_MUTE'' then strtol_arg ar (\<lambda>v. thenM (setMute (v \<noteq> 0)) (ret ''OK\<newline>''))
      else if cmd = ''GET_MUTE'' then gets (\<lambda>s. ''MUTE '' @ dec_int (if mute s then 1 else 0) @ ''\<newline>'')
      else if cmd = ''SAVE'' then thenM (modify (\<lambda>s. s\<lparr>saveSettings := True\<rparr>)) (ret ''OK\<newline>'')
      else ret ''ERR\<newline>'')"

text \<open>The two tokens of a line.\<close>

definition tokens :: "string \<Rightarrow> string option \<times> string option" where
  "tokens line = (let (cmd, rest) = strtok line in (cmd, fst (strtok rest)))"

section \<open>Callbacks\<close>

definition server_poll :: "env \<Rightarrow> int \<Rightarrow> ('z net_state_scheme, int) prog" where
  "server_poll E pcb =
     thenM (tcp_arg pcb 0)
    (thenM (tcp_recv pcb NULL)
    (thenM (tcp_err pcb NULL)
    (thenM (tcp_poll pcb NULL 0)
    (thenM (tcp_sent pcb NULL)
    (bindM (ext_ask E ''tcp_close'' [pcb]) (\<lambda>err.
     thenM (whenM (err \<noteq> 0) (tcp_poll pcb CB_server_poll 4))
           (ret err)))))))"

text \<open>
  A received buffer is the data of its first segment and the total length; \<open>None\<close> is the
  null pointer that reports the end of the connection.
\<close>

definition server_recv :: "env \<Rightarrow> int \<Rightarrow> (u8 list \<times> u16) option \<Rightarrow> int \<Rightarrow> ('z net_state_scheme, int) prog" where
  "server_recv E pcb p err =
     thenM
       (if err \<noteq> 0 then thenM (server_poll E pcb) (ret ())
        else
          case p of
            None \<Rightarrow> ret ()
          | Some (payload, tot_len) \<Rightarrow>
              (case tokens (recbuf_string payload) of
                 (None, _) \<Rightarrow> halt_with (Undefined ''strcmp(NULL)'')
               | (Some cmd, ar) \<Rightarrow>
                   bindM (server_command E cmd ar) (\<lambda>sendbuf.
                     ext_call ''tcp_write'' (pcb # map uint (bytes_of sendbuf)))))
    (thenM
       (case p of
          None \<Rightarrow> ret ()
        | Some (payload, tot_len) \<Rightarrow>
            thenM (ext_call ''tcp_recved'' [pcb, uint tot_len]) (ext_call ''pbuf_free'' []))
       (ret 0))"

definition server_sent :: "int \<Rightarrow> u16 \<Rightarrow> ('z net_state_scheme, int) prog" where
  "server_sent pcb len = ret 0"

definition server_err :: "int \<Rightarrow> ('z net_state_scheme, unit) prog" where
  "server_err err =
     (case lwip_strerr err of
        Some t \<Rightarrow> printf (''TCP error: '' @ t @ ''\<newline>'')
      | None \<Rightarrow> halt_with (Undefined ''err_strerr''))"

definition server_accept :: "int \<Rightarrow> int \<Rightarrow> int \<Rightarrow> ('z net_state_scheme, int) prog" where
  "server_accept a pcb err =
     thenM (tcp_accepted a)
    (thenM (tcp_arg pcb a)
    (thenM (tcp_recv pcb CB_server_recv)
    (thenM (tcp_sent pcb CB_server_sent)
    (thenM (tcp_err pcb CB_server_err)
    (thenM (tcp_poll pcb CB_server_poll 4)
           (ret 0))))))"

section \<open>Start-up\<close>

definition SERVER_PORT :: int where "SERVER_PORT = 80"

definition dotted :: "u32 \<Rightarrow> string" where
  "dotted a =
     dec_nat (unat (ucast (a AND 0xff) :: u8)) @ ''.'' @ dec_nat (unat (ucast (drop_bit 8 a AND 0xff) :: u8)) @ ''.'' @
     dec_nat (unat (ucast (drop_bit 16 a AND 0xff) :: u8)) @ ''.'' @ dec_nat (unat (ucast (drop_bit 24 a) :: u8))"

definition status_callback :: "env \<Rightarrow> ('z net_state_scheme, unit) prog" where
  "status_callback E =
     bindM (gets netif_flags) (\<lambda>flags.
       whenM (flags AND NETIF_FLAG_UP \<noteq> 0)
         (thenM (printf ''Link is up\<newline>'')
         (thenM (bindM (gets netif_ip_addr) (\<lambda>a. printf (''Address: '' @ dotted a @ ''\<newline>'')))
         (thenM (bindM (gets netif_netmask) (\<lambda>a. printf (''Mask: '' @ dotted a @ ''\<newline>'')))
         (thenM (bindM (gets netif_gw) (\<lambda>a. printf (''GW: '' @ dotted a @ ''\<newline>'')))
         (bindM (ext_ask E ''tcp_new'' []) (\<lambda>pcb.
            whenM (pcb \<noteq> 0)
              (bindM (ext_ask E ''tcp_bind'' [pcb, 0, SERVER_PORT]) (\<lambda>err.
                 whenM (err = 0)
                   (bindM (tcp_listen E pcb) (\<lambda>lpcb.
                      whenM (lpcb \<noteq> 0)
                        (thenM (tcp_arg lpcb lpcb)
                        (thenM (tcp_accept lpcb CB_server_accept)
                               (printf ''TCP server started\<newline>''))))))))))))))"

text \<open>In this configuration the other modules of lwIP have nothing to initialise.\<close>

definition lwip_init :: "env \<Rightarrow> ('z net_state_scheme, unit) prog" where
  "lwip_init E = thenM (ext_call ''stats_init'' []) (sys_timeouts_init E)"

definition netInit :: "env \<Rightarrow> ('z net_state_scheme, bool) prog" where
  "netInit E =
     thenM (seqM [
       GPIO_PinModeSet gpioPortD 4 gpioModeInput 1,
       GPIO_IntConfig gpioPortD 4 True True True,
       lwip_init E,
       thenM (netif_add (IP4_ADDR 192 168 1 10) (IP4_ADDR 255 255 255 0) (IP4_ADDR 192 168 1 1) (enc424j600_spi_init E)) (ret ()),
       netif_set_default True,
       netif_set_up (status_callback E),
       status_callback E])
     (ret True)"

text \<open>\<open>inp\<close> is \<^verbatim>\<open>ethernet_input\<close> and \<open>tmr\<close> the protocol timers, which are outside this model.\<close>

definition netIRQ ::
  "env \<Rightarrow> (io list \<Rightarrow> nat \<Rightarrow> nat list) \<Rightarrow> (u8 list list \<Rightarrow> ('z net_state_scheme, unit) prog)
     \<Rightarrow> ('z net_state_scheme, unit) prog" where
  "netIRQ E alloc inp = enc424j600_spi_poll E alloc inp"

definition netPeriodic ::
  "env \<Rightarrow> (timer_handler \<Rightarrow> ('z net_state_scheme, unit) prog) \<Rightarrow> ('z net_state_scheme, unit) prog" where
  "netPeriodic E tmr = sys_check_timeouts E (run_handler E tmr)"

section \<open>What the server promises\<close>

text \<open>
  The part of the state a client can see and change, the requests it can make, what each
  does and what it is answered. \<open>None\<close> stands for a line for which the code has no defined
  behaviour.
\<close>

record amp =
  amp_volume :: int
  amp_source :: int
  amp_gain :: int
  amp_mute :: bool
  amp_save :: bool

definition amp_of :: "'z preamp_state_scheme \<Rightarrow> amp" where
  "amp_of s = \<lparr>amp_volume = volume s, amp_source = source s, amp_gain = gain s, amp_mute = mute s,
     amp_save = saveSettings s\<rparr>"

datatype setting = Vol | Source | Gain | Mute

datatype request = Set setting int | Get setting | Limit string int | Save | Unknown

definition setters :: "(string \<times> setting) list" where
  "setters = [(''SET_VOL'', Vol), (''SET_SOURCE'', Source), (''SET_GAIN'', Gain), (''SET_MUTE'', Mute)]"

definition readers :: "(string \<times> request) list" where
  "readers = [(''GET_VOL'', Get Vol), (''GET_SOURCE'', Get Source), (''GET_GAIN'', Get Gain), (''GET_MUTE'', Get Mute),
     (''GET_VOL_MAX'', Limit ''VOL_MAX'' 0), (''GET_VOL_MIN'', Limit ''VOL_MIN'' 1600),
     (''GET_SOURCES'', Limit ''SOURCES'' 3), (''GET_MAX_GAIN'', Limit ''MAX_GAIN'' 3), (''SAVE'', Save)]"

definition request_of :: "string option \<times> string option \<Rightarrow> request option" where
  "request_of t =
     (case t of
        (None, _) \<Rightarrow> None
      | (Some cmd, a) \<Rightarrow>
          (case map_of setters cmd of
             Some what \<Rightarrow> map_option (\<lambda>x. Set what (strtol x)) a
           | None \<Rightarrow> Some (case map_of readers cmd of Some r \<Rightarrow> r | None \<Rightarrow> Unknown)))"

definition perform :: "request \<Rightarrow> amp \<Rightarrow> amp" where
  "perform r a =
     (case r of
        Set Vol v \<Rightarrow> a\<lparr>amp_volume := to_int16 v\<rparr>
      | Set Source v \<Rightarrow> a\<lparr>amp_source := v smod 3, amp_mute := True, amp_save := True\<rparr>
      | Set Gain v \<Rightarrow> a\<lparr>amp_gain := v smod 4, amp_save := True\<rparr>
      | Set Mute v \<Rightarrow> a\<lparr>amp_mute := (v \<noteq> 0)\<rparr>
      | Save \<Rightarrow> a\<lparr>amp_save := True\<rparr>
      | _ \<Rightarrow> a)"

definition answer :: "request \<Rightarrow> amp \<Rightarrow> string" where
  "answer r a =
     (case r of
        Set _ _ \<Rightarrow> ''OK\<newline>''
      | Save \<Rightarrow> ''OK\<newline>''
      | Get Vol \<Rightarrow> ''VOL '' @ dec_int (amp_volume a) @ ''\<newline>''
      | Get Source \<Rightarrow> ''SOURCE '' @ dec_int (amp_source a) @ ''\<newline>''
      | Get Gain \<Rightarrow> ''GAIN '' @ dec_int (amp_gain a) @ ''\<newline>''
      | Get Mute \<Rightarrow> ''MUTE '' @ (if amp_mute a then ''1'' else ''0'') @ ''\<newline>''
      | Limit name v \<Rightarrow> name @ '' '' @ dec_int v @ ''\<newline>''
      | Unknown \<Rightarrow> ''ERR\<newline>'')"

text \<open>What the connections were sent and how much received data was acknowledged, in order.\<close>

definition net_calls :: "io list \<Rightarrow> (string \<times> int list) list" where
  "net_calls tr = concat (map (\<lambda>e. case e of Ext f as \<Rightarrow> if f \<in> {''tcp_write'', ''tcp_recved'', ''pbuf_free''} then [(f, as)] else [] | _ \<Rightarrow> []) tr)"

lemma net_calls_append [simp]: "net_calls (xs @ ys) = net_calls xs @ net_calls ys"
  by (simp add: net_calls_def)

lemma net_calls_silent: "\<forall>e \<in> set tr. \<forall>f as. e \<noteq> Ext f as \<Longrightarrow> net_calls tr = []"
  by (auto simp: net_calls_def split: io.splits)

lemma net_calls_dac: "dac_step ws tr tr' \<Longrightarrow> net_calls tr' = net_calls tr"
  unfolding dac_step_def by (auto intro!: net_calls_silent)

lemma net_calls_preamp:
  "net_calls (led_calls on k) = []" "net_calls (mute_calls b k) = []" "net_calls (source_calls k r1 r2) = []"
  "net_calls (frame_calls c r1 v r2) = []"
  by (auto simp: led_calls_def mute_calls_def source_calls_def frame_calls_def net_calls_def)

lemma net_calls_timer: "\<forall>e \<in> set es. is_timer_call e \<Longrightarrow> net_calls es = []"
  by (rule net_calls_silent) (auto simp: is_timer_call_def)

text \<open>An operation of main.c as the server sees it.\<close>

definition serves :: "('z preamp_state_scheme, unit) prog \<Rightarrow> (amp \<Rightarrow> amp) \<Rightarrow> bool" where
  "serves m f \<longleftrightarrow> (\<forall>s. \<exists>t. m s = Ret () t \<and> amp_of t = f (amp_of s) \<and> net_calls (trace t) = net_calls (trace s))"

lemma serves_setVol: "i2c_responds E \<Longrightarrow> serves (setVol E (to_int16 v)) (perform (Set Vol v))"
  unfolding serves_def
proof
  fix s :: "'a preamp_state_scheme" assume "i2c_responds E"
  from setVol_run [OF this, of "to_int16 v" s]
  show "\<exists>t. setVol E (to_int16 v) s = Ret () t \<and> amp_of t = perform (Set Vol v) (amp_of s) \<and> net_calls (trace t) = net_calls (trace s)"
    by (auto simp: amp_of_def perform_def net_calls_dac)
qed

lemma serves_setSource: "timer_runs E \<Longrightarrow> serves (setSource E v) (perform (Set Source v))"
  unfolding serves_def
proof
  fix s :: "'a preamp_state_scheme" assume "timer_runs E"
  from setSource_run [OF this, of v s]
  show "\<exists>t. setSource E v s = Ret () t \<and> amp_of t = perform (Set Source v) (amp_of s) \<and> net_calls (trace t) = net_calls (trace s)"
    by (auto simp: amp_of_def perform_def net_calls_preamp net_calls_timer)
qed

lemma serves_setGain: "serves (setGain E v) (perform (Set Gain v))"
  unfolding serves_def
proof
  fix s :: "'a preamp_state_scheme"
  from setGain_run [of E v s]
  show "\<exists>t. setGain E v s = Ret () t \<and> amp_of t = perform (Set Gain v) (amp_of s) \<and> net_calls (trace t) = net_calls (trace s)"
    by (auto simp: amp_of_def perform_def net_calls_preamp)
qed

lemma serves_setMute: "serves (setMute (v \<noteq> 0)) (perform (Set Mute v))"
  unfolding serves_def by (simp add: setMute_run amp_of_def perform_def net_calls_preamp)

text \<open>A step that carries out a request, or stops where the code has no defined behaviour.\<close>

definition carries_out :: "request option \<Rightarrow> ('z net_state_scheme, string) prog \<Rightarrow> 'z net_state_scheme \<Rightarrow> bool" where
  "carries_out req m s =
     (case req of
        None \<Rightarrow> \<exists>h. m s = Halt (Undefined h) s
      | Some r \<Rightarrow> \<exists>t. m s = Ret (answer r (amp_of s)) t \<and> amp_of t = perform r (amp_of s) \<and>
          net_calls (trace t) = net_calls (trace s))"

lemma setter_carries_out:
  assumes "\<And>v. serves (m v) (perform (Set what v))"
  shows "carries_out (map_option (\<lambda>x. Set what (strtol x)) a) (strtol_arg a (\<lambda>v. thenM (m v) (ret ''OK\<newline>''))) s"
proof (cases a)
  case (Some x)
  obtain t where "m (strtol x) s = Ret () t" "amp_of t = perform (Set what (strtol x)) (amp_of s)"
    "net_calls (trace t) = net_calls (trace s)"
    using assms [of "strtol x"] unfolding serves_def by blast
  then show ?thesis using Some by (simp add: carries_out_def strtol_arg_def answer_def)
qed (simp add: carries_out_def strtol_arg_def)

lemma dec_int_01: "dec_int 1 = ''1''" "dec_int 0 = ''0''"
  by (simp_all add: dec_int_def dec_nat.simps digit_char_eq_iff)

lemma server_command_carries_out:
  assumes "timer_runs E" and "i2c_responds E"
  shows "carries_out (request_of (Some cmd, a)) (server_command E cmd a) s"
proof (cases "map_of setters cmd")
  case (Some what)
  then have "(cmd, what) \<in> set setters" by (rule map_of_SomeD)
  then consider "cmd = ''SET_VOL''" "what = Vol" | "cmd = ''SET_SOURCE''" "what = Source"
    | "cmd = ''SET_GAIN''" "what = Gain" | "cmd = ''SET_MUTE''" "what = Mute"
    by (auto simp: setters_def)
  then show ?thesis
    using setter_carries_out [OF serves_setVol [OF assms(2)]] setter_carries_out [OF serves_setSource [OF assms(1)]]
      setter_carries_out [OF serves_setGain] setter_carries_out [OF serves_setMute]
    by cases (simp_all add: request_of_def setters_def server_command_def)
next
  case None
  then have n: "cmd \<noteq> ''SET_VOL''" "cmd \<noteq> ''SET_SOURCE''" "cmd \<noteq> ''SET_GAIN''" "cmd \<noteq> ''SET_MUTE''"
    by (auto simp: setters_def)
  show ?thesis
  proof (cases "map_of readers cmd")
    case (Some r)
    then have "(cmd, r) \<in> set readers" by (rule map_of_SomeD)
    then have r: "carries_out (Some r) (server_command E cmd a) s"
      unfolding readers_def list.set insert_iff Pair_inject empty_iff simp_thms
      by (elim disjE conjE)
        (simp_all add: carries_out_def server_command_def answer_def perform_def amp_of_def dec_int_01)
    then show ?thesis using None Some by (simp add: request_of_def)
  next
    case u: None
    then have "cmd \<notin> fst ` set readers" by (simp add: map_of_eq_None_iff)
    then show ?thesis
      using None u n by (simp add: carries_out_def request_of_def server_command_def answer_def perform_def readers_def)
  qed
qed

lemma server_recv_protocol:
  assumes "timer_runs E" and "i2c_responds E"
  shows "case request_of (tokens (recbuf_string payload)) of
      None \<Rightarrow> \<exists>h. server_recv E pcb (Some (payload, n)) 0 s = Halt (Undefined h) s
    | Some r \<Rightarrow> \<exists>t. server_recv E pcb (Some (payload, n)) 0 s = Ret 0 t \<and> amp_of t = perform r (amp_of s) \<and>
        net_calls (trace t) = net_calls (trace s) @
          [(''tcp_write'', pcb # map uint (bytes_of (answer r (amp_of s)))), (''tcp_recved'', [pcb, uint n]), (''pbuf_free'', [])]"
proof -
  obtain c a where t: "tokens (recbuf_string payload) = (c, a)" by fastforce
  show ?thesis
  proof (cases c)
    case None
    then show ?thesis using t by (simp add: request_of_def server_recv_def)
  next
    case (Some cmd)
    have co: "carries_out (request_of (Some cmd, a)) (server_command E cmd a) s"
      by (rule server_command_carries_out [OF assms])
    show ?thesis
    proof (cases "request_of (Some cmd, a)")
      case None
      then show ?thesis using t Some co by (auto simp: carries_out_def server_recv_def)
    next
      case (Some r)
      with co obtain u where "server_command E cmd a s = Ret (answer r (amp_of s)) u"
        "amp_of u = perform r (amp_of s)" "net_calls (trace u) = net_calls (trace s)"
        by (auto simp: carries_out_def)
      then show ?thesis
        using t \<open>c = Some cmd\<close> Some by (simp add: server_recv_def amp_of_def) (simp add: net_calls_def)
    qed
  qed
qed

text \<open>
  C3. The command server implements its protocol: for any bytes of a received segment, if the line
  makes a request, the callback returns; the volume, source, gain, mute and save state of the
  preamplifier are those the request asks for; exactly one reply is sent, the answer to the
  request, and then all received data is acknowledged and the buffer freed, once. A line without a token, or a
  setting without an argument, makes the code read through a null pointer.
\<close>

theorem server_implements_protocol:
  assumes "timer_runs E" and "i2c_responds E"
  shows "case request_of (tokens (recbuf_string payload)) of
      None \<Rightarrow> \<exists>h. server_recv E pcb (Some (payload, n)) 0 s = Halt (Undefined h) s
    | Some r \<Rightarrow> \<exists>t. server_recv E pcb (Some (payload, n)) 0 s = Ret 0 t \<and> amp_of t = perform r (amp_of s) \<and>
        net_calls (trace t) = net_calls (trace s) @
          [(''tcp_write'', pcb # map uint (bytes_of (answer r (amp_of s)))), (''tcp_recved'', [pcb, uint n]), (''pbuf_free'', [])]"
  by (rule server_recv_protocol [OF assms])

text \<open>A complete state, used to instantiate the properties.\<close>

definition blank_pcb :: tcp_pcb where
  "blank_pcb = \<lparr>pcb_state = CLOSED, callback_arg = 0, recv = NULL, sent = NULL, errf = NULL, poll = NULL,
     pollinterval = 0, accept = NULL\<rparr>"

definition blank_net :: net_state where
  "blank_net = timers_state.extend blank_timers \<lparr>pcbs = (\<lambda>_. blank_pcb)\<rparr>"

lemma recbuf_bytes_of [simp]: "is_cstring t \<Longrightarrow> recbuf_string (bytes_of t) = t"
proof -
  assume "is_cstring t"
  then have tw: "takeWhile (\<lambda>b. b \<noteq> 0) (bytes_of t) = bytes_of t"
    by (auto simp: is_cstring_bytes takeWhile_eq_all_conv)
  have m: "map char_of_byte (bytes_of t) = t" by (simp add: bytes_of_def o_def)
  show ?thesis by (simp only: recbuf_string_def tw m)
qed

lemma blank_net_fields: "mute blank_net = False" "volume blank_net = 1600"
  by (simp_all add: blank_net_def blank_timers_def timers_state.extend_def preamp_state.extend_def blank_preamp_def)

theorem server_implements_protocol_witness:
  "\<exists>t. server_recv ideal_env 7 (Some (bytes_of ''GET_MUTE'', 8)) 0 blank_net = Ret 0 t \<and>
     net_calls (trace t) = net_calls (trace blank_net) @
       [(''tcp_write'', 7 # map uint (bytes_of ''MUTE 0\<newline>'')), (''tcp_recved'', [7, 8]), (''pbuf_free'', [])]"
proof -
  have r: "request_of (tokens (recbuf_string (bytes_of ''GET_MUTE''))) = Some (Get Mute)"
    by (simp add: is_cstring_def request_of_def tokens_def strtok_def delims_def Let_def setters_def readers_def)
  have a: "answer (Get Mute) (amp_of blank_net) = ''MUTE 0\<newline>''"
    by (simp add: answer_def amp_of_def blank_net_fields)
  show ?thesis
    using server_implements_protocol [OF ideal_env_timer(1) ideal_env_i2c,
        where payload = "bytes_of ''GET_MUTE''" and pcb = 7 and n = 8 and s = blank_net]
    unfolding r a option.case by auto
qed

section \<open>Setting and reading back\<close>

lemma tokens_line:
  assumes "cmd \<noteq> []" and "\<forall>c \<in> set cmd. c \<notin> set delims"
  shows "tokens (cmd @ '' '' @ dec_int v @ ''\<newline>'') = (Some cmd, Some (dec_int v))"
    and "tokens (cmd @ ''\<newline>'') = (Some cmd, None)"
proof -
  have d: "CHR '' '' \<in> set delims" "CHR 0x0A \<in> set delims" by (simp_all add: delims_def)
  have v: "dec_int v \<noteq> []" "\<forall>c \<in> set (dec_int v). c \<notin> set delims"
    using dec_int_no_delims by (auto simp: dec_int_def)
  have "strtok (cmd @ CHR '' '' # (dec_int v @ ''\<newline>'')) = (Some cmd, dec_int v @ ''\<newline>'')"
    by (rule strtok_word(1) [OF assms d(1)])
  moreover have "strtok (dec_int v @ [CHR 0x0A]) = (Some (dec_int v), [])"
    by (rule strtok_word(1) [OF v d(2)])
  ultimately show "tokens (cmd @ '' '' @ dec_int v @ ''\<newline>'') = (Some cmd, Some (dec_int v))"
    by (simp add: tokens_def)
  have "strtok (cmd @ [CHR 0x0A]) = (Some cmd, [])" by (rule strtok_word(1) [OF assms d(2)])
  then show "tokens (cmd @ ''\<newline>'') = (Some cmd, None)" by (simp add: tokens_def) (simp add: strtok_def)
qed

lemma setter_words: "(cmd, what) \<in> set setters \<Longrightarrow> cmd \<noteq> [] \<and> (\<forall>c \<in> set cmd. c \<notin> set delims) \<and> is_cstring cmd"
  by (auto simp: setters_def delims_def is_cstring_def)

lemma is_cstring_append [simp]: "is_cstring (a @ b) \<longleftrightarrow> is_cstring a \<and> is_cstring b"
  by (auto simp: is_cstring_def)

text \<open>A client that sends a number in decimal sets exactly that number.\<close>

lemma request_of_set:
  assumes "(cmd, what) \<in> set setters" and "- (2 ^ 31) \<le> v" and "v < 2 ^ 31"
  shows "request_of (tokens (recbuf_string (bytes_of (cmd @ '' '' @ dec_int v @ ''\<newline>'')))) = Some (Set what v)"
proof -
  note w = setter_words [OF assms(1)]
  then have c: "is_cstring (cmd @ '' '' @ dec_int v @ ''\<newline>'')"
    using dec_int_cstring [of v] by simp (simp add: is_cstring_def)
  have m: "map_of setters cmd = Some what"
    using assms(1) by (rule map_of_is_SomeI [rotated]) (simp add: setters_def)
  from w have "tokens (cmd @ '' '' @ dec_int v @ ''\<newline>'') = (Some cmd, Some (dec_int v))"
    by (intro tokens_line) blast+
  then show ?thesis
    using assms(2,3) m by (simp only: recbuf_bytes_of [OF c] request_of_def prod.case option.case option.map strtol_dec_int)
qed

text \<open>
  A client reads back the volume it set: after \<^verbatim>\<open>SET_VOL\<close> with any 16-bit number in decimal the
  volume is that number, and the reply to a following \<^verbatim>\<open>GET_VOL\<close> is that number, in decimal; the
  second command changes nothing.
\<close>

theorem volume_set_and_read_back:
  assumes "timer_runs E" and "i2c_responds E" and "- 32768 \<le> v" and "v < 32768"
  shows "\<exists>t u. server_recv E pcb (Some (bytes_of (''SET_VOL '' @ dec_int v @ ''\<newline>''), n)) 0 s = Ret 0 t \<and> volume t = v \<and>
    server_recv E pcb (Some (bytes_of ''GET_VOL\<newline>'', m)) 0 t = Ret 0 u \<and> amp_of u = amp_of t \<and>
    net_calls (trace u) = net_calls (trace t) @
      [(''tcp_write'', pcb # map uint (bytes_of (''VOL '' @ dec_int v @ ''\<newline>''))), (''tcp_recved'', [pcb, uint m]), (''pbuf_free'', [])]"
proof -
  have set: "request_of (tokens (recbuf_string (bytes_of (''SET_VOL'' @ '' '' @ dec_int v @ ''\<newline>'')))) = Some (Set Vol v)"
    using assms(3,4) by (intro request_of_set) (simp_all add: setters_def)
  have get: "request_of (tokens (recbuf_string (bytes_of ''GET_VOL\<newline>''))) = Some (Get Vol)"
    by (simp add: is_cstring_def request_of_def tokens_def strtok_def delims_def Let_def setters_def readers_def)
  obtain t where t: "server_recv E pcb (Some (bytes_of (''SET_VOL'' @ '' '' @ dec_int v @ ''\<newline>''), n)) 0 s = Ret 0 t"
    "amp_of t = perform (Set Vol v) (amp_of s)"
    using server_recv_protocol [OF assms(1,2), where payload = "bytes_of (''SET_VOL'' @ '' '' @ dec_int v @ ''\<newline>'')" and n = n and pcb = pcb and s = s]
    unfolding set option.case by blast
  have v: "volume t = v"
    using t(2) assms(3,4) by (simp add: amp_of_def perform_def to_int16_id)
  then have a: "answer (Get Vol) (amp_of t) = ''VOL '' @ dec_int v @ ''\<newline>''" by (simp add: answer_def amp_of_def)
  have p: "perform (Get Vol) (amp_of t) = amp_of t" by (simp add: perform_def)
  show ?thesis
    using t v server_recv_protocol [OF assms(1,2), where payload = "bytes_of ''GET_VOL\<newline>''" and n = m and pcb = pcb and s = t]
    unfolding get option.case a p by auto
qed

theorem volume_set_and_read_back_witness:
  "\<exists>t. server_recv ideal_env 7 (Some (bytes_of (''SET_VOL '' @ dec_int 800 @ ''\<newline>''), 12)) 0 blank_net = Ret 0 t \<and> volume t = 800"
  using volume_set_and_read_back [OF ideal_env_timer(1) ideal_env_i2c, where v = 800 and n = 12 and pcb = 7 and s = blank_net]
  by (simp only: arith_simps rel_simps simp_thms) blast

lemma length_answer:
  assumes "\<bar>amp_volume a\<bar> < 10 ^ 10" and "\<bar>amp_source a\<bar> < 10 ^ 10" and "\<bar>amp_gain a\<bar> < 10 ^ 10"
    and "request_of (Some cmd, ar) = Some r"
  shows "length (answer r a) < 80"
proof -
  note l = length_dec_int [OF assms(1)] length_dec_int [OF assms(2)] length_dec_int [OF assms(3)]
  have "length name \<le> 10 \<and> \<bar>v\<bar> < 10 ^ 10" if "r = Limit name v" for name v
    using assms(4) that
    by (auto simp: request_of_def readers_def setters_def split: option.splits if_splits)
  then show ?thesis
    using l length_dec_int by (cases r rule: request.exhaust) (fastforce simp: answer_def split: setting.split)+
qed

text \<open>
  C22. Replies fit the buffer: as long as volume, source and gain have at most ten digits, as all 32-bit numbers have, every
  reply the server formats, for any command and argument, fits \<^verbatim>\<open>sendbuf\<close> together with its terminator.
\<close>

theorem replies_fit_buffer:
  assumes "\<bar>volume s\<bar> < 10 ^ 10" and "\<bar>source s\<bar> < 10 ^ 10" and "\<bar>gain s\<bar> < 10 ^ 10"
    and "timer_runs E" and "i2c_responds E" and "server_command E cmd ar s = Ret reply t"
  shows "length (cstr reply) \<le> SENDBUF_SIZE"
proof -
  have "carries_out (request_of (Some cmd, ar)) (server_command E cmd ar) s"
    by (rule server_command_carries_out [OF assms(4,5)])
  then obtain r where r: "request_of (Some cmd, ar) = Some r" "reply = answer r (amp_of s)"
    using assms(6) by (auto simp: carries_out_def split: option.splits)
  have "length (answer r (amp_of s)) < 80"
    using assms(1-3) by (intro length_answer [OF _ _ _ r(1)]) (simp_all add: amp_of_def)
  then show ?thesis using r(2) by (simp add: cstr_def SENDBUF_SIZE_def)
qed

theorem replies_fit_buffer_witness:
  "\<exists>reply t. server_command ideal_env ''GET_VOL'' None blank_net = Ret reply t \<and> reply = ''VOL '' @ dec_int 1600 @ ''\<newline>'' \<and>
     \<bar>volume blank_net\<bar> < 10 ^ 10 \<and> length (cstr reply) \<le> SENDBUF_SIZE"
proof -
  have c: "server_command ideal_env ''GET_VOL'' None blank_net = Ret (''VOL '' @ dec_int 1600 @ ''\<newline>'') blank_net"
    by (simp add: server_command_def blank_net_fields)
  have s: "\<bar>volume blank_net\<bar> < 10 ^ 10" "\<bar>source blank_net\<bar> < 10 ^ 10" "\<bar>gain blank_net\<bar> < 10 ^ 10"
    by (simp_all add: blank_net_def blank_timers_def timers_state.extend_def preamp_state.extend_def blank_preamp_def)
  show ?thesis
    using c s(1) replies_fit_buffer [OF s ideal_env_timer(1) ideal_env_i2c c] by blast
qed

section \<open>The life of a connection\<close>

lemma upd_pcb_run: "upd_pcb pcb f s = Ret () (s\<lparr>pcbs := (pcbs s)(pcb := f (pcbs s pcb))\<rparr>)"
  by (simp add: upd_pcb_def)

lemma not_listening_run: "pcb_state (pcbs s pcb) \<noteq> LISTEN \<Longrightarrow> not_listening pcb msg s = Ret () s"
  by (simp add: not_listening_def)

lemmas tcp_cb_defs = tcp_arg_def tcp_recv_def tcp_sent_def tcp_err_def tcp_poll_def tcp_accept_def

lemma tcp_cb_run:
  "tcp_arg pcb a s = Ret () (s\<lparr>pcbs := (pcbs s)(pcb := (pcbs s pcb)\<lparr>callback_arg := a\<rparr>)\<rparr>)"
  "pcb_state (pcbs s pcb) \<noteq> LISTEN \<Longrightarrow> tcp_recv pcb f s = Ret () (s\<lparr>pcbs := (pcbs s)(pcb := (pcbs s pcb)\<lparr>recv := f\<rparr>)\<rparr>)"
  "pcb_state (pcbs s pcb) \<noteq> LISTEN \<Longrightarrow> tcp_sent pcb f s = Ret () (s\<lparr>pcbs := (pcbs s)(pcb := (pcbs s pcb)\<lparr>sent := f\<rparr>)\<rparr>)"
  "pcb_state (pcbs s pcb) \<noteq> LISTEN \<Longrightarrow> tcp_err pcb f s = Ret () (s\<lparr>pcbs := (pcbs s)(pcb := (pcbs s pcb)\<lparr>errf := f\<rparr>)\<rparr>)"
  "pcb_state (pcbs s pcb) \<noteq> LISTEN \<Longrightarrow>
     tcp_poll pcb f n s = Ret () (s\<lparr>pcbs := (pcbs s)(pcb := (pcbs s pcb)\<lparr>poll := f, pollinterval := n\<rparr>)\<rparr>)"
  by (simp_all add: tcp_cb_defs upd_pcb_run thenM_Ret [OF not_listening_run])

text \<open>A control block with the callbacks of the server, and one they have been taken from.\<close>

definition served :: "int \<Rightarrow> tcp_pcb \<Rightarrow> tcp_pcb" where
  "served lpcb p = p\<lparr>callback_arg := lpcb, recv := CB_server_recv, sent := CB_server_sent, errf := CB_server_err,
     poll := CB_server_poll, pollinterval := 4\<rparr>"

definition unserved :: "int \<Rightarrow> tcp_pcb \<Rightarrow> tcp_pcb" where
  "unserved err p = p\<lparr>callback_arg := 0, recv := NULL, sent := NULL, errf := NULL,
     poll := (if err = 0 then NULL else CB_server_poll), pollinterval := (if err = 0 then 0 else 4)\<rparr>"

lemma unserved_served: "unserved err (served l p) = unserved err p" "pcb_state (served l p) = pcb_state p"
  by (cases p, simp add: served_def unserved_def) (simp add: served_def)

lemma server_accept_run:
  assumes "pcb_state (pcbs s lpcb) = LISTEN" and "pcb_state (pcbs s pcb) \<noteq> LISTEN"
  shows "server_accept lpcb pcb err s = Ret 0 (s\<lparr>pcbs := (pcbs s)(pcb := served lpcb (pcbs s pcb))\<rparr>)"
  using assms by (simp add: server_accept_def tcp_accepted_def tcp_cb_run served_def)

lemma server_poll_run:
  assumes "pcb_state (pcbs s pcb) \<noteq> LISTEN"
  shows "\<exists>err. server_poll E pcb s = Ret err (s\<lparr>pcbs := (pcbs s)(pcb := unserved err (pcbs s pcb)), trace := trace s @ [Ext ''tcp_close'' [pcb]]\<rparr>) \<and>
    err = env_call E (trace s @ [Ext ''tcp_close'' [pcb]]) ''tcp_close''"
proof -
  define p where "p = pcbs s pcb"
  define err where "err = env_call E (trace s @ [Ext ''tcp_close'' [pcb]]) ''tcp_close''"
  let ?q = "p\<lparr>callback_arg := 0, recv := NULL, errf := NULL, poll := NULL, pollinterval := 0, sent := NULL\<rparr>"
  let ?s = "s\<lparr>pcbs := (pcbs s)(pcb := ?q), trace := trace s @ [Ext ''tcp_close'' [pcb]]\<rparr>"
  have "server_poll E pcb s = thenM (whenM (err \<noteq> 0) (tcp_poll pcb CB_server_poll 4)) (ret err) ?s"
    using assms by (simp add: server_poll_def tcp_cb_run err_def p_def)
  also have "\<dots> = Ret err (s\<lparr>pcbs := (pcbs s)(pcb := unserved err p), trace := trace s @ [Ext ''tcp_close'' [pcb]]\<rparr>)"
    using assms by (cases "err = 0"; cases p) (simp_all add: whenM_def tcp_cb_run unserved_def p_def [symmetric])
  finally show ?thesis unfolding p_def err_def by blast
qed

text \<open>
  The life of a connection: accepting one on the listening block registers the four callbacks of the server and a
  poll every fourth coarse tick; the first poll takes all callbacks away and closes the
  connection, whether or not the client is still using it, and polls again only when closing
  failed. No other control block changes.
\<close>

theorem connection_is_closed_at_first_poll:
  assumes "pcb_state (pcbs s lpcb) = LISTEN" and "pcb_state (pcbs s pcb) \<noteq> LISTEN"
  shows "\<exists>t u err. server_accept lpcb pcb 0 s = Ret 0 t \<and>
      pcbs t = (pcbs s)(pcb := served lpcb (pcbs s pcb)) \<and>
      server_poll E pcb t = Ret err u \<and> trace u = trace t @ [Ext ''tcp_close'' [pcb]] \<and>
      err = env_call E (trace u) ''tcp_close'' \<and>
      pcbs u = (pcbs s)(pcb := unserved err (pcbs s pcb))"
proof -
  let ?t = "s\<lparr>pcbs := (pcbs s)(pcb := served lpcb (pcbs s pcb))\<rparr>"
  have "pcb_state (pcbs ?t pcb) \<noteq> LISTEN" using assms(2) by (simp add: unserved_served)
  from server_poll_run [OF this, of E] show ?thesis
    using server_accept_run [OF assms] by (auto simp: unserved_served)
qed

theorem connection_is_closed_at_first_poll_witness:
  "\<exists>t u. server_accept 1 2 0 (blank_net\<lparr>pcbs := (\<lambda>_. blank_pcb)(1 := blank_pcb\<lparr>pcb_state := LISTEN\<rparr>)\<rparr>) = Ret 0 t \<and>
     server_poll ideal_env 2 t = Ret 0 u \<and> poll (pcbs t 2) = CB_server_poll \<and> poll (pcbs u 2) = NULL"
  using connection_is_closed_at_first_poll [of "blank_net\<lparr>pcbs := (\<lambda>_. blank_pcb)(1 := blank_pcb\<lparr>pcb_state := LISTEN\<rparr>)\<rparr>" 1 2 ideal_env]
  by (auto simp: blank_pcb_def ideal_env_def served_def unserved_def)

end
