(* ===== verification/Frame.thy ===== *)
theory Frame
  imports Net
begin

text \<open>
  What the drivers leave alone. A run is calm when it changes neither the settings of the
  preamplifier nor the settings table, and none of its calls writes to the DAC or drives the mute
  relay; only the mute countdown may advance with the tick interrupts taken meanwhile. The lemmas show it of every function
  of the drivers and of the network code below the command server.
\<close>

section \<open>Calm runs\<close>

definition harmless :: "io \<Rightarrow> bool" where
  "harmless e \<longleftrightarrow> dac_write_of e = None \<and> pin_effect MUTE_PORT MUTE_BIT e = None"

lemma harmless_simps [simp]:
  "harmless (Ext f as)" "harmless (PinGet p b v)" "harmless (Spi u x y)" "harmless I2cPoll"
  "harmless (RegSet r v32)" "harmless (RegGet r v32)" "harmless (TimerSet v32)" "harmless (TimerGet v32)" "harmless (Printf t)"
  "harmless (PinSet p b) \<longleftrightarrow> \<not> (p = MUTE_PORT \<and> b = MUTE_BIT)"
  "harmless (PinClear p b) \<longleftrightarrow> \<not> (p = MUTE_PORT \<and> b = MUTE_BIT)"
  "harmless (PinMode p b m out) \<longleftrightarrow> \<not> (p = MUTE_PORT \<and> b = MUTE_BIT)"
  by (auto simp: harmless_def dac_write_of_def)

text \<open>The countdown after some ticks.\<close>

definition counted :: "int \<Rightarrow> int \<Rightarrow> bool" where
  "counted c d \<longleftrightarrow> (if 0 < c then 0 \<le> d \<and> d \<le> c else d = c)"

definition calm :: "'z preamp_state_scheme \<Rightarrow> 'z preamp_state_scheme \<Rightarrow> bool" where
  "calm s t \<longleftrightarrow>
     volume t = volume s \<and> last_phase t = last_phase s \<and> dacMuted t = dacMuted s \<and> mute t = mute s \<and>
     source t = source s \<and> gain t = gain s \<and> saveSettings t = saveSettings s \<and> init t = init s \<and>
     configMem t = configMem s \<and> flash t = flash s \<and> counted (muteCounter s) (muteCounter t) \<and>
     (\<exists>es. trace t = trace s @ es \<and> list_all harmless es)"

interpretation calm: frame_relation calm
proof
  show "calm s s" for s :: "'z preamp_state_scheme" by (simp add: calm_def counted_def)
next
  fix s t u :: "'z preamp_state_scheme"
  assume st: "calm s t" and tu: "calm t u"
  have "counted (muteCounter s) (muteCounter u)"
    using st tu by (auto simp: calm_def counted_def split: if_splits)
  moreover obtain es fs where "trace t = trace s @ es" "list_all harmless es" "trace u = trace t @ fs" "list_all harmless fs"
    using st tu by (auto simp: calm_def)
  ultimately show "calm s u" using st tu by (auto simp: calm_def)
qed

lemma calm_emit: "harmless e \<Longrightarrow> keeps calm (emit e)"
  by (simp add: keeps_def calm_def counted_def)

text \<open>An assignment to variables the relation does not look at.\<close>

lemma calm_modify:
  "(\<And>s. trace (f s) = trace s \<and> volume (f s) = volume s \<and> last_phase (f s) = last_phase s \<and> dacMuted (f s) = dacMuted s \<and>
     mute (f s) = mute s \<and> source (f s) = source s \<and> gain (f s) = gain s \<and> saveSettings (f s) = saveSettings s \<and> init (f s) = init s \<and>
     configMem (f s) = configMem s \<and> flash (f s) = flash s \<and> muteCounter (f s) = muteCounter s) \<Longrightarrow>
   keeps calm (modify f)"
  by (rule calm.keeps_modify) (simp add: calm_def counted_def)

lemma calm_calls:
  "keeps calm (ext_call f as)" "keeps calm (printf t)" "keeps calm (reg_set r v)" "keeps calm (TIMER_CounterSet v)"
  "\<not> (p = MUTE_PORT \<and> b = MUTE_BIT) \<Longrightarrow> keeps calm (GPIO_PinModeSet p b m out)"
  "\<not> (p = MUTE_PORT \<and> b = MUTE_BIT) \<Longrightarrow> keeps calm (GPIO_PinOutSet p b)"
  "\<not> (p = MUTE_PORT \<and> b = MUTE_BIT) \<Longrightarrow> keeps calm (GPIO_PinOutClear p b)"
  by (simp_all add: call_defs calm_emit)

lemma calm_reads:
  "keeps calm (GPIO_PinInGet E p b)" "keeps calm (USART_SpiTransfer E u x)" "keeps calm (reg_get E r)"
  "keeps calm (TIMER_CounterGet E)" "keeps calm (ext_ask E f as)" "keeps calm (panic msg)" "keeps calm (lwip_assert_fails msg)"
  unfolding GPIO_PinInGet_def USART_SpiTransfer_def reg_get_def TIMER_CounterGet_def ext_ask_def panic_def lwip_assert_fails_def
  by (intro calm.keeps_intros calm_calls calm_emit harmless_simps)+

lemmas calm_rules = calm.keeps_intros calm_calls calm_reads

lemma calm_delays: "keeps calm (wait_flag E r)" "keeps calm (usleep E us)" "keeps calm (GPIO_IntConfig p b x y z)"
  unfolding wait_flag_def usleep_def GPIO_IntConfig_def by (intro calm_rules)+

lemma calm_SysTick: "keeps calm SysTick_Handler"
  unfolding SysTick_Handler_def by (rule calm.keeps_modify) (simp add: calm_def counted_def)

lemma calm_ticks: "keeps calm (read_msTicks E)" "keeps calm (msleep E ms)"
  unfolding msleep_def read_msTicks_def
  by (intro calm_rules calm_SysTick calm_emit harmless_simps)+

section \<open>FPGA and console\<close>

lemma calm_fpga:
  "keeps calm (fpgaSelectSource E src)" "keeps calm (fpgaSetGain E gn)" "keeps calm (readMagic E)" "keeps calm (fpgaInit E src gn)"
  unfolding fpgaSelectSource_def fpgaSetGain_def readMagic_def fpgaInit_def
  by (auto intro!: calm_rules calm_delays)

section \<open>Card\<close>

lemma calm_XferSpi: "keeps calm (MICROSD_XferSpi E d)"
  unfolding MICROSD_XferSpi_def by (intro calm_rules calm_modify) simp

lemma calm_xfer_while: "keeps calm (xfer_while E c n)"
  by (induction n) (auto simp only: xfer_while.simps intro!: calm_rules calm_XferSpi)

lemma calm_sd:
  "keeps calm (WaitReady E)" "keeps calm MICROSD_Init" "keeps calm (MICROSD_Deselect E)" "keeps calm (MICROSD_PowerOn)"
  "keeps calm MICROSD_SpiClkSlow" "keeps calm MICROSD_SpiClkFast" "keeps calm (MICROSD_TimeOutSet ms)" "keeps calm MICROSD_TimeOutElapsed"
  unfolding WaitReady_def MICROSD_Init_def MICROSD_Deselect_def MICROSD_PowerOn_def MICROSD_SpiClkSlow_def
    MICROSD_SpiClkFast_def MICROSD_TimeOutSet_def MICROSD_TimeOutElapsed_def
  by (auto intro!: calm_rules calm_modify calm_XferSpi calm_xfer_while)

lemma calm_sd_select: "keeps calm (MICROSD_Select E)" "keeps calm (MICROSD_PowerOff E)"
  unfolding MICROSD_PowerOff_def MICROSD_Select_def by (auto intro!: calm_rules calm_sd)

lemma calm_SendCmd: "keeps calm (MICROSD_SendCmd E cmd a)"
  unfolding MICROSD_SendCmd_def send_cmd_body_def send_packet_def
  by (auto intro!: calm_rules calm_sd calm_sd_select calm_XferSpi calm_xfer_while)

lemma calm_leave_idle: "keeps calm (wait_leave_idle E cmd a n)" "keeps calm (leave_idle E cmd a)"
proof -
  show "keeps calm (wait_leave_idle E cmd a n)" for n
    by (induction n) (auto simp only: wait_leave_idle.simps intro!: calm_rules calm_sd calm_SendCmd)
  then show "keeps calm (leave_idle E cmd a)"
    unfolding leave_idle_def by (auto intro!: calm_rules)
qed

lemma calm_identify: "keeps calm (identify E)"
  unfolding identify_def identify_v2_def identify_v1_def read4_def Let_def
  by (auto intro!: calm_rules calm_sd calm_SendCmd calm_leave_idle calm_XferSpi)

lemma calm_disk_initialize: "keeps calm (disk_initialize E d)"
  unfolding disk_initialize_def finish_init_def
  by (auto intro!: calm_rules calm_modify calm_sd calm_sd_select calm_identify calm_XferSpi)

lemma calm_f_mount: "keeps calm (f_mount fs p)"
  unfolding f_mount_def by (auto intro!: calm_rules calm_modify)

lemma calm_mount_retry: "keeps calm (mount_retry E n)"
  by (induction n) (auto simp only: mount_retry.simps intro!: calm_rules calm_sd calm_disk_initialize calm_ticks)

lemma calm_socket: "keeps calm (mountUnmount E)" "keeps calm (sdInit E)"
  unfolding sdInit_def mountUnmount_def Let_def
  by (auto intro!: calm_rules calm_modify calm_f_mount calm_mount_retry calm_delays)

section \<open>Ethernet driver and interface\<close>

lemma calm_spi_transfer: "keeps calm (spi_transfer E txs d)"
proof -
  have "keeps calm (spi_bytes E txs)" for txs
    by (induction txs) (auto simp only: spi_bytes.simps intro!: calm_rules)
  then show ?thesis unfolding spi_transfer_def by (auto intro!: calm_rules)
qed

lemma calm_enc_ops:
  "keeps calm (simple_operation E opc)" "keeps calm (banked_register_operation E opc adr buf)"
  "keeps calm (unbanked_register_operation E opc adr buf)"
  unfolding simple_operation_def banked_register_operation_def unbanked_register_operation_def
  by (intro calm_rules calm_spi_transfer)+

lemma calm_enc_rw:
  "keeps calm (banked_write E opc adr buf)" "keeps calm (banked_read E adr n)" "keeps calm (unbanked_write E opc adr buf)"
  "keeps calm (unbanked_read E adr n)" "keeps calm (set_pointer E opc v)" "keeps calm (read_from_rx_buffer E n)"
  "keeps calm (read_esa_u E)"
  unfolding banked_write_def banked_read_def unbanked_write_def unbanked_read_def set_pointer_def read_from_rx_buffer_def read_esa_u_def
  by (intro calm_rules calm_enc_ops calm_spi_transfer)+

lemma calm_enc_set: "keeps calm (write_phy E pr v)" "keeps calm (set_MAC E st)" "keeps calm spiInit"
  unfolding write_phy_def set_MAC_def spiInit_def by (auto intro!: calm_rules calm_enc_rw)

lemma calm_spi_ready: "keeps calm (spi_ready E n)"
  by (induction n) (auto simp only: spi_ready.simps intro!: calm_rules calm_enc_rw calm_delays)

lemma calm_clk_ready: "keeps calm (clk_ready E i)"
proof (induction E i rule: clk_ready.induct)
  case (1 E i)
  then show ?case by (subst clk_ready.simps) (auto intro!: calm_rules calm_enc_rw calm_delays)
qed

lemma calm_enc_init: "keeps calm (hw_init E)" "keeps calm (enc424j600_spi_start E)" "keeps calm (enc424j600_spi_init E)"
proof -
  show h: "keeps calm (hw_init E)"
    unfolding hw_init_def
    by (intro calm_rules calm_modify calm_enc_ops calm_enc_rw calm_enc_set calm_spi_ready calm_clk_ready calm_delays) simp
  show s: "keeps calm (enc424j600_spi_start E)"
    unfolding enc424j600_spi_start_def
    by (intro calm_rules calm_modify calm_enc_ops calm_enc_rw calm_enc_set) simp_all
  show "keeps calm (enc424j600_spi_init E)"
    unfolding enc424j600_spi_init_def by (intro calm_rules calm_modify h s) simp
qed

lemma calm_netif_link: "keeps calm netif_set_link_up" "keeps calm netif_set_link_down"
  unfolding netif_set_link_up_def netif_set_link_down_def by (intro calm_rules calm_modify, simp)+

lemma calm_events:
  "keeps calm (enc424j600_spi_LINKevent E)" "keeps calm (enc424j600_spi_PCFULevent E)" "keeps calm (enc424j600_spi_RXABTevent E)"
  "keeps calm (enc424j600_spi_TXevent E)" "keeps calm (enc424j600_spi_TXABTevent E)"
  unfolding enc424j600_spi_LINKevent_def enc424j600_spi_PCFULevent_def enc424j600_spi_RXABTevent_def
    enc424j600_spi_TXevent_def enc424j600_spi_TXABTevent_def
  by (intro calm_rules calm_modify calm_enc_ops calm_enc_rw calm_enc_set calm_netif_link; simp)+

lemma calm_read_segments: "keeps calm (read_segments E ns)"
  by (induction ns) (auto simp only: read_segments.simps intro!: calm_rules calm_enc_rw)

lemma calm_netif:
  "keeps calm (netif_set_ipaddr a)" "keeps calm (netif_set_netmask a)" "keeps calm (netif_set_gw a)"
  "keeps calm (netif_set_addr a b c)" "keeps calm (netif_set_default d)"
  unfolding netif_set_addr_def netif_set_ipaddr_def netif_set_netmask_def netif_set_gw_def netif_set_default_def
  by (intro calm_rules calm_modify; simp)+

section \<open>Timers and start-up of the network\<close>

lemma calm_sys_now: "keeps calm (sys_now E)"
  unfolding sys_now_def by (rule calm_ticks)

lemma calm_sys_timeout: "keeps calm (sys_timeout E ms hdl a)"
  unfolding sys_timeout_def Let_def by (intro calm_rules calm_modify calm_sys_now) simp

lemma calm_timers_init: "keeps calm (sys_timeouts_init E)"
  unfolding sys_timeouts_init_def by (intro calm_rules calm_modify calm_sys_timeout calm_sys_now) simp

lemma calm_tcp:
  "keeps calm (upd_pcb pcb f)" "keeps calm (not_listening pcb msg)" "keeps calm (tcp_arg pcb a)" "keeps calm (tcp_accept pcb cb)"
  "keeps calm (tcp_listen E pcb)" "keeps calm (tcp_recv pcb cb)" "keeps calm (tcp_sent pcb cb)" "keeps calm (tcp_err pcb cb)"
  "keeps calm (tcp_poll pcb cb n)"
  unfolding not_listening_def tcp_cb_defs tcp_listen_def upd_pcb_def not_listening_def
  by (intro calm_rules calm_modify; simp)+

lemma calm_status_callback: "keeps calm (status_callback E)"
  unfolding status_callback_def by (intro calm_rules calm_tcp)

lemma calm_server_poll: "keeps calm (server_poll E pcb)"
  unfolding server_poll_def by (intro calm_rules calm_tcp)

lemma calm_netInit: "keeps calm (netInit E)"
  unfolding netInit_def lwip_init_def netif_add_def netif_set_up_def NETIF_STATUS_CALLBACK_def
  by (intro calm_rules calm_modify calm_delays calm_timers_init calm_netif calm_enc_init calm_status_callback) simp_all

end
