(* ===== verification/Firmware.thy ===== *)
theory Firmware
  imports Frame
begin

text \<open>
  The whole program: the start-up part of \<^verbatim>\<open>main\<close>, the statements of its endless loop as atomic
  steps, and the interrupt handlers that may run between them.
\<close>

section \<open>Interrupt handlers\<close>

definition INT_ETH :: u32 where "INT_ETH = 0x10"

definition INT_SD :: u32 where "INT_SD = 0x80"

definition INT_VOL_EVEN :: u32 where "INT_VOL_EVEN = 0x4000"

definition INT_VOL_ODD :: u32 where "INT_VOL_ODD = 0x8000"

lemmas int_consts = INT_ETH_def INT_SD_def INT_VOL_EVEN_def INT_VOL_ODD_def INT_SOURCE_def

definition read_encoder :: "env \<Rightarrow> ('z preamp_state_scheme, unit) prog" where
  "read_encoder E =
     bindM (GPIO_PinInGet E gpioPortC 14) (\<lambda>a.
     bindM (GPIO_PinInGet E gpioPortC 15) (\<lambda>b. updateVol E a b))"

definition GPIO_EVEN_IRQHandler ::
  "env \<Rightarrow> (io list \<Rightarrow> nat \<Rightarrow> nat list) \<Rightarrow> (u8 list list \<Rightarrow> ('z net_state_scheme, unit) prog)
     \<Rightarrow> ('z net_state_scheme, unit) prog" where
  "GPIO_EVEN_IRQHandler E alloc inp =
     bindM (reg_get E ''GPIO_IntGet'') (\<lambda>ints.
     thenM (reg_set ''GPIO_IntClear'' ints)
    (bindM (gets init) (\<lambda>i.
       whenM i
         (seqM [
            whenM (ints AND INT_VOL_EVEN \<noteq> 0) (read_encoder E),
            whenM (ints AND INT_SOURCE \<noteq> 0) (cycleSource E),
            whenM (ints AND INT_ETH \<noteq> 0) (netIRQ E alloc inp)]))))"

definition GPIO_ODD_IRQHandler :: "env \<Rightarrow> ('z net_state_scheme, unit) prog" where
  "GPIO_ODD_IRQHandler E =
     bindM (reg_get E ''GPIO_IntGet'') (\<lambda>ints.
     thenM (reg_set ''GPIO_IntClear'' ints)
    (bindM (gets init) (\<lambda>i.
       whenM i
         (seqM [
            whenM (ints AND INT_VOL_ODD \<noteq> 0) (read_encoder E),
            whenM (ints AND INT_SD \<noteq> 0) (mountUnmount E)]))))"

section \<open>Start-up\<close>

text \<open>The value of a stored volume: 0 means that none was stored, then the limits.\<close>

definition restored_volume :: "u32 \<Rightarrow> int" where
  "restored_volume v =
     (let v1 = to_int16 (uint v);
          v2 = (if v1 = 0 then VOL_MAX else v1);
          v3 = (if v2 < VOL_MIN then VOL_MIN else v2)
      in if v3 > VOL_MAX then VOL_MAX else v3)"

definition restore_settings :: "('z preamp_state_scheme, unit) prog" where
  "restore_settings =
     seqM [
       modify (\<lambda>s. s\<lparr>volume := restored_volume (getUint32 ''volume'' (configMem s))\<rparr>),
       modify (\<lambda>s. s\<lparr>source := uint (getUint32 ''source'' (configMem s) mod word_of_int SOURCES)\<rparr>),
       modify (\<lambda>s. s\<lparr>gain := uint (getUint32 ''gain'' (configMem s) mod word_of_int (MAX_GAIN + 1))\<rparr>),
       bindM (gets volume) (\<lambda>v. bindM (gets source) (\<lambda>sr. bindM (gets gain) (\<lambda>g.
         printf (''Volume: '' @ dec_int v @ '' Source: '' @ dec_int sr @ '' Gain: '' @ dec_int g @ ''\<newline>''))))]"

text \<open>The peripherals and drivers, in the order \<^verbatim>\<open>main\<close> starts them.\<close>

definition main_setup :: "env \<Rightarrow> ('z net_state_scheme, unit) prog" where
  "main_setup E =
     seqM [
       modify (\<lambda>s. s\<lparr>msTicks := 0\<rparr>),
       modify (\<lambda>s. s\<lparr>init := False\<rparr>),
       ext_call ''CHIP_Init'' [],
       ext_call ''CMU_OscillatorEnable(cmuOsc_HFXO)'' [1, 1],
       ext_call ''CMU_ClockSelectSet(cmuClock_HF, cmuSelect_HFXO)'' [],
       ext_call ''CMU_ClockEnable(cmuClock_GPIO)'' [1],
       ext_call ''CMU_ClockEnable(cmuClock_HFPER)'' [1],
       ext_call ''CMU_ClockEnable(cmuClock_TIMER0)'' [1],
       ext_call ''SysTick_Config(CMU_ClockFreqGet(cmuClock_CORE) / 1000)'' [],
       ext_call ''TIMER_Init(TIMER0, up, prescale 16)'' [],
       swoInit E,
       printf ''AsD Pre 1 initializing\<newline>'',
       paInit,
       sdInit E,
       configInit E,
       restore_settings,
       bindM (gets source) (\<lambda>sr. bindM (gets gain) (\<lambda>g. fpgaInit E (word_of_int sr) (word_of_int g))),
       spdifInit,
       bindM (gets volume) (\<lambda>v. dacInit E (word_of_int (drop_bit VOL_SHIFT v))),
       adcInit,
       thenM (netInit E) (ret ())]"

section \<open>The rest of start-up, with interrupts\<close>

text \<open>
  The GPIO interrupts have the highest priority and the tick interrupt the lowest, so a handler
  runs to its end without ticks.
\<close>

definition irq_of :: "env \<Rightarrow> env" where
  "irq_of E = E\<lparr>env_ticks := \<lambda>_. 0\<rparr>"

text \<open>
  From \<^verbatim>\<open>init = true\<close> on the GPIO handlers do their work. The points of start-up behind it between which
  they can run are numbered; \<open>sched\<close> says which handlers run at a point, by the events so far.
\<close>

datatype gpio_irq = GPIO_EVEN | GPIO_ODD

definition gpio_handler ::
  "env \<Rightarrow> (io list \<Rightarrow> nat \<Rightarrow> nat list) \<Rightarrow> (u8 list list \<Rightarrow> ('z net_state_scheme, unit) prog)
     \<Rightarrow> gpio_irq \<Rightarrow> ('z net_state_scheme, unit) prog" where
  "gpio_handler E alloc inp i =
     (case i of GPIO_EVEN \<Rightarrow> GPIO_EVEN_IRQHandler (irq_of E) alloc inp | GPIO_ODD \<Rightarrow> GPIO_ODD_IRQHandler (irq_of E))"

definition gpio_irqs ::
  "env \<Rightarrow> (io list \<Rightarrow> nat \<Rightarrow> nat list) \<Rightarrow> (u8 list list \<Rightarrow> ('z net_state_scheme, unit) prog)
     \<Rightarrow> (nat \<Rightarrow> io list \<Rightarrow> gpio_irq list) \<Rightarrow> nat \<Rightarrow> ('z net_state_scheme, unit) prog" where
  "gpio_irqs E alloc inp sched k =
     bindM (gets trace) (\<lambda>tr. seqM (map (gpio_handler E alloc inp) (sched k tr)))"

text \<open>\<^verbatim>\<open>while(msTicks < INIT_MUTE_DELAY);\<close> with handlers before every look at the counter.\<close>

definition wait_init :: "env \<Rightarrow> (nat \<Rightarrow> ('z preamp_state_scheme, unit) prog) \<Rightarrow> ('z preamp_state_scheme, unit) prog" where
  "wait_init E irq =
     pollM (env_fuel E) (thenM (irq 1) (bindM (read_msTicks E) (\<lambda>now. ret (\<not> now < INIT_MUTE_DELAY))))"

text \<open>Everything before the amplifier is unmuted.\<close>

definition main_init :: "env \<Rightarrow> (nat \<Rightarrow> ('z net_state_scheme, unit) prog) \<Rightarrow> ('z net_state_scheme, unit) prog" where
  "main_init E irq =
     thenM (main_setup E)
      (seqM [
         modify (\<lambda>s. s\<lparr>init := True\<rparr>),
         irq 0,
         modify (\<lambda>s. s\<lparr>muteCounter := 0\<rparr>),
         wait_init E irq])"

text \<open>
  \<^verbatim>\<open>setMute\<close> called where handlers can run between its statements: the assignment, the evaluation of
  \<^verbatim>\<open>mute ? 0 : 1\<close>, the write to the pin, and the second test of \<^verbatim>\<open>mute\<close>.
\<close>

definition setMute_irq :: "(nat \<Rightarrow> ('z preamp_state_scheme, unit) prog) \<Rightarrow> bool \<Rightarrow> ('z preamp_state_scheme, unit) prog" where
  "setMute_irq irq newMute =
     seqM [
       irq 2,
       modify (\<lambda>s. s\<lparr>mute := newMute\<rparr>),
       irq 3,
       bindM (gets mute) (\<lambda>m. thenM (irq 4) (GPIO_PinModeSet MUTE_PORT MUTE_BIT gpioModePushPull (if m then 0 else 1))),
       irq 5,
       bindM (gets mute) (\<lambda>m.
         if m then seqM [irq 6, clearLed 0, irq 7, clearLed 1, irq 8, clearLed 2]
         else bindM (gets source) (\<lambda>sr. thenM (irq 9) (setLed sr)))]"

definition boot_end :: "(nat \<Rightarrow> ('z preamp_state_scheme, unit) prog) \<Rightarrow> ('z preamp_state_scheme, unit) prog" where
  "boot_end irq =
     seqM [
       setMute_irq irq False,
       irq 10,
       clearLed 0,
       irq 11,
       clearLed 1,
       irq 12,
       clearLed 2,
       irq 13,
       bindM (gets source) (\<lambda>sr. thenM (irq 14) (setLed sr)),
       irq 15,
       printf ''Ready\<newline>'']"

definition main_boot :: "env \<Rightarrow> (nat \<Rightarrow> ('z net_state_scheme, unit) prog) \<Rightarrow> ('z net_state_scheme, unit) prog" where
  "main_boot E irq = thenM (main_init E irq) (boot_end irq)"

section \<open>The main loop\<close>

text \<open>
  The points of the loop between which interrupts are considered. The call \<^verbatim>\<open>setMute(false)\<close> is taken
  apart: assignment, evaluation of \<^verbatim>\<open>mute ? 0 : 1\<close>, write of that value to the pin, second test of
  \<^verbatim>\<open>mute\<close>, and the LEDs one by one. The tick handler has the lowest priority, so GPIO handlers run inside it
  as well: a point may be one of the tick handler that has interrupted the loop.
\<close>

datatype tick_pc = Tick_test | Tick_load | Tick_store int

datatype main_pc = At_net | At_test_save | At_clear_save | At_volume | At_source | At_gain | At_flush
  | At_test_mute | At_unmute | At_level | At_pin nat | At_leds | At_clear_led int | At_led_source | At_set_led int | At_mark
  | In_tick tick_pc main_pc

text \<open>\<^verbatim>\<open>if(muteCounter > 0) muteCounter--;\<close> as a test, a load and a store.\<close>

definition tick_stmt :: "tick_pc \<Rightarrow> ('z preamp_state_scheme, tick_pc option) prog" where
  "tick_stmt p =
     (case p of
        Tick_test \<Rightarrow> bindM (gets muteCounter) (\<lambda>c. ret (if c > 0 then Some Tick_load else None))
      | Tick_load \<Rightarrow> bindM (gets muteCounter) (\<lambda>c. ret (Some (Tick_store c)))
      | Tick_store c \<Rightarrow> thenM (modify (\<lambda>s. s\<lparr>muteCounter := c - 1\<rparr>)) (ret None))"

definition main_stmt ::
  "env \<Rightarrow> (timer_handler \<Rightarrow> ('z net_state_scheme, unit) prog) \<Rightarrow> main_pc \<Rightarrow> ('z net_state_scheme, main_pc) prog" where
  "main_stmt E tmr pc =
     (case pc of
        At_net \<Rightarrow> thenM (netPeriodic E tmr) (ret At_test_save)
      | At_test_save \<Rightarrow> bindM (gets saveSettings) (\<lambda>b. ret (if b then At_clear_save else At_test_mute))
      | At_clear_save \<Rightarrow> thenM (modify (\<lambda>s. s\<lparr>saveSettings := False\<rparr>)) (ret At_volume)
      | At_volume \<Rightarrow> thenM (bindM (gets volume) (\<lambda>v. setUint32 ''volume'' (word_of_int v))) (ret At_source)
      | At_source \<Rightarrow> thenM (bindM (gets source) (\<lambda>v. setUint32 ''source'' (word_of_int v))) (ret At_gain)
      | At_gain \<Rightarrow> thenM (bindM (gets gain) (\<lambda>v. setUint32 ''gain'' (word_of_int v))) (ret At_flush)
      | At_flush \<Rightarrow> thenM (flushConfig E) (ret At_test_mute)
      | At_test_mute \<Rightarrow> bindM (gets muteCounter) (\<lambda>c. ret (if c = 0 then At_unmute else At_net))
      | At_unmute \<Rightarrow> thenM (modify (\<lambda>s. s\<lparr>mute := False\<rparr>)) (ret At_level)
      | At_level \<Rightarrow> bindM (gets mute) (\<lambda>m. ret (At_pin (if m then 0 else 1)))
      | At_pin v \<Rightarrow> thenM (GPIO_PinModeSet MUTE_PORT MUTE_BIT gpioModePushPull v) (ret At_leds)
      | At_leds \<Rightarrow> bindM (gets mute) (\<lambda>m. ret (if m then At_clear_led 0 else At_led_source))
      | At_clear_led k \<Rightarrow> thenM (clearLed k) (ret (if k < 2 then At_clear_led (k + 1) else At_mark))
      | At_led_source \<Rightarrow> bindM (gets source) (\<lambda>sr. ret (At_set_led sr))
      | At_set_led k \<Rightarrow> thenM (setLed k) (ret At_mark)
      | At_mark \<Rightarrow> thenM (modify (\<lambda>s. s\<lparr>muteCounter := - 1\<rparr>)) (ret At_net)
      | In_tick p back_to \<Rightarrow> bindM (tick_stmt p) (\<lambda>q. ret (case q of None \<Rightarrow> back_to | Some p' \<Rightarrow> In_tick p' back_to)))"

text \<open>The point of the loop itself, below a tick handler.\<close>

fun loop_point :: "main_pc \<Rightarrow> main_pc" where
  "loop_point (In_tick p pc) = loop_point pc"
| "loop_point pc = pc"

definition ticking :: "main_pc \<Rightarrow> bool" where
  "ticking pc = (case pc of In_tick _ _ \<Rightarrow> True | _ \<Rightarrow> False)"

inductive fw_step ::
  "env \<Rightarrow> (io list \<Rightarrow> nat \<Rightarrow> nat list) \<Rightarrow> (u8 list list \<Rightarrow> ('z net_state_scheme, unit) prog) \<Rightarrow>
   (timer_handler \<Rightarrow> ('z net_state_scheme, unit) prog) \<Rightarrow>
   main_pc \<times> 'z net_state_scheme \<Rightarrow> main_pc \<times> 'z net_state_scheme \<Rightarrow> bool"
  for E alloc inp tmr where
  Main: "main_stmt E tmr pc s = Ret pc' t \<Longrightarrow> fw_step E alloc inp tmr (pc, s) (pc', t)"
| Tick: "\<not> ticking pc \<Longrightarrow> fw_step E alloc inp tmr (pc, s) (In_tick Tick_test pc, s\<lparr>msTicks := msTicks s + 1\<rparr>)"
| Irq: "gpio_handler E alloc inp i s = Ret () t \<Longrightarrow> fw_step E alloc inp tmr (pc, s) (pc, t)"

inductive_cases fw_stepE: "fw_step E alloc inp tmr (pc, s) c"

text \<open>The states the loop can reach from a state after start-up.\<close>

inductive fw_reach ::
  "env \<Rightarrow> (io list \<Rightarrow> nat \<Rightarrow> nat list) \<Rightarrow> (u8 list list \<Rightarrow> ('z net_state_scheme, unit) prog) \<Rightarrow>
   (timer_handler \<Rightarrow> ('z net_state_scheme, unit) prog) \<Rightarrow>
   main_pc \<times> 'z net_state_scheme \<Rightarrow> main_pc \<times> 'z net_state_scheme \<Rightarrow> bool"
  for E alloc inp tmr c where
  Start: "fw_reach E alloc inp tmr c c"
| Step: "fw_reach E alloc inp tmr c d \<Longrightarrow> fw_step E alloc inp tmr d e \<Longrightarrow> fw_reach E alloc inp tmr c e"

section \<open>The amplifier stays muted during start-up\<close>

text \<open>Nothing that is done drives the mute relay high.\<close>

definition relay_off :: "'z hw_scheme \<Rightarrow> 'z hw_scheme \<Rightarrow> bool" where
  "relay_off s t \<longleftrightarrow> (\<exists>es. trace t = trace s @ es \<and> list_all (\<lambda>e. pin_effect MUTE_PORT MUTE_BIT e \<noteq> Some True) es)"

interpretation relay_off: frame_relation relay_off
proof
  show "relay_off s s" for s :: "'z hw_scheme" by (simp add: relay_off_def)
  show "relay_off s t \<Longrightarrow> relay_off t u \<Longrightarrow> relay_off s u" for s t u :: "'z hw_scheme"
    by (auto simp: relay_off_def)
qed

lemma calm_relay_off: "keeps calm m \<Longrightarrow> keeps relay_off m"
  by (erule keeps_mono) (auto simp: calm_def relay_off_def harmless_def list_all_iff)

lemma relay_off_emit: "pin_effect MUTE_PORT MUTE_BIT e \<noteq> Some True \<Longrightarrow> keeps relay_off (emit e)"
  by (simp add: keeps_def relay_off_def)

lemma relay_off_modify: "(\<And>s. trace (f s) = trace s) \<Longrightarrow> keeps relay_off (modify f)"
  by (rule relay_off.keeps_modify) (simp add: relay_off_def)

lemma relay_off_calls:
  "keeps relay_off (ext_call f as)" "keeps relay_off (printf t)" "keeps relay_off (reg_set r v)"
  "\<not> (p = MUTE_PORT \<and> b = MUTE_BIT \<and> out \<noteq> 0) \<Longrightarrow> keeps relay_off (GPIO_PinModeSet p b m out)"
  "keeps relay_off (reg_get E r)" "keeps relay_off (panic msg)"
  unfolding reg_get_def panic_def call_defs
  by (auto intro!: relay_off_emit relay_off.keeps_intros split: if_splits)

lemmas relay_off_rules = relay_off.keeps_intros relay_off_calls

lemma relay_off_dac: "keeps relay_off (i2c_transfer E flag buf)" "keeps relay_off (dacWriteReg E r v)"
  "keeps relay_off (dacReadReg E r32)" "keeps relay_off (dacInit E vol)"
proof -
  show t: "keeps relay_off (i2c_transfer E flag buf)" for flag buf
    unfolding i2c_transfer_def i2c_round_def by (intro relay_off_rules relay_off_emit) simp_all
  then show w: "keeps relay_off (dacWriteReg E r v)" for r v unfolding dacWriteReg_def by blast
  show r: "keeps relay_off (dacReadReg E r32)" for r32
    unfolding dacReadReg_def by (intro relay_off_rules t)
  show "keeps relay_off (dacInit E vol)"
    unfolding dacInit_def dacSetVolume_def by (intro relay_off_rules w r) simp_all
qed

lemma relay_off_config: "keeps relay_off (configInit E)"
  unfolding configInit_def flushConfig_def
  by (intro relay_off_rules relay_off_modify) simp_all

lemma relay_off_simple:
  "keeps relay_off paInit" "keeps relay_off spdifInit" "keeps relay_off adcInit" "keeps relay_off (swoInit E)"
  "keeps relay_off restore_settings"
  unfolding paInit_def spdifInit_def adcInit_def swoInit_def restore_settings_def wait_flag_def GPIO_IntConfig_def
  by (intro relay_off_rules relay_off_modify; simp)+

lemma relay_off_main_setup: "keeps relay_off (main_setup E)"
  unfolding main_setup_def
  by (intro relay_off_rules relay_off_modify relay_off_simple relay_off_config relay_off_dac
      calm_relay_off [OF calm_socket(2)] calm_relay_off [OF calm_fpga(4)] calm_relay_off [OF calm_netInit]) simp_all

lemma relay_off_main_init:
  assumes "\<And>k. keeps relay_off (irq k)"
  shows "keeps relay_off (main_init E irq)"
  unfolding main_init_def wait_init_def
  by (intro relay_off_rules relay_off_modify relay_off_main_setup calm_relay_off [OF calm_ticks(1)] assms) simp_all

lemma wp_any: "(\<And>x t. Q x t) \<Longrightarrow> (\<And>h t. H h t) \<Longrightarrow> wp m Q H s"
  by (simp add: wp_def split: outcome.split)

text \<open>The wait ends with the tick counter past the delay, whatever the handlers do in it.\<close>

lemma wp_wait_init: "wp (wait_init E irq) (\<lambda>_ t. INIT_MUTE_DELAY \<le> msTicks t) (\<lambda>_ _. True) s"
  unfolding wait_init_def
  by (rule wp_pollM_partial [where I = "\<lambda>_. True"])
    (simp_all add: wp_thenM, rule wp_any, simp_all add: read_msTicks_def not_less wp_any del: preamp_consts)

lemma relay_off_pin: "relay_off s t \<Longrightarrow> pin_out MUTE_PORT MUTE_BIT (trace s) \<noteq> Some True \<Longrightarrow> pin_out MUTE_PORT MUTE_BIT (trace t) \<noteq> Some True"
proof -
  have "list_all (\<lambda>e. pin_effect MUTE_PORT MUTE_BIT e \<noteq> Some True) es \<Longrightarrow> l \<noteq> Some True \<Longrightarrow> pin_level MUTE_PORT MUTE_BIT l es \<noteq> Some True" for l es
  proof (induction es arbitrary: l)
    case (Cons e es)
    then show ?case by (cases "pin_effect MUTE_PORT MUTE_BIT e") simp_all
  qed simp
  then show "relay_off s t \<Longrightarrow> pin_out MUTE_PORT MUTE_BIT (trace s) \<noteq> Some True \<Longrightarrow> ?thesis"
    by (auto simp: relay_off_def pin_out_append)
qed

lemma relay_off_vol: "keeps relay_off (setVol E v)" "keeps relay_off (updateVol E a b)"
proof -
  show v: "keeps relay_off (setVol E v)" for v
    unfolding setVol_def dacSetVolume_def dacMute_def by (intro relay_off_rules relay_off_dac relay_off_modify) simp_all
  show "keeps relay_off (updateVol E a b)"
    unfolding updateVol_def Let_def by (intro relay_off_rules relay_off_modify v) simp_all
qed

lemma calm_led: "keeps calm (setLed k)" "keeps calm (clearLed k)"
  unfolding setLed_def clearLed_def by (auto intro!: calm.keeps_if calm.keeps_ret calm_calls(6,7))

lemma relay_off_cycleSource: "keeps relay_off (cycleSource E)"
proof -
  note l = calm_led [THEN calm_relay_off]
  have m: "keeps relay_off (setMute True)"
    unfolding setMute_def by (intro relay_off_rules relay_off_modify l) simp_all
  have "keeps relay_off (setSource E n)" for n
    unfolding setSource_def
    by (intro relay_off_rules relay_off_modify m l calm_relay_off [OF calm_delays(2)] calm_relay_off [OF calm_fpga(1)]) simp_all
  then show ?thesis
    unfolding cycleSource_def by (intro relay_off_rules calm_relay_off [OF calm_delays(2)] calm_relay_off [OF calm_reads(1)])
qed

text \<open>
  The handlers do not drive the relay high unless a packet that is handed to the protocol stack makes
  the command server do it.
\<close>

lemma relay_off_gpio_handler:
  assumes "\<And>p. keeps relay_off (inp p)"
  shows "keeps relay_off (gpio_handler E alloc inp i)"
proof -
  have "keeps relay_off (netIRQ E alloc inp)" for E
    unfolding netIRQ_def enc424j600_spi_poll_def hw_poll_def poll_round_def Let_def enc424j600_spi_RXevent_def enc424j600_spi_recv_def
    by (intro relay_off_rules calm_enc_ops [THEN calm_relay_off] calm_enc_rw [THEN calm_relay_off]
        calm_events [THEN calm_relay_off] calm_read_segments [THEN calm_relay_off] relay_off_modify assms) simp_all
  then show ?thesis
    unfolding gpio_handler_def GPIO_EVEN_IRQHandler_def GPIO_ODD_IRQHandler_def read_encoder_def
    by (cases i) (auto intro!: relay_off_rules relay_off_vol relay_off_cycleSource calm_relay_off [OF calm_socket(1)]
        calm_relay_off [OF calm_reads(1)])
qed

lemma relay_off_gpio_irqs:
  assumes "\<And>p. keeps relay_off (inp p)"
  shows "keeps relay_off (gpio_irqs E alloc inp sched k)"
proof -
  have "keeps relay_off (seqM (map (gpio_handler E alloc inp) is))" for "is"
    by (induction "is") (simp_all only: list.map, (intro relay_off_rules relay_off_gpio_handler assms; assumption?)+)
  then show ?thesis unfolding gpio_irqs_def by (intro relay_off_rules)
qed

text \<open>Until \<^verbatim>\<open>init\<close> is set the handlers only acknowledge their interrupts.\<close>

lemma handlers_idle_before_init:
  assumes "\<not> init s"
  shows "\<exists>ints. gpio_handler E alloc inp i s =
    Ret () (s\<lparr>trace := trace s @ [RegGet ''GPIO_IntGet'' ints, RegSet ''GPIO_IntClear'' ints]\<rparr>)"
  using assms
  by (cases i)
    (auto simp: gpio_handler_def GPIO_EVEN_IRQHandler_def GPIO_ODD_IRQHandler_def reg_get_def reg_set_def
      intro!: exI [of _ "env_reg (irq_of E) (trace s) ''GPIO_IntGet''"])

text \<open>What the trace of start-up shows of the relay.\<close>

definition never_high :: "io list \<Rightarrow> bool" where
  "never_high tr \<longleftrightarrow> list_all (\<lambda>e. pin_effect MUTE_PORT MUTE_BIT e \<noteq> Some True) tr"

lemma never_high_keeps:
  assumes "keeps relay_off m"
  shows "wp m (\<lambda>_ t. never_high (trace t)) (\<lambda>_ t. never_high (trace t)) (s\<lparr>trace := []\<rparr>)"
  by (rule wp_mono [OF keepsD [OF assms]]) (auto simp: relay_off_def never_high_def)

lemma wp_main_init: "wp (main_init E irq) (\<lambda>_ t. INIT_MUTE_DELAY \<le> msTicks t) (\<lambda>_ _. True) s"
  unfolding main_init_def wp_thenM seqM.simps wp_modify wp_ret
  by (rule wp_any, rule wp_any, rule wp_mono [OF wp_wait_init]) simp_all

text \<open>The last part of start-up without interrupts: it always returns, unmutes and lights the LED of the source.\<close>

lemma boot_end_run:
  assumes "\<And>k s. 1 < k \<Longrightarrow> irq k s = Ret () s"
  shows "boot_end irq s =
     Ret () (s\<lparr>mute := False, trace := trace s @ mute_calls False (source s) @ led_calls False 0 @ led_calls False 1 @
       led_calls False 2 @ led_calls True (source s) @ [Printf ''Ready\<newline>'']\<rparr>)"
  by (simp add: boot_end_def setMute_irq_def assms thenM_def led_run mute_calls_def bindM_run)

end
