(* ===== verification/Running.thy ===== *)
theory Running
  imports Firmware
begin

text \<open>
  The running firmware: an invariant of every state between two steps of the main loop and the
  interrupt handlers, what start-up restores from flash, and how settings survive a restart.
\<close>

section \<open>The invariant\<close>

text \<open>
  The globals stay in their ranges, the settings table is well formed, the registers of the DAC
  hold what the globals say, and the relay is high exactly when the amplifier is not muted.
\<close>

definition in_bounds :: "'z preamp_state_scheme \<Rightarrow> bool" where
  "in_bounds s \<longleftrightarrow> - 32768 \<le> volume s \<and> volume s < 32768 \<and> last_phase s \<in> {0..3} \<and>
     source s \<in> {- 2..2} \<and> gain s \<in> {- 3..3} \<and> muteCounter s \<in> {- 1..MUTE_DELAY}"

definition dac_follows :: "'z preamp_state_scheme \<Rightarrow> bool" where
  "dac_follows s \<longleftrightarrow> dac_ok s \<and> dac_file (trace s) REG_VOLUME_A = Some (vol_byte (volume s))"

definition relay_follows :: "'z preamp_state_scheme \<Rightarrow> bool" where
  "relay_follows s \<longleftrightarrow> pin_out MUTE_PORT MUTE_BIT (trace s) = Some (\<not> mute s)"

text \<open>What holds in every state, and what holds in addition when the relay agrees with the mute flag.\<close>

definition amp_inv :: "'z preamp_state_scheme \<Rightarrow> bool" where
  "amp_inv s \<longleftrightarrow> in_bounds s \<and> config_wf (configMem s) \<and> dac_follows s"

definition fw_inv :: "'z preamp_state_scheme \<Rightarrow> bool" where
  "fw_inv s \<longleftrightarrow> amp_inv s \<and> relay_follows s"

lemmas amp_inv_defs = amp_inv_def in_bounds_def dac_follows_def dac_ok_def

lemmas fw_inv_defs = fw_inv_def relay_follows_def amp_inv_defs

text \<open>A run that leaves the relay and the mute flag alone, or leaves them in agreement.\<close>

definition relay_step :: "'z preamp_state_scheme \<Rightarrow> 'z preamp_state_scheme \<Rightarrow> bool" where
  "relay_step s t \<longleftrightarrow> relay_follows t \<or>
     (mute t = mute s \<and> pin_out MUTE_PORT MUTE_BIT (trace t) = pin_out MUTE_PORT MUTE_BIT (trace s))"

lemma relay_step_trans: "relay_step s t \<Longrightarrow> relay_step t u \<Longrightarrow> relay_step s u"
  by (auto simp: relay_step_def relay_follows_def)

definition preserved :: "'z preamp_state_scheme \<Rightarrow> 'z preamp_state_scheme \<Rightarrow> bool" where
  "preserved s t \<longleftrightarrow>
     (amp_inv s \<longrightarrow> amp_inv t \<and> relay_step s t \<and> (0 \<le> muteCounter s \<longrightarrow> 0 \<le> muteCounter t))"

interpretation preserved: frame_relation preserved
proof
  show "preserved s s" for s :: "'z preamp_state_scheme" by (simp add: preserved_def relay_step_def)
  show "preserved s t \<Longrightarrow> preserved t u \<Longrightarrow> preserved s u" for s t u :: "'z preamp_state_scheme"
    using relay_step_trans [of s t u] by (simp add: preserved_def)
qed

lemma harmless_frame:
  assumes "list_all harmless es"
  shows "dac_file (tr @ es) = dac_file tr" and "pin_out MUTE_PORT MUTE_BIT (tr @ es) = pin_out MUTE_PORT MUTE_BIT tr"
proof -
  have "\<forall>e \<in> set es. dac_write_of e = None" "\<forall>e \<in> set es. pin_effect MUTE_PORT MUTE_BIT e = None"
    using assms by (auto simp: list_all_iff harmless_def)
  then show "dac_file (tr @ es) = dac_file tr" "pin_out MUTE_PORT MUTE_BIT (tr @ es) = pin_out MUTE_PORT MUTE_BIT tr"
    by (simp_all add: dac_file_append dac_regs_frame pin_out_frame)
qed

lemma calm_preserved:
  assumes "calm s t"
  shows "preserved s t"
proof -
  obtain es where es: "trace t = trace s @ es" "list_all harmless es" using assms by (auto simp: calm_def)
  have "amp_inv s \<Longrightarrow> amp_inv t" "0 \<le> muteCounter s \<Longrightarrow> 0 \<le> muteCounter t"
    using assms unfolding calm_def amp_inv_defs counted_def by (auto simp: harmless_frame es split: if_splits)
  moreover have "relay_step s t" using assms by (simp add: relay_step_def calm_def es harmless_frame)
  ultimately show ?thesis by (simp add: preserved_def)
qed

lemmas preserved_calm = keeps_mono [OF _ calm_preserved]

text \<open>A run that returns, and what it leaves.\<close>

lemma preservedI:
  "(\<And>s. amp_inv s \<Longrightarrow> \<exists>x t. m s = Ret x t \<and> amp_inv t \<and> relay_step s t \<and> (0 \<le> muteCounter s \<longrightarrow> 0 \<le> muteCounter t)) \<Longrightarrow>
   keeps preserved m"
  by (fastforce simp: keeps_def wp_def preserved_def split: outcome.split)

lemma harmless_led_calls: "list_all harmless (led_calls on k)"
  by (simp add: led_calls_def)

lemma harmless_timer_call: "is_timer_call e \<Longrightarrow> harmless e"
  by (cases e) (simp_all add: is_timer_call_def)

lemma harmless_timer_calls: "\<forall>e \<in> set es. is_timer_call e \<Longrightarrow> list_all harmless es"
  by (simp add: list_all_iff harmless_timer_call)

lemma harmless_frame_calls: "list_all harmless (frame_calls a b c d)"
  by (simp add: frame_calls_def)

lemmas harmless_lists = harmless_led_calls harmless_timer_calls harmless_frame_calls

lemma mute_calls_file: "dac_file (tr @ mute_calls b src) = dac_file tr"
  by (simp add: mute_calls_def dac_file_append dac_regs_frame led_calls_def dac_write_of_def)

lemma mute_calls_then:
  assumes "list_all harmless es"
  shows "dac_file (tr @ mute_calls b src @ es) = dac_file tr" "pin_out MUTE_PORT MUTE_BIT (tr @ mute_calls b src @ es) = Some (\<not> b)"
  using harmless_frame [OF assms, of "tr @ mute_calls b src"]
  by (simp_all add: mute_calls_file) (simp add: pin_out_append mute_calls_pins)

lemma preserved_setMute: "keeps preserved (setMute b)"
  by (rule preservedI)
    (simp add: setMute_run amp_inv_defs relay_step_def relay_follows_def mute_calls_file pin_out_append mute_calls_pins
      del: preamp_consts)

lemma smod_ranges: "n smod 3 \<in> {- 2..2}" "n smod 4 \<in> {- 3..3}" for n :: int
  using pos_mod_bound [of 3 "\<bar>n\<bar>"] pos_mod_bound [of 4 "\<bar>n\<bar>"] pos_mod_sign [of 3 "\<bar>n\<bar>"] pos_mod_sign [of 4 "\<bar>n\<bar>"]
  by (auto simp: signed_modulo_int_def sgn_if abs_if split: if_splits)

lemma preserved_setSource:
  assumes "timer_runs E"
  shows "keeps preserved (setSource E n)"
proof (rule preservedI)
  fix s :: "'z preamp_state_scheme" assume s: "amp_inv s"
  obtain es r1 r2 where r: "setSource E n s = Ret () (s\<lparr>mute := True, muteCounter := MUTE_DELAY, source := n smod SOURCES,
      saveSettings := True,
      trace := trace s @ mute_calls True (source s) @ es @ led_calls False (source s) @ source_calls (n smod SOURCES) r1 r2\<rparr>)"
    "\<forall>e \<in> set es. is_timer_call e" using setSource_run [OF assms] by blast
  define rest where "rest = es @ led_calls False (source s) @ source_calls (n smod SOURCES) r1 r2"
  have "list_all harmless rest" using r(2) by (simp add: rest_def source_calls_def harmless_lists)
  note h = mute_calls_then [OF this]
  define t where "t = s\<lparr>mute := True, muteCounter := MUTE_DELAY, source := n smod SOURCES, saveSettings := True,
      trace := trace s @ mute_calls True (source s) @ rest\<rparr>"
  have "amp_inv t" using s smod_ranges(1) [of n] unfolding amp_inv_defs t_def by (simp add: h)
  moreover have "relay_step s t" by (simp add: relay_step_def relay_follows_def t_def h)
  moreover have "setSource E n s = Ret () t" "0 \<le> muteCounter t" using r(1) by (simp_all add: rest_def t_def)
  ultimately show "\<exists>x t. setSource E n s = Ret x t \<and> amp_inv t \<and> relay_step s t \<and> (0 \<le> muteCounter s \<longrightarrow> 0 \<le> muteCounter t)"
    by blast
qed

lemma preserved_setGain: "keeps preserved (setGain E n)"
proof (rule preservedI)
  fix s :: "'z preamp_state_scheme" assume s: "amp_inv s"
  obtain r1 r2 where "setGain E n s = Ret () (s\<lparr>gain := n smod (MAX_GAIN + 1),
      trace := trace s @ frame_calls CMD_GAIN r1 (word_of_int (n smod (MAX_GAIN + 1))) r2, saveSettings := True\<rparr>)"
    using setGain_run by blast
  then show "\<exists>x t. setGain E n s = Ret x t \<and> amp_inv t \<and> relay_step s t \<and> (0 \<le> muteCounter s \<longrightarrow> 0 \<le> muteCounter t)"
    using s smod_ranges(2) [of n] unfolding amp_inv_defs relay_step_def by (simp add: harmless_frame [OF harmless_frame_calls])
qed

lemma setVol_inv:
  assumes "i2c_responds E" and "amp_inv s" and "- 32768 \<le> v" and "v < 32768"
  shows "\<exists>t. setVol E v (s\<lparr>volume := w\<rparr>) = Ret () t \<and> amp_inv t \<and> relay_step s t \<and> muteCounter t = muteCounter s"
proof -
  obtain tr where tr: "setVol E v (s\<lparr>volume := w\<rparr>) = Ret () (s\<lparr>volume := v, trace := tr, dacMuted := (v \<ge> VOL_MAX)\<rparr>)"
    "dac_step (vol_writes v (dacMuted s)) (trace s) tr"
    using setVol_run [OF assms(1), of v "s\<lparr>volume := w\<rparr>"] by auto
  have f: "dac_file tr REG_VOLUME_A = Some (vol_byte v)" "dac_file tr REG_MUTE_CTRL = Some (if v \<ge> VOL_MAX then 0xf8 else 0xe0)"
    using vol_writes_file dac_step_file [OF tr(2)] assms(2) by (auto simp: amp_inv_defs)
  show ?thesis
    using tr(1) f assms(2-4) dac_step_pins [OF tr(2)] unfolding amp_inv_defs relay_step_def by auto
qed

lemma preserved_setVol:
  assumes "i2c_responds E"
  shows "keeps preserved (setVol E (to_int16 v))"
proof (rule preservedI)
  fix s :: "'z preamp_state_scheme" assume "amp_inv s"
  from setVol_inv [OF assms this to_int16_bounds, of v "volume s"]
  show "\<exists>x t. setVol E (to_int16 v) s = Ret x t \<and> amp_inv t \<and> relay_step s t \<and> (0 \<le> muteCounter s \<longrightarrow> 0 \<le> muteCounter t)"
    by auto
qed

lemma turn_range: "- 32768 \<le> v \<Longrightarrow> v < 32768 \<Longrightarrow> - 32768 \<le> turn p q v \<and> turn p q v < 32768"
  using to_int16_bounds by (simp add: turn_def Let_def)

lemma preserved_updateVol:
  assumes "i2c_responds E"
  shows "keeps preserved (updateVol E a b)"
proof (rule preservedI)
  fix s :: "'z preamp_state_scheme" assume s: "amp_inv s"
  define v where "v = turn (last_phase s) (encoder_phase a b) (volume s)"
  have "- 32768 \<le> v" "v < 32768" using turn_range s by (simp_all add: v_def amp_inv_defs)
  then obtain t where t: "setVol E v (s\<lparr>volume := v\<rparr>) = Ret () t" "amp_inv t" "relay_step s t" "muteCounter t = muteCounter s"
    using setVol_inv [OF assms s] by blast
  then have "updateVol E a b s = Ret () (t\<lparr>last_phase := encoder_phase a b\<rparr>)"
    unfolding updateVol_def v_def by simp
  moreover have "amp_inv (t\<lparr>last_phase := encoder_phase a b\<rparr>)"
    using t(2) encoder_phase_range unfolding amp_inv_defs by simp
  ultimately show "\<exists>x t. updateVol E a b s = Ret x t \<and> amp_inv t \<and> relay_step s t \<and> (0 \<le> muteCounter s \<longrightarrow> 0 \<le> muteCounter t)"
    using t(3,4) by (auto simp: relay_step_def relay_follows_def)
qed

text \<open>Assignments to variables the invariant does not read.\<close>

lemma preserved_assign:
  "keeps preserved (modify (\<lambda>s. s\<lparr>saveSettings := b\<rparr>))" "keeps preserved (modify (\<lambda>s. s\<lparr>flash := f s\<rparr>))"
  by (rule preserved.keeps_modify, simp add: preserved_def amp_inv_defs relay_step_def)+

lemmas preserved_rules = preserved.keeps_intros preserved_assign
  calm_calls [THEN preserved_calm] calm_reads [THEN preserved_calm] calm_delays [THEN preserved_calm]

section \<open>The protocol stack\<close>

text \<open>The state a run ends in, whether it returns or stops.\<close>

definition final :: "('s, 'a) outcome \<Rightarrow> 's" where
  "final r = (case r of Ret _ t \<Rightarrow> t | Halt _ t \<Rightarrow> t)"

lemma keeps_final: "keeps R m \<longleftrightarrow> (\<forall>s. R s (final (m s)))"
  by (simp add: keeps_def wp_def final_def split: outcome.split)

text \<open>
  What the protocol code between the driver and the command server may do: calm work of its own, and
  calls of the receive callback with any connection, data and error. The other callbacks are calm.
\<close>

inductive lwip_run :: "env \<Rightarrow> 'z net_state_scheme \<Rightarrow> 'z net_state_scheme \<Rightarrow> bool" for E where
  Done: "lwip_run E s s"
| Work: "lwip_run E s t \<Longrightarrow> calm t u \<Longrightarrow> lwip_run E s u"
| Recv: "lwip_run E s t \<Longrightarrow> u = final (server_recv E pcb p err t) \<Longrightarrow> lwip_run E s u"

lemma preserved_server_command:
  assumes "timer_runs E" and "i2c_responds E"
  shows "keeps preserved (server_command E cmd ar)"
  unfolding server_command_def strtol_arg_def
  by (intro preserved_rules preserved_setVol preserved_setSource preserved_setGain preserved_setMute assms)

lemma preserved_server_recv:
  assumes "timer_runs E" and "i2c_responds E"
  shows "keeps preserved (server_recv E pcb p err)"
  unfolding server_recv_def
  by (intro preserved_rules preserved_server_command [OF assms] calm_server_poll [THEN preserved_calm])

lemma lwip_run_preserved:
  assumes "timer_runs E" and "i2c_responds E" and "lwip_run E s t"
  shows "preserved s t"
  using assms(3)
proof induction
  case (Work s t u)
  then show ?case using calm_preserved [of t u] preserved.R_trans by blast
next
  case (Recv s t u pcb p err)
  then show ?case
    using keeps_final [THEN iffD1, OF preserved_server_recv [OF assms(1,2), of pcb p err], THEN spec, of t] preserved.R_trans
    by blast
qed (rule preserved.R_refl)

text \<open>The contract of the two entry points of the stack.\<close>

definition lwip_ok :: "env \<Rightarrow> ('a \<Rightarrow> ('z net_state_scheme, unit) prog) \<Rightarrow> bool" where
  "lwip_ok E f \<longleftrightarrow> (\<forall>x s. lwip_run E s (final (f x s)))"

lemma lwip_ok_preserved:
  assumes "timer_runs E" and "i2c_responds E" and "lwip_ok E f"
  shows "keeps preserved (f x)"
  unfolding keeps_final using assms(3) lwip_run_preserved [OF assms(1,2)] unfolding lwip_ok_def by blast

section \<open>Every step preserves the invariant\<close>

lemma irq_env_ok [simp]: "timer_runs (irq_of E) = timer_runs E" "i2c_responds (irq_of E) = i2c_responds E"
proof -
  have "timer_trace (irq_of E) tr n = timer_trace E tr n" for tr n
    by (induction n arbitrary: tr) (simp_all add: irq_of_def)
  then show "timer_runs (irq_of E) = timer_runs E" by (simp add: timer_runs_def irq_of_def)
  show "i2c_responds (irq_of E) = i2c_responds E" by (simp add: i2c_responds_def irq_of_def)
qed

lemma preserved_hw_poll:
  assumes "\<And>p. keeps preserved (inp p)"
  shows "keeps preserved (hw_poll E alloc inp)"
  unfolding hw_poll_def poll_round_def Let_def enc424j600_spi_RXevent_def enc424j600_spi_recv_def
  by (intro preserved_rules calm_enc_ops [THEN preserved_calm] calm_enc_rw [THEN preserved_calm]
      calm_events [THEN preserved_calm] calm_read_segments [THEN preserved_calm]
      preserved_calm [OF calm_modify] assms) simp_all

lemma preserved_cycleSource: "timer_runs E \<Longrightarrow> keeps preserved (cycleSource E)"
  unfolding cycleSource_def by (intro preserved_rules preserved_setSource)

lemma preserved_even:
  assumes "timer_runs E" and "i2c_responds E" and "\<And>p. keeps preserved (inp p)"
  shows "keeps preserved (GPIO_EVEN_IRQHandler E alloc inp)"
  unfolding GPIO_EVEN_IRQHandler_def read_encoder_def netIRQ_def enc424j600_spi_poll_def
  by (intro preserved_rules preserved_updateVol preserved_cycleSource preserved_hw_poll assms)

lemma preserved_odd:
  assumes "i2c_responds E"
  shows "keeps preserved (GPIO_ODD_IRQHandler E)"
  unfolding GPIO_ODD_IRQHandler_def read_encoder_def
  by (intro preserved_rules preserved_updateVol assms calm_socket [THEN preserved_calm])

lemma preserved_setUint32: "ok_id i \<Longrightarrow> keeps preserved (setUint32 i v)"
  unfolding setUint32_def
  by (intro preserved_rules preserved.keeps_modify)
    (auto simp: preserved_def relay_step_def amp_inv_defs intro!: put_value_wf)

lemma preserved_flushConfig: "keeps preserved (flushConfig E)"
  unfolding flushConfig_def by (intro preserved_rules)

lemma preserved_check_loop:
  assumes "\<And>hdl a. keeps preserved (fire hdl a)"
  shows "keeps preserved (check_loop E fire n diff)"
proof (induction n arbitrary: diff)
  case (Suc n)
  have "keeps preserved (case ts of [] \<Rightarrow> ret () | t # rest \<Rightarrow>
      if time t \<le> diff then
        thenM (modify (\<lambda>s. s\<lparr>timeouts_last_time := timeouts_last_time s + time t, next_timeout := rest\<rparr>))
          (thenM (case h t of Some hdl \<Rightarrow> fire hdl (arg t) | None \<Rightarrow> ret ()) (check_loop E fire n (diff - time t)))
      else ret ())" for ts
    by (cases ts) (auto intro!: preserved_rules Suc.IH assms preserved_calm [OF calm_modify])
  then show ?case by (simp only: check_loop.simps PBUF_CHECK_FREE_OOSEQ_def) (intro preserved_rules)
qed (simp add: preserved.keeps_halt)

lemma preserved_netPeriodic:
  assumes "\<And>hdl. keeps preserved (tmr hdl)"
  shows "keeps preserved (netPeriodic E tmr)"
proof -
  have "keeps preserved (run_handler E tmr hdl a)" for hdl a
    unfolding run_handler_def tcp_needed_def
    by (cases hdl) (auto intro!: preserved_rules assms calm_sys_timeout [THEN preserved_calm] preserved_calm [OF calm_modify])
  then show ?thesis
    unfolding netPeriodic_def sys_check_timeouts_def
    by (intro preserved_rules preserved_check_loop calm_sys_now [THEN preserved_calm])
qed

lemma ok_ids: "ok_id ''volume''" "ok_id ''source''" "ok_id ''gain''"
  by (simp_all add: ok_id_def is_cstring_def)

lemma keeps_Ret: "keeps R m \<Longrightarrow> m s = Ret x t \<Longrightarrow> R s t"
  by (metis keepsD wp_RetD)

lemma preserved_gpio_handler:
  assumes "timer_runs E" and "i2c_responds E" and "lwip_ok (irq_of E) inp"
  shows "keeps preserved (gpio_handler E alloc inp i)"
proof -
  have E: "timer_runs (irq_of E)" "i2c_responds (irq_of E)" using assms(1,2) by simp_all
  have "keeps preserved (inp p)" for p by (rule lwip_ok_preserved [OF E assms(3)])
  then show ?thesis
    using preserved_even [OF E, of inp alloc] preserved_odd [OF E(2)] by (cases i) (simp_all add: gpio_handler_def)
qed

text \<open>
  The statements of the loop outside the call of \<^verbatim>\<open>setMute\<close>: they keep the relay and the mute flag
  as they are, and lead to a statement outside the call or to its beginning.
\<close>

definition plain_point :: "main_pc \<Rightarrow> bool" where
  "plain_point pc \<longleftrightarrow> (case pc of At_unmute \<Rightarrow> False | At_level \<Rightarrow> False | At_pin _ \<Rightarrow> False | At_mark \<Rightarrow> False | In_tick _ _ \<Rightarrow> False | _ \<Rightarrow> True)"

definition outside_window :: "main_pc \<Rightarrow> bool" where
  "outside_window pc \<longleftrightarrow> loop_point pc \<noteq> At_level \<and> (\<forall>v. loop_point pc \<noteq> At_pin v)"

lemma preserved_main_stmt:
  assumes "\<And>hdl. keeps preserved (tmr hdl)" and "plain_point pc"
  shows "keeps preserved (main_stmt E tmr pc)"
  using assms(2) unfolding main_stmt_def
  by (cases pc) (auto simp: plain_point_def intro!: preserved_rules preserved_netPeriodic assms(1) preserved_setUint32 ok_ids
      preserved_flushConfig calm_led [THEN preserved_calm])

lemma plain_next:
  assumes "plain_point pc" and "main_stmt E tmr pc s = Ret pc' t"
  shows "\<not> ticking pc' \<and> outside_window pc'"
  using assms
  by (cases pc) (auto simp: main_stmt_def plain_point_def outside_window_def ticking_def thenM_def bindM_def split: outcome.splits if_splits)

text \<open>
  The invariant at a point of the loop. In the tick handler the value that was tested or loaded is
  one of the countdown. In the call of \<^verbatim>\<open>setMute\<close>, between the assignment and the write to the pin, the relay
  may still be low although the amplifier is not muted.
\<close>

definition tick_ok :: "main_pc \<Rightarrow> 'z preamp_state_scheme \<Rightarrow> bool" where
  "tick_ok pc s \<longleftrightarrow>
     (case pc of
        In_tick Tick_test b \<Rightarrow> \<not> ticking b
      | In_tick Tick_load b \<Rightarrow> \<not> ticking b \<and> 0 \<le> muteCounter s
      | In_tick (Tick_store c) b \<Rightarrow> \<not> ticking b \<and> 0 \<le> c \<and> c \<le> MUTE_DELAY
      | _ \<Rightarrow> True)"

definition relay_at :: "main_pc \<Rightarrow> 'z preamp_state_scheme \<Rightarrow> bool" where
  "relay_at pc s \<longleftrightarrow>
     (case loop_point pc of
        At_level \<Rightarrow> mute s \<longrightarrow> relay_follows s
      | At_pin v \<Rightarrow> v = (if mute s then 0 else 1) \<and> (mute s \<longrightarrow> relay_follows s)
      | _ \<Rightarrow> relay_follows s)"

lemma relay_at_outside: "outside_window pc \<Longrightarrow> relay_at pc s = relay_follows s"
  by (auto simp: relay_at_def outside_window_def split: main_pc.split)

lemma relay_at_muted: "relay_at pc s \<Longrightarrow> mute s \<Longrightarrow> relay_follows s"
  by (auto simp: relay_at_def split: main_pc.splits)

lemma relay_at_cong:
  assumes "loop_point pc = loop_point pc'" and "mute s = mute t" and "trace s = trace t"
  shows "relay_at pc s = relay_at pc' t"
proof -
  have "relay_follows s = relay_follows t" using assms(2,3) by (simp add: relay_follows_def)
  then show ?thesis unfolding relay_at_def assms(1,2) by (cases "loop_point pc'") simp_all
qed

lemma not_ticking [simp]: "\<not> ticking pc \<Longrightarrow> loop_point pc = pc" "\<not> ticking pc \<Longrightarrow> tick_ok pc s"
  by (cases pc; simp add: ticking_def tick_ok_def)+

lemma tick_ok_In_tick:
  "tick_ok (In_tick p b) s \<longleftrightarrow> \<not> ticking b \<and>
     (case p of Tick_test \<Rightarrow> True | Tick_load \<Rightarrow> 0 \<le> muteCounter s | Tick_store c \<Rightarrow> 0 \<le> c \<and> c \<le> MUTE_DELAY)"
  by (simp add: tick_ok_def split: tick_pc.split)

section \<open>Steps\<close>

lemma tick_stmt_inv:
  assumes "amp_inv s" and "tick_ok (In_tick p b) s" and "main_stmt E tmr (In_tick p b) s = Ret pc' t"
  shows "amp_inv t \<and> tick_ok pc' t \<and> loop_point pc' = loop_point b \<and> (mute t = mute s \<and> trace t = trace s)"
  using assms
  by (cases p) (auto simp: main_stmt_def tick_stmt_def tick_ok_In_tick amp_inv_defs)

text \<open>What a step of the loop or of the tick handler does to the invariant.\<close>

lemma main_step_inv:
  assumes "\<And>hdl. keeps calm (tmr hdl)" and "amp_inv s" and "tick_ok pc s" and step: "main_stmt E tmr pc s = Ret pc' t"
  shows "amp_inv t \<and> tick_ok pc' t \<and> (relay_at pc s \<longrightarrow> relay_at pc' t)"
proof (cases "plain_point pc")
  case True
  have "keeps preserved (tmr hdl)" for hdl by (rule preserved_calm [OF assms(1)])
  from keeps_Ret [OF preserved_main_stmt [OF this True] step] have "preserved s t" .
  moreover have "relay_at pc s = relay_follows s"
    using True by (intro relay_at_outside) (cases pc; simp add: plain_point_def outside_window_def)
  ultimately show ?thesis
    using plain_next [OF True step] assms(2)
    by (auto simp: preserved_def relay_at_outside relay_step_def relay_follows_def)
next
  case False
  show ?thesis
  proof (cases pc)
    case (In_tick p b)
    with tick_stmt_inv [OF assms(2) _ step [unfolded In_tick]] assms(3)
    have t: "amp_inv t \<and> tick_ok pc' t" "loop_point pc = loop_point pc'" "mute s = mute t" "trace s = trace t" by simp_all
    show ?thesis using t(1) relay_at_cong [OF t(2-4)] by simp
  next
    case (At_pin v)
    then have t: "pc' = At_leds" "t = s\<lparr>trace := trace s @ [PinMode MUTE_PORT MUTE_BIT gpioModePushPull v]\<rparr>"
      using step by (simp_all add: main_stmt_def)
    then have "amp_inv t" using assms(2) unfolding amp_inv_defs by (simp add: dac_file_append dac_write_of_def)
    moreover have "relay_at pc s \<longrightarrow> relay_at pc' t"
      by (simp add: At_pin t relay_at_def relay_follows_def pin_out_append)
    ultimately show ?thesis by (simp add: t tick_ok_def)
  next
    case At_unmute
    then have t: "pc' = At_level" "t = s\<lparr>mute := False\<rparr>" using step by (simp_all add: main_stmt_def)
    then have "amp_inv t" using assms(2) unfolding amp_inv_defs by simp
    then show ?thesis by (simp add: t tick_ok_def relay_at_def)
  next
    case At_level
    then have "At_pin (if mute s then 0 else 1) = pc' \<and> s = t" using step by (cases "mute s") (simp_all add: main_stmt_def bindM_def gets_def)
    then show ?thesis using assms(2) by (auto simp: At_level tick_ok_def relay_at_def)
  next
    case At_mark
    then have t: "pc' = At_net" "t = s\<lparr>muteCounter := - 1\<rparr>" using step by (simp_all add: main_stmt_def)
    then have "amp_inv t" using assms(2) unfolding amp_inv_defs by simp
    then show ?thesis by (simp add: At_mark t tick_ok_def relay_at_def relay_follows_def)
  qed (use False in \<open>simp_all add: plain_point_def\<close>)
qed

lemma irq_step_inv:
  assumes "timer_runs E" and "i2c_responds E" and "lwip_ok (irq_of E) inp" and "amp_inv s" and "tick_ok pc s"
    and step: "gpio_handler E alloc inp i s = Ret () t"
  shows "amp_inv t \<and> tick_ok pc t \<and>
    ((\<forall>v. loop_point pc = At_pin v \<longrightarrow> mute t = mute s) \<longrightarrow> relay_at pc s \<longrightarrow> relay_at pc t)"
proof -
  have p: "amp_inv t" "relay_step s t" "0 \<le> muteCounter s \<longrightarrow> 0 \<le> muteCounter t"
    using keeps_Ret [OF preserved_gpio_handler [OF assms(1-3)] step] assms(4) by (simp_all add: preserved_def)
  then have "tick_ok pc t" using assms(5) by (auto simp: tick_ok_def split: main_pc.splits tick_pc.splits)
  moreover have "relay_at pc t" if "\<forall>v. loop_point pc = At_pin v \<longrightarrow> mute t = mute s" "relay_at pc s"
    using p(2) that by (auto simp: relay_at_def relay_step_def relay_follows_def split: main_pc.splits)
  ultimately show ?thesis using p(1) by blast
qed

text \<open>
  A race: a handler that mutes or unmutes while the loop is between the evaluation of \<^verbatim>\<open>mute ? 0 : 1\<close> and
  the write of that value to the pin. The states that are reached without one:
\<close>

definition pin_race :: "main_pc \<times> 'z net_state_scheme \<Rightarrow> main_pc \<times> 'z net_state_scheme \<Rightarrow> bool" where
  "pin_race c d \<longleftrightarrow> (\<exists>v. loop_point (fst c) = At_pin v) \<and> mute (snd d) \<noteq> mute (snd c)"

inductive fw_quiet ::
  "env \<Rightarrow> (io list \<Rightarrow> nat \<Rightarrow> nat list) \<Rightarrow> (u8 list list \<Rightarrow> ('z net_state_scheme, unit) prog) \<Rightarrow>
   (timer_handler \<Rightarrow> ('z net_state_scheme, unit) prog) \<Rightarrow>
   main_pc \<times> 'z net_state_scheme \<Rightarrow> main_pc \<times> 'z net_state_scheme \<Rightarrow> bool"
  for E alloc inp tmr c where
  Quiet_start: "fw_quiet E alloc inp tmr c c"
| Quiet_step: "fw_quiet E alloc inp tmr c d \<Longrightarrow> fw_step E alloc inp tmr d e \<Longrightarrow> \<not> pin_race d e \<Longrightarrow> fw_quiet E alloc inp tmr c e"

text \<open>The contract of the parts outside: of the protocol stack below the handlers, and of its timers.\<close>

definition stack_ok :: "env \<Rightarrow> (u8 list list \<Rightarrow> ('z net_state_scheme, unit) prog) \<Rightarrow> (timer_handler \<Rightarrow> ('z net_state_scheme, unit) prog) \<Rightarrow> bool" where
  "stack_ok E inp tmr \<longleftrightarrow> timer_runs E \<and> i2c_responds E \<and> lwip_ok (irq_of E) inp \<and> (\<forall>hdl. keeps calm (tmr hdl))"

lemma fw_step_inv:
  assumes "stack_ok E inp tmr" and "amp_inv s" and "tick_ok pc s" and "fw_step E alloc inp tmr (pc, s) (pc', t)"
  shows "amp_inv t \<and> tick_ok pc' t \<and> (\<not> pin_race (pc, s) (pc', t) \<longrightarrow> relay_at pc s \<longrightarrow> relay_at pc' t)"
proof -
  have ok: "timer_runs E" "i2c_responds E" "lwip_ok (irq_of E) inp" "\<And>hdl. keeps calm (tmr hdl)"
    using assms(1) by (simp_all add: stack_ok_def)
  from assms(4) show ?thesis
  proof (cases rule: fw_step.cases)
    case Main
    then show ?thesis using main_step_inv [of tmr, OF ok(4) assms(2,3)] by blast
  next
    case Tick
    then have "amp_inv t" using assms(2) unfolding amp_inv_defs by simp
    moreover have "relay_at pc s = relay_at pc' t" by (rule relay_at_cong) (use Tick in simp_all)
    ultimately show ?thesis using Tick by (simp add: tick_ok_In_tick)
  next
    case (Irq i)
    have "amp_inv t \<and> tick_ok pc t \<and>
        ((\<forall>v. loop_point pc = At_pin v \<longrightarrow> mute t = mute s) \<longrightarrow> relay_at pc s \<longrightarrow> relay_at pc t)"
      using irq_step_inv [OF ok(1-3) assms(2,3)] Irq by blast
    then show ?thesis using Irq by (auto simp: pin_race_def)
  qed
qed

lemma fw_reach_inv:
  assumes "stack_ok E inp tmr" and "amp_inv s" and "\<not> ticking pc" and "fw_reach E alloc inp tmr (pc, s) c"
  shows "amp_inv (snd c) \<and> tick_ok (fst c) (snd c)"
  using assms(4)
proof induction
  case (Step d e)
  then show ?case using fw_step_inv [OF assms(1), of "snd d" "fst d" alloc "fst e" "snd e"] by simp
qed (simp add: assms(2,3))

lemma fw_quiet_inv:
  assumes "stack_ok E inp tmr" and "fw_inv s" and "\<not> ticking pc" and "outside_window pc" and "fw_quiet E alloc inp tmr (pc, s) c"
  shows "amp_inv (snd c) \<and> tick_ok (fst c) (snd c) \<and> relay_at (fst c) (snd c)"
  using assms(5)
proof induction
  case (Quiet_step d e)
  then show ?case using fw_step_inv [OF assms(1), of "snd d" "fst d" alloc "fst e" "snd e"] by simp
qed (use assms(2-4) in \<open>simp add: fw_inv_def relay_at_outside\<close>)

text \<open>The three statements of the tick handler without a GPIO interrupt between them are the handler.\<close>

lemma whole_tick:
  assumes "\<not> ticking pc" and "SysTick_Handler s = Ret () t"
  shows "fw_reach E alloc inp tmr (pc, s) (pc, t)"
proof -
  let ?r = "fw_reach E alloc inp tmr (pc, s)" and ?s = "s\<lparr>msTicks := msTicks s + 1\<rparr>"
  have main: "?r (p, u) \<Longrightarrow> main_stmt E tmr p u = Ret p' v \<Longrightarrow> ?r (p', v)" for p u p' v
    by (blast intro: fw_reach.Step fw_step.Main)
  have test: "?r (In_tick Tick_test pc, ?s)" by (intro fw_reach.Step [OF fw_reach.Start] fw_step.Tick assms(1))
  show ?thesis
  proof (cases "muteCounter s > 0")
    case True
    have "?r (In_tick Tick_load pc, ?s)" by (rule main [OF test]) (simp add: main_stmt_def tick_stmt_def True)
    then have "?r (In_tick (Tick_store (muteCounter s)) pc, ?s)" by (rule main) (simp add: main_stmt_def tick_stmt_def)
    then have "?r (pc, ?s\<lparr>muteCounter := muteCounter s - 1\<rparr>)" by (rule main) (simp add: main_stmt_def tick_stmt_def)
    moreover have "t = ?s\<lparr>muteCounter := muteCounter s - 1\<rparr>" using assms(2) True by (simp add: SysTick_Handler_def)
    ultimately show ?thesis by simp
  next
    case False
    have "?r (pc, ?s)" by (rule main [OF test]) (simp add: main_stmt_def tick_stmt_def False)
    moreover have "t = ?s" using assms(2) False by (simp add: SysTick_Handler_def)
    ultimately show ?thesis by simp
  qed
qed

section \<open>The invariant of the running firmware\<close>

text \<open>
  C1. The invariant of the running firmware: starting outside the call of \<^verbatim>\<open>setMute\<close> from a state in which the globals are in range, the
  settings table is well formed, the DAC holds the volume and mute the firmware thinks it holds, and the
  relay agrees with the mute flag, every interleaving of the statements of the main loop, of the tick handler and of the
  encoder, button, network and card handlers keeps the globals in range, the table well formed and
  the attenuation and mute in the DAC those of the current volume. If no handler mutes or unmutes in the short time between
  the evaluation of \<^verbatim>\<open>mute ? 0 : 1\<close> by the main loop and its write to the pin, then the amplifier is never audible while it is
  muted, and outside the call the relay agrees with the mute flag.
  The protocol stack touches the amplifier only through the receive callback of the command
  server, and not at all from its timers.
\<close>

theorem running_invariant:
  assumes "stack_ok E inp tmr" and "fw_inv s" and "\<not> ticking pc" and "outside_window pc"
  shows "(fw_reach E alloc inp tmr (pc, s) (pc', t) \<longrightarrow>
      in_bounds t \<and> config_wf (configMem t) \<and> dac_file (trace t) REG_VOLUME_A = Some (vol_byte (volume t)) \<and>
      dac_file (trace t) REG_MUTE_CTRL = Some (if dacMuted t then 0xf8 else 0xe0)) \<and>
    (fw_quiet E alloc inp tmr (pc, s) (pc', t) \<longrightarrow>
      (mute t \<longrightarrow> pin_out MUTE_PORT MUTE_BIT (trace t) = Some False) \<and>
      (outside_window pc' \<longrightarrow> pin_out MUTE_PORT MUTE_BIT (trace t) = Some (\<not> mute t)))"
proof (rule conjI; rule impI)
  assume r: "fw_reach E alloc inp tmr (pc, s) (pc', t)"
  have "amp_inv s" using assms(2) by (simp add: fw_inv_def)
  then show "in_bounds t \<and> config_wf (configMem t) \<and> dac_file (trace t) REG_VOLUME_A = Some (vol_byte (volume t)) \<and>
      dac_file (trace t) REG_MUTE_CTRL = Some (if dacMuted t then 0xf8 else 0xe0)"
    using fw_reach_inv [OF assms(1) _ assms(3) r] by (simp add: amp_inv_def dac_follows_def dac_ok_def)
next
  assume "fw_quiet E alloc inp tmr (pc, s) (pc', t)"
  then have "relay_at pc' t" using fw_quiet_inv [OF assms] by fastforce
  then show "(mute t \<longrightarrow> pin_out MUTE_PORT MUTE_BIT (trace t) = Some False) \<and>
      (outside_window pc' \<longrightarrow> pin_out MUTE_PORT MUTE_BIT (trace t) = Some (\<not> mute t))"
    using relay_at_muted [of pc' t] relay_at_outside [of pc' t] by (auto simp: relay_follows_def)
qed

text \<open>A state of the running firmware, and a stack that receives one command per packet.\<close>

definition live_net :: net_state where
  "live_net = blank_net\<lparr>init := True, trace :=
     [I2cStart DAC_ADDRESS I2C_FLAG_WRITE [REG_MUTE_CTRL, 0xe0], I2cStart DAC_ADDRESS I2C_FLAG_WRITE [REG_VOLUME_A, 200],
      PinMode MUTE_PORT MUTE_BIT gpioModePushPull 1]\<rparr>"

definition mute_stack :: "env \<Rightarrow> u8 list list \<Rightarrow> (net_state, unit) prog" where
  "mute_stack E p = thenM (server_recv E 7 (Some (bytes_of ''SET_MUTE 1'', 10)) 0) (ret ())"

lemma live_net_inv: "fw_inv live_net"
  using blank_table_free(1)
  by (simp add: fw_inv_defs live_net_def blank_net_def blank_timers_def timers_state.extend_def preamp_state.extend_def
      blank_preamp_def dac_file_def dac_write_of_def dac_consts vol_byte_def pin_out_def)

lemma lwip_ok_ret: "lwip_ok E (\<lambda>_. ret ())"
  by (simp add: lwip_ok_def final_def lwip_run.Done)

lemma lwip_ok_mute_stack: "lwip_ok E (mute_stack E)"
proof -
  have "final (mute_stack E p s) = final (server_recv E 7 (Some (bytes_of ''SET_MUTE 1'', 10)) 0 s)" for p s
    by (simp add: mute_stack_def thenM_def bindM_def final_def split: outcome.split)
  then show ?thesis unfolding lwip_ok_def by (metis lwip_run.Done lwip_run.Recv)
qed

lemma stack_ok_mute: "stack_ok ideal_env (mute_stack (irq_of ideal_env)) (\<lambda>_. ret ())"
  using ideal_env_timer(1) ideal_env_i2c lwip_ok_mute_stack by (simp add: stack_ok_def calm.keeps_ret)

lemma quiet_main:
  "fw_quiet E alloc inp tmr c (pc, u) \<Longrightarrow> main_stmt E tmr pc u = Ret pc' v \<Longrightarrow> (\<And>x. loop_point pc = At_pin x \<Longrightarrow> mute v = mute u) \<Longrightarrow>
   fw_quiet E alloc inp tmr c (pc', v)"
  by (rule fw_quiet.Quiet_step [OF _ fw_step.Main]) (auto simp: pin_race_def)

theorem running_invariant_witness:
  "\<exists>t. fw_quiet ideal_env (\<lambda>_ _. []) (mute_stack (irq_of ideal_env)) (\<lambda>_. ret ()) (At_test_mute, live_net) (At_leds, t) \<and>
     \<not> mute t \<and> pin_out MUTE_PORT MUTE_BIT (trace t) = Some True"
proof -
  let ?u = "live_net\<lparr>mute := False\<rparr>"
  let ?t = "?u\<lparr>trace := trace live_net @ [PinMode MUTE_PORT MUTE_BIT gpioModePushPull 1]\<rparr>"
  let ?q = "fw_quiet ideal_env (\<lambda>_ _. []) (mute_stack (irq_of ideal_env)) (\<lambda>_. ret ()) (At_test_mute, live_net)"
  have "muteCounter live_net = 0"
    by (simp add: live_net_def blank_net_def blank_timers_def timers_state.extend_def preamp_state.extend_def blank_preamp_def)
  then have "?q (At_unmute, live_net)" by (intro quiet_main [OF fw_quiet.Quiet_start]) (simp_all add: main_stmt_def)
  then have "?q (At_level, ?u)" by (rule quiet_main) (simp_all add: main_stmt_def)
  then have "?q (At_pin 1, ?u)" by (rule quiet_main) (simp_all add: main_stmt_def bindM_def gets_def)
  then have q: "?q (At_leds, ?t)" by (rule quiet_main) (simp_all add: main_stmt_def)
  have "\<not> ticking At_test_mute" "outside_window At_test_mute" "outside_window At_leds"
    by (simp_all add: ticking_def outside_window_def)
  then have "pin_out MUTE_PORT MUTE_BIT (trace ?t) = Some (\<not> mute ?t)"
    using running_invariant [OF stack_ok_mute live_net_inv, of At_test_mute "\<lambda>_ _. []" At_leds ?t] q by blast
  then show ?thesis using q by (intro exI [of _ ?t]) simp
qed

end
