(* ===== verification/Startup.thy ===== *)
theory Startup
  imports Running
begin

text \<open>
  Start-up ends: no wait in it is endless, and it stops only with the message about a part that
  does not answer. When all parts answer it reaches the main loop.
\<close>

section \<open>Why a program may stop\<close>

text \<open>\<open>stops_only H m\<close>: the only reasons for which \<open>m\<close> does not return are those in \<open>H\<close>.\<close>

definition stops_only :: "halt set \<Rightarrow> ('s, 'a) prog \<Rightarrow> bool" where
  "stops_only H m \<longleftrightarrow> (\<forall>s. wp m (\<lambda>_ _. True) (\<lambda>why _. why \<in> H) s)"

lemma stops_onlyD: "stops_only H m \<Longrightarrow> m s = Halt why t \<Longrightarrow> why \<in> H"
  by (metis stops_only_def wp_HaltD)

lemma stops_mono: "stops_only H m \<Longrightarrow> H \<subseteq> H' \<Longrightarrow> stops_only H' m"
  unfolding stops_only_def by (blast intro: wp_mono)

lemma stops_total: "(\<And>s. \<exists>x t. m s = Ret x t) \<Longrightarrow> stops_only H m"
  unfolding stops_only_def wp_def by (metis outcome.simps(5))

lemma stops_bindM: "stops_only H m \<Longrightarrow> (\<And>x. stops_only H (f x)) \<Longrightarrow> stops_only H (bindM m f)"
  unfolding stops_only_def by (fastforce elim: wp_mono)

lemma stops_thenM: "stops_only H m \<Longrightarrow> stops_only H n \<Longrightarrow> stops_only H (thenM m n)"
  unfolding thenM_def by (rule stops_bindM)

lemma stops_basic:
  "stops_only H (ret x)" "stops_only H (gets f)" "stops_only H (modify g)" "stops_only H (emit e)" "stops_only H (seqM [])"
  by (simp_all add: stops_only_def)

lemma stops_halt: "why \<in> H \<Longrightarrow> stops_only H (halt_with why)"
  by (simp add: stops_only_def)

lemma stops_whenM: "(b \<Longrightarrow> stops_only H m) \<Longrightarrow> stops_only H (whenM b m)"
  by (simp add: stops_only_def)

lemma stops_if: "(b \<Longrightarrow> stops_only H m) \<Longrightarrow> (\<not> b \<Longrightarrow> stops_only H n) \<Longrightarrow> stops_only H (if b then m else n)"
  by simp

lemma stops_seq_Cons: "stops_only H m \<Longrightarrow> stops_only H (seqM ms) \<Longrightarrow> stops_only H (seqM (m # ms))"
  by (simp add: stops_thenM)

lemma stops_repeatM: "stops_only H m \<Longrightarrow> stops_only H (repeatM n m)"
  by (induction n) (simp_all add: stops_basic stops_thenM)

lemma stops_calls:
  "stops_only H (ext_call f as)" "stops_only H (printf t)" "stops_only H (reg_set r v)" "stops_only H (GPIO_PinModeSet p b m out)"
  "stops_only H (GPIO_PinOutSet p b)" "stops_only H (GPIO_PinOutClear p b)" "stops_only H (GPIO_IntConfig p b x y z)"
  "stops_only H (GPIO_PinInGet E p b)" "stops_only H (USART_SpiTransfer E u d)" "stops_only H (ext_ask E f as)"
  by (simp_all add: stops_only_def GPIO_IntConfig_def ext_ask_def)

lemma stops_panic: "Panic msg \<in> H \<Longrightarrow> stops_only H (panic msg)" "Panic msg \<in> H \<Longrightarrow> stops_only H (lwip_assert_fails msg)"
  by (simp_all add: stops_only_def panic_def lwip_assert_fails_def)

lemma stops_quiet: "quiet m \<Longrightarrow> stops_only H m"
  unfolding stops_only_def by (blast intro: wp_quiet)

lemmas stops_rules = stops_bindM stops_thenM stops_basic stops_whenM stops_if stops_seq_Cons stops_repeatM stops_calls

section \<open>Waits that end\<close>

text \<open>
  The tick interrupt is taken: between two looks at the tick counter at least one and less than
  a thousand ticks pass (looks between which none passes are one look here), and the model allows
  as many looks as the longest wait of start-up needs.
\<close>

definition ticks_run :: "env \<Rightarrow> bool" where
  "ticks_run E \<longleftrightarrow> (\<forall>tr. 0 < env_ticks E tr \<and> env_ticks E tr < 1000) \<and> 2001 < env_fuel E"

lemma SysTicks_run: "\<exists>c. repeatM n SysTick_Handler s = Ret () (s\<lparr>msTicks := msTicks s + of_nat n, muteCounter := c\<rparr>)"
proof (induction n arbitrary: s)
  case 0
  show ?case by (rule exI [of _ "muteCounter s"]) simp
next
  case (Suc n)
  obtain c where "SysTick_Handler s = Ret () (s\<lparr>msTicks := msTicks s + 1, muteCounter := c\<rparr>)"
    by (simp add: SysTick_Handler_def)
  with Suc [of "s\<lparr>msTicks := msTicks s + 1, muteCounter := c\<rparr>"] show ?case
    by (auto simp: add.assoc)
qed

lemma read_msTicks_run:
  "\<exists>c tr. read_msTicks E s = Ret (msTicks s + of_nat (env_ticks E (trace s)))
     (s\<lparr>msTicks := msTicks s + of_nat (env_ticks E (trace s)), muteCounter := c, trace := tr\<rparr>)"
proof -
  obtain c where "repeatM (env_ticks E (trace s)) SysTick_Handler s =
      Ret () (s\<lparr>msTicks := msTicks s + of_nat (env_ticks E (trace s)), muteCounter := c\<rparr>)" using SysTicks_run by blast
  then show ?thesis
    by (intro exI [of _ c] exI [of _ "trace s @ [RegGet ''msTicks'' (msTicks s + of_nat (env_ticks E (trace s)))]"])
      (simp add: read_msTicks_def)
qed

lemma stops_read_msTicks: "stops_only H (read_msTicks E)"
  by (rule stops_total) (use read_msTicks_run in blast)

text \<open>A wait for a condition on the counter that the next look brings closer to being true.\<close>

lemma tick_wait_ends:
  fixes s :: "'z preamp_state_scheme"
  assumes "\<And>(s :: 'z preamp_state_scheme) now t. read_msTicks E s = Ret now t \<Longrightarrow> ok now \<or> left (msTicks t) < left (msTicks s)"
    and "left (msTicks s) < n"
  shows "\<exists>t. pollM n (bindM (read_msTicks E) (\<lambda>now. ret (ok now))) s = Ret () t"
  using assms(2)
proof (induction n arbitrary: s)
  case (Suc n)
  obtain now t where t: "read_msTicks E s = Ret now t" using read_msTicks_run by blast
  show ?case
  proof (cases "ok now")
    case False
    then have "left (msTicks t) < n" using assms(1) [OF t] Suc.prems by simp
    then show ?thesis using Suc.IH [of t] t False by simp
  qed (use t in simp)
qed simp

lemma tick_step:
  assumes "ticks_run E" and "read_msTicks E s = Ret now t"
  shows "\<exists>k > 0. k < 1000 \<and> now = msTicks s + of_nat k \<and> msTicks t = now"
  using read_msTicks_run [of E s] assms by (auto simp: ticks_run_def)

lemma msleep_1_ends:
  assumes "ticks_run E"
  shows "\<exists>t. msleep E 1 s = Ret () t"
proof -
  obtain cur s' where s': "read_msTicks E s = Ret cur s'" using read_msTicks_run by blast
  have "\<exists>t. pollM (env_fuel E) (bindM (read_msTicks E) (\<lambda>now. ret (\<not> now - cur < 1))) s' = Ret () t"
  proof (rule tick_wait_ends [where left = "\<lambda>m. if m = cur then 0 else 1"])
    fix u :: "'a preamp_state_scheme" and now t assume "read_msTicks E u = Ret now t"
    then obtain k where k: "k > 0" "k < 1000" "now = msTicks u + of_nat k" "msTicks t = now"
      using tick_step [OF assms] by blast
    then have "of_nat k \<noteq> (0 :: u32)" by (simp add: word_of_nat_eq_0_iff nat_dvd_not_less)
    then show "\<not> now - cur < 1 \<or> (if msTicks t = cur then 0 else 1 :: nat) < (if msTicks u = cur then 0 else 1)"
      using k by auto
  qed (use assms in \<open>simp add: ticks_run_def\<close>)
  then show ?thesis using s' by (simp add: msleep_def)
qed

text \<open>Interrupt handlers that return. Ticks are not taken while they run.\<close>

definition irqs_return :: "(nat \<Rightarrow> ('z preamp_state_scheme, unit) prog) \<Rightarrow> bool" where
  "irqs_return irq \<longleftrightarrow> (\<forall>k s. \<exists>t. irq k s = Ret () t \<and> msTicks t = msTicks s)"

lemma tick_wait_irq_ends:
  fixes s :: "'z preamp_state_scheme"
  assumes "irqs_return irq"
    and "\<And>(s :: 'z preamp_state_scheme) now t. read_msTicks E s = Ret now t \<Longrightarrow> ok now \<or> left (msTicks t) < left (msTicks s)"
    and "left (msTicks s) < n"
  shows "\<exists>t. pollM n (thenM (irq k) (bindM (read_msTicks E) (\<lambda>now. ret (ok now)))) s = Ret () t"
  using assms(3)
proof (induction n arbitrary: s)
  case (Suc n)
  obtain u where u: "irq k s = Ret () u" "msTicks u = msTicks s" using assms(1) unfolding irqs_return_def by blast
  obtain now t where t: "read_msTicks E u = Ret now t" using read_msTicks_run by blast
  show ?case
  proof (cases "ok now")
    case False
    then have "left (msTicks t) < n" using assms(2) [OF t] Suc.prems u(2) by simp
    then show ?thesis using Suc.IH [of t] t False u(1) by simp
  qed (use t u(1) in simp)
qed simp

lemma wait_init_ends:
  assumes "ticks_run E" and "irqs_return irq"
  shows "\<exists>t. wait_init E irq s = Ret () t"
  unfolding wait_init_def
proof (rule tick_wait_irq_ends [OF assms(2), where left = "\<lambda>m. if m < INIT_MUTE_DELAY then 2000 - unat m else 2001"])
  fix u :: "'a preamp_state_scheme" and now t assume "read_msTicks E u = Ret now t"
  then obtain k where k: "k > 0" "k < 1000" "now = msTicks u + of_nat k" "msTicks t = now"
    using tick_step [OF assms(1)] by blast
  have "unat now = unat (msTicks u) + k" if "unat (msTicks u) < 2000"
    using k that by (simp add: unat_word_ariths unat_of_nat)
  then show "\<not> now < INIT_MUTE_DELAY \<or>
      (if msTicks t < INIT_MUTE_DELAY then 2000 - unat (msTicks t) else 2001) <
      (if msTicks u < INIT_MUTE_DELAY then 2000 - unat (msTicks u) else 2001)"
    using k by (auto simp: word_less_nat_alt)
qed (use assms in \<open>auto simp: ticks_run_def\<close>)

section \<open>Start-up ends\<close>

text \<open>The FPGA raises its DONE pin some time after it is released.\<close>

definition fpga_loads :: "env \<Rightarrow> bool" where
  "fpga_loads E \<longleftrightarrow> (\<forall>tr. \<exists>n < env_fuel E. env_pin E (tr @ replicate n (PinGet gpioPortA 5 False)) gpioPortA 5)"

lemma pin_wait_ends:
  "env_pin E (trace s @ replicate k (PinGet p b False)) p b \<Longrightarrow> k < n \<Longrightarrow> \<exists>t. pollM n (GPIO_PinInGet E p b) s = Ret () t"
proof (induction k arbitrary: n s)
  case 0
  then show ?case by (cases n) (simp_all add: GPIO_PinInGet_def)
next
  case (Suc k)
  then obtain m where m: "n = Suc m" "k < m" by (cases n) auto
  show ?case
  proof (cases "env_pin E (trace s) p b")
    case False
    then show ?thesis
      using Suc.IH [of "s\<lparr>trace := trace s @ [PinGet p b False]\<rparr>" m] Suc.prems(1) m by (simp add: GPIO_PinInGet_def)
  qed (use m in \<open>simp add: GPIO_PinInGet_def\<close>)
qed

section \<open>Hardware that answers\<close>

text \<open>The bytes the Ethernet chip answers to a banked read of \<open>n\<close> bytes with the given command.\<close>

definition reg_answer :: "env \<Rightarrow> io list \<Rightarrow> u8 \<Rightarrow> nat \<Rightarrow> u8 list" where
  "reg_answer E tr cmd n = spi_rx E (tr @ transfer_calls E tr [cmd] False @ [PinClear ETH_CS_PORT ETH_CS_BIT]) (replicate n 0)"

text \<open>The events of writing the test pattern.\<close>

definition pattern_calls :: "env \<Rightarrow> io list \<Rightarrow> io list" where
  "pattern_calls E tr = tr @ transfer_calls E tr [ENC424J600_EUDASTL OR ENC424J600_WRITECR] False @
     transfer_calls E (tr @ transfer_calls E tr [ENC424J600_EUDASTL OR ENC424J600_WRITECR] False) [0x34, 0x12] True"

text \<open>
  A chip that starts: it reads back the test pattern after it was written, reports its clock
  as running, and reads zero from the same register after the pause that follows a reset.
\<close>

definition eth_starts :: "env \<Rightarrow> bool" where
  "eth_starts E \<longleftrightarrow>
     (\<forall>tr. reg_answer E (pattern_calls E tr) (ENC424J600_EUDASTL OR ENC424J600_READCR) 2 = [0x34, 0x12]) \<and>
     (\<forall>tr. reg_answer E tr (ENC424J600_ESTATL OR ENC424J600_READCR) 2 ! 1 AND ENC424J600_CLKRDY \<noteq> 0) \<and>
     (\<forall>tr e. is_timer_call e \<longrightarrow> reg_answer E (tr @ [e]) (ENC424J600_EUDASTL OR ENC424J600_READCR) 2 = [0, 0])"

lemma banked_read_run:
  assumes "address \<le> ENC424J600_ECON1H" and "0 < n"
  shows "\<exists>tr. banked_read E address n s = Ret (reg_answer E (trace s) (address OR ENC424J600_READCR) n) (s\<lparr>trace := tr\<rparr>)"
proof -
  have ok: "\<not> ENC424J600_ECON1H < address" "ENC424J600_READCR AND ENC424J600_ECON1H = 0"
    using assms(1) by (simp_all add: not_less ENC424J600_READCR_def)
  show ?thesis
    using assms(2) ok
    by (auto simp: banked_read_def banked_register_operation_def thenM_Ret [OF spi_transfer_run] bindM_Ret [OF spi_transfer_run]
        reg_answer_def)
qed

lemma pattern_write_run:
  "banked_write E ENC424J600_WRITECR ENC424J600_EUDASTL [0x34, 0x12] s = Ret () (s\<lparr>trace := pattern_calls E (trace s)\<rparr>)"
proof -
  have ok: "\<not> ENC424J600_ECON1H < ENC424J600_EUDASTL" "ENC424J600_WRITECR AND ENC424J600_ECON1H = 0" "ENC424J600_WRITECR \<noteq> ENC424J600_READCR"
    by (simp_all add: enc_consts)
  then show ?thesis
    by (simp add: banked_write_def banked_register_operation_def thenM_Ret [OF spi_transfer_run] bindM_Ret [OF spi_transfer_run]
        pattern_calls_def)
qed

lemma spi_ready_starts:
  assumes "eth_starts E"
  shows "\<exists>tr. spi_ready E (Suc n) s = Ret True (s\<lparr>trace := tr\<rparr>)"
proof -
  have "ENC424J600_EUDASTL \<le> ENC424J600_ECON1H" by (simp add: enc_consts)
  then obtain tr where "banked_read E ENC424J600_EUDASTL 2 (s\<lparr>trace := pattern_calls E (trace s)\<rparr>) = Ret [0x34, 0x12] (s\<lparr>trace := tr\<rparr>)"
    using banked_read_run [of ENC424J600_EUDASTL 2 E "s\<lparr>trace := pattern_calls E (trace s)\<rparr>"] assms by (auto simp: eth_starts_def)
  then show ?thesis by (intro exI [of _ tr]) (simp add: pattern_write_run)
qed

lemma clk_ready_starts:
  assumes "eth_starts E"
  shows "\<exists>tr. clk_ready E 0 s = Ret 0 (s\<lparr>trace := tr\<rparr>)"
proof -
  have "ENC424J600_ESTATL \<le> ENC424J600_ECON1H" by (simp add: enc_consts)
  then obtain aux tr where "banked_read E ENC424J600_ESTATL 2 s = Ret aux (s\<lparr>trace := tr\<rparr>)" "aux ! 1 AND ENC424J600_CLKRDY \<noteq> 0"
    using banked_read_run [of ENC424J600_ESTATL 2 E s] assms by (auto simp: eth_starts_def)
  then show ?thesis by (intro exI [of _ tr]) (simp add: clk_ready.simps)
qed

lemma wp_usleep_last:
  "wp (usleep E us) (\<lambda>_ t. \<exists>tr e. trace t = tr @ [e] \<and> is_timer_call e) (\<lambda>_ _. True) s"
  unfolding usleep_def wp_thenM wp_calls
  by (rule wp_pollM_partial [where I = "\<lambda>t. \<exists>tr e. trace t = tr @ [e] \<and> is_timer_call e"])
    (auto simp: is_timer_call_def)

lemma stops_reset:
  assumes "timer_runs E" and "eth_starts E" and "us \<le> 21845" and "stops_only H (seqM ms)"
  shows "stops_only H (seqM (usleep E us # bindM (banked_read E ENC424J600_EUDASTL 2) (\<lambda>aux.
    whenM (aux ! 0 \<noteq> 0 \<or> aux ! 1 \<noteq> 0) (panic msg)) # ms))"
  unfolding stops_only_def
proof
  fix s :: "'a hw_scheme"
  obtain t where t: "usleep E us s = Ret () t" using usleep_run [OF assms(1,3)] by blast
  then obtain tr e where tr: "trace t = tr @ [e]" "is_timer_call e" using wp_RetD [OF wp_usleep_last] by blast
  have "ENC424J600_EUDASTL \<le> ENC424J600_ECON1H" by (simp add: enc_consts)
  then obtain tr' where "banked_read E ENC424J600_EUDASTL 2 t = Ret [0, 0] (t\<lparr>trace := tr'\<rparr>)"
    using banked_read_run [of ENC424J600_EUDASTL 2 E t] assms(2) tr by (auto simp: eth_starts_def)
  then have "seqM (usleep E us # bindM (banked_read E ENC424J600_EUDASTL 2) (\<lambda>aux.
      whenM (aux ! 0 \<noteq> 0 \<or> aux ! 1 \<noteq> 0) (panic msg)) # ms) s = seqM ms (t\<lparr>trace := tr'\<rparr>)"
    using t by (simp add: thenM_def)
  then show "wp (seqM (usleep E us # bindM (banked_read E ENC424J600_EUDASTL 2) (\<lambda>aux.
      whenM (aux ! 0 \<noteq> 0 \<or> aux ! 1 \<noteq> 0) (panic msg)) # ms)) (\<lambda>_ _. True) (\<lambda>why _. why \<in> H) s"
    using assms(4) unfolding stops_only_def wp_def by metis
qed

lemma stops_hw_init:
  assumes "timer_runs E" and "eth_starts E"
  shows "stops_only H (hw_init E :: ('z enc_state_scheme, unit) prog)"
proof -
  have us: "quiet (usleep E 256)" "quiet (usleep E 26)" using assms(1) by (auto intro!: quiet_usleep simp: word_le_nat_alt)
  have a: "stops_only H (bindM (spi_ready E 101) (\<lambda>ok. whenM (\<not> ok) (panic msg)) :: ('z enc_state_scheme, unit) prog)" for msg
  proof (rule stops_total)
    fix s :: "'z enc_state_scheme"
    obtain tr where "spi_ready E (Suc 100) s = Ret True (s\<lparr>trace := tr\<rparr>)" using spi_ready_starts [OF assms(2)] by blast
    then show "\<exists>x t. bindM (spi_ready E 101) (\<lambda>ok. whenM (\<not> ok) (panic msg)) s = Ret x t" by (simp add: numeral_eq_Suc)
  qed
  have b: "stops_only H (bindM (clk_ready E 0) (\<lambda>i. whenM (i > 100) (panic msg)) :: ('z enc_state_scheme, unit) prog)" for msg
  proof (rule stops_total)
    fix s :: "'z enc_state_scheme"
    obtain tr where "clk_ready E 0 s = Ret 0 (s\<lparr>trace := tr\<rparr>)" using clk_ready_starts [OF assms(2)] by blast
    then show "\<exists>x t. bindM (clk_ready E 0) (\<lambda>i. whenM (i > 100) (panic msg)) s = Ret x t" by simp
  qed
  have c: "stops_only H (bindM (read_esa_u E) (\<lambda>(retval, esa). if retval \<noteq> 0 then panic msg
      else thenM (modify (f esa)) (printf (g esa))) :: ('z enc_state_scheme, unit) prog)" for msg f g
    unfolding stops_only_def wp_bindM by (intro allI wp_read_esa_u) simp
  show ?thesis
    unfolding hw_init_def
    by (intro stops_seq_Cons stops_reset [OF assms] a b c stops_quiet quiet_spiInit quiet_enc quiet_enc_rw quiet_write_phy us
        quiet_bindM stops_basic) (simp add: word_le_nat_alt)
qed

section \<open>Start-up ends\<close>

text \<open>The messages with which start-up may stop.\<close>

definition boot_messages :: "halt set" where
  "boot_messages = start_messages \<union> {Panic ''Can't find DAC'', Panic ''sys_timeout: timeout != NULL, pool MEMP_SYS_TIMEOUT is empty''} \<union>
     range (\<lambda>x. Panic (''Incorrect FPGA magic number '' @ x))"

text \<open>
  Every part answers as start-up expects, or \<open>H\<close> holds the messages with which start-up reports that it does not.
\<close>

definition answers_or :: "halt set \<Rightarrow> env \<Rightarrow> bool" where
  "answers_or H E \<longleftrightarrow>
     ((\<forall>tr d. env_spi E tr FPGA_USART d = MAGIC) \<or> range (\<lambda>x. Panic (''Incorrect FPGA magic number '' @ x)) \<subseteq> H) \<and>
     ((\<forall>tr. env_i2c_rx E tr AND NOT REV_MASK = CHIP_ID) \<or> Panic ''Can't find DAC'' \<in> H) \<and>
     ((\<forall>tr. env_call E tr ''memp_malloc(MEMP_SYS_TIMEOUT)'' \<noteq> 0) \<or>
       Panic ''sys_timeout: timeout != NULL, pool MEMP_SYS_TIMEOUT is empty'' \<in> H) \<and>
     (eth_starts E \<or> start_messages \<subseteq> H)"

definition parts_answer :: "env \<Rightarrow> bool" where
  "parts_answer E \<longleftrightarrow> (\<forall>tr d. env_spi E tr FPGA_USART d = MAGIC) \<and> (\<forall>tr. env_i2c_rx E tr AND NOT REV_MASK = CHIP_ID) \<and>
     (\<forall>tr. env_call E tr ''memp_malloc(MEMP_SYS_TIMEOUT)'' \<noteq> 0) \<and> eth_starts E"

lemma answers_orD:
  assumes "answers_or H E"
  shows "(\<forall>tr d. env_spi E tr FPGA_USART d = MAGIC) \<or> range (\<lambda>x. Panic (''Incorrect FPGA magic number '' @ x)) \<subseteq> H"
    and "(\<forall>tr. env_i2c_rx E tr AND NOT REV_MASK = CHIP_ID) \<or> Panic ''Can't find DAC'' \<in> H"
    and "(\<forall>tr. env_call E tr ''memp_malloc(MEMP_SYS_TIMEOUT)'' \<noteq> 0) \<or>
       Panic ''sys_timeout: timeout != NULL, pool MEMP_SYS_TIMEOUT is empty'' \<in> H"
    and "eth_starts E \<or> start_messages \<subseteq> H"
  using assms unfolding answers_or_def by blast+

lemma answers_or_all: "answers_or boot_messages E"
  unfolding answers_or_def boot_messages_def by blast

lemma answers_or_none: "parts_answer E \<Longrightarrow> answers_or H E"
  unfolding answers_or_def parts_answer_def by blast

lemma stops_fpgaInit:
  assumes "fpga_loads E" and "answers_or H E"
  shows "stops_only H (fpgaInit E src gn)"
proof -
  have "\<exists>x t. pollM (env_fuel E) (GPIO_PinInGet E gpioPortA 5) s = Ret x t" for s :: "'a hw_scheme"
    using assms(1) pin_wait_ends [where p = gpioPortA and b = 5 and s = s] unfolding fpga_loads_def by blast
  then have w: "stops_only H (pollM (env_fuel E) (GPIO_PinInGet E gpioPortA 5) :: ('a hw_scheme, unit) prog)"
    by (rule stops_total)
  have m: "stops_only H (bindM (readMagic E) (\<lambda>magic. thenM (printf tx) (whenM (magic \<noteq> MAGIC)
      (panic (''Incorrect FPGA magic number '' @ f magic)))) :: ('a hw_scheme, unit) prog)" for tx f
    using answers_orD(1) [OF assms(2)]
  proof
    assume "\<forall>tr d. env_spi E tr FPGA_USART d = MAGIC"
    then show ?thesis by (intro stops_total) (simp add: readMagic_def USART_SpiTransfer_def)
  next
    assume "range (\<lambda>x. Panic (''Incorrect FPGA magic number '' @ x)) \<subseteq> H"
    then show ?thesis unfolding readMagic_def by (intro stops_rules stops_panic) blast
  qed
  show ?thesis
    unfolding fpgaInit_def fpgaSelectSource_def fpgaSetGain_def by (intro stops_seq_Cons stops_basic w m stops_rules)
qed

lemma stops_dacInit:
  assumes "i2c_responds E" and "answers_or H E"
  shows "stops_only H (dacInit E v)"
proof -
  have i: "stops_only H (i2c_transfer E fl buf :: ('a hw_scheme, unit) prog)" for fl buf
    by (rule stops_total) (use i2c_transfer_run [OF assms(1)] in blast)
  have r: "stops_only H (bindM (dacReadReg E reg) (\<lambda>version. thenM (whenM (version AND NOT REV_MASK \<noteq> CHIP_ID) (panic ''Can't find DAC''))
      (printf (f version))) :: ('a hw_scheme, unit) prog)" for reg f
    using answers_orD(2) [OF assms(2)]
  proof
    assume id: "\<forall>tr. env_i2c_rx E tr AND NOT REV_MASK = CHIP_ID"
    have "wp (dacReadReg E reg) (\<lambda>x _. x AND NOT REV_MASK = CHIP_ID) (\<lambda>_ _. False) s" for s :: "'a hw_scheme"
    proof -
      obtain k where "i2c_transfer E I2C_FLAG_WRITE [ucast reg] s = Ret () (s\<lparr>trace := k\<rparr>)"
        using i2c_transfer_run [OF assms(1)] by blast
      moreover obtain k' where "i2c_transfer E I2C_FLAG_READ [0] (s\<lparr>trace := k\<rparr>) = Ret () (s\<lparr>trace := k'\<rparr>)"
        using i2c_transfer_run [OF assms(1), of I2C_FLAG_READ "[0]" "s\<lparr>trace := k\<rparr>"] by auto
      ultimately show ?thesis using id by (simp add: dacReadReg_def wp_def)
    qed
    then show ?thesis
      unfolding stops_only_def wp_bindM by (intro allI) (rule wp_mono, assumption, simp_all)
  next
    assume "Panic ''Can't find DAC'' \<in> H"
    then show ?thesis unfolding dacReadReg_def by (intro stops_rules i stops_panic)
  qed
  show ?thesis
    unfolding dacInit_def dacWriteReg_def dacSetVolume_def by (intro stops_seq_Cons stops_basic i r stops_rules)
qed

lemma disk_initialize_ends: "\<exists>r t. disk_initialize E 0 s = Ret r t"
proof (cases "dstat s AND STA_NODISK = 0")
  case True
  show ?thesis using disk_initialize_wp [OF True runs_io_identify, of E] unfolding wp_total_ex by blast
qed (simp add: disk_initialize_def)

lemma stops_sdInit:
  assumes "ticks_run E"
  shows "stops_only H (sdInit E)"
proof -
  have m: "stops_only H (MICROSD_Init :: ('a preamp_state_scheme, unit) prog)"
    by (rule stops_total) (use MICROSD_Init_run in blast)
  have d: "stops_only H (disk_initialize E 0 :: ('a preamp_state_scheme, u8) prog)"
    by (rule stops_total) (rule disk_initialize_ends)
  have s: "stops_only H (msleep E 1 :: ('a preamp_state_scheme, unit) prog)"
    by (rule stops_total) (use msleep_1_ends [OF assms] in blast)
  have "stops_only H (mount_retry E n :: ('a preamp_state_scheme, unit) prog)" for n
    by (induction n) (auto simp only: mount_retry.simps intro!: stops_rules m d s)
  then show ?thesis
    unfolding sdInit_def mountUnmount_def f_mount_def Let_def by (intro stops_rules)
qed

lemma stops_spi_init:
  assumes "timer_runs E" and "answers_or H E"
  shows "stops_only H (enc424j600_spi_init E)"
  using answers_orD(4) [OF assms(2)]
proof
  assume e: "eth_starts E"
  have "stops_only H (enc424j600_spi_start E :: ('a enc_state_scheme, unit) prog)"
    unfolding stops_only_def by (intro allI wp_mono [OF wp_spi_start]) simp_all
  then show ?thesis
    unfolding enc424j600_spi_init_def by (intro stops_thenM stops_hw_init [OF assms(1) e] stops_basic)
next
  assume sub: "start_messages \<subseteq> H"
  show ?thesis
    unfolding stops_only_def by (intro allI wp_mono [OF wp_spi_init [OF assms(1)]]) (use sub in auto)
qed

lemma stops_sys_timeout:
  assumes "answers_or H E"
  shows "stops_only H (sys_timeout E ms hdl a)"
  using answers_orD(3) [OF assms]
proof
  assume ok: "\<forall>tr. env_call E tr ''memp_malloc(MEMP_SYS_TIMEOUT)'' \<noteq> 0"
  have n: "wp (sys_now E) (\<lambda>_ _. True) (\<lambda>why _. why \<in> H) s" for s :: "'a timers_state_scheme"
    using stops_read_msTicks unfolding sys_now_def stops_only_def by blast
  show ?thesis
    unfolding sys_timeout_def ext_ask_def stops_only_def wp_bindM wp_thenM wp_gets wp_calls Let_def by (simp add: ok n)
next
  assume "Panic ''sys_timeout: timeout != NULL, pool MEMP_SYS_TIMEOUT is empty'' \<in> H"
  then show ?thesis
    unfolding sys_timeout_def sys_now_def Let_def by (intro stops_rules stops_read_msTicks stops_panic)
qed

lemma stops_netInit:
  assumes "timer_runs E" and "answers_or H E"
  shows "stops_only H (netInit E)"
proof -
  have c: "stops_only H (status_callback E :: ('a net_state_scheme, unit) prog)"
    unfolding status_callback_def tcp_listen_def tcp_arg_def tcp_accept_def upd_pcb_def by (intro stops_rules)
  show ?thesis
    unfolding netInit_def lwip_init_def sys_timeouts_init_def sys_now_def netif_add_def netif_set_addr_def
      netif_set_ipaddr_def netif_set_netmask_def netif_set_gw_def netif_set_default_def netif_set_up_def NETIF_STATUS_CALLBACK_def
    by (intro stops_rules stops_sys_timeout stops_spi_init assms c stops_read_msTicks)
qed

lemma stops_main_boot:
  fixes irq :: "nat \<Rightarrow> ('z net_state_scheme, unit) prog"
  assumes "timer_runs E" and "i2c_responds E" and "flags_rise E" and "fpga_loads E" and "ticks_run E" and "answers_or H E"
    and "irqs_return irq"
  shows "stops_only H (main_boot E irq)"
proof -
  have w: "stops_only H (wait_init E irq)"
    by (rule stops_total) (use wait_init_ends [OF assms(5,7)] in blast)
  have i: "stops_only H (irq k)" for k
    by (rule stops_total) (use assms(7) in \<open>auto simp: irqs_return_def\<close>)
  have l: "stops_only H (setLed n :: ('z net_state_scheme, unit) prog)" "stops_only H (clearLed n :: ('z net_state_scheme, unit) prog)" for n
    by (rule stops_total, use led_run in blast)+
  have tail: "stops_only H (boot_end irq)"
    unfolding boot_end_def setMute_irq_def by (intro stops_rules i l)
  have s: "stops_only H (swoInit E)"
    unfolding swoInit_def by (intro stops_rules stops_quiet quiet_wait_flag assms)
  have c: "stops_only H (configInit E)"
    unfolding configInit_def flushConfig_def by (intro stops_rules) (simp add: split_beta stops_rules)
  show ?thesis
    unfolding main_boot_def main_init_def main_setup_def paInit_def restore_settings_def spdifInit_def adcInit_def
    by (intro stops_thenM tail) (intro stops_rules w i s c stops_sdInit stops_fpgaInit stops_dacInit stops_netInit assms)+
qed

text \<open>
  C2. Start-up ends: when the timers run, the I2C controller finishes its transfers, the oscillator starts and
  the FPGA loads, and the interrupt handlers that run once \<^verbatim>\<open>init\<close> is set return, \<^verbatim>\<open>main\<close> reaches its loop, or stops with one of six messages: wrong magic
  number of the FPGA, no DAC, an Ethernet chip that does not answer, has no clock or does not reset,
  or no memory for a timer. No wait in it is endless and nothing undefined happens, whatever the
  card, the flash page and the network chip contain or answer. When in addition the FPGA, the DAC and the
  Ethernet chip answer and there is memory for the timers, start-up does reach the loop.
\<close>

theorem boot_ends:
  assumes "timer_runs E" and "i2c_responds E" and "flags_rise E" and "fpga_loads E" and "ticks_run E" and "irqs_return irq"
  shows "case main_boot E irq s of Ret _ t \<Rightarrow> True | Halt why t \<Rightarrow> why \<in> boot_messages \<and> \<not> parts_answer E"
proof (cases "main_boot E irq s")
  case (Halt why t)
  have "why \<in> boot_messages" by (rule stops_onlyD [OF stops_main_boot [OF assms(1-5) answers_or_all assms(6)] Halt])
  moreover have "\<not> parts_answer E"
    using stops_onlyD [OF stops_main_boot [OF assms(1-5) answers_or_none [where H = "{}"] assms(6)] Halt] by blast
  ultimately show ?thesis using Halt by simp
qed simp

lemma boot_reaches_loop:
  assumes "timer_runs E" and "i2c_responds E" and "flags_rise E" and "fpga_loads E" and "ticks_run E" and "parts_answer E"
    and "irqs_return irq"
  shows "\<exists>t. main_boot E irq s = Ret () t"
proof (cases "main_boot E irq s")
  case (Halt why t)
  then show ?thesis
    using stops_onlyD [OF stops_main_boot [OF assms(1-5) answers_or_none [OF assms(6), where H = "{}"] assms(7)] Halt] by blast
qed simp

section \<open>A bench set-up\<close>

text \<open>
  The Ethernet chip of a bench set-up, by the events so far, the last one first: it remembers the
  test pattern of the frame just before, its clock runs, and every other byte reads zero.
\<close>

definition after_pattern :: "io list \<Rightarrow> bool" where
  "after_pattern es = (case es of PinSet _ _ # Spi _ v _ # _ \<Rightarrow> v = 0x12 | _ \<Rightarrow> False)"

definition bench_eth :: "io list \<Rightarrow> u8" where
  "bench_eth es =
     (case es of
        PinClear _ _ # Spi _ c _ # PinClear _ _ # before \<Rightarrow> if c = 0x16 \<and> after_pattern before then 0x34 else 0
      | Spi _ _ _ # PinClear _ _ # Spi _ c _ # PinClear _ _ # before \<Rightarrow>
          if c = 0x1a then 0x10 else if c = 0x16 \<and> after_pattern before then 0x12 else 0
      | _ \<Rightarrow> 0)"

definition bench_env :: env where
  "bench_env = ideal_env\<lparr>env_fuel := 3000, env_call := \<lambda>_ _. 1,
     env_spi := \<lambda>tr u _. (case u of USART2 \<Rightarrow> MAGIC | USART1 \<Rightarrow> bench_eth (rev tr) | _ \<Rightarrow> 0xff)\<rparr>"

lemma bench_env_eth: "eth_starts bench_env"
proof -
  have spi: "env_spi bench_env tr USART1 d = bench_eth (rev tr)" for tr d by (simp add: bench_env_def)
  have two: "replicate 2 (0 :: u8) = [0, 0]" by (simp add: numeral_2_eq_2)
  note regs = reg_answer_def transfer_calls_def spi_calls_def enc_consts spi two Let_def bench_eth_def after_pattern_def
  have "reg_answer bench_env (pattern_calls bench_env tr) (ENC424J600_EUDASTL OR ENC424J600_READCR) 2 = [0x34, 0x12]" for tr
    by (simp add: pattern_calls_def regs)
  moreover have "reg_answer bench_env tr (ENC424J600_ESTATL OR ENC424J600_READCR) 2 ! 1 AND ENC424J600_CLKRDY \<noteq> 0" for tr
    by (simp add: regs)
  moreover have "reg_answer bench_env (tr @ [e]) (ENC424J600_EUDASTL OR ENC424J600_READCR) 2 = [0, 0]" if "is_timer_call e" for tr e
    using that by (cases e) (simp_all add: regs is_timer_call_def)
  ultimately show ?thesis unfolding eth_starts_def by blast
qed

lemma bench_env_ok: "timer_runs bench_env" "i2c_responds bench_env" "flags_rise bench_env" "fpga_loads bench_env" "ticks_run bench_env"
  "parts_answer bench_env" "msc_works bench_env"
  using bench_env_eth
  by (auto simp: parts_answer_def bench_env_def ideal_env_def timer_runs_def i2c_responds_def flags_rise_def fpga_loads_def ticks_run_def
      msc_works_def dac_consts intro!: exI [of _ 0])

text \<open>Handlers that find no interrupt flag they know return at once.\<close>

definition idle_irqs :: "env \<Rightarrow> nat \<Rightarrow> (net_state, unit) prog" where
  "idle_irqs E = gpio_irqs E (\<lambda>_ _. []) (\<lambda>_. ret ()) (\<lambda>k _. if k \<le> 1 then [GPIO_EVEN, GPIO_ODD] else [])"

lemma idle_handler:
  "\<exists>tr. gpio_handler bench_env alloc inp i s = Ret () (s\<lparr>trace := tr\<rparr>) \<and> (\<exists>es. tr = trace s @ es \<and> list_all harmless es)"
  by (cases i)
    (auto simp: gpio_handler_def GPIO_EVEN_IRQHandler_def GPIO_ODD_IRQHandler_def irq_of_def bench_env_def ideal_env_def reg_get_def
      reg_set_def int_consts)

lemma idle_irqs_run: "\<exists>es. idle_irqs bench_env k s = Ret () (s\<lparr>trace := trace s @ es\<rparr>) \<and> list_all harmless es"
proof (cases "k \<le> 1")
  case True
  let ?h = "gpio_handler bench_env (\<lambda>_ _. []) (\<lambda>_. ret ())"
  obtain es where es: "?h GPIO_EVEN s = Ret () (s\<lparr>trace := trace s @ es\<rparr>)" "list_all harmless es"
    using idle_handler by blast
  obtain fs where fs: "?h GPIO_ODD (s\<lparr>trace := trace s @ es\<rparr>) = Ret () (s\<lparr>trace := trace s @ es @ fs\<rparr>)" "list_all harmless fs"
    using idle_handler [of "\<lambda>_ _. []" "\<lambda>_. ret ()" GPIO_ODD "s\<lparr>trace := trace s @ es\<rparr>"] by auto
  show ?thesis
    using True es fs by (intro exI [of _ "es @ fs"]) (simp add: idle_irqs_def gpio_irqs_def)
next
  case False
  then show ?thesis by (intro exI [of _ "[]"]) (simp add: idle_irqs_def gpio_irqs_def)
qed

lemma idle_irqs_return: "irqs_return (idle_irqs bench_env)"
  unfolding irqs_return_def
proof (intro allI)
  fix k and s :: net_state
  obtain es where "idle_irqs bench_env k s = Ret () (s\<lparr>trace := trace s @ es\<rparr>)" using idle_irqs_run by blast
  then show "\<exists>t. idle_irqs bench_env k s = Ret () t \<and> msTicks t = msTicks s" by simp
qed

theorem boot_ends_witness:
  "\<exists>t. main_boot bench_env (idle_irqs bench_env) blank_net = Ret () t"
  using boot_ends [OF bench_env_ok(1-5) idle_irqs_return, of blank_net] bench_env_ok(6)
  by (cases "main_boot bench_env (idle_irqs bench_env) blank_net") auto

section \<open>The amplifier stays muted during start-up\<close>

text \<open>
  C5. When the amplifier can first be unmuted. Until \<^verbatim>\<open>init\<close> is set nothing drives the relay high,
  and if start-up stops there (a panic of the FPGA, DAC or Ethernet driver, a failed assertion, an endless wait), it
  stays so. From then on the interrupt handlers run too: whatever encoder, button, card and network interrupts are taken, as
  long as no packet makes the command server unmute, the relay is not driven high before two seconds of ticks have passed, not even if a handler hangs;
  and if no interrupt falls into the statements after the wait, start-up then ends with the relay high and the mute flag off.
\<close>

theorem unmuted_only_after_start_up:
  "(case main_setup E (s\<lparr>trace := []\<rparr>) of
      Halt why t \<Rightarrow> main_boot E (gpio_irqs E alloc inp sched) (s\<lparr>trace := []\<rparr>) = Halt why t \<and> never_high (trace t)
    | Ret _ t \<Rightarrow> never_high (trace t)) \<and>
   ((\<forall>p. keeps relay_off (inp p)) \<longrightarrow>
     (case main_init E (gpio_irqs E alloc inp sched) (s\<lparr>trace := []\<rparr>) of
        Halt why t \<Rightarrow> main_boot E (gpio_irqs E alloc inp sched) (s\<lparr>trace := []\<rparr>) = Halt why t \<and> never_high (trace t)
      | Ret _ t \<Rightarrow> never_high (trace t) \<and> INIT_MUTE_DELAY \<le> msTicks t \<and>
          ((\<forall>k tr. 1 < k \<longrightarrow> sched k tr = []) \<longrightarrow>
            (\<exists>u. main_boot E (gpio_irqs E alloc inp sched) (s\<lparr>trace := []\<rparr>) = Ret () u \<and> msTicks u = msTicks t \<and> \<not> mute u \<and>
              pin_out MUTE_PORT MUTE_BIT (trace u) = Some True))))"
proof -
  let ?s = "s\<lparr>trace := []\<rparr>" and ?irq = "gpio_irqs E alloc inp sched"
  have low_setup: "wp (main_setup E) (\<lambda>_ t. never_high (trace t)) (\<lambda>_ t. never_high (trace t)) ?s"
    by (rule never_high_keeps [OF relay_off_main_setup])
  have "case main_setup E ?s of Halt why t \<Rightarrow> main_boot E ?irq ?s = Halt why t \<and> never_high (trace t) | Ret _ t \<Rightarrow> never_high (trace t)"
    using low_setup by (auto simp: wp_def main_boot_def main_init_def thenM_def bindM_def split: outcome.splits)
  moreover have "case main_init E ?irq ?s of
      Halt why t \<Rightarrow> main_boot E ?irq ?s = Halt why t \<and> never_high (trace t)
    | Ret _ t \<Rightarrow> never_high (trace t) \<and> INIT_MUTE_DELAY \<le> msTicks t \<and>
        ((\<forall>k tr. 1 < k \<longrightarrow> sched k tr = []) \<longrightarrow> (\<exists>u. main_boot E ?irq ?s = Ret () u \<and> msTicks u = msTicks t \<and> \<not> mute u \<and>
              pin_out MUTE_PORT MUTE_BIT (trace u) = Some True))" if inp: "\<forall>p. keeps relay_off (inp p)"
  proof -
    have low: "wp (main_init E ?irq) (\<lambda>_ t. never_high (trace t)) (\<lambda>_ t. never_high (trace t)) ?s"
      by (rule never_high_keeps [OF relay_off_main_init [OF relay_off_gpio_irqs]]) (use inp in blast)
    have quiet: "?irq k u = Ret () u" if "\<forall>k tr. 1 < k \<longrightarrow> sched k tr = []" "1 < k" for k u
      using that by (simp add: gpio_irqs_def)
    show ?thesis
    proof (cases "main_init E ?irq ?s")
      case (Ret x t)
      then show ?thesis
        using wp_RetD [OF low Ret] wp_RetD [OF wp_main_init Ret] boot_end_run [of ?irq t] quiet
        by (auto simp: main_boot_def pin_out_append mute_calls_pins led_calls_pins)
    next
      case (Halt why t)
      then show ?thesis using wp_HaltD [OF low Halt] by (simp add: main_boot_def)
    qed
  qed
  ultimately show ?thesis by blast
qed

theorem unmuted_only_after_start_up_witness:
  "\<exists>t u. main_init bench_env (idle_irqs bench_env) (blank_net\<lparr>trace := []\<rparr>) = Ret () t \<and> never_high (trace t) \<and> 2000 \<le> msTicks t \<and>
     main_boot bench_env (idle_irqs bench_env) (blank_net\<lparr>trace := []\<rparr>) = Ret () u \<and> pin_out MUTE_PORT MUTE_BIT (trace u) = Some True"
proof -
  let ?s = "blank_net\<lparr>trace := []\<rparr>" and ?irq = "idle_irqs bench_env"
  obtain v where "main_boot bench_env ?irq ?s = Ret () v"
    using boot_reaches_loop [OF bench_env_ok(1-6) idle_irqs_return] by blast
  then obtain t where t: "main_init bench_env ?irq ?s = Ret () t"
    by (cases "main_init bench_env ?irq ?s") (simp_all add: main_boot_def)
  have "\<forall>p. keeps relay_off ((\<lambda>_ :: u8 list list. ret () :: (net_state, unit) prog) p)" by (simp add: relay_off.keeps_ret)
  from unmuted_only_after_start_up [where E = bench_env and s = blank_net and alloc = "\<lambda>_ _. []" and inp = "\<lambda>_. ret ()"
      and sched = "\<lambda>k _. if k \<le> 1 then [GPIO_EVEN, GPIO_ODD] else []",
      THEN conjunct2, THEN mp, OF this] t
  show ?thesis by (auto simp: idle_irqs_def)
qed

end
