(* ===== verification/Boot.thy ===== *)
theory Boot
  imports Startup
begin

text \<open>
  What start-up restores from flash, and how settings that were saved come back after a restart.
\<close>

section \<open>What start-up restores\<close>

text \<open>The state at power-up with a page in flash that holds the table \<open>mem\<close>.\<close>

definition power_up :: "configLine list \<Rightarrow> 'z preamp_state_scheme \<Rightarrow> bool" where
  "power_up mem s \<longleftrightarrow> config_wf mem \<and> flash s = page_of mem \<and> length (configMem s) = CONFIG_LINES + 1 \<and>
     (\<forall>l \<in> set (configMem s). line_ok l) \<and> \<not> dacMuted s \<and> last_phase s = 0"

text \<open>What the first part of start-up leaves alone.\<close>

definition untouched :: "'z preamp_state_scheme \<Rightarrow> 'z preamp_state_scheme \<Rightarrow> bool" where
  "untouched s t \<longleftrightarrow> last_phase t = last_phase s \<and> dacMuted t = dacMuted s \<and> flash t = flash s \<and> configMem t = configMem s"

interpretation untouched: frame_relation untouched
  by unfold_locales (auto simp: untouched_def)

lemma calm_untouched: "keeps calm m \<Longrightarrow> keeps untouched m"
  by (erule keeps_mono) (simp add: calm_def untouched_def)

lemma untouched_calls:
  "keeps untouched (ext_call f as)" "keeps untouched (printf t)" "keeps untouched (reg_set r v)"
  "keeps untouched (GPIO_PinModeSet p b m out)"
  by (simp_all add: keeps_def untouched_def)

lemmas untouched_rules = untouched.keeps_intros untouched_calls

definition boot_pre :: "env \<Rightarrow> ('z net_state_scheme, unit) prog list" where
  "boot_pre E =
     [modify (\<lambda>s. s\<lparr>msTicks := 0\<rparr>), modify (\<lambda>s. s\<lparr>init := False\<rparr>),
      ext_call ''CHIP_Init'' [], ext_call ''CMU_OscillatorEnable(cmuOsc_HFXO)'' [1, 1],
      ext_call ''CMU_ClockSelectSet(cmuClock_HF, cmuSelect_HFXO)'' [], ext_call ''CMU_ClockEnable(cmuClock_GPIO)'' [1],
      ext_call ''CMU_ClockEnable(cmuClock_HFPER)'' [1], ext_call ''CMU_ClockEnable(cmuClock_TIMER0)'' [1],
      ext_call ''SysTick_Config(CMU_ClockFreqGet(cmuClock_CORE) / 1000)'' [], ext_call ''TIMER_Init(TIMER0, up, prescale 16)'' [],
      swoInit E, printf ''AsD Pre 1 initializing\<newline>'', paInit, sdInit E]"

definition boot_post :: "env \<Rightarrow> ('z net_state_scheme, unit) prog list" where
  "boot_post E =
     [configInit E, restore_settings,
      bindM (gets source) (\<lambda>sr. bindM (gets gain) (\<lambda>g. fpgaInit E (word_of_int sr) (word_of_int g))),
      spdifInit, bindM (gets volume) (\<lambda>v. dacInit E (word_of_int (drop_bit VOL_SHIFT v))), adcInit, thenM (netInit E) (ret ())]"

lemma main_setup_split: "main_setup E = seqM (boot_pre E @ boot_post E)"
  by (simp only: main_setup_def boot_pre_def boot_post_def append.simps)

lemma untouched_boot_pre: "keeps untouched (seqM (boot_pre E))"
  unfolding boot_pre_def swoInit_def paInit_def
  by (intro untouched_rules untouched.keeps_modify calm_untouched [OF calm_socket(2)] calm_untouched [OF calm_delays(1)]
      calm_untouched [OF calm_delays(3)]) (simp_all add: untouched_def)

lemma trace_only_frame: "frame_relation (\<lambda>s t. \<exists>tr. t = s\<lparr>trace := tr\<rparr>)"
proof
  show "\<exists>tr. s = s\<lparr>trace := tr\<rparr>" for s :: "'z hw_scheme" by (rule exI [of _ "trace s"]) simp
qed auto

lemma trace_only:
  "keeps (\<lambda>s t. \<exists>tr. t = s\<lparr>trace := tr\<rparr>) (emit e)"
  "quiet m \<Longrightarrow> keeps (\<lambda>s t. \<exists>tr. t = s\<lparr>trace := tr\<rparr>) m"
  by (auto simp: keeps_def quiet_def elim!: wp_mono)

lemma wp_dacInit:
  fixes s :: "'z hw_scheme"
  assumes "i2c_responds E"
    and post: "\<And>tr. dac_file tr REG_MUTE_CTRL = Some 0xe0 \<Longrightarrow> dac_file tr REG_VOLUME_A = Some v \<Longrightarrow> Q () (s\<lparr>trace := tr\<rparr>)"
    and H: "\<And>why t. H why t"
  shows "wp (dacInit E v) Q H s"
proof -
  note k = frame_relation.keeps_intros [OF trace_only_frame]
  have i: "quiet (i2c_transfer E fl buf :: ('z hw_scheme, unit) prog)" for fl buf
    using i2c_transfer_run [OF assms(1), of fl buf] by (fastforce simp: quiet_def wp_total_ex)
  define pre :: "('z hw_scheme, unit) prog list" where "pre =
     [ext_call ''CMU_ClockEnable(cmuClock_I2C0)'' [1],
      GPIO_PinModeSet gpioPortE 15 gpioModePushPull 1, GPIO_PinModeSet gpioPortA 1 gpioModeWiredAndPullUpFilter 1,
      GPIO_PinModeSet gpioPortA 0 gpioModeWiredAndPullUpFilter 1,
      ext_call ''I2C0->ROUTE = I2C_ROUTE_SDAPEN | I2C_ROUTE_SCLPEN'' [], ext_call ''I2C_Init'' [],
      dacWriteReg E REG_MISC_CTRL 0xc0,
      bindM (dacReadReg E (ucast REG_CHIP_ID)) (\<lambda>version.
         thenM (whenM (version AND NOT REV_MASK \<noteq> CHIP_ID) (panic ''Can't find DAC''))
           (printf (''DAC revision '' @ dec_int (uint (version AND REV_MASK)) @ ''\<newline>'')))]"
  have split: "dacInit E v = seqM (pre @ [dacWriteReg E REG_MUTE_CTRL 0xe0, dacWriteReg E REG_VOL_MIX_INV 0x89,
       printf (''Setting initial volume to '' @ dec_int (uint v) @ ''\<newline>''), dacSetVolume E v, dacWriteReg E REG_MISC_CTRL 0x40])"
    by (simp only: dacInit_def pre_def append.simps)
  have "keeps (\<lambda>s t. \<exists>tr. t = s\<lparr>trace := tr\<rparr>) (seqM pre)"
    unfolding pre_def dacWriteReg_def dacReadReg_def panic_def by (intro k trace_only(2) i quiet_calls)
  from keepsD [OF this] show ?thesis
    unfolding split wp_seqM_append
  proof (rule wp_mono)
    fix x :: unit and t assume "\<exists>tr. t = s\<lparr>trace := tr\<rparr>"
    then obtain tr where t: "t = s\<lparr>trace := tr\<rparr>" by blast
    have poll: "dac_regs m (replicate k I2cPoll) = m" for m k by (rule dac_regs_frame) (simp add: dac_write_of_def)
    define msg where "msg = ''Setting initial volume to '' @ dec_int (uint v) @ ''\<newline>''"
    show "wp (seqM [dacWriteReg E REG_MUTE_CTRL 0xe0, dacWriteReg E REG_VOL_MIX_INV 0x89,
       printf (''Setting initial volume to '' @ dec_int (uint v) @ ''\<newline>''), dacSetVolume E v, dacWriteReg E REG_MISC_CTRL 0x40]) Q H t"
      unfolding seqM.simps wp_thenM wp_calls wp_ret dacSetVolume_def t msg_def [symmetric]
      by (intro wp_dacWriteReg [OF assms(1)])
        (simp, rule post, simp_all add: dac_file_append dac_write_of_def poll dac_consts)
  qed (rule H)
qed

definition restored :: "configLine list \<Rightarrow> 'z preamp_state_scheme \<Rightarrow> bool" where
  "restored mem s \<longleftrightarrow> volume s = restored_volume (getUint32 ''volume'' mem) \<and>
     source s = uint (getUint32 ''source'' mem) mod SOURCES \<and> gain s = uint (getUint32 ''gain'' mem) mod (MAX_GAIN + 1)"

lemma restored_ranges:
  "restored mem s \<Longrightarrow> VOL_MIN \<le> volume s \<and> volume s \<le> VOL_MAX \<and> source s \<in> {0..2} \<and> gain s \<in> {0..3}"
  by (auto simp: restored_def restored_volume_def Let_def)

text \<open>The state after the settings are read, and what of it the rest of start-up keeps.\<close>

definition settled :: "configLine list \<Rightarrow> 'z preamp_state_scheme \<Rightarrow> bool" where
  "settled mem s \<longleftrightarrow> restored mem s \<and> config_wf (configMem s) \<and> (\<forall>j. same_setting j (configMem s) mem) \<and>
     \<not> dacMuted s \<and> last_phase s = 0"

lemma calm_settled: "calm s t \<Longrightarrow> settled mem s \<Longrightarrow> settled mem t"
  by (simp add: calm_def settled_def restored_def)

lemma wp_calm:
  assumes "keeps calm m" and "\<And>x t. calm s t \<Longrightarrow> Q x t" and "\<And>why t. H why t"
  shows "wp m Q H s"
  by (rule wp_mono [OF keepsD [OF assms(1)]]) (simp_all add: assms(2,3))

lemma config_wf_reload:
  assumes "config_wf mem" and "length m = CONFIG_LINES + 1" and "\<forall>l \<in> set m. line_ok l"
  shows "config_wf (take CONFIG_LINES mem @ drop CONFIG_LINES m)"
  using assms unfolding config_wf_def
  by (auto simp: nth_append dest: in_set_takeD in_set_dropD)

lemma wp_configInit:
  assumes "power_up mem s"
  shows "wp (configInit E) (\<lambda>_ t. config_wf (configMem t) \<and> (\<forall>j. same_setting j (configMem t) mem) \<and>
     \<not> dacMuted t \<and> last_phase t = 0) H s"
proof -
  have len: "CONFIG_LINES \<le> length mem" using assms by (simp add: power_up_def config_wf_def)
  have "same_setting j (take CONFIG_LINES mem @ drop CONFIG_LINES (configMem s)) mem" for j
    by (rule same_setting_take) (use len in simp)
  moreover have "config_wf (take CONFIG_LINES mem @ drop CONFIG_LINES (configMem s))"
    using assms unfolding power_up_def by (intro config_wf_reload) blast+
  ultimately show ?thesis
    using assms unfolding power_up_def by (intro wp_RetI [OF configInit_run [of mem]]) simp_all
qed

lemma wp_restore_settings:
  assumes "config_wf (configMem s)" "\<forall>j. same_setting j (configMem s) mem" "\<not> dacMuted s" "last_phase s = 0"
  shows "wp restore_settings (\<lambda>_ t. settled mem t) H s"
  using assms by (simp add: restore_settings_def settled_def restored_def same_setting_def uint_mod)

lemma adcInit_spdifInit_calm: "keeps calm adcInit" "keeps calm spdifInit"
  unfolding adcInit_def spdifInit_def by (intro calm_rules; simp)+

lemma wp_main_setup:
  assumes "i2c_responds E" and "power_up mem s"
  shows "wp (main_setup E) (\<lambda>_ t. settled mem t \<and> dac_follows t) (\<lambda>_ _. True) s"
  unfolding main_setup_split wp_seqM_append
proof (rule wp_mono [OF keepsD [OF untouched_boot_pre]])
  fix x :: unit and t assume "untouched s t"
  then have p: "power_up mem t" using assms(2) by (simp add: untouched_def power_up_def)
  have dac: "wp (dacInit E (word_of_int (drop_bit VOL_SHIFT (volume u))))
      (\<lambda>_ v. settled mem v \<and> dac_follows v) (\<lambda>_ _. True) u" if "settled mem u" for u :: "'a net_state_scheme"
  proof (rule wp_dacInit [OF assms(1)])
    fix tr assume f: "dac_file tr REG_MUTE_CTRL = Some 0xe0" "dac_file tr REG_VOLUME_A = Some (word_of_int (drop_bit VOL_SHIFT (volume u)))"
    have "vol_byte (volume u) = word_of_int (drop_bit VOL_SHIFT (volume u))"
      using restored_ranges [of mem u] that by (auto simp: settled_def vol_byte_def drop_bit_int_def)
    then show "settled mem (u\<lparr>trace := tr\<rparr>) \<and> dac_follows (u\<lparr>trace := tr\<rparr>)"
      using that f by (simp add: settled_def restored_def dac_follows_def dac_ok_def)
  qed simp
  have keep: "settled mem v \<and> dac_follows v" if "calm u v" "settled mem u \<and> dac_follows u" for u v :: "'a net_state_scheme"
    using that calm_settled [of u v mem] by (auto simp: calm_def dac_follows_def dac_ok_def harmless_frame)
  show "wp (seqM (boot_post E)) (\<lambda>_ t. settled mem t \<and> dac_follows t) (\<lambda>_ _. True) t"
    unfolding boot_post_def seqM.simps wp_thenM wp_bindM wp_gets wp_ret
  proof (rule wp_mono [OF wp_configInit [OF p]], elim conjE, rule wp_mono [OF wp_restore_settings [where mem = mem]])
    fix u :: "'a net_state_scheme" assume u: "settled mem u"
    have net: "wp (netInit E) (\<lambda>_ t. settled mem t \<and> dac_follows t) (\<lambda>_ _. True) w"
      if "settled mem w \<and> dac_follows w" for w :: "'a net_state_scheme"
      by (rule wp_calm [OF calm_netInit]) (use keep that in blast)+
    have adc: "wp adcInit (\<lambda>_. wp (netInit E) (\<lambda>_ t. settled mem t \<and> dac_follows t) (\<lambda>_ _. True)) (\<lambda>_ _. True) w"
      if "settled mem w \<and> dac_follows w" for w :: "'a net_state_scheme"
      by (rule wp_calm [OF adcInit_spdifInit_calm(1)]) (use net keep that in blast)+
    have spdif: "wp spdifInit (\<lambda>_ w. wp (dacInit E (word_of_int (drop_bit VOL_SHIFT (volume w))))
        (\<lambda>_. wp adcInit (\<lambda>_. wp (netInit E) (\<lambda>_ t. settled mem t \<and> dac_follows t) (\<lambda>_ _. True)) (\<lambda>_ _. True)) (\<lambda>_ _. True) w)
        (\<lambda>_ _. True) w" if "settled mem w" for w :: "'a net_state_scheme"
      by (rule wp_calm [OF adcInit_spdifInit_calm(2)], rule wp_mono [OF dac])
        (use calm_settled that in blast, rule adc, assumption, simp_all only:)
    show "wp (fpgaInit E (word_of_int (source u)) (word_of_int (gain u))) (\<lambda>_. wp spdifInit (\<lambda>_ w.
        wp (dacInit E (word_of_int (drop_bit VOL_SHIFT (volume w))))
        (\<lambda>_. wp adcInit (\<lambda>_. wp (netInit E) (\<lambda>_ t. settled mem t \<and> dac_follows t) (\<lambda>_ _. True)) (\<lambda>_ _. True)) (\<lambda>_ _. True) w)
        (\<lambda>_ _. True)) (\<lambda>_ _. True) u"
      by (rule wp_calm [OF calm_fpga(4)]) (use spdif calm_settled u in blast)+
  qed
qed simp

text \<open>
  Interrupts taken after \<^verbatim>\<open>init\<close> was set that return and touch neither the settings nor the relay: traffic
  without commands, a card that is inserted or removed, or none at all.
\<close>

definition irqs_calm :: "(nat \<Rightarrow> ('z preamp_state_scheme, unit) prog) \<Rightarrow> bool" where
  "irqs_calm irq \<longleftrightarrow> (\<forall>k s. \<exists>t. irq k s = Ret () t \<and> calm s t \<and> msTicks t = msTicks s)"

lemma irqs_calmD:
  assumes "irqs_calm irq"
  shows "irqs_return irq" and "keeps calm (irq k)"
proof -
  show "irqs_return irq" using assms unfolding irqs_calm_def irqs_return_def by blast
  show "keeps calm (irq k)"
    unfolding keeps_def
  proof
    fix s
    obtain t where "irq k s = Ret () t" "calm s t" using assms unfolding irqs_calm_def by blast
    then show "wp (irq k) (\<lambda>_. calm s) (\<lambda>_. calm s) s" by (simp add: wp_def)
  qed
qed

lemma irqs_calm_none: "irqs_calm (gpio_irqs E alloc inp (\<lambda>_ _. []))"
  by (simp add: irqs_calm_def gpio_irqs_def calm.R_refl)

lemma calm_wait_init:
  assumes "irqs_calm irq"
  shows "keeps calm (wait_init E irq)"
  unfolding wait_init_def by (intro calm_rules calm_ticks irqs_calmD(2) [OF assms])

text \<open>What holds after the wait and calm work keeps, and what holds from the write to the pin on.\<close>

definition ready :: "configLine list \<Rightarrow> 'z preamp_state_scheme \<Rightarrow> bool" where
  "ready mem s \<longleftrightarrow> settled mem s \<and> dac_follows s \<and> muteCounter s = 0"

lemma calm_dac_follows: "calm s t \<Longrightarrow> dac_follows s \<Longrightarrow> dac_follows t"
  by (auto simp: calm_def dac_follows_def dac_ok_def harmless_frame)

lemma calm_ready: "calm s t \<Longrightarrow> ready mem s \<and> mute s = m \<Longrightarrow> ready mem t \<and> mute t = m"
  using calm_settled [of s t mem] calm_dac_follows [of s t] by (auto simp: ready_def calm_def counted_def)

lemma calm_relay_follows: "calm s t \<Longrightarrow> relay_follows s \<Longrightarrow> relay_follows t"
  by (auto simp: calm_def relay_follows_def harmless_frame)

lemma ready_fw_inv: "ready mem s \<Longrightarrow> relay_follows s \<Longrightarrow> fw_inv s"
  using restored_ranges [of mem s]
  by (auto simp: fw_inv_def amp_inv_def ready_def settled_def in_bounds_def)

lemma wp_boot_end:
  assumes "irqs_calm irq" and "ready mem s"
  shows "wp (boot_end irq) (\<lambda>_ t. ready mem t \<and> \<not> mute t \<and> relay_follows t) (\<lambda>_ _. True) s"
proof -
  note k = irqs_calmD(2) [OF assms(1)]
  let ?before = "\<lambda>t. ready mem t \<and> \<not> mute t" and ?after = "\<lambda>t. ready mem t \<and> \<not> mute t \<and> relay_follows t"
  have b: "calm u t \<Longrightarrow> ?before u \<Longrightarrow> ?before t" for u t using calm_ready [of u t mem False] by simp
  have a: "calm u t \<Longrightarrow> ?after u \<Longrightarrow> ?after t" for u t using b calm_relay_follows by blast
  have r0: "calm u t \<Longrightarrow> ready mem u \<Longrightarrow> ready mem t" for u t using calm_ready [of u t mem "mute u"] by simp
  define leds where "leds = [irq 5, bindM (gets mute) (\<lambda>m. if m then seqM [irq 6, clearLed 0, irq 7, clearLed 1, irq 8, clearLed 2]
         else bindM (gets source) (\<lambda>sr. thenM (irq 9) (setLed sr)))]"
  define rest where "rest = [irq 10, clearLed 0, irq 11, clearLed 1, irq 12, clearLed 2, irq 13,
       bindM (gets source) (\<lambda>sr. thenM (irq 14) (setLed sr)), irq 15, printf ''Ready\<newline>'']"
  have tails: "keeps calm (seqM leds)" "keeps calm (seqM rest)"
    unfolding leds_def rest_def by (intro calm_rules k calm_led)+
  have pin: "?after (t\<lparr>trace := trace t @ [PinMode MUTE_PORT MUTE_BIT gpioModePushPull 1]\<rparr>)" if "?before t" for t :: "'z preamp_state_scheme"
    using that by (simp add: ready_def settled_def restored_def dac_follows_def dac_ok_def dac_file_append dac_write_of_def
        relay_follows_def pin_out_append)
  have clear: "?before (t\<lparr>mute := False\<rparr>)" if "ready mem t" for t :: "'z preamp_state_scheme"
    using that by (simp add: ready_def settled_def restored_def dac_follows_def dac_ok_def)
  have set: "setMute_irq irq False = seqM ([irq 2, modify (\<lambda>s. s\<lparr>mute := False\<rparr>), irq 3,
       bindM (gets mute) (\<lambda>m. thenM (irq 4) (GPIO_PinModeSet MUTE_PORT MUTE_BIT gpioModePushPull (if m then 0 else 1)))] @ leds)"
    by (simp only: setMute_irq_def leds_def append.simps)
  have level: "wp (bindM (gets mute) (\<lambda>m. thenM (irq 4) (GPIO_PinModeSet MUTE_PORT MUTE_BIT gpioModePushPull (if m then 0 else 1))))
      (\<lambda>_. ?after) (\<lambda>_ _. True) t" if "?before t" for t
    unfolding wp_bindM wp_gets wp_thenM using that
    by (intro wp_calm [OF k]) (simp_all only: wp_calls if_False simp_thms b pin)
  have m: "wp (setMute_irq irq False) (\<lambda>_. ?after) (\<lambda>_ _. True) s"
    unfolding set wp_seqM_append
    unfolding seqM.simps wp_thenM wp_modify wp_ret
    by (intro wp_calm [OF k] wp_mono [OF level] wp_calm [OF tails(1)] TrueI)
      (rule b [OF _ clear [OF r0 [OF _ assms(2)]]], assumption, assumption, rule a, assumption+)
  have e: "boot_end irq = thenM (setMute_irq irq False) (seqM rest)" by (simp only: boot_end_def rest_def seqM.simps)
  show ?thesis
    unfolding e wp_thenM by (rule wp_mono [OF m], rule wp_calm [OF tails(2)], rule a, assumption+) (rule TrueI)+
qed

lemma wp_main_boot:
  fixes s :: "'z net_state_scheme"
  assumes "i2c_responds E" and "power_up mem s" and "irqs_calm irq"
  shows "wp (main_boot E irq) (\<lambda>_ t. settled mem t \<and> fw_inv t \<and> \<not> mute t) (\<lambda>_ _. True) s"
proof -
  have "wp (main_init E irq) (\<lambda>_ t. ready mem t) (\<lambda>_ _. True) s"
    unfolding main_init_def seqM.simps wp_thenM wp_modify wp_ret
  proof (rule wp_mono [OF wp_main_setup [OF assms(1,2)]], rule wp_calm [OF irqs_calmD(2) [OF assms(3)]],
      rule wp_calm [OF calm_wait_init [OF assms(3)]])
    fix t u v :: "'z net_state_scheme"
    assume t: "settled mem t \<and> dac_follows t" and c: "calm (t\<lparr>init := True\<rparr>) u" and d: "calm (u\<lparr>muteCounter := 0\<rparr>) v"
    have "settled mem (t\<lparr>init := True\<rparr>)" "dac_follows (t\<lparr>init := True\<rparr>)"
      using t by (simp_all add: settled_def restored_def dac_follows_def dac_ok_def)
    then have "settled mem u" "dac_follows u" using calm_settled [OF c] calm_dac_follows [OF c] by blast+
    then have "ready mem (u\<lparr>muteCounter := 0\<rparr>)"
      by (simp add: ready_def settled_def restored_def dac_follows_def dac_ok_def)
    then show "ready mem v" using calm_ready [OF d] by blast
  qed simp_all
  then show ?thesis
    unfolding main_boot_def wp_thenM
    by (rule wp_mono) (rule wp_mono [OF wp_boot_end [OF assms(3)]], auto simp: ready_fw_inv ready_def)
qed

text \<open>The restored volume written out.\<close>

lemma restored_volume_low16:
  "restored_volume w = (let v = sint (ucast w :: 16 word) in if v = 0 then 1600 else max 0 (min 1600 v))"
proof -
  have "to_int16 (uint w) = sint (ucast w :: 16 word)"
    by (simp add: to_int16_def sint_uint unsigned_ucast_eq signed_take_bit_take_bit)
  then show ?thesis by (auto simp: restored_volume_def Let_def)
qed

text \<open>
  C12. Start-up restores the settings: with a settings table in flash, parts that answer and no interrupt that changes a setting, start-up
  reaches the main loop. The volume is the stored one, the low 16 bits of the stored word read as a signed number, cut to the range of the
  encoder, from \<^verbatim>\<open>VOL_MIN\<close>, the loudest, to \<^verbatim>\<open>VOL_MAX\<close>, the quietest; a stored 0, and no stored volume, give
  \<^verbatim>\<open>VOL_MAX\<close>. The source and gain are the stored ones reduced to their ranges, every reader of the table gives the stored
  answers, and the invariant of the running firmware holds, with the amplifier not muted.
\<close>

theorem boot_restores_settings:
  assumes "timer_runs E" and "i2c_responds E" and "flags_rise E" and "fpga_loads E" and "ticks_run E" and "parts_answer E"
    and "power_up mem s" and "irqs_calm irq"
  shows "\<exists>t. main_boot E irq s = Ret () t \<and>
    volume t = (let v = sint (ucast (getUint32 ''volume'' mem) :: 16 word) in if v = 0 then 1600 else max 0 (min 1600 v)) \<and>
    source t = uint (getUint32 ''source'' mem) mod 3 \<and> gain t = uint (getUint32 ''gain'' mem) mod 4 \<and>
    (\<forall>j. same_setting j (configMem t) mem) \<and> \<not> mute t \<and> fw_inv t"
proof -
  obtain t where t: "main_boot E irq s = Ret () t" using boot_reaches_loop [OF assms(1-6) irqs_calmD(1) [OF assms(8)]] by blast
  then have "settled mem t" "fw_inv t" "\<not> mute t" using wp_RetD [OF wp_main_boot [OF assms(2,7,8)]] by blast+
  then show ?thesis
    using t by (simp add: settled_def restored_def restored_volume_low16)
qed

lemma idle_irqs_calm: "irqs_calm (idle_irqs bench_env)"
  unfolding irqs_calm_def
proof (intro allI)
  fix k and s :: net_state
  obtain es where "idle_irqs bench_env k s = Ret () (s\<lparr>trace := trace s @ es\<rparr>)" "list_all harmless es"
    using idle_irqs_run by blast
  then show "\<exists>t. idle_irqs bench_env k s = Ret () t \<and> calm s t \<and> msTicks t = msTicks s"
    by (simp add: calm_def counted_def)
qed

definition off_net :: "configLine list \<Rightarrow> net_state" where
  "off_net mem = blank_net\<lparr>trace := [], configMem := replicate 33 blank_line, flash := page_of mem\<rparr>"

lemma power_up_off_net: "config_wf mem \<Longrightarrow> power_up mem (off_net mem)"
  by (auto simp: power_up_def off_net_def blank_line_def line_ok_def blank_net_def blank_timers_def timers_state.extend_def
      preamp_state.extend_def blank_preamp_def)

section \<open>Saving and restarting\<close>

definition has_room :: "configLine list \<Rightarrow> bool" where
  "has_room mem \<longleftrightarrow> 3 \<le> free_lines mem \<or> (configExists ''volume'' mem \<and> configExists ''source'' mem \<and> configExists ''gain'' mem)"

definition stored :: "u32 \<Rightarrow> u32 \<Rightarrow> u32 \<Rightarrow> configLine list \<Rightarrow> configLine list" where
  "stored v sr g mem = put_value ''gain'' (le_bytes 4 g) (put_value ''source'' (le_bytes 4 sr) (put_value ''volume'' (le_bytes 4 v) mem))"

lemma stored_view:
  assumes "config_wf mem" and "has_room mem"
  shows "config_wf (stored v sr g mem)" and "view uint32Value (stored v sr g mem) ''volume'' = Some v"
    and "view uint32Value (stored v sr g mem) ''source'' = Some sr" and "view uint32Value (stored v sr g mem) ''gain'' = Some g"
proof -
  let ?m1 = "put_value ''volume'' (le_bytes 4 v) mem" and ?m2 = "put_value ''source'' (le_bytes 4 sr) (put_value ''volume'' (le_bytes 4 v) mem)"
  have wf1: "config_wf ?m1" by (rule u32_store.invar_store [OF assms(1) ok_ids(1) TrueI])
  have wf2: "config_wf ?m2" by (rule u32_store.invar_store [OF wf1 ok_ids(2) TrueI])
  show "config_wf (stored v sr g mem)"
    unfolding stored_def by (rule u32_store.invar_store [OF wf2 ok_ids(3) TrueI])
  have room: "view uint32Value mem ''volume'' \<noteq> None \<or> 0 < free_lines mem"
    "view uint32Value ?m1 ''source'' \<noteq> None \<or> 0 < free_lines ?m1"
    "view uint32Value ?m2 ''gain'' \<noteq> None \<or> 0 < free_lines ?m2"
    using assms(2) u32_store.places_store [OF assms(1) ok_ids(1) TrueI, of v] u32_store.places_store [OF wf1 ok_ids(2) TrueI, of sr]
      u32_store.lookup_stays [OF assms(1) ok_ids(1) TrueI ok_ids(2), of v] u32_store.lookup_stays [OF assms(1) ok_ids(1) TrueI ok_ids(3), of v]
      u32_store.lookup_stays [OF wf1 ok_ids(2) TrueI ok_ids(3), of sr]
    by (auto simp: has_room_def configExists_view [where f = uint32Value])
  note upd = u32_store.store_is_update [OF assms(1) ok_ids(1) TrueI room(1)]
    u32_store.store_is_update [OF wf1 ok_ids(2) TrueI room(2)] u32_store.store_is_update [OF wf2 ok_ids(3) TrueI room(3)]
  show "view uint32Value (stored v sr g mem) ''volume'' = Some v" "view uint32Value (stored v sr g mem) ''source'' = Some sr"
    "view uint32Value (stored v sr g mem) ''gain'' = Some g"
    by (simp_all add: stored_def upd ok_ids)
qed

text \<open>A table that holds a volume, a source and a gain.\<close>

lemma blank_has_room: "has_room blank_table"
  using blank_table_empty by (simp add: has_room_def config_empty_def)

theorem boot_restores_settings_witness:
  "\<exists>t. main_boot bench_env (idle_irqs bench_env) (off_net (stored 800 1 6 blank_table)) = Ret () t \<and>
     volume t = 800 \<and> source t = 1 \<and> gain t = 2 \<and> \<not> mute t"
proof -
  let ?m = "stored 800 1 6 blank_table"
  note st = stored_view [OF blank_table_free(1) blank_has_room, of 800 1 6]
  have get: "getUint32 ''volume'' ?m = 800" "getUint32 ''source'' ?m = 1" "getUint32 ''gain'' ?m = 6"
    using st(2-4) by (simp_all add: getUint32_view)
  have v: "sint (ucast (800 :: u32) :: 16 word) = 800" "uint (1 :: u32) mod 3 = 1" "uint (6 :: u32) mod 4 = 2"
    by (simp_all add: ucast_eq sint_uint signed_take_bit_def)
  show ?thesis
    using boot_restores_settings [OF bench_env_ok(1-6) power_up_off_net [OF st(1)] idle_irqs_calm] unfolding get v by auto
qed

text \<open>The five statements of the loop that save the settings, without an interrupt between them.\<close>

lemma save_steps:
  assumes "msc_works E" and "config_wf (configMem s)" and "has_room (configMem s)" and "saveSettings s"
  defines "m \<equiv> stored (word_of_int (volume s)) (word_of_int (source s)) (word_of_int (gain s)) (configMem s)"
  shows "fw_reach E alloc inp tmr (At_test_save, s)
    (At_test_mute, s\<lparr>saveSettings := False, configMem := m, flash := page_of m, trace := trace s @ msc_calls\<rparr>)"
proof -
  let ?m1 = "put_value ''volume'' (le_bytes 4 (word_of_int (volume s) :: u32)) (configMem s)"
  let ?m2 = "put_value ''source'' (le_bytes 4 (word_of_int (source s) :: u32)) ?m1"
  let ?r = "fw_reach E alloc inp tmr (At_test_save, s)"
  have main: "?r (pc, u) \<Longrightarrow> main_stmt E tmr pc u = Ret pc' v \<Longrightarrow> ?r (pc', v)" for pc u pc' v
    by (blast intro: fw_reach.Step fw_step.Main)
  have flush: "flushConfig E (s\<lparr>saveSettings := False, configMem := m\<rparr>) =
      Ret () (s\<lparr>saveSettings := False, configMem := m, flash := page_of m, trace := trace s @ msc_calls\<rparr>)"
    using flushConfig_run [OF assms(1), of "s\<lparr>saveSettings := False, configMem := m\<rparr>"]
      page_of_facts(1) [OF stored_view(1) [OF assms(2,3)]] by (simp add: m_def)
  have "?r (At_clear_save, s)" by (rule main [OF fw_reach.Start]) (simp add: main_stmt_def assms(4))
  then have "?r (At_volume, s\<lparr>saveSettings := False\<rparr>)" by (rule main) (simp add: main_stmt_def)
  then have "?r (At_source, s\<lparr>saveSettings := False, configMem := ?m1\<rparr>)" by (rule main) (simp add: main_stmt_def setUint32_def)
  then have "?r (At_gain, s\<lparr>saveSettings := False, configMem := ?m2\<rparr>)" by (rule main) (simp add: main_stmt_def setUint32_def)
  then have "?r (At_flush, s\<lparr>saveSettings := False, configMem := m\<rparr>)"
    by (rule main) (simp add: main_stmt_def setUint32_def m_def stored_def)
  then show ?thesis by (rule main) (simp add: main_stmt_def flush)
qed

lemma restored_volume_of:
  assumes "- 32768 \<le> v" and "v < 32768"
  shows "restored_volume (word_of_int v) = (if v = 0 then VOL_MAX else max VOL_MIN (min VOL_MAX v))"
proof -
  have "to_int16 (uint (word_of_int v :: u32)) = v"
    using assms to_int16_id [of v]
    by (simp add: to_int16_def uint_word_of_int_eq signed_take_bit_take_bit)
  then show ?thesis by (auto simp: restored_volume_def Let_def)
qed

text \<open>
  C4. Saved settings come back: when settings are to be saved and the table has room, the next pass of the main loop writes them to
  flash and clears the request; if the amplifier is then switched off and on again, its parts answer and no interrupt during start-up changes a setting, start-up
  reaches the main loop with the volume that was saved, brought into the range from \<^verbatim>\<open>VOL_MIN\<close> to \<^verbatim>\<open>VOL_MAX\<close>
  (a saved volume of 0, the loudest, comes back as \<^verbatim>\<open>VOL_MAX\<close>, the quietest), and the saved source and gain unless they were negative.
\<close>

theorem saved_settings_come_back:
  fixes r :: "'y net_state_scheme" and s :: "'z net_state_scheme"
  assumes "msc_works E" and "fw_inv s" and "saveSettings s" and "has_room (configMem s)" and "0 \<le> source s" and "0 \<le> gain s"
    and "timer_runs E'" and "i2c_responds E'" and "flags_rise E'" and "fpga_loads E'" and "ticks_run E'" and "parts_answer E'"
    and "length (configMem r) = CONFIG_LINES + 1" and "\<forall>l \<in> set (configMem r). line_ok l" and "\<not> dacMuted r" and "last_phase r = 0"
    and "irqs_calm irq"
  shows "\<exists>t u. fw_reach E alloc inp tmr (At_test_save, s) (At_test_mute, t) \<and> \<not> saveSettings t \<and>
    main_boot E' irq (r\<lparr>flash := flash t\<rparr>) = Ret () u \<and>
    volume u = (if volume s = 0 then VOL_MAX else max VOL_MIN (min VOL_MAX (volume s))) \<and>
    source u = source s \<and> gain u = gain s \<and> \<not> mute u"
proof -
  define m where "m = stored (word_of_int (volume s)) (word_of_int (source s)) (word_of_int (gain s)) (configMem s)"
  have wf: "config_wf (configMem s)" and v: "- 32768 \<le> volume s" "volume s < 32768"
    and sr: "source s \<le> 2" and g: "gain s \<le> 3" using assms(2) by (simp_all add: fw_inv_def amp_inv_def in_bounds_def)
  note st = stored_view [OF wf assms(4)]
  have get: "restored_volume (getUint32 ''volume'' m) = (if volume s = 0 then VOL_MAX else max VOL_MIN (min VOL_MAX (volume s)))"
    "uint (getUint32 ''source'' m) mod SOURCES = source s" "uint (getUint32 ''gain'' m) mod (MAX_GAIN + 1) = gain s"
    using st(2-4) sr g assms(5,6) restored_volume_of [OF v] by (simp_all add: m_def getUint32_view uint_word_of_int)
  have "power_up m (r\<lparr>flash := page_of m\<rparr>)"
    using assms(13-16) st(1) by (simp add: power_up_def m_def)
  then have w: "wp (main_boot E' irq) (\<lambda>_ u. settled m u \<and> fw_inv u \<and> \<not> mute u) (\<lambda>_ _. True) (r\<lparr>flash := page_of m\<rparr>)"
    by (rule wp_main_boot [OF assms(8) _ assms(17)])
  obtain u where u: "main_boot E' irq (r\<lparr>flash := page_of m\<rparr>) = Ret () u"
    using boot_reaches_loop [OF assms(7-12) irqs_calmD(1) [OF assms(17)]] by blast
  have "settled m u" "\<not> mute u" using wp_RetD [OF w u] by blast+
  then show ?thesis
    using save_steps [OF assms(1) wf assms(4,3)] u
    by (intro exI [of _ "s\<lparr>saveSettings := False, configMem := m, flash := page_of m, trace := trace s @ msc_calls\<rparr>"] exI [of _ u])
      (simp add: m_def [symmetric] settled_def restored_def get del: preamp_consts)
qed

theorem saved_settings_come_back_witness:
  "\<exists>t u. fw_reach bench_env (\<lambda>_ _. []) (\<lambda>_. ret ()) (\<lambda>_. ret ()) (At_test_save, live_net\<lparr>saveSettings := True\<rparr>) (At_test_mute, t) \<and>
    \<not> saveSettings t \<and> main_boot bench_env (idle_irqs bench_env) (off_net blank_table\<lparr>flash := flash t\<rparr>) = Ret () u \<and> volume u = 1600 \<and> source u = 0"
proof -
  let ?s = "live_net\<lparr>saveSettings := True\<rparr>" and ?r = "off_net blank_table"
  have r: "length (configMem ?r) = CONFIG_LINES + 1" "\<forall>l \<in> set (configMem ?r). line_ok l" "\<not> dacMuted ?r" "last_phase ?r = 0"
    using power_up_off_net [OF blank_table_free(1)] unfolding power_up_def by blast+
  have s: "configMem ?s = blank_table" "volume ?s = 1600" "source ?s = 0" "gain ?s = 0" "saveSettings ?s"
    by (simp_all add: live_net_def blank_net_def blank_timers_def timers_state.extend_def preamp_state.extend_def blank_preamp_def)
  have "has_room (configMem ?s)" using blank_has_room unfolding s .
  moreover have "fw_inv ?s" using live_net_inv by (simp add: fw_inv_defs)
  ultimately have "\<exists>t u. fw_reach bench_env (\<lambda>_ _. []) (\<lambda>_. ret ()) (\<lambda>_. ret ()) (At_test_save, ?s) (At_test_mute, t) \<and>
      \<not> saveSettings t \<and> main_boot bench_env (idle_irqs bench_env) (?r\<lparr>flash := flash t\<rparr>) = Ret () u \<and>
      volume u = (if volume ?s = 0 then VOL_MAX else max VOL_MIN (min VOL_MAX (volume ?s))) \<and> source u = source ?s \<and> gain u = gain ?s \<and> \<not> mute u"
    using r s(3-5) by (intro saved_settings_come_back bench_env_ok idle_irqs_calm) simp_all
  then show ?thesis unfolding s by auto
qed

end
