(* ===== verification/Races.thy ===== *)
theory Races
  imports Running
begin

text \<open>
  Interleavings of the main loop with the interrupt handlers in which the two do not agree.
\<close>

section \<open>The button between test and unmute\<close>

text \<open>The source button is held down and is the only interrupt source that is pending.\<close>

definition button_held :: "env \<Rightarrow> bool" where
  "button_held E \<longleftrightarrow> (\<forall>tr. env_reg E tr ''GPIO_IntGet'' = INT_SOURCE \<and> \<not> env_pin E tr SOURCE_PORT SOURCE_BIT)"

lemma cycleSource_held:
  assumes "timer_runs E" and "button_held E"
  shows "\<exists>tr. cycleSource E s = Ret () (s\<lparr>mute := True, muteCounter := MUTE_DELAY, source := (source s + 1) smod SOURCES,
    saveSettings := True, trace := tr\<rparr>)"
proof -
  obtain es where es: "usleep E 1000 s = Ret () (s\<lparr>trace := trace s @ es\<rparr>)"
    using usleep_run [OF assms(1), of 1000 s] by (auto simp: word_le_nat_alt)
  let ?s = "s\<lparr>trace := trace s @ es @ [RegSet ''GPIO_IntClear'' INT_SOURCE, PinGet SOURCE_PORT SOURCE_BIT False]\<rparr>"
  obtain fs r1 r2 where "setSource E (source s + 1) ?s = Ret () (?s\<lparr>mute := True, muteCounter := MUTE_DELAY, source := (source s + 1) smod SOURCES,
      saveSettings := True,
      trace := trace ?s @ mute_calls True (source ?s) @ fs @ led_calls False (source ?s) @ source_calls ((source s + 1) smod SOURCES) r1 r2\<rparr>)"
    using setSource_run [OF assms(1), of "source s + 1" ?s] by blast
  moreover have "cycleSource E s = setSource E (source s + 1) ?s"
    using es assms(2) by (simp add: cycleSource_def button_held_def GPIO_PinInGet_def bindM_run thenM_def del: preamp_consts)
  ultimately show ?thesis
    by (intro exI [of _ "trace ?s @ mute_calls True (source ?s) @ fs @ led_calls False (source ?s) @ source_calls ((source s + 1) smod SOURCES) r1 r2"]) simp
qed

lemma even_held:
  assumes "timer_runs E" and "button_held E" and "init s"
  shows "\<exists>tr. GPIO_EVEN_IRQHandler E alloc inp s = Ret () (s\<lparr>mute := True, muteCounter := MUTE_DELAY,
    source := (source s + 1) smod SOURCES, saveSettings := True, trace := tr\<rparr>)"
proof -
  let ?s = "s\<lparr>trace := trace s @ [RegGet ''GPIO_IntGet'' INT_SOURCE, RegSet ''GPIO_IntClear'' INT_SOURCE]\<rparr>"
  obtain tr where tr: "cycleSource E ?s = Ret () (?s\<lparr>mute := True, muteCounter := MUTE_DELAY, source := (source ?s + 1) smod SOURCES,
    saveSettings := True, trace := tr\<rparr>)" using cycleSource_held [OF assms(1,2), of ?s] by blast
  have bits: "INT_SOURCE AND INT_VOL_EVEN = 0" "INT_SOURCE AND INT_SOURCE \<noteq> 0" "INT_SOURCE AND INT_ETH = 0"
    by (simp_all add: int_consts)
  have "GPIO_EVEN_IRQHandler E alloc inp s = cycleSource E ?s"
    using assms(2,3) tr bits by (simp add: GPIO_EVEN_IRQHandler_def reg_get_def reg_set_def button_held_def)
  then show ?thesis using tr by (intro exI [of _ tr]) simp
qed

lemma irq_of_held [simp]: "button_held (irq_of E) = button_held E"
  by (simp add: button_held_def irq_of_def)

text \<open>Statements of the loop one after the other, and the call of \<^verbatim>\<open>setMute\<close> without an interrupt in it.\<close>

lemma reach_main: "fw_reach E alloc inp tmr c (pc, u) \<Longrightarrow> main_stmt E tmr pc u = Ret pc' v \<Longrightarrow> fw_reach E alloc inp tmr c (pc', v)"
  by (blast intro: fw_reach.Step fw_step.Main)

lemma reach_unmute:
  assumes "fw_reach E alloc inp tmr c (At_unmute, u)"
  shows "fw_reach E alloc inp tmr c (At_mark, u\<lparr>mute := False, trace := trace u @ mute_calls False (source u)\<rparr>)"
proof -
  let ?r = "fw_reach E alloc inp tmr c" and ?v = "u\<lparr>mute := False\<rparr>"
  let ?w = "?v\<lparr>trace := trace u @ [PinMode MUTE_PORT MUTE_BIT gpioModePushPull 1]\<rparr>"
  have "?r (At_level, ?v)" by (rule reach_main [OF assms]) (simp add: main_stmt_def)
  then have "?r (At_pin 1, ?v)" by (rule reach_main) (simp add: main_stmt_def bindM_def gets_def)
  then have "?r (At_leds, ?w)" by (rule reach_main) (simp add: main_stmt_def)
  then have "?r (At_led_source, ?w)" by (rule reach_main) (simp add: main_stmt_def bindM_def gets_def)
  then have "?r (At_set_led (source u), ?w)" by (rule reach_main) (simp add: main_stmt_def)
  then have "?r (At_mark, ?w\<lparr>trace := trace ?w @ led_calls True (source u)\<rparr>)"
    by (rule reach_main) (simp add: main_stmt_def thenM_def bindM_def led_run)
  then show ?thesis by (simp add: mute_calls_def)
qed

lemma reach_button:
  assumes "timer_runs E" and "button_held E" and "init u" and "fw_reach E alloc inp tmr c (pc, u)"
  shows "\<exists>tr. fw_reach E alloc inp tmr c (pc, u\<lparr>mute := True, muteCounter := MUTE_DELAY, source := (source u + 1) smod SOURCES,
    saveSettings := True, trace := tr\<rparr>)"
proof -
  have E: "timer_runs (irq_of E)" "button_held (irq_of E)" using assms(1,2) by simp_all
  obtain tr where "gpio_handler E alloc inp GPIO_EVEN u = Ret () (u\<lparr>mute := True, muteCounter := MUTE_DELAY,
      source := (source u + 1) smod SOURCES, saveSettings := True, trace := tr\<rparr>)"
    using even_held [OF E assms(3), of alloc inp] by (auto simp: gpio_handler_def)
  then show ?thesis using fw_reach.Step [OF assms(4) fw_step.Irq] by blast
qed

text \<open>
  C23. The mute after a change of source can be lost: when the countdown of an earlier mute has just reached
  0 and the button is pressed after the main loop has tested it and before it unmutes, the loop ends the
  new mute at once: the source has changed, the amplifier is not muted, the countdown is off, and
  no time has passed.
\<close>

theorem button_race_loses_mute:
  assumes "timer_runs E" and "button_held E" and "init s" and "muteCounter s = 0"
  shows "\<exists>t. fw_reach E alloc inp tmr (At_test_mute, s) (At_net, t) \<and> source t = (source s + 1) smod SOURCES \<and>
    \<not> mute t \<and> pin_out MUTE_PORT MUTE_BIT (trace t) = Some True \<and> muteCounter t = - 1 \<and> msTicks t = msTicks s"
proof -
  let ?r = "fw_reach E alloc inp tmr (At_test_mute, s)"
  have "?r (At_unmute, s)" by (rule reach_main [OF fw_reach.Start]) (simp add: main_stmt_def assms(4))
  then obtain tr where u: "?r (At_unmute, s\<lparr>mute := True, muteCounter := MUTE_DELAY, source := (source s + 1) smod SOURCES,
      saveSettings := True, trace := tr\<rparr>)" (is "?r (_, ?u)")
    using reach_button [OF assms(1-3)] by blast
  let ?v = "?u\<lparr>mute := False, trace := trace ?u @ mute_calls False (source ?u)\<rparr>"
  have "?r (At_mark, ?v)" by (rule reach_unmute [OF u])
  then have "?r (At_net, ?v\<lparr>muteCounter := - 1\<rparr>)" by (rule reach_main) (simp add: main_stmt_def)
  then show ?thesis
    by (intro exI [of _ "?v\<lparr>muteCounter := - 1\<rparr>"]) (simp add: pin_out_append mute_calls_pins)
qed

text \<open>
  The relay can stay on while the amplifier counts as muted: when the button is pressed while the loop is between the
  evaluation of \<^verbatim>\<open>mute ? 0 : 1\<close> and the write to the pin, the handler mutes, the loop then writes the value evaluated before, and
  the countdown that would end the mute is switched off. The flag and the relay disagree until the
  next command.
\<close>

theorem unmute_race_leaves_relay_on:
  assumes "timer_runs E" and "button_held E" and "init s" and "muteCounter s = 0"
  shows "\<exists>t. fw_reach E alloc inp tmr (At_test_mute, s) (At_net, t) \<and> source t = (source s + 1) smod SOURCES \<and>
    mute t \<and> pin_out MUTE_PORT MUTE_BIT (trace t) = Some True \<and> muteCounter t = - 1"
proof -
  let ?r = "fw_reach E alloc inp tmr (At_test_mute, s)"
  have "?r (At_unmute, s)" by (rule reach_main [OF fw_reach.Start]) (simp add: main_stmt_def assms(4))
  then have "?r (At_level, s\<lparr>mute := False\<rparr>)" by (rule reach_main) (simp add: main_stmt_def)
  then have "?r (At_pin 1, s\<lparr>mute := False\<rparr>)" by (rule reach_main) (simp add: main_stmt_def bindM_def gets_def)
  then obtain tr where "?r (At_pin 1, s\<lparr>mute := True, muteCounter := MUTE_DELAY, source := (source s + 1) smod SOURCES,
      saveSettings := True, trace := tr\<rparr>)" (is "?r (_, ?u)")
    using reach_button [OF assms(1,2), of "s\<lparr>mute := False\<rparr>" alloc inp tmr "(At_test_mute, s)" "At_pin 1"] assms(3) by auto
  then have "?r (At_leds, ?u\<lparr>trace := tr @ [PinMode MUTE_PORT MUTE_BIT gpioModePushPull 1]\<rparr>)" (is "?r (_, ?v)")
    by (rule reach_main) (simp add: main_stmt_def)
  then have l: "?r (At_clear_led 0, ?v)" by (rule reach_main) (simp add: main_stmt_def bindM_def gets_def)
  have led: "?r (At_clear_led k, w) \<Longrightarrow> ?r (if k < 2 then At_clear_led (k + 1) else At_mark, w\<lparr>trace := trace w @ led_calls False k\<rparr>)" for k w
    by (erule reach_main) (simp add: main_stmt_def thenM_def bindM_def led_run)
  have "?r (At_mark, ?v\<lparr>trace := trace ?v @ led_calls False 0 @ led_calls False 1 @ led_calls False 2\<rparr>)" (is "?r (_, ?w)")
    using led [OF led [OF led [OF l, simplified], simplified], simplified] by simp
  then have "?r (At_net, ?w\<lparr>muteCounter := - 1\<rparr>)" by (rule reach_main) (simp add: main_stmt_def)
  then show ?thesis
    by (intro exI [of _ "?w\<lparr>muteCounter := - 1\<rparr>"]) (simp add: pin_out_append led_calls_pins)
qed

definition button_env :: env where
  "button_env = ideal_env\<lparr>env_reg := \<lambda>_ _. INT_SOURCE, env_pin := \<lambda>_ _ _. False\<rparr>"

theorem button_race_loses_mute_witness:
  "\<exists>t. fw_reach button_env (\<lambda>_ _. []) (\<lambda>_. ret ()) (\<lambda>_. ret ()) (At_test_mute, live_net) (At_net, t) \<and> source t = 1 \<and> \<not> mute t \<and> muteCounter t = - 1"
proof -
  have E: "timer_runs button_env" "button_held button_env"
    by (auto simp: button_env_def ideal_env_def timer_runs_def button_held_def intro!: exI [of _ 0])
  have s: "init live_net" "muteCounter live_net = 0" "source live_net = 0"
    by (simp_all add: live_net_def blank_net_def blank_timers_def timers_state.extend_def preamp_state.extend_def blank_preamp_def)
  show ?thesis
    using button_race_loses_mute [OF E s(1,2), of "\<lambda>_ _. []" "\<lambda>_. ret ()" "\<lambda>_. ret ()"] unfolding s(3)
    by (auto simp: signed_modulo_int_def)
qed

end
