(* ===== verification/Chksum.thy ===== *)
theory Chksum
  imports Prelude
begin

text \<open>
  The Internet checksum of lwIP (core/inet\_chksum.c, byte order functions of core/def.c), as
  built for this little-endian target: algorithm 2 for a block of memory at any address, and the
  functions over chains of buffers with and without the TCP pseudo header. The reference is the sum
  of 16-bit words modulo 65535; the lemmas show that neither the alignment of a block nor the
  way a packet is cut into buffers changes the result.
\<close>

section \<open>Byte order\<close>

definition lwip_htons :: "u16 \<Rightarrow> u16" where
  "lwip_htons n = push_bit 8 (n AND 0xff) OR drop_bit 8 (n AND 0xff00)"

definition lwip_ntohs :: "u16 \<Rightarrow> u16" where
  "lwip_ntohs n = lwip_htons n"

definition lwip_htonl :: "u32 \<Rightarrow> u32" where
  "lwip_htonl n = push_bit 24 (n AND 0xff) OR push_bit 8 (n AND 0xff00) OR drop_bit 8 (n AND 0xff0000) OR
     drop_bit 24 (n AND 0xff000000)"

definition lwip_ntohl :: "u32 \<Rightarrow> u32" where
  "lwip_ntohl n = lwip_htonl n"

text \<open>Converting back gives the number one started from.\<close>

lemma htons_ntohs: "lwip_ntohs (lwip_htons n) = n"
proof -
  have m: "(0xff :: u16) = mask 8" "(0xff00 :: u16) = push_bit 8 (mask 8)" by (simp_all add: mask_eq_exp_minus_1)
  show ?thesis
    unfolding lwip_ntohs_def lwip_htons_def m
    by (rule bit_word_eqI) (auto simp: bit_simps)
qed

lemma bit_htonl:
  "k < 32 \<Longrightarrow> bit (lwip_htonl n) k = bit n (if k < 8 then k + 24 else if k < 16 then k + 8 else if k < 24 then k - 8 else k - 24)"
proof -
  have m: "(0xff :: u32) = mask 8" "(0xff00 :: u32) = push_bit 8 (mask 8)" "(0xff0000 :: u32) = push_bit 16 (mask 8)"
    "(0xff000000 :: u32) = push_bit 24 (mask 8)" by (simp_all add: mask_eq_exp_minus_1)
  assume "k < 32"
  then consider "k < 8" | "8 \<le> k" "k < 16" | "16 \<le> k" "k < 24" | "24 \<le> k" "k < 32" by linarith
  then show ?thesis by cases (simp_all add: lwip_htonl_def m bit_simps less_diff_conv2 add.commute)
qed

lemma htonl_ntohl: "lwip_ntohl (lwip_htonl n) = n"
proof (rule bit_word_eqI)
  fix k assume "k < LENGTH(32)"
  then have "k < 32" by simp
  then consider "k < 8" | "8 \<le> k" "k < 16" | "16 \<le> k" "k < 24" | "24 \<le> k" "k < 32" by linarith
  then show "bit (lwip_ntohl (lwip_htonl n)) k = bit n k"
    by cases (simp_all add: lwip_ntohl_def bit_htonl less_diff_conv2)
qed

section \<open>Blocks of memory\<close>

definition FOLD_U32T :: "u32 \<Rightarrow> u32" where
  "FOLD_U32T u = drop_bit 16 u + (u AND 0xffff)"

definition SWAP_BYTES_IN_WORD :: "u32 \<Rightarrow> u32" where
  "SWAP_BYTES_IN_WORD w = push_bit 8 (w AND 0xff) OR drop_bit 8 (w AND 0xff00)"

text \<open>The loop over aligned 16-bit words: the sum and the bytes left over.\<close>

fun chksum_words :: "u32 \<Rightarrow> u8 list \<Rightarrow> u32 \<times> u8 list" where
  "chksum_words sm (a # b # bs) = chksum_words (sm + (ucast a + push_bit 8 (ucast b))) bs"
| "chksum_words sm bs = (sm, bs)"

text \<open>
  The address of the block matters only by its lowest bit \<open>od\<close> (\<^verbatim>\<open>odd\<close>). The two stores into the bytes of
  \<^verbatim>\<open>t\<close> are written as stores into its halves.
\<close>

definition lwip_standard_chksum :: "bool \<Rightarrow> u8 list \<Rightarrow> u16" where
  "lwip_standard_chksum od data =
     (let (t, pb) = (if od \<and> data \<noteq> [] then (push_bit 8 (ucast (hd data)), tl data) else (0 :: u16, data));
          (sm, rest) = chksum_words 0 pb;
          t = (if rest \<noteq> [] then (t AND 0xff00) OR ucast (hd rest) else t);
          sm = sm + ucast t;
          sm = FOLD_U32T sm;
          sm = FOLD_U32T sm;
          sm = (if od then SWAP_BYTES_IN_WORD sm else sm)
      in ucast sm)"

definition inet_chksum :: "bool \<Rightarrow> u8 list \<Rightarrow> u16" where
  "inet_chksum od data = NOT (lwip_standard_chksum od data)"

section \<open>Chains of buffers\<close>

text \<open>A chain is the list of its buffers, each with the parity of its payload address and its bytes.\<close>

type_synonym pbuf_chain = "(bool \<times> u8 list) list"

text \<open>The loop over the chain, which all functions share: the accumulator and whether it is swapped.\<close>

fun chksum_chain :: "u32 \<Rightarrow> bool \<Rightarrow> pbuf_chain \<Rightarrow> u32 \<times> bool" where
  "chksum_chain acc swapped [] = (acc, swapped)"
| "chksum_chain acc swapped ((od, payload) # q) =
     (let acc = acc + ucast (lwip_standard_chksum od payload);
          acc = FOLD_U32T acc
      in if length payload mod 2 \<noteq> 0 then chksum_chain (SWAP_BYTES_IN_WORD acc) (\<not> swapped) q
         else chksum_chain acc swapped q)"

definition inet_chksum_pbuf :: "pbuf_chain \<Rightarrow> u16" where
  "inet_chksum_pbuf p =
     (let (acc, swapped) = chksum_chain 0 False p;
          acc = (if swapped then SWAP_BYTES_IN_WORD acc else acc)
      in ucast (NOT (acc AND 0xffff)))"

definition inet_cksum_pseudo_base :: "pbuf_chain \<Rightarrow> u8 \<Rightarrow> u16 \<Rightarrow> u32 \<Rightarrow> u16" where
  "inet_cksum_pseudo_base p proto proto_len acc =
     (let (acc, swapped) = chksum_chain acc False p;
          acc = (if swapped then SWAP_BYTES_IN_WORD acc else acc);
          acc = acc + ucast (lwip_htons (ucast proto));
          acc = acc + ucast (lwip_htons proto_len);
          acc = FOLD_U32T acc;
          acc = FOLD_U32T acc
      in ucast (NOT (acc AND 0xffff)))"

text \<open>The sum of the halves of the two addresses, which are in network byte order.\<close>

definition pseudo_addresses :: "u32 \<Rightarrow> u32 \<Rightarrow> u32" where
  "pseudo_addresses src dest =
     (let acc = (src AND 0xffff);
          acc = acc + (drop_bit 16 src AND 0xffff);
          acc = acc + (dest AND 0xffff);
          acc = acc + (drop_bit 16 dest AND 0xffff);
          acc = FOLD_U32T acc
      in FOLD_U32T acc)"

definition inet_chksum_pseudo :: "pbuf_chain \<Rightarrow> u8 \<Rightarrow> u16 \<Rightarrow> u32 \<Rightarrow> u32 \<Rightarrow> u16" where
  "inet_chksum_pseudo p proto proto_len src dest = inet_cksum_pseudo_base p proto proto_len (pseudo_addresses src dest)"

section \<open>The reference\<close>

text \<open>The sum of the little-endian words of a block, as a number, and its ones' complement value in 16 bits.\<close>

fun words_sum :: "u8 list \<Rightarrow> nat" where
  "words_sum (a # b # bs) = unat a + 256 * unat b + words_sum bs"
| "words_sum [a] = unat a"
| "words_sum [] = 0"

definition ones_sum :: "nat \<Rightarrow> nat" where
  "ones_sum n = (if n = 0 then 0 else (n - 1) mod 65535 + 1)"

text \<open>Two numbers that stand for the same ones' complement sum.\<close>

definition same_sum :: "nat \<Rightarrow> nat \<Rightarrow> bool" where
  "same_sum m n \<longleftrightarrow> m mod 65535 = n mod 65535 \<and> (m = 0 \<longleftrightarrow> n = 0)"

lemma same_sum_refl [simp]: "same_sum n n"
  by (simp add: same_sum_def)

lemma same_sum_trans [trans]: "same_sum a b \<Longrightarrow> same_sum b c \<Longrightarrow> same_sum a c"
  by (simp add: same_sum_def)

lemma same_sum_sym: "same_sum a b \<Longrightarrow> same_sum b a"
  by (auto simp: same_sum_def)

lemma same_sum_add: "same_sum a b \<Longrightarrow> same_sum c d \<Longrightarrow> same_sum (a + c) (b + d)"
  unfolding same_sum_def by (metis add_is_0 mod_add_cong)

lemma same_sum_mult: "same_sum a b \<Longrightarrow> 0 < k \<Longrightarrow> same_sum (k * a) (k * b)"
  unfolding same_sum_def by (metis mod_mult_right_eq mult_is_0 less_numeral_extra(3))

lemma same_sum_wrap: "same_sum (65536 * n) n"
proof -
  have "65536 mod 65535 * n mod 65535 = 65536 * n mod (65535 :: nat)" by (rule mod_mult_left_eq)
  then show ?thesis by (simp add: same_sum_def)
qed

lemma ones_sum_same: "same_sum (ones_sum n) n"
proof (cases n)
  case (Suc k)
  have "(k mod 65535 + 1) mod 65535 = (k + 1) mod 65535" by (rule mod_add_left_eq)
  then show ?thesis by (simp add: same_sum_def ones_sum_def Suc)
qed (simp add: ones_sum_def)

lemma ones_sum_le: "ones_sum n \<le> 65535"
proof -
  have "(n - 1) mod 65535 < 65535" by simp
  then show ?thesis unfolding ones_sum_def by (simp del: mod_less_divisor)
qed

lemma same_sum_unique:
  assumes "same_sum m n" and "m \<le> 65535" and "n \<le> 65535"
  shows "m = n"
proof -
  have r: "k mod 65535 = (if k = 65535 then 0 else k)" if "k \<le> 65535" for k :: nat
    using that mod_less [of k 65535] by (metis le_neq_implies_less mod_self)
  show ?thesis
    using assms(1) unfolding same_sum_def r [OF assms(2)] r [OF assms(3)] by (auto split: if_splits)
qed

lemma ones_sumI: "same_sum m n \<Longrightarrow> m \<le> 65535 \<Longrightarrow> m = ones_sum n"
  by (rule same_sum_unique [OF same_sum_trans [OF _ same_sum_sym [OF ones_sum_same]] _ ones_sum_le])

lemma ones_sum_cong: "same_sum m n \<Longrightarrow> ones_sum m = ones_sum n"
  by (rule ones_sumI [OF same_sum_trans [OF ones_sum_same] ones_sum_le])

text \<open>Folding and swapping on numbers.\<close>

lemma same_sum_fold: "same_sum (x div 65536 + x mod 65536) x"
proof -
  have "same_sum (x div 65536 + x mod 65536) (65536 * (x div 65536) + x mod 65536)"
    by (rule same_sum_add [OF same_sum_sym [OF same_sum_wrap] same_sum_refl])
  then show ?thesis by simp
qed

lemma same_sum_swap: "same_sum (256 * (x mod 256) + x div 256) (256 * x)"
proof -
  have "same_sum (256 * (x mod 256) + x div 256) (256 * (x mod 256) + 65536 * (x div 256))"
    by (rule same_sum_add [OF same_sum_refl same_sum_sym [OF same_sum_wrap]])
  moreover have "256 * (x mod 256) + 65536 * (x div 256) = 256 * x" using mod_mult_div_eq [of x 256] by linarith
  ultimately show ?thesis by simp
qed

lemma same_sum_swap2: "same_sum (256 * (256 * n)) n"
  using same_sum_wrap [of n] by simp

text \<open>The sum of two blocks one behind the other.\<close>

lemma words_sum_append:
  "same_sum (words_sum (xs @ ys)) (words_sum xs + (if even (length xs) then words_sum ys else 256 * words_sum ys))"
proof (induction xs rule: words_sum.induct)
  case (1 a b xs)
  then show ?case
    using same_sum_add [OF same_sum_refl [of "unat a + 256 * unat b"]] by (fastforce simp: add.assoc)
next
  case (2 a)
  have odd: "same_sum (words_sum (a # ys)) (unat a + 256 * words_sum ys)" for a
  proof (induction ys arbitrary: a rule: words_sum.induct)
    case (1 b c ys)
    have "same_sum (unat a + 256 * unat b + words_sum (c # ys)) (unat a + 256 * unat b + (65536 * unat c + 256 * words_sum ys))"
      by (rule same_sum_add [OF same_sum_refl same_sum_trans [OF 1 same_sum_add [OF same_sum_sym [OF same_sum_wrap] same_sum_refl]]])
    then show ?case by (simp add: algebra_simps)
  qed simp_all
  then show ?case by simp
qed simp

section \<open>The operations on numbers\<close>

lemma unat_take_bit: "unat (take_bit n w) = unat w mod 2 ^ n"
  by (simp only: unsigned_take_bit_eq take_bit_nat_def)

lemma unat_drop_bit: "unat (drop_bit n w) = unat w div 2 ^ n"
  by (simp only: unat_drop_bit_eq drop_bit_nat_def)

lemma unat_low16: "unat (u AND 0xffff) = unat u mod 65536" for u :: u32
proof -
  have "u AND 0xffff = take_bit 16 u" by (simp add: take_bit_eq_mask mask_eq_exp_minus_1)
  then show ?thesis by (simp only: unat_take_bit) simp
qed

lemma unat_high16: "unat (drop_bit 16 u) = unat u div 65536" for u :: u32
  by (simp only: unat_drop_bit) simp

lemma unat_FOLD: "unat (FOLD_U32T u) = unat u div 65536 + unat u mod 65536"
proof -
  have "unat u < 2 ^ 32" using unsigned_less [of u] by simp
  then have "unat u div 65536 + unat u mod 65536 < 2 ^ 32" by simp
  then show ?thesis
    unfolding FOLD_U32T_def by (simp add: unat_word_ariths unat_low16 unat_high16)
qed

lemma FOLD_same: "same_sum (unat (FOLD_U32T u)) (unat u)"
  by (simp add: unat_FOLD same_sum_fold)

lemma FOLD_le: "unat u \<le> 131070 \<Longrightarrow> unat (FOLD_U32T u) \<le> 65535"
proof -
  assume u: "unat u \<le> 131070"
  then have "unat u div 65536 = 0 \<or> unat u div 65536 = 1" by auto
  then show ?thesis
    using u mod_mult_div_eq [of "unat u" 65536] unfolding unat_FOLD by linarith
qed

lemma FOLD_twice: "unat (FOLD_U32T (FOLD_U32T u)) = ones_sum (unat u)"
proof (rule ones_sumI)
  show "same_sum (unat (FOLD_U32T (FOLD_U32T u))) (unat u)" by (rule same_sum_trans [OF FOLD_same FOLD_same])
  have "unat u < 2 ^ 32" using unsigned_less [of u] by simp
  then have "unat u div 65536 + unat u mod 65536 \<le> 131070" by simp
  then show "unat (FOLD_U32T (FOLD_U32T u)) \<le> 65535" by (intro FOLD_le) (simp add: unat_FOLD)
qed

lemma unat_SWAP:
  assumes "unat w \<le> 65535"
  shows "unat (SWAP_BYTES_IN_WORD w) = 256 * (unat w mod 256) + unat w div 256"
proof -
  have m: "(0xff00 :: u32) = push_bit 8 (mask 8)" by (simp add: mask_eq_exp_minus_1)
  let ?lo = "take_bit 8 w" and ?hi = "take_bit 8 (drop_bit 8 w)"
  have lo: "w AND 0xff = ?lo" by (simp add: take_bit_eq_mask mask_eq_exp_minus_1)
  have hi: "drop_bit 8 (w AND 0xff00) = ?hi" unfolding m by (rule bit_word_eqI) (auto simp: bit_simps)
  have u: "unat ?lo = unat w mod 256" "unat ?hi = unat w div 256"
    using assms by (simp_all only: unat_take_bit unat_drop_bit) simp_all
  have "SWAP_BYTES_IN_WORD w = push_bit 8 ?lo + ?hi"
    unfolding SWAP_BYTES_IN_WORD_def lo hi by (rule disjunctive_add_eq_or [symmetric]) (rule bit_word_eqI, auto simp: bit_simps)
  also have "push_bit 8 ?lo = 256 * ?lo" by (simp add: push_bit_eq_mult)
  finally have "SWAP_BYTES_IN_WORD w = 256 * ?lo + ?hi" .
  moreover have "unat ?lo < 256" "unat ?hi < 256" using assms unfolding u by auto
  ultimately show ?thesis using u by (simp add: unat_word_ariths)
qed

lemma SWAP_facts:
  assumes "unat w \<le> 65535"
  shows "same_sum (unat (SWAP_BYTES_IN_WORD w)) (256 * unat w)" and "unat (SWAP_BYTES_IN_WORD w) \<le> 65535"
proof -
  show "same_sum (unat (SWAP_BYTES_IN_WORD w)) (256 * unat w)"
    unfolding unat_SWAP [OF assms] by (rule same_sum_swap)
  have "unat w mod 256 \<le> 255" "unat w div 256 \<le> 255" using assms by auto
  then show "unat (SWAP_BYTES_IN_WORD w) \<le> 65535" unfolding unat_SWAP [OF assms] by linarith
qed

lemma byte_less: "unat x < 256" for x :: u8
  using unsigned_less [of x, where 'a = nat] by simp

lemma unat_pair: "unat (ucast a + push_bit 8 (ucast b) :: u32) = unat a + 256 * unat b" for a b :: u8
proof -
  have "unat a < 256" "unat b < 256" by (rule byte_less)+
  moreover have "push_bit 8 (ucast b :: u32) = 256 * ucast b" by (simp add: push_bit_eq_mult)
  ultimately show ?thesis by (simp add: unat_word_ariths unsigned_ucast_eq take_bit_nat_eq_self)
qed

lemma chksum_words_sum:
  "unat sm + words_sum bs < 2 ^ 32 \<Longrightarrow>
     length (snd (chksum_words sm bs)) \<le> 1 \<and>
     unat (fst (chksum_words sm bs)) + words_sum (snd (chksum_words sm bs)) = unat sm + words_sum bs"
proof (induction sm bs rule: chksum_words.induct)
  case (1 sm a b bs)
  have "unat (sm + (ucast a + push_bit 8 (ucast b))) = unat sm + (unat a + 256 * unat b)"
    using 1(2) unat_add_lem [of sm "ucast a + push_bit 8 (ucast b)"] by (simp add: unat_pair)
  then show ?case using 1 by (simp add: add.assoc)
qed simp_all

lemma words_sum_le: "words_sum bs \<le> 65535 * ((length bs + 1) div 2)"
proof (induction bs rule: words_sum.induct)
  case (1 a b bs)
  have "unat a < 256" "unat b < 256" by (rule byte_less)+
  then have "unat a + 256 * unat b \<le> 65535" by simp
  moreover have "(length (a # b # bs) + 1) div 2 = (length bs + 1) div 2 + 1" by simp
  ultimately show ?case using 1 by simp
next
  case (2 a)
  have "unat a < 256" by (rule byte_less)
  then show ?case by simp
qed simp

text \<open>The bytes at the two ends of an unaligned block share one word.\<close>

lemma unat_ends:
  fixes b c :: u8
  shows "unat (push_bit 8 (ucast b) :: u16) = 256 * unat b"
    and "unat ((push_bit 8 (ucast b) AND 0xff00) OR ucast c :: u16) = 256 * unat b + unat c"
proof -
  have b: "unat b < 256" "unat c < 256" by (rule byte_less)+
  have p: "push_bit 8 (ucast b :: u16) = 256 * ucast b" by (simp add: push_bit_eq_mult)
  have uc: "unat (ucast x :: u16) = unat x" for x :: u8
    using byte_less [of x] by (simp add: unsigned_ucast_eq take_bit_nat_eq_self)
  show u: "unat (push_bit 8 (ucast b) :: u16) = 256 * unat b"
    unfolding p using b by (simp add: unat_word_ariths uc)
  have m: "(0xff00 :: u16) = push_bit 8 (mask 8)" by (simp add: mask_eq_exp_minus_1)
  have "(push_bit 8 (ucast b) AND 0xff00) OR ucast c = push_bit 8 (ucast b) + (ucast c :: u16)"
  proof -
    have "push_bit 8 (ucast b) AND 0xff00 = (push_bit 8 (ucast b) :: u16)"
      unfolding m by (rule bit_word_eqI) (auto simp: bit_simps)
    moreover have "push_bit 8 (ucast b) AND ucast c = (0 :: u16)"
      by (rule bit_word_eqI) (auto simp: bit_simps dest: bit_imp_le_length)
    ultimately show ?thesis by (simp add: disjunctive_add_eq_or)
  qed
  moreover have "unat (push_bit 8 (ucast b) + (ucast c :: u16)) = 256 * unat b + unat c"
    using b unat_add_lem [of "push_bit 8 (ucast b) :: u16" "ucast c"] by (simp add: u uc)
  ultimately show "unat ((push_bit 8 (ucast b) AND 0xff00) OR ucast c :: u16) = 256 * unat b + unat c" by simp
qed

lemma fold_sum:
  fixes t :: u16
  assumes "hi + words_sum pb < 2 ^ 32" and "unat t = hi" and "\<And>c. unat ((t AND 0xff00) OR ucast (c :: u8)) = hi + unat c"
  shows "case chksum_words 0 pb of (sm, rest) \<Rightarrow>
    unat (FOLD_U32T (FOLD_U32T (sm + ucast (if rest \<noteq> [] then (t AND 0xff00) OR ucast (hd rest) else t)))) =
      ones_sum (hi + words_sum pb)"
proof -
  obtain sm rest where c: "chksum_words 0 pb = (sm, rest)" by fastforce
  have "length rest \<le> 1" and sum: "unat sm + words_sum rest = words_sum pb"
    using chksum_words_sum [of 0 pb] assms(1) c by simp_all
  then have rest: "rest = [] \<or> (\<exists>x. rest = [x])" by (cases rest) auto
  define t' where "t' = (if rest \<noteq> [] then (t AND 0xff00) OR ucast (hd rest) else t)"
  have t': "unat t' = hi + words_sum rest"
    using rest assms(2) assms(3) [of "hd rest"] by (auto simp: t'_def)
  have "unat (ucast t' :: u32) = unat t'"
    using unsigned_less [of t', where 'a = nat] by (simp add: unsigned_ucast_eq take_bit_nat_eq_self)
  then have "unat (sm + ucast t') = hi + words_sum pb"
    using unat_add_lem [of sm "ucast t'"] t' sum assms(1) by simp
  then show ?thesis unfolding c prod.case t'_def [symmetric] FOLD_twice by simp
qed

lemma small_ucast: "unat (ucast u :: u16) = unat u" if "unat u \<le> 65535" for u :: u32
  using that by (simp add: unsigned_ucast_eq take_bit_nat_eq_self)

lemma standard_chksum_even:
  assumes "words_sum data < 2 ^ 32"
  shows "unat (lwip_standard_chksum False data) = ones_sum (words_sum data)"
proof -
  obtain sm rest where c: "chksum_words 0 data = (sm, rest)" by fastforce
  have uc: "unat (ucast c :: u16) = unat c" for c :: u8
    using byte_less [of c] by (simp add: unsigned_ucast_eq take_bit_nat_eq_self)
  have f: "unat (FOLD_U32T (FOLD_U32T (sm + ucast (if rest \<noteq> [] then ((0 :: u16) AND 0xff00) OR ucast (hd rest) else 0)))) =
      ones_sum (words_sum data)"
    using fold_sum [of 0 data 0] assms c by (simp add: uc)
  then show ?thesis
    using c small_ucast ones_sum_le [of "words_sum data"] by (simp add: lwip_standard_chksum_def Let_def)
qed

lemma standard_chksum_odd:
  assumes "256 * unat b + words_sum data < 2 ^ 32"
  shows "unat (lwip_standard_chksum True (b # data)) = ones_sum (words_sum (b # data))"
proof -
  obtain sm rest where c: "chksum_words 0 data = (sm, rest)" by fastforce
  define u where "u = FOLD_U32T (FOLD_U32T (sm + ucast (if rest \<noteq> [] then (push_bit 8 (ucast b) AND 0xff00) OR ucast (hd rest)
    else push_bit 8 (ucast b) :: u16)))"
  have u: "unat u = ones_sum (256 * unat b + words_sum data)"
    using fold_sum [of "256 * unat b" data "push_bit 8 (ucast b)"] assms unat_ends c unfolding u_def by simp
  then have le: "unat u \<le> 65535" by (simp add: ones_sum_le)
  have "same_sum (unat (SWAP_BYTES_IN_WORD u)) (256 * unat u)" by (rule SWAP_facts(1) [OF le])
  also have "same_sum (256 * unat u) (256 * (256 * unat b + words_sum data))"
    unfolding u by (rule same_sum_mult [OF ones_sum_same]) simp
  also have "same_sum (256 * (256 * unat b + words_sum data)) (words_sum (b # data))"
  proof -
    have "same_sum (256 * (256 * unat b) + 256 * words_sum data) (unat b + 256 * words_sum data)"
      by (rule same_sum_add [OF same_sum_swap2 same_sum_refl])
    moreover have "same_sum (words_sum (b # data)) (unat b + 256 * words_sum data)"
      using words_sum_append [of "[b]" data] by simp
    ultimately show ?thesis by (simp add: distrib_left) (rule same_sum_trans [OF _ same_sum_sym])
  qed
  finally have "unat (SWAP_BYTES_IN_WORD u) = ones_sum (words_sum (b # data))"
    by (rule ones_sumI [OF _ SWAP_facts(2) [OF le]])
  moreover have "lwip_standard_chksum True (b # data) = ucast (SWAP_BYTES_IN_WORD u)"
    using c by (simp add: lwip_standard_chksum_def Let_def u_def)
  ultimately show ?thesis using SWAP_facts(2) [OF le] by (simp add: small_ucast)
qed

lemma standard_chksum:
  assumes "length data \<le> 0x20000"
  shows "unat (lwip_standard_chksum od data) = ones_sum (words_sum data)"
proof (cases "od \<and> data \<noteq> []")
  case True
  then obtain b r where d: "data = b # r" by (cases data) auto
  have "(length r + 1) div 2 \<le> 65536" using assms d by simp
  then have "words_sum r \<le> 65535 * 65536" using words_sum_le [of r] by (meson le_trans mult_le_mono2)
  then have "256 * unat b + words_sum r < 2 ^ 32" using byte_less [of b] by simp
  then show ?thesis using standard_chksum_odd [of b r] True d by simp
next
  case False
  have "(length data + 1) div 2 \<le> 65536" using assms by simp
  then have "words_sum data \<le> 65535 * 65536" using words_sum_le [of data] by (meson le_trans mult_le_mono2)
  then have e: "unat (lwip_standard_chksum False data) = ones_sum (words_sum data)" by (intro standard_chksum_even) simp
  have "lwip_standard_chksum True [] = lwip_standard_chksum False []"
    by (simp add: lwip_standard_chksum_def Let_def FOLD_U32T_def SWAP_BYTES_IN_WORD_def)
  then show ?thesis using e False by (cases od) auto
qed

section \<open>Chains\<close>

definition payload_of :: "pbuf_chain \<Rightarrow> u8 list" where
  "payload_of p = concat (map snd p)"

text \<open>The factor an accumulator carries after a number of bytes.\<close>

definition phase :: "u8 list \<Rightarrow> nat" where
  "phase bs = (if even (length bs) then 1 else 256)"

lemma phase_pos: "0 < phase bs"
  by (simp add: phase_def)

lemma phase_step:
  "same_sum (phase ys * (phase xs * (n + words_sum xs) + words_sum ys)) (phase (xs @ ys) * (n + words_sum (xs @ ys)))"
proof -
  let ?x = "n + words_sum xs" and ?y = "words_sum ys"
  have app: "same_sum (n + words_sum (xs @ ys)) (?x + phase xs * ?y)"
    using same_sum_add [OF same_sum_refl words_sum_append, of n xs ys] by (auto simp: phase_def add.assoc split: if_splits)
  have "same_sum (phase ys * (phase xs * ?x + ?y)) (phase (xs @ ys) * (?x + phase xs * ?y))"
  proof (cases "even (length xs) \<or> odd (length ys)")
    case True
    have "same_sum (256 * (256 * ?x) + 256 * ?y) (?x + 256 * ?y)" by (rule same_sum_add [OF same_sum_swap2 same_sum_refl])
    then show ?thesis using True by (auto simp: phase_def distrib_left)
  next
    case False
    have "same_sum (256 * ?x + ?y) (256 * ?x + 256 * (256 * ?y))" by (rule same_sum_add [OF same_sum_refl same_sum_sym [OF same_sum_swap2]])
    then show ?thesis using False by (simp add: phase_def distrib_left)
  qed
  also have "same_sum (phase (xs @ ys) * (?x + phase xs * ?y)) (phase (xs @ ys) * (n + words_sum (xs @ ys)))"
    by (rule same_sum_mult [OF same_sum_sym [OF app]]) (simp add: phase_def)
  finally show ?thesis .
qed

lemma chksum_chain_sum:
  assumes "\<forall>(od, bs) \<in> set p. length bs \<le> 0x20000" and "unat acc \<le> 65535"
  shows "unat (fst (chksum_chain acc sw p)) \<le> 65535 \<and>
    snd (chksum_chain acc sw p) = (sw \<noteq> odd (length (payload_of p))) \<and>
    same_sum (unat (fst (chksum_chain acc sw p))) (phase (payload_of p) * (unat acc + words_sum (payload_of p)))"
  using assms
proof (induction acc sw p rule: chksum_chain.induct)
  case (1 acc sw)
  then show ?case by (simp add: payload_of_def phase_def)
next
  case (2 acc sw od x q)
  define a where "a = FOLD_U32T (acc + ucast (lwip_standard_chksum od x))"
  define a' where "a' = (if odd (length x) then SWAP_BYTES_IN_WORD a else a)"
  have c: "unat (lwip_standard_chksum od x) = ones_sum (words_sum x)" using 2(3) by (intro standard_chksum) simp
  then have cle: "unat (lwip_standard_chksum od x) \<le> 65535" by (simp add: ones_sum_le)
  have "unat (ucast (lwip_standard_chksum od x) :: u32) = unat (lwip_standard_chksum od x)"
    using cle by (simp add: unsigned_ucast_eq take_bit_nat_eq_self)
  then have sum: "unat (acc + ucast (lwip_standard_chksum od x)) = unat acc + ones_sum (words_sum x)"
    using unat_add_lem [of acc "ucast (lwip_standard_chksum od x)"] 2(4) c cle by simp
  have a: "unat a \<le> 65535" unfolding a_def by (rule FOLD_le) (use sum 2(4) ones_sum_le [of "words_sum x"] in simp)
  have s: "same_sum (unat a) (unat acc + words_sum x)"
    unfolding a_def using same_sum_trans [OF FOLD_same] same_sum_add [OF same_sum_refl ones_sum_same] sum by metis
  have "same_sum (unat (SWAP_BYTES_IN_WORD a)) (256 * (unat acc + words_sum x))"
    by (rule same_sum_trans [OF SWAP_facts(1) [OF a] same_sum_mult [OF s]]) simp
  then have a': "unat a' \<le> 65535" "same_sum (unat a') (phase x * (unat acc + words_sum x))"
    using a s SWAP_facts(2) [OF a] by (simp_all add: a'_def phase_def)
  have step: "chksum_chain acc sw ((od, x) # q) = chksum_chain a' (sw \<noteq> odd (length x)) q"
    by (simp add: Let_def a_def a'_def odd_iff_mod_2_eq_one)
  let ?r = "chksum_chain a' (sw \<noteq> odd (length x)) q"
  have IH: "unat (fst ?r) \<le> 65535 \<and> snd ?r = ((sw \<noteq> odd (length x)) \<noteq> odd (length (payload_of q))) \<and>
    same_sum (unat (fst ?r)) (phase (payload_of q) * (unat a' + words_sum (payload_of q)))"
    using 2(1) [OF refl refl] 2(2) [OF refl refl] 2(3) a'(1)
    by (cases "odd (length x)") (simp_all add: a_def [symmetric] a'_def odd_iff_mod_2_eq_one split: if_splits)
  have pl: "payload_of ((od, x) # q) = x @ payload_of q" by (simp add: payload_of_def)
  have "same_sum (unat (fst ?r)) (phase (payload_of q) * (phase x * (unat acc + words_sum x) + words_sum (payload_of q)))"
    by (rule same_sum_trans [OF conjunct2 [OF conjunct2 [OF IH]] same_sum_mult [OF same_sum_add [OF a'(2) same_sum_refl] phase_pos]])
  then have "same_sum (unat (fst ?r)) (phase (payload_of ((od, x) # q)) * (unat acc + words_sum (payload_of ((od, x) # q))))"
    unfolding pl by (rule same_sum_trans [OF _ phase_step])
  then show ?case unfolding step using IH by (simp add: pl) blast
qed

text \<open>The accumulator after the loop, swapped back.\<close>

definition chain_sum :: "u32 \<Rightarrow> pbuf_chain \<Rightarrow> u32" where
  "chain_sum acc p = (let (a, swapped) = chksum_chain acc False p in if swapped then SWAP_BYTES_IN_WORD a else a)"

lemma chain_sum_same:
  assumes "\<forall>(od, bs) \<in> set p. length bs \<le> 0x20000" and "unat acc \<le> 65535"
  shows "unat (chain_sum acc p) \<le> 65535" and "same_sum (unat (chain_sum acc p)) (unat acc + words_sum (payload_of p))"
proof -
  obtain a sw where c: "chksum_chain acc False p = (a, sw)" by fastforce
  note f = chksum_chain_sum [OF assms, of False, unfolded c fst_conv snd_conv]
  have a: "unat a \<le> 65535" using f by blast
  show "unat (chain_sum acc p) \<le> 65535" using a SWAP_facts(2) [OF a] by (simp add: chain_sum_def c)
  let ?n = "unat acc + words_sum (payload_of p)"
  show "same_sum (unat (chain_sum acc p)) ?n"
  proof (cases sw)
    case True
    have "same_sum (unat (SWAP_BYTES_IN_WORD a)) (256 * unat a)" by (rule SWAP_facts(1) [OF a])
    also have "same_sum (256 * unat a) (256 * (256 * ?n))"
    proof (rule same_sum_mult)
      have "phase (payload_of p) = 256" using f True by (simp add: phase_def)
      then show "same_sum (unat a) (256 * ?n)" using f by metis
    qed simp
    also have "same_sum (256 * (256 * ?n)) ?n" by (rule same_sum_swap2)
    finally show ?thesis using True by (simp add: chain_sum_def c)
  next
    case False
    then show ?thesis using f by (simp add: chain_sum_def c phase_def)
  qed
qed

lemma low16_NOT: "(ucast (NOT (u AND 0xffff)) :: u16) = NOT (ucast u)" for u :: u32
proof -
  have "u AND 0xffff = take_bit 16 u" by (simp add: take_bit_eq_mask mask_eq_exp_minus_1)
  then show ?thesis by (auto intro!: bit_word_eqI simp: bit_simps)
qed

lemma ucast_of_sum: "unat u = n \<Longrightarrow> (ucast u :: u16) = of_nat n" for u :: u32
  by auto

text \<open>The part of the sum that comes from the pseudo header.\<close>

definition pseudo_sum :: "u8 \<Rightarrow> u16 \<Rightarrow> u32 \<Rightarrow> u32 \<Rightarrow> nat" where
  "pseudo_sum proto proto_len src dest =
     unat src mod 65536 + unat src div 65536 + unat dest mod 65536 + unat dest div 65536 +
     unat (lwip_htons (ucast proto)) + unat (lwip_htons proto_len)"

lemma pseudo_addresses_sum:
  "unat (pseudo_addresses src dest) =
     ones_sum (unat src mod 65536 + unat src div 65536 + unat dest mod 65536 + unat dest div 65536)"
proof -
  have h: "unat (drop_bit 16 u AND 0xffff) = unat u div 65536" "unat u div 65536 < 65536" for u :: u32
    using unsigned_less [of u, where 'a = nat] by (simp_all add: unat_low16 unat_high16)
  have "unat ((src AND 0xffff) + (drop_bit 16 src AND 0xffff) + (dest AND 0xffff) + (drop_bit 16 dest AND 0xffff)) =
      unat src mod 65536 + unat src div 65536 + unat dest mod 65536 + unat dest div 65536"
    using h(2) [of src] h(2) [of dest] by (simp add: unat_word_ariths unat_low16 unat_high16)
  then show ?thesis by (simp only: pseudo_addresses_def Let_def FOLD_twice)
qed

lemma pseudo_chksum:
  assumes "\<forall>(od, bs) \<in> set p. length bs \<le> 0x20000"
  shows "inet_chksum_pseudo p proto proto_len src dest =
    NOT (of_nat (ones_sum (words_sum (payload_of p) + pseudo_sum proto proto_len src dest)))"
proof -
  let ?addr = "unat src mod 65536 + unat src div 65536 + unat dest mod 65536 + unat dest div 65536"
  let ?h1 = "lwip_htons (ucast proto)" and ?h2 = "lwip_htons proto_len"
  define acc where "acc = chain_sum (pseudo_addresses src dest) p"
  have le0: "unat (pseudo_addresses src dest) \<le> 65535" by (simp add: pseudo_addresses_sum ones_sum_le)
  have le: "unat acc \<le> 65535" unfolding acc_def by (rule chain_sum_same(1) [OF assms le0])
  have "same_sum (unat acc) (unat (pseudo_addresses src dest) + words_sum (payload_of p))"
    unfolding acc_def by (rule chain_sum_same(2) [OF assms le0])
  also have "same_sum (unat (pseudo_addresses src dest) + words_sum (payload_of p)) (?addr + words_sum (payload_of p))"
    unfolding pseudo_addresses_sum by (rule same_sum_add [OF ones_sum_same same_sum_refl])
  finally have s: "same_sum (unat acc + (unat ?h1 + unat ?h2)) (?addr + words_sum (payload_of p) + (unat ?h1 + unat ?h2))"
    by (rule same_sum_add [OF _ same_sum_refl])
  have uc: "unat (ucast x :: u32) = unat x" "unat x \<le> 65535" for x :: u16
    using unsigned_less [of x, where 'a = nat] by (simp_all add: unsigned_ucast_eq take_bit_nat_eq_self)
  have "unat (acc + ucast ?h1 + ucast ?h2) = unat acc + (unat ?h1 + unat ?h2)"
    using le uc(2) [of ?h1] uc(2) [of ?h2] by (simp add: unat_word_ariths uc(1))
  then have "unat (FOLD_U32T (FOLD_U32T (acc + ucast ?h1 + ucast ?h2))) =
      ones_sum (words_sum (payload_of p) + pseudo_sum proto proto_len src dest)"
    using ones_sum_cong [OF s] by (simp add: FOLD_twice pseudo_sum_def add_ac)
  moreover have "inet_chksum_pseudo p proto proto_len src dest =
      ucast (NOT (FOLD_U32T (FOLD_U32T (acc + ucast ?h1 + ucast ?h2)) AND 0xffff))"
    by (simp add: inet_chksum_pseudo_def inet_cksum_pseudo_base_def acc_def chain_sum_def Let_def split: prod.split)
  ultimately show ?thesis by (simp only: low16_NOT ucast_of_sum)
qed

lemma pbuf_chksum:
  assumes "\<forall>(od, bs) \<in> set p. length bs \<le> 0x20000"
  shows "inet_chksum_pbuf p = NOT (of_nat (ones_sum (words_sum (payload_of p))))"
proof -
  have "unat (chain_sum 0 p) = ones_sum (words_sum (payload_of p))"
    using chain_sum_same [OF assms, of 0] by (intro ones_sumI) simp_all
  moreover have "inet_chksum_pbuf p = ucast (NOT (chain_sum 0 p AND 0xffff))"
    by (simp add: inet_chksum_pbuf_def chain_sum_def Let_def split: prod.split)
  ultimately show ?thesis by (simp only: low16_NOT ucast_of_sum)
qed

section \<open>Properties\<close>

text \<open>
  C9. The checksum routine is the ones' complement sum: for every block up to 0x20000 bytes, at an even or an odd
  address, of even or odd length, the routine that sums aligned words, keeps the odd bytes at both ends
  in one word, folds twice and swaps at the end returns the sum of the 16-bit words of the block modulo
  65535, with 65535 for a non-empty multiple; in particular the alignment of the block does not matter.
\<close>

theorem checksum_is_ones_complement_sum:
  assumes "length data \<le> 0x20000"
  shows "unat (lwip_standard_chksum od data) = ones_sum (words_sum data) \<and>
    lwip_standard_chksum True data = lwip_standard_chksum False data"
  using standard_chksum [OF assms, of od] standard_chksum [OF assms, of True] standard_chksum [OF assms, of False]
  by (simp add: word_unat_eq_iff)

theorem checksum_is_ones_complement_sum_witness:
  "lwip_standard_chksum True [0x12, 0xff, 0xee] = lwip_standard_chksum False [0x12, 0xff, 0xee] \<and>
     unat (lwip_standard_chksum True [0x12, 0xff, 0xee]) = 1"
  using checksum_is_ones_complement_sum [of "[0x12, 0xff, 0xee]" True] by (auto simp: ones_sum_def)

text \<open>
  C10. The checksum of a packet does not depend on how it is cut into buffers: two chains with the same bytes, whatever the
  lengths and alignments of their buffers, have the same checksum with the pseudo header and without
  it, and that without it is the checksum of the bytes in one block.
\<close>

theorem checksum_ignores_segmentation:
  assumes "\<forall>(od, bs) \<in> set p. length bs \<le> 0x20000" and "\<forall>(od, bs) \<in> set q. length bs \<le> 0x20000"
    and "payload_of p = payload_of q" and "length (payload_of p) \<le> 0x20000"
  shows "inet_chksum_pseudo p proto proto_len src dest = inet_chksum_pseudo q proto proto_len src dest \<and>
    inet_chksum_pbuf p = inet_chksum od (payload_of q)"
proof -
  have "of_nat (ones_sum (words_sum (payload_of q))) = lwip_standard_chksum od (payload_of q)"
    using standard_chksum [of "payload_of q" od] assms(3,4) by (metis of_nat_unat ucast_id)
  then show ?thesis
    using pseudo_chksum [OF assms(1)] pseudo_chksum [OF assms(2)] pbuf_chksum [OF assms(1)] assms(3)
    by (simp add: inet_chksum_def)
qed

theorem checksum_ignores_segmentation_witness:
  "inet_chksum_pbuf [(True, [1]), (False, [2, 3, 4]), (True, [5])] = inet_chksum False [1, 2, 3, 4, 5]"
  using checksum_ignores_segmentation [of "[(True, [1]), (False, [2, 3, 4]), (True, [5])]" "[(False, [1, 2, 3, 4, 5])]" 6 5 0 0 False]
  by (simp add: payload_of_def)

lemma words_sum_even: "even (length xs) \<Longrightarrow> words_sum (xs @ ys) = words_sum xs + words_sum ys"
  by (induction xs rule: words_sum.induct) simp_all

lemma unat_NOT16: "unat (NOT x) = 65535 - unat x" for x :: u16
proof -
  have "NOT x = - 1 - x" by (simp add: not_eq_complement)
  moreover have "unat (- 1 - x) = unat (- 1 :: u16) - unat x" by (rule unat_sub) (rule word_n1_ge)
  moreover have "unat (- 1 :: u16) = 65535" by (simp add: unsigned_minus_1_eq_mask mask_eq_exp_minus_1)
  ultimately show ?thesis by simp
qed

lemma checksum_field:
  "unat (ucast c :: u8) + 256 * unat (ucast (drop_bit 8 c) :: u8) = unat c" for c :: u16
proof -
  have "unat c < 65536" using unsigned_less [of c, where 'a = nat] by simp
  then show ?thesis by (simp add: unsigned_ucast_eq take_bit_nat_def unat_drop_bit)
qed

text \<open>
  A packet with its checksum filled in passes the check of the receiver: let the checksum of a packet be computed
  with the checksum field, at an even offset, set to zero, and be stored there low byte first; then the checksum computed over
  the finished packet, with the same pseudo header and however it is cut into buffers on the way, is zero.
\<close>

theorem checksum_verifies:
  assumes "\<forall>(od, bs) \<in> set p. length bs \<le> 0x20000" and "\<forall>(od, bs) \<in> set q. length bs \<le> 0x20000"
    and "payload_of p = pre @ [0, 0] @ post" and "even (length pre)"
    and "payload_of q = pre @ [ucast (inet_chksum_pseudo p proto proto_len src dest),
           ucast (drop_bit 8 (inet_chksum_pseudo p proto proto_len src dest))] @ post"
  shows "inet_chksum_pseudo q proto proto_len src dest = 0"
proof -
  let ?c = "inet_chksum_pseudo p proto proto_len src dest" and ?h = "pseudo_sum proto proto_len src dest"
  define n where "n = words_sum pre + words_sum post + ?h"
  have c: "?c = NOT (of_nat (ones_sum n))"
    using pseudo_chksum [OF assms(1)] assms(3,4) by (simp add: n_def words_sum_even)
  have "unat (of_nat (ones_sum n) :: u16) = ones_sum n"
    using ones_sum_le [of n] by (simp add: unsigned_of_nat take_bit_nat_eq_self)
  then have uc: "unat ?c + ones_sum n = 65535"
    unfolding c using ones_sum_le [of n] unat_NOT16 [of "of_nat (ones_sum n)"] by simp
  have "words_sum (payload_of q) + ?h = n + unat ?c"
    using assms(4) checksum_field [of ?c] unfolding assms(5) n_def by (simp add: words_sum_even)
  moreover have "same_sum (n + unat ?c) (ones_sum n + unat ?c)"
    by (rule same_sum_add [OF same_sum_sym [OF ones_sum_same] same_sum_refl])
  then have "ones_sum (n + unat ?c) = 65535"
    using uc ones_sumI [of 65535 "n + unat ?c"] same_sum_sym by (simp add: add.commute)
  ultimately have "inet_chksum_pseudo q proto proto_len src dest = NOT (of_nat 65535)"
    using pseudo_chksum [OF assms(2)] by simp
  then show ?thesis by simp
qed

theorem checksum_verifies_witness:
  "inet_chksum_pseudo [(True, [1, 2, ucast (inet_chksum_pseudo [(False, [1, 2, 0, 0, 7])] 6 5 0x0101a8c0 0x0a01a8c0),
      ucast (drop_bit 8 (inet_chksum_pseudo [(False, [1, 2, 0, 0, 7])] 6 5 0x0101a8c0 0x0a01a8c0)), 7])] 6 5 0x0101a8c0 0x0a01a8c0 = 0"
  by (rule checksum_verifies [where p = "[(False, [1, 2, 0, 0, 7])]" and pre = "[1, 2]" and post = "[7]"])
    (simp_all add: payload_of_def)

end
