(* ===== verification/Ip4Addr.thy ===== *)
theory Ip4Addr
  imports Netif Chksum CText
begin

text \<open>
  IPv4 addresses (lwip core/ipv4/ip4\_addr.c and the macros of include/lwip/ip4\_addr.h). Addresses
  are 32-bit numbers in network byte order, as in the source; the target is little-endian, so the first
  octet is the lowest byte. The lemmas relate the bit tests to what they mean and the two text
  conversions to each other.
\<close>

section \<open>Kinds of addresses\<close>

definition IPADDR_ANY :: u32 where "IPADDR_ANY = 0"

definition IPADDR_NONE :: u32 where "IPADDR_NONE = 0xffffffff"

definition IPADDR_BROADCAST :: u32 where "IPADDR_BROADCAST = 0xffffffff"

definition ip_addr_netcmp :: "u32 \<Rightarrow> u32 \<Rightarrow> u32 \<Rightarrow> bool" where
  "ip_addr_netcmp a b m \<longleftrightarrow> a AND m = b AND m"

definition ip_addr_isany :: "u32 \<Rightarrow> bool" where
  "ip_addr_isany a \<longleftrightarrow> a = IPADDR_ANY"

definition ip_addr_ismulticast :: "u32 \<Rightarrow> bool" where
  "ip_addr_ismulticast a \<longleftrightarrow> a AND lwip_htonl 0xf0000000 = lwip_htonl 0xe0000000"

definition ip_addr_islinklocal :: "u32 \<Rightarrow> bool" where
  "ip_addr_islinklocal a \<longleftrightarrow> a AND lwip_htonl 0xffff0000 = lwip_htonl 0xa9fe0000"

text \<open>The macros \<^verbatim>\<open>ip4_addr1\<close> to \<^verbatim>\<open>ip4_addr4\<close> read the bytes of the address in memory.\<close>

definition ip4_addr1 :: "u32 \<Rightarrow> u8" where "ip4_addr1 a = le_bytes 4 a ! 0"

definition ip4_addr2 :: "u32 \<Rightarrow> u8" where "ip4_addr2 a = le_bytes 4 a ! 1"

definition ip4_addr3 :: "u32 \<Rightarrow> u8" where "ip4_addr3 a = le_bytes 4 a ! 2"

definition ip4_addr4 :: "u32 \<Rightarrow> u8" where "ip4_addr4 a = le_bytes 4 a ! 3"

definition ip4_addr_isbroadcast :: "u32 \<Rightarrow> 'z netif_state_scheme \<Rightarrow> bool" where
  "ip4_addr_isbroadcast a s =
     (if NOT a = IPADDR_ANY \<or> a = IPADDR_ANY then True
      else if netif_flags s AND NETIF_FLAG_BROADCAST = 0 then False
      else if a = netif_ip_addr s then False
      else if ip_addr_netcmp a (netif_ip_addr s) (netif_netmask s) \<and>
              a AND NOT (netif_netmask s) = IPADDR_BROADCAST AND NOT (netif_netmask s) then True
      else False)"

text \<open>The two loops of \<^verbatim>\<open>ip4_addr_netmask_valid\<close> over the bits from the top, \<open>n\<close> of them left, \<open>mask\<close> being bit \<open>n - 1\<close>.\<close>

primrec first_zero :: "u32 \<Rightarrow> nat \<Rightarrow> nat" where
  "first_zero nm 0 = 0"
| "first_zero nm (Suc n) = (if nm AND push_bit n 1 = 0 then Suc n else first_zero nm n)"

primrec no_one_below :: "u32 \<Rightarrow> nat \<Rightarrow> bool" where
  "no_one_below nm 0 = True"
| "no_one_below nm (Suc n) = (if nm AND push_bit n 1 \<noteq> 0 then False else no_one_below nm n)"

definition ip4_addr_netmask_valid :: "u32 \<Rightarrow> bool" where
  "ip4_addr_netmask_valid netmask = (let nm = lwip_htonl netmask in no_one_below nm (first_zero nm 32))"

section \<open>Reading an address\<close>

text \<open>A string is read up to its end, where the character is the terminating null.\<close>

definition cur :: "string \<Rightarrow> char" where
  "cur cp = (case cp of [] \<Rightarrow> CHR 0x00 | c # _ \<Rightarrow> c)"

definition in_range :: "char \<Rightarrow> nat \<Rightarrow> nat \<Rightarrow> bool" where
  "in_range c lo up \<longleftrightarrow> lo \<le> of_char c \<and> of_char c \<le> up"

definition isdigit :: "char \<Rightarrow> bool" where "isdigit c = in_range c 48 57"

definition isxdigit :: "char \<Rightarrow> bool" where
  "isxdigit c \<longleftrightarrow> isdigit c \<or> in_range c 97 102 \<or> in_range c 65 70"

definition islower :: "char \<Rightarrow> bool" where "islower c = in_range c 97 122"

definition ip_isspace :: "char \<Rightarrow> bool" where
  "ip_isspace c \<longleftrightarrow> c \<in> {CHR '' '', CHR 0x0C, CHR 0x0A, CHR 0x0D, CHR 0x09, CHR 0x0B}"

text \<open>The loop over the digits of one number, the choice of its base, and the loop over the numbers.\<close>

fun aton_digits :: "u32 \<Rightarrow> u32 \<Rightarrow> string \<Rightarrow> u32 \<times> string" where
  "aton_digits base val [] = (val, [])"
| "aton_digits base val (c # cp) =
     (if isdigit c then aton_digits base (val * base + of_nat (of_char c - 48)) cp
      else if base = 16 \<and> isxdigit c then
        aton_digits base (push_bit 4 val OR of_nat (of_char c + 10 - (if islower c then 97 else 65))) cp
      else (val, c # cp))"

definition aton_number :: "string \<Rightarrow> (u32 \<times> string) option" where
  "aton_number cp =
     (if \<not> isdigit (cur cp) then None
      else if cur cp = CHR ''0'' then
        (if cur (tl cp) = CHR ''x'' \<or> cur (tl cp) = CHR ''X'' then Some (aton_digits 16 0 (tl (tl cp)))
         else Some (aton_digits 8 0 (tl cp)))
      else Some (aton_digits 10 0 cp))"

function aton_parts :: "u32 list \<Rightarrow> string \<Rightarrow> (u32 list \<times> u32 \<times> string) option" where
  "aton_parts parts cp =
     (case aton_number cp of
        None \<Rightarrow> None
      | Some (val, cp) \<Rightarrow>
          if cur cp = CHR ''.'' then
            (if length parts \<ge> 3 then None else aton_parts (parts @ [val]) (tl cp))
          else Some (parts, val, cp))"
  by pat_completeness auto
termination by (relation "measure (\<lambda>(parts, cp). 3 - length parts)") auto

declare aton_parts.simps [simp del]

text \<open>The result is the address, \<^const>\<open>None\<close> for the return value 0.\<close>

definition ipaddr_aton :: "string \<Rightarrow> u32 option" where
  "ipaddr_aton cp =
     (case aton_parts [] cp of
        None \<Rightarrow> None
      | Some (parts, val, cp) \<Rightarrow>
          if cur cp \<noteq> CHR 0x00 \<and> \<not> ip_isspace (cur cp) then None
          else map_option lwip_htonl
            (if length parts = 0 then Some val
             else if length parts = 1 then
               (if val > 0xffffff then None else Some (val OR push_bit 24 (parts ! 0)))
             else if length parts = 2 then
               (if val > 0xffff then None else Some (val OR (push_bit 24 (parts ! 0) OR push_bit 16 (parts ! 1))))
             else
               (if val > 0xff then None
                else Some (val OR (push_bit 24 (parts ! 0) OR push_bit 16 (parts ! 1) OR push_bit 8 (parts ! 2))))))"

definition ipaddr_addr :: "string \<Rightarrow> u32" where
  "ipaddr_addr cp = (case ipaddr_aton cp of Some a \<Rightarrow> a | None \<Rightarrow> IPADDR_NONE)"

section \<open>Printing an address\<close>

text \<open>The digits of one octet, last one first, as the \<^verbatim>\<open>do\<close> loop stores them in \<^verbatim>\<open>inv\<close>.\<close>

function inv_digits :: "u8 \<Rightarrow> string" where
  "inv_digits b =
     (let r = b mod 10; b' = b div 10 in digit_char (unat r) # (if b' \<noteq> 0 then inv_digits b' else []))"
  by pat_completeness auto
termination
proof (relation "measure unat")
  fix b r x :: u8
  assume "x = b div 10" "x \<noteq> 0"
  moreover have "unat (b div 10) = unat b div 10" by (simp add: unat_div_distrib)
  ultimately have "unat x = unat b div 10" "unat x \<noteq> 0" using unat_eq_zero [of x] by simp_all
  then show "(x, b) \<in> measure unat" by simp
qed simp

declare inv_digits.simps [simp del]

text \<open>Appending a character to what is in the buffer, when there is room, and the loops over digits and octets.\<close>

definition ntoa_put :: "int \<Rightarrow> string \<Rightarrow> char \<Rightarrow> string option" where
  "ntoa_put buflen buf c = (if int (length buf) \<ge> buflen then None else Some (buf @ [c]))"

fun ntoa_digits :: "int \<Rightarrow> string \<Rightarrow> string \<Rightarrow> string option" where
  "ntoa_digits buflen buf [] = Some buf"
| "ntoa_digits buflen buf (c # cs) =
     (case ntoa_put buflen buf c of None \<Rightarrow> None | Some buf \<Rightarrow> ntoa_digits buflen buf cs)"

fun ntoa_octets :: "int \<Rightarrow> string \<Rightarrow> u8 list \<Rightarrow> string option" where
  "ntoa_octets buflen buf [] = Some buf"
| "ntoa_octets buflen buf (b # bs) =
     (case ntoa_digits buflen buf (rev (inv_digits b)) of
        None \<Rightarrow> None
      | Some buf \<Rightarrow> (case ntoa_put buflen buf CHR ''.'' of None \<Rightarrow> None | Some buf \<Rightarrow> ntoa_octets buflen buf bs))"

text \<open>The last dot is replaced by the terminating null; the result is the text before it.\<close>

definition ipaddr_ntoa_r :: "u32 \<Rightarrow> int \<Rightarrow> string option" where
  "ipaddr_ntoa_r a buflen = map_option butlast (ntoa_octets buflen [] (le_bytes 4 a))"

definition ipaddr_ntoa :: "u32 \<Rightarrow> string option" where
  "ipaddr_ntoa a = ipaddr_ntoa_r a 16"

section \<open>The two conversions\<close>

lemma unat_div10: "unat (b div 10) = unat b div 10" "unat (b mod 10) = unat b mod 10" for b :: u8
  by (simp_all add: unat_div_distrib unat_mod_distrib)

lemma rev_inv_digits: "rev (inv_digits b) = dec_nat (unat b)"
proof (induction b rule: inv_digits.induct)
  case (1 b)
  have "b div 10 \<noteq> 0 \<longleftrightarrow> \<not> unat b < 10"
    using unat_div10(1) [of b] by (auto simp: div_eq_0_iff unat_eq_zero [symmetric])
  then show ?case
    using 1 by (subst inv_digits.simps, subst dec_nat.simps) (simp add: Let_def unat_div10)
qed

text \<open>The digits of an octet fit \<^verbatim>\<open>inv\<close>, an array of three characters.\<close>

lemma length_inv_digits: "length (inv_digits b) \<le> 3"
  using length_dec_nat [of "unat b" 3] byte_less [of b] rev_inv_digits [of b] length_rev [of "inv_digits b"] by simp

lemma ntoa_digits_run:
  "ntoa_digits buflen buf cs = (if cs = [] \<or> int (length buf + length cs) \<le> buflen then Some (buf @ cs) else None)"
  by (induction cs arbitrary: buf) (auto simp: ntoa_put_def)

definition dotted_octets :: "nat list \<Rightarrow> string" where
  "dotted_octets ns = concat (map (\<lambda>n. dec_nat n @ ''.'') ns)"

lemma dotted_octets_simps [simp]:
  "dotted_octets [] = []" "dotted_octets (n # ns) = dec_nat n @ CHR ''.'' # dotted_octets ns"
  by (simp_all add: dotted_octets_def)

lemma ntoa_octets_run:
  "ntoa_octets buflen buf bs =
     (if bs = [] \<or> int (length buf + length (dotted_octets (map unat bs))) \<le> buflen
      then Some (buf @ dotted_octets (map unat bs)) else None)"
  by (induction bs arbitrary: buf) (auto simp: ntoa_digits_run ntoa_put_def rev_inv_digits)

text \<open>Dotted decimal notation.\<close>

definition dotted_quad :: "nat \<Rightarrow> nat \<Rightarrow> nat \<Rightarrow> nat \<Rightarrow> string" where
  "dotted_quad a b c d = dec_nat a @ ''.'' @ dec_nat b @ ''.'' @ dec_nat c @ ''.'' @ dec_nat d"

lemma dotted_octets_4: "dotted_octets [a, b, c, d] = dotted_quad a b c d @ ''.''"
  by (simp add: dotted_quad_def)

lemma isdigit_digit: "isdigit c \<longleftrightarrow> is_digit c"
proof
  assume "isdigit c"
  then have "48 \<le> (of_char c :: nat)" "(of_char c :: nat) \<le> 57" by (simp_all add: isdigit_def in_range_def)
  then have "c = digit_char (of_char c - 48)" "of_char c - 48 < (10 :: nat)" by (simp_all add: digit_char_def)
  then show "is_digit c" unfolding is_digit_def by blast
qed (auto simp: isdigit_def in_range_def is_digit_def of_char_digit)

lemma aton_digits_step: "d < 10 \<Longrightarrow> aton_digits base val (digit_char d # cp) = aton_digits base (val * base + of_nat d) cp"
  by (simp add: isdigit_def in_range_def of_char_digit)

lemma aton_digits_dec: "aton_digits 10 0 (dec_nat n @ cp) = aton_digits 10 (of_nat n) cp"
proof (induction n arbitrary: cp rule: dec_nat.induct)
  case (1 n)
  show ?case
  proof (cases "n < 10")
    case True
    then show ?thesis by (simp add: dec_nat.simps [of n] aton_digits_step del: aton_digits.simps)
  next
    case False
    have "of_nat (n div 10) * 10 + of_nat (n mod 10) = (of_nat n :: u32)"
      by (metis div_mult_mod_eq of_nat_add of_nat_mult of_nat_numeral)
    with False 1 show ?thesis by (simp add: dec_nat.simps [of n] aton_digits_step del: aton_digits.simps)
  qed
qed

definition number_ends :: "string \<Rightarrow> bool" where
  "number_ends cp \<longleftrightarrow> cp = [] \<or> (\<exists>r. cp = CHR ''.'' # r)"

lemma aton_number_dec:
  assumes "number_ends cp"
  shows "aton_number (dec_nat n @ cp) = Some (of_nat n, cp)"
proof -
  have stop: "aton_digits base v cp = (v, cp)" for base v
    using assms by (auto simp: number_ends_def isdigit_def isxdigit_def in_range_def)
  have nox: "cur cp \<noteq> CHR ''x''" "cur cp \<noteq> CHR ''X''" using assms by (auto simp: number_ends_def cur_def)
  obtain c cs where c: "dec_nat n = c # cs" by (cases "dec_nat n") auto
  then have dig: "isdigit c" using dec_nat_digits [of c n] by (simp add: isdigit_digit)
  show ?thesis
  proof (cases "n = 0")
    case True
    then have "dec_nat n = [CHR ''0'']" by (simp add: dec_nat.simps [of 0] digit_char_eq_iff)
    then show ?thesis using stop nox True by (simp add: aton_number_def cur_def [of "CHR ''0'' # cp"] isdigit_def in_range_def)
  next
    case False
    then have "c \<noteq> CHR ''0''" using hd_dec_nat [of n] c by (auto simp: digit_char_eq_iff)
    with dig c have "aton_number (dec_nat n @ cp) = Some (aton_digits 10 0 (dec_nat n @ cp))"
      by (simp add: aton_number_def cur_def)
    then show ?thesis using stop by (simp add: aton_digits_dec)
  qed
qed

lemma aton_parts_dot: "length parts < 3 \<Longrightarrow> aton_parts parts (dec_nat n @ CHR ''.'' # cp) = aton_parts (parts @ [of_nat n]) cp"
  using aton_number_dec [of "CHR ''.'' # cp" n]
  by (subst aton_parts.simps) (simp add: number_ends_def cur_def)

lemma aton_parts_last: "aton_parts parts (dec_nat n) = Some (parts, of_nat n, [])"
  using aton_number_dec [of "[]" n] by (subst aton_parts.simps) (simp add: number_ends_def cur_def)

text \<open>What is read from four decimal numbers of any size.\<close>

lemma aton_dotted:
  "ipaddr_aton (dotted_quad a b c d) =
     (if (of_nat d :: u32) > 0xff then None
      else Some (lwip_htonl (of_nat d OR (push_bit 24 (of_nat a) OR push_bit 16 (of_nat b) OR push_bit 8 (of_nat c)))))"
  by (simp add: ipaddr_aton_def dotted_quad_def aton_parts_dot aton_parts_last cur_def numeral_3_eq_3)

lemma le_bytes_4: "le_bytes 4 w = [ucast w, ucast (drop_bit 8 w), ucast (drop_bit 16 w), ucast (drop_bit 24 w)]"
  by (simp add: numeral_eq_Suc flip: drop_bit_Suc)

lemma octet_simps:
  "ip4_addr1 a = ucast a" "ip4_addr2 a = ucast (drop_bit 8 a)" "ip4_addr3 a = ucast (drop_bit 16 a)" "ip4_addr4 a = ucast (drop_bit 24 a)"
  by (simp_all add: ip4_addr1_def ip4_addr2_def ip4_addr3_def ip4_addr4_def le_bytes_4)

lemma htonl_octets:
  "lwip_htonl (of_nat (unat (ip4_addr4 a)) OR (push_bit 24 (of_nat (unat (ip4_addr1 a))) OR
     push_bit 16 (of_nat (unat (ip4_addr2 a))) OR push_bit 8 (of_nat (unat (ip4_addr3 a))))) = a"
proof (rule bit_word_eqI)
  fix k assume "k < LENGTH(32)"
  then have "k < 32" by simp
  then consider "k < 8" | "8 \<le> k" "k < 16" | "16 \<le> k" "k < 24" | "24 \<le> k" "k < 32" by linarith
  then show "bit (lwip_htonl (of_nat (unat (ip4_addr4 a)) OR (push_bit 24 (of_nat (unat (ip4_addr1 a))) OR
     push_bit 16 (of_nat (unat (ip4_addr2 a))) OR push_bit 8 (of_nat (unat (ip4_addr3 a)))))) k = bit a k"
    by cases (auto simp: bit_htonl octet_simps bit_simps)
qed

lemma ntoa_r_run:
  "ipaddr_ntoa_r a buflen =
     (let txt = dotted_quad (unat (ip4_addr1 a)) (unat (ip4_addr2 a)) (unat (ip4_addr3 a)) (unat (ip4_addr4 a))
      in if int (length txt) < buflen then Some txt else None)"
  by (simp add: ipaddr_ntoa_r_def le_bytes_4 ntoa_octets_run octet_simps dotted_octets_4 Let_def del: dotted_octets_simps)

lemma length_dotted: "a < 256 \<Longrightarrow> b < 256 \<Longrightarrow> c < 256 \<Longrightarrow> d < 256 \<Longrightarrow> length (dotted_quad a b c d) \<le> 15"
  using length_dec_nat [of a 3] length_dec_nat [of b 3] length_dec_nat [of c 3] length_dec_nat [of d 3] by (simp add: dotted_quad_def)

text \<open>
  C31. Printing and reading an address: \<^verbatim>\<open>ipaddr_ntoa_r\<close> writes the four octets in dotted_quad decimal notation
  exactly when the text and its terminating null fit the buffer, returns null otherwise and never writes behind the
  buffer; the buffer of \<^verbatim>\<open>ipaddr_ntoa\<close> is always large enough; and \<^verbatim>\<open>ipaddr_aton\<close> reads the text
  back as the address it was printed from.
\<close>

theorem ipaddr_text_roundtrip:
  "ipaddr_ntoa_r a buflen =
     (let txt = dotted_quad (unat (ip4_addr1 a)) (unat (ip4_addr2 a)) (unat (ip4_addr3 a)) (unat (ip4_addr4 a))
      in if int (length txt) < buflen then Some txt else None) \<and>
   (\<exists>txt. ipaddr_ntoa a = Some txt \<and> length txt < 16 \<and> ipaddr_aton txt = Some a \<and> ipaddr_addr txt = a)"
proof -
  let ?t = "dotted_quad (unat (ip4_addr1 a)) (unat (ip4_addr2 a)) (unat (ip4_addr3 a)) (unat (ip4_addr4 a))"
  have "length ?t \<le> 15" by (intro length_dotted byte_less)
  moreover have "(of_nat (unat (ip4_addr4 a)) :: u32) \<le> 0xff"
    using byte_less [of "ip4_addr4 a"] by (simp only: word_le_nat_alt unat_of_nat) simp
  then have "ipaddr_aton ?t = Some a" by (simp only: aton_dotted htonl_octets if_False not_less [symmetric] not_True_eq_False)
  ultimately show ?thesis by (simp add: ntoa_r_run ipaddr_ntoa_def ipaddr_addr_def Let_def)
qed

text \<open>
  Of an address in dotted_quad decimal notation only the last number is checked to be an octet: a first
  number is taken modulo 256, and a second one above 255 changes the first octet.
\<close>

lemma aton_first_number_wraps: "ipaddr_aton (dotted_quad (a + 256 * k) b c d) = ipaddr_aton (dotted_quad a b c d)"
proof -
  have "(2 ^ 24 * (of_nat a + 256 * of_nat k) :: u32) = 2 ^ 24 * of_nat a + 2 ^ 32 * of_nat k" by (simp add: algebra_simps)
  also have "(2 ^ 32 :: u32) = 0" by simp
  finally have "push_bit 24 (of_nat (a + 256 * k) :: u32) = push_bit 24 (of_nat a)" by (simp add: push_bit_eq_mult mult.commute)
  then show ?thesis by (simp only: aton_dotted)
qed

lemma aton_second_number_spills: "ipaddr_aton (dotted_quad 10 256 0 1) = Some (IP4_ADDR 11 0 0 1)"
  by (simp add: aton_dotted) code_simp

section \<open>Netmasks\<close>

lemma and_bit_iff: "nm AND 2 ^ n = 0 \<longleftrightarrow> \<not> bit nm n" "nm AND 1 = 0 \<longleftrightarrow> \<not> bit nm 0" for nm :: u32
  using bit_iff_and_push_bit_not_eq_0 [of nm n] bit_iff_and_push_bit_not_eq_0 [of nm 0] by (simp_all add: push_bit_eq_mult)

lemma no_one_below_iff: "no_one_below nm n \<longleftrightarrow> (\<forall>i < n. \<not> bit nm i)"
  by (induction n) (auto simp: and_bit_iff less_Suc_eq)

lemma first_zero_spec:
  "first_zero nm n \<le> n \<and> (\<forall>i. first_zero nm n \<le> i \<and> i < n \<longrightarrow> bit nm i) \<and>
     (first_zero nm n \<noteq> 0 \<longrightarrow> \<not> bit nm (first_zero nm n - 1))"
  by (induction n) (auto simp: and_bit_iff less_Suc_eq)

text \<open>
  C32. A netmask is accepted exactly when, in host byte order, it is a number of ones followed by zeros
  only: for some prefix length up to 32 it is the mask of that prefix.
\<close>

theorem netmask_valid_iff_prefix:
  "ip4_addr_netmask_valid netmask \<longleftrightarrow> (\<exists>k \<le> 32. lwip_htonl netmask = NOT (mask (32 - k)))"
proof -
  let ?nm = "lwip_htonl netmask"
  let ?z = "first_zero ?nm 32"
  have z: "?z \<le> 32" "\<And>i. ?z \<le> i \<Longrightarrow> i < 32 \<Longrightarrow> bit ?nm i" "?z \<noteq> 0 \<Longrightarrow> \<not> bit ?nm (?z - 1)"
    using first_zero_spec [of ?nm 32] by blast+
  have "ip4_addr_netmask_valid netmask \<longleftrightarrow> (\<forall>i < ?z. \<not> bit ?nm i)"
    by (simp add: ip4_addr_netmask_valid_def Let_def no_one_below_iff)
  also have "\<dots> \<longleftrightarrow> (\<exists>k \<le> 32. ?nm = NOT (mask (32 - k)))"
  proof
    assume "\<forall>i < ?z. \<not> bit ?nm i"
    then have "?nm = NOT (mask ?z)" using z(2) by (intro bit_word_eqI) (auto simp: bit_simps)
    then show "\<exists>k \<le> 32. ?nm = NOT (mask (32 - k))" using z(1) by (intro exI [of _ "32 - ?z"]) simp
  next
    assume "\<exists>k \<le> 32. ?nm = NOT (mask (32 - k))"
    then obtain k where k: "k \<le> 32" "\<And>i. i < 32 \<Longrightarrow> bit ?nm i \<longleftrightarrow> 32 - k \<le> i" by (auto simp: bit_simps not_less)
    have "?z \<le> 32 - k" using z(1,3) k by (cases "?z = 0") fastforce+
    with k show "\<forall>i < ?z. \<not> bit ?nm i" by auto
  qed
  finally show ?thesis .
qed

section \<open>Broadcast\<close>

text \<open>Without \<^verbatim>\<open>NETIF_FLAG_BROADCAST\<close>, which the Ethernet driver does not set, only the two fixed addresses are broadcast.\<close>

lemma broadcast_without_flag:
  "netif_flags s AND NETIF_FLAG_BROADCAST = 0 \<Longrightarrow> ip4_addr_isbroadcast a s \<longleftrightarrow> a = IPADDR_ANY \<or> a = IPADDR_BROADCAST"
proof -
  have m1: "(- 1 :: u32) = 0xffffffff" by simp
  have "NOT a = 0 \<longleftrightarrow> a = 0xffffffff" for a :: u32 by (metis bit.double_compl bit.compl_zero m1)
  then show "netif_flags s AND NETIF_FLAG_BROADCAST = 0 \<Longrightarrow> ?thesis"
    by (auto simp: ip4_addr_isbroadcast_def IPADDR_ANY_def IPADDR_BROADCAST_def)
qed

end
