(* ===== verification/Pbuf.thy ===== *)
theory Pbuf
  imports Net
begin

text \<open>
  The packet buffers of lwIP (core/pbuf.c) as this target is configured: memory comes from the C
  library (\<^verbatim>\<open>MEM_LIBC_MALLOC\<close>, \<^verbatim>\<open>MEMP_MEM_MALLOC\<close>), so an allocation is a call of \<^verbatim>\<open>malloc\<close>, a parameter of the
  model. Buffers live in an explicit store from addresses to structures, because chains share
  buffers through reference counts; payload bytes live in a second store of memory blocks.
\<close>

section \<open>Store\<close>

datatype pbuf_layer = PBUF_TRANSPORT | PBUF_IP | PBUF_LINK | PBUF_RAW

datatype pbuf_type = PBUF_RAM | PBUF_ROM | PBUF_REF | PBUF_POOL

text \<open>
  A pointer to a \<^verbatim>\<open>struct pbuf\<close> is its address, 0 being \<^verbatim>\<open>NULL\<close>. A payload pointer is a block and an
  offset into it; the block that belongs to a buffer has the address of the buffer and begins
  behind its structure.
\<close>

type_synonym addr = nat

record pbuf =
  pnext :: addr
  payload :: "(addr \<times> int) option"
  tot_len :: u16
  len :: u16
  ptype :: pbuf_type
  flags :: u8
  ref :: u16

record pbuf_state = net_state +
  pbufs :: "addr \<rightharpoonup> pbuf"
  blocks :: "addr \<rightharpoonup> u8 list"
  mallocs :: nat
  pbuf_free_ooseq_pending :: bool

text \<open>
  \<^verbatim>\<open>malloc\<close>: by the live memory, the number of calls so far and the size, an address (0 for none) and the
  bytes found there.
\<close>

type_synonym malloc = "(addr \<rightharpoonup> pbuf) \<Rightarrow> (addr \<rightharpoonup> u8 list) \<Rightarrow> nat \<Rightarrow> nat \<Rightarrow> addr \<times> u8 list"

definition LWIP_MEM_ALIGN_SIZE :: "nat \<Rightarrow> nat" where
  "LWIP_MEM_ALIGN_SIZE n = (n + 3) div 4 * 4"

definition LWIP_MEM_ALIGN :: "addr \<Rightarrow> addr" where
  "LWIP_MEM_ALIGN a = (a + 3) div 4 * 4"

definition SIZEOF_STRUCT_PBUF :: nat where "SIZEOF_STRUCT_PBUF = LWIP_MEM_ALIGN_SIZE 16"

definition PBUF_LINK_HLEN :: nat where "PBUF_LINK_HLEN = 14"

definition PBUF_IP_HLEN :: nat where "PBUF_IP_HLEN = 20"

definition PBUF_TRANSPORT_HLEN :: nat where "PBUF_TRANSPORT_HLEN = 20"

definition PBUF_POOL_BUFSIZE :: nat where "PBUF_POOL_BUFSIZE = LWIP_MEM_ALIGN_SIZE (1500 + 40 + PBUF_LINK_HLEN)"

definition PBUF_POOL_BUFSIZE_ALIGNED :: nat where "PBUF_POOL_BUFSIZE_ALIGNED = LWIP_MEM_ALIGN_SIZE PBUF_POOL_BUFSIZE"

definition memp_size_PBUF :: nat where "memp_size_PBUF = LWIP_MEM_ALIGN_SIZE (LWIP_MEM_ALIGN_SIZE 16 + LWIP_MEM_ALIGN_SIZE 0)"

definition memp_size_PBUF_POOL :: nat where
  "memp_size_PBUF_POOL = LWIP_MEM_ALIGN_SIZE (LWIP_MEM_ALIGN_SIZE 16 + LWIP_MEM_ALIGN_SIZE PBUF_POOL_BUFSIZE)"

lemmas pbuf_consts = LWIP_MEM_ALIGN_SIZE_def SIZEOF_STRUCT_PBUF_def PBUF_LINK_HLEN_def PBUF_IP_HLEN_def PBUF_TRANSPORT_HLEN_def
  PBUF_POOL_BUFSIZE_def PBUF_POOL_BUFSIZE_ALIGNED_def memp_size_PBUF_def memp_size_PBUF_POOL_def

definition lwip_assert :: "string \<Rightarrow> bool \<Rightarrow> ('z hw_scheme, unit) prog" where
  "lwip_assert msg b = whenM (\<not> b) (lwip_assert_fails msg)"

text \<open>Reading and writing the structure at an address.\<close>

definition deref :: "addr \<Rightarrow> ('z pbuf_state_scheme, pbuf) prog" where
  "deref p =
     bindM (gets (\<lambda>s. pbufs s p)) (\<lambda>v. case v of None \<Rightarrow> halt_with (Undefined ''pbuf'') | Some b \<Rightarrow> ret b)"

definition store :: "addr \<Rightarrow> (pbuf \<Rightarrow> pbuf) \<Rightarrow> ('z pbuf_state_scheme, unit) prog" where
  "store p f = bindM (deref p) (\<lambda>b. modify (\<lambda>s. s\<lparr>pbufs := (pbufs s)(p \<mapsto> f b)\<rparr>))"

text \<open>Reading and writing \<open>n\<close> bytes at a payload pointer plus an offset (\<^verbatim>\<open>MEMCPY\<close>).\<close>

definition in_block :: "(addr \<rightharpoonup> u8 list) \<Rightarrow> (addr \<times> int) option \<Rightarrow> nat \<Rightarrow> bool" where
  "in_block bl pl n =
     (case pl of None \<Rightarrow> False
      | Some (k, ofs) \<Rightarrow> (case bl k of None \<Rightarrow> False | Some d \<Rightarrow> 0 \<le> ofs \<and> nat ofs + n \<le> length d))"

definition block_read :: "(addr \<rightharpoonup> u8 list) \<Rightarrow> (addr \<times> int) option \<Rightarrow> nat \<Rightarrow> u8 list" where
  "block_read bl pl n =
     (case pl of None \<Rightarrow> [] | Some (k, ofs) \<Rightarrow> (case bl k of None \<Rightarrow> [] | Some d \<Rightarrow> take n (drop (nat ofs) d)))"

definition overwrite :: "nat \<Rightarrow> u8 list \<Rightarrow> u8 list \<Rightarrow> u8 list" where
  "overwrite i bs d = take i d @ bs @ drop (i + length bs) d"

definition block_write :: "(addr \<times> int) option \<Rightarrow> u8 list \<Rightarrow> (addr \<rightharpoonup> u8 list) \<Rightarrow> addr \<rightharpoonup> u8 list" where
  "block_write pl bs bl =
     (case pl of None \<Rightarrow> bl
      | Some (k, ofs) \<Rightarrow> (case bl k of None \<Rightarrow> bl | Some d \<Rightarrow> bl(k \<mapsto> overwrite (nat ofs) bs d)))"

definition ptr_add :: "(addr \<times> int) option \<Rightarrow> int \<Rightarrow> (addr \<times> int) option" where
  "ptr_add pl i = map_option (\<lambda>(k, ofs). (k, ofs + i)) pl"

definition memcpy_from :: "(addr \<times> int) option \<Rightarrow> nat \<Rightarrow> ('z pbuf_state_scheme, u8 list) prog" where
  "memcpy_from pl n =
     (if n = 0 then ret []
      else bindM (gets blocks) (\<lambda>bl. if in_block bl pl n then ret (block_read bl pl n) else halt_with (Undefined ''payload'')))"

definition memcpy_to :: "(addr \<times> int) option \<Rightarrow> u8 list \<Rightarrow> ('z pbuf_state_scheme, unit) prog" where
  "memcpy_to pl bs =
     (if bs = [] then ret ()
      else bindM (gets blocks) (\<lambda>bl. if in_block bl pl (length bs) then modify (\<lambda>s. s\<lparr>blocks := block_write pl bs bl\<rparr>)
        else halt_with (Undefined ''payload'')))"

section \<open>Memory\<close>

definition mem_malloc :: "malloc \<Rightarrow> nat \<Rightarrow> ('z pbuf_state_scheme, addr \<times> u8 list) prog" where
  "mem_malloc M sz =
     bindM (gets (\<lambda>s. M (pbufs s) (blocks s) (mallocs s) sz)) (\<lambda>r.
     thenM (modify (\<lambda>s. s\<lparr>mallocs := mallocs s + 1\<rparr>)) (ret r))"

definition mem_free :: "addr \<Rightarrow> ('z pbuf_state_scheme, unit) prog" where
  "mem_free p =
     thenM (deref p) (modify (\<lambda>s. s\<lparr>pbufs := (pbufs s)(p := None), blocks := (blocks s)(p := None)\<rparr>))"

text \<open>The fields set on a new structure, and the block behind it.\<close>

definition new_pbuf :: "addr \<Rightarrow> u8 list \<Rightarrow> pbuf \<Rightarrow> ('z pbuf_state_scheme, unit) prog" where
  "new_pbuf p mem b =
     modify (\<lambda>s. s\<lparr>pbufs := (pbufs s)(p \<mapsto> b), blocks := (blocks s)(p \<mapsto> drop SIZEOF_STRUCT_PBUF mem)\<rparr>)"

section \<open>Reference counts\<close>

text \<open>
  The loop of \<^verbatim>\<open>pbuf_free\<close>. A chain may be cyclic, so the loop is given a number of rounds and running out of them is
  the outcome \<^const>\<open>Hang\<close>, here and in the loops below.
\<close>

primrec free_loop :: "nat \<Rightarrow> addr \<Rightarrow> u8 \<Rightarrow> ('z pbuf_state_scheme, u8) prog" where
  "free_loop 0 p cnt = halt_with Hang"
| "free_loop (Suc n) p cnt =
     (if p = 0 then ret cnt
      else
        bindM (deref p) (\<lambda>b.
        thenM (lwip_assert ''pbuf_free: p->ref > 0'' (ref b > 0))
       (thenM (store p (\<lambda>b. b\<lparr>ref := ref b - 1\<rparr>))
          (if ref b - 1 = 0 then thenM (mem_free p) (free_loop n (pnext b) (cnt + 1)) else ret cnt))))"

definition pbuf_free :: "nat \<Rightarrow> addr \<Rightarrow> ('z pbuf_state_scheme, u8) prog" where
  "pbuf_free n p =
     (if p = 0 then lwip_assert_fails ''p != NULL'' else thenM (deref p) (free_loop n p 0))"

definition pbuf_ref :: "addr \<Rightarrow> ('z pbuf_state_scheme, unit) prog" where
  "pbuf_ref p = whenM (p \<noteq> 0) (store p (\<lambda>b. b\<lparr>ref := ref b + 1\<rparr>))"

section \<open>Allocation\<close>

definition pbuf_pool_is_empty :: "('z pbuf_state_scheme, unit) prog" where
  "pbuf_pool_is_empty = modify (\<lambda>s. s\<lparr>pbuf_free_ooseq_pending := True\<rparr>)"

definition header_offset :: "pbuf_layer \<Rightarrow> nat" where
  "header_offset layer =
     (case layer of
        PBUF_TRANSPORT \<Rightarrow> PBUF_LINK_HLEN + PBUF_IP_HLEN + PBUF_TRANSPORT_HLEN
      | PBUF_IP \<Rightarrow> PBUF_LINK_HLEN + PBUF_IP_HLEN
      | PBUF_LINK \<Rightarrow> PBUF_LINK_HLEN
      | PBUF_RAW \<Rightarrow> 0)"

text \<open>\<^verbatim>\<open>p->payload + p->len <= p + SIZEOF_STRUCT_PBUF + PBUF_POOL_BUFSIZE_ALIGNED\<close> for a payload in the buffer's own block.\<close>

definition within_pool :: "pbuf \<Rightarrow> bool" where
  "within_pool b = (case payload b of None \<Rightarrow> True | Some (k, ofs) \<Rightarrow> ofs + int (unat (len b)) \<le> int PBUF_POOL_BUFSIZE_ALIGNED)"

text \<open>The loop that allocates the rest of a pool chain, \<open>r\<close> being its last buffer and \<open>rem\<close> the bytes still missing.\<close>

function alloc_tail :: "malloc \<Rightarrow> nat \<Rightarrow> addr \<Rightarrow> addr \<Rightarrow> nat \<Rightarrow> ('z pbuf_state_scheme, addr) prog" where
  "alloc_tail M n p r rem =
     (if rem = 0 then ret p
      else
        bindM (mem_malloc M memp_size_PBUF_POOL) (\<lambda>(q, mem).
          if q = 0 then thenM pbuf_pool_is_empty (thenM (pbuf_free n p) (ret 0))
          else if rem < 0xffff then
            (let l = min rem PBUF_POOL_BUFSIZE_ALIGNED in
             thenM (new_pbuf q mem \<lparr>pnext = 0, payload = Some (q, 0), tot_len = of_nat rem, len = of_nat l,
                                     ptype = PBUF_POOL, flags = 0, ref = 1\<rparr>)
            (thenM (store r (\<lambda>b. b\<lparr>pnext := q\<rparr>))
            (thenM (lwip_assert ''pbuf_alloc: pbuf q->payload properly aligned'' ((q + SIZEOF_STRUCT_PBUF) mod 4 = 0))
            (thenM (bindM (deref p) (\<lambda>b. lwip_assert ''check p->payload + p->len does not overflow pbuf''
                      (within_pool b)))
                   (alloc_tail M n p q (rem - l))))))
          else lwip_assert_fails ''rem_len < max_u16_t''))"
  by pat_completeness auto
termination
  by (relation "measure (\<lambda>(_, _, _, _, rem). rem)") (auto simp: pbuf_consts)

declare alloc_tail.simps [simp del]

definition pbuf_alloc_pool :: "malloc \<Rightarrow> nat \<Rightarrow> nat \<Rightarrow> u16 \<Rightarrow> ('z pbuf_state_scheme, addr) prog" where
  "pbuf_alloc_pool M n offset lg =
     bindM (mem_malloc M memp_size_PBUF_POOL) (\<lambda>(p, mem).
       if p = 0 then thenM pbuf_pool_is_empty (ret 0)
       else
         let pl = int (LWIP_MEM_ALIGN (p + (SIZEOF_STRUCT_PBUF + offset))) - int (p + SIZEOF_STRUCT_PBUF);
             l = min (unat lg) (PBUF_POOL_BUFSIZE_ALIGNED - LWIP_MEM_ALIGN_SIZE offset) in
         thenM (new_pbuf p mem \<lparr>pnext = 0, payload = Some (p, pl), tot_len = lg, len = of_nat l,
                                 ptype = PBUF_POOL, flags = 0, ref = 1\<rparr>)
        (thenM (lwip_assert ''pbuf_alloc: pbuf p->payload properly aligned''
                 (LWIP_MEM_ALIGN (p + (SIZEOF_STRUCT_PBUF + offset)) mod 4 = 0))
        (thenM (lwip_assert ''check p->payload + p->len does not overflow pbuf'' (pl + int l \<le> int PBUF_POOL_BUFSIZE_ALIGNED))
        (thenM (lwip_assert ''PBUF_POOL_BUFSIZE must be bigger than MEM_ALIGNMENT''
                 (PBUF_POOL_BUFSIZE_ALIGNED - LWIP_MEM_ALIGN_SIZE offset > 0))
               (alloc_tail M n p p (unat lg - l))))))"

definition pbuf_alloc_ram :: "malloc \<Rightarrow> nat \<Rightarrow> u16 \<Rightarrow> ('z pbuf_state_scheme, addr) prog" where
  "pbuf_alloc_ram M offset lg =
     bindM (mem_malloc M (LWIP_MEM_ALIGN_SIZE (SIZEOF_STRUCT_PBUF + offset) + LWIP_MEM_ALIGN_SIZE (unat lg))) (\<lambda>(p, mem).
       if p = 0 then ret 0
       else
         let a = LWIP_MEM_ALIGN (p + SIZEOF_STRUCT_PBUF + offset) in
         thenM (new_pbuf p mem \<lparr>pnext = 0, payload = Some (p, int a - int (p + SIZEOF_STRUCT_PBUF)), tot_len = lg, len = lg,
                                 ptype = PBUF_RAM, flags = 0, ref = 1\<rparr>)
        (thenM (lwip_assert ''pbuf_alloc: pbuf->payload properly aligned'' (a mod 4 = 0))
               (ret p)))"

definition pbuf_alloc_ref :: "malloc \<Rightarrow> u16 \<Rightarrow> pbuf_type \<Rightarrow> ('z pbuf_state_scheme, addr) prog" where
  "pbuf_alloc_ref M lg ty =
     bindM (mem_malloc M memp_size_PBUF) (\<lambda>(p, mem).
       if p = 0 then ret 0
       else
         thenM (new_pbuf p mem \<lparr>pnext = 0, payload = None, tot_len = lg, len = lg, ptype = ty, flags = 0, ref = 1\<rparr>)
               (ret p))"

text \<open>The \<^verbatim>\<open>default\<close> branches of the two switches are unreachable: layer and type are enumerations.\<close>

definition pbuf_alloc :: "malloc \<Rightarrow> nat \<Rightarrow> pbuf_layer \<Rightarrow> u16 \<Rightarrow> pbuf_type \<Rightarrow> ('z pbuf_state_scheme, addr) prog" where
  "pbuf_alloc M n layer lg ty =
     (let offset = header_offset layer in
      case ty of
        PBUF_POOL \<Rightarrow> pbuf_alloc_pool M n offset lg
      | PBUF_RAM \<Rightarrow> pbuf_alloc_ram M offset lg
      | _ \<Rightarrow> pbuf_alloc_ref M lg ty)"

section \<open>Lengths and headers\<close>

definition ERR_OK :: int where "ERR_OK = 0"

definition ERR_MEM :: int where "ERR_MEM = - 1"

definition ERR_VAL :: int where "ERR_VAL = - 6"

definition ERR_ARG :: int where "ERR_ARG = - 14"

lemmas err_consts = ERR_OK_def ERR_MEM_def ERR_VAL_def ERR_ARG_def

primrec realloc_loop :: "nat \<Rightarrow> addr \<Rightarrow> u16 \<Rightarrow> u16 \<Rightarrow> ('z pbuf_state_scheme, addr \<times> u16) prog" where
  "realloc_loop 0 q rem_len grow = halt_with Hang"
| "realloc_loop (Suc n) q rem_len grow =
     bindM (deref q) (\<lambda>b.
       if rem_len > len b then
         thenM (store q (\<lambda>b. b\<lparr>tot_len := tot_len b + grow\<rparr>))
        (thenM (lwip_assert ''pbuf_realloc: q != NULL'' (pnext b \<noteq> 0))
               (realloc_loop n (pnext b) (rem_len - len b) grow))
       else ret (q, rem_len))"

text \<open>\<^verbatim>\<open>mem_trim\<close> is the identity on this target; \<open>grow\<close> is \<^verbatim>\<open>(u16_t)(new_len - p->tot_len)\<close>.\<close>

definition pbuf_realloc :: "nat \<Rightarrow> addr \<Rightarrow> u16 \<Rightarrow> ('z pbuf_state_scheme, unit) prog" where
  "pbuf_realloc n p new_len =
     thenM (lwip_assert ''pbuf_realloc: p != NULL'' (p \<noteq> 0))
    (bindM (deref p) (\<lambda>b.
       if new_len \<ge> tot_len b then ret ()
       else
         bindM (realloc_loop n p new_len (new_len - tot_len b)) (\<lambda>(q, rem_len).
         thenM (store q (\<lambda>b. b\<lparr>len := rem_len, tot_len := rem_len\<rparr>))
        (bindM (deref q) (\<lambda>b.
         thenM (whenM (pnext b \<noteq> 0) (thenM (pbuf_free n (pnext b)) (ret ())))
               (store q (\<lambda>b. b\<lparr>pnext := 0\<rparr>)))))))"

text \<open>Moving the payload pointer back by \<open>inc\<close> bytes.\<close>

definition move_header :: "int \<Rightarrow> pbuf \<Rightarrow> pbuf" where
  "move_header inc b =
     b\<lparr>payload := ptr_add (payload b) (- inc), len := len b + word_of_int inc, tot_len := tot_len b + word_of_int inc\<rparr>"

text \<open>
  \<open>inc\<close> is an \<^verbatim>\<open>s16_t\<close>. The boundary check compares the payload pointer with the address behind the structure,
  which has a meaning in C only when the payload is in the buffer's own block.
\<close>

definition pbuf_header_impl :: "addr \<Rightarrow> int \<Rightarrow> bool \<Rightarrow> ('z pbuf_state_scheme, u8) prog" where
  "pbuf_header_impl p inc force =
     thenM (lwip_assert ''p != NULL'' (p \<noteq> 0))
       (if inc = 0 then ret 0
        else
          bindM (deref p) (\<lambda>b.
          thenM (whenM (inc < 0) (lwip_assert ''increment_magnitude <= p->len'' (word_of_int (- inc) \<le> len b)))
            (if ptype b = PBUF_RAM \<or> ptype b = PBUF_POOL then
               (case payload b of
                  Some (k, ofs) \<Rightarrow>
                    if k = p then (if ofs - inc < 0 then ret 1 else thenM (store p (move_header inc)) (ret 0))
                    else halt_with (Undefined ''payload'')
                | None \<Rightarrow> halt_with (Undefined ''payload''))
             else if inc < 0 \<and> word_of_int (- inc) \<le> len b \<or> inc > 0 \<and> force then thenM (store p (move_header inc)) (ret 0)
             else ret 1)))"

definition pbuf_header :: "addr \<Rightarrow> int \<Rightarrow> ('z pbuf_state_scheme, u8) prog" where
  "pbuf_header p inc = pbuf_header_impl p inc False"

definition pbuf_header_force :: "addr \<Rightarrow> int \<Rightarrow> ('z pbuf_state_scheme, u8) prog" where
  "pbuf_header_force p inc = pbuf_header_impl p inc True"

section \<open>Chains\<close>

primrec clen_loop :: "nat \<Rightarrow> addr \<Rightarrow> u8 \<Rightarrow> ('z pbuf_state_scheme, u8) prog" where
  "clen_loop 0 p l = halt_with Hang"
| "clen_loop (Suc n) p l = (if p = 0 then ret l else bindM (deref p) (\<lambda>b. clen_loop n (pnext b) (l + 1)))"

definition pbuf_clen :: "nat \<Rightarrow> addr \<Rightarrow> ('z pbuf_state_scheme, u8) prog" where
  "pbuf_clen n p = clen_loop n p 0"

primrec cat_loop :: "nat \<Rightarrow> addr \<Rightarrow> addr \<Rightarrow> ('z pbuf_state_scheme, addr) prog" where
  "cat_loop 0 p t = halt_with Hang"
| "cat_loop (Suc n) p t =
     bindM (deref p) (\<lambda>b.
       if pnext b \<noteq> 0 then
         bindM (deref t) (\<lambda>c. thenM (store p (\<lambda>b. b\<lparr>tot_len := tot_len b + tot_len c\<rparr>)) (cat_loop n (pnext b) t))
       else ret p)"

definition pbuf_cat :: "nat \<Rightarrow> addr \<Rightarrow> addr \<Rightarrow> ('z pbuf_state_scheme, unit) prog" where
  "pbuf_cat n hp t =
     thenM (lwip_assert ''(h != NULL) && (t != NULL) (programmer violates API)'' (hp \<noteq> 0 \<and> t \<noteq> 0))
    (bindM (cat_loop n hp t) (\<lambda>p.
     bindM (deref p) (\<lambda>b.
     thenM (lwip_assert ''p->tot_len == p->len (of last pbuf in chain)'' (tot_len b = len b))
    (bindM (deref t) (\<lambda>c.
     store p (\<lambda>b. b\<lparr>tot_len := tot_len b + tot_len c, pnext := t\<rparr>))))))"

definition pbuf_chain :: "nat \<Rightarrow> addr \<Rightarrow> addr \<Rightarrow> ('z pbuf_state_scheme, unit) prog" where
  "pbuf_chain n hp t = thenM (pbuf_cat n hp t) (pbuf_ref t)"

definition pbuf_dechain :: "nat \<Rightarrow> addr \<Rightarrow> ('z pbuf_state_scheme, addr) prog" where
  "pbuf_dechain n p =
     bindM (deref p) (\<lambda>b.
     bindM (if pnext b \<noteq> 0 then
              bindM (deref (pnext b)) (\<lambda>c.
              thenM (lwip_assert ''p->tot_len == p->len + q->tot_len''
                       (int (unat (tot_len c)) = int (unat (tot_len b)) - int (unat (len b))))
             (thenM (store (pnext b) (\<lambda>c. c\<lparr>tot_len := tot_len b - len b\<rparr>))
             (thenM (store p (\<lambda>b. b\<lparr>pnext := 0, tot_len := len b\<rparr>))
                    (pbuf_free n (pnext b)))))
            else ret 1) (\<lambda>tail_gone.
     bindM (deref p) (\<lambda>b'.
     thenM (lwip_assert ''p->tot_len == p->len'' (tot_len b' = len b'))
           (ret (if tail_gone > 0 then 0 else pnext b)))))"

section \<open>Contents\<close>

text \<open>A packet queue, which \<^verbatim>\<open>pbuf_copy\<close> refuses.\<close>

definition no_queue :: "addr \<Rightarrow> ('z pbuf_state_scheme, unit) prog" where
  "no_queue p =
     whenM (p \<noteq> 0) (bindM (deref p) (\<lambda>b.
       lwip_assert ''pbuf_copy() does not allow packet queues!'' (len b = tot_len b \<longrightarrow> pnext b = 0)))"

primrec copy_loop :: "nat \<Rightarrow> addr \<Rightarrow> addr \<Rightarrow> nat \<Rightarrow> nat \<Rightarrow> ('z pbuf_state_scheme, int) prog" where
  "copy_loop 0 p_to p_from offset_to offset_from = halt_with Hang"
| "copy_loop (Suc n) p_to p_from offset_to offset_from =
     bindM (deref p_to) (\<lambda>bt.
     bindM (deref p_from) (\<lambda>bf.
       let l = (if int (unat (len bt)) - int offset_to \<ge> int (unat (len bf)) - int offset_from
                then unat (len bf) - offset_from else unat (len bt) - offset_to) in
       bindM (memcpy_from (ptr_add (payload bf) (int offset_from)) l) (\<lambda>bs.
       thenM (memcpy_to (ptr_add (payload bt) (int offset_to)) bs)
      (thenM (lwip_assert ''offset_to <= p_to->len'' (offset_to + l \<le> unat (len bt)))
      (thenM (lwip_assert ''offset_from <= p_from->len'' (offset_from + l \<le> unat (len bf)))
         (let (offset_from', p_from') = (if offset_from + l \<ge> unat (len bf) then (0, pnext bf) else (offset_from + l, p_from));
              (offset_to', p_to') = (if offset_to + l = unat (len bt) then (0, pnext bt) else (offset_to + l, p_to)) in
          thenM (whenM (offset_to + l = unat (len bt)) (lwip_assert ''p_to != NULL'' (p_to' \<noteq> 0 \<or> p_from' = 0)))
         (thenM (no_queue p_from')
         (thenM (no_queue p_to')
            (if p_from' \<noteq> 0 then copy_loop n p_to' p_from' offset_to' offset_from' else ret ERR_OK)))))))))"

definition pbuf_copy :: "nat \<Rightarrow> addr \<Rightarrow> addr \<Rightarrow> ('z pbuf_state_scheme, int) prog" where
  "pbuf_copy n p_to p_from =
     (if p_to = 0 \<or> p_from = 0 then lwip_assert_fails ''pbuf_copy: target not big enough to hold source''
      else
        bindM (deref p_to) (\<lambda>bt. bindM (deref p_from) (\<lambda>bf.
        thenM (lwip_assert ''pbuf_copy: target not big enough to hold source'' (tot_len bt \<ge> tot_len bf))
              (copy_loop n p_to p_from 0 0))))"

text \<open>
  \<^verbatim>\<open>pbuf_copy_partial\<close> writes into a buffer of its caller; its model returns the bytes written there with the
  count. A pointer to data of the caller is the list of the bytes there, never \<^verbatim>\<open>NULL\<close>.
\<close>

primrec copy_partial_loop :: "nat \<Rightarrow> addr \<Rightarrow> u16 \<Rightarrow> u16 \<Rightarrow> u8 list \<Rightarrow> u16 \<Rightarrow> ('z pbuf_state_scheme, u8 list \<times> u16) prog" where
  "copy_partial_loop 0 p ln offset data copied_total = halt_with Hang"
| "copy_partial_loop (Suc n) p ln offset data copied_total =
     (if ln \<noteq> 0 \<and> p \<noteq> 0 then
        bindM (deref p) (\<lambda>b.
          if offset \<noteq> 0 \<and> offset \<ge> len b then copy_partial_loop n (pnext b) ln (offset - len b) data copied_total
          else
            let l = (if len b - offset > ln then ln else len b - offset) in
            bindM (memcpy_from (ptr_add (payload b) (int (unat offset))) (unat l)) (\<lambda>bs.
              copy_partial_loop n (pnext b) (ln - l) 0 (data @ bs) (copied_total + l)))
      else ret (data, copied_total))"

definition pbuf_copy_partial :: "nat \<Rightarrow> addr \<Rightarrow> u16 \<Rightarrow> u16 \<Rightarrow> ('z pbuf_state_scheme, u8 list \<times> u16) prog" where
  "pbuf_copy_partial n buf ln offset =
     (if buf = 0 then lwip_assert_fails ''pbuf_copy_partial: invalid buf'' else copy_partial_loop n buf ln offset [] 0)"

primrec pbuf_skip :: "nat \<Rightarrow> addr \<Rightarrow> u16 \<Rightarrow> ('z pbuf_state_scheme, addr \<times> u16) prog" where
  "pbuf_skip 0 q offset_left = halt_with Hang"
| "pbuf_skip (Suc n) q offset_left =
     (if q = 0 then ret (q, offset_left)
      else
        bindM (deref q) (\<lambda>b. if len b \<le> offset_left then pbuf_skip n (pnext b) (offset_left - len b) else ret (q, offset_left)))"

text \<open>The bytes \<open>data[i], .., data[i + n - 1]\<close> of the caller.\<close>

definition caller_bytes :: "u8 list \<Rightarrow> nat \<Rightarrow> nat \<Rightarrow> ('z pbuf_state_scheme, u8 list) prog" where
  "caller_bytes data i n = (if i + n \<le> length data then ret (take n (drop i data)) else halt_with (Undefined ''dataptr''))"

primrec take_loop :: "nat \<Rightarrow> addr \<Rightarrow> u8 list \<Rightarrow> u16 \<Rightarrow> u16 \<Rightarrow> ('z pbuf_state_scheme, u16 \<times> u16) prog" where
  "take_loop 0 p data total_copy_len copied_total = halt_with Hang"
| "take_loop (Suc n) p data total_copy_len copied_total =
     (if total_copy_len \<noteq> 0 then
        thenM (lwip_assert ''pbuf_take: invalid pbuf'' (p \<noteq> 0))
       (bindM (deref p) (\<lambda>b.
          let l = (if total_copy_len > len b then len b else total_copy_len) in
          bindM (caller_bytes data (unat copied_total) (unat l)) (\<lambda>bs.
          thenM (memcpy_to (payload b) bs)
                (take_loop n (pnext b) data (total_copy_len - l) (copied_total + l)))))
      else ret (total_copy_len, copied_total))"

definition pbuf_take :: "nat \<Rightarrow> addr \<Rightarrow> u8 list \<Rightarrow> u16 \<Rightarrow> ('z pbuf_state_scheme, int) prog" where
  "pbuf_take n buf data ln =
     (if buf = 0 then lwip_assert_fails ''pbuf_take: invalid buf''
      else
        bindM (deref buf) (\<lambda>b.
          if tot_len b < ln then ret ERR_ARG
          else
            bindM (take_loop n buf data ln 0) (\<lambda>(total_copy_len, copied_total).
            thenM (lwip_assert ''did not copy all data'' (total_copy_len = 0 \<and> copied_total = ln)) (ret ERR_OK))))"

definition pbuf_take_at :: "nat \<Rightarrow> addr \<Rightarrow> u8 list \<Rightarrow> u16 \<Rightarrow> u16 \<Rightarrow> ('z pbuf_state_scheme, int) prog" where
  "pbuf_take_at n buf data ln offset =
     bindM (pbuf_skip n buf offset) (\<lambda>(q, target_offset).
       if q = 0 then ret ERR_MEM
       else
         bindM (deref q) (\<lambda>b.
           if unat (tot_len b) \<ge> unat target_offset + unat ln then
             (let first = (if target_offset > 0 then min (unat (len b) - unat target_offset) (unat ln) else 0) in
              thenM (whenM (target_offset > 0)
                       (bindM (caller_bytes data 0 first) (\<lambda>bs. memcpy_to (ptr_add (payload b) (int (unat target_offset))) bs)))
                (if ln - of_nat first > 0 then pbuf_take n (pnext b) (drop first data) (ln - of_nat first) else ret ERR_OK))
           else ret ERR_MEM))"

definition pbuf_coalesce :: "malloc \<Rightarrow> nat \<Rightarrow> addr \<Rightarrow> pbuf_layer \<Rightarrow> ('z pbuf_state_scheme, addr) prog" where
  "pbuf_coalesce M n p layer =
     bindM (deref p) (\<lambda>b.
       if pnext b = 0 then ret p
       else
         bindM (pbuf_alloc M n layer (tot_len b) PBUF_RAM) (\<lambda>q.
           if q = 0 then ret p
           else
             bindM (pbuf_copy n q p) (\<lambda>err.
             thenM (lwip_assert ''pbuf_copy failed'' (err = ERR_OK))
            (thenM (pbuf_free n p) (ret q)))))"

definition pbuf_get_at :: "nat \<Rightarrow> addr \<Rightarrow> u16 \<Rightarrow> ('z pbuf_state_scheme, u8) prog" where
  "pbuf_get_at n p offset =
     bindM (pbuf_skip n p offset) (\<lambda>(q, q_idx).
       if q = 0 then ret 0
       else bindM (deref q) (\<lambda>b.
         if len b > q_idx then bindM (memcpy_from (ptr_add (payload b) (int (unat q_idx))) 1) (\<lambda>bs. ret (hd bs)) else ret 0))"

definition pbuf_put_at :: "nat \<Rightarrow> addr \<Rightarrow> u16 \<Rightarrow> u8 \<Rightarrow> ('z pbuf_state_scheme, unit) prog" where
  "pbuf_put_at n p offset data =
     bindM (pbuf_skip n p offset) (\<lambda>(q, q_idx).
       whenM (q \<noteq> 0) (bindM (deref q) (\<lambda>b.
         whenM (len b > q_idx) (memcpy_to (ptr_add (payload b) (int (unat q_idx))) [data]))))"

text \<open>The comparison loop of \<^verbatim>\<open>pbuf_memcmp\<close>, over the bytes of the caller that are left.\<close>

primrec memcmp_loop :: "nat \<Rightarrow> addr \<Rightarrow> u16 \<Rightarrow> u8 list \<Rightarrow> u16 \<Rightarrow> ('z pbuf_state_scheme, u16) prog" where
  "memcmp_loop n q start [] i = ret 0"
| "memcmp_loop n q start (b # bs) i =
     bindM (pbuf_get_at n q (start + i)) (\<lambda>a. if a \<noteq> b then ret (i + 1) else memcmp_loop n q start bs (i + 1))"

text \<open>\<open>s2\<close> is the buffer of \<^verbatim>\<open>n\<close> bytes, so \<^verbatim>\<open>n\<close> is its length.\<close>

definition pbuf_memcmp :: "nat \<Rightarrow> addr \<Rightarrow> u16 \<Rightarrow> u8 list \<Rightarrow> ('z pbuf_state_scheme, u16) prog" where
  "pbuf_memcmp n p offset s2 =
     bindM (pbuf_skip n p offset) (\<lambda>(q, start).
       if q = 0 then ret 0xffff
       else bindM (deref q) (\<lambda>b. if len b > start then memcmp_loop n q start s2 0 else ret 0xffff))"

primrec memfind_loop :: "nat \<Rightarrow> nat \<Rightarrow> addr \<Rightarrow> u8 list \<Rightarrow> u16 \<Rightarrow> u16 \<Rightarrow> ('z pbuf_state_scheme, u16) prog" where
  "memfind_loop 0 n p mem i mx = halt_with Hang"
| "memfind_loop (Suc k) n p mem i mx =
     (if i \<le> mx then bindM (pbuf_memcmp n p i mem) (\<lambda>plus. if plus = 0 then ret i else memfind_loop k n p mem (i + 1) mx)
      else ret 0xffff)"

text \<open>At most 65537 rounds: the counter has 16 bits and the loop ends when it passes \<^verbatim>\<open>max\<close>.\<close>

definition pbuf_memfind :: "nat \<Rightarrow> addr \<Rightarrow> u8 list \<Rightarrow> u16 \<Rightarrow> ('z pbuf_state_scheme, u16) prog" where
  "pbuf_memfind n p mem start_offset =
     bindM (deref p) (\<lambda>b.
       if unat (tot_len b) \<ge> length mem + unat start_offset
       then memfind_loop (2 ^ 16 + 1) n p mem start_offset (tot_len b - of_nat (length mem))
       else ret 0xffff)"

definition pbuf_strstr :: "nat \<Rightarrow> addr \<Rightarrow> u8 list \<Rightarrow> ('z pbuf_state_scheme, u16) prog" where
  "pbuf_strstr n p substr =
     (if substr = [] then ret 0xffff
      else bindM (deref p) (\<lambda>b.
        if tot_len b = 0xffff then ret 0xffff
        else if length substr \<ge> 0xffff then ret 0xffff
        else pbuf_memfind n p substr 0))"

end
