(* ===== verification/PbufChain.thy ===== *)
theory PbufChain
  imports Pbuf
begin

text \<open>
  Chains of packet buffers: what a chain in the store is, and that freeing, allocating, concatenating,
  shrinking and moving headers do to it what their callers rely on.
\<close>

section \<open>Running the primitives\<close>

declare fun_upd_apply [simp del] fun_upd_same [simp] fun_upd_other [simp]

lemma lwip_assert_run [simp]: "lwip_assert msg b s = (if b then Ret () s else lwip_assert_fails msg s)"
  by (simp add: lwip_assert_def)

lemma deref_run [simp]: "pbufs s p = Some b \<Longrightarrow> deref p s = Ret b s"
  by (simp add: deref_def)

lemma store_run [simp]: "pbufs s p = Some b \<Longrightarrow> store p f s = Ret () (s\<lparr>pbufs := (pbufs s)(p \<mapsto> f b)\<rparr>)"
  by (simp add: store_def)

lemma mem_free_run [simp]:
  "pbufs s p = Some b \<Longrightarrow> mem_free p s = Ret () (s\<lparr>pbufs := (pbufs s)(p := None), blocks := (blocks s)(p := None)\<rparr>)"
  by (simp add: mem_free_def)

lemma new_pbuf_run [simp]:
  "new_pbuf p mem b s = Ret () (s\<lparr>pbufs := (pbufs s)(p \<mapsto> b), blocks := (blocks s)(p \<mapsto> drop SIZEOF_STRUCT_PBUF mem)\<rparr>)"
  by (simp add: new_pbuf_def)

lemma mem_malloc_run [simp]:
  "mem_malloc M sz s = Ret (M (pbufs s) (blocks s) (mallocs s) sz) (s\<lparr>mallocs := mallocs s + 1\<rparr>)"
  by (simp add: mem_malloc_def)

section \<open>Chains\<close>

text \<open>A store without some addresses.\<close>

definition without :: "'k set \<Rightarrow> ('k \<rightharpoonup> 'v) \<Rightarrow> 'k \<rightharpoonup> 'v" where
  "without A hp = (\<lambda>k. if k \<in> A then None else hp k)"

lemma without_apply: "without A hp k = (if k \<in> A then None else hp k)"
  by (simp add: without_def)

lemma without_insert: "without (insert k A) hp = without A (hp(k := None))"
  by (auto simp: without_apply fun_eq_iff)

lemma without_empty [simp]: "without {} hp = hp"
  by (simp add: without_def)

text \<open>\<open>chain hp p ps\<close>: following \<^verbatim>\<open>next\<close> from \<open>p\<close> visits the buffers \<open>ps\<close> and ends.\<close>

primrec chain :: "(addr \<rightharpoonup> pbuf) \<Rightarrow> addr \<Rightarrow> addr list \<Rightarrow> bool" where
  "chain hp p [] = (p = 0)"
| "chain hp p (q # qs) = (p = q \<and> q \<noteq> 0 \<and> (case hp q of None \<Rightarrow> False | Some b \<Rightarrow> chain hp (pnext b) qs))"

lemma chain_Cons: "chain hp p (q # qs) \<longleftrightarrow> p = q \<and> q \<noteq> 0 \<and> (\<exists>b. hp q = Some b \<and> chain hp (pnext b) qs)"
  by (simp split: option.split)

declare chain.simps(2) [simp del] chain_Cons [simp]

lemma chain_NULL: "chain hp 0 ps \<longleftrightarrow> ps = []"
  by (cases ps) auto

lemma chain_unique: "chain hp p ps \<Longrightarrow> chain hp p qs \<Longrightarrow> ps = qs"
proof (induction ps arbitrary: p qs)
  case Nil
  then show ?case by (simp add: chain_NULL)
next
  case (Cons a ps)
  then show ?case by (cases qs) auto
qed

lemma chain_suffix: "chain hp p (xs @ y # ys) \<Longrightarrow> chain hp y (y # ys)"
  by (induction xs arbitrary: p) auto

lemma chain_distinct: "chain hp p ps \<Longrightarrow> distinct ps"
proof (induction ps arbitrary: p)
  case (Cons q qs)
  have "q \<notin> set qs"
  proof
    assume "q \<in> set qs"
    then obtain xs ys where qs: "qs = xs @ q # ys" by (meson split_list)
    then have "chain hp q (q # ys)" using chain_suffix [of hp p "q # xs" q ys] Cons.prems by simp
    moreover have "chain hp q (q # qs)" using Cons.prems by simp
    ultimately have "q # qs = q # ys" using chain_unique by blast
    then show False using qs by simp
  qed
  then show ?case using Cons by auto
qed simp

lemma chain_alive: "chain hp p ps \<Longrightarrow> q \<in> set ps \<Longrightarrow> q \<noteq> 0 \<and> (\<exists>b. hp q = Some b)"
  by (induction ps arbitrary: p) auto

lemma chain_cong:
  "(\<And>q. q \<in> set ps \<Longrightarrow> map_option pnext (hp q) = map_option pnext (hp' q)) \<Longrightarrow> chain hp p ps = chain hp' p ps"
proof (induction ps arbitrary: p)
  case (Cons q qs)
  have "map_option pnext (hp q) = map_option pnext (hp' q)" using Cons.prems by simp
  moreover have "chain hp k qs = chain hp' k qs" for k by (rule Cons.IH) (use Cons.prems in simp)
  ultimately show ?case by (cases "hp q"; cases "hp' q") simp_all
qed simp

lemma chain_upd [simp]: "q \<notin> set ps \<Longrightarrow> chain (hp(q := x)) p ps = chain hp p ps"
  by (rule chain_cong) (auto simp: fun_upd_apply)

section \<open>Freeing\<close>

lemma upd_same: "s\<lparr>pbufs := pbufs s\<rparr> = s" "s\<lparr>blocks := blocks s\<rparr> = s" "s\<lparr>mallocs := mallocs s\<rparr> = s"
  by simp_all

text \<open>
  The buffers at the head of a chain that only the chain refers to, and the ones behind them.
\<close>

definition gone :: "(addr \<rightharpoonup> pbuf) \<Rightarrow> addr list \<Rightarrow> addr list" where
  "gone hp ps = takeWhile (\<lambda>q. ref (the (hp q)) = 1) ps"

definition kept :: "(addr \<rightharpoonup> pbuf) \<Rightarrow> addr list \<Rightarrow> addr list" where
  "kept hp ps = dropWhile (\<lambda>q. ref (the (hp q)) = 1) ps"

definition drop_ref :: "addr list \<Rightarrow> (addr \<rightharpoonup> pbuf) \<Rightarrow> addr \<rightharpoonup> pbuf" where
  "drop_ref qs hp = (case qs of [] \<Rightarrow> hp | r # _ \<Rightarrow> hp(r \<mapsto> (the (hp r))\<lparr>ref := ref (the (hp r)) - 1\<rparr>))"

lemma gone_upd: "q \<notin> set qs \<Longrightarrow> gone (hp(q := x)) qs = gone hp qs"
  unfolding gone_def by (rule takeWhile_cong) (auto simp: fun_upd_apply)

lemma kept_upd: "q \<notin> set qs \<Longrightarrow> kept (hp(q := x)) qs = kept hp qs"
  unfolding kept_def by (rule dropWhile_cong) (auto simp: fun_upd_apply)

lemma kept_sub: "set (kept hp qs) \<subseteq> set qs" "set (gone hp qs) \<subseteq> set qs"
  by (auto simp: kept_def gone_def dest: set_dropWhileD set_takeWhileD)

lemma free_loop_step:
  assumes "pbufs s q = Some b" "q \<noteq> 0" "0 < ref b"
  shows "free_loop (Suc m) q c s =
    (if ref b = 1 then free_loop m (pnext b) (c + 1) (s\<lparr>pbufs := (pbufs s)(q := None), blocks := (blocks s)(q := None)\<rparr>)
     else Ret c (s\<lparr>pbufs := (pbufs s)(q \<mapsto> b\<lparr>ref := ref b - 1\<rparr>)\<rparr>))"
proof -
  have 0: "ref b - 1 = 0 \<longleftrightarrow> ref b = 1" by (metis diff_eq_eq add_0)
  show ?thesis using assms(1,2) by (simp add: assms(3) 0)
qed

lemma free_loop_run:
  assumes "chain (pbufs s) p ps" and "\<forall>q \<in> set ps. 0 < ref (the (pbufs s q))" and "length ps < n"
  shows "free_loop n p c s = Ret (c + of_nat (length (gone (pbufs s) ps)))
    (s\<lparr>pbufs := drop_ref (kept (pbufs s) ps) (without (set (gone (pbufs s) ps)) (pbufs s)),
       blocks := without (set (gone (pbufs s) ps)) (blocks s)\<rparr>)"
  using assms
proof (induction ps arbitrary: p n c s)
  case Nil
  then obtain m where "n = Suc m" by (cases n) auto
  then show ?case using Nil by (simp add: gone_def kept_def drop_ref_def upd_same)
next
  case (Cons q qs)
  then obtain m where n: "n = Suc m" "length qs < m" by (cases n) auto
  obtain b where b: "pbufs s q = Some b" "p = q" "q \<noteq> 0" "chain (pbufs s) (pnext b) qs"
    using Cons.prems(1) by auto
  have q: "q \<notin> set qs" using chain_distinct [OF Cons.prems(1)] by simp
  have r: "0 < ref b" using Cons.prems(2) b by simp
  show ?case
  proof (cases "ref b = 1")
    case True
    let ?s = "s\<lparr>pbufs := (pbufs s)(q := None), blocks := (blocks s)(q := None)\<rparr>"
    have 1: "pbufs ?s = (pbufs s)(q := None)" "blocks ?s = (blocks s)(q := None)" by simp_all
    have "chain (pbufs ?s) (pnext b) qs" unfolding 1 chain_upd [OF q] by (rule b)
    moreover have "\<forall>k \<in> set qs. 0 < ref (the (pbufs ?s k))" using Cons.prems(2) q by (auto simp: fun_upd_apply)
    ultimately have "free_loop m (pnext b) (c + 1) ?s = Ret (c + 1 + of_nat (length (gone (pbufs s) qs)))
        (?s\<lparr>pbufs := drop_ref (kept (pbufs s) qs) (without (set (gone (pbufs s) qs)) ((pbufs s)(q := None))),
           blocks := without (set (gone (pbufs s) qs)) ((blocks s)(q := None))\<rparr>)"
      using Cons.IH [of ?s "pnext b" m "c + 1"] n(2) unfolding 1 gone_upd [OF q] kept_upd [OF q] by (simp only:)
    moreover have "gone (pbufs s) (q # qs) = q # gone (pbufs s) qs" "kept (pbufs s) (q # qs) = kept (pbufs s) qs"
      using b(1) True by (simp_all add: gone_def kept_def)
    moreover have "free_loop n p c s = free_loop m (pnext b) (c + 1) ?s"
      using free_loop_step [OF b(1,3) r, of m c] b(2) True n(1) by (simp del: free_loop.simps)
    ultimately show ?thesis by (simp add: without_insert)
  next
    case False
    then show ?thesis
      using free_loop_step [OF b(1,3) r, of m c] b(1,2) n(1)
      by (simp add: gone_def kept_def drop_ref_def fun_upd_def upd_same del: free_loop.simps)
  qed
qed

text \<open>
  C24. Freeing a chain deallocates exactly the buffers at its head whose only reference was the one
  given up, takes one reference from the first buffer somebody else still refers to, touches nothing
  else, and returns the number of deallocated buffers (modulo 256).
\<close>

theorem pbuf_free_deallocates:
  assumes "chain (pbufs s) p ps" and "ps \<noteq> []" and "\<forall>q \<in> set ps. 0 < ref (the (pbufs s q))" and "length ps < n"
  shows "pbuf_free n p s = Ret (of_nat (length (gone (pbufs s) ps)))
    (s\<lparr>pbufs := drop_ref (kept (pbufs s) ps) (without (set (gone (pbufs s) ps)) (pbufs s)),
       blocks := without (set (gone (pbufs s) ps)) (blocks s)\<rparr>)"
proof -
  obtain b where "pbufs s p = Some b" "p \<noteq> 0" using assms(1,2) by (cases ps) auto
  then show ?thesis using free_loop_run [OF assms(1,3,4), of 0] by (simp add: pbuf_free_def)
qed

text \<open>No buffers at all.\<close>

definition empty_heap :: pbuf_state where
  "empty_heap = net_state.extend blank_net (pbuf_state.fields Map.empty Map.empty 0 False)"

lemma empty_heap_fields [simp]:
  "pbufs empty_heap = Map.empty" "blocks empty_heap = Map.empty" "mallocs empty_heap = 0"
  by (simp_all add: empty_heap_def net_state.extend_def pbuf_state.fields_def)

text \<open>The chain \<^verbatim>\<open>1->2->3\<close> of the comment in the source becomes \<^verbatim>\<open>...1->3\<close>.\<close>

definition ref_chain :: "u16 \<Rightarrow> u16 \<Rightarrow> u16 \<Rightarrow> pbuf_state" where
  "ref_chain i j k =
     (let b = \<lparr>pnext = 0, payload = None, tot_len = 0, len = 0, ptype = PBUF_REF, flags = 0, ref = 1\<rparr> in
      empty_heap\<lparr>pbufs := [4 \<mapsto> b\<lparr>pnext := 8, ref := i\<rparr>, 8 \<mapsto> b\<lparr>pnext := 12, ref := j\<rparr>, 12 \<mapsto> b\<lparr>ref := k\<rparr>]\<rparr>)"

theorem pbuf_free_deallocates_witness:
  "\<exists>t. pbuf_free 9 4 (ref_chain 1 2 3) = Ret 1 t \<and> pbufs t 4 = None \<and>
     map_option ref (pbufs t 8) = Some 1 \<and> map_option ref (pbufs t 12) = Some 3"
  using pbuf_free_deallocates [of "ref_chain 1 2 3" 4 "[4, 8, 12]" 9]
  by (simp add: ref_chain_def Let_def gone_def kept_def drop_ref_def without_apply)

section \<open>Packets\<close>

text \<open>
  The number of bytes of a list of buffers, and the invariant of \<^verbatim>\<open>tot_len\<close>: each is the bytes from its buffer to
  the end, plus \<open>ext\<close> bytes still to be added.
\<close>

definition plen :: "(addr \<rightharpoonup> pbuf) \<Rightarrow> addr list \<Rightarrow> nat" where
  "plen hp ps = sum_list (map (\<lambda>p. unat (len (the (hp p)))) ps)"

lemma plen_simps [simp]: "plen hp [] = 0" "plen hp (p # ps) = unat (len (the (hp p))) + plen hp ps"
  by (simp_all add: plen_def)

lemma plen_append [simp]: "plen hp (ps @ qs) = plen hp ps + plen hp qs"
  by (simp add: plen_def)

lemma plen_cong: "(\<And>q. q \<in> set ps \<Longrightarrow> len (the (hp q)) = len (the (hp' q))) \<Longrightarrow> plen hp ps = plen hp' ps"
  by (induction ps) auto

primrec tots :: "(addr \<rightharpoonup> pbuf) \<Rightarrow> nat \<Rightarrow> addr list \<Rightarrow> bool" where
  "tots hp ext [] = True"
| "tots hp ext (p # ps) = (unat (tot_len (the (hp p))) = plen hp (p # ps) + ext \<and> tots hp ext ps)"

lemma tots_cong:
  assumes "\<And>q. q \<in> set ps \<Longrightarrow> len (the (hp q)) = len (the (hp' q)) \<and> tot_len (the (hp q)) = tot_len (the (hp' q))"
  shows "tots hp ext ps = tots hp' ext ps"
  using assms
proof (induction ps)
  case (Cons p ps)
  have "plen hp ps = plen hp' ps" by (rule plen_cong) (use Cons.prems in simp)
  then show ?case using Cons by simp
qed simp

lemma tots_snoc: "tots hp ext (ps @ [q]) \<longleftrightarrow> tots hp (unat (len (the (hp q))) + ext) ps \<and> tots hp ext [q]"
  by (induction ps) (auto simp: algebra_simps)

text \<open>The payload of a buffer lies in a live block.\<close>

definition payload_ok :: "(addr \<rightharpoonup> u8 list) \<Rightarrow> pbuf \<Rightarrow> bool" where
  "payload_ok bl b \<longleftrightarrow> len b = 0 \<or> in_block bl (payload b) (unat (len b))"

definition packet :: "'z pbuf_state_scheme \<Rightarrow> addr \<Rightarrow> addr list \<Rightarrow> bool" where
  "packet s p ps \<longleftrightarrow> chain (pbufs s) p ps \<and> tots (pbufs s) 0 ps \<and>
     (\<forall>q \<in> set ps. 0 < ref (the (pbufs s q)) \<and> payload_ok (blocks s) (the (pbufs s q)))"

section \<open>Allocating\<close>

text \<open>What the C library promises of \<^verbatim>\<open>malloc\<close>: memory that is not in use, aligned, of the size asked for.\<close>

definition malloc_ok :: "malloc \<Rightarrow> bool" where
  "malloc_ok M \<longleftrightarrow> (\<forall>hp bl k sz a mem. M hp bl k sz = (a, mem) \<and> a \<noteq> 0 \<longrightarrow> hp a = None \<and> bl a = None \<and> a mod 4 = 0 \<and> length mem = sz)"

text \<open>A new buffer: referred to once, with its payload inside its own block.\<close>

definition new_at :: "(addr \<rightharpoonup> pbuf) \<Rightarrow> (addr \<rightharpoonup> u8 list) \<Rightarrow> addr \<Rightarrow> bool" where
  "new_at hp bl q \<longleftrightarrow> (\<exists>b ofs d. hp q = Some b \<and> bl q = Some d \<and> ref b = 1 \<and> payload b = Some (q, ofs) \<and> 0 \<le> ofs \<and>
     nat ofs + unat (len b) \<le> length d)"

text \<open>The store \<open>hp, bl\<close> is the store \<open>hp\<^sub>0, bl\<^sub>0\<close> with the new buffers \<open>ps\<close>.\<close>

definition adds :: "(addr \<rightharpoonup> pbuf) \<Rightarrow> (addr \<rightharpoonup> u8 list) \<Rightarrow> (addr \<rightharpoonup> pbuf) \<Rightarrow> (addr \<rightharpoonup> u8 list) \<Rightarrow> addr list \<Rightarrow> bool" where
  "adds hp\<^sub>0 bl\<^sub>0 hp bl ps \<longleftrightarrow> (\<forall>q. q \<notin> set ps \<longrightarrow> hp q = hp\<^sub>0 q \<and> bl q = bl\<^sub>0 q) \<and>
     (\<forall>q \<in> set ps. hp\<^sub>0 q = None \<and> bl\<^sub>0 q = None \<and> new_at hp bl q)"

lemma adds_free:
  assumes "adds hp\<^sub>0 bl\<^sub>0 (pbufs s) (blocks s) ps" and "chain (pbufs s) p ps" and "ps \<noteq> []" and "length ps < n"
  shows "pbuf_free n p s = Ret (of_nat (length ps)) (s\<lparr>pbufs := hp\<^sub>0, blocks := bl\<^sub>0\<rparr>)"
proof -
  have r: "\<forall>q \<in> set ps. ref (the (pbufs s q)) = 1" using assms(1) by (auto simp: adds_def new_at_def)
  then have "gone (pbufs s) ps = ps" "kept (pbufs s) ps = []" by (simp_all add: gone_def kept_def)
  moreover have "without (set ps) (pbufs s) = hp\<^sub>0" "without (set ps) (blocks s) = bl\<^sub>0"
    using assms(1) by (auto simp: adds_def without_apply fun_eq_iff)
  moreover obtain b where "pbufs s p = Some b" "p \<noteq> 0" using assms(2,3) by (cases ps) auto
  ultimately show ?thesis
    using free_loop_run [OF assms(2) _ assms(4), of 0] r by (simp add: pbuf_free_def drop_ref_def)
qed

lemma chain_join:
  assumes "chain hp p ps" and "ps \<noteq> []" and "chain hp (pnext b) ts" and "set ps \<inter> set ts = {}"
  shows "chain (hp(last ps \<mapsto> b)) p (ps @ ts)"
  using assms
proof (induction ps arbitrary: p)
  case (Cons q qs)
  show ?case
  proof (cases "qs = []")
    case True
    have "chain (hp(q \<mapsto> b)) (pnext b) ts" by (subst chain_upd) (use Cons.prems in auto)
    then show ?thesis using Cons.prems(1) True by simp
  next
    case False
    obtain c where c: "hp q = Some c" "chain hp (pnext c) qs" "p = q" "q \<noteq> 0" using Cons.prems(1) by auto
    have "q \<notin> set qs" using chain_distinct [OF Cons.prems(1)] by simp
    then have "q \<noteq> last qs" using False last_in_set by metis
    moreover have "chain (hp(last qs \<mapsto> b)) (pnext c) (qs @ ts)" using Cons.IH [OF c(2) False] Cons.prems by auto
    ultimately show ?thesis using c False by simp
  qed
qed simp

lemma new_at_upd: "q \<noteq> r \<Longrightarrow> new_at (hp(r := x)) bl q = new_at hp bl q" "q \<noteq> r \<Longrightarrow> new_at hp (bl(r := y)) q = new_at hp bl q"
  by (simp_all add: new_at_def)

lemma new_at_next: "hp q = Some b \<Longrightarrow> new_at (hp(q \<mapsto> b\<lparr>pnext := k\<rparr>)) bl q = new_at hp bl q"
  by (simp add: new_at_def)

lemma adds_snoc:
  assumes "adds hp\<^sub>0 bl\<^sub>0 hp bl ps" and "hp q = None" and "bl q = None" and "ps \<noteq> []" and "hp (last ps) = Some b"
    and "new_at [q \<mapsto> c] [q \<mapsto> d] q"
  shows "adds hp\<^sub>0 bl\<^sub>0 (hp(q \<mapsto> c, last ps \<mapsto> b\<lparr>pnext := q\<rparr>)) (bl(q \<mapsto> d)) (ps @ [q])"
proof -
  have q: "q \<notin> set ps" "last ps \<noteq> q" using assms(1,2,5) by (auto simp: adds_def new_at_def)
  have r: "last ps \<in> set ps" using assms(4) by simp
  have "new_at (hp(q \<mapsto> c, last ps \<mapsto> b\<lparr>pnext := q\<rparr>)) (bl(q \<mapsto> d)) k" if "k \<in> set ps" for k
  proof -
    have "new_at hp bl k" using assms(1) that by (simp add: adds_def)
    then show ?thesis using assms(5) q that by (cases "k = last ps") (auto simp: new_at_def fun_upd_apply)
  qed
  moreover have "new_at (hp(q \<mapsto> c, last ps \<mapsto> b\<lparr>pnext := q\<rparr>)) (bl(q \<mapsto> d)) q"
    using assms(6) q by (simp add: new_at_def)
  moreover have "(hp(q \<mapsto> c, last ps \<mapsto> b\<lparr>pnext := q\<rparr>)) k = hp\<^sub>0 k \<and> (bl(q \<mapsto> d)) k = bl\<^sub>0 k" if "k \<notin> set (ps @ [q])" for k
    using assms(1) that r by (auto simp: adds_def fun_upd_apply)
  ultimately show ?thesis
    using assms(1-3) q by (auto simp: adds_def)
qed

lemma within_pool_next [simp]: "within_pool (b\<lparr>pnext := q\<rparr>) = within_pool b"
  by (simp add: within_pool_def split: option.split)

definition same_data :: "pbuf \<Rightarrow> pbuf \<Rightarrow> bool" where
  "same_data b c \<longleftrightarrow> len b = len c \<and> tot_len b = tot_len c \<and> payload b = payload c"

text \<open>
  The outcome of allocating in a store \<open>hp\<^sub>0, bl\<^sub>0\<close>, when the chain so far is \<open>ps\<close>: nothing and the store as it was, or the
  chain extended by full segments.
\<close>

definition alloc_post :: "(addr \<rightharpoonup> pbuf) \<Rightarrow> (addr \<rightharpoonup> u8 list) \<Rightarrow> addr \<Rightarrow> addr list \<Rightarrow> 'z pbuf_state_scheme \<Rightarrow> addr \<Rightarrow> 'z pbuf_state_scheme \<Rightarrow> bool" where
  "alloc_post hp\<^sub>0 bl\<^sub>0 p ps s a t \<longleftrightarrow>
    t = s\<lparr>pbufs := pbufs t, blocks := blocks t, mallocs := mallocs t, pbuf_free_ooseq_pending := pbuf_free_ooseq_pending t\<rparr> \<and>
    (if a = 0 then pbufs t = hp\<^sub>0 \<and> blocks t = bl\<^sub>0
     else a = p \<and> (\<exists>qs. chain (pbufs t) p (ps @ qs) \<and> adds hp\<^sub>0 bl\<^sub>0 (pbufs t) (blocks t) (ps @ qs) \<and> tots (pbufs t) 0 (ps @ qs) \<and>
       (\<forall>q \<in> set qs. 0 < len (the (pbufs t q)) \<and> unat (len (the (pbufs t q))) \<le> PBUF_POOL_BUFSIZE_ALIGNED) \<and>
       (\<forall>q \<in> set ps. same_data (the (pbufs t q)) (the (pbufs s q)))))"

lemma alloc_post_step:
  assumes "alloc_post hp\<^sub>0 bl\<^sub>0 p (ps @ [q]) u a t"
    and "u = s\<lparr>pbufs := pbufs u, blocks := blocks u, mallocs := mallocs u, pbuf_free_ooseq_pending := pbuf_free_ooseq_pending u\<rparr>"
    and "\<forall>k \<in> set ps. same_data (the (pbufs u k)) (the (pbufs s k))"
    and "0 < len (the (pbufs u q)) \<and> unat (len (the (pbufs u q))) \<le> PBUF_POOL_BUFSIZE_ALIGNED"
  shows "alloc_post hp\<^sub>0 bl\<^sub>0 p ps s a t"
proof -
  have "t = s\<lparr>pbufs := pbufs t, blocks := blocks t, mallocs := mallocs t, pbuf_free_ooseq_pending := pbuf_free_ooseq_pending t\<rparr>"
  proof -
    have "t = u\<lparr>pbufs := pbufs t, blocks := blocks t, mallocs := mallocs t, pbuf_free_ooseq_pending := pbuf_free_ooseq_pending t\<rparr>"
      using assms(1) by (simp add: alloc_post_def)
    then show ?thesis by (subst (asm) assms(2)) simp
  qed
  moreover have "\<exists>qs. chain (pbufs t) p (ps @ qs) \<and> adds hp\<^sub>0 bl\<^sub>0 (pbufs t) (blocks t) (ps @ qs) \<and> tots (pbufs t) 0 (ps @ qs) \<and>
       (\<forall>q \<in> set qs. 0 < len (the (pbufs t q)) \<and> unat (len (the (pbufs t q))) \<le> PBUF_POOL_BUFSIZE_ALIGNED) \<and>
       (\<forall>q \<in> set ps. same_data (the (pbufs t q)) (the (pbufs s q)))" if nz: "a \<noteq> 0"
  proof -
    obtain qs where qs: "chain (pbufs t) p (ps @ q # qs)" "adds hp\<^sub>0 bl\<^sub>0 (pbufs t) (blocks t) (ps @ q # qs)" "tots (pbufs t) 0 (ps @ q # qs)"
      "\<forall>q \<in> set qs. 0 < len (the (pbufs t q)) \<and> unat (len (the (pbufs t q))) \<le> PBUF_POOL_BUFSIZE_ALIGNED"
      "\<forall>k \<in> set (ps @ [q]). same_data (the (pbufs t k)) (the (pbufs u k))"
      using conjunct2 [OF assms(1) [unfolded alloc_post_def]] nz by auto
    then show ?thesis using assms(3,4) by (intro exI [of _ "q # qs"]) (auto simp: same_data_def)
  qed
  ultimately show ?thesis using assms(1) by (simp add: alloc_post_def)
qed

lemma alloc_tail_run:
  assumes M: "malloc_ok M" and "chain (pbufs s) p ps" and "adds hp\<^sub>0 bl\<^sub>0 (pbufs s) (blocks s) ps" and "tots (pbufs s) rem ps"
    and "ps \<noteq> []" and "length ps + rem < n" and "rem < 65535" and "within_pool (the (pbufs s p))"
  shows "\<exists>a t. alloc_tail M n p (last ps) rem s = Ret a t \<and> alloc_post hp\<^sub>0 bl\<^sub>0 p ps s a t"
  using assms(2-)
proof (induction rem arbitrary: s ps rule: less_induct)
  case (less rem)
  have p: "p \<noteq> 0" "p \<in> set ps" using less.prems(1,4) by (cases ps; auto)+
  show ?case
  proof (cases "rem = 0")
    case True
    then show ?thesis
      using less.prems p by (intro exI [of _ p] exI [of _ s]) (auto simp: alloc_post_def same_data_def alloc_tail.simps intro!: exI [of _ "[]"])
  next
    case False
    obtain q mem where q: "M (pbufs s) (blocks s) (mallocs s) memp_size_PBUF_POOL = (q, mem)" by fastforce
    show ?thesis
    proof (cases "q = 0")
      case True
      let ?s = "s\<lparr>mallocs := mallocs s + 1, pbuf_free_ooseq_pending := True\<rparr>"
      have "pbuf_free n p ?s = Ret (of_nat (length ps)) (?s\<lparr>pbufs := hp\<^sub>0, blocks := bl\<^sub>0\<rparr>)"
        by (rule adds_free) (use less.prems in simp_all)
      then show ?thesis
        using q True False by (simp add: alloc_post_def alloc_tail.simps [of M n p "last ps" rem] pbuf_pool_is_empty_def)
    next
      case nz: False
      let ?l = "min rem PBUF_POOL_BUFSIZE_ALIGNED"
      let ?c = "\<lparr>pnext = 0, payload = Some (q, 0), tot_len = of_nat rem, len = of_nat ?l, ptype = PBUF_POOL, flags = 0, ref = 1\<rparr>"
      let ?d = "drop SIZEOF_STRUCT_PBUF mem"
      have m: "pbufs s q = None" "blocks s q = None" "q mod 4 = 0" "length mem = memp_size_PBUF_POOL"
        using M q nz unfolding malloc_ok_def by blast+
      obtain b where b: "pbufs s (last ps) = Some b" using chain_alive [OF less.prems(1)] less.prems(4) by (meson last_in_set)
      have qn: "q \<notin> set ps" "q \<noteq> last ps" using m(1) b chain_alive [OF less.prems(1)] by force+
      let ?hp = "(pbufs s)(q \<mapsto> ?c, last ps \<mapsto> b\<lparr>pnext := q\<rparr>)"
      let ?s = "s\<lparr>mallocs := mallocs s + 1, blocks := (blocks s)(q \<mapsto> ?d), pbufs := ?hp\<rparr>"
      have l: "?l < 2 ^ 16" "0 < ?l" "?l \<le> rem" using less.prems(6) False by (auto simp: pbuf_consts)
      then have ul: "unat (of_nat ?l :: u16) = ?l" "unat (of_nat rem :: u16) = rem"
        using less.prems(6) by (simp_all add: unat_of_nat)
      have 1: "chain ?hp p (ps @ [q])"
        using chain_join [of "(pbufs s)(q \<mapsto> ?c)" p ps "b\<lparr>pnext := q\<rparr>" "[q]"] less.prems(1,4) qn nz by simp
      have 2: "adds hp\<^sub>0 bl\<^sub>0 ?hp ((blocks s)(q \<mapsto> ?d)) (ps @ [q])"
        by (rule adds_snoc) (use less.prems b m l ul in \<open>simp_all add: new_at_def pbuf_consts\<close>)
      have "tots ?hp rem ps" using less.prems(3) b qn by (subst tots_cong [where hp' = "pbufs s"]) (auto simp: fun_upd_apply)
      then have 3: "tots ?hp (rem - ?l) (ps @ [q])" using qn(2) ul l by (simp add: tots_snoc)
      have 4: "within_pool (the (?hp p))" using less.prems(7) b qn p by (cases "p = last ps") (auto simp: fun_upd_apply)
      have 5: "length (ps @ [q]) + (rem - ?l) < n" "rem - ?l < 65535" "rem - ?l < rem" using less.prems(5,6) l(2) by (auto simp: min_def split: if_splits)
      have "\<exists>a t. alloc_tail M n p (last (ps @ [q])) (rem - ?l) ?s = Ret a t \<and> alloc_post hp\<^sub>0 bl\<^sub>0 p (ps @ [q]) ?s a t"
        by (rule less.IH) (use 1 2 3 4 5 in simp_all)
      then obtain a t where IH: "alloc_tail M n p q (rem - ?l) ?s = Ret a t" "alloc_post hp\<^sub>0 bl\<^sub>0 p (ps @ [q]) ?s a t" by auto
      obtain bp where bp: "?hp p = Some bp" using chain_alive [OF 1] p(2) by fastforce
      have al: "(q + SIZEOF_STRUCT_PBUF) mod 4 = 0" using m(3) by (simp add: pbuf_consts) presburger
      have run: "alloc_tail M n p (last ps) rem s = alloc_tail M n p q (rem - ?l) ?s"
        using q nz False less.prems(6) b qn al bp 4
        by (simp add: alloc_tail.simps [of M n p "last ps" rem] Let_def)
      have "alloc_post hp\<^sub>0 bl\<^sub>0 p ps s a t"
        by (rule alloc_post_step [OF IH(2)]) (use qn b l ul in \<open>auto simp: same_data_def fun_upd_apply word_less_nat_alt\<close>)
      then show ?thesis using run IH(1) by auto
    qed
  qed
qed

lemma align_offset:
  assumes "p mod 4 = 0"
  shows "int (LWIP_MEM_ALIGN (p + (SIZEOF_STRUCT_PBUF + k))) - int (p + SIZEOF_STRUCT_PBUF) = int (LWIP_MEM_ALIGN_SIZE k)"
proof -
  obtain j where "p = 4 * j" using assms by (auto simp: mod_eq_0_iff_dvd)
  then have "p + (SIZEOF_STRUCT_PBUF + k) + 3 = (k + 3) + (j + 4) * 4" by (simp add: pbuf_consts)
  moreover have "((k + 3) + (j + 4) * 4) div 4 = (j + 4) + (k + 3) div 4" by (rule div_mult_self1) simp
  ultimately have "LWIP_MEM_ALIGN (p + (SIZEOF_STRUCT_PBUF + k)) = ((j + 4) + (k + 3) div 4) * 4"
    unfolding LWIP_MEM_ALIGN_def by (simp only:)
  then show ?thesis using \<open>p = 4 * j\<close> by (simp add: pbuf_consts)
qed

lemma align_mod: "LWIP_MEM_ALIGN a mod 4 = 0"
  by (simp add: LWIP_MEM_ALIGN_def)

lemma header_offset_small: "header_offset layer \<le> LWIP_MEM_ALIGN_SIZE (header_offset layer)" "LWIP_MEM_ALIGN_SIZE (header_offset layer) \<le> 56"
  by (cases layer; simp add: header_offset_def pbuf_consts)+

text \<open>The result of an allocation: a new packet of the length asked for, with room for the headers in front.\<close>

definition new_packet :: "'z pbuf_state_scheme \<Rightarrow> pbuf_layer \<Rightarrow> u16 \<Rightarrow> addr \<Rightarrow> 'z pbuf_state_scheme \<Rightarrow> addr list \<Rightarrow> bool" where
  "new_packet s layer lg a t ps \<longleftrightarrow>
     chain (pbufs t) a ps \<and> adds (pbufs s) (blocks s) (pbufs t) (blocks t) ps \<and> tots (pbufs t) 0 ps \<and> plen (pbufs t) ps = unat lg \<and>
     payload (the (pbufs t a)) = Some (a, int (LWIP_MEM_ALIGN_SIZE (header_offset layer))) \<and>
     (\<forall>q \<in> set (tl ps). 0 < len (the (pbufs t q)) \<and> unat (len (the (pbufs t q))) \<le> PBUF_POOL_BUFSIZE_ALIGNED)"

lemma pbuf_alloc_pool_run:
  assumes "malloc_ok M" and "unat lg + 1 < n"
  shows "\<exists>a t. pbuf_alloc_pool M n (header_offset layer) lg s = Ret a t \<and>
    (if a = 0 then pbufs t = pbufs s \<and> blocks t = blocks s else \<exists>ps. new_packet s layer lg a t ps)"
proof -
  let ?o = "header_offset layer"
  obtain p mem where p: "M (pbufs s) (blocks s) (mallocs s) memp_size_PBUF_POOL = (p, mem)" by fastforce
  show ?thesis
  proof (cases "p = 0")
    case True
    then show ?thesis using p by (simp add: pbuf_alloc_pool_def pbuf_pool_is_empty_def)
  next
    case False
    have m: "pbufs s p = None" "blocks s p = None" "p mod 4 = 0" "length mem = memp_size_PBUF_POOL"
      using assms(1) p False unfolding malloc_ok_def by blast+
    let ?l = "min (unat lg) (PBUF_POOL_BUFSIZE_ALIGNED - LWIP_MEM_ALIGN_SIZE ?o)"
    let ?b = "\<lparr>pnext = 0, payload = Some (p, int (LWIP_MEM_ALIGN_SIZE ?o)), tot_len = lg, len = of_nat ?l, ptype = PBUF_POOL, flags = 0, ref = 1\<rparr>"
    let ?s = "s\<lparr>mallocs := mallocs s + 1, pbufs := (pbufs s)(p \<mapsto> ?b), blocks := (blocks s)(p \<mapsto> drop SIZEOF_STRUCT_PBUF mem)\<rparr>"
    have small: "LWIP_MEM_ALIGN_SIZE ?o \<le> 56" by (rule header_offset_small)
    have l: "?l \<le> unat lg" "?l < 2 ^ 16" "LWIP_MEM_ALIGN_SIZE ?o + ?l \<le> PBUF_POOL_BUFSIZE_ALIGNED" "PBUF_POOL_BUFSIZE_ALIGNED - LWIP_MEM_ALIGN_SIZE ?o > 0"
      using small by (auto simp: PBUF_POOL_BUFSIZE_ALIGNED_def PBUF_POOL_BUFSIZE_def PBUF_LINK_HLEN_def LWIP_MEM_ALIGN_SIZE_def min_def split: if_splits)
    then have ul: "unat (of_nat ?l :: u16) = ?l" by (simp add: unat_of_nat)
    have rem: "unat lg - ?l < 65535"
      using l(4) unsigned_less [of lg, where ?'a = nat] by (auto simp: min_def split: if_splits)
    have fuel: "length [p] + (unat lg - ?l) < n" using assms(2) by (simp add: le_less_trans [OF diff_le_self])
    have run: "pbuf_alloc_pool M n ?o lg s = alloc_tail M n p p (unat lg - ?l) ?s"
      using p False l(3,4) align_offset [OF m(3), of ?o] by (simp add: pbuf_alloc_pool_def Let_def align_mod)
    have ad: "adds (pbufs s) (blocks s) (pbufs ?s) (blocks ?s) [p]"
    proof -
      have "length (drop SIZEOF_STRUCT_PBUF mem) = PBUF_POOL_BUFSIZE_ALIGNED" using m(4) by (simp add: pbuf_consts)
      then have "new_at (pbufs ?s) (blocks ?s) p" using ul l(3) by (simp add: new_at_def)
      then show ?thesis using m by (simp add: adds_def)
    qed
    have "\<exists>a t. alloc_tail M n p (last [p]) (unat lg - ?l) ?s = Ret a t \<and> alloc_post (pbufs s) (blocks s) p [p] ?s a t"
      by (rule alloc_tail_run [OF assms(1) _ _ _ _ fuel rem]) (use False l ul ad in \<open>simp_all add: within_pool_def\<close>)
    then obtain a t where t: "alloc_tail M n p p (unat lg - ?l) ?s = Ret a t" "alloc_post (pbufs s) (blocks s) p [p] ?s a t" by auto
    have "\<exists>ps. new_packet s layer lg a t ps" if nz: "a \<noteq> 0"
    proof -
      obtain qs where qs: "a = p" "chain (pbufs t) p (p # qs)" "adds (pbufs s) (blocks s) (pbufs t) (blocks t) (p # qs)"
        "tots (pbufs t) 0 (p # qs)" "\<forall>q \<in> set qs. 0 < len (the (pbufs t q)) \<and> unat (len (the (pbufs t q))) \<le> PBUF_POOL_BUFSIZE_ALIGNED"
        "same_data (the (pbufs t p)) ?b"
        using conjunct2 [OF t(2) [unfolded alloc_post_def]] nz by auto
      then show ?thesis by (intro exI [of _ "p # qs"]) (simp add: new_packet_def same_data_def)
    qed
    moreover have "a = 0 \<Longrightarrow> pbufs t = pbufs s \<and> blocks t = blocks s" using t(2) by (simp add: alloc_post_def)
    ultimately show ?thesis using run t(1) by auto
  qed
qed

lemma pbuf_alloc_ram_run:
  assumes "malloc_ok M"
  shows "\<exists>a t. pbuf_alloc_ram M (header_offset layer) lg s = Ret a t \<and>
    (if a = 0 then pbufs t = pbufs s \<and> blocks t = blocks s else new_packet s layer lg a t [a])"
proof -
  let ?o = "header_offset layer"
  let ?sz = "LWIP_MEM_ALIGN_SIZE (SIZEOF_STRUCT_PBUF + ?o) + LWIP_MEM_ALIGN_SIZE (unat lg)"
  obtain p mem where p: "M (pbufs s) (blocks s) (mallocs s) ?sz = (p, mem)" by fastforce
  show ?thesis
  proof (cases "p = 0")
    case True
    then show ?thesis using p by (simp add: pbuf_alloc_ram_def)
  next
    case False
    have m: "pbufs s p = None" "blocks s p = None" "p mod 4 = 0" "length mem = ?sz"
      using assms p False unfolding malloc_ok_def by blast+
    let ?b = "\<lparr>pnext = 0, payload = Some (p, int (LWIP_MEM_ALIGN_SIZE ?o)), tot_len = lg, len = lg, ptype = PBUF_RAM, flags = 0, ref = 1\<rparr>"
    let ?s = "s\<lparr>mallocs := mallocs s + 1, pbufs := (pbufs s)(p \<mapsto> ?b), blocks := (blocks s)(p \<mapsto> drop SIZEOF_STRUCT_PBUF mem)\<rparr>"
    have "LWIP_MEM_ALIGN_SIZE ?o + unat lg \<le> length (drop SIZEOF_STRUCT_PBUF mem)"
      using m(4) by (cases layer) (auto simp: header_offset_def pbuf_consts)
    then have "new_at (pbufs ?s) (blocks ?s) p" by (simp add: new_at_def)
    then have "new_packet s layer lg p ?s [p]" using m False by (simp add: new_packet_def adds_def)
    moreover have "pbuf_alloc_ram M ?o lg s = Ret p ?s"
      using p False align_offset [OF m(3), of ?o] by (simp add: pbuf_alloc_ram_def Let_def align_mod add.assoc)
    ultimately show ?thesis using False by auto
  qed
qed

lemma pbuf_alloc_run:
  assumes "malloc_ok M" and "unat lg + 1 < n" and "ty = PBUF_POOL \<or> ty = PBUF_RAM"
  shows "\<exists>a t. pbuf_alloc M n layer lg ty s = Ret a t \<and>
    (if a = 0 then pbufs t = pbufs s \<and> blocks t = blocks s else \<exists>ps. new_packet s layer lg a t ps)"
  using assms(3)
proof
  assume "ty = PBUF_POOL"
  then have "pbuf_alloc M n layer lg ty s = pbuf_alloc_pool M n (header_offset layer) lg s" by (simp add: pbuf_alloc_def)
  then show ?thesis using pbuf_alloc_pool_run [OF assms(1,2), of layer s] by (simp only:)
next
  assume "ty = PBUF_RAM"
  then have "pbuf_alloc M n layer lg ty s = pbuf_alloc_ram M (header_offset layer) lg s" by (simp add: pbuf_alloc_def)
  then show ?thesis using pbuf_alloc_ram_run [OF assms(1), of layer lg s] by (metis (full_types))
qed

lemma new_packet_segments:
  assumes "new_packet s layer lg a t ps" and "a \<noteq> 0"
  shows "ps \<noteq> []" and "length ps \<le> unat lg + 1"
proof -
  show ne: "ps \<noteq> []" using assms by (cases ps) (auto simp: new_packet_def)
  have "length qs \<le> plen hp qs" if "\<forall>q \<in> set qs. 0 < len (the (hp q))" for hp qs
    using that by (induction qs) (auto simp: word_less_nat_alt)
  from this [of "tl ps" "pbufs t"] have "length (tl ps) \<le> plen (pbufs t) (tl ps)" using assms(1) by (simp add: new_packet_def)
  moreover have "plen (pbufs t) (tl ps) \<le> plen (pbufs t) ps" using ne by (cases ps) simp_all
  moreover have "plen (pbufs t) ps = unat lg" using assms(1) by (simp add: new_packet_def)
  ultimately show "length ps \<le> unat lg + 1" by simp
qed

text \<open>
  C25. Allocating a pool or RAM buffer of any length returns, and either nothing was changed (not a byte
  is lost when memory runs out halfway), or the store has gained exactly one new packet: buffers that
  were not in use, each referred to once and with its bytes inside its own memory, whose lengths add
  up to the length asked for and whose \<^verbatim>\<open>tot_len\<close> fields are right, with the headers of the layer in front of it.
\<close>

theorem pbuf_alloc_gives_packet:
  assumes "malloc_ok M" and "unat lg + 1 < n" and "ty = PBUF_POOL \<or> ty = PBUF_RAM"
  shows "\<exists>a t. pbuf_alloc M n layer lg ty s = Ret a t \<and>
    (if a = 0 then pbufs t = pbufs s \<and> blocks t = blocks s else \<exists>ps. ps \<noteq> [] \<and> new_packet s layer lg a t ps)"
  using pbuf_alloc_run [OF assms, of layer s] new_packet_segments(1) by (metis (full_types))

text \<open>A memory that hands out ever higher addresses, up to a limit.\<close>

definition bump :: "nat \<Rightarrow> malloc" where
  "bump limit hp bl k sz =
     (if k < limit \<and> hp (4 * (k + 1)) = None \<and> bl (4 * (k + 1)) = None then (4 * (k + 1), replicate sz 0) else (0, []))"

lemma bump_ok: "malloc_ok (bump limit)"
  by (auto simp: malloc_ok_def bump_def split: if_splits)

lemma bump_run: "\<exists>t. pbuf_alloc (bump 9) 5000 PBUF_RAW 3000 PBUF_POOL empty_heap = Ret 4 t"
  by (simp add: pbuf_alloc_def pbuf_alloc_pool_def header_offset_def bump_def Let_def alloc_tail.simps within_pool_def
      LWIP_MEM_ALIGN_def pbuf_consts unat_of_nat)

theorem pbuf_alloc_gives_packet_witness:
  "\<exists>t ps. pbuf_alloc (bump 9) 5000 PBUF_RAW 3000 PBUF_POOL empty_heap = Ret 4 t \<and> chain (pbufs t) 4 ps \<and>
     plen (pbufs t) ps = 3000 \<and> tots (pbufs t) 0 ps"
  using pbuf_alloc_gives_packet [OF bump_ok, of 3000 5000 PBUF_POOL 9 PBUF_RAW empty_heap] bump_run
  by (auto simp: new_packet_def split: if_splits)

text \<open>
  Freeing what was allocated gives back all of it: buffers and memory are as before the allocation.
\<close>

theorem pbuf_free_undoes_alloc:
  assumes "malloc_ok M" and "unat lg + 1 < n" and "ty = PBUF_POOL \<or> ty = PBUF_RAM"
    and "pbuf_alloc M n layer lg ty s = Ret a t" and "a \<noteq> 0"
  shows "\<exists>c u. pbuf_free n a t = Ret c u \<and> pbufs u = pbufs s \<and> blocks u = blocks s"
proof -
  obtain ps where ps: "new_packet s layer lg a t ps" using pbuf_alloc_run [OF assms(1-3), of layer s] assms(4,5) by auto
  have "pbuf_free n a t = Ret (of_nat (length ps)) (t\<lparr>pbufs := pbufs s, blocks := blocks s\<rparr>)"
    by (rule adds_free) (use ps new_packet_segments [OF ps assms(5)] assms(2) in \<open>auto simp: new_packet_def\<close>)
  then show ?thesis by simp
qed

theorem pbuf_free_undoes_alloc_witness:
  "\<exists>t c u. pbuf_alloc (bump 9) 5000 PBUF_RAW 3000 PBUF_POOL empty_heap = Ret 4 t \<and> pbuf_free 5000 4 t = Ret c u \<and> pbufs u = Map.empty"
proof -
  obtain t where t: "pbuf_alloc (bump 9) 5000 PBUF_RAW 3000 PBUF_POOL empty_heap = Ret 4 t" using bump_run by blast
  have "\<exists>c u. pbuf_free 5000 4 t = Ret c u \<and> pbufs u = pbufs empty_heap \<and> blocks u = blocks empty_heap"
    by (rule pbuf_free_undoes_alloc [OF bump_ok _ _ t]) simp_all
  then show ?thesis using t by auto
qed

end
