(* ===== verification/PbufOps.thy ===== *)
theory PbufOps
  imports PbufChain
begin

text \<open>
  Concatenating and shrinking packets, and moving their headers: the invariant of the lengths is
  kept and the contents are the expected ones.
\<close>

section \<open>Adjusting total lengths\<close>

definition add_tot :: "u16 \<Rightarrow> addr list \<Rightarrow> (addr \<rightharpoonup> pbuf) \<Rightarrow> addr \<rightharpoonup> pbuf" where
  "add_tot v ps hp = (\<lambda>q. if q \<in> set ps then map_option (\<lambda>b. b\<lparr>tot_len := tot_len b + v\<rparr>) (hp q) else hp q)"

lemma add_tot_out: "q \<notin> set ps \<Longrightarrow> add_tot v ps hp q = hp q"
  by (simp add: add_tot_def)

lemma add_tot_in: "q \<in> set ps \<Longrightarrow> hp q = Some b \<Longrightarrow> add_tot v ps hp q = Some (b\<lparr>tot_len := tot_len b + v\<rparr>)"
  by (simp add: add_tot_def)

lemma add_tot_Nil: "add_tot v [] hp = hp"
  by (simp add: add_tot_def)

lemma add_tot_Cons: "q \<notin> set ps \<Longrightarrow> hp q = Some b \<Longrightarrow> add_tot v ps (hp(q \<mapsto> b\<lparr>tot_len := tot_len b + v\<rparr>)) = add_tot v (q # ps) hp"
  by (auto simp: add_tot_def fun_eq_iff fun_upd_apply)

lemma add_tot_fields:
  "map_option pnext (add_tot v ps hp q) = map_option pnext (hp q)" "map_option len (add_tot v ps hp q) = map_option len (hp q)"
  "map_option payload (add_tot v ps hp q) = map_option payload (hp q)" "map_option ref (add_tot v ps hp q) = map_option ref (hp q)"
  by (cases "hp q"; simp add: add_tot_def)+

lemma add_tot_chain: "chain (add_tot v ps hp) p qs = chain hp p qs"
  by (rule chain_cong) (rule add_tot_fields)

lemma add_tot_the:
  assumes "hp q \<noteq> None"
  shows "len (the (add_tot v ps hp q)) = len (the (hp q))" "payload (the (add_tot v ps hp q)) = payload (the (hp q))"
    "ref (the (add_tot v ps hp q)) = ref (the (hp q))"
  using assms by (auto simp: add_tot_def)

lemma tots_append: "tots hp e (ps @ qs) \<longleftrightarrow> tots hp (plen hp qs + e) ps \<and> tots hp e qs"
  by (induction ps) (auto simp: algebra_simps)

lemma tots_add_tot:
  assumes "tots hp e ps" and "\<forall>q \<in> set ps. hp q \<noteq> None" and "plen hp ps + e' < 2 ^ 16" and "v = of_nat e' - of_nat e"
    and "set ps \<subseteq> set qs"
  shows "tots (add_tot v qs hp) e' ps"
  using assms(1-3,5)
proof (induction ps)
  case (Cons p ps)
  then obtain b where b: "hp p = Some b" by auto
  have pl: "plen (add_tot v qs hp) (p # ps) = plen hp (p # ps)"
    by (rule plen_cong) (use Cons.prems(2) add_tot_the(1) in blast)
  have "unat (tot_len b) = plen hp (p # ps) + e" using Cons.prems(1) b by simp
  moreover have "of_nat (unat (tot_len b)) = tot_len b" by simp
  ultimately have "tot_len b = of_nat (plen hp (p # ps)) + of_nat e" by (metis of_nat_add)
  then have "tot_len b + v = of_nat (plen hp (p # ps) + e')" using assms(4) by simp
  then have "unat (tot_len b + v) = plen hp (p # ps) + e'" using Cons.prems(3) by (simp add: unat_of_nat del: of_nat_add)
  moreover have "tots (add_tot v qs hp) e' ps" using Cons by simp
  ultimately show ?case using b pl Cons.prems(4) by (simp add: add_tot_in)
qed simp

section \<open>Concatenation\<close>

lemma cat_loop_run:
  assumes "chain (pbufs s) p (xs @ [l])" and "pbufs s t = Some c" and "t \<notin> set (xs @ [l])" and "length xs < n"
  shows "cat_loop n p t s = Ret l (s\<lparr>pbufs := add_tot (tot_len c) xs (pbufs s)\<rparr>)"
  using assms
proof (induction xs arbitrary: p n s)
  case Nil
  then obtain m where "n = Suc m" by (cases n) auto
  then show ?case using Nil by (auto simp: add_tot_Nil)
next
  case (Cons q xs)
  then obtain m where n: "n = Suc m" "length xs < m" by (cases n) auto
  obtain b where b: "pbufs s q = Some b" "p = q" "q \<noteq> 0" "chain (pbufs s) (pnext b) (xs @ [l])" using Cons.prems(1) by auto
  have q: "q \<notin> set (xs @ [l])" using chain_distinct [OF Cons.prems(1)] by simp
  have tq: "t \<noteq> q" using Cons.prems(3) by simp
  let ?s = "s\<lparr>pbufs := (pbufs s)(q \<mapsto> b\<lparr>tot_len := tot_len b + tot_len c\<rparr>)\<rparr>"
  have nz: "pnext b \<noteq> 0" using b(4) by (cases xs) auto
  have "cat_loop m (pnext b) t ?s = Ret l (?s\<lparr>pbufs := add_tot (tot_len c) xs (pbufs ?s)\<rparr>)"
    by (rule Cons.IH) (use b q tq n Cons.prems in simp_all)
  moreover have "add_tot (tot_len c) xs (pbufs ?s) = add_tot (tot_len c) (q # xs) (pbufs s)"
    using add_tot_Cons [of q xs "pbufs s" b "tot_len c"] b(1) q by simp
  ultimately show ?case using b n nz Cons.prems(2) by simp
qed

definition cat_store :: "addr list \<Rightarrow> addr \<Rightarrow> (addr \<rightharpoonup> pbuf) \<Rightarrow> addr \<rightharpoonup> pbuf" where
  "cat_store ps t hp =
     (let hp' = add_tot (tot_len (the (hp t))) ps hp in hp'(last ps \<mapsto> (the (hp' (last ps)))\<lparr>pnext := t\<rparr>))"

lemma add_tot_snoc: "l \<notin> set xs \<Longrightarrow> hp l = Some b \<Longrightarrow> add_tot v (xs @ [l]) hp = (add_tot v xs hp)(l \<mapsto> b\<lparr>tot_len := tot_len b + v\<rparr>)"
  by (auto simp: add_tot_def fun_eq_iff fun_upd_apply)

lemma pbuf_cat_run:
  assumes "chain (pbufs s) p ps" and "ps \<noteq> []" and "pbufs s t = Some c" and "t \<noteq> 0" and "t \<notin> set ps" and "length ps \<le> n"
    and "tots (pbufs s) 0 ps"
  shows "pbuf_cat n p t s = Ret () (s\<lparr>pbufs := cat_store ps t (pbufs s)\<rparr>)"
proof -
  obtain xs l where ps: "ps = xs @ [l]" using assms(2) by (metis append_butlast_last_id)
  have l: "l \<notin> set xs" "t \<notin> set (xs @ [l])" "t \<noteq> l" using chain_distinct [OF assms(1)] assms(5) ps by auto
  obtain b where b: "pbufs s l = Some b" using chain_alive [OF assms(1), of l] ps by auto
  have "tots (pbufs s) 0 [l]" using assms(7) unfolding ps tots_append by blast
  then have eq: "tot_len b = len b" using b by (simp add: word_unat_eq_iff)
  let ?v = "tot_len c" let ?hp = "add_tot ?v xs (pbufs s)"
  have hp: "?hp l = Some b" "?hp t = Some c" using b l assms(3) by (auto simp: add_tot_out)
  have "cat_store ps t (pbufs s) = ?hp(l \<mapsto> b\<lparr>tot_len := tot_len b + ?v, pnext := t\<rparr>)"
    using assms(3) add_tot_snoc [of l xs "pbufs s" b ?v] l(1) b by (simp add: cat_store_def ps)
  moreover have "cat_loop n p t s = Ret l (s\<lparr>pbufs := ?hp\<rparr>)"
    by (rule cat_loop_run) (use assms(1,3,6) l ps in simp_all)
  moreover have "p \<noteq> 0" using assms(1) ps by (cases xs) auto
  ultimately show ?thesis using assms(4) hp eq by (simp add: pbuf_cat_def)
qed

section \<open>Contents\<close>

text \<open>The bytes of one buffer and of a list of buffers.\<close>

definition bytes_at :: "(addr \<rightharpoonup> pbuf) \<Rightarrow> (addr \<rightharpoonup> u8 list) \<Rightarrow> addr \<Rightarrow> u8 list" where
  "bytes_at hp bl p = block_read bl (payload (the (hp p))) (unat (len (the (hp p))))"

definition content :: "(addr \<rightharpoonup> pbuf) \<Rightarrow> (addr \<rightharpoonup> u8 list) \<Rightarrow> addr list \<Rightarrow> u8 list" where
  "content hp bl ps = concat (map (bytes_at hp bl) ps)"

lemma content_simps [simp]:
  "content hp bl [] = []" "content hp bl (p # ps) = bytes_at hp bl p @ content hp bl ps"
  "content hp bl (ps @ qs) = content hp bl ps @ content hp bl qs"
  by (simp_all add: content_def)

lemma content_cong: "(\<And>p. p \<in> set ps \<Longrightarrow> bytes_at hp bl p = bytes_at hp' bl' p) \<Longrightarrow> content hp bl ps = content hp' bl' ps"
  unfolding content_def by (metis (mono_tags, lifting) map_cong)

lemma bytes_at_same: "same_data (the (hp p)) (the (hp' p)) \<Longrightarrow> bytes_at hp bl p = bytes_at hp' bl p"
  by (simp add: bytes_at_def same_data_def)

lemma bytes_at_len:
  "payload_ok bl (the (hp p)) \<Longrightarrow> length (bytes_at hp bl p) = unat (len (the (hp p)))"
  by (auto simp: bytes_at_def payload_ok_def in_block_def block_read_def split: option.splits)

lemma content_len: "\<forall>p \<in> set ps. payload_ok bl (the (hp p)) \<Longrightarrow> length (content hp bl ps) = plen hp ps"
  by (induction ps) (auto simp: bytes_at_len)

text \<open>
  C26. Concatenating two packets that share no buffer and have together less than 65536 bytes gives one
  packet with the buffers of both: all total lengths are right again and the contents are
  the contents of the first followed by those of the second; no other buffer and no payload byte changes.
\<close>

theorem pbuf_cat_appends:
  assumes "packet s p ps" and "packet s t ts" and "ps \<noteq> []" and "ts \<noteq> []" and "set ps \<inter> set ts = {}"
    and "plen (pbufs s) ps + plen (pbufs s) ts < 2 ^ 16" and "length ps \<le> n"
  shows "\<exists>u. pbuf_cat n p t s = Ret () u \<and> packet u p (ps @ ts) \<and>
    content (pbufs u) (blocks u) (ps @ ts) = content (pbufs s) (blocks s) ps @ content (pbufs s) (blocks s) ts \<and>
    blocks u = blocks s \<and> (\<forall>q. q \<notin> set ps \<longrightarrow> pbufs u q = pbufs s q)"
proof -
  let ?hp = "pbufs s"
  have ch: "chain ?hp p ps" "chain ?hp t ts" and tt: "tots ?hp 0 ps" "tots ?hp 0 ts" using assms(1,2) by (auto simp: packet_def)
  obtain c where c: "?hp t = Some c" "t \<noteq> 0" "t \<in> set ts" using ch(2) assms(4) by (cases ts) auto
  have tp: "t \<notin> set ps" using c(3) assms(5) by blast
  let ?hp' = "add_tot (tot_len c) ps ?hp"
  let ?u = "cat_store ps t ?hp"
  have lst: "last ps \<in> set ps" using assms(3) by simp
  obtain b where b: "?hp (last ps) = Some b" using chain_alive [OF ch(1) lst] by blast
  let ?b = "b\<lparr>tot_len := tot_len b + tot_len c, pnext := t\<rparr>"
  have u: "?u = ?hp'(last ps \<mapsto> ?b)" using b c lst by (simp add: cat_store_def add_tot_in)
  have same: "len (the (?u q)) = len (the (?hp q)) \<and> payload (the (?u q)) = payload (the (?hp q)) \<and> ref (the (?u q)) = ref (the (?hp q))"
    if "q \<in> set (ps @ ts)" for q
  proof -
    have "?hp q \<noteq> None" using chain_alive [OF ch(1)] chain_alive [OF ch(2)] that by fastforce
    then show ?thesis unfolding u using b by (auto simp: fun_upd_apply add_tot_the)
  qed
  have pl: "plen ?u qs = plen ?hp qs" if "set qs \<subseteq> set (ps @ ts)" for qs by (rule plen_cong) (use same that in blast)
  have tc: "unat (tot_len c) = plen ?hp ts" using tt(2) ch(2) c(1) assms(4) by (cases ts) auto
  have "chain ?u p (ps @ ts)"
    unfolding u by (rule chain_join) (use ch assms(3,5) in \<open>simp_all add: add_tot_chain\<close>)
  moreover have "tots ?u 0 (ps @ ts)"
  proof -
    have "tot_len c = of_nat (plen ?hp ts) - of_nat 0" by (simp flip: tc)
    moreover have "\<forall>q \<in> set ps. ?hp q \<noteq> None" using chain_alive [OF ch(1)] by blast
    ultimately have "tots ?hp' (plen ?hp ts) ps" using tots_add_tot [OF tt(1) _ assms(6)] by blast
    then have "tots ?u (plen ?u ts) ps"
      using pl [of ts] b lst unfolding u by (subst tots_cong [where hp' = ?hp']) (auto simp: fun_upd_apply add_tot_in)
    moreover have "tots ?u 0 ts"
      using tt(2) assms(5) lst unfolding u by (subst tots_cong [where hp' = ?hp]) (auto simp: fun_upd_apply add_tot_def)
    ultimately show ?thesis by (simp add: tots_append)
  qed
  moreover have "\<forall>q \<in> set (ps @ ts). 0 < ref (the (?u q)) \<and> payload_ok (blocks s) (the (?u q))"
    using same assms(1,2) unfolding packet_def payload_ok_def by (metis Un_iff set_append)
  moreover have "content ?u (blocks s) qs = content ?hp (blocks s) qs" if "set qs \<subseteq> set (ps @ ts)" for qs
    by (rule content_cong) (use same that in \<open>auto simp: bytes_at_def\<close>)
  moreover have "\<forall>q. q \<notin> set ps \<longrightarrow> ?u q = ?hp q" using lst by (auto simp: u fun_upd_apply add_tot_out)
  ultimately show ?thesis
    using pbuf_cat_run [OF ch(1) assms(3) c(1,2) tp assms(7) tt(1)] by (simp add: packet_def)
qed

section \<open>Shrinking\<close>

lemma realloc_loop_run:
  assumes "chain (pbufs s) p (xs @ q # bs)" and "xs = [] \<or> plen (pbufs s) xs < unat r"
    and "unat r \<le> plen (pbufs s) (xs @ [q])" and "length xs < n"
  shows "realloc_loop n p r g s = Ret (q, of_nat (unat r - plen (pbufs s) xs)) (s\<lparr>pbufs := add_tot g xs (pbufs s)\<rparr>)"
  using assms
proof (induction xs arbitrary: p r n s)
  case Nil
  then obtain m where "n = Suc m" by (cases n) auto
  then show ?case using Nil by (auto simp: add_tot_Nil word_less_nat_alt)
next
  case (Cons x xs)
  then obtain m where n: "n = Suc m" "length xs < m" by (cases n) auto
  obtain b where b: "pbufs s x = Some b" "p = x" "x \<noteq> 0" "chain (pbufs s) (pnext b) (xs @ q # bs)" using Cons.prems(1) by auto
  have x: "x \<notin> set (xs @ q # bs)" using chain_distinct [OF Cons.prems(1)] by simp
  let ?s = "s\<lparr>pbufs := (pbufs s)(x \<mapsto> b\<lparr>tot_len := tot_len b + g\<rparr>)\<rparr>"
  have nz: "pnext b \<noteq> 0" using b(4) by (cases xs) auto
  have less: "unat (len b) + plen (pbufs s) xs < unat r" using Cons.prems(2) b(1) by simp
  then have r: "len b < r" "unat (r - len b) = unat r - unat (len b)" by (simp_all add: word_less_nat_alt unat_sub word_le_nat_alt)
  have pl: "plen (pbufs ?s) zs = plen (pbufs s) zs" if "x \<notin> set zs" for zs
    by (rule plen_cong) (use that in \<open>auto simp: fun_upd_apply\<close>)
  have "realloc_loop m (pnext b) (r - len b) g ?s =
      Ret (q, of_nat (unat (r - len b) - plen (pbufs ?s) xs)) (?s\<lparr>pbufs := add_tot g xs (pbufs ?s)\<rparr>)"
  proof (rule Cons.IH)
    show "chain (pbufs ?s) (pnext b) (xs @ q # bs)" using b(4) x by (simp del: chain_Cons)
    show "xs = [] \<or> plen (pbufs ?s) xs < unat (r - len b)" using pl [of xs] x less r by (auto simp: less_diff_conv add.commute)
    show "unat (r - len b) \<le> plen (pbufs ?s) (xs @ [q])" using pl [of "xs @ [q]"] x Cons.prems(3) b(1) r by (simp del: plen_simps plen_append) simp
  qed (rule n)
  moreover have "add_tot g xs (pbufs ?s) = add_tot g (x # xs) (pbufs s)"
    using add_tot_Cons [of x xs "pbufs s" b g] b(1) x by simp
  ultimately show ?case using b n nz r pl [of xs] x less by simp
qed

lemma split_at_len:
  assumes "ps \<noteq> []" and "k \<le> plen hp ps"
  shows "\<exists>xs q bs. ps = xs @ q # bs \<and> (xs = [] \<or> plen hp xs < k) \<and> k \<le> plen hp (xs @ [q])"
  using assms
proof (induction ps arbitrary: k)
  case (Cons p ps)
  show ?case
  proof (cases "k \<le> unat (len (the (hp p)))")
    case True
    then show ?thesis by (intro exI [of _ "[]"]) simp
  next
    case False
    then have "ps \<noteq> []" "k - unat (len (the (hp p))) \<le> plen hp ps" using Cons.prems by auto
    from Cons.IH [OF this] obtain xs q bs where "ps = xs @ q # bs" "xs = [] \<or> plen hp xs < k - unat (len (the (hp p)))"
      "k - unat (len (the (hp p))) \<le> plen hp (xs @ [q])" by blast
    then show ?thesis using False by (intro exI [of _ "p # xs"]) auto
  qed
qed simp

lemma chain_cut:
  assumes "chain hp p (xs @ q # bs)" and "\<And>k. k \<in> set xs \<Longrightarrow> map_option pnext (hp' k) = map_option pnext (hp k)"
    and "hp' q = Some b" and "pnext b = 0"
  shows "chain hp' p (xs @ [q])"
  using assms(1,2)
proof (induction xs arbitrary: p)
  case (Cons x xs)
  then obtain c where "hp x = Some c" "chain hp (pnext c) (xs @ q # bs)" "p = x" "x \<noteq> 0" by auto
  moreover have "map_option pnext (hp' x) = map_option pnext (hp x)" using Cons.prems by simp
  moreover have "chain hp' k (xs @ [q])" if "chain hp k (xs @ q # bs)" for k using Cons.IH [OF that] Cons.prems(2) by simp
  ultimately show ?case by (cases "hp' x") auto
qed (use assms(3,4) in auto)

text \<open>The payload of every buffer is in its own block, as for buffers from the pool and in RAM.\<close>

definition own_payload :: "(addr \<rightharpoonup> pbuf) \<Rightarrow> addr list \<Rightarrow> bool" where
  "own_payload hp ps \<longleftrightarrow> (\<forall>q \<in> set ps. \<exists>ofs. payload (the (hp q)) = Some (q, ofs))"

text \<open>The store after shrinking to the buffers \<open>xs @ [q]\<close>, the last with \<open>r\<close> bytes, before the rest \<open>bs\<close> is freed.\<close>

lemma shrunk_packet:
  assumes "packet s p (xs @ q # bs)" and "own_payload (pbufs s) (xs @ q # bs)" and "pbufs s q = Some b"
    and "unat r \<le> unat (len b)" and "g = of_nat (unat r) - of_nat (plen (pbufs s) (q # bs))"
    and "\<And>k. k \<in> set xs \<Longrightarrow> pbufs u k = add_tot g xs (pbufs s) k"
    and "pbufs u q = Some (b\<lparr>len := r, tot_len := r, pnext := 0\<rparr>)"
    and "\<And>k. k \<in> set (xs @ [q]) \<Longrightarrow> blocks u k = blocks s k"
  shows "packet u p (xs @ [q])" and "plen (pbufs u) (xs @ [q]) = plen (pbufs s) xs + unat r"
    and "content (pbufs u) (blocks u) (xs @ [q]) = content (pbufs s) (blocks s) xs @ take (unat r) (bytes_at (pbufs s) (blocks s) q)"
proof -
  let ?hp = "pbufs s" and ?hp' = "add_tot g xs (pbufs s)"
  have ch: "chain ?hp p (xs @ q # bs)" and tt: "tots ?hp (plen ?hp (q # bs)) xs"
    and ok: "\<And>k. k \<in> set (xs @ [q]) \<Longrightarrow> 0 < ref (the (?hp k)) \<and> payload_ok (blocks s) (the (?hp k))"
    using assms(1) unfolding packet_def tots_append by auto
  have alive: "\<forall>k \<in> set xs. ?hp k \<noteq> None" using chain_alive [OF ch] by auto
  have pl: "plen (pbufs u) xs = plen ?hp xs" by (rule plen_cong) (use alive assms(6) add_tot_the(1) in metis)
  then show pu: "plen (pbufs u) (xs @ [q]) = plen ?hp xs + unat r" using assms(7) by simp
  have big: "plen ?hp xs + unat r < 2 ^ 16"
  proof -
    have "plen ?hp (xs @ q # bs) = unat (tot_len (the (?hp p)))"
      using assms(1) ch unfolding packet_def by (cases "xs @ q # bs") auto
    then show ?thesis using assms(3,4) unsigned_less [of "tot_len (the (?hp p))", where ?'a = nat] by simp
  qed
  have own: "\<exists>ofs. payload (the (?hp k)) = Some (k, ofs)" if "k \<in> set (xs @ [q])" for k
    using assms(2) that by (auto simp: own_payload_def)
  have data: "payload (the (pbufs u k)) = payload (the (?hp k)) \<and> ref (the (pbufs u k)) = ref (the (?hp k))" if "k \<in> set (xs @ [q])" for k
    using that assms(3,6,7) alive add_tot_the(2,3) by auto
  have "chain (pbufs u) p (xs @ [q])"
    by (rule chain_cut [where hp' = "pbufs u", OF ch]) (use assms(6,7) add_tot_fields(1) in auto)
  moreover have "tots (pbufs u) 0 (xs @ [q])"
  proof -
    have "tots ?hp' (unat r) xs" by (rule tots_add_tot [OF tt alive big assms(5)]) simp
    then have "tots (pbufs u) (unat r) xs" by (subst tots_cong [where hp' = ?hp']) (use assms(6) in auto)
    then show ?thesis using assms(7) by (simp add: tots_append)
  qed
  moreover have "payload_ok (blocks u) (the (pbufs u k))" if k: "k \<in> set (xs @ [q])" for k
  proof -
    obtain ofs where o: "payload (the (?hp k)) = Some (k, ofs)" using own [OF k] by blast
    have "unat (len (the (pbufs u k))) \<le> unat (len (the (?hp k)))"
      using k assms(3,4,6,7) alive add_tot_the(1) by (cases "k = q") auto
    then show ?thesis
      using ok [OF k] data [OF k] o assms(8) [OF k]
      by (auto simp: payload_ok_def in_block_def unat_eq_0 split: option.splits)
  qed
  ultimately show "packet u p (xs @ [q])" using data ok by (simp add: packet_def)
  have "content (pbufs u) (blocks u) xs = content ?hp (blocks s) xs"
  proof (rule content_cong)
    fix k assume k: "k \<in> set xs"
    then obtain ofs where "payload (the (?hp k)) = Some (k, ofs)" using own by auto
    moreover have "len (the (pbufs u k)) = len (the (?hp k))" using k assms(6) alive add_tot_the(1) by metis
    ultimately show "bytes_at (pbufs u) (blocks u) k = bytes_at ?hp (blocks s) k"
      using data [of k] assms(8) [of k] k by (simp add: bytes_at_def block_read_def)
  qed
  moreover have "bytes_at (pbufs u) (blocks u) q = take (unat r) (bytes_at ?hp (blocks s) q)"
  proof -
    obtain ofs where "payload b = Some (q, ofs)" using own [of q] assms(3) by auto
    then show ?thesis using assms(3,4,7) assms(8) [of q] by (simp add: bytes_at_def block_read_def min_absorb1 split: option.split)
  qed
  ultimately show "content (pbufs u) (blocks u) (xs @ [q]) = content ?hp (blocks s) xs @ take (unat r) (bytes_at ?hp (blocks s) q)"
    by simp
qed

lemma drop_ref_out: "k \<notin> set qs \<Longrightarrow> drop_ref qs hp k = hp k"
  by (cases qs) (auto simp: drop_ref_def)

lemma free_rest_run:
  assumes "chain (pbufs s) p bs" and "\<forall>q \<in> set bs. 0 < ref (the (pbufs s q))" and "length bs < n"
  shows "\<exists>t. whenM (p \<noteq> 0) (thenM (pbuf_free n p) (ret ())) s = Ret () t \<and>
    (\<forall>k. k \<notin> set bs \<longrightarrow> pbufs t k = pbufs s k \<and> blocks t k = blocks s k)"
proof (cases "p = 0")
  case False
  then obtain b where b: "pbufs s p = Some b" using assms(1) by (cases bs) auto
  have out: "drop_ref (kept (pbufs s) bs) (without (set (gone (pbufs s) bs)) (pbufs s)) k = pbufs s k"
    "without (set (gone (pbufs s) bs)) (blocks s) k = blocks s k" if "k \<notin> set bs" for k
  proof -
    have "k \<notin> set (kept (pbufs s) bs)" "k \<notin> set (gone (pbufs s) bs)" using kept_sub that by blast+
    then show "drop_ref (kept (pbufs s) bs) (without (set (gone (pbufs s) bs)) (pbufs s)) k = pbufs s k"
      "without (set (gone (pbufs s) bs)) (blocks s) k = blocks s k" by (simp_all add: drop_ref_out without_apply)
  qed
  show ?thesis using free_loop_run [OF assms, of 0] b False out by (simp add: pbuf_free_def)
qed simp

text \<open>
  Shrinking a packet cuts its contents to the new length: what is left is a packet made of the first
  buffers, with right total lengths, whose bytes are the first \<^verbatim>\<open>new_len\<close> bytes of the packet.
\<close>

theorem pbuf_realloc_truncates:
  assumes "packet s p ps" and "ps \<noteq> []" and "own_payload (pbufs s) ps" and "unat nl < plen (pbufs s) ps" and "length ps < n"
  shows "\<exists>u qs. pbuf_realloc n p nl s = Ret () u \<and> packet u p qs \<and> qs \<noteq> [] \<and> qs = take (length qs) ps \<and>
    plen (pbufs u) qs = unat nl \<and> content (pbufs u) (blocks u) qs = take (unat nl) (content (pbufs s) (blocks s) ps)"
proof -
  let ?hp = "pbufs s"
  obtain xs q bs where ps: "ps = xs @ q # bs" and xs: "xs = [] \<or> plen ?hp xs < unat nl" and q: "unat nl \<le> plen ?hp (xs @ [q])"
    using split_at_len [OF assms(2), of "unat nl" ?hp] assms(4) by auto
  have ch: "chain ?hp p (xs @ q # bs)" using assms(1) ps by (simp add: packet_def)
  obtain b where b: "?hp q = Some b" using chain_alive [OF ch, of q] by auto
  obtain bp where bp: "?hp p = Some bp" "p \<noteq> 0" "unat (tot_len bp) = plen ?hp ps"
    using assms(1) ps by (cases xs) (auto simp: packet_def)
  have dis: "q \<notin> set xs" "q \<notin> set bs" "set xs \<inter> set bs = {}" using chain_distinct [OF ch] by auto
  define r where "r = (of_nat (unat nl - plen ?hp xs) :: u16)"
  have "unat nl - plen ?hp xs < 2 ^ 16" using unsigned_less [of nl, where ?'a = nat] by simp
  then have r: "unat r = unat nl - plen ?hp xs" by (simp add: r_def unat_of_nat)
  have xs': "plen ?hp xs \<le> unat nl" using xs by auto
  define g where "g = nl - tot_len bp"
  have g: "g = of_nat (unat r) - of_nat (plen ?hp (q # bs))"
  proof -
    have "nl = of_nat (plen ?hp xs + unat r)" using r xs' by simp
    moreover have "tot_len bp = of_nat (plen ?hp xs + plen ?hp (q # bs))" using bp(3) ps by (metis of_nat_unat ucast_id plen_append)
    ultimately show ?thesis by (simp add: g_def)
  qed
  let ?h1 = "add_tot g xs ?hp"
  let ?s2 = "s\<lparr>pbufs := ?h1(q \<mapsto> b\<lparr>len := r, tot_len := r\<rparr>)\<rparr>"
  have loop: "realloc_loop n p nl g s = Ret (q, r) (s\<lparr>pbufs := ?h1\<rparr>)"
    using realloc_loop_run [OF ch xs q, of n g] assms(5) ps by (simp add: r_def)
  have h1q: "?h1 q = Some b" using b dis by (simp add: add_tot_out)
  have old: "\<not> nl \<ge> tot_len bp" using bp(3) assms(4) by (simp add: word_le_nat_alt)
  have al: "pnext b = 0 \<and> bs = [] \<or> pnext b \<noteq> 0" and cb: "chain ?hp (pnext b) bs"
    using chain_suffix [OF ch] b by (auto simp: chain_NULL)
  have "chain (pbufs ?s2) (pnext b) bs" using cb dis(2) by (simp add: add_tot_chain)
  moreover have "\<forall>k \<in> set bs. 0 < ref (the (pbufs ?s2 k))"
  proof
    fix k assume k: "k \<in> set bs"
    then have "pbufs ?s2 k = ?hp k" using dis by (auto simp: fun_upd_apply intro!: add_tot_out)
    then show "0 < ref (the (pbufs ?s2 k))" using assms(1) ps k by (simp add: packet_def)
  qed
  ultimately obtain t where t: "whenM (pnext b \<noteq> 0) (thenM (pbuf_free n (pnext b)) (ret ())) ?s2 = Ret () t"
      "\<And>k. k \<notin> set bs \<Longrightarrow> pbufs t k = pbufs ?s2 k \<and> blocks t k = blocks s k"
    using free_rest_run [of ?s2 "pnext b" bs n] assms(5) ps by auto
  let ?u = "t\<lparr>pbufs := (pbufs t)(q \<mapsto> b\<lparr>len := r, tot_len := r, pnext := 0\<rparr>)\<rparr>"
  have tq: "pbufs t q = Some (b\<lparr>len := r, tot_len := r\<rparr>)" using t(2) [OF dis(2)] by simp
  have run: "pbuf_realloc n p nl s = Ret () ?u"
    using bp old loop h1q t(1) tq g_def by (simp add: pbuf_realloc_def)
  have u1: "pbufs ?u k = ?h1 k" if "k \<in> set xs" for k
  proof -
    have "k \<notin> set bs" "k \<noteq> q" using that dis by auto
    then show ?thesis using t(2) [of k] by simp
  qed
  have u2: "blocks ?u k = blocks s k" if "k \<in> set (xs @ [q])" for k using t(2) [of k] that dis by auto
  have rb: "unat r \<le> unat (len b)" using q r xs' b by simp
  note sh = shrunk_packet [OF assms(1) [unfolded ps] assms(3) [unfolded ps] b rb g, of ?u]
  have "packet ?u p (xs @ [q])" "plen (pbufs ?u) (xs @ [q]) = unat nl"
    using sh(1,2) u1 u2 r xs' by simp_all
  moreover have "content (pbufs ?u) (blocks ?u) (xs @ [q]) = take (unat nl) (content ?hp (blocks s) ps)"
  proof -
    have "\<forall>k \<in> set xs. payload_ok (blocks s) (the (?hp k))" "payload_ok (blocks s) (the (?hp q))" using assms(1) ps by (simp_all add: packet_def)
    then have "length (content ?hp (blocks s) xs) = plen ?hp xs" "length (bytes_at ?hp (blocks s) q) = unat (len b)"
      using content_len bytes_at_len [of "blocks s" ?hp q] b by auto
    then show ?thesis using sh(3) u1 u2 ps r xs' rb by simp
  qed
  ultimately show ?thesis using run ps by (intro exI [of _ ?u] exI [of _ "xs @ [q]"]) simp
qed

section \<open>Headers\<close>

text \<open>
  Hiding a header of \<open>k\<close> bytes drops the first \<open>k\<close> bytes of the contents; revealing it again restores the
  buffer exactly. A header that does not fit in front of the payload is refused and nothing changes.
\<close>

theorem pbuf_header_hides_and_reveals:
  assumes "pbufs s p = Some b" and "p \<noteq> 0" and "payload b = Some (p, ofs)" and "0 \<le> ofs" and "ptype b = PBUF_RAM \<or> ptype b = PBUF_POOL"
    and "0 < k" and "k < 32768" and "k \<le> int (unat (len b))"
  shows "\<exists>t. pbuf_header p (- k) s = Ret 0 t \<and> pbuf_header p k t = Ret 0 s \<and>
    bytes_at (pbufs t) (blocks t) p = drop (nat k) (bytes_at (pbufs s) (blocks s) p) \<and>
    (\<forall>j. ofs < j \<and> j < 32768 \<longrightarrow> pbuf_header p j s = Ret 1 s)"
proof -
  have u: "unat (word_of_int k :: u16) = nat k" using assms(6,7) by (simp add: unat_eq_nat_uint uint_word_of_int)
  then have le: "word_of_int k \<le> len b" using assms(8) by (simp add: word_le_nat_alt nat_le_iff)
  let ?t = "s\<lparr>pbufs := (pbufs s)(p \<mapsto> move_header (- k) b)\<rparr>"
  have hide: "pbuf_header p (- k) s = Ret 0 ?t"
    using assms le by (auto simp: pbuf_header_def pbuf_header_impl_def)
  have undo: "move_header k (move_header (- k) b) = b"
    using assms(3) by (simp add: move_header_def ptr_add_def)
  have "pbuf_header p k ?t = Ret 0 (s\<lparr>pbufs := (pbufs s)(p \<mapsto> b)\<rparr>)"
  proof -
    have "ptype (move_header (- k) b) = ptype b" "payload (move_header (- k) b) = Some (p, ofs + k)"
      using assms(3) by (simp_all add: move_header_def ptr_add_def)
    then show ?thesis using assms(1-7) undo by (auto simp: pbuf_header_def pbuf_header_impl_def)
  qed
  moreover have "(pbufs s)(p \<mapsto> b) = pbufs s" using assms(1) by (simp add: fun_upd_idem)
  moreover have "bytes_at (pbufs ?t) (blocks ?t) p = drop (nat k) (bytes_at (pbufs s) (blocks s) p)"
  proof -
    have "unat (len b - word_of_int k) = unat (len b) - nat k" using le u by (simp add: unat_sub)
    then show ?thesis
      using assms(1,3,4,6,8)
      by (simp add: bytes_at_def block_read_def move_header_def ptr_add_def nat_add_distrib drop_take add.commute split: option.split)
  qed
  moreover have "pbuf_header p j s = Ret 1 s" if "ofs < j" for j
    using assms(1-5) that by (auto simp: pbuf_header_def pbuf_header_impl_def)
  ultimately show ?thesis using hide by (intro exI [of _ ?t]) simp
qed

text \<open>Two packets of two and of one buffer.\<close>

definition two_packets :: pbuf_state where
  "two_packets = empty_heap\<lparr>
     pbufs := [4 \<mapsto> \<lparr>pnext = 8, payload = Some (4, 0), tot_len = 5, len = 3, ptype = PBUF_POOL, flags = 0, ref = 1\<rparr>,
               8 \<mapsto> \<lparr>pnext = 0, payload = Some (8, 1), tot_len = 2, len = 2, ptype = PBUF_POOL, flags = 0, ref = 1\<rparr>,
               12 \<mapsto> \<lparr>pnext = 0, payload = Some (12, 2), tot_len = 2, len = 2, ptype = PBUF_RAM, flags = 0, ref = 1\<rparr>],
     blocks := [4 \<mapsto> [1, 2, 3], 8 \<mapsto> [0, 4, 5], 12 \<mapsto> [0, 0, 6, 7]]\<rparr>"

lemma two_packets_ok:
  "packet two_packets 4 [4, 8]" "packet two_packets 12 [12]" "plen (pbufs two_packets) [4, 8] = 5" "plen (pbufs two_packets) [12] = 2"
  "content (pbufs two_packets) (blocks two_packets) [4, 8] = [1, 2, 3, 4, 5]" "content (pbufs two_packets) (blocks two_packets) [12] = [6, 7]"
  "own_payload (pbufs two_packets) [4, 8]"
  by (simp_all add: two_packets_def empty_heap_def packet_def payload_ok_def in_block_def bytes_at_def block_read_def own_payload_def)

theorem pbuf_cat_appends_witness:
  "\<exists>u. pbuf_cat 9 4 12 two_packets = Ret () u \<and> packet u 4 [4, 8, 12] \<and> content (pbufs u) (blocks u) [4, 8, 12] = [1, 2, 3, 4, 5, 6, 7]"
  using pbuf_cat_appends [OF two_packets_ok(1,2), of 9] unfolding two_packets_ok by auto

theorem pbuf_realloc_truncates_witness:
  "\<exists>u qs. pbuf_realloc 9 4 4 two_packets = Ret () u \<and> packet u 4 qs \<and> content (pbufs u) (blocks u) qs = [1, 2, 3, 4]"
  using pbuf_realloc_truncates [OF two_packets_ok(1) _ two_packets_ok(7), of 4 9] unfolding two_packets_ok by auto

theorem pbuf_header_hides_and_reveals_witness:
  "\<exists>t. pbuf_header 12 (- 1) two_packets = Ret 0 t \<and> pbuf_header 12 1 t = Ret 0 two_packets \<and> pbuf_header 12 3 two_packets = Ret 1 two_packets"
proof -
  have "pbufs two_packets 12 = Some \<lparr>pnext = 0, payload = Some (12, 2), tot_len = 2, len = 2, ptype = PBUF_RAM, flags = 0, ref = 1\<rparr>"
    by (simp add: two_packets_def)
  from pbuf_header_hides_and_reveals [OF this, of 2 1] show ?thesis by auto
qed

end
