(* ===== verification/PbufData.thy ===== *)
theory PbufData
  imports PbufOps
begin

text \<open>
  Reading and writing the bytes of a packet across the borders of its buffers: every access function
  is the corresponding operation on the list of its bytes.
\<close>

section \<open>Finding a position\<close>

lemma pbuf_skip_run:
  assumes "chain (pbufs s) p ps" and "length ps < n"
  shows "(\<exists>xs q ys. ps = xs @ q # ys \<and> plen (pbufs s) xs \<le> unat off \<and> unat off < plen (pbufs s) (xs @ [q]) \<and>
      pbuf_skip n p off s = Ret (q, of_nat (unat off - plen (pbufs s) xs)) s) \<or>
    (plen (pbufs s) ps \<le> unat off \<and> pbuf_skip n p off s = Ret (0, of_nat (unat off - plen (pbufs s) ps)) s)"
  using assms
proof (induction ps arbitrary: p n off)
  case Nil
  then obtain m where "n = Suc m" by (cases n) auto
  then show ?case using Nil by simp
next
  case (Cons x xs)
  then obtain m where n: "n = Suc m" "length xs < m" by (cases n) auto
  obtain b where b: "pbufs s x = Some b" "p = x" "x \<noteq> 0" "chain (pbufs s) (pnext b) xs" using Cons.prems(1) by auto
  show ?case
  proof (cases "len b \<le> off")
    case True
    then have sub: "unat (off - len b) = unat off - unat (len b)" "unat (len b) \<le> unat off" by (simp_all add: unat_sub word_le_nat_alt)
    have step: "pbuf_skip n p off s = pbuf_skip m (pnext b) (off - len b) s" using b n True by simp
    from Cons.IH [OF b(4) n(2), of "off - len b"] show ?thesis
    proof (elim disjE exE conjE)
      fix zs q ys assume "xs = zs @ q # ys" "plen (pbufs s) zs \<le> unat (off - len b)" "unat (off - len b) < plen (pbufs s) (zs @ [q])"
        "pbuf_skip m (pnext b) (off - len b) s = Ret (q, of_nat (unat (off - len b) - plen (pbufs s) zs)) s"
      then show ?thesis using step sub b(1)
        by (intro disjI1 exI [of _ "x # zs"] exI [of _ q] exI [of _ ys]) auto
    next
      assume "plen (pbufs s) xs \<le> unat (off - len b)"
        "pbuf_skip m (pnext b) (off - len b) s = Ret (0, of_nat (unat (off - len b) - plen (pbufs s) xs)) s"
      then show ?thesis using step sub b(1) by (intro disjI2) auto
    qed
  next
    case False
    then show ?thesis using b n by (intro disjI1 exI [of _ "[]"]) (simp add: word_le_nat_alt)
  qed
qed

section \<open>Reading\<close>

lemma packet_parts:
  assumes "packet s p (xs @ q # ys)"
  obtains b where "pbufs s q = Some b" "q \<noteq> 0" "payload_ok (blocks s) b" "0 < ref b" "chain (pbufs s) q (q # ys)" "packet s q (q # ys)"
    "unat (tot_len b) = plen (pbufs s) (q # ys)"
proof -
  have ch: "chain (pbufs s) q (q # ys)" using assms chain_suffix unfolding packet_def by blast
  moreover have "tots (pbufs s) 0 (q # ys)" using assms by (simp add: packet_def tots_append)
  ultimately show ?thesis using assms that by (auto simp: packet_def)
qed

lemma bytes_nth:
  assumes "payload_ok bl b" and "i < unat (len b)"
  shows "in_block bl (ptr_add (payload b) (int i)) 1" and "block_read bl (ptr_add (payload b) (int i)) 1 = [block_read bl (payload b) (unat (len b)) ! i]"
proof -
  have "in_block bl (payload b) (unat (len b))" using assms by (auto simp: payload_ok_def)
  then obtain k ofs d where d: "payload b = Some (k, ofs)" "bl k = Some d" "0 \<le> ofs" "nat ofs + unat (len b) \<le> length d"
    by (auto simp: in_block_def split: option.splits)
  then have n: "nat (ofs + int i) = nat ofs + i" by simp
  show "in_block bl (ptr_add (payload b) (int i)) 1" using d assms(2) n by (simp add: in_block_def ptr_add_def)
  show "block_read bl (ptr_add (payload b) (int i)) 1 = [block_read bl (payload b) (unat (len b)) ! i]"
    using d assms(2) n by (simp add: block_read_def ptr_add_def take_Suc_conv_app_nth take_Suc hd_drop_conv_nth)
qed

lemma pbuf_get_at_run:
  assumes "packet s p ps" and "length ps < n"
  shows "pbuf_get_at n p off s =
    Ret (if unat off < plen (pbufs s) ps then content (pbufs s) (blocks s) ps ! unat off else 0) s"
proof -
  have ch: "chain (pbufs s) p ps" using assms(1) by (simp add: packet_def)
  from pbuf_skip_run [OF ch assms(2), of off] show ?thesis
  proof (elim disjE exE conjE)
    fix xs q ys assume ps: "ps = xs @ q # ys" and lo: "plen (pbufs s) xs \<le> unat off" and hi: "unat off < plen (pbufs s) (xs @ [q])"
      and sk: "pbuf_skip n p off s = Ret (q, of_nat (unat off - plen (pbufs s) xs)) s"
    obtain b where b: "pbufs s q = Some b" "q \<noteq> 0" "payload_ok (blocks s) b" using packet_parts assms(1) ps by metis
    let ?i = "unat off - plen (pbufs s) xs"
    have i: "?i < unat (len b)" using lo hi b(1) by simp
    have ui: "unat (of_nat ?i :: u16) = ?i" using unsigned_less [of off, where ?'a = nat] by (simp add: unat_of_nat)
    have "length (content (pbufs s) (blocks s) xs) = plen (pbufs s) xs"
      by (rule content_len) (use assms(1) ps in \<open>auto simp: packet_def\<close>)
    moreover have "length (bytes_at (pbufs s) (blocks s) q) = unat (len b)" using bytes_at_len [of "blocks s" "pbufs s" q] b by simp
    ultimately have "content (pbufs s) (blocks s) ps ! unat off = bytes_at (pbufs s) (blocks s) q ! ?i"
      using i lo ps by (simp add: nth_append)
    then show ?thesis
      using sk b i ui bytes_nth [OF b(3) i] ps hi
      by (simp add: pbuf_get_at_def memcpy_from_def bytes_at_def word_less_nat_alt)
  next
    assume "plen (pbufs s) ps \<le> unat off" "pbuf_skip n p off s = Ret (0, of_nat (unat off - plen (pbufs s) ps)) s"
    then show ?thesis by (simp add: pbuf_get_at_def)
  qed
qed

section \<open>Writing\<close>

lemma read_overwrite:
  assumes "i + length bs \<le> m" and "k + m \<le> length d"
  shows "take m (drop k (overwrite (k + i) bs d)) = overwrite i bs (take m (drop k d))"
proof (rule nth_equalityI)
  show "length (take m (drop k (overwrite (k + i) bs d))) = length (overwrite i bs (take m (drop k d)))"
    using assms by (simp add: overwrite_def)
next
  fix j assume "j < length (take m (drop k (overwrite (k + i) bs d)))"
  then have j: "j < m" by simp
  consider "j < i" | "i \<le> j" "j < i + length bs" | "i + length bs \<le> j" by linarith
  then show "take m (drop k (overwrite (k + i) bs d)) ! j = overwrite i bs (take m (drop k d)) ! j"
    using assms j by cases (auto simp: overwrite_def nth_append)
qed

text \<open>Writing into the own block of a buffer changes the bytes of that buffer only.\<close>

lemma own_write:
  assumes "payload b = Some (q, ofs)" and "payload_ok bl b" and "i + length bs \<le> unat (len b)" and "bs \<noteq> []"
  shows "in_block bl (ptr_add (payload b) (int i)) (length bs)"
    and "block_read (block_write (ptr_add (payload b) (int i)) bs bl) (payload b) (unat (len b)) =
      overwrite i bs (block_read bl (payload b) (unat (len b)))"
    and "k \<noteq> q \<Longrightarrow> block_write (ptr_add (payload b) (int i)) bs bl k = bl k"
    and "in_block (block_write (ptr_add (payload b) (int i)) bs bl) pl m = in_block bl pl m"
proof -
  have "unat (len b) \<noteq> 0" using assms(3,4) by (cases bs) auto
  then have "in_block bl (payload b) (unat (len b))" using assms(2) by (auto simp: payload_ok_def)
  then obtain d where d: "bl q = Some d" "0 \<le> ofs" "nat ofs + unat (len b) \<le> length d"
    using assms(1) by (auto simp: in_block_def split: option.splits)
  then have n: "nat (ofs + int i) = nat ofs + i" by simp
  show "in_block bl (ptr_add (payload b) (int i)) (length bs)" using d assms(1,3) n by (simp add: in_block_def ptr_add_def)
  have w: "block_write (ptr_add (payload b) (int i)) bs bl = bl(q \<mapsto> overwrite (nat ofs + i) bs d)"
    using d n assms(1) by (simp add: block_write_def ptr_add_def)
  have l: "length (overwrite (nat ofs + i) bs d) = length d" using d(3) assms(3) by (simp add: overwrite_def)
  show "block_read (block_write (ptr_add (payload b) (int i)) bs bl) (payload b) (unat (len b)) =
      overwrite i bs (block_read bl (payload b) (unat (len b)))"
    unfolding w using read_overwrite [OF assms(3) d(3)] d(1) assms(1) by (simp add: block_read_def)
  show "k \<noteq> q \<Longrightarrow> block_write (ptr_add (payload b) (int i)) bs bl k = bl k" unfolding w by simp
  show "in_block (block_write (ptr_add (payload b) (int i)) bs bl) pl m = in_block bl pl m"
    unfolding w in_block_def using l d(1) by (auto simp: fun_upd_apply split: option.split)
qed

lemma overwrite_length: "i + length bs \<le> length d \<Longrightarrow> length (overwrite i bs d) = length d"
  by (simp add: overwrite_def)

lemma content_write:
  assumes "packet s p (xs @ q # ys)" and "own_payload (pbufs s) (xs @ q # ys)" and "pbufs s q = Some b"
    and "i + length bs \<le> unat (len b)" and "bs \<noteq> []"
  defines "bl' \<equiv> block_write (ptr_add (payload b) (int i)) bs (blocks s)"
  shows "memcpy_to (ptr_add (payload b) (int i)) bs s = Ret () (s\<lparr>blocks := bl'\<rparr>)"
    and "content (pbufs s) bl' (xs @ q # ys) = overwrite (plen (pbufs s) xs + i) bs (content (pbufs s) (blocks s) (xs @ q # ys))"
    and "packet (s\<lparr>blocks := bl'\<rparr>) p (xs @ q # ys)"
    and "k \<noteq> q \<Longrightarrow> bl' k = blocks s k"
proof -
  let ?hp = "pbufs s" and ?bl = "blocks s"
  obtain ofs where o: "payload b = Some (q, ofs)" using assms(2,3) by (auto simp: own_payload_def)
  have ok: "payload_ok ?bl b" using assms(1,3) by (auto simp: packet_def)
  note w = own_write [OF o ok assms(4,5)]
  show "memcpy_to (ptr_add (payload b) (int i)) bs s = Ret () (s\<lparr>blocks := bl'\<rparr>)"
    using w(1) assms(5) by (simp add: memcpy_to_def bl'_def)
  show "packet (s\<lparr>blocks := bl'\<rparr>) p (xs @ q # ys)"
    using assms(1) w(4) unfolding packet_def payload_ok_def bl'_def by simp
  show "k \<noteq> q \<Longrightarrow> bl' k = ?bl k" unfolding bl'_def by (rule w(3))
  have dis: "q \<notin> set xs" "q \<notin> set ys" using chain_distinct [of ?hp p "xs @ q # ys"] assms(1) by (auto simp: packet_def)
  have other: "bytes_at ?hp bl' k = bytes_at ?hp ?bl k" if k: "k \<in> set xs \<union> set ys" for k
  proof -
    have "k \<noteq> q" using k dis by blast
    moreover obtain o' where "payload (the (?hp k)) = Some (k, o')" using assms(2) k by (fastforce simp: own_payload_def)
    ultimately show ?thesis using w(3) by (simp add: bytes_at_def block_read_def bl'_def)
  qed
  have "content ?hp bl' xs = content ?hp ?bl xs" "content ?hp bl' ys = content ?hp ?bl ys"
    by (rule content_cong, use other in blast)+
  moreover have "bytes_at ?hp bl' q = overwrite i bs (bytes_at ?hp ?bl q)" using w(2) assms(3) by (simp add: bytes_at_def bl'_def)
  moreover have "length (content ?hp ?bl xs) = plen ?hp xs" by (rule content_len) (use assms(1) in \<open>auto simp: packet_def\<close>)
  moreover have "length (bytes_at ?hp ?bl q) = unat (len b)" using bytes_at_len [of ?bl ?hp q] ok assms(3) by simp
  ultimately show "content ?hp bl' (xs @ q # ys) = overwrite (plen ?hp xs + i) bs (content ?hp ?bl (xs @ q # ys))"
    using assms(4) by (simp add: overwrite_def)
qed

lemma pbuf_put_at_run:
  assumes "packet s p ps" and "own_payload (pbufs s) ps" and "length ps < n"
  shows "\<exists>t. pbuf_put_at n p off d s = Ret () t \<and> pbufs t = pbufs s \<and> packet t p ps \<and>
    content (pbufs t) (blocks t) ps = (content (pbufs s) (blocks s) ps)[unat off := d]"
proof -
  have ch: "chain (pbufs s) p ps" using assms(1) by (simp add: packet_def)
  have cl: "length (content (pbufs s) (blocks s) ps) = plen (pbufs s) ps" by (rule content_len) (use assms(1) in \<open>auto simp: packet_def\<close>)
  from pbuf_skip_run [OF ch assms(3), of off] show ?thesis
  proof (elim disjE exE conjE)
    fix xs q ys assume ps: "ps = xs @ q # ys" and lo: "plen (pbufs s) xs \<le> unat off" and hi: "unat off < plen (pbufs s) (xs @ [q])"
      and sk: "pbuf_skip n p off s = Ret (q, of_nat (unat off - plen (pbufs s) xs)) s"
    obtain b where b: "pbufs s q = Some b" "q \<noteq> 0" using packet_parts assms(1) ps by metis
    let ?i = "unat off - plen (pbufs s) xs"
    have i: "?i + length [d] \<le> unat (len b)" using lo hi b(1) by simp
    have ui: "unat (of_nat ?i :: u16) = ?i" using unsigned_less [of off, where ?'a = nat] by (simp add: unat_of_nat)
    then have uu: "uint (of_nat ?i :: u16) = int ?i" by (simp only: uint_nat)
    note w = content_write [OF assms(1) [unfolded ps] assms(2) [unfolded ps] b(1) i]
    have "overwrite (plen (pbufs s) xs + ?i) [d] (content (pbufs s) (blocks s) ps) = (content (pbufs s) (blocks s) ps)[unat off := d]"
      using lo hi cl ps by (simp add: overwrite_def upd_conv_take_nth_drop)
    then show ?thesis
      using sk b i ui uu w ps by (simp add: pbuf_put_at_def word_less_nat_alt)
  next
    assume "plen (pbufs s) ps \<le> unat off" "pbuf_skip n p off s = Ret (0, of_nat (unat off - plen (pbufs s) ps)) s"
    moreover then have "(content (pbufs s) (blocks s) ps)[unat off := d] = content (pbufs s) (blocks s) ps"
      using cl by (simp add: list_update_beyond)
    ultimately show ?thesis using assms(1) by (simp add: pbuf_put_at_def)
  qed
qed

text \<open>
  C27. A packet is an array of bytes for \<^verbatim>\<open>pbuf_get_at\<close> and \<^verbatim>\<open>pbuf_put_at\<close>, whatever its buffers: a byte written at an offset is
  read back there, every other offset reads as before, and offsets behind the end read as zero.
\<close>

theorem pbuf_bytes_are_an_array:
  assumes "packet s p ps" and "own_payload (pbufs s) ps" and "length ps < n"
  shows "\<exists>t. pbuf_put_at n p i d s = Ret () t \<and>
    pbuf_get_at n p j t = Ret (if plen (pbufs s) ps \<le> unat j then 0 else if i = j then d else content (pbufs s) (blocks s) ps ! unat j) t \<and>
    pbuf_get_at n p j s = Ret (if plen (pbufs s) ps \<le> unat j then 0 else content (pbufs s) (blocks s) ps ! unat j) s"
proof -
  obtain t where t: "pbuf_put_at n p i d s = Ret () t" "pbufs t = pbufs s" "packet t p ps"
    "content (pbufs t) (blocks t) ps = (content (pbufs s) (blocks s) ps)[unat i := d]" using pbuf_put_at_run [OF assms] by blast
  have "length (content (pbufs s) (blocks s) ps) = plen (pbufs s) ps" by (rule content_len) (use assms(1) in \<open>auto simp: packet_def\<close>)
  moreover have "unat i = unat j \<longleftrightarrow> i = j" by (simp add: word_unat_eq_iff)
  ultimately show ?thesis
    using t pbuf_get_at_run [OF t(3) assms(3), of j] pbuf_get_at_run [OF assms(1,3), of j]
    by (auto simp: nth_list_update)
qed

theorem pbuf_bytes_are_an_array_witness:
  "\<exists>t. pbuf_put_at 9 4 3 9 two_packets = Ret () t \<and> pbuf_get_at 9 4 3 t = Ret 9 t \<and> pbuf_get_at 9 4 3 two_packets = Ret 4 two_packets"
  using pbuf_bytes_are_an_array [OF two_packets_ok(1,7), of 9 3 9 3] unfolding two_packets_ok by auto

section \<open>Copying out and in\<close>

lemma block_read_part:
  assumes "payload_ok bl b" and "i + m \<le> unat (len b)" and "0 < m"
  shows "in_block bl (ptr_add (payload b) (int i)) m" and "block_read bl (ptr_add (payload b) (int i)) m = take m (drop i (block_read bl (payload b) (unat (len b))))"
proof -
  have "in_block bl (payload b) (unat (len b))" using assms by (auto simp: payload_ok_def)
  then obtain k ofs d where d: "payload b = Some (k, ofs)" "bl k = Some d" "0 \<le> ofs" "nat ofs + unat (len b) \<le> length d"
    by (auto simp: in_block_def split: option.splits)
  then have n: "nat (ofs + int i) = nat ofs + i" by simp
  show "in_block bl (ptr_add (payload b) (int i)) m" using d assms(2) n by (simp add: in_block_def ptr_add_def)
  show "block_read bl (ptr_add (payload b) (int i)) m = take m (drop i (block_read bl (payload b) (unat (len b))))"
    using d assms(2) n by (simp add: block_read_def ptr_add_def drop_take add.commute)
qed

lemma memcpy_from_run:
  assumes "payload_ok (blocks s) b" and "i + m \<le> unat (len b)" and "pbufs s q = Some b"
  shows "memcpy_from (ptr_add (payload b) (int i)) m s = Ret (take m (drop i (bytes_at (pbufs s) (blocks s) q))) s"
  using block_read_part [OF assms(1,2)] assms(3) by (cases "m = 0") (simp_all add: memcpy_from_def bytes_at_def)

lemma copy_partial_loop_run:
  assumes "chain (pbufs s) p ps" and "\<forall>q \<in> set ps. payload_ok (blocks s) (the (pbufs s q))" and "length ps < n"
    and "unat off \<le> plen (pbufs s) ps"
  shows "copy_partial_loop n p ln off data c s =
    Ret (data @ take (unat ln) (drop (unat off) (content (pbufs s) (blocks s) ps)),
      c + of_nat (min (unat ln) (plen (pbufs s) ps - unat off))) s"
  using assms
proof (induction ps arbitrary: p n ln off data c)
  case Nil
  then obtain m where "n = Suc m" by (cases n) auto
  then show ?case using Nil by simp
next
  case (Cons q qs)
  then obtain m where n: "n = Suc m" "length qs < m" by (cases n) auto
  obtain b where b: "pbufs s q = Some b" "p = q" "q \<noteq> 0" "chain (pbufs s) (pnext b) qs" using Cons.prems(1) by auto
  have ok: "payload_ok (blocks s) b" "\<forall>q \<in> set qs. payload_ok (blocks s) (the (pbufs s q))" using Cons.prems(2) b(1) by auto
  have lq: "length (bytes_at (pbufs s) (blocks s) q) = unat (len b)" using bytes_at_len [of "blocks s" "pbufs s" q] ok(1) b(1) by simp
  have lc: "length (content (pbufs s) (blocks s) qs) = plen (pbufs s) qs" by (rule content_len) (rule ok(2))
  show ?case
  proof (cases "ln = 0")
    case True
    then show ?thesis using n by simp
  next
    case nz: False
    show ?thesis
    proof (cases "off \<noteq> 0 \<and> off \<ge> len b")
      case True
      then have sub: "unat (off - len b) = unat off - unat (len b)" "unat (len b) \<le> unat off" by (simp_all add: unat_sub word_le_nat_alt)
      have le: "unat (off - len b) \<le> plen (pbufs s) qs" using Cons.prems(4) b(1) sub by simp
      show ?thesis
        using Cons.IH [OF b(4) ok(2) n(2) le, of ln data c] b n nz True sub lq by (simp add: add.commute)
    next
      case False
      then have le: "unat off \<le> unat (len b)" by (auto simp: word_le_nat_alt)
      define l where "l = (if len b - off > ln then ln else len b - off)"
      have sub: "unat (len b - off) = unat (len b) - unat off" using le by (simp add: unat_sub word_le_nat_alt)
      then have l: "unat l = min (unat ln) (unat (len b) - unat off)" by (auto simp: l_def word_less_nat_alt)
      then have ul: "unat (ln - l) = unat ln - unat l" "unat l \<le> unat ln" by (simp_all add: unat_sub word_le_nat_alt)
      have rd: "memcpy_from (ptr_add (payload b) (int (unat off))) (unat l) s =
          Ret (take (unat l) (drop (unat off) (bytes_at (pbufs s) (blocks s) q))) s"
        by (rule memcpy_from_run [OF ok(1) _ b(1)]) (use l le in auto)
      have z: "unat (0 :: u16) \<le> plen (pbufs s) qs" by simp
      have run: "copy_partial_loop n p ln off data c s = copy_partial_loop m (pnext b) (ln - l) 0
          (data @ take (unat l) (drop (unat off) (bytes_at (pbufs s) (blocks s) q))) (c + l) s"
        using b n nz False rd by (auto simp: Let_def l_def [symmetric])
      have "take (unat l) (drop (unat off) (bytes_at (pbufs s) (blocks s) q)) @ take (unat (ln - l)) (content (pbufs s) (blocks s) qs) =
          take (unat ln) (drop (unat off) (content (pbufs s) (blocks s) (q # qs)))"
        using l ul lq le by (auto simp: min_def split: if_splits)
      moreover have "l + of_nat (min (unat (ln - l)) (plen (pbufs s) qs)) =
          (of_nat (min (unat ln) (plen (pbufs s) (q # qs) - unat off)) :: u16)"
      proof -
        have "unat l + min (unat (ln - l)) (plen (pbufs s) qs) = min (unat ln) (plen (pbufs s) (q # qs) - unat off)"
          using l ul le b(1) by (auto simp: min_def split: if_splits)
        then show ?thesis by (metis of_nat_add of_nat_unat ucast_id)
      qed
      ultimately show ?thesis
        using run Cons.IH [OF b(4) ok(2) n(2) z, of "ln - l" "data @ take (unat l) (drop (unat off) (bytes_at (pbufs s) (blocks s) q))" "c + l"]
        by (simp add: add.assoc)
    qed
  qed
qed

lemma ptr_add_0 [simp]: "ptr_add pl 0 = pl"
  by (cases pl) (simp_all add: ptr_add_def)

lemma overwrite_0: "overwrite 0 bs d = bs @ drop (length bs) d"
  by (simp add: overwrite_def)

lemma take_loop_run:
  assumes "chain (pbufs s) p ps" and "\<forall>q \<in> set ps. payload_ok (blocks s) (the (pbufs s q))" and "own_payload (pbufs s) ps"
    and "length ps < n" and "unat tc \<le> plen (pbufs s) ps" and "unat cp + unat tc \<le> length data" and "unat cp + unat tc < 2 ^ 16"
  shows "\<exists>bl'. take_loop n p data tc cp s = Ret (0, cp + tc) (s\<lparr>blocks := bl'\<rparr>) \<and>
    content (pbufs s) bl' ps = take (unat tc) (drop (unat cp) data) @ drop (unat tc) (content (pbufs s) (blocks s) ps) \<and>
    (\<forall>k. k \<notin> set ps \<longrightarrow> bl' k = blocks s k) \<and> (\<forall>pl m. in_block bl' pl m = in_block (blocks s) pl m)"
  using assms
proof (induction ps arbitrary: p n s tc cp)
  case Nil
  then obtain m where "n = Suc m" by (cases n) auto
  then show ?case using Nil by (intro exI [of _ "blocks s"]) (simp add: unat_eq_0)
next
  case (Cons q qs)
  then obtain m where n: "n = Suc m" "length qs < m" by (cases n) auto
  obtain b where b: "pbufs s q = Some b" "p = q" "q \<noteq> 0" "chain (pbufs s) (pnext b) qs" using Cons.prems(1) by auto
  have qq: "q \<notin> set qs" using chain_distinct [OF Cons.prems(1)] by simp
  have ok: "payload_ok (blocks s) b" "\<forall>q \<in> set qs. payload_ok (blocks s) (the (pbufs s q))" using Cons.prems(2) b(1) by auto
  obtain ofs where o: "payload b = Some (q, ofs)" using Cons.prems(3) b(1) by (auto simp: own_payload_def)
  have oq: "own_payload (pbufs s) qs" using Cons.prems(3) by (simp add: own_payload_def)
  show ?case
  proof (cases "tc = 0")
    case True
    then show ?thesis using n by (intro exI [of _ "blocks s"]) simp
  next
    case nz: False
    define l where "l = (if tc > len b then len b else tc)"
    define bs where "bs = take (unat l) (drop (unat cp) data)"
    have l: "unat l = min (unat tc) (unat (len b))" by (auto simp: l_def word_less_nat_alt)
    have ul: "unat (tc - l) = unat tc - unat l" "unat (cp + l) = unat cp + unat l"
      using l Cons.prems(7) by (simp_all add: unat_sub word_le_nat_alt unat_word_ariths)
    have lb: "length bs = unat l" using Cons.prems(6) l by (simp add: bs_def)
    define bl where "bl = (if bs = [] then blocks s else block_write (ptr_add (payload b) (int 0)) bs (blocks s))"
    have fit: "0 + length bs \<le> unat (len b)" using lb l by simp
    have w: "memcpy_to (payload b) bs s = Ret () (s\<lparr>blocks := bl\<rparr>)" "bytes_at (pbufs s) bl q = bs @ drop (unat l) (bytes_at (pbufs s) (blocks s) q)"
      "\<And>k. k \<noteq> q \<Longrightarrow> bl k = blocks s k" "\<And>pl m. in_block bl pl m = in_block (blocks s) pl m"
      using own_write [OF o ok(1) fit] lb b(1) by (auto simp: bl_def memcpy_to_def bytes_at_def overwrite_0)
    let ?s = "s\<lparr>blocks := bl\<rparr>"
    have "\<exists>bl'. take_loop m (pnext b) data (tc - l) (cp + l) ?s = Ret (0, cp + l + (tc - l)) (?s\<lparr>blocks := bl'\<rparr>) \<and>
      content (pbufs ?s) bl' qs = take (unat (tc - l)) (drop (unat (cp + l)) data) @ drop (unat (tc - l)) (content (pbufs ?s) (blocks ?s) qs) \<and>
      (\<forall>k. k \<notin> set qs \<longrightarrow> bl' k = blocks ?s k) \<and> (\<forall>pl m. in_block bl' pl m = in_block (blocks ?s) pl m)"
    proof (rule Cons.IH)
      show "\<forall>q \<in> set qs. payload_ok (blocks ?s) (the (pbufs ?s q))" using ok(2) w(4) by (simp add: payload_ok_def)
      show "unat (tc - l) \<le> plen (pbufs ?s) qs" using Cons.prems(5) ul l b(1) by (simp add: min_def split: if_splits)
    qed (use b oq n ul l Cons.prems(6,7) in auto)
    then obtain bl' where bl': "take_loop m (pnext b) data (tc - l) (cp + l) ?s = Ret (0, cp + tc) (s\<lparr>blocks := bl'\<rparr>)"
      "content (pbufs s) bl' qs = take (unat tc - unat l) (drop (unat cp + unat l) data) @ drop (unat tc - unat l) (content (pbufs s) bl qs)"
      "\<And>k. k \<notin> set qs \<Longrightarrow> bl' k = bl k" "\<And>pl m. in_block bl' pl m = in_block bl pl m"
      unfolding ul by auto
    have cb: "caller_bytes data (unat cp) (unat l) s = Ret bs s" using Cons.prems(6) l by (simp add: caller_bytes_def bs_def)
    have run: "take_loop n p data tc cp s = Ret (0, cp + tc) (s\<lparr>blocks := bl'\<rparr>)"
      using b n nz bl'(1) w(1) cb by (simp add: Let_def l_def [symmetric])
    have "content (pbufs s) bl qs = content (pbufs s) (blocks s) qs"
    proof (rule content_cong)
      fix k assume k: "k \<in> set qs"
      obtain o' where "payload (the (pbufs s k)) = Some (k, o')" using oq k by (auto simp: own_payload_def)
      moreover have "k \<noteq> q" using k qq by blast
      ultimately show "bytes_at (pbufs s) bl k = bytes_at (pbufs s) (blocks s) k" using w(3) by (simp add: bytes_at_def block_read_def)
    qed
    moreover have "bytes_at (pbufs s) bl' q = bytes_at (pbufs s) bl q" using bl'(3) [OF qq] o b(1) by (simp add: bytes_at_def block_read_def)
    moreover have "length (bytes_at (pbufs s) (blocks s) q) = unat (len b)" using bytes_at_len [of "blocks s" "pbufs s" q] ok(1) b(1) by simp
    moreover have "take (unat tc) (drop (unat cp) data) = bs @ take (unat tc - unat l) (drop (unat cp + unat l) data)"
      using take_add [of "unat l" "unat tc - unat l" "drop (unat cp) data"] l by (simp add: bs_def add.commute)
    ultimately have "content (pbufs s) bl' (q # qs) = take (unat tc) (drop (unat cp) data) @ drop (unat tc) (content (pbufs s) (blocks s) (q # qs))"
      using bl'(2) w(2) l by (auto simp: min_def split: if_splits)
    then show ?thesis using run bl'(3,4) w(3,4) by (intro exI [of _ bl']) auto
  qed
qed

lemma pbuf_take_run:
  assumes "packet s p ps" and "own_payload (pbufs s) ps" and "ps \<noteq> []" and "length ps < n"
    and "unat ln \<le> plen (pbufs s) ps" and "unat ln \<le> length data"
  shows "\<exists>t. pbuf_take n p data ln s = Ret ERR_OK t \<and> pbufs t = pbufs s \<and> packet t p ps \<and>
    content (pbufs t) (blocks t) ps = take (unat ln) data @ drop (unat ln) (content (pbufs s) (blocks s) ps)"
proof -
  have pk: "chain (pbufs s) p ps" "\<forall>q \<in> set ps. payload_ok (blocks s) (the (pbufs s q))" using assms(1) by (auto simp: packet_def)
  obtain b where b: "pbufs s p = Some b" "p \<noteq> 0" "unat (tot_len b) = plen (pbufs s) ps"
    using assms(1,3) by (cases ps) (auto simp: packet_def)
  obtain bl' where bl': "take_loop n p data ln 0 s = Ret (0, ln) (s\<lparr>blocks := bl'\<rparr>)"
    "content (pbufs s) bl' ps = take (unat ln) data @ drop (unat ln) (content (pbufs s) (blocks s) ps)"
    "\<forall>pl m. in_block bl' pl m = in_block (blocks s) pl m"
    using take_loop_run [OF pk assms(2,4,5), of 0 data] assms(6) unsigned_less [of ln, where ?'a = nat] by auto
  have "\<not> tot_len b < ln" using b(3) assms(5) by (simp add: word_less_nat_alt)
  then have "pbuf_take n p data ln s = Ret ERR_OK (s\<lparr>blocks := bl'\<rparr>)" using b bl'(1) by (simp add: pbuf_take_def)
  moreover have "packet (s\<lparr>blocks := bl'\<rparr>) p ps" using assms(1) bl'(3) by (simp add: packet_def payload_ok_def)
  ultimately show ?thesis using bl'(2) by simp
qed

text \<open>
  C28. Data copied into a packet is copied out of it again, whatever its buffers: after \<^verbatim>\<open>pbuf_take\<close> of as many bytes as the packet holds,
  \<^verbatim>\<open>pbuf_copy_partial\<close> at any offset and for any length returns those bytes of the data, and no more than there are.
\<close>

theorem pbuf_take_then_copy:
  assumes "packet s p ps" and "own_payload (pbufs s) ps" and "ps \<noteq> []" and "length ps < n"
    and "plen (pbufs s) ps = length data" and "unat off \<le> length data"
  shows "\<exists>t. pbuf_take n p data (of_nat (length data)) s = Ret ERR_OK t \<and>
    pbuf_copy_partial n p ln off t = Ret (take (unat ln) (drop (unat off) data), of_nat (min (unat ln) (length data - unat off))) t"
proof -
  have "unat (tot_len (the (pbufs s p))) = length data" using assms(1,3,5) by (cases ps) (auto simp: packet_def)
  then have l: "unat (of_nat (length data) :: u16) = length data"
    using unsigned_less [of "tot_len (the (pbufs s p))", where ?'a = nat] by (simp add: unat_of_nat)
  obtain t where t: "pbuf_take n p data (of_nat (length data)) s = Ret ERR_OK t" "pbufs t = pbufs s" "packet t p ps"
    "content (pbufs t) (blocks t) ps = data @ drop (length data) (content (pbufs s) (blocks s) ps)"
    using pbuf_take_run [OF assms(1-4), of "of_nat (length data)" data] assms(5) l by auto
  have "length (content (pbufs s) (blocks s) ps) = plen (pbufs s) ps" by (rule content_len) (use assms(1) in \<open>auto simp: packet_def\<close>)
  then have c: "content (pbufs t) (blocks t) ps = data" using t(4) assms(5) by simp
  have "p \<noteq> 0" using assms(1,3) by (cases ps) (auto simp: packet_def)
  moreover have "copy_partial_loop n p ln off [] 0 t = Ret ([] @ take (unat ln) (drop (unat off) data), 0 + of_nat (min (unat ln) (length data - unat off))) t"
    using copy_partial_loop_run [of t p ps n off ln "[]" 0] t(3) assms(4-6) t(2) c by (auto simp: packet_def)
  ultimately show ?thesis using t(1) by (simp add: pbuf_copy_partial_def)
qed

theorem pbuf_take_then_copy_witness:
  "\<exists>t. pbuf_take 9 4 [10, 11, 12, 13, 14] 5 two_packets = Ret ERR_OK t \<and> pbuf_copy_partial 9 4 2 2 t = Ret ([12, 13], 2) t"
  using pbuf_take_then_copy [OF two_packets_ok(1,7), of 9 "[10, 11, 12, 13, 14]" 2 2] unfolding two_packets_ok by auto

section \<open>A position at the start of a buffer\<close>

text \<open>
  \<^verbatim>\<open>pbuf_take_at\<close> writes correctly only when the offset is not at the start of a buffer: writing at offset 0 of a
  packet of one buffer, for which there is room, stops with the assertion about a missing buffer instead, because
  the first part is skipped when the offset inside the buffer is zero.
\<close>

theorem pbuf_take_at_start_aborts:
  assumes "packet s p [p]" and "0 < ln" and "unat ln \<le> plen (pbufs s) [p]"
  shows "\<exists>t. pbuf_take_at (Suc n) p data ln 0 s = Halt (Panic ''pbuf_take: invalid buf'') t"
proof -
  obtain b where b: "pbufs s p = Some b" "p \<noteq> 0" "pnext b = 0" "tot_len b = len b" using assms(1) by (auto simp: packet_def word_unat_eq_iff)
  then have "\<not> len b \<le> 0" using assms(2,3) by (auto simp: word_less_nat_alt)
  then show ?thesis
    using b assms(2,3) by (auto simp: pbuf_take_at_def pbuf_take_def lwip_assert_fails_def printf_def emit_def)
qed

theorem pbuf_take_at_start_aborts_witness:
  "\<exists>t. pbuf_take_at (Suc 8) 12 [1] 1 0 two_packets = Halt (Panic ''pbuf_take: invalid buf'') t"
  using pbuf_take_at_start_aborts [OF two_packets_ok(2), of 1 8 "[1]"] unfolding two_packets_ok by simp

section \<open>Searching\<close>

definition occurs_at :: "u8 list \<Rightarrow> u8 list \<Rightarrow> nat \<Rightarrow> bool" where
  "occurs_at mem bs i \<longleftrightarrow> take (length mem) (drop i bs) = mem"

lemma occurs_at_Cons: "i < length bs \<Longrightarrow> occurs_at (m # mem) bs i \<longleftrightarrow> bs ! i = m \<and> occurs_at mem bs (Suc i)"
  by (auto simp: occurs_at_def take_Suc_conv_app_nth Cons_nth_drop_Suc [symmetric])

lemma occurs_at_room: "occurs_at mem bs j \<Longrightarrow> length mem \<le> length bs - j"
  unfolding occurs_at_def by (drule arg_cong [where f = length]) simp

lemma memcmp_loop_run:
  assumes "packet s q qs" and "length qs < n" and "unat st + unat i + length mem \<le> plen (pbufs s) qs"
    and "plen (pbufs s) qs < 2 ^ 16"
  shows "\<exists>r. memcmp_loop n q st mem i s = Ret r s \<and> (r = 0 \<longleftrightarrow> occurs_at mem (content (pbufs s) (blocks s) qs) (unat st + unat i))"
  using assms(3)
proof (induction mem arbitrary: i)
  case Nil
  then show ?case by (simp add: occurs_at_def)
next
  case (Cons m mem)
  let ?c = "content (pbufs s) (blocks s) qs"
  have lc: "length ?c = plen (pbufs s) qs" by (rule content_len) (use assms(1) in \<open>auto simp: packet_def\<close>)
  have u: "unat (st + i) = unat st + unat i" "unat (i + 1) = unat i + 1" using Cons.prems assms(4) by (simp_all add: unat_word_ariths)
  then have nz: "i + 1 \<noteq> 0" by (metis add_is_0 one_neq_zero unat_0)
  have lt: "unat st + unat i < plen (pbufs s) qs" using Cons.prems by simp
  have get: "pbuf_get_at n q (st + i) s = Ret (?c ! (unat st + unat i)) s"
    using pbuf_get_at_run [OF assms(1,2), of "st + i"] u lt by simp
  have "\<exists>r. memcmp_loop n q st mem (i + 1) s = Ret r s \<and> (r = 0 \<longleftrightarrow> occurs_at mem ?c (unat st + unat (i + 1)))"
    by (rule Cons.IH) (use Cons.prems u in simp)
  then show ?case using get nz u lt lc by (auto simp: occurs_at_Cons)
qed

lemma plen_packet: "packet s p ps \<Longrightarrow> plen (pbufs s) ps < 2 ^ 16"
  using unsigned_less [of "tot_len (the (pbufs s p))", where ?'a = nat] by (cases ps) (auto simp: packet_def)

lemma pbuf_memcmp_run:
  assumes "packet s p ps" and "length ps < n" and "unat off + length mem \<le> plen (pbufs s) ps" and "mem \<noteq> []"
  shows "\<exists>r. pbuf_memcmp n p off mem s = Ret r s \<and> (r = 0 \<longleftrightarrow> occurs_at mem (content (pbufs s) (blocks s) ps) (unat off))"
proof -
  have ch: "chain (pbufs s) p ps" using assms(1) by (simp add: packet_def)
  have lt: "\<not> plen (pbufs s) ps \<le> unat off" using assms(3,4) by (cases mem) auto
  obtain xs q ys where ps: "ps = xs @ q # ys" and lo: "plen (pbufs s) xs \<le> unat off" and hi: "unat off < plen (pbufs s) (xs @ [q])"
    and sk: "pbuf_skip n p off s = Ret (q, of_nat (unat off - plen (pbufs s) xs)) s"
    using pbuf_skip_run [OF ch assms(2), of off] lt by blast
  obtain b where b: "pbufs s q = Some b" "q \<noteq> 0" "packet s q (q # ys)" using packet_parts assms(1) ps by metis
  let ?st = "of_nat (unat off - plen (pbufs s) xs) :: u16"
  have ui: "unat ?st = unat off - plen (pbufs s) xs" using unsigned_less [of off, where ?'a = nat] by (simp add: unat_of_nat)
  have "\<exists>r. memcmp_loop n q ?st mem 0 s = Ret r s \<and> (r = 0 \<longleftrightarrow> occurs_at mem (content (pbufs s) (blocks s) (q # ys)) (unat ?st + unat (0 :: u16)))"
  proof (rule memcmp_loop_run [OF b(3)])
    show "unat ?st + unat (0 :: u16) + length mem \<le> plen (pbufs s) (q # ys)" using assms(3) ps lo ui by simp
    show "plen (pbufs s) (q # ys) < 2 ^ 16" by (rule plen_packet [OF b(3)])
  qed (use assms(2) ps in simp)
  moreover have "length (content (pbufs s) (blocks s) xs) = plen (pbufs s) xs"
    by (rule content_len) (use assms(1) ps in \<open>auto simp: packet_def\<close>)
  then have "occurs_at mem (content (pbufs s) (blocks s) (q # ys)) (unat ?st) = occurs_at mem (content (pbufs s) (blocks s) ps) (unat off)"
    using lo ps ui by (simp add: occurs_at_def)
  moreover have "?st < len b" using ui lo hi b(1) by (simp add: word_less_nat_alt)
  ultimately show ?thesis using sk b by (simp add: pbuf_memcmp_def)
qed

lemma memfind_loop_run:
  assumes "packet s p ps" and "length ps < n" and "mem \<noteq> []" and "unat mx + length mem = plen (pbufs s) ps"
    and "unat mx + 1 - unat i < k" and "unat i \<le> unat mx + 1"
  shows "\<exists>r. memfind_loop k n p mem i mx s = Ret r s \<and>
    (r = 0xffff \<and> (\<forall>j. unat i \<le> j \<longrightarrow> \<not> occurs_at mem (content (pbufs s) (blocks s) ps) j) \<or>
     unat i \<le> unat r \<and> occurs_at mem (content (pbufs s) (blocks s) ps) (unat r) \<and>
     (\<forall>j. unat i \<le> j \<and> j < unat r \<longrightarrow> \<not> occurs_at mem (content (pbufs s) (blocks s) ps) j))"
  using assms(5,6)
proof (induction k arbitrary: i)
  case (Suc k)
  let ?c = "content (pbufs s) (blocks s) ps"
  have lc: "length ?c = plen (pbufs s) ps" by (rule content_len) (use assms(1) in \<open>auto simp: packet_def\<close>)
  have far: "\<not> occurs_at mem ?c j" if "unat mx < j" for j
  proof
    assume "occurs_at mem ?c j"
    then have "length mem \<le> length ?c - j" by (rule occurs_at_room)
    then show False using that lc assms(3,4) by (cases mem) auto
  qed
  show ?case
  proof (cases "i \<le> mx")
    case True
    then have le: "unat i \<le> unat mx" by (simp add: word_le_nat_alt)
    have mx: "unat mx + 1 < 2 ^ 16" using plen_packet [OF assms(1)] assms(3,4) by (cases mem) auto
    then have u: "unat (i + 1) = unat i + 1" using le by (simp add: unat_word_ariths)
    obtain r where r: "pbuf_memcmp n p i mem s = Ret r s" "r = 0 \<longleftrightarrow> occurs_at mem ?c (unat i)"
      using pbuf_memcmp_run [OF assms(1,2) _ assms(3), of i] le assms(4) by auto
    show ?thesis
    proof (cases "r = 0")
      case True
      then show ?thesis using r \<open>i \<le> mx\<close> by (intro exI [of _ i]) auto
    next
      case False
      have less: "unat mx + 1 - unat (i + 1) < k" "unat (i + 1) \<le> unat mx + 1" using Suc.prems u le by auto
      obtain r' where r': "memfind_loop k n p mem (i + 1) mx s = Ret r' s"
        "r' = 0xffff \<and> (\<forall>j. unat (i + 1) \<le> j \<longrightarrow> \<not> occurs_at mem ?c j) \<or>
         unat (i + 1) \<le> unat r' \<and> occurs_at mem ?c (unat r') \<and> (\<forall>j. unat (i + 1) \<le> j \<and> j < unat r' \<longrightarrow> \<not> occurs_at mem ?c j)"
        using Suc.IH [OF less] by blast
      have "\<not> occurs_at mem ?c j" if "unat i \<le> j" "unat (i + 1) \<le> j \<Longrightarrow> \<not> occurs_at mem ?c j" for j
        using that r(2) False u by (cases "j = unat i") auto
      then show ?thesis using r(1) False r' u \<open>i \<le> mx\<close> by (intro exI [of _ r']) auto
    qed
  next
    case False
    then have "unat mx < unat i" by (simp add: word_le_nat_alt)
    then show ?thesis using False far by (intro exI [of _ "0xffff"]) auto
  qed
qed simp

text \<open>
  \<^verbatim>\<open>pbuf_memfind\<close> finds the first occurrence: for a non-empty pattern it returns the smallest offset from the start
  offset on at which the bytes of the packet are the pattern, across the borders of buffers, or 65535 when there is none; the search ends.
\<close>

theorem pbuf_memfind_finds_first:
  assumes "packet s p ps" and "ps \<noteq> []" and "length ps < n" and "mem \<noteq> []"
  shows "\<exists>r. pbuf_memfind n p mem st s = Ret r s \<and>
    (r = 0xffff \<and> (\<forall>j. unat st \<le> j \<longrightarrow> \<not> occurs_at mem (content (pbufs s) (blocks s) ps) j) \<or>
     unat st \<le> unat r \<and> occurs_at mem (content (pbufs s) (blocks s) ps) (unat r) \<and>
     (\<forall>j. unat st \<le> j \<and> j < unat r \<longrightarrow> \<not> occurs_at mem (content (pbufs s) (blocks s) ps) j))"
proof -
  let ?c = "content (pbufs s) (blocks s) ps"
  have lc: "length ?c = plen (pbufs s) ps" by (rule content_len) (use assms(1) in \<open>auto simp: packet_def\<close>)
  obtain b where b: "pbufs s p = Some b" "unat (tot_len b) = plen (pbufs s) ps" using assms(1,2) by (cases ps) (auto simp: packet_def)
  show ?thesis
  proof (cases "length mem + unat st \<le> unat (tot_len b)")
    case True
    let ?mx = "tot_len b - of_nat (length mem)"
    have "length mem < 2 ^ 16" using True unsigned_less [of "tot_len b", where ?'a = nat] by simp
    then have "unat (of_nat (length mem) :: u16) = length mem" by (simp add: unat_of_nat)
    then have mx: "unat ?mx = unat (tot_len b) - length mem" using True by (simp add: unat_sub word_le_nat_alt)
    have "unat ?mx + 1 - unat st < 2 ^ 16 + 1" using unsigned_less [of ?mx, where ?'a = nat] by simp
    then show ?thesis
      using memfind_loop_run [OF assms(1,3,4), of ?mx st "2 ^ 16 + 1"] True mx b by (simp add: pbuf_memfind_def del: memfind_loop.simps)
  next
    case False
    have "\<not> occurs_at mem ?c j" if j: "unat st \<le> j" for j
    proof
      assume "occurs_at mem ?c j"
      then have "length mem \<le> length ?c - j" by (rule occurs_at_room)
      then show False using j lc b(2) False assms(4) by (cases mem) auto
    qed
    then show ?thesis using False b by (intro exI [of _ "0xffff"]) (simp add: pbuf_memfind_def)
  qed
qed

theorem pbuf_memfind_finds_first_witness:
  "\<exists>r. pbuf_memfind 9 4 [3, 4] 0 two_packets = Ret r two_packets \<and> (r = 0xffff \<or> occurs_at [3, 4] [1, 2, 3, 4, 5] (unat r)) \<and> r \<noteq> 0xffff"
proof -
  have "occurs_at [3, 4] [1, 2, 3, 4, 5] 2" by (simp add: occurs_at_def)
  moreover have "\<not> occurs_at [3, 4] [1, 2, 3, 4, 5] (unat (0xffff :: u16))" by (simp add: occurs_at_def)
  ultimately show ?thesis
    using pbuf_memfind_finds_first [OF two_packets_ok(1), of 9 "[3, 4]" 0] unfolding two_packets_ok by auto
qed

section \<open>One buffer for a packet\<close>

lemma no_queue_run:
  assumes "chain (pbufs s) p ps" and "tots (pbufs s) 0 ps" and "\<forall>q \<in> set ps. 0 < len (the (pbufs s q))"
  shows "no_queue p s = Ret () s"
proof (cases ps)
  case Nil
  then show ?thesis using assms(1) by (simp add: no_queue_def)
next
  case (Cons q qs)
  then obtain b where b: "pbufs s q = Some b" "p = q" "q \<noteq> 0" "chain (pbufs s) (pnext b) qs" using assms(1) by auto
  have "pnext b = 0" if "len b = tot_len b"
  proof -
    have "plen (pbufs s) qs = 0" using assms(2) Cons b(1) that by simp
    then have "qs = []" using assms(3) Cons by (cases qs) (auto simp: word_less_nat_alt)
    then show ?thesis using b(4) by simp
  qed
  then show ?thesis using b by (simp add: no_queue_def)
qed

lemma copy_loop_run:
  assumes "chain (pbufs s) p ps" and "ps \<noteq> []" and "tots (pbufs s) 0 ps" and "\<forall>q \<in> set ps. 0 < len (the (pbufs s q))"
    and "\<forall>q \<in> set ps. payload_ok (blocks s) (the (pbufs s q))" and "own_payload (pbufs s) ps"
    and "pbufs s q = Some bt" and "q \<noteq> 0" and "q \<notin> set ps" and "pnext bt = 0" and "payload bt = Some (q, ofs)" and "payload_ok (blocks s) bt"
    and "k + plen (pbufs s) ps = unat (len bt)" and "length ps \<le> n"
  shows "\<exists>bl'. copy_loop n q p k 0 s = Ret ERR_OK (s\<lparr>blocks := bl'\<rparr>) \<and>
    bytes_at (pbufs s) bl' q = take k (bytes_at (pbufs s) (blocks s) q) @ content (pbufs s) (blocks s) ps \<and>
    (\<forall>j. j \<noteq> q \<longrightarrow> bl' j = blocks s j) \<and> (\<forall>pl m. in_block bl' pl m = in_block (blocks s) pl m)"
  using assms
proof (induction ps arbitrary: p n s k)
  case (Cons x xs)
  then obtain m where n: "n = Suc m" "length xs \<le> m" by (cases n) auto
  obtain bf where b: "pbufs s x = Some bf" "p = x" "x \<noteq> 0" "chain (pbufs s) (pnext bf) xs" using Cons.prems(1) by auto
  let ?hp = "pbufs s" let ?l = "unat (len bf)" let ?bs = "bytes_at ?hp (blocks s) x"
  have okx: "payload_ok (blocks s) bf" using Cons.prems(5) b(1) by auto
  have lx: "length ?bs = ?l" using bytes_at_len [of "blocks s" ?hp x] okx b(1) by simp
  have pos: "0 < ?l" using Cons.prems(4) b(1) by (simp add: word_less_nat_alt)
  have fit: "k + length ?bs \<le> unat (len bt)" using Cons.prems(13) b(1) lx by simp
  define bl where "bl = block_write (ptr_add (payload bt) (int k)) ?bs (blocks s)"
  have ne: "?bs \<noteq> []" using lx pos by auto
  note w = own_write [OF Cons.prems(11,12) fit ne, folded bl_def]
  let ?s = "s\<lparr>blocks := bl\<rparr>"
  have rd: "memcpy_from (ptr_add (payload bf) (int 0)) ?l s = Ret ?bs s"
    using memcpy_from_run [OF okx, of 0 ?l x] b(1) lx by simp
  have wr: "memcpy_to (ptr_add (payload bt) (int k)) ?bs s = Ret () ?s" using w(1) ne by (simp add: memcpy_to_def bl_def)
  have lt: "length (bytes_at ?hp (blocks s) q) = unat (len bt)" using bytes_at_len [of "blocks s" ?hp q] Cons.prems(7,12) by simp
  have bq: "bytes_at ?hp bl q = overwrite k ?bs (bytes_at ?hp (blocks s) q)" using w(2) Cons.prems(7) by (simp add: bytes_at_def)
  have tk: "take (k + ?l) (bytes_at ?hp bl q) = take k (bytes_at ?hp (blocks s) q) @ ?bs"
    using bq lt fit lx by (simp add: overwrite_def)
  have tx: "tots ?hp 0 xs" "\<forall>q \<in> set xs. 0 < len (the (?hp q))" using Cons.prems(3,4) by auto
  have le: "int k + int ?l \<le> int (unat (len bt))" unfolding of_nat_add [symmetric] of_nat_le_iff using fit lx by simp
  show ?case
  proof (cases "xs = []")
    case True
    then have z: "pnext bf = 0" "k + ?l = unat (len bt)" using b(4) Cons.prems(13) b(1) by auto
    then have "copy_loop n q p k 0 s = Ret ERR_OK ?s"
      using n b Cons.prems(7,8,10) rd wr le by (simp add: Let_def no_queue_def)
    moreover have "take (k + ?l) (bytes_at ?hp bl q) = bytes_at ?hp bl q" using bq z lt fit lx by (simp add: overwrite_def)
    ultimately show ?thesis using tk True w(3,4) by (intro exI [of _ bl]) auto
  next
    case False
    then have px: "0 < plen ?hp xs" using tx(2) by (cases xs) (auto simp: word_less_nat_alt)
    then have less: "k + ?l < unat (len bt)" using Cons.prems(13) b(1) by simp
    have nz: "pnext bf \<noteq> 0" using b(4) False by (cases xs) auto
    have nq: "no_queue (pnext bf) ?s = Ret () ?s" "no_queue q ?s = Ret () ?s"
      using no_queue_run [of ?s "pnext bf" xs] b(4) tx Cons.prems(7,10) by (simp_all add: no_queue_def)
    have run: "copy_loop n q p k 0 s = copy_loop m q (pnext bf) (k + ?l) 0 ?s"
      using n b Cons.prems(7,8) rd wr le less nz nq by (simp add: Let_def)
    have "\<exists>bl'. copy_loop m q (pnext bf) (k + ?l) 0 ?s = Ret ERR_OK (?s\<lparr>blocks := bl'\<rparr>) \<and>
      bytes_at (pbufs ?s) bl' q = take (k + ?l) (bytes_at (pbufs ?s) (blocks ?s) q) @ content (pbufs ?s) (blocks ?s) xs \<and>
      (\<forall>j. j \<noteq> q \<longrightarrow> bl' j = blocks ?s j) \<and> (\<forall>pl m. in_block bl' pl m = in_block (blocks ?s) pl m)"
    proof (rule Cons.IH)
      show "\<forall>q \<in> set xs. payload_ok (blocks ?s) (the (pbufs ?s q))" using Cons.prems(5) w(4) by (simp add: payload_ok_def)
      show "payload_ok (blocks ?s) bt" using Cons.prems(12) w(4) by (simp add: payload_ok_def)
      show "k + ?l + plen (pbufs ?s) xs = unat (len bt)" using Cons.prems(13) b(1) by simp
    qed (use b False tx n Cons.prems in \<open>auto simp: own_payload_def\<close>)
    moreover have "content ?hp bl xs = content ?hp (blocks s) xs"
    proof (rule content_cong)
      fix j assume j: "j \<in> set xs"
      then obtain o' where "payload (the (?hp j)) = Some (j, o')" using Cons.prems(6) by (auto simp: own_payload_def)
      moreover have "j \<noteq> q" using j Cons.prems(9) by auto
      ultimately show "bytes_at ?hp bl j = bytes_at ?hp (blocks s) j" using w(3) by (simp add: bytes_at_def block_read_def)
    qed
    ultimately show ?thesis using run tk w(3,4) by auto
  qed
qed simp

text \<open>A packet whose buffers and blocks are untouched is still a packet, with the same bytes.\<close>

lemma packet_frame:
  assumes "packet s p ps" and "own_payload (pbufs s) ps" and "\<And>k. k \<in> set ps \<Longrightarrow> pbufs t k = pbufs s k \<and> blocks t k = blocks s k"
  shows "packet t p ps" and "own_payload (pbufs t) ps" and "content (pbufs t) (blocks t) ps = content (pbufs s) (blocks s) ps"
    and "plen (pbufs t) ps = plen (pbufs s) ps"
proof -
  have own: "\<exists>ofs. payload (the (pbufs s k)) = Some (k, ofs)" if "k \<in> set ps" for k using assms(2) that by (simp add: own_payload_def)
  have "chain (pbufs t) p ps = chain (pbufs s) p ps" by (rule chain_cong) (simp add: assms(3))
  moreover have "tots (pbufs t) 0 ps = tots (pbufs s) 0 ps" by (rule tots_cong) (simp add: assms(3))
  moreover have "payload_ok (blocks t) (the (pbufs t k)) = payload_ok (blocks s) (the (pbufs s k))" if "k \<in> set ps" for k
    using own [OF that] assms(3) [OF that] by (auto simp: payload_ok_def in_block_def)
  ultimately show "packet t p ps" using assms(1,3) by (simp add: packet_def)
  show "own_payload (pbufs t) ps" using assms(2,3) by (simp add: own_payload_def)
  show "content (pbufs t) (blocks t) ps = content (pbufs s) (blocks s) ps"
  proof (rule content_cong)
    fix k assume k: "k \<in> set ps"
    show "bytes_at (pbufs t) (blocks t) k = bytes_at (pbufs s) (blocks s) k"
      using own [OF k] assms(3) [OF k] by (auto simp: bytes_at_def block_read_def)
  qed
  show "plen (pbufs t) ps = plen (pbufs s) ps" by (rule plen_cong) (simp add: assms(3))
qed

text \<open>
  Coalescing keeps the contents: when memory for it can be had, the result is a packet of a single
  buffer with the same bytes, and the old buffers are given up; otherwise the packet is returned as it was.
\<close>

theorem pbuf_coalesce_keeps_content:
  assumes "malloc_ok M" and "packet s p ps" and "own_payload (pbufs s) ps" and "\<forall>q \<in> set ps. 0 < len (the (pbufs s q))"
    and "2 \<le> length ps" and "length ps < n"
  shows "\<exists>a t. pbuf_coalesce M n p layer s = Ret a t \<and>
    (a = p \<and> pbufs t = pbufs s \<and> blocks t = blocks s \<or>
     packet t a [a] \<and> content (pbufs t) (blocks t) [a] = content (pbufs s) (blocks s) ps)"
proof -
  let ?hp = "pbufs s"
  have pk: "chain ?hp p ps" "tots ?hp 0 ps" using assms(2) by (auto simp: packet_def)
  obtain b where b: "?hp p = Some b" "p \<noteq> 0" "pnext b \<noteq> 0" "unat (tot_len b) = plen ?hp ps"
    using assms(5) pk by (cases ps; cases "tl ps") auto
  obtain a t where al: "pbuf_alloc M n layer (tot_len b) PBUF_RAM s = Ret a t"
      "if a = 0 then pbufs t = ?hp \<and> blocks t = blocks s else new_packet s layer (tot_len b) a t [a]"
    using pbuf_alloc_ram_run [OF assms(1), of layer "tot_len b" s] by (auto simp: pbuf_alloc_def)
  show ?thesis
  proof (cases "a = 0")
    case True
    then show ?thesis using al b by (intro exI [of _ p] exI [of _ t]) (simp add: pbuf_coalesce_def)
  next
    case False
    then have new: "new_packet s layer (tot_len b) a t [a]" using al(2) by simp
    then obtain c ofs where c: "pbufs t a = Some c" "pnext c = 0" "payload c = Some (a, ofs)" "ref c = 1" "payload_ok (blocks t) c"
      "len c = tot_len b" "tot_len c = tot_len b" "?hp a = None"
      by (auto simp: new_packet_def adds_def new_at_def payload_ok_def in_block_def word_unat_eq_iff split: option.splits)
    have same: "pbufs t k = ?hp k" "blocks t k = blocks s k" if "k \<noteq> a" for k using new that by (auto simp: new_packet_def adds_def)
    have an: "a \<notin> set ps" using c(8) chain_alive [OF pk(1)] by fastforce
    have eq: "pbufs t k = ?hp k" "blocks t k = blocks s k" if "k \<in> set ps" for k using same [of k] that an by metis+
    note fr = packet_frame [OF assms(2,3), of t]
    have pt: "packet t p ps" "own_payload (pbufs t) ps" "content (pbufs t) (blocks t) ps = content ?hp (blocks s) ps" "plen (pbufs t) ps = plen ?hp ps"
      using fr eq by blast+
    have len: "\<forall>q \<in> set ps. 0 < len (the (pbufs t q))" using assms(4) eq by simp
    have ch: "chain (pbufs t) p ps" "tots (pbufs t) 0 ps" "\<forall>q \<in> set ps. payload_ok (blocks t) (the (pbufs t q))" "\<forall>q \<in> set ps. 0 < ref (the (pbufs t q))"
      using pt(1) by (auto simp: packet_def)
    have ne: "ps \<noteq> []" using assms(5) by auto
    have total: "0 + plen (pbufs t) ps = unat (len c)" using pt(4) b(4) c(6) by simp
    obtain bl where bl: "copy_loop n a p 0 0 t = Ret ERR_OK (t\<lparr>blocks := bl\<rparr>)" "bytes_at (pbufs t) bl a = content ?hp (blocks s) ps"
        "\<forall>pl m. in_block bl pl m = in_block (blocks t) pl m"
      using copy_loop_run [OF ch(1) ne ch(2) len ch(3) pt(2) c(1) False an c(2,3,5) total, of n] assms(6) pt(3) by auto
    have pb: "pbufs t p = Some b" using b(1) eq(1) [of p] pk(1) ne by (cases ps) auto
    have cp: "pbuf_copy n a p t = Ret ERR_OK (t\<lparr>blocks := bl\<rparr>)" using bl(1) c(1,7) False pb b(2) by (simp add: pbuf_copy_def)
    obtain u where u: "whenM (p \<noteq> 0) (thenM (pbuf_free n p) (ret ())) (t\<lparr>blocks := bl\<rparr>) = Ret () u" "pbufs u a = pbufs t a" "blocks u a = bl a"
      using free_rest_run [of "t\<lparr>blocks := bl\<rparr>" p ps n] ch(1,4) assms(6) an by auto
    then obtain cnt where fr: "pbuf_free n p (t\<lparr>blocks := bl\<rparr>) = Ret cnt u" using b(2)
      by (cases "pbuf_free n p (t\<lparr>blocks := bl\<rparr>)") auto
    have run: "pbuf_coalesce M n p layer s = Ret a u" using al(1) b cp fr False by (simp add: pbuf_coalesce_def)
    have "in_block (blocks u) (payload c) m = in_block bl (payload c) m" for m using u(3) c(3) by (simp add: in_block_def)
    then have "payload_ok (blocks u) c" using c(5) bl(3) by (simp add: payload_ok_def)
    then have "packet u a [a]" using u(2) c False by (simp add: packet_def)
    moreover have "content (pbufs u) (blocks u) [a] = content ?hp (blocks s) ps"
      using bl(2) u(2,3) c(1,3) by (simp add: bytes_at_def block_read_def)
    ultimately show ?thesis using run by blast
  qed
qed

theorem pbuf_coalesce_keeps_content_witness:
  "\<exists>a t. pbuf_coalesce (bump 9) 9 4 PBUF_RAW (two_packets\<lparr>mallocs := 4\<rparr>) = Ret a t \<and> (a = 4 \<or> content (pbufs t) (blocks t) [a] = [1, 2, 3, 4, 5])"
proof -
  let ?s = "two_packets\<lparr>mallocs := 4\<rparr>"
  have s: "packet ?s 4 [4, 8]" "own_payload (pbufs ?s) [4, 8]" "content (pbufs ?s) (blocks ?s) [4, 8] = [1, 2, 3, 4, 5]"
    "\<forall>q \<in> set [4, 8]. 0 < len (the (pbufs ?s q))"
    using two_packets_ok by (simp_all add: packet_def) (simp add: two_packets_def)
  show ?thesis
    using pbuf_coalesce_keeps_content [OF bump_ok s(1,2,4), of 9 9 PBUF_RAW] unfolding s(3) by auto
qed

end
