(* ===== verification/Etharp.thy ===== *)
theory Etharp
  imports Ip4Addr PbufData
begin

text \<open>
  The Address Resolution Protocol (lwip netif/etharp.c) as configured in platform/lwipopts.h: a table of
  three entries, one queued packet per entry, no static entries, VLANs, hints per connection or SNMP.
  \<^verbatim>\<open>LWIP_DEBUG\<close> is defined (as 0), so the code under \<^verbatim>\<open>#ifdef LWIP_DEBUG\<close> is part of the build. There is one
  network interface, the one of \<open>Netif\<close>; a pointer to it is kept as whether it is not \<^verbatim>\<open>NULL\<close>, and its
  \<^verbatim>\<open>linkoutput\<close> is the driver of the Ethernet chip. The IP layer is a parameter.
\<close>

section \<open>Constants and state\<close>

definition ARP_TABLE_SIZE :: nat where "ARP_TABLE_SIZE = 3"

definition ARP_MAXAGE :: u16 where "ARP_MAXAGE = 1200"

definition ARP_AGE_REREQUEST_USED :: u16 where "ARP_AGE_REREQUEST_USED = ARP_MAXAGE - 60"

definition ARP_MAXPENDING :: u16 where "ARP_MAXPENDING = 5"

definition HWTYPE_ETHERNET :: u16 where "HWTYPE_ETHERNET = 1"

definition ETHARP_FLAG_TRY_HARD :: u8 where "ETHARP_FLAG_TRY_HARD = 1"

definition ETHARP_FLAG_FIND_ONLY :: u8 where "ETHARP_FLAG_FIND_ONLY = 2"

definition ETHARP_HWADDR_LEN :: nat where "ETHARP_HWADDR_LEN = 6"

definition SIZEOF_ETH_HDR :: nat where "SIZEOF_ETH_HDR = 14"

definition SIZEOF_ETHARP_HDR :: nat where "SIZEOF_ETHARP_HDR = 28"

definition SIZEOF_ETHARP_PACKET :: nat where "SIZEOF_ETHARP_PACKET = SIZEOF_ETH_HDR + SIZEOF_ETHARP_HDR"

definition ETHTYPE_ARP :: u16 where "ETHTYPE_ARP = 0x0806"

definition ETHTYPE_IP :: u16 where "ETHTYPE_IP = 0x0800"

definition ARP_REQUEST :: u16 where "ARP_REQUEST = 1"

definition ARP_REPLY :: u16 where "ARP_REPLY = 2"

definition LL_MULTICAST_ADDR_0 :: u8 where "LL_MULTICAST_ADDR_0 = 0x01"

definition LL_MULTICAST_ADDR_1 :: u8 where "LL_MULTICAST_ADDR_1 = 0x00"

definition LL_MULTICAST_ADDR_2 :: u8 where "LL_MULTICAST_ADDR_2 = 0x5e"

definition PBUF_FLAG_LLBCAST :: u8 where "PBUF_FLAG_LLBCAST = 0x08"

definition PBUF_FLAG_LLMCAST :: u8 where "PBUF_FLAG_LLMCAST = 0x10"

definition ERR_BUF :: int where "ERR_BUF = - 2"

definition ERR_RTE :: int where "ERR_RTE = - 4"

definition ethbroadcast :: "u8 list" where "ethbroadcast = replicate 6 0xff"

definition ethzero :: "u8 list" where "ethzero = replicate 6 0"

lemmas arp_consts = ARP_TABLE_SIZE_def ARP_MAXAGE_def ARP_AGE_REREQUEST_USED_def ARP_MAXPENDING_def HWTYPE_ETHERNET_def
  ETHARP_FLAG_TRY_HARD_def ETHARP_FLAG_FIND_ONLY_def ETHARP_HWADDR_LEN_def SIZEOF_ETH_HDR_def SIZEOF_ETHARP_HDR_def
  SIZEOF_ETHARP_PACKET_def ETHTYPE_ARP_def ETHTYPE_IP_def ARP_REQUEST_def ARP_REPLY_def ERR_BUF_def ERR_RTE_def

datatype etharp_state = ETHARP_STATE_EMPTY | ETHARP_STATE_PENDING | ETHARP_STATE_STABLE | ETHARP_STATE_STABLE_REREQUESTING

text \<open>\<^verbatim>\<open>state >= ETHARP_STATE_STABLE\<close>.\<close>

definition at_least_stable :: "etharp_state \<Rightarrow> bool" where
  "at_least_stable st \<longleftrightarrow> st = ETHARP_STATE_STABLE \<or> st = ETHARP_STATE_STABLE_REREQUESTING"

text \<open>The names of the fields of an entry carry a prefix; a queued packet of 0 is \<^verbatim>\<open>NULL\<close>.\<close>

record etharp_entry =
  arp_q :: addr
  arp_ipaddr :: u32
  arp_netif :: bool
  arp_ethaddr :: "u8 list"
  arp_ctime :: u16
  arp_entry_state :: etharp_state

record arp_state = pbuf_state +
  arp_table :: "etharp_entry list"
  etharp_cached_entry :: u8

definition entry :: "nat \<Rightarrow> ('z arp_state_scheme, etharp_entry) prog" where
  "entry i = bindM (gets arp_table) (\<lambda>tab. if i < length tab then ret (tab ! i) else halt_with (Undefined ''arp_table''))"

definition upd_entry :: "nat \<Rightarrow> (etharp_entry \<Rightarrow> etharp_entry) \<Rightarrow> ('z arp_state_scheme, unit) prog" where
  "upd_entry i f = bindM (entry i) (\<lambda>e. modify (\<lambda>s. s\<lparr>arp_table := (arp_table s)[i := f e]\<rparr>))"

definition ETHARP_SET_HINT :: "nat \<Rightarrow> ('z arp_state_scheme, unit) prog" where
  "ETHARP_SET_HINT hint = modify (\<lambda>s. s\<lparr>etharp_cached_entry := of_nat hint\<rparr>)"

text \<open>Reading and writing a field of a header at an offset from the payload.\<close>

definition get_field :: "addr \<Rightarrow> nat \<Rightarrow> nat \<Rightarrow> ('z pbuf_state_scheme, u8 list) prog" where
  "get_field p ofs n = bindM (deref p) (\<lambda>b. memcpy_from (ptr_add (payload b) (int ofs)) n)"

definition put_field :: "addr \<Rightarrow> nat \<Rightarrow> u8 list \<Rightarrow> ('z pbuf_state_scheme, unit) prog" where
  "put_field p ofs bs = bindM (deref p) (\<lambda>b. memcpy_to (ptr_add (payload b) (int ofs)) bs)"

section \<open>The link\<close>

text \<open>
  The packet as the driver's loop over the chain sends it, and \<^verbatim>\<open>netif->linkoutput\<close>, which is
  \<^verbatim>\<open>enc424j600_spi_linkoutput\<close>.
\<close>

primrec chain_segments :: "nat \<Rightarrow> addr \<Rightarrow> ('z pbuf_state_scheme, u8 list list) prog" where
  "chain_segments 0 p = halt_with Hang"
| "chain_segments (Suc n) p =
     (if p = 0 then ret []
      else bindM (deref p) (\<lambda>b.
           bindM (memcpy_from (payload b) (unat (len b))) (\<lambda>bs.
           bindM (chain_segments n (pnext b)) (\<lambda>segs. ret (bs # segs)))))"

definition linkoutput :: "env \<Rightarrow> nat \<Rightarrow> addr \<Rightarrow> ('z pbuf_state_scheme, int) prog" where
  "linkoutput E n p =
     bindM (deref p) (\<lambda>b.
       if uint (tot_len b) > uint ENC424J600_RXBUF_START - uint ENC424J600_TXBUF_START
       then enc424j600_spi_linkoutput E [] (tot_len b)
       else bindM (chain_segments n p) (\<lambda>segs. enc424j600_spi_linkoutput E segs (tot_len b)))"

definition hwaddr_len_ok :: "string \<Rightarrow> ('z netif_state_scheme, unit) prog" where
  "hwaddr_len_ok msg =
     bindM (gets netif_hwaddr) (\<lambda>a. whenM (length a \<noteq> ETHARP_HWADDR_LEN) (lwip_assert_fails msg))"

definition etharp_send_ip :: "env \<Rightarrow> nat \<Rightarrow> addr \<Rightarrow> u8 list \<Rightarrow> u8 list \<Rightarrow> ('z pbuf_state_scheme, int) prog" where
  "etharp_send_ip E n p src dst =
     thenM (hwaddr_len_ok ''netif->hwaddr_len must be the same as ETHARP_HWADDR_LEN for etharp!'')
    (thenM (put_field p 12 (le_bytes 2 (lwip_htons ETHTYPE_IP)))
    (thenM (put_field p 0 dst)
    (thenM (put_field p 6 src)
           (linkoutput E n p))))"

section \<open>Requests\<close>

text \<open>
  The fields of the ARP header follow the Ethernet header: hardware type at 14, protocol at 16, the two
  lengths at 18 and 19, opcode at 20, sender addresses at 22 and 28, target addresses at 32 and 38.
\<close>

definition etharp_raw ::
  "env \<Rightarrow> malloc \<Rightarrow> nat \<Rightarrow> bool \<Rightarrow> u8 list \<Rightarrow> u8 list \<Rightarrow> u8 list \<Rightarrow> u32 \<Rightarrow> u8 list \<Rightarrow> u32 \<Rightarrow> u16
     \<Rightarrow> ('z pbuf_state_scheme, int) prog" where
  "etharp_raw E M n netif ethsrc_addr ethdst_addr hwsrc_addr ipsrc_addr hwdst_addr ipdst_addr opcode =
     thenM (lwip_assert ''netif != NULL'' netif)
    (bindM (pbuf_alloc M n PBUF_RAW (of_nat SIZEOF_ETHARP_PACKET) PBUF_RAM) (\<lambda>p.
       if p = 0 then ret ERR_MEM
       else
         bindM (deref p) (\<lambda>b.
         thenM (lwip_assert ''check that first pbuf can hold struct etharp_hdr'' (unat (len b) \<ge> SIZEOF_ETHARP_PACKET))
        (thenM (put_field p 20 (le_bytes 2 (lwip_htons opcode)))
        (thenM (hwaddr_len_ok ''netif->hwaddr_len must be the same as ETHARP_HWADDR_LEN for etharp!'')
        (thenM (seqM [
            put_field p 22 hwsrc_addr,
            put_field p 32 hwdst_addr,
            put_field p 28 (le_bytes 4 ipsrc_addr),
            put_field p 38 (le_bytes 4 ipdst_addr),
            put_field p 14 (le_bytes 2 (lwip_htons HWTYPE_ETHERNET)),
            put_field p 16 (le_bytes 2 (lwip_htons ETHTYPE_IP)),
            put_field p 18 [of_nat ETHARP_HWADDR_LEN],
            put_field p 19 [4],
            put_field p 12 (le_bytes 2 (lwip_htons ETHTYPE_ARP)),
            put_field p 0 ethdst_addr,
            put_field p 6 ethsrc_addr])
        (bindM (linkoutput E n p) (\<lambda>result.
         thenM (pbuf_free n p) (ret result)))))))))"

definition etharp_request :: "env \<Rightarrow> malloc \<Rightarrow> nat \<Rightarrow> bool \<Rightarrow> u32 \<Rightarrow> ('z pbuf_state_scheme, int) prog" where
  "etharp_request E M n netif ipaddr =
     bindM (gets netif_hwaddr) (\<lambda>hwaddr.
     bindM (gets netif_ip_addr) (\<lambda>ip.
       etharp_raw E M n netif hwaddr ethbroadcast hwaddr ip ethzero ipaddr ARP_REQUEST))"

section \<open>The table\<close>

definition etharp_free_entry :: "nat \<Rightarrow> nat \<Rightarrow> ('z arp_state_scheme, unit) prog" where
  "etharp_free_entry n i =
     bindM (entry i) (\<lambda>e.
     thenM (whenM (arp_q e \<noteq> 0) (thenM (thenM (pbuf_free n (arp_q e)) (ret ())) (upd_entry i (\<lambda>e. e\<lparr>arp_q := 0\<rparr>))))
           (upd_entry i (\<lambda>e. e\<lparr>arp_entry_state := ETHARP_STATE_EMPTY, arp_ctime := 0, arp_netif := False,
                                arp_ipaddr := 0, arp_ethaddr := ethzero\<rparr>)))"

text \<open>One round of the loop of \<^verbatim>\<open>etharp_tmr\<close>: the entry ages, then it is dropped, asked for again or left.\<close>

definition tmr_aged :: "env \<Rightarrow> malloc \<Rightarrow> nat \<Rightarrow> nat \<Rightarrow> etharp_entry \<Rightarrow> ('z arp_state_scheme, unit) prog" where
  "tmr_aged E M n i e =
     (if arp_ctime e \<ge> ARP_MAXAGE \<or> arp_entry_state e = ETHARP_STATE_PENDING \<and> arp_ctime e \<ge> ARP_MAXPENDING
      then etharp_free_entry n i
      else if arp_entry_state e = ETHARP_STATE_STABLE_REREQUESTING
      then upd_entry i (\<lambda>e. e\<lparr>arp_entry_state := ETHARP_STATE_STABLE\<rparr>)
      else if arp_entry_state e = ETHARP_STATE_PENDING
      then thenM (etharp_request E M n (arp_netif e) (arp_ipaddr e)) (ret ())
      else ret ())"

definition tmr_entry :: "env \<Rightarrow> malloc \<Rightarrow> nat \<Rightarrow> nat \<Rightarrow> ('z arp_state_scheme, unit) prog" where
  "tmr_entry E M n i =
     bindM (entry i) (\<lambda>e.
       whenM (arp_entry_state e \<noteq> ETHARP_STATE_EMPTY)
         (thenM (upd_entry i (\<lambda>e. e\<lparr>arp_ctime := arp_ctime e + 1\<rparr>))
                (bindM (entry i) (tmr_aged E M n i))))"

primrec table_loop :: "(nat \<Rightarrow> ('s, unit) prog) \<Rightarrow> nat \<Rightarrow> nat \<Rightarrow> ('s, unit) prog" where
  "table_loop body i 0 = ret ()"
| "table_loop body i (Suc k) = thenM (body i) (table_loop body (Suc i) k)"

definition etharp_tmr :: "env \<Rightarrow> malloc \<Rightarrow> nat \<Rightarrow> ('z arp_state_scheme, unit) prog" where
  "etharp_tmr E M n = table_loop (tmr_entry E M n) 0 ARP_TABLE_SIZE"

definition etharp_cleanup_netif :: "nat \<Rightarrow> ('z arp_state_scheme, unit) prog" where
  "etharp_cleanup_netif n =
     table_loop (\<lambda>i. bindM (entry i) (\<lambda>e.
       whenM (arp_entry_state e \<noteq> ETHARP_STATE_EMPTY \<and> arp_netif e) (etharp_free_entry n i))) 0 ARP_TABLE_SIZE"

text \<open>The locals of \<^verbatim>\<open>etharp_find_entry\<close>, and its sweep over the table: a match, or the candidates.\<close>

record candidates =
  old_pending :: nat
  old_stable :: nat
  empty :: nat
  old_queue :: nat
  age_queue :: u16
  age_pending :: u16
  age_stable :: u16

definition no_candidates :: candidates where
  "no_candidates = \<lparr>old_pending = ARP_TABLE_SIZE, old_stable = ARP_TABLE_SIZE, empty = ARP_TABLE_SIZE, old_queue = ARP_TABLE_SIZE,
     age_queue = 0, age_pending = 0, age_stable = 0\<rparr>"

definition find_visit :: "nat \<Rightarrow> etharp_entry \<Rightarrow> candidates \<Rightarrow> candidates" where
  "find_visit i e c =
     (if arp_entry_state e = ETHARP_STATE_PENDING then
        (if arp_q e \<noteq> 0 then
           (if arp_ctime e \<ge> age_queue c then c\<lparr>old_queue := i, age_queue := arp_ctime e\<rparr> else c)
         else
           (if arp_ctime e \<ge> age_pending c then c\<lparr>old_pending := i, age_pending := arp_ctime e\<rparr> else c))
      else if at_least_stable (arp_entry_state e) then
        (if arp_ctime e \<ge> age_stable c then c\<lparr>old_stable := i, age_stable := arp_ctime e\<rparr> else c)
      else c)"

fun find_sweep :: "u32 option \<Rightarrow> nat \<Rightarrow> etharp_entry list \<Rightarrow> candidates \<Rightarrow> nat + candidates" where
  "find_sweep ipaddr i [] c = Inr c"
| "find_sweep ipaddr i (e # es) c =
     (if empty c = ARP_TABLE_SIZE \<and> arp_entry_state e = ETHARP_STATE_EMPTY then find_sweep ipaddr (Suc i) es (c\<lparr>empty := i\<rparr>)
      else if arp_entry_state e \<noteq> ETHARP_STATE_EMPTY then
        (if ipaddr = Some (arp_ipaddr e) then Inl i else find_sweep ipaddr (Suc i) es (find_visit i e c))
      else find_sweep ipaddr (Suc i) es c)"

text \<open>The entry to recycle when none is empty, \<^const>\<open>None\<close> when there is none.\<close>

definition choose_recycled :: "candidates \<Rightarrow> ('z arp_state_scheme, nat option) prog" where
  "choose_recycled c =
     (if old_stable c < ARP_TABLE_SIZE then
        bindM (entry (old_stable c)) (\<lambda>e.
        thenM (lwip_assert ''arp_table[i].q == NULL'' (arp_q e = 0)) (ret (Some (old_stable c))))
      else if old_pending c < ARP_TABLE_SIZE then ret (Some (old_pending c))
      else if old_queue c < ARP_TABLE_SIZE then ret (Some (old_queue c))
      else ret None)"

text \<open>The end of \<^verbatim>\<open>etharp_find_entry\<close>, with the entry that was chosen.\<close>

definition init_entry :: "u32 option \<Rightarrow> nat \<Rightarrow> ('z arp_state_scheme, int) prog" where
  "init_entry ipaddr i =
     thenM (lwip_assert ''i < ARP_TABLE_SIZE'' (i < ARP_TABLE_SIZE))
    (bindM (entry i) (\<lambda>e.
     thenM (lwip_assert ''arp_table[i].state == ETHARP_STATE_EMPTY'' (arp_entry_state e = ETHARP_STATE_EMPTY))
    (thenM (case ipaddr of None \<Rightarrow> ret () | Some a \<Rightarrow> upd_entry i (\<lambda>e. e\<lparr>arp_ipaddr := a\<rparr>))
    (thenM (upd_entry i (\<lambda>e. e\<lparr>arp_ctime := 0\<rparr>)) (ret (int i))))))"

definition etharp_find_entry :: "nat \<Rightarrow> u32 option \<Rightarrow> u8 \<Rightarrow> ('z arp_state_scheme, int) prog" where
  "etharp_find_entry n ipaddr fl =
     bindM (gets arp_table) (\<lambda>tab.
       case find_sweep ipaddr 0 tab no_candidates of
         Inl i \<Rightarrow> ret (int i)
       | Inr c \<Rightarrow>
           if fl AND ETHARP_FLAG_FIND_ONLY \<noteq> 0 \<or> empty c = ARP_TABLE_SIZE \<and> fl AND ETHARP_FLAG_TRY_HARD = 0
           then ret ERR_MEM
           else
             bindM (if empty c < ARP_TABLE_SIZE then ret (Some (empty c))
                    else bindM (choose_recycled c) (\<lambda>r.
                           case r of None \<Rightarrow> ret None
                           | Some i \<Rightarrow> thenM (lwip_assert ''i < ARP_TABLE_SIZE'' (i < ARP_TABLE_SIZE))
                                            (thenM (etharp_free_entry n i) (ret (Some i))))) (\<lambda>r.
               case r of None \<Rightarrow> ret ERR_MEM
               | Some i \<Rightarrow> init_entry ipaddr i))"

text \<open>The rest of \<^verbatim>\<open>etharp_update_arp_entry\<close>: the entry is marked stable and a queued packet goes out.\<close>

definition learn_at :: "env \<Rightarrow> nat \<Rightarrow> u8 list \<Rightarrow> nat \<Rightarrow> ('z arp_state_scheme, int) prog" where
  "learn_at E n ethaddr i =
     thenM (upd_entry i (\<lambda>e. e\<lparr>arp_entry_state := ETHARP_STATE_STABLE, arp_netif := True, arp_ethaddr := ethaddr, arp_ctime := 0\<rparr>))
    (bindM (entry i) (\<lambda>e.
     thenM (whenM (arp_q e \<noteq> 0)
              (thenM (upd_entry i (\<lambda>e. e\<lparr>arp_q := 0\<rparr>))
              (bindM (gets netif_hwaddr) (\<lambda>hwaddr.
               thenM (etharp_send_ip E n (arp_q e) hwaddr ethaddr)
              (thenM (pbuf_free n (arp_q e)) (ret ()))))))
           (ret ERR_OK)))"

definition etharp_update_arp_entry :: "env \<Rightarrow> nat \<Rightarrow> u32 \<Rightarrow> u8 list \<Rightarrow> u8 \<Rightarrow> ('z arp_state_scheme, int) prog" where
  "etharp_update_arp_entry E n ipaddr ethaddr fl =
     thenM (hwaddr_len_ok ''netif->hwaddr_len == ETHARP_HWADDR_LEN'')
    (bindM (gets (ip4_addr_isbroadcast ipaddr)) (\<lambda>bc.
       if ip_addr_isany ipaddr \<or> bc \<or> ip_addr_ismulticast ipaddr then ret ERR_ARG
       else bindM (etharp_find_entry n (Some ipaddr) fl) (\<lambda>i. if i < 0 then ret i else learn_at E n ethaddr (nat i))))"

text \<open>The result is the index of the entry with the two addresses there, \<^const>\<open>None\<close> for -1.\<close>

definition etharp_find_addr :: "nat \<Rightarrow> u32 \<Rightarrow> ('z arp_state_scheme, (nat \<times> u8 list \<times> u32) option) prog" where
  "etharp_find_addr n ipaddr =
     bindM (etharp_find_entry n (Some ipaddr) ETHARP_FLAG_FIND_ONLY) (\<lambda>i.
       if i < 0 then ret None
       else bindM (entry (nat i)) (\<lambda>e.
         if at_least_stable (arp_entry_state e) then ret (Some (nat i, arp_ethaddr e, arp_ipaddr e)) else ret None))"

section \<open>Incoming frames\<close>

text \<open>
  What \<^verbatim>\<open>etharp_arp_input\<close> does with a request for the address of the interface: the packet becomes the
  reply and is sent back.
\<close>

definition arp_reply :: "env \<Rightarrow> nat \<Rightarrow> addr \<Rightarrow> ('z pbuf_state_scheme, unit) prog" where
  "arp_reply E n p =
     bindM (gets netif_hwaddr) (\<lambda>ethaddr.
     bindM (gets netif_ip_addr) (\<lambda>ip.
     thenM (put_field p 20 (le_bytes 2 (lwip_htons ARP_REPLY)))
    (bindM (get_field p 28 4) (\<lambda>sip.
     thenM (put_field p 38 sip)
    (thenM (put_field p 28 (le_bytes 4 ip))
    (thenM (hwaddr_len_ok ''netif->hwaddr_len must be the same as ETHARP_HWADDR_LEN for etharp!'')
    (bindM (get_field p 22 6) (\<lambda>shw.
     thenM (put_field p 32 shw)
    (bindM (get_field p 22 6) (\<lambda>shw.
     thenM (put_field p 0 shw)
    (thenM (put_field p 22 ethaddr)
    (thenM (put_field p 6 ethaddr)
    (thenM (linkoutput E n p) (ret ()))))))))))))))"

definition etharp_arp_input :: "env \<Rightarrow> nat \<Rightarrow> addr \<Rightarrow> ('z arp_state_scheme, unit) prog" where
  "etharp_arp_input E n p =
     bindM (deref p) (\<lambda>b.
       if unat (len b) < SIZEOF_ETHARP_PACKET then thenM (pbuf_free n p) (ret ())
       else
         bindM (get_field p 14 2) (\<lambda>hwtype.
         bindM (get_field p 16 2) (\<lambda>proto.
         bindM (get_field p 18 1) (\<lambda>hwlen.
         bindM (get_field p 19 1) (\<lambda>protolen.
           if le_word hwtype \<noteq> lwip_htons HWTYPE_ETHERNET \<or> le_word hwlen \<noteq> (of_nat ETHARP_HWADDR_LEN :: u8) \<or>
              le_word protolen \<noteq> (4 :: u8) \<or> le_word proto \<noteq> lwip_htons ETHTYPE_IP
           then thenM (pbuf_free n p) (ret ())
           else
             bindM (get_field p 28 4) (\<lambda>sip.
             bindM (get_field p 38 4) (\<lambda>dip.
             bindM (get_field p 22 6) (\<lambda>shwaddr.
             bindM (gets netif_ip_addr) (\<lambda>ip.
               let sipaddr = le_word sip; dipaddr = le_word dip; for_us = (\<not> ip_addr_isany ip \<and> dipaddr = ip) in
               thenM (etharp_update_arp_entry E n sipaddr shwaddr (if for_us then ETHARP_FLAG_TRY_HARD else ETHARP_FLAG_FIND_ONLY))
              (bindM (get_field p 20 2) (\<lambda>opcode.
               thenM (if le_word opcode = lwip_htons ARP_REQUEST then whenM for_us (arp_reply E n p)
                      else if le_word opcode = lwip_htons ARP_REPLY then
                        bindM (gets netif_dhcp) (\<lambda>d. whenM d (ext_call ''dhcp_arp_reply'' [uint sipaddr]))
                      else ret ())
                     (thenM (pbuf_free n p) (ret ())))))))))))))"

text \<open>\<open>ip_input\<close> is the IP layer, which takes over the packet.\<close>

definition ethernet_input ::
  "env \<Rightarrow> nat \<Rightarrow> (addr \<Rightarrow> ('z arp_state_scheme, unit) prog) \<Rightarrow> addr \<Rightarrow> ('z arp_state_scheme, int) prog" where
  "ethernet_input E n ip_input p =
     bindM (deref p) (\<lambda>b.
       let free_and_return = thenM (pbuf_free n p) (ret ERR_OK) in
       if unat (len b) \<le> SIZEOF_ETH_HDR then free_and_return
       else
         bindM (get_field p 12 2) (\<lambda>ty.
         bindM (get_field p 0 6) (\<lambda>dest.
         thenM (whenM (dest ! 0 AND 1 \<noteq> 0)
                  (if dest ! 0 = LL_MULTICAST_ADDR_0 then
                     whenM (dest ! 1 = LL_MULTICAST_ADDR_1 \<and> dest ! 2 = LL_MULTICAST_ADDR_2)
                       (store p (\<lambda>b. b\<lparr>flags := flags b OR PBUF_FLAG_LLMCAST\<rparr>))
                   else whenM (dest = ethbroadcast) (store p (\<lambda>b. b\<lparr>flags := flags b OR PBUF_FLAG_LLBCAST\<rparr>))))
        (bindM (gets netif_flags) (\<lambda>nf.
           if le_word ty = lwip_htons ETHTYPE_IP then
             (if nf AND NETIF_FLAG_ETHARP = 0 then free_and_return
              else bindM (pbuf_header p (- int SIZEOF_ETH_HDR)) (\<lambda>r.
                if r \<noteq> 0 then thenM (lwip_assert ''Can't move over header in packet'' False) free_and_return
                else thenM (ip_input p) (ret ERR_OK)))
           else if le_word ty = lwip_htons ETHTYPE_ARP then
             (if nf AND NETIF_FLAG_ETHARP = 0 then free_and_return
              else thenM (etharp_arp_input E n p) (ret ERR_OK))
           else free_and_return)))))"

section \<open>Outgoing packets\<close>

definition etharp_output_to_arp_index :: "env \<Rightarrow> malloc \<Rightarrow> nat \<Rightarrow> addr \<Rightarrow> nat \<Rightarrow> ('z arp_state_scheme, int) prog" where
  "etharp_output_to_arp_index E M n q arp_idx =
     bindM (entry arp_idx) (\<lambda>e.
     thenM (lwip_assert ''arp_table[arp_idx].state >= ETHARP_STATE_STABLE'' (at_least_stable (arp_entry_state e)))
    (thenM (whenM (arp_entry_state e = ETHARP_STATE_STABLE \<and> arp_ctime e \<ge> ARP_AGE_REREQUEST_USED)
              (bindM (etharp_request E M n True (arp_ipaddr e)) (\<lambda>err.
                 whenM (err = ERR_OK) (upd_entry arp_idx (\<lambda>e. e\<lparr>arp_entry_state := ETHARP_STATE_STABLE_REREQUESTING\<rparr>)))))
    (bindM (gets netif_hwaddr) (\<lambda>hwaddr.
     bindM (entry arp_idx) (\<lambda>e. etharp_send_ip E n q hwaddr (arp_ethaddr e))))))"

text \<open>The search for a buffer that is not in read-only memory: whether there is one, and its \<^verbatim>\<open>tot_len\<close>.\<close>

primrec copy_needed :: "nat \<Rightarrow> addr \<Rightarrow> ('z pbuf_state_scheme, u16 option) prog" where
  "copy_needed 0 p = halt_with Hang"
| "copy_needed (Suc n) p =
     (if p = 0 then ret None
      else bindM (deref p) (\<lambda>b.
        thenM (lwip_assert ''no packet queues allowed!'' (len b \<noteq> tot_len b \<or> pnext b = 0))
          (if ptype b \<noteq> PBUF_ROM then ret (Some (tot_len b)) else copy_needed n (pnext b))))"

text \<open>Taking over the packet for the queue: a copy, or the packet itself with another reference; 0 when there is no memory.\<close>

definition take_over :: "malloc \<Rightarrow> nat \<Rightarrow> addr \<Rightarrow> ('z pbuf_state_scheme, addr) prog" where
  "take_over M n q =
     bindM (copy_needed n q) (\<lambda>c.
       case c of
         Some tot \<Rightarrow>
           bindM (pbuf_alloc M n PBUF_RAW tot PBUF_RAM) (\<lambda>p.
             if p \<noteq> 0 then
               bindM (pbuf_copy n p q) (\<lambda>err. if err \<noteq> ERR_OK then thenM (pbuf_free n p) (ret 0) else ret p)
             else ret 0)
       | None \<Rightarrow> thenM (pbuf_ref q) (ret q))"

text \<open>Queueing a packet on a pending entry; a packet that was queued before is dropped.\<close>

definition enqueue :: "malloc \<Rightarrow> nat \<Rightarrow> nat \<Rightarrow> addr \<Rightarrow> ('z arp_state_scheme, int) prog" where
  "enqueue M n i q =
     bindM (take_over M n q) (\<lambda>p.
       if p \<noteq> 0 then
         bindM (entry i) (\<lambda>e.
         thenM (whenM (arp_q e \<noteq> 0) (thenM (pbuf_free n (arp_q e)) (ret ())))
        (thenM (upd_entry i (\<lambda>e. e\<lparr>arp_q := p\<rparr>)) (ret ERR_OK)))
       else ret ERR_MEM)"

definition etharp_query :: "env \<Rightarrow> malloc \<Rightarrow> nat \<Rightarrow> u32 \<Rightarrow> addr \<Rightarrow> ('z arp_state_scheme, int) prog" where
  "etharp_query E M n ipaddr q =
     bindM (gets netif_hwaddr) (\<lambda>srcaddr.
     bindM (gets (ip4_addr_isbroadcast ipaddr)) (\<lambda>bc.
       if bc \<or> ip_addr_ismulticast ipaddr \<or> ip_addr_isany ipaddr then ret ERR_ARG
       else
         bindM (etharp_find_entry n (Some ipaddr) ETHARP_FLAG_TRY_HARD) (\<lambda>i.
           if i < 0 then ret i
           else
             bindM (entry (nat i)) (\<lambda>e.
             let is_new_entry = (arp_entry_state e = ETHARP_STATE_EMPTY) in
             thenM (whenM is_new_entry
                      (upd_entry (nat i) (\<lambda>e. e\<lparr>arp_entry_state := ETHARP_STATE_PENDING, arp_netif := True\<rparr>)))
            (bindM (if is_new_entry \<or> q = 0 then etharp_request E M n True ipaddr else ret ERR_MEM) (\<lambda>result.
               if q = 0 then ret result
               else
                 bindM (entry (nat i)) (\<lambda>e.
                   if at_least_stable (arp_entry_state e) then
                     thenM (ETHARP_SET_HINT (nat i)) (etharp_send_ip E n q srcaddr (arp_ethaddr e))
                   else if arp_entry_state e = ETHARP_STATE_PENDING then
                     enqueue M n (nat i) q
                   else ret result)))))))"

text \<open>The loop of \<^verbatim>\<open>etharp_output\<close> that looks for a stable entry.\<close>

fun stable_entry :: "u32 \<Rightarrow> nat \<Rightarrow> etharp_entry list \<Rightarrow> nat option" where
  "stable_entry a i [] = None"
| "stable_entry a i (e # es) =
     (if at_least_stable (arp_entry_state e) \<and> a = arp_ipaddr e then Some i else stable_entry a (Suc i) es)"

definition etharp_output :: "env \<Rightarrow> malloc \<Rightarrow> nat \<Rightarrow> addr \<Rightarrow> u32 \<Rightarrow> ('z arp_state_scheme, int) prog" where
  "etharp_output E M n q ipaddr =
     thenM (lwip_assert ''q != NULL'' (q \<noteq> 0))
    (bindM (pbuf_header q (int SIZEOF_ETH_HDR)) (\<lambda>r.
       if r \<noteq> 0 then ret ERR_BUF
       else
         bindM (gets netif_hwaddr) (\<lambda>hwaddr.
         bindM (gets (ip4_addr_isbroadcast ipaddr)) (\<lambda>bc.
           if bc then etharp_send_ip E n q hwaddr ethbroadcast
           else if ip_addr_ismulticast ipaddr then
             etharp_send_ip E n q hwaddr [LL_MULTICAST_ADDR_0, LL_MULTICAST_ADDR_1, LL_MULTICAST_ADDR_2,
               ip4_addr2 ipaddr AND 0x7f, ip4_addr3 ipaddr, ip4_addr4 ipaddr]
           else
             bindM (gets netif_ip_addr) (\<lambda>ip.
             bindM (gets netif_netmask) (\<lambda>nm.
             bindM (gets netif_gw) (\<lambda>gw.
             let outside = (\<not> ip_addr_netcmp ipaddr ip nm \<and> \<not> ip_addr_islinklocal ipaddr) in
               if outside \<and> ip_addr_isany gw then ret ERR_RTE
               else
                 let dst_addr = (if outside then gw else ipaddr) in
                 bindM (gets etharp_cached_entry) (\<lambda>c.
                 bindM (entry (unat c)) (\<lambda>e.
                   if at_least_stable (arp_entry_state e) \<and> dst_addr = arp_ipaddr e
                   then etharp_output_to_arp_index E M n q (unat c)
                   else
                     bindM (gets arp_table) (\<lambda>tab.
                       case stable_entry dst_addr 0 tab of
                         Some i \<Rightarrow> thenM (ETHARP_SET_HINT i) (etharp_output_to_arp_index E M n q i)
                       | None \<Rightarrow> etharp_query E M n dst_addr q))))))))))"

end
