(* ===== verification/Ip4.thy ===== *)
theory Ip4
  imports Etharp
begin

text \<open>
  The Internet Protocol (lwip core/ipv4/ip4.c) and its control messages (core/ipv4/icmp.c) as configured: no
  forwarding, fragments, options on output, multicast groups or loopback; packets of the DHCP client are accepted before the
  interface has an address. The interface is the one of \<open>Netif\<close>, its \<^verbatim>\<open>output\<close> is \<^verbatim>\<open>etharp_output\<close>. What the upper layers
  (raw, UDP, TCP) do with a packet is a parameter. The statistics counters, which nothing reads, are left out.
\<close>

section \<open>Constants and state\<close>

definition IP_HLEN :: nat where "IP_HLEN = 20"

definition IP_PROTO_ICMP :: u8 where "IP_PROTO_ICMP = 1"

definition IP_PROTO_UDP :: u8 where "IP_PROTO_UDP = 17"

definition IP_PROTO_TCP :: u8 where "IP_PROTO_TCP = 6"

definition IP_MF :: u16 where "IP_MF = 0x2000"

definition IP_OFFMASK :: u16 where "IP_OFFMASK = 0x1fff"

definition DHCP_CLIENT_PORT :: u16 where "DHCP_CLIENT_PORT = 68"

definition ICMP_ER :: u8 where "ICMP_ER = 0"

definition ICMP_DUR :: u8 where "ICMP_DUR = 3"

definition ICMP_ECHO :: u8 where "ICMP_ECHO = 8"

definition ICMP_DUR_PROTO :: u8 where "ICMP_DUR_PROTO = 2"

definition ICMP_TTL :: u8 where "ICMP_TTL = 255"

definition ICMP_DEST_UNREACH_DATASIZE :: nat where "ICMP_DEST_UNREACH_DATASIZE = 8"

definition sizeof_icmp_echo_hdr :: nat where "sizeof_icmp_echo_hdr = 8"

lemmas ip_consts = IP_HLEN_def IP_PROTO_ICMP_def IP_PROTO_UDP_def IP_PROTO_TCP_def IP_MF_def IP_OFFMASK_def DHCP_CLIENT_PORT_def
  ICMP_ER_def ICMP_DUR_def ICMP_ECHO_def ICMP_DUR_PROTO_def ICMP_TTL_def ICMP_DEST_UNREACH_DATASIZE_def sizeof_icmp_echo_hdr_def

text \<open>\<^verbatim>\<open>ip_id\<close> and the fields of \<^verbatim>\<open>ip_data\<close>; the pointer to the current header is a position in a block.\<close>

record ip_state = arp_state +
  ip_id :: u16
  current_netif :: bool
  current_ip4_header :: "(addr \<times> int) option"
  current_ip_header_tot_len :: u16
  current_iphdr_src :: u32
  current_iphdr_dest :: u32

text \<open>Fields of a header that is reached through a pointer.\<close>

definition hdr_get :: "(addr \<times> int) option \<Rightarrow> nat \<Rightarrow> nat \<Rightarrow> ('z pbuf_state_scheme, u8 list) prog" where
  "hdr_get ptr ofs k = memcpy_from (ptr_add ptr (int ofs)) k"

definition hdr_put :: "(addr \<times> int) option \<Rightarrow> nat \<Rightarrow> u8 list \<Rightarrow> ('z pbuf_state_scheme, unit) prog" where
  "hdr_put ptr ofs bs = memcpy_to (ptr_add ptr (int ofs)) bs"

definition IPH_V :: "u8 \<Rightarrow> u8" where "IPH_V v_hl = drop_bit 4 v_hl"

definition IPH_HL :: "u8 \<Rightarrow> nat" where "IPH_HL v_hl = unat (v_hl AND 0x0f)"

text \<open>Whether an address is odd, which decides how the checksum walks over memory.\<close>

definition odd_ptr :: "(addr \<times> int) option \<Rightarrow> bool" where
  "odd_ptr ptr = (case ptr of None \<Rightarrow> False | Some (k, ofs) \<Rightarrow> odd (int k + ofs))"

primrec chain_blocks :: "nat \<Rightarrow> addr \<Rightarrow> ('z pbuf_state_scheme, pbuf_chain) prog" where
  "chain_blocks 0 p = halt_with Hang"
| "chain_blocks (Suc n) p =
     (if p = 0 then ret []
      else bindM (deref p) (\<lambda>b.
           bindM (memcpy_from (payload b) (unat (len b))) (\<lambda>bs.
           bindM (chain_blocks n (pnext b)) (\<lambda>segs. ret ((odd_ptr (payload b), bs) # segs)))))"

definition netif_is_up :: "'z netif_state_scheme \<Rightarrow> bool" where
  "netif_is_up s \<longleftrightarrow> netif_flags s AND NETIF_FLAG_UP \<noteq> 0"

section \<open>Sending\<close>

text \<open>Whether there is a route, which can only be the one interface.\<close>

definition ip_route :: "u32 \<Rightarrow> ('z netif_state_scheme, bool) prog" where
  "ip_route dest = gets (\<lambda>s.
     if netif_listed s \<and> netif_is_up s \<and> ip_addr_netcmp dest (netif_ip_addr s) (netif_netmask s) then True
     else netif_default s \<and> netif_is_up s)"

text \<open>The checksum of the header as it is added up while the header is filled in.\<close>

definition LWIP_MAKE_U16 :: "u8 \<Rightarrow> u8 \<Rightarrow> u32" where
  "LWIP_MAKE_U16 a b = push_bit 8 (ucast a) OR ucast b"

definition inline_chksum :: "u8 \<Rightarrow> u8 \<Rightarrow> u8 \<Rightarrow> u16 \<Rightarrow> u16 \<Rightarrow> u32 \<Rightarrow> u32 \<Rightarrow> u16" where
  "inline_chksum ttl tos proto lenf idf src dest =
     (let chk_sum = 0 + LWIP_MAKE_U16 proto ttl;
          chk_sum = chk_sum + (dest AND 0xffff);
          chk_sum = chk_sum + drop_bit 16 dest;
          chk_sum = chk_sum + LWIP_MAKE_U16 tos 0x45;
          chk_sum = chk_sum + ucast lenf;
          chk_sum = chk_sum + ucast idf;
          chk_sum = chk_sum + (src AND 0xffff);
          chk_sum = chk_sum + drop_bit 16 src;
          chk_sum = drop_bit 16 chk_sum + (chk_sum AND 0xffff);
          chk_sum = drop_bit 16 chk_sum + chk_sum;
          chk_sum = NOT chk_sum
      in ucast chk_sum)"

text \<open>The header in front of the data.\<close>

definition put_ip_header :: "(addr \<times> int) option \<Rightarrow> u32 \<Rightarrow> u32 \<Rightarrow> u8 \<Rightarrow> u8 \<Rightarrow> u8 \<Rightarrow> u16 \<Rightarrow> ('z ip_state_scheme, unit) prog" where
  "put_ip_header iphdr src dest ttl tos proto tot =
     bindM (gets ip_id) (\<lambda>i.
       seqM [
         hdr_put iphdr 8 [ttl],
         hdr_put iphdr 9 [proto],
         hdr_put iphdr 16 (le_bytes 4 dest),
         hdr_put iphdr 0 [0x45],
         hdr_put iphdr 1 [tos],
         hdr_put iphdr 2 (le_bytes 2 (lwip_htons tot)),
         hdr_put iphdr 6 (le_bytes 2 (0 :: u16)),
         hdr_put iphdr 4 (le_bytes 2 (lwip_htons i)),
         modify (\<lambda>s. s\<lparr>ip_id := ip_id s + 1\<rparr>),
         hdr_put iphdr 12 (le_bytes 4 src),
         hdr_put iphdr 10 (le_bytes 2 (inline_chksum ttl tos proto (lwip_htons tot) (lwip_htons i) src dest))])"

text \<open>
  A destination of \<^const>\<open>None\<close> is \<^verbatim>\<open>IP_HDRINCL\<close>; a source of 0 is \<^verbatim>\<open>NULL\<close> or \<^verbatim>\<open>IP_ADDR_ANY\<close>, which the functions treat alike.
\<close>

definition ip_output_if_src ::
  "env \<Rightarrow> malloc \<Rightarrow> nat \<Rightarrow> addr \<Rightarrow> u32 \<Rightarrow> u32 option \<Rightarrow> u8 \<Rightarrow> u8 \<Rightarrow> u8 \<Rightarrow> ('z ip_state_scheme, int) prog" where
  "ip_output_if_src E M n p src dest ttl tos proto =
     bindM (deref p) (\<lambda>b.
     thenM (lwip_assert ''p->ref == 1'' (ref b = 1))
       (case dest of
          Some d \<Rightarrow>
            bindM (pbuf_header p (int IP_HLEN)) (\<lambda>r.
              if r \<noteq> 0 then ret ERR_BUF
              else
                bindM (deref p) (\<lambda>b.
                thenM (lwip_assert ''check that first pbuf can hold struct ip_hdr'' (unat (len b) \<ge> IP_HLEN))
               (thenM (put_ip_header (payload b) src d ttl tos proto (tot_len b))
                      (etharp_output E M n p d))))
        | None \<Rightarrow>
            bindM (hdr_get (payload b) 16 4) (\<lambda>d. etharp_output E M n p (le_word d))))"

definition ip_output_if ::
  "env \<Rightarrow> malloc \<Rightarrow> nat \<Rightarrow> addr \<Rightarrow> u32 \<Rightarrow> u32 option \<Rightarrow> u8 \<Rightarrow> u8 \<Rightarrow> u8 \<Rightarrow> ('z ip_state_scheme, int) prog" where
  "ip_output_if E M n p src dest ttl tos proto =
     bindM (gets netif_ip_addr) (\<lambda>ip.
       ip_output_if_src E M n p (if dest \<noteq> None \<and> ip_addr_isany src then ip else src) dest ttl tos proto)"

definition ip_output ::
  "env \<Rightarrow> malloc \<Rightarrow> nat \<Rightarrow> addr \<Rightarrow> u32 \<Rightarrow> u32 \<Rightarrow> u8 \<Rightarrow> u8 \<Rightarrow> u8 \<Rightarrow> ('z ip_state_scheme, int) prog" where
  "ip_output E M n p src dest ttl tos proto =
     bindM (deref p) (\<lambda>b.
     thenM (lwip_assert ''p->ref == 1'' (ref b = 1))
    (bindM (ip_route dest) (\<lambda>r.
       if \<not> r then ret ERR_RTE else ip_output_if E M n p src (Some dest) ttl tos proto)))"

section \<open>Control messages\<close>

definition icmp_send_response :: "env \<Rightarrow> malloc \<Rightarrow> nat \<Rightarrow> addr \<Rightarrow> u8 \<Rightarrow> u8 \<Rightarrow> ('z ip_state_scheme, unit) prog" where
  "icmp_send_response E M n p ty code =
     bindM (pbuf_alloc M n PBUF_IP (of_nat (sizeof_icmp_echo_hdr + IP_HLEN + ICMP_DEST_UNREACH_DATASIZE)) PBUF_RAM) (\<lambda>q.
       if q = 0 then ret ()
       else
         bindM (deref q) (\<lambda>c.
         thenM (lwip_assert ''check that first pbuf can hold icmp message''
                  (unat (len c) \<ge> sizeof_icmp_echo_hdr + IP_HLEN + ICMP_DEST_UNREACH_DATASIZE))
        (bindM (deref p) (\<lambda>b.
         thenM (seqM [put_field q 0 [ty], put_field q 1 [code], put_field q 4 (le_bytes 2 (0 :: u16)), put_field q 6 (le_bytes 2 (0 :: u16))])
        (bindM (hdr_get (payload b) 0 (IP_HLEN + ICMP_DEST_UNREACH_DATASIZE)) (\<lambda>orig.
         thenM (put_field q sizeof_icmp_echo_hdr orig)
        (thenM (put_field q 2 (le_bytes 2 (0 :: u16)))
        (bindM (get_field q 0 (unat (len c))) (\<lambda>msg.
         thenM (put_field q 2 (le_bytes 2 (inet_chksum (odd_ptr (payload c)) msg)))
        (bindM (hdr_get (payload b) 12 4) (\<lambda>src.
         thenM (ip_output E M n q 0 (le_word src) ICMP_TTL 0 IP_PROTO_ICMP)
        (thenM (pbuf_free n q) (ret ())))))))))))))"

definition icmp_dest_unreach :: "env \<Rightarrow> malloc \<Rightarrow> nat \<Rightarrow> addr \<Rightarrow> u8 \<Rightarrow> ('z ip_state_scheme, unit) prog" where
  "icmp_dest_unreach E M n p t = icmp_send_response E M n p ICMP_DUR t"

text \<open>
  Making room for the link header in front of an echo request: the packet itself when there is room, else a copy; \<^const>\<open>None\<close> is the
  jump to \<^verbatim>\<open>memerr\<close>. The result is the packet and its IP header.
\<close>

definition echo_room ::
  "malloc \<Rightarrow> nat \<Rightarrow> addr \<Rightarrow> (addr \<times> int) option \<Rightarrow> nat \<Rightarrow> ('z ip_state_scheme, (addr \<times> (addr \<times> int) option) option) prog" where
  "echo_room M n p iphdr hlen =
     bindM (pbuf_header p (int (PBUF_IP_HLEN + PBUF_LINK_HLEN))) (\<lambda>r.
       if r \<noteq> 0 then
         bindM (deref p) (\<lambda>b.
         bindM (pbuf_alloc M n PBUF_LINK (tot_len b + of_nat hlen) PBUF_RAM) (\<lambda>q.
           if q = 0 then ret None
           else
             bindM (deref q) (\<lambda>c.
             thenM (lwip_assert ''check that first pbuf can hold struct the ICMP header'' (unat (len c) \<ge> hlen + sizeof_icmp_echo_hdr))
            (bindM (hdr_get iphdr 0 hlen) (\<lambda>hdr.
             thenM (memcpy_to (payload c) hdr)
            (bindM (pbuf_header q (- int hlen)) (\<lambda>r.
               if r \<noteq> 0 then thenM (lwip_assert ''icmp_input: moving r->payload to icmp header failed'' False) (ret None)
               else
                 bindM (pbuf_copy n q p) (\<lambda>err.
                   if err \<noteq> ERR_OK then thenM (lwip_assert ''icmp_input: copying to new pbuf failed'' False) (ret None)
                   else thenM (pbuf_free n p) (ret (Some (q, payload c)))))))))))
       else
         bindM (pbuf_header p (- int (PBUF_IP_HLEN + PBUF_LINK_HLEN))) (\<lambda>r.
           if r \<noteq> 0 then thenM (lwip_assert ''icmp_input: restoring original p->payload failed'' False) (ret None)
           else ret (Some (p, iphdr))))"

text \<open>The adjustment of the checksum for the change of the type, on the field as it lies in memory.\<close>

definition echo_chksum :: "u16 \<Rightarrow> u16" where
  "echo_chksum c =
     (if c \<ge> lwip_htons (0xffff - push_bit 8 (ucast ICMP_ECHO)) then c + lwip_htons (push_bit 8 (ucast ICMP_ECHO)) + 1
      else c + lwip_htons (push_bit 8 (ucast ICMP_ECHO)))"

definition echo_reply :: "env \<Rightarrow> malloc \<Rightarrow> nat \<Rightarrow> addr \<Rightarrow> (addr \<times> int) option \<Rightarrow> nat \<Rightarrow> ('z ip_state_scheme, unit) prog" where
  "echo_reply E M n p iphdr hlen =
     bindM (gets current_iphdr_dest) (\<lambda>dest.
     bindM (gets current_iphdr_src) (\<lambda>src.
     thenM (hdr_put iphdr 12 (le_bytes 4 dest))
    (thenM (hdr_put iphdr 16 (le_bytes 4 src))
    (thenM (put_field p 0 [ICMP_ER])
    (bindM (get_field p 2 2) (\<lambda>c.
     thenM (put_field p 2 (le_bytes 2 (echo_chksum (le_word c))))
    (thenM (hdr_put iphdr 8 [ICMP_TTL])
    (thenM (hdr_put iphdr 10 (le_bytes 2 (0 :: u16)))
    (bindM (hdr_get iphdr 0 IP_HLEN) (\<lambda>hdr.
     thenM (hdr_put iphdr 10 (le_bytes 2 (inet_chksum (odd_ptr iphdr) hdr)))
    (bindM (pbuf_header p (int hlen)) (\<lambda>r.
       if r \<noteq> 0 then lwip_assert ''Can't move over header in packet'' False
       else thenM (ip_output_if E M n p dest None ICMP_TTL 0 IP_PROTO_ICMP) (ret ())))))))))))))"

definition icmp_input :: "env \<Rightarrow> malloc \<Rightarrow> nat \<Rightarrow> addr \<Rightarrow> ('z ip_state_scheme, unit) prog" where
  "icmp_input E M n p =
     bindM (gets current_ip4_header) (\<lambda>iphdr.
     bindM (hdr_get iphdr 0 1) (\<lambda>vhl.
     let hlen = IPH_HL (le_word vhl) * 4; drop_it = (\<lambda>p. thenM (pbuf_free n p) (ret ())) in
     bindM (deref p) (\<lambda>b.
       if unat (len b) < 4 then drop_it p
       else
         bindM (get_field p 0 1) (\<lambda>ty.
           if le_word ty = ICMP_ER then drop_it p
           else if le_word ty = ICMP_ECHO then
             bindM (gets current_iphdr_dest) (\<lambda>dest.
               if ip_addr_ismulticast dest then drop_it p
               else if unat (tot_len b) < sizeof_icmp_echo_hdr then drop_it p
               else
                 bindM (chain_blocks n p) (\<lambda>segs.
                   if inet_chksum_pbuf segs \<noteq> 0 then drop_it p
                   else
                     bindM (echo_room M n p iphdr hlen) (\<lambda>r.
                       case r of
                         None \<Rightarrow> drop_it p
                       | Some (q, hdr) \<Rightarrow> thenM (echo_reply E M n q hdr hlen) (drop_it q))))
           else drop_it p))))"

section \<open>Receiving\<close>

text \<open>
  Whether the packet is for the interface: the loop over the interfaces looks at the one there is, and a message for the DHCP client is
  taken in any case, without a look at its source.
\<close>

definition accepted_addr :: "u32 \<Rightarrow> 'z netif_state_scheme \<Rightarrow> bool" where
  "accepted_addr dest s \<longleftrightarrow>
     netif_is_up s \<and> \<not> ip_addr_isany (netif_ip_addr s) \<and> (dest = netif_ip_addr s \<or> ip4_addr_isbroadcast dest s)"

definition accept_packet :: "(addr \<times> int) option \<Rightarrow> nat \<Rightarrow> u32 \<Rightarrow> ('z ip_state_scheme, bool \<times> bool) prog" where
  "accept_packet iphdr hlen dest =
     bindM (gets (accepted_addr dest)) (\<lambda>ok.
       if ok then ret (True, True)
       else
         bindM (hdr_get iphdr 9 1) (\<lambda>proto.
           if le_word proto = IP_PROTO_UDP then
             bindM (hdr_get iphdr (hlen + 2) 2) (\<lambda>port.
               if le_word port = lwip_ntohs DHCP_CLIENT_PORT then ret (True, False) else ret (False, True))
           else ret (False, True)))"

text \<open>Handing the packet to the layer above.\<close>

definition ip_deliver ::
  "env \<Rightarrow> malloc \<Rightarrow> nat \<Rightarrow> (addr \<Rightarrow> ('z ip_state_scheme, unit) prog) \<Rightarrow> (addr \<Rightarrow> ('z ip_state_scheme, unit) prog)
     \<Rightarrow> addr \<Rightarrow> (addr \<times> int) option \<Rightarrow> nat \<Rightarrow> ('z ip_state_scheme, unit) prog" where
  "ip_deliver E M n udp_input tcp_input p iphdr hlen =
     thenM (pbuf_header p (- int hlen))
    (bindM (hdr_get iphdr 9 1) (\<lambda>pr.
     let proto = le_word pr in
       if proto = IP_PROTO_UDP then udp_input p
       else if proto = IP_PROTO_TCP then tcp_input p
       else if proto = IP_PROTO_ICMP then icmp_input E M n p
       else
         bindM (gets current_iphdr_dest) (\<lambda>dest.
         bindM (gets (ip4_addr_isbroadcast dest)) (\<lambda>bc.
         thenM (whenM (\<not> bc \<and> \<not> ip_addr_ismulticast dest)
                  (thenM (pbuf_header_force p (int hlen))
                  (thenM (store p (\<lambda>b. b\<lparr>payload := iphdr\<rparr>))
                         (icmp_dest_unreach E M n p ICMP_DUR_PROTO))))
               (thenM (pbuf_free n p) (ret ()))))))"

definition ip_input ::
  "env \<Rightarrow> malloc \<Rightarrow> nat \<Rightarrow> (addr \<Rightarrow> ('z ip_state_scheme, u8) prog) \<Rightarrow> (addr \<Rightarrow> ('z ip_state_scheme, unit) prog)
     \<Rightarrow> (addr \<Rightarrow> ('z ip_state_scheme, unit) prog) \<Rightarrow> addr \<Rightarrow> ('z ip_state_scheme, int) prog" where
  "ip_input E M n raw_input udp_input tcp_input p =
     bindM (deref p) (\<lambda>b.
     let iphdr = payload b; drop_it = thenM (pbuf_free n p) (ret ERR_OK) in
     bindM (hdr_get iphdr 0 1) (\<lambda>vhl.
       if IPH_V (le_word vhl) \<noteq> 4 then drop_it
       else
         let hlen = IPH_HL (le_word vhl) * 4 in
         bindM (hdr_get iphdr 2 2) (\<lambda>l.
         let iphdr_len = lwip_ntohs (le_word l) in
           if unat (len b) < hlen \<or> tot_len b < iphdr_len then drop_it
           else
             bindM (hdr_get iphdr 0 hlen) (\<lambda>hdr.
               if inet_chksum (odd_ptr iphdr) hdr \<noteq> 0 then drop_it
               else
                 thenM (pbuf_realloc n p iphdr_len)
                (bindM (hdr_get iphdr 16 4) (\<lambda>dst.
                 bindM (hdr_get iphdr 12 4) (\<lambda>sr.
                 let dest = le_word dst; src = le_word sr in
                 thenM (modify (\<lambda>s. s\<lparr>current_iphdr_dest := dest, current_iphdr_src := src\<rparr>))
                (bindM (accept_packet iphdr hlen dest) (\<lambda>(netif, check_ip_src).
                 bindM (gets (ip4_addr_isbroadcast src)) (\<lambda>bc.
                   if check_ip_src \<and> \<not> ip_addr_isany src \<and> (bc \<or> ip_addr_ismulticast src) then drop_it
                   else if \<not> netif then drop_it
                   else
                     bindM (hdr_get iphdr 6 2) (\<lambda>off.
                       if le_word off AND lwip_htons (IP_OFFMASK OR IP_MF) \<noteq> 0 then drop_it
                       else
                         thenM (modify (\<lambda>s. s\<lparr>current_netif := True, current_ip4_header := iphdr,
                                               current_ip_header_tot_len := of_nat hlen\<rparr>))
                        (bindM (raw_input p) (\<lambda>eaten.
                         thenM (whenM (eaten = 0) (ip_deliver E M n udp_input tcp_input p iphdr hlen))
                        (thenM (modify (\<lambda>s. s\<lparr>current_netif := False, current_ip4_header := None, current_ip_header_tot_len := 0,
                                               current_iphdr_src := IPADDR_ANY, current_iphdr_dest := IPADDR_ANY\<rparr>))
                               (ret ERR_OK)))))))))))))))"

text \<open>The whole receive path: \<^verbatim>\<open>netif->input\<close> with the layers above IP as parameters.\<close>

definition stack_input ::
  "env \<Rightarrow> malloc \<Rightarrow> nat \<Rightarrow> (addr \<Rightarrow> ('z ip_state_scheme, u8) prog) \<Rightarrow> (addr \<Rightarrow> ('z ip_state_scheme, unit) prog)
     \<Rightarrow> (addr \<Rightarrow> ('z ip_state_scheme, unit) prog) \<Rightarrow> addr \<Rightarrow> ('z ip_state_scheme, int) prog" where
  "stack_input E M n raw_input udp_input tcp_input =
     ethernet_input E n (\<lambda>p. thenM (ip_input E M n raw_input udp_input tcp_input p) (ret ()))"

end
