(* ===== verification/Udp.thy ===== *)
theory Udp
  imports Ip4
begin

text \<open>
  The datagram protocol (lwip core/udp.c) as configured: no UDP Lite, multicast groups, address reuse or checksums on copy; the option
  \<^verbatim>\<open>SOF_BROADCAST\<close> is not looked at. The control blocks are structures in a heap, linked by their \<^verbatim>\<open>next\<close> pointers into the list of bound ones.
  What a receive function does is a parameter; the function itself is a number, 0 for none. The statistics counters are left out.
\<close>

section \<open>Constants and state\<close>

definition UDP_HLEN :: nat where "UDP_HLEN = 8"

definition UDP_FLAGS_NOCHKSUM :: u8 where "UDP_FLAGS_NOCHKSUM = 0x01"

definition UDP_FLAGS_CONNECTED :: u8 where "UDP_FLAGS_CONNECTED = 0x04"

definition UDP_TTL :: u8 where "UDP_TTL = 255"

definition UDP_LOCAL_PORT_RANGE_START :: u16 where "UDP_LOCAL_PORT_RANGE_START = 0xc000"

definition UDP_LOCAL_PORT_RANGE_END :: u16 where "UDP_LOCAL_PORT_RANGE_END = 0xffff"

definition DHCP_SERVER_PORT :: u16 where "DHCP_SERVER_PORT = 67"

definition ICMP_DUR_PORT :: u8 where "ICMP_DUR_PORT = 3"

definition ERR_USE :: int where "ERR_USE = - 8"

definition memp_size_UDP_PCB :: nat where "memp_size_UDP_PCB = 32"

lemmas udp_consts = UDP_HLEN_def UDP_FLAGS_NOCHKSUM_def UDP_FLAGS_CONNECTED_def UDP_TTL_def UDP_LOCAL_PORT_RANGE_START_def
  UDP_LOCAL_PORT_RANGE_END_def DHCP_SERVER_PORT_def ICMP_DUR_PORT_def ERR_USE_def memp_size_UDP_PCB_def

text \<open>Addresses are in network byte order, ports in host byte order.\<close>

record udp_pcb =
  local_ip :: u32
  remote_ip :: u32
  so_options :: u8
  pcb_tos :: u8
  pcb_ttl :: u8
  pcb_next :: addr
  pcb_flags :: u8
  local_port :: u16
  remote_port :: u16
  pcb_recv :: nat
  pcb_recv_arg :: nat

text \<open>
  \<^verbatim>\<open>dhcp_pcb\<close> is \<^verbatim>\<open>inp->dhcp->pcb\<close>, 0 when the interface has no DHCP client. A live control block also has an entry in \<^const>\<open>blocks\<close>,
  which marks its memory as in use.
\<close>

record udp_state = ip_state +
  udp_heap :: "addr \<rightharpoonup> udp_pcb"
  udp_pcbs :: addr
  udp_port :: u16
  dhcp_pcb :: addr

definition upcb :: "addr \<Rightarrow> ('z udp_state_scheme, udp_pcb) prog" where
  "upcb p =
     bindM (gets (\<lambda>s. udp_heap s p)) (\<lambda>v. case v of None \<Rightarrow> halt_with (Undefined ''udp_pcb'') | Some c \<Rightarrow> ret c)"

definition upcb_set :: "addr \<Rightarrow> (udp_pcb \<Rightarrow> udp_pcb) \<Rightarrow> ('z udp_state_scheme, unit) prog" where
  "upcb_set p f = bindM (upcb p) (\<lambda>c. modify (\<lambda>s. s\<lparr>udp_heap := (udp_heap s)(p \<mapsto> f c)\<rparr>))"

definition set_udp_pcbs :: "addr \<Rightarrow> ('z udp_state_scheme, unit) prog" where
  "set_udp_pcbs p = modify (\<lambda>s. s\<lparr>udp_pcbs := p\<rparr>)"

section \<open>Control blocks\<close>

definition udp_new :: "malloc \<Rightarrow> ('z udp_state_scheme, addr) prog" where
  "udp_new M =
     bindM (mem_malloc M memp_size_UDP_PCB) (\<lambda>(pcb, mem).
       if pcb = 0 then ret 0
       else
         thenM (modify (\<lambda>s. s\<lparr>blocks := (blocks s)(pcb \<mapsto> mem),
           udp_heap := (udp_heap s)(pcb \<mapsto> \<lparr>local_ip = 0, remote_ip = 0, so_options = 0, pcb_tos = 0, pcb_ttl = UDP_TTL, pcb_next = 0,
             pcb_flags = 0, local_port = 0, remote_port = 0, pcb_recv = 0, pcb_recv_arg = 0\<rparr>)\<rparr>))
        (ret pcb))"

text \<open>Whether a listed control block has the port; loops over the list get a number of rounds, as those over buffers.\<close>

primrec port_taken :: "nat \<Rightarrow> u16 \<Rightarrow> addr \<Rightarrow> ('z udp_state_scheme, bool) prog" where
  "port_taken 0 port pcb = halt_with Hang"
| "port_taken (Suc n) port pcb =
     (if pcb = 0 then ret False
      else bindM (upcb pcb) (\<lambda>c. if local_port c = port then ret True else port_taken n port (pcb_next c)))"

definition next_port :: "('z udp_state_scheme, unit) prog" where
  "next_port = modify (\<lambda>s. s\<lparr>udp_port :=
     (if udp_port s = UDP_LOCAL_PORT_RANGE_END then UDP_LOCAL_PORT_RANGE_START else udp_port s + 1)\<rparr>)"

text \<open>The rounds of \<^verbatim>\<open>again\<close>, after \<open>k\<close> ports that were taken.\<close>

function new_port_loop :: "nat \<Rightarrow> u16 \<Rightarrow> ('z udp_state_scheme, u16) prog" where
  "new_port_loop n k =
     thenM next_port
    (bindM (gets udp_port) (\<lambda>port.
     bindM (gets udp_pcbs) (\<lambda>pcbs.
     bindM (port_taken n port pcbs) (\<lambda>taken.
       if taken then
         if k + 1 > UDP_LOCAL_PORT_RANGE_END - UDP_LOCAL_PORT_RANGE_START then ret 0 else new_port_loop n (k + 1)
       else ret port))))"
  by pat_completeness auto
termination
proof (relation "measure (\<lambda>(n, k). if k = - 1 then 0x8000 else 0x4000 - unat k)", goal_cases)
  case (2 n k port pcbs taken)
  show ?case
  proof (cases "k = - 1")
    case False
    then have "unat (k + 1) = unat k + 1" using unatSuc [of k] by (metis add.commute add_eq_0_iff2 Suc_eq_plus1)
    moreover have "unat (k + 1) \<le> 0x3fff" using 2(2) by (simp add: word_le_nat_alt not_less udp_consts)
    moreover have "unat (- 1 :: u16) = 65535" by (simp add: unsigned_minus_1_eq_mask mask_eq_exp_minus_1)
    ultimately have "k + 1 \<noteq> - 1" by fastforce
    then show ?thesis using False \<open>unat (k + 1) = unat k + 1\<close> \<open>unat (k + 1) \<le> 0x3fff\<close> by simp
  qed simp
qed simp

definition udp_new_port :: "nat \<Rightarrow> ('z udp_state_scheme, u16) prog" where
  "udp_new_port n = new_port_loop n 0"

text \<open>The search for a block that is in the way of binding; \<^const>\<open>None\<close> if there is one, else whether the block itself is listed.\<close>

primrec bind_scan :: "nat \<Rightarrow> addr \<Rightarrow> u32 \<Rightarrow> u16 \<Rightarrow> addr \<Rightarrow> bool \<Rightarrow> ('z udp_state_scheme, bool option) prog" where
  "bind_scan 0 pcb ipaddr port ipcb rebind = halt_with Hang"
| "bind_scan (Suc n) pcb ipaddr port ipcb rebind =
     (if ipcb = 0 then ret (Some rebind)
      else
        bindM (upcb ipcb) (\<lambda>c.
          if pcb = ipcb then
            thenM (lwip_assert ''rebind == 0'' (\<not> rebind)) (bind_scan n pcb ipaddr port (pcb_next c) True)
          else if local_port c = port \<and> (ip_addr_isany (local_ip c) \<or> ip_addr_isany ipaddr \<or> local_ip c = ipaddr) then ret None
          else bind_scan n pcb ipaddr port (pcb_next c) rebind))"

text \<open>Putting a block at the front of the list.\<close>

definition list_pcb :: "addr \<Rightarrow> ('z udp_state_scheme, unit) prog" where
  "list_pcb pcb = bindM (gets udp_pcbs) (\<lambda>ps. thenM (upcb_set pcb (\<lambda>c. c\<lparr>pcb_next := ps\<rparr>)) (set_udp_pcbs pcb))"

definition udp_bind :: "nat \<Rightarrow> addr \<Rightarrow> u32 \<Rightarrow> u16 \<Rightarrow> ('z udp_state_scheme, int) prog" where
  "udp_bind n pcb ipaddr port =
     bindM (gets udp_pcbs) (\<lambda>ps.
     bindM (bind_scan n pcb ipaddr port ps False) (\<lambda>r.
       case r of None \<Rightarrow> ret ERR_USE
       | Some rebind \<Rightarrow>
           thenM (upcb_set pcb (\<lambda>c. c\<lparr>local_ip := ipaddr\<rparr>))
          (bindM (if port = 0 then udp_new_port n else ret port) (\<lambda>port'.
             if port' = 0 then ret ERR_USE
             else
               thenM (upcb_set pcb (\<lambda>c. c\<lparr>local_port := port'\<rparr>))
              (thenM (whenM (\<not> rebind) (list_pcb pcb))
                     (ret ERR_OK))))))"

primrec is_listed :: "nat \<Rightarrow> addr \<Rightarrow> addr \<Rightarrow> ('z udp_state_scheme, bool) prog" where
  "is_listed 0 pcb ipcb = halt_with Hang"
| "is_listed (Suc n) pcb ipcb =
     (if ipcb = 0 then ret False
      else if pcb = ipcb then ret True
      else bindM (upcb ipcb) (\<lambda>c. is_listed n pcb (pcb_next c)))"

definition udp_connect :: "nat \<Rightarrow> addr \<Rightarrow> u32 \<Rightarrow> u16 \<Rightarrow> ('z udp_state_scheme, int) prog" where
  "udp_connect n pcb ipaddr port =
     bindM (upcb pcb) (\<lambda>c.
     bindM (if local_port c = 0 then udp_bind n pcb (local_ip c) (local_port c) else ret ERR_OK) (\<lambda>err.
       if err \<noteq> ERR_OK then ret err
       else
         thenM (upcb_set pcb (\<lambda>c. c\<lparr>remote_ip := ipaddr, remote_port := port, pcb_flags := pcb_flags c OR UDP_FLAGS_CONNECTED\<rparr>))
        (bindM (gets udp_pcbs) (\<lambda>ps.
         bindM (is_listed n pcb ps) (\<lambda>l.
         thenM (whenM (\<not> l) (list_pcb pcb))
               (ret ERR_OK))))))"

definition udp_disconnect :: "addr \<Rightarrow> ('z udp_state_scheme, unit) prog" where
  "udp_disconnect pcb =
     upcb_set pcb (\<lambda>c. c\<lparr>remote_ip := IPADDR_ANY, remote_port := 0, pcb_flags := pcb_flags c AND NOT UDP_FLAGS_CONNECTED\<rparr>)"

definition udp_recv :: "addr \<Rightarrow> nat \<Rightarrow> nat \<Rightarrow> ('z udp_state_scheme, unit) prog" where
  "udp_recv pcb fn a = upcb_set pcb (\<lambda>c. c\<lparr>pcb_recv := fn, pcb_recv_arg := a\<rparr>)"

text \<open>Unlinking a block that is not the first; the loop of the code goes on to the end of the list.\<close>

primrec unlink_loop :: "nat \<Rightarrow> addr \<Rightarrow> addr \<Rightarrow> ('z udp_state_scheme, unit) prog" where
  "unlink_loop 0 pcb pcb2 = halt_with Hang"
| "unlink_loop (Suc n) pcb pcb2 =
     (if pcb2 = 0 then ret ()
      else
        bindM (upcb pcb2) (\<lambda>c.
        thenM (whenM (pcb_next c \<noteq> 0 \<and> pcb_next c = pcb)
                 (bindM (upcb pcb) (\<lambda>d. upcb_set pcb2 (\<lambda>c. c\<lparr>pcb_next := pcb_next d\<rparr>))))
       (bindM (upcb pcb2) (\<lambda>c. unlink_loop n pcb (pcb_next c)))))"

definition udp_remove :: "nat \<Rightarrow> addr \<Rightarrow> ('z udp_state_scheme, unit) prog" where
  "udp_remove n pcb =
     bindM (gets udp_pcbs) (\<lambda>ps.
     thenM (if ps = pcb then bindM (upcb pcb) (\<lambda>c. set_udp_pcbs (pcb_next c)) else unlink_loop n pcb ps)
    (thenM (upcb pcb)
           (modify (\<lambda>s. s\<lparr>udp_heap := (udp_heap s)(pcb := None), blocks := (blocks s)(pcb := None)\<rparr>))))"

section \<open>Sending\<close>

text \<open>The header goes in front of the data, or into a buffer of its own that is chained before them; the result 0 is for no memory.\<close>

definition udp_room :: "malloc \<Rightarrow> nat \<Rightarrow> addr \<Rightarrow> ('z udp_state_scheme, addr) prog" where
  "udp_room M n p =
     bindM (pbuf_header p (int UDP_HLEN)) (\<lambda>r.
       if r \<noteq> 0 then
         bindM (pbuf_alloc M n PBUF_IP (of_nat UDP_HLEN) PBUF_RAM) (\<lambda>q.
           if q = 0 then ret 0
           else bindM (deref p) (\<lambda>b. thenM (whenM (tot_len b \<noteq> 0) (pbuf_chain n q p)) (ret q)))
       else ret p)"

definition udp_chksum :: "pbuf_chain \<Rightarrow> u16 \<Rightarrow> u32 \<Rightarrow> u32 \<Rightarrow> u16" where
  "udp_chksum ch tot src dest =
     (let udpchksum = inet_chksum_pseudo ch IP_PROTO_UDP tot src dest in if udpchksum = 0 then 0xffff else udpchksum)"

definition udp_sendto_if_src ::
  "env \<Rightarrow> malloc \<Rightarrow> nat \<Rightarrow> addr \<Rightarrow> addr \<Rightarrow> u32 \<Rightarrow> u16 \<Rightarrow> u32 \<Rightarrow> ('z udp_state_scheme, int) prog" where
  "udp_sendto_if_src E M n pcb p dst_ip dst_port src_ip =
     bindM (upcb pcb) (\<lambda>c.
     bindM (if local_port c = 0 then udp_bind n pcb (local_ip c) (local_port c) else ret ERR_OK) (\<lambda>err.
       if err \<noteq> ERR_OK then ret err
       else
         bindM (udp_room M n p) (\<lambda>q.
           if q = 0 then ret ERR_MEM
           else
             bindM (deref q) (\<lambda>b.
             thenM (lwip_assert ''check that first pbuf can hold struct udp_hdr'' (unat (len b) \<ge> UDP_HLEN))
            (bindM (upcb pcb) (\<lambda>c.
             thenM (seqM [
                 hdr_put (payload b) 0 (le_bytes 2 (lwip_htons (local_port c))),
                 hdr_put (payload b) 2 (le_bytes 2 (lwip_htons dst_port)),
                 hdr_put (payload b) 6 (le_bytes 2 (0 :: u16)),
                 hdr_put (payload b) 4 (le_bytes 2 (lwip_htons (tot_len b)))])
            (thenM (whenM (pcb_flags c AND UDP_FLAGS_NOCHKSUM = 0)
                 (bindM (chain_blocks n q) (\<lambda>ch. hdr_put (payload b) 6 (le_bytes 2 (udp_chksum ch (tot_len b) src_ip dst_ip)))))
            (bindM (ip_output_if_src E M n q src_ip (Some dst_ip) (pcb_ttl c) (pcb_tos c) IP_PROTO_UDP) (\<lambda>err.
             thenM (whenM (q \<noteq> p) (thenM (pbuf_free n q) (ret ())))
                   (ret err))))))))))"

definition udp_sendto_if ::
  "env \<Rightarrow> malloc \<Rightarrow> nat \<Rightarrow> addr \<Rightarrow> addr \<Rightarrow> u32 \<Rightarrow> u16 \<Rightarrow> ('z udp_state_scheme, int) prog" where
  "udp_sendto_if E M n pcb p dst_ip dst_port =
     bindM (upcb pcb) (\<lambda>c.
     bindM (gets netif_ip_addr) (\<lambda>ip.
       if ip_addr_isany (local_ip c) then udp_sendto_if_src E M n pcb p dst_ip dst_port ip
       else if local_ip c \<noteq> ip then ret ERR_VAL
       else udp_sendto_if_src E M n pcb p dst_ip dst_port (local_ip c)))"

definition udp_sendto :: "env \<Rightarrow> malloc \<Rightarrow> nat \<Rightarrow> addr \<Rightarrow> addr \<Rightarrow> u32 \<Rightarrow> u16 \<Rightarrow> ('z udp_state_scheme, int) prog" where
  "udp_sendto E M n pcb p dst_ip dst_port =
     bindM (ip_route dst_ip) (\<lambda>r. if \<not> r then ret ERR_RTE else udp_sendto_if E M n pcb p dst_ip dst_port)"

definition udp_send :: "env \<Rightarrow> malloc \<Rightarrow> nat \<Rightarrow> addr \<Rightarrow> addr \<Rightarrow> ('z udp_state_scheme, int) prog" where
  "udp_send E M n pcb p = bindM (upcb pcb) (\<lambda>c. udp_sendto E M n pcb p (remote_ip c) (remote_port c))"

section \<open>Receiving\<close>

text \<open>Whether a control block takes datagrams for the current destination and for the port, and whether it takes them from the current sender.\<close>

definition local_match :: "udp_pcb \<Rightarrow> u16 \<Rightarrow> bool \<Rightarrow> 'z udp_state_scheme \<Rightarrow> bool" where
  "local_match c dest broadcast s \<longleftrightarrow>
     local_port c = dest \<and>
     ((\<not> broadcast \<and> ip_addr_isany (local_ip c)) \<or> local_ip c = current_iphdr_dest s \<or>
      (broadcast \<and> (ip_addr_isany (local_ip c) \<or> ip_addr_netcmp (local_ip c) (current_iphdr_dest s) (netif_netmask s))))"

definition remote_match :: "udp_pcb \<Rightarrow> u16 \<Rightarrow> 'z udp_state_scheme \<Rightarrow> bool" where
  "remote_match c src s \<longleftrightarrow> remote_port c = src \<and> (ip_addr_isany (remote_ip c) \<or> remote_ip c = current_iphdr_src s)"

definition to_front :: "addr \<Rightarrow> addr \<Rightarrow> ('z udp_state_scheme, unit) prog" where
  "to_front prev pcb =
     bindM (upcb pcb) (\<lambda>c.
     thenM (upcb_set prev (\<lambda>d. d\<lparr>pcb_next := pcb_next c\<rparr>))
           (list_pcb pcb))"

text \<open>The loop over the list: the block that matches fully, 0 for none, and the first that is not connected and matches locally.\<close>

primrec match_loop :: "nat \<Rightarrow> u16 \<Rightarrow> u16 \<Rightarrow> bool \<Rightarrow> addr \<Rightarrow> addr \<Rightarrow> addr \<Rightarrow> ('z udp_state_scheme, addr \<times> addr) prog" where
  "match_loop 0 src dest broadcast prev pcb uncon_pcb = halt_with Hang"
| "match_loop (Suc n) src dest broadcast prev pcb uncon_pcb =
     (if pcb = 0 then ret (0, uncon_pcb)
      else
        bindM (upcb pcb) (\<lambda>c.
        bindM (gets (local_match c dest broadcast)) (\<lambda>local_ok.
        bindM (gets (remote_match c src)) (\<lambda>remote_ok.
        let uncon_pcb = (if local_ok \<and> uncon_pcb = 0 \<and> pcb_flags c AND UDP_FLAGS_CONNECTED = 0 then pcb else uncon_pcb) in
          if local_ok \<and> remote_ok then thenM (whenM (prev \<noteq> 0) (to_front prev pcb)) (ret (pcb, uncon_pcb))
          else match_loop n src dest broadcast pcb (pcb_next c) uncon_pcb))))"

definition udp_find :: "nat \<Rightarrow> u16 \<Rightarrow> u16 \<Rightarrow> bool \<Rightarrow> ('z udp_state_scheme, addr) prog" where
  "udp_find n src dest broadcast =
     (if dest = DHCP_CLIENT_PORT then
        if src = DHCP_SERVER_PORT then
          bindM (gets dhcp_pcb) (\<lambda>d.
            if d \<noteq> 0 then
              bindM (upcb d) (\<lambda>c.
              bindM (gets current_iphdr_src) (\<lambda>sender.
                if ip_addr_isany (remote_ip c) \<or> remote_ip c = sender then ret d else ret 0))
            else ret 0)
        else ret 0
      else
        bindM (gets udp_pcbs) (\<lambda>ps.
        bindM (match_loop n src dest broadcast 0 ps 0) (\<lambda>(pcb, uncon_pcb). ret (if pcb = 0 then uncon_pcb else pcb))))"

text \<open>Whether the datagram has a checksum and it is wrong.\<close>

definition udp_chkerr :: "nat \<Rightarrow> addr \<Rightarrow> (addr \<times> int) option \<Rightarrow> u16 \<Rightarrow> ('z udp_state_scheme, bool) prog" where
  "udp_chkerr n p udphdr tot =
     bindM (hdr_get udphdr 6 2) (\<lambda>ck.
       if le_word ck \<noteq> (0 :: u16) then
         bindM (chain_blocks n p) (\<lambda>ch.
         gets (\<lambda>s. inet_chksum_pseudo ch IP_PROTO_UDP tot (current_iphdr_src s) (current_iphdr_dest s) \<noteq> 0))
       else ret False)"

type_synonym 'z udp_callbacks = "nat \<Rightarrow> nat \<Rightarrow> addr \<Rightarrow> addr \<Rightarrow> u32 \<Rightarrow> u16 \<Rightarrow> ('z udp_state_scheme, unit) prog"

text \<open>Handing the data to the receive function of the control block; without one, or without a control block, the buffer is freed.\<close>

definition udp_deliver ::
  "env \<Rightarrow> malloc \<Rightarrow> nat \<Rightarrow> 'z udp_callbacks \<Rightarrow> addr \<Rightarrow> addr \<Rightarrow> u16 \<Rightarrow> bool \<Rightarrow> ('z udp_state_scheme, unit) prog" where
  "udp_deliver E M n cb p pcb src broadcast =
     (if pcb \<noteq> 0 then
        bindM (upcb pcb) (\<lambda>c.
          if pcb_recv c \<noteq> 0 then bindM (gets current_iphdr_src) (\<lambda>sender. cb (pcb_recv c) (pcb_recv_arg c) pcb p sender src)
          else thenM (pbuf_free n p) (ret ()))
      else
        bindM (gets current_iphdr_dest) (\<lambda>dst.
        thenM (whenM (\<not> broadcast \<and> \<not> ip_addr_ismulticast dst)
                 (bindM (gets current_ip_header_tot_len) (\<lambda>hl.
                  thenM (pbuf_header_force p (int (unat hl) + int UDP_HLEN))
                        (icmp_dest_unreach E M n p ICMP_DUR_PORT))))
              (thenM (pbuf_free n p) (ret ()))))"

definition udp_input :: "env \<Rightarrow> malloc \<Rightarrow> nat \<Rightarrow> 'z udp_callbacks \<Rightarrow> addr \<Rightarrow> ('z udp_state_scheme, unit) prog" where
  "udp_input E M n cb p =
     bindM (deref p) (\<lambda>b.
     let udphdr = payload b; drop_it = thenM (pbuf_free n p) (ret ()) in
       if unat (len b) < UDP_HLEN then drop_it
       else
         bindM (gets (\<lambda>s. ip4_addr_isbroadcast (current_iphdr_dest s) s)) (\<lambda>broadcast.
         bindM (hdr_get udphdr 0 2) (\<lambda>sp.
         bindM (hdr_get udphdr 2 2) (\<lambda>dp.
         let src = lwip_ntohs (le_word sp); dest = lwip_ntohs (le_word dp) in
         bindM (udp_find n src dest broadcast) (\<lambda>pcb.
         bindM (gets (\<lambda>s. pcb \<noteq> 0 \<or> netif_ip_addr s = current_iphdr_dest s)) (\<lambda>for_us.
           if \<not> for_us then drop_it
           else
             bindM (udp_chkerr n p udphdr (tot_len b)) (\<lambda>bad.
               if bad then drop_it
               else
                 bindM (pbuf_header p (- int UDP_HLEN)) (\<lambda>r.
                   if r \<noteq> 0 then thenM (lwip_assert ''pbuf_header failed'' False) drop_it
                   else udp_deliver E M n cb p pcb src broadcast))))))))"

text \<open>The receive path of the stack with this protocol in its place.\<close>

definition stack_udp_input ::
  "env \<Rightarrow> malloc \<Rightarrow> nat \<Rightarrow> 'z udp_callbacks \<Rightarrow> (addr \<Rightarrow> ('z udp_state_scheme, u8) prog) \<Rightarrow> (addr \<Rightarrow> ('z udp_state_scheme, unit) prog)
     \<Rightarrow> addr \<Rightarrow> ('z udp_state_scheme, int) prog" where
  "stack_udp_input E M n cb raw_input tcp_input = stack_input E M n raw_input (udp_input E M n cb) tcp_input"

end
