(* ===== verification/UdpList.thy ===== *)
theory UdpList
  imports Udp PbufChain
begin

text \<open>
  The list of bound control blocks: the pointers of the heap as a list of addresses, the search for a free port, and the rule that no
  two control blocks are bound to the same address and port.
\<close>

section \<open>Linked structures\<close>

text \<open>The structures reached from \<open>p\<close> through the pointers \<open>nxt\<close>, up to \<^verbatim>\<open>NULL\<close>.\<close>

primrec linked :: "('b \<Rightarrow> addr) \<Rightarrow> (addr \<rightharpoonup> 'b) \<Rightarrow> addr \<Rightarrow> addr list \<Rightarrow> bool" where
  "linked nxt hp p [] \<longleftrightarrow> p = 0"
| "linked nxt hp p (q # qs) \<longleftrightarrow> p = q \<and> q \<noteq> 0 \<and> (case hp q of None \<Rightarrow> False | Some c \<Rightarrow> linked nxt hp (nxt c) qs)"

lemma linked_Cons:
  "linked nxt hp p (q # qs) \<longleftrightarrow> p = q \<and> q \<noteq> 0 \<and> (\<exists>c. hp q = Some c \<and> linked nxt hp (nxt c) qs)"
  by (cases "hp q") simp_all

declare linked.simps(2) [simp del]

lemma linked_NULL [simp]: "linked nxt hp 0 ps \<longleftrightarrow> ps = []"
  by (cases ps) (auto simp: linked_Cons)

lemma linked_unique: "linked nxt hp p ps \<Longrightarrow> linked nxt hp p qs \<Longrightarrow> ps = qs"
proof (induction ps arbitrary: p qs)
  case (Cons x ps)
  then show ?case by (cases qs) (auto simp: linked_Cons)
qed simp

lemma linked_suffix: "linked nxt hp p (xs @ y # ys) \<Longrightarrow> linked nxt hp y (y # ys)"
  by (induction xs arbitrary: p) (auto simp: linked_Cons)

lemma linked_distinct: "linked nxt hp p ps \<Longrightarrow> distinct ps"
proof (induction ps arbitrary: p)
  case (Cons x ps)
  then obtain c where c: "hp x = Some c" "linked nxt hp (nxt c) ps" by (auto simp: linked_Cons)
  have "x \<notin> set ps"
  proof
    assume "x \<in> set ps"
    then obtain us vs where ps: "ps = us @ x # vs" by (auto simp: in_set_conv_decomp)
    then have "linked nxt hp x (x # vs)" using c(2) linked_suffix by metis
    moreover have "linked nxt hp x (x # ps)" using Cons.prems by (auto simp: linked_Cons)
    ultimately have "x # vs = x # ps" by (rule linked_unique)
    then show False using ps by simp
  qed
  then show ?case using Cons.IH c(2) by simp
qed simp

lemma linked_alive: "linked nxt hp p ps \<Longrightarrow> q \<in> set ps \<Longrightarrow> q \<noteq> 0 \<and> (\<exists>c. hp q = Some c)"
  by (induction ps arbitrary: p) (auto simp: linked_Cons)

lemma linked_cong:
  assumes "linked nxt hp p ps" and "\<And>q. q \<in> set ps \<Longrightarrow> map_option nxt (hp' q) = map_option nxt (hp q)"
  shows "linked nxt hp' p ps"
  using assms
proof (induction ps arbitrary: p)
  case (Cons x ps)
  then obtain c c' where "hp x = Some c" "hp' x = Some c'" "nxt c' = nxt c" by (fastforce simp: linked_Cons)
  then show ?case using Cons by (auto simp: linked_Cons)
qed simp

lemma linked_upd: "linked nxt hp p ps \<Longrightarrow> q \<notin> set ps \<Longrightarrow> linked nxt (hp(q := x)) p ps"
  by (erule linked_cong) auto

text \<open>A field other than the pointer may change.\<close>

lemma linked_field: "linked nxt hp p ps \<Longrightarrow> hp q = Some c \<Longrightarrow> nxt c' = nxt c \<Longrightarrow> linked nxt (hp(q \<mapsto> c')) p ps"
  by (erule linked_cong) auto

text \<open>Removing an element from the middle.\<close>

lemma linked_unlink:
  assumes "linked nxt hp p (xs @ a # b # ys)" and "hp a = Some ca" and "hp b = Some cb" and "nxt ca' = nxt cb"
  shows "linked nxt (hp(a \<mapsto> ca')) p (xs @ a # ys)"
  using assms
proof (induction xs arbitrary: p)
  case Nil
  then have "linked nxt hp (nxt cb) ys" by (auto simp: linked_Cons)
  moreover have "a \<notin> set ys" using linked_distinct [OF Nil(1)] by simp
  ultimately have "linked nxt (hp(a \<mapsto> ca')) (nxt ca') ys" using Nil(4) linked_upd by metis
  then show ?case using Nil(1) by (simp add: linked_Cons fun_upd_def)
next
  case (Cons x xs)
  then obtain c where c: "hp x = Some c" "linked nxt hp (nxt c) (xs @ a # b # ys)" "p = x" "x \<noteq> 0" by (auto simp: linked_Cons)
  have "x \<noteq> a" using linked_distinct [OF Cons.prems(1)] by auto
  then show ?case using Cons.IH [OF c(2) Cons.prems(2-4)] c by (simp add: linked_Cons)
qed

section \<open>Running the operations\<close>

lemma upcb_run [simp]: "udp_heap s p = Some c \<Longrightarrow> upcb p s = Ret c s"
  by (simp add: upcb_def)

lemma upcb_set_run [simp]: "udp_heap s p = Some c \<Longrightarrow> upcb_set p f s = Ret () (s\<lparr>udp_heap := (udp_heap s)(p \<mapsto> f c)\<rparr>)"
  by (simp add: upcb_set_def)

lemma set_udp_pcbs_run [simp]: "set_udp_pcbs p s = Ret () (s\<lparr>udp_pcbs := p\<rparr>)"
  by (simp add: set_udp_pcbs_def)

lemma list_pcb_run [simp]:
  "udp_heap s p = Some c \<Longrightarrow> list_pcb p s = Ret () (s\<lparr>udp_heap := (udp_heap s)(p \<mapsto> c\<lparr>pcb_next := udp_pcbs s\<rparr>), udp_pcbs := p\<rparr>)"
  by (simp add: list_pcb_def)

text \<open>The bound control blocks of a state, and a block by its address.\<close>

definition bound :: "'z udp_state_scheme \<Rightarrow> addr list \<Rightarrow> bool" where
  "bound s xs \<longleftrightarrow> linked pcb_next (udp_heap s) (udp_pcbs s) xs"

definition pcb_at :: "'z udp_state_scheme \<Rightarrow> addr \<Rightarrow> udp_pcb" where
  "pcb_at s p = the (udp_heap s p)"

lemma pcb_at_Some: "udp_heap s p = Some c \<Longrightarrow> pcb_at s p = c"
  by (simp add: pcb_at_def)

lemma port_taken_run:
  "linked pcb_next (udp_heap s) p xs \<Longrightarrow> length xs < n \<Longrightarrow>
    port_taken n port p s = Ret (port \<in> (\<lambda>x. local_port (pcb_at s x)) ` set xs) s"
proof (induction xs arbitrary: p n)
  case Nil
  then show ?case by (cases n) auto
next
  case (Cons x xs)
  then obtain k c where "n = Suc k" "udp_heap s x = Some c" "p = x" "x \<noteq> 0" "linked pcb_next (udp_heap s) (pcb_next c) xs"
    by (cases n) (auto simp: linked_Cons)
  then show ?case using Cons.IH [of "pcb_next c" k] Cons.prems(2) by (auto simp: pcb_at_Some)
qed

text \<open>Two blocks whose addresses and ports cannot both be bound.\<close>

definition clash :: "udp_pcb \<Rightarrow> u32 \<Rightarrow> u16 \<Rightarrow> bool" where
  "clash c ip port \<longleftrightarrow> local_port c = port \<and> (local_ip c = IPADDR_ANY \<or> ip = IPADDR_ANY \<or> local_ip c = ip)"

lemma bind_scan_run:
  "linked pcb_next (udp_heap s) p xs \<Longrightarrow> length xs < n \<Longrightarrow> (rebind \<longrightarrow> pcb \<notin> set xs) \<Longrightarrow>
    bind_scan n pcb ip port p rebind s =
      Ret (if \<exists>x \<in> set xs. x \<noteq> pcb \<and> clash (pcb_at s x) ip port then None else Some (rebind \<or> pcb \<in> set xs)) s"
proof (induction xs arbitrary: p n rebind)
  case Nil
  then show ?case by (cases n) auto
next
  case (Cons x xs)
  then obtain k c where c: "n = Suc k" "udp_heap s x = Some c" "p = x" "x \<noteq> 0" "linked pcb_next (udp_heap s) (pcb_next c) xs"
    by (cases n) (auto simp: linked_Cons)
  have x: "x \<notin> set xs" "length xs < k" using linked_distinct [OF Cons.prems(1)] Cons.prems(2) c(1) by simp_all
  have cl: "(local_port c = port \<and> (ip_addr_isany (local_ip c) \<or> ip_addr_isany ip \<or> local_ip c = ip)) = clash (pcb_at s x) ip port"
    using c(2) by (simp add: pcb_at_Some clash_def ip_addr_isany_def)
  show ?case
  proof (cases "x = pcb")
    case True
    then have "bind_scan n pcb ip port p rebind s = bind_scan k pcb ip port (pcb_next c) True s"
      using c Cons.prems(3) by simp
    then show ?thesis using Cons.IH [OF c(5) x(2), of True] True x(1) by (simp only: list.set bex_simps simp_thms) simp
  next
    case False
    then have "bind_scan n pcb ip port p rebind s =
        (if clash (pcb_at s x) ip port then Ret None s else bind_scan k pcb ip port (pcb_next c) rebind s)"
      using c(1-4) cl by simp
    then show ?thesis using Cons.IH [OF c(5) x(2), of rebind] Cons.prems(3) False by simp blast
  qed
qed

lemma is_listed_run:
  "linked pcb_next (udp_heap s) p xs \<Longrightarrow> length xs < n \<Longrightarrow> is_listed n pcb p s = Ret (pcb \<in> set xs) s"
proof (induction xs arbitrary: p n)
  case Nil
  then show ?case by (cases n) auto
next
  case (Cons x xs)
  then obtain k c where "n = Suc k" "udp_heap s x = Some c" "p = x" "x \<noteq> 0" "linked pcb_next (udp_heap s) (pcb_next c) xs"
    by (cases n) (auto simp: linked_Cons)
  then show ?case using Cons.IH [of "pcb_next c" k] Cons.prems(2) by auto
qed

section \<open>A free port\<close>

declare new_port_loop.simps [simp del]

definition used_ports :: "'z udp_state_scheme \<Rightarrow> addr list \<Rightarrow> u16 set" where
  "used_ports s xs = (\<lambda>x. local_port (pcb_at s x)) ` set xs"

lemma used_ports_port [simp]: "used_ports (s\<lparr>udp_port := v\<rparr>) xs = used_ports s xs"
  by (simp add: used_ports_def pcb_at_def)

text \<open>The port that is \<open>i\<close> steps after \<open>v\<close> in the dynamic range, which wraps around.\<close>

definition port_after :: "u16 \<Rightarrow> nat \<Rightarrow> u16" where
  "port_after v i = of_nat (0xc000 + (unat v - 0xc000 + i) mod 0x4000)"

lemma unat_port_after: "unat (port_after v i) = 0xc000 + (unat v - 0xc000 + i) mod 0x4000"
proof -
  define m where "m = (unat v - 0xc000 + i) mod 0x4000"
  have "m < 0x4000" by (simp add: m_def)
  then have "unat (of_nat (0xc000 + m) :: u16) = 0xc000 + m" by (simp only: unat_of_nat) simp
  then show ?thesis by (simp only: port_after_def m_def)
qed

lemma port_after_range: "0xc000 \<le> port_after v i"
  by (simp add: word_le_nat_alt unat_port_after)

lemma port_after_one: "0xc000 \<le> v \<Longrightarrow> (if v = UDP_LOCAL_PORT_RANGE_END then UDP_LOCAL_PORT_RANGE_START else v + 1) = port_after v 1"
proof -
  assume v: "0xc000 \<le> v"
  have le: "unat v \<le> 65535" "0xc000 \<le> unat v" using unsigned_less [of v, where 'a = nat] v by (simp_all add: word_le_nat_alt)
  show ?thesis
  proof (cases "v = 0xffff")
    case False
    then have "unat v \<noteq> 65535" by (simp add: word_unat_eq_iff)
    then have "unat v + 1 < 65536" "unat v - 0xc000 + 1 < 0x4000" using le by simp_all
    then have "unat (v + 1) = unat (port_after v 1)" using le unfolding unat_port_after by (simp add: unat_word_ariths)
    then show ?thesis using False by (simp add: udp_consts word_unat_eq_iff)
  qed (simp add: udp_consts port_after_def)
qed

lemma port_after_after: "0xc000 \<le> v \<Longrightarrow> port_after (port_after v i) j = port_after v (i + j)"
  by (simp add: word_unat_eq_iff unat_port_after mod_simps add.assoc)

lemma port_after_all:
  assumes "0xc000 \<le> v" and "0xc000 \<le> q"
  shows "\<exists>i \<in> {1..0x4000}. q = port_after v i"
proof -
  have le: "unat v \<le> 65535" "0xc000 \<le> unat v" "unat q \<le> 65535" "0xc000 \<le> unat q"
    using unsigned_less [of v, where 'a = nat] unsigned_less [of q, where 'a = nat] assms by (simp_all add: word_le_nat_alt)
  define i where "i = (if unat v < unat q then unat q - unat v else 0x4000 + unat q - unat v)"
  have i: "i \<in> {1..0x4000}" using le by (auto simp: i_def)
  have "(unat v - 0xc000 + i) mod 0x4000 = unat q - 0xc000"
  proof (cases "unat v < unat q")
    case True
    then have "unat v - 0xc000 + i = unat q - 0xc000" using le by (simp add: i_def)
    then show ?thesis using le by simp
  next
    case False
    then have "unat v - 0xc000 + i = (unat q - 0xc000) + 0x4000" using le by (simp add: i_def)
    moreover have "unat q - 0xc000 < 0x4000" using le by simp
    ultimately show ?thesis by (simp only: mod_add_self2 mod_less)
  qed
  then have "unat q = unat (port_after v i)" using le by (simp add: unat_port_after)
  then show ?thesis using i by (auto simp: word_unat_eq_iff)
qed

lemma new_port_loop_run:
  assumes "bound s xs" and "length xs < n" and "0xc000 \<le> udp_port s" and "k \<le> 0x3fff"
  shows "\<exists>r v. new_port_loop n k s = Ret r (s\<lparr>udp_port := v\<rparr>) \<and> 0xc000 \<le> v \<and>
    (if r = 0 then \<forall>i \<in> {1..0x4000 - unat k}. port_after (udp_port s) i \<in> used_ports s xs else r = v \<and> r \<notin> used_ports s xs)"
  using assms
proof (induction n k arbitrary: s rule: new_port_loop.induct)
  case (1 n k)
  let ?v = "port_after (udp_port s) 1" and ?s = "s\<lparr>udp_port := port_after (udp_port s) 1\<rparr>"
  have l: "linked pcb_next (udp_heap ?s) (udp_pcbs ?s) xs" using 1(2) by (simp add: bound_def)
  have np: "next_port s = Ret () ?s" using port_after_one [OF 1(4)] by (simp add: next_port_def)
  have run: "new_port_loop n k s = (if ?v \<in> used_ports s xs then
      (if k + 1 > UDP_LOCAL_PORT_RANGE_END - UDP_LOCAL_PORT_RANGE_START then Ret 0 ?s else new_port_loop n (k + 1) ?s) else Ret ?v ?s)"
    using port_taken_run [OF l 1(3), of ?v] by (simp add: new_port_loop.simps [of n k] thenM_Ret [of next_port, OF np] used_ports_def pcb_at_def)
  have ks: "unat (k + 1) = unat k + 1" "unat k \<le> 0x3fff"
  proof -
    show "unat k \<le> 0x3fff" using 1(5) by (simp add: word_le_nat_alt)
    then show "unat (k + 1) = unat k + 1" by (simp add: unat_word_ariths)
  qed
  have v0: "?v \<noteq> 0" using port_after_range [of "udp_port s" 1] by auto
  consider (free) "?v \<notin> used_ports s xs" | (out) "?v \<in> used_ports s xs" "k = 0x3fff" | (again) "?v \<in> used_ports s xs" "k + 1 \<le> 0x3fff"
  proof (cases "k = 0x3fff")
    case False
    then have "unat k \<noteq> 0x3fff" by (simp add: word_unat_eq_iff)
    then have "k + 1 \<le> 0x3fff" using ks by (simp add: word_le_nat_alt)
    then show ?thesis using that by blast
  qed (use that in blast)
  then show ?case
  proof cases
    case free
    then show ?thesis using run port_after_range v0 by (intro exI [of _ ?v]) simp
  next
    case out
    then have "new_port_loop n k s = Ret 0 ?s" using run by (simp add: udp_consts)
    moreover have "port_after (udp_port s) i \<in> used_ports s xs" if "i \<in> {1..0x4000 - unat k}" for i
    proof -
      have "i = 1" using that out(2) by simp
      then show ?thesis using out(1) by simp
    qed
    ultimately show ?thesis using port_after_range [of "udp_port s" 1]
      by - (rule exI [of _ "0 :: u16"], rule exI [of _ ?v], simp only: if_True simp_thms, blast)
  next
    case again
    have le: "\<not> k + 1 > UDP_LOCAL_PORT_RANGE_END - UDP_LOCAL_PORT_RANGE_START" using again(2) by (simp add: udp_consts not_less)
    have b: "bound ?s xs" "0xc000 \<le> udp_port ?s" using 1(2) port_after_range by (simp_all add: bound_def)
    obtain r v where r: "new_port_loop n (k + 1) ?s = Ret r (?s\<lparr>udp_port := v\<rparr>)" "0xc000 \<le> v"
      "if r = 0 then \<forall>i \<in> {1..0x4000 - unat (k + 1)}. port_after (udp_port ?s) i \<in> used_ports s xs else r = v \<and> r \<notin> used_ports s xs"
      using 1(1) [OF TrueI le b(1) 1(3) b(2) again(2)] unfolding used_ports_port by blast
    have "\<forall>i \<in> {1..0x4000 - unat k}. port_after (udp_port s) i \<in> used_ports s xs" if "r = 0"
    proof
      fix i assume i: "i \<in> {1..0x4000 - unat k}"
      show "port_after (udp_port s) i \<in> used_ports s xs"
      proof (cases "i = 1")
        case False
        then have "i - 1 \<in> {1..0x4000 - unat (k + 1)}" using i ks by auto
        then have "port_after (udp_port ?s) (i - 1) \<in> used_ports s xs" using r(3) that by simp
        then show ?thesis using i 1(4) by (simp add: port_after_after)
      qed (use again in simp)
    qed
    then show ?thesis using run again(1) le r by (intro exI [of _ r] exI [of _ v]) (auto split: if_splits)
  qed
qed

lemma udp_new_port_run:
  assumes "bound s xs" and "length xs < n" and "0xc000 \<le> udp_port s"
  shows "\<exists>r v. udp_new_port n s = Ret r (s\<lparr>udp_port := v\<rparr>) \<and> 0xc000 \<le> v \<and>
    (if {0xc000..} \<subseteq> used_ports s xs then r = 0 else r = v \<and> r \<notin> used_ports s xs)"
proof -
  obtain r v where r: "udp_new_port n s = Ret r (s\<lparr>udp_port := v\<rparr>)" "0xc000 \<le> v"
    "if r = 0 then \<forall>i \<in> {1..0x4000 - unat (0 :: u16)}. port_after (udp_port s) i \<in> used_ports s xs else r = v \<and> r \<notin> used_ports s xs"
    using new_port_loop_run [OF assms, of 0] unfolding udp_new_port_def by auto
  have "{0xc000..} \<subseteq> used_ports s xs \<longleftrightarrow> r = 0"
  proof (cases "r = 0")
    case True
    then show ?thesis using r(3) port_after_all [OF assms(3)] by fastforce
  next
    case False
    then show ?thesis using r(2,3) by auto
  qed
  then show ?thesis using r by (intro exI [of _ r] exI [of _ v]) (simp split: if_splits)
qed

text \<open>The dynamic range has more ports than there are control blocks.\<close>

lemma dynamic_ports: "card {0xc000 :: u16 ..} = 0x4000"
proof -
  have "{0xc000 :: u16 ..} = of_nat ` {0xc000..<0x10000}"
  proof (intro set_eqI iffI)
    fix x :: u16 assume "x \<in> {0xc000..}"
    moreover have "unat x < 65536" using unsigned_less [of x, where 'a = nat] by simp
    ultimately show "x \<in> of_nat ` {0xc000..<0x10000}" by (intro image_eqI [of _ _ "unat x"]) (auto simp: word_le_nat_alt)
  next
    fix x :: u16 assume "x \<in> of_nat ` {0xc000..<0x10000}"
    then show "x \<in> {0xc000..}" by (auto simp: word_le_nat_alt unat_of_nat)
  qed
  moreover have "inj_on (of_nat :: nat \<Rightarrow> u16) {0xc000..<0x10000}"
    by (rule inj_on_inverseI [of _ unat]) (auto simp: unat_of_nat)
  ultimately show ?thesis by (simp add: card_image)
qed

lemma ports_left: "length xs < 0x4000 \<Longrightarrow> \<not> {0xc000..} \<subseteq> used_ports s xs"
proof
  assume "length xs < 0x4000" and "{0xc000..} \<subseteq> used_ports s xs"
  then have "0x4000 \<le> card (used_ports s xs)" using card_mono [of "used_ports s xs" "{0xc000..}"] dynamic_ports by (simp add: used_ports_def)
  moreover have "card (used_ports s xs) \<le> length xs"
    unfolding used_ports_def by (rule order_trans [OF card_image_le card_length]) simp
  ultimately show False using \<open>length xs < 0x4000\<close> by simp
qed

end
