(* ===== verification/EtharpFrame.thy ===== *)
theory EtharpFrame
  imports Etharp Frame
begin

text \<open>
  What the functions on packet buffers and the link leave alone: they change buffers and memory, the
  driver's busy flag and the trace, and nothing they emit reaches the DAC or the mute relay. With
  this the table of ARP and the whole amplifier stay as they are while packets are handled.
\<close>

definition heap_run :: "'z pbuf_state_scheme \<Rightarrow> 'z pbuf_state_scheme \<Rightarrow> bool" where
  "heap_run s t \<longleftrightarrow>
     (\<exists>pb bl m f b es. t = s\<lparr>pbufs := pb, blocks := bl, mallocs := m, pbuf_free_ooseq_pending := f, txbusy := b, trace := trace s @ es\<rparr> \<and>
        list_all harmless es)"

interpretation heap: frame_relation heap_run
proof
  fix s t u :: "'z pbuf_state_scheme"
  show "heap_run s s"
    unfolding heap_run_def
    by (rule exI [of _ "pbufs s"], rule exI [of _ "blocks s"], rule exI [of _ "mallocs s"],
        rule exI [of _ "pbuf_free_ooseq_pending s"], rule exI [of _ "txbusy s"], rule exI [of _ "[]"]) simp
  assume "heap_run s t" "heap_run t u"
  then obtain pb bl m f b es pb' bl' m' f' b' es'
    where t: "t = s\<lparr>pbufs := pb, blocks := bl, mallocs := m, pbuf_free_ooseq_pending := f, txbusy := b, trace := trace s @ es\<rparr>"
      and u: "u = t\<lparr>pbufs := pb', blocks := bl', mallocs := m', pbuf_free_ooseq_pending := f', txbusy := b', trace := trace t @ es'\<rparr>"
      and es: "list_all harmless es" "list_all harmless es'"
    unfolding heap_run_def by blast
  have "u = s\<lparr>pbufs := pb', blocks := bl', mallocs := m', pbuf_free_ooseq_pending := f', txbusy := b', trace := trace s @ (es @ es')\<rparr>"
    unfolding u t by simp
  then show "heap_run s u" unfolding heap_run_def using es by (metis list_all_append)
qed

lemma heap_run_same:
  assumes "heap_run s t"
  shows "netif_hwaddr t = netif_hwaddr s" "netif_ip_addr t = netif_ip_addr s" "netif_netmask t = netif_netmask s"
    "netif_gw t = netif_gw s" "netif_flags t = netif_flags s" "netif_dhcp t = netif_dhcp s" "pcbs t = pcbs s"
  using assms by (auto simp: heap_run_def)

lemma heap_run_table:
  fixes s t :: "'z arp_state_scheme"
  shows "heap_run s t \<Longrightarrow> arp_table t = arp_table s \<and> etharp_cached_entry t = etharp_cached_entry s"
  by (auto simp: heap_run_def)

lemma heap_run_calm: "heap_run s t \<Longrightarrow> calm s t"
  by (auto simp: heap_run_def calm_def counted_def)

section \<open>Assignments\<close>

lemma heap_runI:
  "t = s\<lparr>pbufs := pbufs t, blocks := blocks t, mallocs := mallocs t, pbuf_free_ooseq_pending := pbuf_free_ooseq_pending t,
     txbusy := txbusy t, trace := trace s @ es\<rparr> \<Longrightarrow> list_all harmless es \<Longrightarrow> heap_run s t"
  unfolding heap_run_def by blast

lemma heap_modify:
  "keeps heap_run (modify (\<lambda>s. s\<lparr>pbufs := f s\<rparr>))"
  "keeps heap_run (modify (\<lambda>s. s\<lparr>blocks := g s\<rparr>))"
  "keeps heap_run (modify (\<lambda>s. s\<lparr>pbufs := f s, blocks := g s\<rparr>))"
  "keeps heap_run (modify (\<lambda>s. s\<lparr>mallocs := m s\<rparr>))"
  "keeps heap_run (modify (\<lambda>s. s\<lparr>pbuf_free_ooseq_pending := c\<rparr>))"
  "keeps heap_run (modify (\<lambda>s. s\<lparr>txbusy := b\<rparr>))"
  by (intro heap.keeps_modify heap_runI [where es = "[]"]; simp)+

lemma heap_emit: "harmless e \<Longrightarrow> keeps heap_run (emit e)"
  unfolding emit_def by (intro heap.keeps_modify heap_runI [where es = "[e]"]; simp)

lemma heap_calls:
  "keeps heap_run (ext_call f as)" "keeps heap_run (lwip_assert_fails msg)" "keeps heap_run (lwip_assert msg c)"
  "keeps heap_run (hwaddr_len_ok msg)"
  unfolding ext_call_def lwip_assert_def lwip_assert_fails_def printf_def hwaddr_len_ok_def
  by (intro heap.keeps_intros heap_emit harmless_simps)+

lemmas heap_rules = heap.keeps_intros heap_calls heap_modify

section \<open>Packet buffers\<close>

lemma heap_access:
  "keeps heap_run (deref p)" "keeps heap_run (store p g)" "keeps heap_run (memcpy_from pl k)" "keeps heap_run (memcpy_to pl bs)"
  "keeps heap_run (mem_malloc M sz)" "keeps heap_run (mem_free p)" "keeps heap_run (new_pbuf p mem b)"
proof -
  show d: "keeps heap_run (deref p)" for p unfolding deref_def by (intro heap_rules)
  show "keeps heap_run (store p g)" unfolding store_def by (intro heap_rules d)
  show "keeps heap_run (memcpy_from pl k)" unfolding memcpy_from_def by (intro heap_rules)
  show "keeps heap_run (memcpy_to pl bs)" unfolding memcpy_to_def by (intro heap_rules)
  show "keeps heap_run (mem_malloc M sz)" unfolding mem_malloc_def by (intro heap_rules)
  show "keeps heap_run (mem_free p)" unfolding mem_free_def by (intro heap_rules d)
  show "keeps heap_run (new_pbuf p mem b)" unfolding new_pbuf_def by (intro heap_rules)
qed

lemma heap_free: "keeps heap_run (pbuf_free n p)" "keeps heap_run (pbuf_ref p)"
proof -
  have "keeps heap_run (free_loop n p c)" for n p c
    by (induction n arbitrary: p c) (simp_all only: free_loop.simps, (intro heap_rules heap_access, assumption?)+)
  then show "keeps heap_run (pbuf_free n p)" unfolding pbuf_free_def by (intro heap_rules heap_access)
  show "keeps heap_run (pbuf_ref p)" unfolding pbuf_ref_def by (intro heap_rules heap_access)
qed

lemma heap_alloc_tail: "keeps heap_run (alloc_tail M n p r k)"
proof (induction M n p r k rule: alloc_tail.induct)
  case (1 M n p r k)
  show ?case
    unfolding alloc_tail.simps [of M n p r k] pbuf_pool_is_empty_def Let_def
    by (intro heap_rules heap_access heap_free 1) simp_all
qed

lemma heap_alloc: "keeps heap_run (pbuf_alloc M n layer lg ty)"
  unfolding pbuf_alloc_def pbuf_alloc_pool_def pbuf_alloc_ram_def pbuf_alloc_ref_def pbuf_pool_is_empty_def Let_def
  by (cases ty; simp only: pbuf_type.case; intro heap_rules heap_access heap_alloc_tail)

lemma heap_copy: "keeps heap_run (pbuf_copy n p q)"
proof -
  have q: "keeps heap_run (no_queue p)" for p unfolding no_queue_def by (intro heap_rules heap_access)
  have "keeps heap_run (copy_loop n p q i j)" for p q i j
    by (induction n arbitrary: p q i j) (simp_all only: copy_loop.simps Let_def, (intro heap_rules heap_access q, assumption?)+)
  then show ?thesis unfolding pbuf_copy_def by (intro heap_rules heap_access)
qed

lemma heap_header: "keeps heap_run (pbuf_header p inc)"
  unfolding pbuf_header_def pbuf_header_impl_def by (intro heap_rules heap_access)

section \<open>The link and requests\<close>

lemma heap_spi_transfer: "keeps heap_run (spi_transfer E txs d)"
proof -
  have "keeps heap_run (spi_bytes E txs)" for txs
    by (induction txs) (simp_all only: spi_bytes.simps USART_SpiTransfer_def, (intro heap_rules heap_emit harmless_simps, assumption?)+)
  then show ?thesis
    unfolding spi_transfer_def GPIO_PinOutClear_def GPIO_PinOutSet_def by (intro heap_rules heap_emit) simp_all
qed

lemma heap_send: "keeps heap_run (enc424j600_spi_linkoutput E segs lg)"
proof -
  have "keeps heap_run (send_segments E ps)" for ps
    by (induction ps) (simp_all only: send_segments.simps, (intro heap_rules heap_spi_transfer, assumption?)+)
  then show ?thesis
    unfolding enc424j600_spi_linkoutput_def enc424j600_spi_send_def set_pointer_def unbanked_write_def
      unbanked_register_operation_def simple_operation_def
    by (intro heap_rules heap_spi_transfer)
qed

lemma heap_link: "keeps heap_run (linkoutput E n p)"
proof -
  have "keeps heap_run (chain_segments n p)" for p
    by (induction n arbitrary: p) (simp_all only: chain_segments.simps, (intro heap_rules heap_access, assumption?)+)
  then show ?thesis unfolding linkoutput_def by (intro heap_rules heap_access heap_send)
qed

lemma heap_fields: "keeps heap_run (get_field p ofs k)" "keeps heap_run (put_field p ofs bs)"
  unfolding get_field_def put_field_def by (intro heap_rules heap_access)+

lemma heap_arp:
  "keeps heap_run (etharp_send_ip E n p src dst)" "keeps heap_run (etharp_request E M n netif ipaddr)"
  "keeps heap_run (arp_reply E n p)"
  unfolding etharp_send_ip_def etharp_request_def etharp_raw_def arp_reply_def
  by (intro heap_rules heap_access heap_fields heap_link heap_alloc heap_free)+

lemma heap_take_over: "keeps heap_run (take_over M n q)"
proof -
  have "keeps heap_run (copy_needed n p)" for p
    by (induction n arbitrary: p) (simp_all only: copy_needed.simps, (intro heap_rules heap_access, assumption?)+)
  then show ?thesis unfolding take_over_def by (intro heap_rules heap_alloc heap_copy heap_free)
qed

lemmas heap_keeps = heap_access heap_free heap_alloc heap_copy heap_header heap_link heap_fields heap_arp heap_take_over

end
