(* ===== verification/EtharpTable.thy ===== *)
theory EtharpTable
  imports EtharpFrame
begin

text \<open>
  The ARP table as a map from addresses to hardware addresses: the invariant of the table, that every
  function of the module preserves it, and what a lookup finds after the table learned an address.
\<close>

section \<open>The invariant\<close>

definition live :: "etharp_entry \<Rightarrow> bool" where
  "live e \<longleftrightarrow> arp_entry_state e \<noteq> ETHARP_STATE_EMPTY"

text \<open>An address an entry can be for: a host, neither the unspecified nor a broadcast or multicast address.\<close>

definition host_addr :: "u32 \<Rightarrow> bool" where
  "host_addr a \<longleftrightarrow> a \<noteq> IPADDR_ANY \<and> a \<noteq> IPADDR_BROADCAST \<and> \<not> ip_addr_ismulticast a"

text \<open>
  Only a pending entry may have a packet queued; an entry in use belongs to the interface, is for a host and is younger than
  the age at which it expires.
\<close>

definition entry_ok :: "etharp_entry \<Rightarrow> bool" where
  "entry_ok e \<longleftrightarrow> length (arp_ethaddr e) = 6 \<and>
     (arp_entry_state e \<noteq> ETHARP_STATE_PENDING \<longrightarrow> arp_q e = 0) \<and>
     (live e \<longrightarrow> arp_netif e \<and> host_addr (arp_ipaddr e) \<and> arp_ctime e < ARP_MAXAGE) \<and>
     (arp_entry_state e = ETHARP_STATE_PENDING \<longrightarrow> arp_ctime e < ARP_MAXPENDING)"

text \<open>No entry in use other than \<open>i\<close> is for the address \<open>a\<close>.\<close>

definition only_at :: "etharp_entry list \<Rightarrow> nat \<Rightarrow> u32 \<Rightarrow> bool" where
  "only_at tab i a \<longleftrightarrow> (\<forall>j < length tab. j \<noteq> i \<longrightarrow> live (tab ! j) \<longrightarrow> arp_ipaddr (tab ! j) \<noteq> a)"

definition table_ok :: "etharp_entry list \<Rightarrow> bool" where
  "table_ok tab \<longleftrightarrow> length tab = ARP_TABLE_SIZE \<and> (\<forall>e \<in> set tab. entry_ok e) \<and>
     (\<forall>i < length tab. live (tab ! i) \<longrightarrow> only_at tab i (arp_ipaddr (tab ! i)))"

definition arp_ok :: "'z arp_state_scheme \<Rightarrow> bool" where
  "arp_ok s \<longleftrightarrow> table_ok (arp_table s) \<and> unat (etharp_cached_entry s) < ARP_TABLE_SIZE"

lemma table_ok_upd:
  assumes "table_ok tab" and "entry_ok e" and "live e \<Longrightarrow> only_at tab i (arp_ipaddr e)"
  shows "table_ok (tab[i := e])"
proof -
  have "entry_ok d" if "d \<in> set (tab[i := e])" for d
    using that set_update_subset_insert [of tab i e] assms(1,2) by (auto simp: table_ok_def)
  moreover have "only_at (tab[i := e]) j (arp_ipaddr (tab[i := e] ! j))" if "j < length tab" "live (tab[i := e] ! j)" for j
  proof (cases "j = i")
    case True
    then show ?thesis using assms(3) that by (simp add: only_at_def)
  next
    case False
    then have "live (tab ! j)" using that by simp
    then have "only_at tab j (arp_ipaddr (tab ! j))" using assms(1) that(1) by (simp add: table_ok_def)
    moreover have "live e \<Longrightarrow> arp_ipaddr (tab ! j) \<noteq> arp_ipaddr e"
      using assms(3) that(1) False \<open>live (tab ! j)\<close> by (simp add: only_at_def)
    ultimately show ?thesis using False unfolding only_at_def by (metis length_list_update nth_list_update_eq nth_list_update_neq)
  qed
  ultimately show ?thesis using assms(1) by (simp add: table_ok_def)
qed

lemma table_ok_nth: "table_ok tab \<Longrightarrow> i < ARP_TABLE_SIZE \<Longrightarrow> entry_ok (tab ! i)"
  by (simp add: table_ok_def)

lemma table_ok_only: "table_ok tab \<Longrightarrow> i < ARP_TABLE_SIZE \<Longrightarrow> live (tab ! i) \<Longrightarrow> only_at tab i (arp_ipaddr (tab ! i))"
  by (simp add: table_ok_def)

lemma only_at_upd [simp]: "only_at (tab[i := e]) i a = only_at tab i a"
  by (simp add: only_at_def)

section \<open>Rules\<close>

lemma wp_entry: "wp (entry i) Q H s \<longleftrightarrow>
   (if i < length (arp_table s) then Q (arp_table s ! i) s else H (Undefined ''arp_table'') s)"
  by (simp add: entry_def)

lemma wp_upd_entry: "wp (upd_entry i f) Q H s \<longleftrightarrow>
   (if i < length (arp_table s) then Q () (s\<lparr>arp_table := (arp_table s)[i := f (arp_table s ! i)]\<rparr>) else H (Undefined ''arp_table'') s)"
  by (simp add: upd_entry_def wp_entry)

lemma wp_ret_eta [simp]: "wp (ret x) Q H = Q x"
  by (rule ext) simp

lemma wp_heap:
  assumes "keeps heap_run m" and "\<And>x t. heap_run s t \<Longrightarrow> Q x t"
  shows "wp m Q (\<lambda>_ _. True) s"
  by (rule wp_mono [OF keepsD [OF assms(1)]]) (auto intro: assms(2))

text \<open>The functions on buffers do not read the table.\<close>

lemma heap_run_upd:
  assumes "heap_run (s\<lparr>arp_table := tab\<rparr>) t"
  shows "\<exists>u. heap_run s u \<and> t = u\<lparr>arp_table := tab\<rparr>"
proof -
  obtain pb bl m f b es where
    t: "t = s\<lparr>arp_table := tab, pbufs := pb, blocks := bl, mallocs := m, pbuf_free_ooseq_pending := f, txbusy := b, trace := trace s @ es\<rparr>"
    and es: "list_all harmless es"
    using assms unfolding heap_run_def by auto
  let ?u = "s\<lparr>pbufs := pb, blocks := bl, mallocs := m, pbuf_free_ooseq_pending := f, txbusy := b, trace := trace s @ es\<rparr>"
  have "heap_run s ?u" unfolding heap_run_def using es by blast
  moreover have "t = ?u\<lparr>arp_table := tab\<rparr>" unfolding t by (cases s) simp
  ultimately show ?thesis by blast
qed

text \<open>What a function that returns leaves behind.\<close>

abbreviation returns_with :: "('s, 'a) prog \<Rightarrow> ('a \<Rightarrow> 's \<Rightarrow> bool) \<Rightarrow> 's \<Rightarrow> bool" where
  "returns_with m Q s \<equiv> wp m Q (\<lambda>_ _. True) s"

lemma arp_ok_heap: "heap_run s t \<Longrightarrow> arp_ok t = arp_ok s" for s :: "'z arp_state_scheme"
  using heap_run_table [of s t] by (simp add: arp_ok_def)

lemma arp_ok_len: "arp_ok s \<Longrightarrow> length (arp_table s) = ARP_TABLE_SIZE"
  by (simp add: arp_ok_def table_ok_def)

definition cleared :: "etharp_entry \<Rightarrow> etharp_entry" where
  "cleared e = e\<lparr>arp_q := 0, arp_entry_state := ETHARP_STATE_EMPTY, arp_ctime := 0, arp_netif := False,
     arp_ipaddr := 0, arp_ethaddr := ethzero\<rparr>"

lemma entry_ok_cleared [simp]: "entry_ok (cleared e)" "\<not> live (cleared e)"
  by (simp_all add: entry_ok_def cleared_def live_def ethzero_def)

text \<open>
  \<open>F\<close> is what releasing the queued packet of the entry establishes about the buffers.
\<close>

definition releases :: "nat \<Rightarrow> addr \<Rightarrow> ('z arp_state_scheme \<Rightarrow> bool) \<Rightarrow> (halt \<Rightarrow> 'z arp_state_scheme \<Rightarrow> bool) \<Rightarrow> 'z arp_state_scheme \<Rightarrow> bool" where
  "releases n q F H s \<longleftrightarrow> (if q = 0 then F s else wp (pbuf_free n q) (\<lambda>_ t. heap_run s t \<and> F t) H s)"

lemma releases_partial [simp]: "releases n q (\<lambda>_. True) (\<lambda>_ _. True) s"
  by (simp add: releases_def wp_heap heap_free)

lemma free_entry_wp:
  assumes "i < length (arp_table s)" and "releases n (arp_q (arp_table s ! i)) F H s"
    and "\<And>t. heap_run s t \<Longrightarrow> F t \<Longrightarrow> Q () (t\<lparr>arp_table := (arp_table s)[i := cleared (arp_table s ! i)]\<rparr>)"
  shows "wp (etharp_free_entry n i) Q H s"
proof (cases "arp_q (arp_table s ! i) = 0")
  case True
  then have "cleared (arp_table s ! i) = (arp_table s ! i)\<lparr>arp_entry_state := ETHARP_STATE_EMPTY, arp_ctime := 0, arp_netif := False,
     arp_ipaddr := 0, arp_ethaddr := ethzero\<rparr>" by (simp add: cleared_def)
  then show ?thesis
    using assms(1,2) assms(3) [OF heap.R_refl] True by (simp add: etharp_free_entry_def wp_entry wp_upd_entry releases_def)
next
  case False
  then have "wp (pbuf_free n (arp_q (arp_table s ! i))) (\<lambda>_ t. heap_run s t \<and> F t) H s" using assms(2) by (simp add: releases_def)
  then have "wp (pbuf_free n (arp_q (arp_table s ! i)))
     (\<lambda>_ t. wp (upd_entry i (\<lambda>e. e\<lparr>arp_q := 0\<rparr>)) (\<lambda>_. wp (upd_entry i (\<lambda>e. e\<lparr>arp_entry_state := ETHARP_STATE_EMPTY,
        arp_ctime := 0, arp_netif := False, arp_ipaddr := 0, arp_ethaddr := ethzero\<rparr>)) Q H) H t) H s"
  proof (rule wp_mono)
    fix t assume "heap_run s t \<and> F t"
    then show "wp (upd_entry i (\<lambda>e. e\<lparr>arp_q := 0\<rparr>)) (\<lambda>_. wp (upd_entry i (\<lambda>e. e\<lparr>arp_entry_state := ETHARP_STATE_EMPTY,
        arp_ctime := 0, arp_netif := False, arp_ipaddr := 0, arp_ethaddr := ethzero\<rparr>)) Q H) H t"
      using assms(1) assms(3) [of t] heap_run_table [of s t] by (simp add: wp_upd_entry cleared_def)
  qed
  then show ?thesis
    using assms(1) False unfolding etharp_free_entry_def wp_bindM wp_thenM wp_entry wp_whenM by simp
qed

section \<open>Searching the table\<close>

text \<open>The oldest entry with a property among the first \<open>i\<close>, as the sweep remembers it.\<close>

definition oldest :: "(etharp_entry \<Rightarrow> bool) \<Rightarrow> etharp_entry list \<Rightarrow> nat \<Rightarrow> nat \<Rightarrow> u16 \<Rightarrow> bool" where
  "oldest P tab i k age \<longleftrightarrow>
     (if k < ARP_TABLE_SIZE then k < i \<and> P (tab ! k) \<and> age = arp_ctime (tab ! k) \<and> (\<forall>j < i. P (tab ! j) \<longrightarrow> arp_ctime (tab ! j) \<le> age)
      else k = ARP_TABLE_SIZE \<and> age = 0 \<and> (\<forall>j < i. \<not> P (tab ! j)))"

lemma oldest_skip: "oldest P tab i k age \<Longrightarrow> \<not> P (tab ! i) \<Longrightarrow> oldest P tab (Suc i) k age"
  by (auto simp: oldest_def less_Suc_eq split: if_splits)

lemma oldest_visit:
  assumes "oldest P tab i k age" and "P (tab ! i)" and "i < ARP_TABLE_SIZE"
  shows "if arp_ctime (tab ! i) \<ge> age then oldest P tab (Suc i) i (arp_ctime (tab ! i)) else oldest P tab (Suc i) k age"
  using assms by (auto simp: oldest_def less_Suc_eq split: if_splits)

definition stable_e :: "etharp_entry \<Rightarrow> bool" where
  "stable_e e \<longleftrightarrow> at_least_stable (arp_entry_state e)"

definition pending_e :: "bool \<Rightarrow> etharp_entry \<Rightarrow> bool" where
  "pending_e queued e \<longleftrightarrow> arp_entry_state e = ETHARP_STATE_PENDING \<and> (arp_q e \<noteq> 0) = queued"

definition cand_ok :: "etharp_entry list \<Rightarrow> nat \<Rightarrow> candidates \<Rightarrow> bool" where
  "cand_ok tab i c \<longleftrightarrow>
     (if empty c < ARP_TABLE_SIZE then empty c < i \<and> \<not> live (tab ! empty c)
      else empty c = ARP_TABLE_SIZE \<and> (\<forall>j < i. live (tab ! j))) \<and>
     oldest stable_e tab i (old_stable c) (age_stable c) \<and>
     oldest (pending_e False) tab i (old_pending c) (age_pending c) \<and>
     oldest (pending_e True) tab i (old_queue c) (age_queue c)"

lemma kinds: "live e \<longleftrightarrow> stable_e e \<or> pending_e False e \<or> pending_e True e" "\<not> (stable_e e \<and> pending_e b e)"
    "\<not> (pending_e True e \<and> pending_e False e)"
  by (cases "arp_entry_state e"; auto simp: live_def stable_e_def pending_e_def at_least_stable_def)+

lemma cand_ok_visit:
  assumes "cand_ok tab i c" and "live (tab ! i)" and "i < ARP_TABLE_SIZE"
  shows "cand_ok tab (Suc i) (find_visit i (tab ! i) c)"
proof -
  let ?e = "tab ! i"
  have emp: "if empty c < ARP_TABLE_SIZE then empty c < Suc i \<and> \<not> live (tab ! empty c)
      else empty c = ARP_TABLE_SIZE \<and> (\<forall>j < Suc i. live (tab ! j))"
    using assms by (auto simp: cand_ok_def less_Suc_eq split: if_splits)
  have old: "oldest stable_e tab i (old_stable c) (age_stable c)" "oldest (pending_e False) tab i (old_pending c) (age_pending c)"
    "oldest (pending_e True) tab i (old_queue c) (age_queue c)"
    using assms(1) by (simp_all add: cand_ok_def)
  consider "stable_e ?e" | "pending_e False ?e" | "pending_e True ?e" using kinds(1) assms(2) by blast
  then show ?thesis
  proof cases
    case 1
    then have "\<not> pending_e b ?e" for b using kinds(2) by blast
    moreover have "find_visit i ?e c = (if arp_ctime ?e \<ge> age_stable c then c\<lparr>old_stable := i, age_stable := arp_ctime ?e\<rparr> else c)"
      using 1 by (auto simp: find_visit_def stable_e_def at_least_stable_def)
    ultimately show ?thesis
      using emp oldest_visit [OF old(1) 1 assms(3)] oldest_skip [OF old(2)] oldest_skip [OF old(3)]
      by (simp add: cand_ok_def split: if_splits)
  next
    case 2
    then have "\<not> stable_e ?e" "\<not> pending_e True ?e" using kinds(2,3) by blast+
    moreover have "find_visit i ?e c = (if arp_ctime ?e \<ge> age_pending c then c\<lparr>old_pending := i, age_pending := arp_ctime ?e\<rparr> else c)"
      using 2 by (simp add: find_visit_def pending_e_def)
    ultimately show ?thesis
      using emp oldest_visit [OF old(2) 2 assms(3)] oldest_skip [OF old(1)] oldest_skip [OF old(3)]
      by (simp add: cand_ok_def split: if_splits)
  next
    case 3
    then have "\<not> stable_e ?e" "\<not> pending_e False ?e" using kinds(2,3) by blast+
    moreover have "find_visit i ?e c = (if arp_ctime ?e \<ge> age_queue c then c\<lparr>old_queue := i, age_queue := arp_ctime ?e\<rparr> else c)"
      using 3 by (simp add: find_visit_def pending_e_def)
    ultimately show ?thesis
      using emp oldest_visit [OF old(3) 3 assms(3)] oldest_skip [OF old(1)] oldest_skip [OF old(2)]
      by (simp add: cand_ok_def split: if_splits)
  qed
qed

lemma cand_ok_empty:
  assumes "cand_ok tab i c" and "\<not> live (tab ! i)" and "i < ARP_TABLE_SIZE"
  shows "cand_ok tab (Suc i) (if empty c = ARP_TABLE_SIZE then c\<lparr>empty := i\<rparr> else c)"
proof -
  have "\<not> stable_e (tab ! i)" "\<not> pending_e b (tab ! i)" for b using assms(2) kinds(1) by (metis (full_types))+
  then show ?thesis using assms unfolding cand_ok_def by (auto intro: oldest_skip split: if_splits)
qed

lemma find_sweep_spec:
  assumes "length tab = ARP_TABLE_SIZE" and "tab = pre @ es" and "cand_ok tab (length pre) c"
  shows "case find_sweep ipaddr (length pre) es c of
      Inl k \<Rightarrow> k < ARP_TABLE_SIZE \<and> live (tab ! k) \<and> ipaddr = Some (arp_ipaddr (tab ! k))
    | Inr c' \<Rightarrow> cand_ok tab ARP_TABLE_SIZE c' \<and> (\<forall>e \<in> set es. live e \<longrightarrow> ipaddr \<noteq> Some (arp_ipaddr e))"
  using assms(2,3)
proof (induction es arbitrary: pre c)
  case Nil
  then show ?case using assms(1) by simp
next
  case (Cons e es)
  let ?i = "length pre"
  have i: "?i < ARP_TABLE_SIZE" "tab ! ?i = e" using assms(1) Cons.prems(1) by auto
  have pre: "tab = (pre @ [e]) @ es" "length (pre @ [e]) = Suc ?i" using Cons.prems(1) by simp_all
  show ?case
  proof (cases "live e")
    case True
    have "cand_ok tab (Suc ?i) (find_visit ?i e c)"
      using cand_ok_visit [OF Cons.prems(2)] True i by simp
    then show ?thesis
      using Cons.IH [OF pre(1), of "find_visit ?i e c"] True i pre(2)
      by (auto simp: live_def split: sum.splits)
  next
    case False
    have "cand_ok tab (Suc ?i) (if empty c = ARP_TABLE_SIZE then c\<lparr>empty := ?i\<rparr> else c)"
      using cand_ok_empty [OF Cons.prems(2)] False i by simp
    then show ?thesis
      using Cons.IH [OF pre(1), of "if empty c = ARP_TABLE_SIZE then c\<lparr>empty := ?i\<rparr> else c"] False i pre(2)
      by (auto simp: live_def split: sum.splits if_splits)
  qed
qed

lemma no_candidates_ok: "cand_ok tab 0 no_candidates"
  by (simp add: cand_ok_def no_candidates_def oldest_def)

lemma find_sweep_table:
  "length tab = ARP_TABLE_SIZE \<Longrightarrow> case find_sweep ipaddr 0 tab no_candidates of
      Inl k \<Rightarrow> k < ARP_TABLE_SIZE \<and> live (tab ! k) \<and> ipaddr = Some (arp_ipaddr (tab ! k))
    | Inr c \<Rightarrow> cand_ok tab ARP_TABLE_SIZE c \<and> (\<forall>e \<in> set tab. live e \<longrightarrow> ipaddr \<noteq> Some (arp_ipaddr e))"
  using find_sweep_spec [of tab "[]" tab no_candidates ipaddr] no_candidates_ok by simp

section \<open>Finding or creating an entry\<close>

text \<open>
  The entry a new address is put into: an empty one, otherwise the oldest resolved one, otherwise the oldest pending one
  without a packet, otherwise the oldest pending one.
\<close>

definition victim :: "etharp_entry list \<Rightarrow> nat \<Rightarrow> bool" where
  "victim tab k \<longleftrightarrow> k < ARP_TABLE_SIZE \<and>
     (if \<exists>e \<in> set tab. \<not> live e then \<not> live (tab ! k)
      else if \<exists>e \<in> set tab. stable_e e then stable_e (tab ! k) \<and> (\<forall>e \<in> set tab. stable_e e \<longrightarrow> arp_ctime e \<le> arp_ctime (tab ! k))
      else if \<exists>e \<in> set tab. pending_e False e
      then pending_e False (tab ! k) \<and> (\<forall>e \<in> set tab. pending_e False e \<longrightarrow> arp_ctime e \<le> arp_ctime (tab ! k))
      else pending_e True (tab ! k) \<and> (\<forall>e \<in> set tab. arp_ctime e \<le> arp_ctime (tab ! k)))"

definition fresh :: "u32 \<Rightarrow> etharp_entry \<Rightarrow> etharp_entry" where
  "fresh a e = (if live e then cleared e else e)\<lparr>arp_ipaddr := a, arp_ctime := 0\<rparr>"

lemma all_nth: "length tab = n \<Longrightarrow> (\<forall>e \<in> set tab. P e) \<longleftrightarrow> (\<forall>j < n. P (tab ! j))"
    and ex_nth: "length tab = n \<Longrightarrow> (\<exists>e \<in> set tab. P e) \<longleftrightarrow> (\<exists>j < n. P (tab ! j))"
  by (metis in_set_conv_nth)+

lemma oldest_table:
  assumes "length tab = ARP_TABLE_SIZE" and "oldest P tab ARP_TABLE_SIZE k age"
  shows "k < ARP_TABLE_SIZE \<longleftrightarrow> (\<exists>e \<in> set tab. P e)"
    and "k < ARP_TABLE_SIZE \<Longrightarrow> P (tab ! k) \<and> (\<forall>e \<in> set tab. P e \<longrightarrow> arp_ctime e \<le> arp_ctime (tab ! k))"
  using assms(2) unfolding oldest_def ex_nth [OF assms(1)] all_nth [OF assms(1)] by (auto split: if_splits)

lemma cand_ok_victim:
  assumes "length tab = ARP_TABLE_SIZE" and "cand_ok tab ARP_TABLE_SIZE c"
  shows "empty c < ARP_TABLE_SIZE \<Longrightarrow> victim tab (empty c)"
    and "\<not> empty c < ARP_TABLE_SIZE \<Longrightarrow> \<forall>e \<in> set tab. live e"
    and "\<not> empty c < ARP_TABLE_SIZE \<Longrightarrow> victim tab (if old_stable c < ARP_TABLE_SIZE then old_stable c
      else if old_pending c < ARP_TABLE_SIZE then old_pending c else old_queue c)"
    and "\<not> empty c < ARP_TABLE_SIZE \<Longrightarrow> old_stable c < ARP_TABLE_SIZE \<or> old_pending c < ARP_TABLE_SIZE \<or> old_queue c < ARP_TABLE_SIZE"
proof -
  have o: "oldest stable_e tab ARP_TABLE_SIZE (old_stable c) (age_stable c)"
    "oldest (pending_e False) tab ARP_TABLE_SIZE (old_pending c) (age_pending c)"
    "oldest (pending_e True) tab ARP_TABLE_SIZE (old_queue c) (age_queue c)"
    using assms(2) by (simp_all add: cand_ok_def)
  note s = oldest_table [OF assms(1) o(1)] and p = oldest_table [OF assms(1) o(2)] and q = oldest_table [OF assms(1) o(3)]
  show "victim tab (empty c)" if "empty c < ARP_TABLE_SIZE"
    using that assms by (auto simp: cand_ok_def victim_def)
  show lv: "\<forall>e \<in> set tab. live e" if "\<not> empty c < ARP_TABLE_SIZE"
    using that assms by (auto simp: cand_ok_def all_nth)
  have "tab \<noteq> []" using assms(1) by (auto simp: ARP_TABLE_SIZE_def)
  then have hd: "hd tab \<in> set tab" by simp
  show ex: "old_stable c < ARP_TABLE_SIZE \<or> old_pending c < ARP_TABLE_SIZE \<or> old_queue c < ARP_TABLE_SIZE" if "\<not> empty c < ARP_TABLE_SIZE"
    using lv [OF that] hd kinds(1) [of "hd tab"] s(1) p(1) q(1) by blast
  show "victim tab (if old_stable c < ARP_TABLE_SIZE then old_stable c
      else if old_pending c < ARP_TABLE_SIZE then old_pending c else old_queue c)" if e: "\<not> empty c < ARP_TABLE_SIZE"
  proof -
    have nl: "\<not> (\<exists>e \<in> set tab. \<not> live e)" using lv [OF e] by blast
    show ?thesis
    proof (cases "old_stable c < ARP_TABLE_SIZE")
      case True
      then show ?thesis using s nl by (simp add: victim_def)
    next
      case ns: False
      show ?thesis
      proof (cases "old_pending c < ARP_TABLE_SIZE")
        case True
        then show ?thesis using s(1) ns p nl by (simp add: victim_def)
      next
        case False
        then have "\<forall>e \<in> set tab. pending_e True e" using nl s(1) ns p(1) kinds(1) by blast
        then show ?thesis using s(1) ns p(1) q ex [OF e] False nl by (simp add: victim_def)
      qed
    qed
  qed
qed

lemma find_entry_wp:
  assumes "table_ok (arp_table s)"
    and "\<And>k. k < ARP_TABLE_SIZE \<Longrightarrow> live (arp_table s ! k) \<Longrightarrow> arp_ipaddr (arp_table s ! k) = a \<Longrightarrow> Q (int k) s"
    and "\<forall>e \<in> set (arp_table s). live e \<longrightarrow> arp_ipaddr e \<noteq> a \<Longrightarrow>
      fl AND ETHARP_FLAG_FIND_ONLY \<noteq> 0 \<or> fl AND ETHARP_FLAG_TRY_HARD = 0 \<and> (\<forall>e \<in> set (arp_table s). live e) \<Longrightarrow> Q ERR_MEM s"
    and "\<And>k. \<forall>e \<in> set (arp_table s). live e \<longrightarrow> arp_ipaddr e \<noteq> a \<Longrightarrow> victim (arp_table s) k \<Longrightarrow> fl AND ETHARP_FLAG_FIND_ONLY = 0 \<Longrightarrow> releases n (arp_q (arp_table s ! k)) F H s"
    and "\<And>k t. \<forall>e \<in> set (arp_table s). live e \<longrightarrow> arp_ipaddr e \<noteq> a \<Longrightarrow> fl AND ETHARP_FLAG_FIND_ONLY = 0 \<Longrightarrow> victim (arp_table s) k \<Longrightarrow>
      heap_run s t \<Longrightarrow> F t \<Longrightarrow> Q (int k) (t\<lparr>arp_table := (arp_table s)[k := fresh a (arp_table s ! k)]\<rparr>)"
  shows "wp (etharp_find_entry n (Some a) fl) Q H s"
proof (cases "find_sweep (Some a) 0 (arp_table s) no_candidates")
  case (Inl k)
  then show ?thesis
    using assms(1) find_sweep_table [of "arp_table s" "Some a"] assms(2) [of k] by (simp add: etharp_find_entry_def table_ok_def)
next
  case (Inr c)
  let ?tab = "arp_table s"
  have len: "length ?tab = ARP_TABLE_SIZE" using assms(1) by (simp add: table_ok_def)
  have c: "cand_ok ?tab ARP_TABLE_SIZE c" and miss: "\<forall>e \<in> set ?tab. live e \<longrightarrow> arp_ipaddr e \<noteq> a"
    using find_sweep_table [OF len, of "Some a"] Inr by auto
  have emp: "empty c = ARP_TABLE_SIZE \<longleftrightarrow> \<not> empty c < ARP_TABLE_SIZE" using c by (simp add: cand_ok_def split: if_splits)
  note v = cand_ok_victim [OF len c]
  have new: "wp (init_entry (Some a) i) Q H t = Q (int i) (t\<lparr>arp_table := (arp_table t)[i := (arp_table t ! i)\<lparr>arp_ipaddr := a, arp_ctime := 0\<rparr>]\<rparr>)"
    if "i < ARP_TABLE_SIZE" "length (arp_table t) = ARP_TABLE_SIZE" "\<not> live (arp_table t ! i)" for i t
    using that by (simp add: init_entry_def wp_entry wp_upd_entry wp_def [of "lwip_assert _ _"] live_def)
  show ?thesis
  proof (cases "fl AND ETHARP_FLAG_FIND_ONLY \<noteq> 0 \<or> empty c = ARP_TABLE_SIZE \<and> fl AND ETHARP_FLAG_TRY_HARD = 0")
    case True
    then show ?thesis using Inr assms(3) [OF miss] v(2) emp by (auto simp: etharp_find_entry_def)
  next
    case False
    then have fo: "fl AND ETHARP_FLAG_FIND_ONLY = 0" by simp
    have run: "wp (etharp_find_entry n (Some a) fl) Q H s =
       wp (bindM (if empty c < ARP_TABLE_SIZE then ret (Some (empty c))
                    else bindM (choose_recycled c) (\<lambda>r.
                           case r of None \<Rightarrow> ret None
                           | Some i \<Rightarrow> thenM (lwip_assert ''i < ARP_TABLE_SIZE'' (i < ARP_TABLE_SIZE))
                                            (thenM (etharp_free_entry n i) (ret (Some i))))) (\<lambda>r.
               case r of None \<Rightarrow> ret ERR_MEM | Some i \<Rightarrow> init_entry (Some a) i)) Q H s"
      unfolding etharp_find_entry_def wp_bindM [of "gets arp_table"] wp_gets Inr sum.case if_not_P [OF False] ..
    show ?thesis
    proof (cases "empty c < ARP_TABLE_SIZE")
      case True
      then have k: "victim ?tab (empty c)" "\<not> live (?tab ! empty c)" using v(1) c by (simp_all add: cand_ok_def)
      then have "arp_q (?tab ! empty c) = 0" using table_ok_nth [OF assms(1) True] by (simp add: entry_ok_def live_def)
      then have "F s" using assms(4) [OF miss k(1) fo] by (simp add: releases_def)
      with assms(5) [OF miss fo k(1) heap.R_refl] k(2) show ?thesis
        unfolding run using True len by (simp add: new fresh_def)
    next
      case F: False
      define k where "k = (if old_stable c < ARP_TABLE_SIZE then old_stable c else if old_pending c < ARP_TABLE_SIZE then old_pending c else old_queue c)"
      have k: "victim ?tab k" "k < ARP_TABLE_SIZE" "live (?tab ! k)"
        using v(2,3) [OF F] len unfolding k_def [symmetric] by (auto simp: victim_def)
      have q: "old_stable c < ARP_TABLE_SIZE \<Longrightarrow> arp_q (?tab ! old_stable c) = 0"
        using c table_ok_nth [OF assms(1)] by (auto simp: cand_ok_def oldest_def stable_e_def at_least_stable_def entry_ok_def split: if_splits)
      have ch: "choose_recycled c s = Ret (Some k) s"
        using v(4) [OF F] q len unfolding choose_recycled_def k_def by (auto simp: entry_def)
      have "wp (etharp_free_entry n k) (\<lambda>_. wp (init_entry (Some a) k) Q H) H s"
      proof (rule free_entry_wp)
        show "releases n (arp_q (?tab ! k)) F H s" by (rule assms(4) [OF miss k(1) fo])
        fix t assume t: "heap_run s t" "F t"
        show "wp (init_entry (Some a) k) Q H (t\<lparr>arp_table := ?tab[k := cleared (?tab ! k)]\<rparr>)"
          using assms(5) [OF miss fo k(1) t] k(2,3) len by (simp add: new fresh_def)
      qed (use k(2) len in simp)
      moreover have "wp (choose_recycled c) P H s = P (Some k) s" for P by (simp add: wp_def ch)
      moreover have "wp (lwip_assert msg True) P H u = P () u" for msg P u by (simp add: wp_def)
      ultimately show ?thesis unfolding run using F k(2) by simp
    qed
  qed
qed

section \<open>Learning an address\<close>

definition learned :: "u32 \<Rightarrow> u8 list \<Rightarrow> etharp_entry \<Rightarrow> etharp_entry" where
  "learned a mac e = e\<lparr>arp_q := 0, arp_ipaddr := a, arp_netif := True, arp_ethaddr := mac, arp_ctime := 0,
     arp_entry_state := ETHARP_STATE_STABLE\<rparr>"

lemma learned_fresh [simp]: "learned a mac (fresh b e) = learned a mac e"
  by (simp add: learned_def fresh_def cleared_def)

lemma entry_ok_learned: "length mac = 6 \<Longrightarrow> host_addr a \<Longrightarrow> entry_ok (learned a mac e)"
  by (simp add: entry_ok_def learned_def live_def arp_consts)

lemma host_addrI: "\<not> (ip_addr_isany a \<or> ip4_addr_isbroadcast a s \<or> ip_addr_ismulticast a) \<Longrightarrow> host_addr a"
proof -
  have "NOT (0xffffffff :: u32) = 0" by simp
  then show "\<not> (ip_addr_isany a \<or> ip4_addr_isbroadcast a s \<or> ip_addr_ismulticast a) \<Longrightarrow> host_addr a"
    by (auto simp: host_addr_def ip_addr_isany_def ip4_addr_isbroadcast_def IPADDR_ANY_def IPADDR_BROADCAST_def split: if_splits)
qed

lemma learn_at_wp:
  assumes "i < length (arp_table s)" and "arp_ipaddr (arp_table s ! i) = a"
    and "\<And>t. heap_run s t \<Longrightarrow> Q ERR_OK (t\<lparr>arp_table := (arp_table s)[i := learned a mac (arp_table s ! i)]\<rparr>)"
  shows "returns_with (learn_at E n mac i) Q s"
proof -
  let ?e = "arp_table s ! i"
  let ?u = "s\<lparr>arp_table := (arp_table s)[i := ?e\<lparr>arp_entry_state := ETHARP_STATE_STABLE, arp_netif := True, arp_ethaddr := mac, arp_ctime := 0\<rparr>]\<rparr>"
  let ?v = "s\<lparr>arp_table := (arp_table s)[i := learned a mac ?e]\<rparr>"
  have eq: "learned a mac ?e = ?e\<lparr>arp_entry_state := ETHARP_STATE_STABLE, arp_netif := True, arp_ethaddr := mac, arp_ctime := 0, arp_q := 0\<rparr>"
    using assms(2) by (simp add: learned_def)
  have Q: "Q ERR_OK t" if "heap_run ?v t" for t
  proof -
    obtain u where "heap_run s u" "t = u\<lparr>arp_table := (arp_table s)[i := learned a mac ?e]\<rparr>"
      using heap_run_upd [OF \<open>heap_run ?v t\<close>] by blast
    then show ?thesis using assms(3) by simp
  qed
  have send: "keeps heap_run (bindM (gets netif_hwaddr) (\<lambda>hwaddr. thenM (etharp_send_ip E n q hwaddr mac) (thenM (pbuf_free n q) (ret ()))))" for q
    by (intro heap_rules heap_keeps)
  show ?thesis
  proof (cases "arp_q ?e = 0")
    case True
    then have "learned a mac ?e = ?e\<lparr>arp_entry_state := ETHARP_STATE_STABLE, arp_netif := True, arp_ethaddr := mac, arp_ctime := 0\<rparr>"
      using eq by simp
    then show ?thesis using Q [OF heap.R_refl] assms(1) True by (simp add: learn_at_def wp_entry wp_upd_entry)
  next
    case False
    have "returns_with (bindM (gets netif_hwaddr) (\<lambda>hwaddr. thenM (etharp_send_ip E n (arp_q ?e) hwaddr mac) (thenM (pbuf_free n (arp_q ?e)) (ret ()))))
        (\<lambda>_. Q ERR_OK) ?v"
      by (rule wp_heap [OF send]) (rule Q)
    then show ?thesis using False assms(1) unfolding eq by (simp add: learn_at_def wp_entry wp_upd_entry)
  qed
qed

lemma only_at_miss: "\<forall>e \<in> set tab. live e \<longrightarrow> arp_ipaddr e \<noteq> a \<Longrightarrow> only_at tab k a"
  by (simp add: only_at_def)

text \<open>The cases of an update: not a host, not found, found, or put into a recycled entry.\<close>

lemma update_wp:
  assumes "table_ok (arp_table s)" and "\<not> host_addr a \<or> ip4_addr_isbroadcast a s \<Longrightarrow> Q ERR_ARG s"
    and "\<forall>e \<in> set (arp_table s). live e \<longrightarrow> arp_ipaddr e \<noteq> a \<Longrightarrow>
      fl AND ETHARP_FLAG_FIND_ONLY \<noteq> 0 \<or> fl AND ETHARP_FLAG_TRY_HARD = 0 \<and> (\<forall>e \<in> set (arp_table s). live e) \<Longrightarrow> Q ERR_MEM s"
    and "\<And>k t. heap_run s t \<Longrightarrow> k < ARP_TABLE_SIZE \<Longrightarrow> only_at (arp_table s) k a \<Longrightarrow> host_addr a \<Longrightarrow>
      live (arp_table s ! k) \<and> arp_ipaddr (arp_table s ! k) = a \<or> victim (arp_table s) k \<and> fl AND ETHARP_FLAG_FIND_ONLY = 0 \<Longrightarrow>
      Q ERR_OK (t\<lparr>arp_table := (arp_table s)[k := learned a mac (arp_table s ! k)]\<rparr>)"
  shows "returns_with (etharp_update_arp_entry E n a mac fl) Q s"
proof -
  let ?tab = "arp_table s"
  have len: "length ?tab = ARP_TABLE_SIZE" using assms(1) by (simp add: table_ok_def)
  have find: "returns_with (etharp_find_entry n (Some a) fl) (\<lambda>i. wp (if i < 0 then ret i else learn_at E n mac (nat i)) Q (\<lambda>_ _. True)) s"
    if host: "host_addr a"
  proof (rule find_entry_wp [where F = "\<lambda>_. True", OF assms(1)])
    fix k assume k: "k < ARP_TABLE_SIZE" "live (?tab ! k)" "arp_ipaddr (?tab ! k) = a"
    have "only_at ?tab k a" using table_ok_only [OF assms(1) k(1,2)] k(3) by simp
    then show "wp (if int k < 0 then ret (int k) else learn_at E n mac (nat (int k))) Q (\<lambda>_ _. True) s"
      using learn_at_wp [of k s a Q mac E n] assms(4) [of _ k] k host len by simp
  next
    fix k t assume miss: "\<forall>e \<in> set ?tab. live e \<longrightarrow> arp_ipaddr e \<noteq> a" and fo: "fl AND ETHARP_FLAG_FIND_ONLY = 0" and v: "victim ?tab k"
      and t: "heap_run s t"
    let ?u = "t\<lparr>arp_table := ?tab[k := fresh a (?tab ! k)]\<rparr>"
    have k: "k < ARP_TABLE_SIZE" using v by (simp add: victim_def)
    have "returns_with (learn_at E n mac k) Q ?u"
    proof (rule learn_at_wp)
      fix u assume "heap_run ?u u"
      then obtain w where w: "heap_run t w" "u = w\<lparr>arp_table := ?tab[k := fresh a (?tab ! k)]\<rparr>" using heap_run_upd by blast
      from assms(4) [OF heap.R_trans [OF t w(1)] k only_at_miss [OF miss] host] v fo
      show "Q ERR_OK (u\<lparr>arp_table := (arp_table ?u)[k := learned a mac (arp_table ?u ! k)]\<rparr>)"
        unfolding w(2) using k len by simp
    qed (use k len in \<open>simp_all add: fresh_def\<close>)
    then show "wp (if int k < 0 then ret (int k) else learn_at E n mac (nat (int k))) Q (\<lambda>_ _. True) ?u" by simp
  qed (use assms(3) in \<open>simp_all add: ERR_MEM_def\<close>)
  have "returns_with (hwaddr_len_ok msg) P s" if "P () s" for msg P
    using that by (simp add: hwaddr_len_ok_def lwip_assert_fails_def)
  then show ?thesis
    unfolding etharp_update_arp_entry_def wp_thenM
    using assms(2) find host_addrI [of a s] by (fastforce simp: host_addr_def ip_addr_isany_def)
qed

section \<open>Every function keeps the invariant\<close>

definition keeps_arp :: "('z arp_state_scheme, 'a) prog \<Rightarrow> bool" where
  "keeps_arp m \<longleftrightarrow> (\<forall>s. arp_ok s \<longrightarrow> returns_with m (\<lambda>_ t. arp_ok t) s)"

lemma keeps_arpI: "(\<And>s. arp_ok s \<Longrightarrow> returns_with m (\<lambda>_ t. arp_ok t) s) \<Longrightarrow> keeps_arp m"
  by (simp add: keeps_arp_def)

lemma keeps_arpD: "keeps_arp m \<Longrightarrow> arp_ok s \<Longrightarrow> returns_with m (\<lambda>_ t. arp_ok t) s"
  by (simp add: keeps_arp_def)

lemma keeps_arp_heap: "keeps heap_run m \<Longrightarrow> keeps_arp m"
  by (rule keeps_arpI, rule wp_heap) (simp_all add: arp_ok_heap)

lemma keeps_arp_bindR:
  assumes "\<And>s. arp_ok s \<Longrightarrow> returns_with m (\<lambda>x t. P x \<and> arp_ok t) s" and "\<And>x. P x \<Longrightarrow> keeps_arp (f x)"
  shows "keeps_arp (bindM m f)"
proof (rule keeps_arpI)
  fix s :: "'a arp_state_scheme" assume "arp_ok s"
  then have "returns_with m (\<lambda>x t. P x \<and> arp_ok t) s" by (rule assms(1))
  then show "returns_with (bindM m f) (\<lambda>_ t. arp_ok t) s"
    unfolding wp_bindM by (rule wp_mono) (use assms(2) in \<open>auto simp: keeps_arp_def\<close>)
qed

lemma keeps_arp_bindM: "keeps_arp m \<Longrightarrow> (\<And>x. keeps_arp (f x)) \<Longrightarrow> keeps_arp (bindM m f)"
  by (rule keeps_arp_bindR [where P = "\<lambda>_. True"]) (simp_all add: keeps_arp_def)

lemma keeps_arp_basic:
  "keeps_arp (ret x)" "keeps_arp (gets g)" "keeps_arp (halt_with u)"
  by (simp_all add: keeps_arp_def)

lemma keeps_arp_thenM: "keeps_arp m \<Longrightarrow> keeps_arp m' \<Longrightarrow> keeps_arp (thenM m m')"
  unfolding thenM_def by (rule keeps_arp_bindM)

lemma keeps_arp_whenM: "(b \<Longrightarrow> keeps_arp m) \<Longrightarrow> keeps_arp (whenM b m)"
  by (simp add: whenM_def keeps_arp_basic)

lemma keeps_arp_if: "(b \<Longrightarrow> keeps_arp m) \<Longrightarrow> (\<not> b \<Longrightarrow> keeps_arp m') \<Longrightarrow> keeps_arp (if b then m else m')"
  by simp

lemma keeps_arp_case_option: "keeps_arp m \<Longrightarrow> (\<And>x. v = Some x \<Longrightarrow> keeps_arp (g x)) \<Longrightarrow> keeps_arp (case v of None \<Rightarrow> m | Some x \<Rightarrow> g x)"
  by (cases v) simp_all

lemmas keeps_arp_rules = keeps_arp_bindM keeps_arp_thenM keeps_arp_whenM keeps_arp_if keeps_arp_basic keeps_arp_case_option
  heap_calls [THEN keeps_arp_heap] heap_keeps [THEN keeps_arp_heap]

lemma arp_ok_upd:
  assumes "arp_ok s" and "heap_run s t" and "entry_ok e" and "live e \<Longrightarrow> only_at (arp_table s) i (arp_ipaddr e)"
  shows "arp_ok (t\<lparr>arp_table := (arp_table s)[i := e]\<rparr>)"
  using table_ok_upd [of "arp_table s" e i] heap_run_table [OF assms(2)] assms by (simp add: arp_ok_def)

lemma learned_simps [simp]: "live (learned a mac e)" "arp_ipaddr (learned a mac e) = a"
  by (simp_all add: learned_def live_def)

lemma keeps_arp_update: "length mac = 6 \<Longrightarrow> keeps_arp (etharp_update_arp_entry E n a mac fl)"
proof (rule keeps_arpI, rule update_wp)
  fix s :: "'a arp_state_scheme" and k t
  assume "length mac = 6" "arp_ok s" "heap_run s t" "only_at (arp_table s) k a" "host_addr a"
  then show "arp_ok (t\<lparr>arp_table := (arp_table s)[k := learned a mac (arp_table s ! k)]\<rparr>)"
    by (intro arp_ok_upd entry_ok_learned) simp_all
qed (simp_all add: arp_ok_def)

lemma tmr_entry_ok: "arp_ok s \<Longrightarrow> i < ARP_TABLE_SIZE \<Longrightarrow> returns_with (tmr_entry E M n i) (\<lambda>_ t. arp_ok t) s"
proof -
  assume s: "arp_ok s" and i: "i < ARP_TABLE_SIZE"
  let ?e = "arp_table s ! i"
  let ?a = "?e\<lparr>arp_ctime := arp_ctime ?e + 1\<rparr>"
  let ?t = "s\<lparr>arp_table := (arp_table s)[i := ?a]\<rparr>"
  have len: "i < length (arp_table s)" using i arp_ok_len [OF s] by simp
  have e: "entry_ok ?e" using s i by (simp add: arp_ok_def table_ok_def)
  have only: "live ?e \<Longrightarrow> only_at (arp_table s) i (arp_ipaddr ?e)" using s i table_ok_only [of "arp_table s" i] by (simp add: arp_ok_def)
  have put: "arp_ok (s\<lparr>arp_table := (arp_table s)[i := d]\<rparr>)" if "entry_ok d" "live ?e" "arp_ipaddr d = arp_ipaddr ?e" for d
    by (rule arp_ok_upd [OF s heap.R_refl that(1)]) (use only that in simp)
  show ?thesis
  proof (cases "live ?e")
    case True
    consider "arp_ctime ?a \<ge> ARP_MAXAGE \<or> arp_entry_state ?a = ETHARP_STATE_PENDING \<and> arp_ctime ?a \<ge> ARP_MAXPENDING"
      | "\<not> (arp_ctime ?a \<ge> ARP_MAXAGE \<or> arp_entry_state ?a = ETHARP_STATE_PENDING \<and> arp_ctime ?a \<ge> ARP_MAXPENDING)" by blast
    then have "returns_with (tmr_aged E M n i ?a) (\<lambda>_ t. arp_ok t) ?t"
    proof cases
      case 1
      have "returns_with (etharp_free_entry n i) (\<lambda>_ t. arp_ok t) ?t"
      proof (rule free_entry_wp [where F = "\<lambda>_. True"])
        fix t assume "heap_run ?t t"
        then obtain u where "heap_run s u" "t = u\<lparr>arp_table := (arp_table s)[i := ?a]\<rparr>" using heap_run_upd by blast
        then show "arp_ok (t\<lparr>arp_table := (arp_table ?t)[i := cleared (arp_table ?t ! i)]\<rparr>)"
          using arp_ok_upd [OF s, of u "cleared ?a" i] len by simp
      qed (use len in simp_all)
      then show ?thesis using 1 by (simp add: tmr_aged_def)
    next
      case 2
      have a: "entry_ok ?a" using e True 2 by (auto simp: entry_ok_def live_def)
      then have "arp_ok ?t" by (rule put) (simp_all add: True)
      moreover have "arp_ok (s\<lparr>arp_table := (arp_table s)[i := ?a\<lparr>arp_entry_state := ETHARP_STATE_STABLE\<rparr>]\<rparr>)"
        if "arp_entry_state ?e = ETHARP_STATE_STABLE_REREQUESTING"
        by (rule put) (use a that in \<open>simp_all add: True entry_ok_def live_def\<close>)
      moreover have "keeps_arp (thenM (etharp_request E M n (arp_netif ?a) (arp_ipaddr ?a)) (ret ()))" by (intro keeps_arp_rules)
      ultimately show ?thesis using 2 len by (auto simp: tmr_aged_def wp_upd_entry keeps_arp_def)
    qed
    then show ?thesis using True len by (simp add: tmr_entry_def wp_entry wp_upd_entry live_def)
  next
    case False
    then show ?thesis using s len by (simp add: tmr_entry_def wp_entry live_def)
  qed
qed

lemma table_loop_ok:
  assumes "\<And>i s. arp_ok s \<Longrightarrow> i < ARP_TABLE_SIZE \<Longrightarrow> returns_with (body i) (\<lambda>_ t. arp_ok t) s"
  shows "keeps_arp (table_loop body 0 ARP_TABLE_SIZE)"
proof (rule keeps_arpI)
  fix s :: "'a arp_state_scheme" assume "arp_ok s"
  have "arp_ok s \<Longrightarrow> i + k \<le> ARP_TABLE_SIZE \<Longrightarrow> returns_with (table_loop body i k) (\<lambda>_ t. arp_ok t) s" for i k s
  proof (induction k arbitrary: i s)
    case (Suc k)
    have "returns_with (body i) (\<lambda>_ t. arp_ok t) s" by (rule assms) (use Suc.prems in simp_all)
    then show ?case by (simp, rule wp_mono) (use Suc in auto)
  qed simp
  then show "returns_with (table_loop body 0 ARP_TABLE_SIZE) (\<lambda>_ t. arp_ok t) s" using \<open>arp_ok s\<close> by simp
qed

lemma keeps_arp_tmr: "keeps_arp (etharp_tmr E M n)"
  unfolding etharp_tmr_def by (rule table_loop_ok, rule tmr_entry_ok)

lemma free_entry_ok: "arp_ok s \<Longrightarrow> i < ARP_TABLE_SIZE \<Longrightarrow> returns_with (etharp_free_entry n i) (\<lambda>_ t. arp_ok t) s"
  by (rule free_entry_wp [where F = "\<lambda>_. True"]) (auto simp: arp_ok_len intro!: arp_ok_upd [of s])

lemma keeps_arp_cleanup: "keeps_arp (etharp_cleanup_netif n)"
  unfolding etharp_cleanup_netif_def
  by (rule table_loop_ok) (use free_entry_ok arp_ok_len in \<open>auto simp: wp_entry\<close>)

lemma get_field_length: "returns_with (get_field p ofs k) (\<lambda>bs t. length bs = k \<and> t = s) s"
  by (auto simp: get_field_def deref_def memcpy_from_def block_read_def in_block_def split: option.splits)

lemma keeps_arp_field:
  assumes "\<And>bs. length bs = k \<Longrightarrow> keeps_arp (f bs)"
  shows "keeps_arp (bindM (get_field p ofs k) f)"
  by (rule keeps_arp_bindR [OF _ assms]) (rule wp_mono [OF get_field_length], auto)

lemma keeps_arp_input: "keeps_arp (etharp_arp_input E n p)"
  unfolding etharp_arp_input_def Let_def
  by (intro keeps_arp_rules keeps_arp_field keeps_arp_update)

lemma keeps_arp_ethernet:
  assumes "\<And>p. keeps_arp (ip_input p)"
  shows "keeps_arp (ethernet_input E n ip_input p)"
  unfolding ethernet_input_def Let_def by (intro keeps_arp_rules keeps_arp_input assms)

lemma keeps_arp_find_addr: "keeps_arp (etharp_find_addr n a)"
proof (rule keeps_arpI)
  fix s :: "'a arp_state_scheme" assume s: "arp_ok s"
  have "returns_with (etharp_find_entry n (Some a) ETHARP_FLAG_FIND_ONLY) (\<lambda>i t. t = s) s"
    by (rule find_entry_wp [where F = "\<lambda>_. True"]) (use s in \<open>simp_all add: arp_ok_def arp_consts\<close>)
  then show "returns_with (etharp_find_addr n a) (\<lambda>_ t. arp_ok t) s"
    unfolding etharp_find_addr_def wp_bindM by (rule wp_mono) (use s in \<open>simp_all add: wp_entry\<close>)
qed

lemma output_index_ok:
  assumes s: "arp_ok s" and i: "i < ARP_TABLE_SIZE"
  shows "returns_with (etharp_output_to_arp_index E M n q i) (\<lambda>_ t. arp_ok t) s"
proof -
  let ?e = "arp_table s ! i"
  have len: "i < length (arp_table s)" using i arp_ok_len [OF s] by simp
  have re: "arp_ok (t\<lparr>arp_table := (arp_table s)[i := ?e\<lparr>arp_entry_state := ETHARP_STATE_STABLE_REREQUESTING\<rparr>]\<rparr>)"
    if "arp_entry_state ?e = ETHARP_STATE_STABLE" "heap_run s t" for t
  proof (rule arp_ok_upd [OF s that(2)])
    show "entry_ok (?e\<lparr>arp_entry_state := ETHARP_STATE_STABLE_REREQUESTING\<rparr>)"
      using table_ok_nth [of "arp_table s" i] s i that(1) by (simp add: arp_ok_def entry_ok_def live_def)
    show "only_at (arp_table s) i (arp_ipaddr (?e\<lparr>arp_entry_state := ETHARP_STATE_STABLE_REREQUESTING\<rparr>))"
      using table_ok_only [of "arp_table s" i] s i that(1) by (simp add: arp_ok_def live_def)
  qed
  have "returns_with (whenM (arp_entry_state ?e = ETHARP_STATE_STABLE \<and> arp_ctime ?e \<ge> ARP_AGE_REREQUEST_USED)
              (bindM (etharp_request E M n True (arp_ipaddr ?e)) (\<lambda>err.
                 whenM (err = ERR_OK) (upd_entry i (\<lambda>e. e\<lparr>arp_entry_state := ETHARP_STATE_STABLE_REREQUESTING\<rparr>)))))
     (\<lambda>_ t. arp_ok t) s"
  proof (cases "arp_entry_state ?e = ETHARP_STATE_STABLE \<and> arp_ctime ?e \<ge> ARP_AGE_REREQUEST_USED")
    case True
    have "returns_with (etharp_request E M n True (arp_ipaddr ?e)) (\<lambda>err t.
        wp (whenM (err = ERR_OK) (upd_entry i (\<lambda>e. e\<lparr>arp_entry_state := ETHARP_STATE_STABLE_REREQUESTING\<rparr>))) (\<lambda>_ t. arp_ok t) (\<lambda>_ _. True) t) s"
    proof (rule wp_heap [OF heap_arp(2)])
      fix err t assume t: "heap_run s t"
      show "wp (whenM (err = ERR_OK) (upd_entry i (\<lambda>e. e\<lparr>arp_entry_state := ETHARP_STATE_STABLE_REREQUESTING\<rparr>))) (\<lambda>_ t. arp_ok t) (\<lambda>_ _. True) t"
        using re [OF _ t] True heap_run_table [OF t] arp_ok_heap [OF t] s len by (simp add: wp_upd_entry)
    qed
    then show ?thesis using True by simp
  qed (use s in auto)
  moreover have "keeps_arp (bindM (gets netif_hwaddr) (\<lambda>hwaddr. bindM (entry i) (\<lambda>e. etharp_send_ip E n q hwaddr (arp_ethaddr e))))"
    by (intro keeps_arp_rules, rule keeps_arpI) (simp add: wp_entry)
  moreover have "returns_with (lwip_assert msg b) (\<lambda>_ t. t = s) s" for msg b
    by (simp add: lwip_assert_def lwip_assert_fails_def)
  ultimately have "returns_with (lwip_assert ''arp_table[arp_idx].state >= ETHARP_STATE_STABLE'' (at_least_stable (arp_entry_state ?e)))
     (\<lambda>_. wp (thenM (whenM (arp_entry_state ?e = ETHARP_STATE_STABLE \<and> arp_ctime ?e \<ge> ARP_AGE_REREQUEST_USED)
              (bindM (etharp_request E M n True (arp_ipaddr ?e)) (\<lambda>err.
                 whenM (err = ERR_OK) (upd_entry i (\<lambda>e. e\<lparr>arp_entry_state := ETHARP_STATE_STABLE_REREQUESTING\<rparr>)))))
          (bindM (gets netif_hwaddr) (\<lambda>hwaddr. bindM (entry i) (\<lambda>e. etharp_send_ip E n q hwaddr (arp_ethaddr e)))))
        (\<lambda>_ t. arp_ok t) (\<lambda>_ _. True)) s"
    unfolding wp_thenM by - (rule wp_mono, assumption, erule ssubst, erule wp_mono, erule keeps_arpD, simp_all)
  then show ?thesis
    unfolding etharp_output_to_arp_index_def wp_bindM [of "entry i"] wp_entry wp_thenM [of "lwip_assert _ _"] if_P [OF len] .
qed

lemma enqueue_ok:
  assumes s: "arp_ok s" and i: "i < ARP_TABLE_SIZE" and p: "arp_entry_state (arp_table s ! i) = ETHARP_STATE_PENDING"
  shows "returns_with (enqueue M n i q) (\<lambda>_ t. arp_ok t) s"
proof -
  let ?e = "arp_table s ! i"
  have len: "i < length (arp_table s)" using i arp_ok_len [OF s] by simp
  have put: "returns_with (upd_entry i (\<lambda>e. e\<lparr>arp_q := a\<rparr>)) (\<lambda>_ t. arp_ok t) t" if t: "heap_run s t" for t a
  proof -
    have "arp_ok (t\<lparr>arp_table := (arp_table s)[i := ?e\<lparr>arp_q := a\<rparr>]\<rparr>)"
      by (rule arp_ok_upd [OF s t])
        (use table_ok_nth [of "arp_table s" i] table_ok_only [of "arp_table s" i] s i p in \<open>simp_all add: arp_ok_def entry_ok_def live_def\<close>)
    then show ?thesis using len heap_run_table [OF t] by (simp add: wp_upd_entry)
  qed
  have fr: "returns_with (whenM b (thenM (pbuf_free n k) (ret ()))) (\<lambda>_ u. heap_run s u) t" if "heap_run s t" for t b k
    by (rule wp_heap) (intro heap_rules heap_keeps, rule heap.R_trans [OF that])
  show ?thesis
    unfolding enqueue_def wp_bindM
  proof (rule wp_heap [OF heap_take_over])
    fix a t assume t: "heap_run s t"
    show "returns_with (if a \<noteq> 0 then bindM (entry i) (\<lambda>e. thenM (whenM (arp_q e \<noteq> 0) (thenM (pbuf_free n (arp_q e)) (ret ())))
        (thenM (upd_entry i (\<lambda>e. e\<lparr>arp_q := a\<rparr>)) (ret ERR_OK))) else ret ERR_MEM) (\<lambda>_ t. arp_ok t) t"
    proof (cases "a = 0")
      case False
      have "returns_with (whenM (arp_q ?e \<noteq> 0) (thenM (pbuf_free n (arp_q ?e)) (ret ())))
          (\<lambda>_. wp (upd_entry i (\<lambda>e. e\<lparr>arp_q := a\<rparr>)) (\<lambda>_ t. arp_ok t) (\<lambda>_ _. True)) t"
        by (rule wp_mono [OF fr [OF t]]) (use put in auto)
      then show ?thesis using False len heap_run_table [OF t] by (simp add: wp_entry del: wp_whenM)
    qed (use s arp_ok_heap [OF t] in simp)
  qed
qed

lemma hint_ok: "i < ARP_TABLE_SIZE \<Longrightarrow> keeps_arp (ETHARP_SET_HINT i)"
  by (simp add: keeps_arp_def ETHARP_SET_HINT_def arp_ok_def ARP_TABLE_SIZE_def unat_of_nat)

text \<open>\<^verbatim>\<open>etharp_query\<close> once it has an entry in use.\<close>

definition query_rest :: "env \<Rightarrow> malloc \<Rightarrow> nat \<Rightarrow> u8 list \<Rightarrow> nat \<Rightarrow> bool \<Rightarrow> u32 \<Rightarrow> addr \<Rightarrow> ('z arp_state_scheme, int) prog" where
  "query_rest E M n srcaddr i is_new_entry ipaddr q =
     bindM (if is_new_entry \<or> q = 0 then etharp_request E M n True ipaddr else ret ERR_MEM) (\<lambda>result.
       if q = 0 then ret result
       else
         bindM (entry i) (\<lambda>e.
           if at_least_stable (arp_entry_state e) then
             thenM (ETHARP_SET_HINT i) (etharp_send_ip E n q srcaddr (arp_ethaddr e))
           else if arp_entry_state e = ETHARP_STATE_PENDING then enqueue M n i q
           else ret result))"

lemma query_send_ok:
  assumes i: "i < ARP_TABLE_SIZE"
  shows "keeps_arp (bindM (entry i) (\<lambda>e. if at_least_stable (arp_entry_state e) then
             thenM (ETHARP_SET_HINT i) (etharp_send_ip E n q src (arp_ethaddr e))
           else if arp_entry_state e = ETHARP_STATE_PENDING then enqueue M n i q else ret result))"
proof (rule keeps_arpI)
  fix s :: "'a arp_state_scheme" assume s: "arp_ok s"
  have "keeps_arp (thenM (ETHARP_SET_HINT i) (etharp_send_ip E n q src (arp_ethaddr (arp_table s ! i))))"
    by (intro keeps_arp_rules hint_ok i)
  then show "returns_with (bindM (entry i) (\<lambda>e. if at_least_stable (arp_entry_state e) then
             thenM (ETHARP_SET_HINT i) (etharp_send_ip E n q src (arp_ethaddr e))
           else if arp_entry_state e = ETHARP_STATE_PENDING then enqueue M n i q else ret result)) (\<lambda>_ t. arp_ok t) s"
    using keeps_arpD [OF _ s] i enqueue_ok [OF s i] s by (auto simp: wp_entry arp_ok_len simp del: wp_thenM)
qed

lemma query_rest_ok: "i < ARP_TABLE_SIZE \<Longrightarrow> keeps_arp (query_rest E M n src i new a q)"
  unfolding query_rest_def
  by (rule keeps_arp_bindM, (intro keeps_arp_rules)[1], rule keeps_arp_if, rule keeps_arp_basic, rule query_send_ok)

lemma keeps_arp_query: "keeps_arp (etharp_query E M n a q)"
proof (rule keeps_arpI)
  fix s :: "'a arp_state_scheme" assume s: "arp_ok s"
  let ?tab = "arp_table s"
  let ?rest = "\<lambda>i. bindM (entry i) (\<lambda>e. thenM (whenM (arp_entry_state e = ETHARP_STATE_EMPTY)
      (upd_entry i (\<lambda>e. e\<lparr>arp_entry_state := ETHARP_STATE_PENDING, arp_netif := True\<rparr>)))
      (query_rest E M n (netif_hwaddr s) i (arp_entry_state e = ETHARP_STATE_EMPTY) a q))"
  have tab: "table_ok ?tab" using s by (simp add: arp_ok_def)
  have len: "length ?tab = ARP_TABLE_SIZE" using tab by (simp add: table_ok_def)
  have qr: "returns_with (query_rest E M n (netif_hwaddr s) i b a q) (\<lambda>_ t. arp_ok t) t" if "arp_ok t" "i < ARP_TABLE_SIZE"
    for t :: "'a arp_state_scheme" and i b
    by (rule keeps_arpD [OF query_rest_ok [OF that(2)] that(1)])
  have find: "returns_with (etharp_find_entry n (Some a) ETHARP_FLAG_TRY_HARD)
      (\<lambda>i. wp (if i < 0 then ret i else ?rest (nat i)) (\<lambda>_ t. arp_ok t) (\<lambda>_ _. True)) s" if host: "host_addr a"
  proof (rule find_entry_wp [where F = "\<lambda>_. True", OF tab])
    fix k assume k: "k < ARP_TABLE_SIZE" "live (?tab ! k)"
    then show "wp (if int k < 0 then ret (int k) else ?rest (nat (int k))) (\<lambda>_ t. arp_ok t) (\<lambda>_ _. True) s"
      using qr [OF s k(1)] len by (simp add: wp_entry live_def)
  next
    fix k t assume miss: "\<forall>e \<in> set ?tab. live e \<longrightarrow> arp_ipaddr e \<noteq> a" and v: "victim ?tab k" and t: "heap_run s t"
    let ?e = "(fresh a (?tab ! k))\<lparr>arp_entry_state := ETHARP_STATE_PENDING, arp_netif := True\<rparr>"
    have k: "k < ARP_TABLE_SIZE" using v by (simp add: victim_def)
    have "entry_ok ?e"
      using table_ok_nth [OF tab k] host by (simp add: fresh_def entry_ok_def cleared_def live_def ethzero_def arp_consts)
    then have "arp_ok (t\<lparr>arp_table := ?tab[k := ?e]\<rparr>)"
      by (rule arp_ok_upd [OF s t]) (simp add: only_at_miss [OF miss] fresh_def)
    moreover have "arp_entry_state (fresh a (?tab ! k)) = ETHARP_STATE_EMPTY" by (simp add: fresh_def cleared_def live_def)
    ultimately show "wp (if int k < 0 then ret (int k) else ?rest (nat (int k))) (\<lambda>_ t. arp_ok t) (\<lambda>_ _. True)
        (t\<lparr>arp_table := ?tab[k := fresh a (?tab ! k)]\<rparr>)"
      using qr k len by (simp add: wp_entry wp_upd_entry)
  qed (use s in \<open>simp_all add: ERR_MEM_def\<close>)
  have "ip4_addr_isbroadcast a s \<or> ip_addr_ismulticast a \<or> ip_addr_isany a \<or> host_addr a"
    using host_addrI [of a s] by blast
  then show "returns_with (etharp_query E M n a q) (\<lambda>_ t. arp_ok t) s"
    using s find unfolding etharp_query_def Let_def query_rest_def by auto
qed

lemma stable_entry_less: "stable_entry a i es = Some k \<Longrightarrow> k < i + length es"
  by (induction es arbitrary: i) (fastforce split: if_splits)+

lemma output_lookup_ok:
  "keeps_arp (bindM (gets etharp_cached_entry) (\<lambda>c. bindM (entry (unat c)) (\<lambda>e.
      if at_least_stable (arp_entry_state e) \<and> d = arp_ipaddr e then etharp_output_to_arp_index E M n q (unat c)
      else bindM (gets arp_table) (\<lambda>tab. case stable_entry d 0 tab of
          Some i \<Rightarrow> thenM (ETHARP_SET_HINT i) (etharp_output_to_arp_index E M n q i)
        | None \<Rightarrow> etharp_query E M n d q))))"
proof (rule keeps_arpI)
  fix s :: "'a arp_state_scheme" assume s: "arp_ok s"
  have c: "unat (etharp_cached_entry s) < ARP_TABLE_SIZE" using s by (simp add: arp_ok_def)
  have q: "returns_with (etharp_query E M n d q) (\<lambda>_ t. arp_ok t) s" by (rule keeps_arpD [OF keeps_arp_query s])
  have i: "returns_with (thenM (ETHARP_SET_HINT i) (etharp_output_to_arp_index E M n q i)) (\<lambda>_ t. arp_ok t) s"
    if "stable_entry d 0 (arp_table s) = Some i" for i
  proof -
    have "i < ARP_TABLE_SIZE" using stable_entry_less [OF that] arp_ok_len [OF s] by simp
    then show ?thesis by (intro keeps_arpD [OF _ s] keeps_arp_thenM hint_ok keeps_arpI output_index_ok)
  qed
  show "returns_with (bindM (gets etharp_cached_entry) (\<lambda>c. bindM (entry (unat c)) (\<lambda>e.
      if at_least_stable (arp_entry_state e) \<and> d = arp_ipaddr e then etharp_output_to_arp_index E M n q (unat c)
      else bindM (gets arp_table) (\<lambda>tab. case stable_entry d 0 tab of
          Some i \<Rightarrow> thenM (ETHARP_SET_HINT i) (etharp_output_to_arp_index E M n q i)
        | None \<Rightarrow> etharp_query E M n d q)))) (\<lambda>_ t. arp_ok t) s"
    using s c output_index_ok [OF s c] q i arp_ok_len [OF s]
    by (auto simp: wp_entry simp del: wp_thenM split: option.split)
qed

lemma keeps_arp_output: "keeps_arp (etharp_output E M n q a)"
  unfolding etharp_output_def Let_def by (rule output_lookup_ok | rule keeps_arp_rules)+

end
