(* ===== verification/EtharpRun.thy ===== *)
theory EtharpRun
  imports EtharpTable
begin

text \<open>
  What the ARP module puts on the wire: requests, replies and packets with the Ethernet header filled in, as the
  frames the Ethernet chip receives on its bus.
\<close>

section \<open>Packets and their headers\<close>

text \<open>The packet at \<open>p\<close> has the bytes \<open>c\<close>, and at least \<open>m\<close> of them are in its first buffer.\<close>

definition holds :: "'z pbuf_state_scheme \<Rightarrow> addr \<Rightarrow> addr list \<Rightarrow> nat \<Rightarrow> u8 list \<Rightarrow> bool" where
  "holds s p ps m c \<longleftrightarrow> packet s p (p # ps) \<and> own_payload (pbufs s) (p # ps) \<and> content (pbufs s) (blocks s) (p # ps) = c \<and>
     m \<le> unat (len (the (pbufs s p)))"

lemma holds_len: "holds s p ps m c \<Longrightarrow> length c = plen (pbufs s) (p # ps) \<and> m \<le> length c"
  using content_len [of "p # ps" "blocks s" "pbufs s"] by (auto simp: holds_def packet_def)

lemma holds_head:
  assumes "holds s p ps m c"
  obtains b where "pbufs s p = Some b" "p \<noteq> 0" "payload_ok (blocks s) b" "m \<le> unat (len b)" "unat (tot_len b) = length c"
    "take (unat (len b)) c = bytes_at (pbufs s) (blocks s) p" "0 < ref b"
proof -
  have pk: "packet s p ([] @ p # ps)" using assms by (simp add: holds_def)
  obtain b where b: "pbufs s p = Some b" "p \<noteq> 0" "payload_ok (blocks s) b" "0 < ref b" "unat (tot_len b) = plen (pbufs s) (p # ps)"
    using packet_parts [OF pk] by metis
  have "length (bytes_at (pbufs s) (blocks s) p) = unat (len b)" using bytes_at_len [of "blocks s" "pbufs s" p] b(1,3) by simp
  then show thesis using that [of b] b assms holds_len [OF assms] by (auto simp: holds_def)
qed

lemma holds_cong:
  assumes "holds s p ps m c" and "\<And>k. k \<in> set (p # ps) \<Longrightarrow> pbufs t k = pbufs s k \<and> blocks t k = blocks s k"
  shows "holds t p ps m c"
  using packet_frame [of s p "p # ps" t] assms by (simp add: holds_def)

lemma wp_get_field:
  assumes "holds s p ps m c" and "i + k \<le> m" and "Q (take k (drop i c)) s"
  shows "wp (get_field p i k) Q H s"
proof -
  obtain b where b: "pbufs s p = Some b" "payload_ok (blocks s) b" "m \<le> unat (len b)"
    "take (unat (len b)) c = bytes_at (pbufs s) (blocks s) p" using holds_head [OF assms(1)] by metis
  have "take k (drop i (take (unat (len b)) c)) = take k (drop i c)"
    using assms(2) b(3) by (simp add: take_drop min_def)
  then show ?thesis
    using assms(2,3) memcpy_from_run [OF b(2) _ b(1), of i k] b(1,3,4) by (simp add: get_field_def wp_def)
qed

text \<open>The memory of one buffer replaced.\<close>

definition with_block :: "'z pbuf_state_scheme \<Rightarrow> addr \<Rightarrow> u8 list option \<Rightarrow> 'z pbuf_state_scheme" where
  "with_block s p d = s\<lparr>blocks := (blocks s)(p := d)\<rparr>"

lemma with_block_simps [simp]:
  "with_block (with_block s p d) p e = with_block s p e" "pbufs (with_block s p d) = pbufs s" "trace (with_block s p d) = trace s"
  "netif_hwaddr (with_block s p d) = netif_hwaddr s" "netif_ip_addr (with_block s p d) = netif_ip_addr s"
  by (simp_all add: with_block_def)

lemma with_block_same: "with_block s p (blocks s p) = s"
  by (simp add: with_block_def)

lemma wp_put_field:
  assumes "holds s p ps m c" and "i + length bs \<le> m" and "bs \<noteq> []"
    and "\<And>d. holds (with_block s p d) p ps m (overwrite i bs c) \<Longrightarrow> Q () (with_block s p d)"
  shows "wp (put_field p i bs) Q H s"
proof -
  obtain b where b: "pbufs s p = Some b" "m \<le> unat (len b)" using holds_head [OF assms(1)] by metis
  let ?bl = "block_write (ptr_add (payload b) (int i)) bs (blocks s)"
  have pk: "packet s p ([] @ p # ps)" "own_payload (pbufs s) ([] @ p # ps)" and len: "i + length bs \<le> unat (len b)"
    using assms(1,2) b(2) by (simp_all add: holds_def)
  note w = content_write [OF pk b(1) len assms(3)]
  have bl: "?bl = (blocks s)(p := ?bl p)" using w(4) by (auto simp: fun_eq_iff fun_upd_apply)
  have "holds (s\<lparr>blocks := ?bl\<rparr>) p ps m (overwrite i bs c)"
    using w(2,3) assms(1) by (simp add: holds_def)
  then have "Q () (s\<lparr>blocks := ?bl\<rparr>)" using assms(4) [of "?bl p"] unfolding with_block_def bl [symmetric] by blast
  then show ?thesis using w(1) b(1) by (simp add: put_field_def wp_def)
qed

section \<open>The link\<close>

text \<open>The frames that hand a packet to the Ethernet chip: pointer, data, length, start of the transmission.\<close>

definition chip_frames :: "u8 list \<Rightarrow> u8 list list" where
  "chip_frames c = [[ENC424J600_GPBWRPT, 0, 0], ENC424J600_WGPDATA # c,
     [ENC424J600_WRITECRU, ENC424J600_ETXLEN_U, of_nat (length c mod 256), of_nat (length c div 256)], [ENC424J600_SETTXRTS]]"

lemma chain_segments_run:
  assumes "chain (pbufs s) p ps" and "\<forall>q \<in> set ps. payload_ok (blocks s) (the (pbufs s q))" and "length ps < n"
  shows "chain_segments n p s = Ret (map (bytes_at (pbufs s) (blocks s)) ps) s"
  using assms
proof (induction ps arbitrary: p n)
  case Nil
  then obtain k where "n = Suc k" by (cases n) auto
  then show ?case using Nil by simp
next
  case (Cons q qs)
  then obtain k b where k: "n = Suc k" and b: "pbufs s q = Some b" "chain (pbufs s) (pnext b) qs" "p = q" "q \<noteq> 0" by (cases n) auto
  have "payload_ok (blocks s) b" using Cons.prems(2) b(1) by simp
  then have "memcpy_from (payload b) (unat (len b)) s = Ret (bytes_at (pbufs s) (blocks s) q) s"
    using memcpy_from_run [of s b 0 "unat (len b)" q] b(1) bytes_at_len [of "blocks s" "pbufs s" q] by simp
  moreover have "chain_segments k (pnext b) s = Ret (map (bytes_at (pbufs s) (blocks s)) qs) s"
    by (rule Cons.IH [OF b(2)]) (use Cons.prems k in auto)
  ultimately show ?case using b k by simp
qed

lemma wp_linkoutput:
  assumes "holds s p ps m c" and "Suc (length ps) < n"
    and "length c \<le> 1024 \<Longrightarrow> (\<And>es. enc_bus None es = (None, chip_frames c) \<Longrightarrow> Q 0 (s\<lparr>txbusy := True, trace := trace s @ es\<rparr>))"
    and "1024 < length c \<Longrightarrow> Q 0 s"
  shows "wp (linkoutput E n p) Q H s"
proof -
  obtain b where b: "pbufs s p = Some b" "unat (tot_len b) = length c" using holds_head [OF assms(1)] by metis
  have seg: "chain_segments n p s = Ret (map (bytes_at (pbufs s) (blocks s)) (p # ps)) s"
    by (rule chain_segments_run) (use assms(1,2) in \<open>auto simp: holds_def packet_def\<close>)
  have cat: "concat (map (bytes_at (pbufs s) (blocks s)) (p # ps)) = c"
    using assms(1) by (simp add: holds_def content_def)
  have bys: "ucast (tot_len b) = (of_nat (length c mod 256) :: u8)" "ucast (drop_bit 8 (tot_len b)) = (of_nat (length c div 256) :: u8)"
  proof -
    show "ucast (tot_len b) = (of_nat (length c mod 256) :: u8)"
      unfolding b(2) [symmetric] by (simp add: word_unat_eq_iff unat_of_nat unsigned_ucast_eq take_bit_eq_mod)
    show "ucast (drop_bit 8 (tot_len b)) = (of_nat (length c div 256) :: u8)"
      unfolding b(2) [symmetric] by (simp add: word_unat_eq_iff unat_of_nat unsigned_ucast_eq take_bit_eq_mod unat_drop_bit_eq drop_bit_eq_div unat_div)
  qed
  have le: "tot_len b \<le> 1024 \<longleftrightarrow> length c \<le> 1024" unfolding b(2) [symmetric] by (simp add: word_le_nat_alt)
  have u: "uint (tot_len b) = int (unat (tot_len b))" and d: "uint ENC424J600_RXBUF_START - uint ENC424J600_TXBUF_START = 1024"
    by (simp_all add: enc_buf_consts)
  have gt: "uint (tot_len b) > uint ENC424J600_RXBUF_START - uint ENC424J600_TXBUF_START \<longleftrightarrow> 1024 < length c"
    unfolding b(2) [symmetric] d using u by linarith
  show ?thesis
  proof (cases "length c \<le> 1024")
    case True
    obtain es where es: "enc424j600_spi_linkoutput E (map (bytes_at (pbufs s) (blocks s)) (p # ps)) (tot_len b) s =
        Ret 0 (s\<lparr>txbusy := True, trace := trace s @ es\<rparr>)" "enc_bus None es = (None, chip_frames c)"
      using linkoutput_run [of "map (bytes_at (pbufs s) (blocks s)) (p # ps)" "tot_len b" E s] True le
      unfolding cat bys chip_frames_def by auto
    then show ?thesis using assms(3) [OF True es(2)] b(1) seg True gt by (simp add: linkoutput_def wp_def)
  next
    case False
    then have "enc424j600_spi_linkoutput E [] (tot_len b) s = Ret 0 s" using gt by (simp add: enc424j600_spi_linkoutput_def enc424j600_spi_send_def)
    then show ?thesis using assms(4) b(1) False gt by (simp add: linkoutput_def wp_def)
  qed
qed

section \<open>The header of an ARP packet\<close>

text \<open>The fields of \<^verbatim>\<open>struct eth_hdr\<close> and \<^verbatim>\<open>struct etharp_hdr\<close> as they lie in a frame, and what follows them.\<close>

record arp_pkt =
  eth_dest :: "u8 list"
  eth_src :: "u8 list"
  eth_type :: "u8 list"
  hwtype :: "u8 list"
  proto :: "u8 list"
  hwlen :: "u8 list"
  protolen :: "u8 list"
  opcode :: "u8 list"
  shwaddr :: "u8 list"
  sipaddr :: "u8 list"
  dhwaddr :: "u8 list"
  dipaddr :: "u8 list"
  padding :: "u8 list"

definition arp_bytes :: "arp_pkt \<Rightarrow> u8 list" where
  "arp_bytes k = eth_dest k @ eth_src k @ eth_type k @ hwtype k @ proto k @ hwlen k @ protolen k @ opcode k @
     shwaddr k @ sipaddr k @ dhwaddr k @ dipaddr k @ padding k"

definition arp_fields :: "arp_pkt \<Rightarrow> bool" where
  "arp_fields k \<longleftrightarrow> length (eth_dest k) = 6 \<and> length (eth_src k) = 6 \<and> length (eth_type k) = 2 \<and> length (hwtype k) = 2 \<and>
     length (proto k) = 2 \<and> length (hwlen k) = 1 \<and> length (protolen k) = 1 \<and> length (opcode k) = 2 \<and> length (shwaddr k) = 6 \<and>
     length (sipaddr k) = 4 \<and> length (dhwaddr k) = 6 \<and> length (dipaddr k) = 4"

definition arp_parse :: "u8 list \<Rightarrow> arp_pkt" where
  "arp_parse c = (let f = (\<lambda>i n. take n (drop i c)) in
     \<lparr>eth_dest = f 0 6, eth_src = f 6 6, eth_type = f 12 2, hwtype = f 14 2, proto = f 16 2, hwlen = f 18 1, protolen = f 19 1,
      opcode = f 20 2, shwaddr = f 22 6, sipaddr = f 28 4, dhwaddr = f 32 6, dipaddr = f 38 4, padding = drop 42 c\<rparr>)"

lemma arp_parse_fields: "42 \<le> length c \<Longrightarrow> arp_fields (arp_parse c)"
  by (simp add: arp_fields_def arp_parse_def Let_def)

lemma take_drop_join: "take k (drop i c) @ drop (i + k) c = drop i c"
  by (metis append_take_drop_id drop_drop add.commute)

lemma arp_bytes_parse: "arp_bytes (arp_parse c) = c"
  using take_drop_join [of 6 0 c] take_drop_join [of 6 6 c] take_drop_join [of 2 12 c] take_drop_join [of 2 14 c]
    take_drop_join [of 2 16 c] take_drop_join [of 1 18 c] take_drop_join [of 1 19 c] take_drop_join [of 2 20 c]
    take_drop_join [of 6 22 c] take_drop_join [of 4 28 c] take_drop_join [of 6 32 c] take_drop_join [of 4 38 c]
  by (simp add: arp_bytes_def arp_parse_def Let_def)

lemma overwrite_mid: "length xs = i \<Longrightarrow> length bs = length ys \<Longrightarrow> overwrite i bs (xs @ ys @ zs) = xs @ bs @ zs"
  by (simp add: overwrite_def)

lemma take_mid: "length xs = i \<Longrightarrow> length ys = k \<Longrightarrow> take k (drop i (xs @ ys @ zs)) = ys"
  by simp

text \<open>A field is read and written at its offset.\<close>

lemma arp_get:
  assumes "arp_fields k"
  shows "take 6 (drop 0 (arp_bytes k)) = eth_dest k" "take 2 (drop 12 (arp_bytes k)) = eth_type k"
    "take 2 (drop 14 (arp_bytes k)) = hwtype k" "take 2 (drop 16 (arp_bytes k)) = proto k"
    "take 1 (drop 18 (arp_bytes k)) = hwlen k" "take 1 (drop 19 (arp_bytes k)) = protolen k" "take 2 (drop 20 (arp_bytes k)) = opcode k"
    "take 6 (drop 22 (arp_bytes k)) = shwaddr k" "take 4 (drop 28 (arp_bytes k)) = sipaddr k" "take 4 (drop 38 (arp_bytes k)) = dipaddr k"
  using assms by (simp_all add: arp_bytes_def arp_fields_def)

lemma arp_put:
  assumes "arp_fields k"
  shows "length bs = 6 \<Longrightarrow> overwrite 0 bs (arp_bytes k) = arp_bytes (k\<lparr>eth_dest := bs\<rparr>)"
    "length bs = 6 \<Longrightarrow> overwrite 6 bs (arp_bytes k) = arp_bytes (k\<lparr>eth_src := bs\<rparr>)"
    "length bs = 2 \<Longrightarrow> overwrite 12 bs (arp_bytes k) = arp_bytes (k\<lparr>eth_type := bs\<rparr>)"
    "length bs = 2 \<Longrightarrow> overwrite 14 bs (arp_bytes k) = arp_bytes (k\<lparr>hwtype := bs\<rparr>)"
    "length bs = 2 \<Longrightarrow> overwrite 16 bs (arp_bytes k) = arp_bytes (k\<lparr>proto := bs\<rparr>)"
    "length bs = 1 \<Longrightarrow> overwrite 18 bs (arp_bytes k) = arp_bytes (k\<lparr>hwlen := bs\<rparr>)"
    "length bs = 1 \<Longrightarrow> overwrite 19 bs (arp_bytes k) = arp_bytes (k\<lparr>protolen := bs\<rparr>)"
    "length bs = 2 \<Longrightarrow> overwrite 20 bs (arp_bytes k) = arp_bytes (k\<lparr>opcode := bs\<rparr>)"
    "length bs = 6 \<Longrightarrow> overwrite 22 bs (arp_bytes k) = arp_bytes (k\<lparr>shwaddr := bs\<rparr>)"
    "length bs = 4 \<Longrightarrow> overwrite 28 bs (arp_bytes k) = arp_bytes (k\<lparr>sipaddr := bs\<rparr>)"
    "length bs = 6 \<Longrightarrow> overwrite 32 bs (arp_bytes k) = arp_bytes (k\<lparr>dhwaddr := bs\<rparr>)"
    "length bs = 4 \<Longrightarrow> overwrite 38 bs (arp_bytes k) = arp_bytes (k\<lparr>dipaddr := bs\<rparr>)"
  using assms by (simp_all add: arp_bytes_def arp_fields_def overwrite_def)

lemma arp_fields_upd [simp]:
  "arp_fields k \<Longrightarrow> length bs = 6 \<Longrightarrow> arp_fields (k\<lparr>eth_dest := bs\<rparr>)" "arp_fields k \<Longrightarrow> length bs = 6 \<Longrightarrow> arp_fields (k\<lparr>eth_src := bs\<rparr>)"
  "arp_fields k \<Longrightarrow> length bs = 2 \<Longrightarrow> arp_fields (k\<lparr>eth_type := bs\<rparr>)" "arp_fields k \<Longrightarrow> length bs = 2 \<Longrightarrow> arp_fields (k\<lparr>hwtype := bs\<rparr>)"
  "arp_fields k \<Longrightarrow> length bs = 2 \<Longrightarrow> arp_fields (k\<lparr>proto := bs\<rparr>)" "arp_fields k \<Longrightarrow> length bs = 1 \<Longrightarrow> arp_fields (k\<lparr>hwlen := bs\<rparr>)"
  "arp_fields k \<Longrightarrow> length bs = 1 \<Longrightarrow> arp_fields (k\<lparr>protolen := bs\<rparr>)" "arp_fields k \<Longrightarrow> length bs = 2 \<Longrightarrow> arp_fields (k\<lparr>opcode := bs\<rparr>)"
  "arp_fields k \<Longrightarrow> length bs = 6 \<Longrightarrow> arp_fields (k\<lparr>shwaddr := bs\<rparr>)" "arp_fields k \<Longrightarrow> length bs = 4 \<Longrightarrow> arp_fields (k\<lparr>sipaddr := bs\<rparr>)"
  "arp_fields k \<Longrightarrow> length bs = 6 \<Longrightarrow> arp_fields (k\<lparr>dhwaddr := bs\<rparr>)" "arp_fields k \<Longrightarrow> length bs = 4 \<Longrightarrow> arp_fields (k\<lparr>dipaddr := bs\<rparr>)"
  by (simp_all add: arp_fields_def)

definition arp_at :: "'z pbuf_state_scheme \<Rightarrow> addr \<Rightarrow> addr list \<Rightarrow> arp_pkt \<Rightarrow> bool" where
  "arp_at s p ps k \<longleftrightarrow> holds s p ps 42 (arp_bytes k) \<and> arp_fields k"

lemma arp_atI: "holds s p ps 42 c \<Longrightarrow> arp_at s p ps (arp_parse c)"
  using arp_parse_fields [of c] holds_len [of s p ps 42 c] by (simp add: arp_at_def arp_bytes_parse)

lemma wp_arp_field:
  assumes "arp_at s p ps k" and "overwrite i bs (arp_bytes k) = arp_bytes k'" and "arp_fields k'" and "i + length bs \<le> 42" and "bs \<noteq> []"
    and "\<And>d. arp_at (with_block s p d) p ps k' \<Longrightarrow> Q () (with_block s p d)"
  shows "wp (put_field p i bs) Q H s"
  by (rule wp_put_field) (use assms in \<open>auto simp: arp_at_def\<close>)

lemma wp_arp_put:
  assumes "arp_at s p ps k"
  shows "length bs = 6 \<Longrightarrow> (\<And>d. arp_at (with_block s p d) p ps (k\<lparr>eth_dest := bs\<rparr>) \<Longrightarrow> Q () (with_block s p d)) \<Longrightarrow>
      wp (put_field p 0 bs) Q H s"
    "length bs = 6 \<Longrightarrow> (\<And>d. arp_at (with_block s p d) p ps (k\<lparr>eth_src := bs\<rparr>) \<Longrightarrow> Q () (with_block s p d)) \<Longrightarrow>
      wp (put_field p 6 bs) Q H s"
    "length bs = 2 \<Longrightarrow> (\<And>d. arp_at (with_block s p d) p ps (k\<lparr>eth_type := bs\<rparr>) \<Longrightarrow> Q () (with_block s p d)) \<Longrightarrow>
      wp (put_field p 12 bs) Q H s"
    "length bs = 2 \<Longrightarrow> (\<And>d. arp_at (with_block s p d) p ps (k\<lparr>hwtype := bs\<rparr>) \<Longrightarrow> Q () (with_block s p d)) \<Longrightarrow>
      wp (put_field p 14 bs) Q H s"
    "length bs = 2 \<Longrightarrow> (\<And>d. arp_at (with_block s p d) p ps (k\<lparr>proto := bs\<rparr>) \<Longrightarrow> Q () (with_block s p d)) \<Longrightarrow>
      wp (put_field p 16 bs) Q H s"
    "length bs = 1 \<Longrightarrow> (\<And>d. arp_at (with_block s p d) p ps (k\<lparr>hwlen := bs\<rparr>) \<Longrightarrow> Q () (with_block s p d)) \<Longrightarrow>
      wp (put_field p 18 bs) Q H s"
    "length bs = 1 \<Longrightarrow> (\<And>d. arp_at (with_block s p d) p ps (k\<lparr>protolen := bs\<rparr>) \<Longrightarrow> Q () (with_block s p d)) \<Longrightarrow>
      wp (put_field p 19 bs) Q H s"
    "length bs = 2 \<Longrightarrow> (\<And>d. arp_at (with_block s p d) p ps (k\<lparr>opcode := bs\<rparr>) \<Longrightarrow> Q () (with_block s p d)) \<Longrightarrow>
      wp (put_field p 20 bs) Q H s"
    "length bs = 6 \<Longrightarrow> (\<And>d. arp_at (with_block s p d) p ps (k\<lparr>shwaddr := bs\<rparr>) \<Longrightarrow> Q () (with_block s p d)) \<Longrightarrow>
      wp (put_field p 22 bs) Q H s"
    "length bs = 4 \<Longrightarrow> (\<And>d. arp_at (with_block s p d) p ps (k\<lparr>sipaddr := bs\<rparr>) \<Longrightarrow> Q () (with_block s p d)) \<Longrightarrow>
      wp (put_field p 28 bs) Q H s"
    "length bs = 6 \<Longrightarrow> (\<And>d. arp_at (with_block s p d) p ps (k\<lparr>dhwaddr := bs\<rparr>) \<Longrightarrow> Q () (with_block s p d)) \<Longrightarrow>
      wp (put_field p 32 bs) Q H s"
    "length bs = 4 \<Longrightarrow> (\<And>d. arp_at (with_block s p d) p ps (k\<lparr>dipaddr := bs\<rparr>) \<Longrightarrow> Q () (with_block s p d)) \<Longrightarrow>
      wp (put_field p 38 bs) Q H s"
  by (rule wp_arp_field, rule assms, rule arp_put, use assms in \<open>auto simp: arp_at_def\<close>)+

lemma wp_arp_get:
  assumes "arp_at s p ps k"
  shows "Q (eth_dest k) s \<Longrightarrow> wp (get_field p 0 6) Q H s" "Q (eth_type k) s \<Longrightarrow> wp (get_field p 12 2) Q H s"
    "Q (hwtype k) s \<Longrightarrow> wp (get_field p 14 2) Q H s" "Q (proto k) s \<Longrightarrow> wp (get_field p 16 2) Q H s"
    "Q (hwlen k) s \<Longrightarrow> wp (get_field p 18 1) Q H s" "Q (protolen k) s \<Longrightarrow> wp (get_field p 19 1) Q H s"
    "Q (opcode k) s \<Longrightarrow> wp (get_field p 20 2) Q H s" "Q (shwaddr k) s \<Longrightarrow> wp (get_field p 22 6) Q H s"
    "Q (sipaddr k) s \<Longrightarrow> wp (get_field p 28 4) Q H s" "Q (dipaddr k) s \<Longrightarrow> wp (get_field p 38 4) Q H s"
  using arp_get [of k] assms by (auto simp: arp_at_def intro: wp_get_field)

section \<open>Requests\<close>

lemma wp_free_one:
  assumes "holds s p [] m c" and "ref (the (pbufs s p)) = 1" and "1 < n"
    and "Q 1 (s\<lparr>pbufs := (pbufs s)(p := None), blocks := (blocks s)(p := None)\<rparr>)"
  shows "wp (pbuf_free n p) Q H s"
proof -
  obtain b where b: "pbufs s p = Some b" "p \<noteq> 0" using holds_head [OF assms(1)] by metis
  have "chain (pbufs s) p [p]" using assms(1) by (simp add: holds_def packet_def)
  then have "free_loop n p 0 s = Ret 1 (s\<lparr>pbufs := (pbufs s)(p := None), blocks := (blocks s)(p := None)\<rparr>)"
    using free_loop_run [of s p "[p]" n 0] assms(2,3) b by (simp add: gone_def kept_def drop_ref_def without_insert)
  then show ?thesis using assms(4) b by (simp add: pbuf_free_def wp_def)
qed

text \<open>A new buffer for an ARP packet, or none.\<close>

lemma wp_alloc_arp:
  assumes "malloc_ok M" and "Q 0 (s\<lparr>mallocs := mallocs s + 1\<rparr>)"
    and "\<And>p b d c t. t = s\<lparr>mallocs := mallocs s + 1, pbufs := (pbufs s)(p \<mapsto> b), blocks := (blocks s)(p \<mapsto> d)\<rparr> \<Longrightarrow> p \<noteq> 0 \<Longrightarrow>
      pbufs s p = None \<Longrightarrow> blocks s p = None \<Longrightarrow> ref b = 1 \<Longrightarrow> len b = 42 \<Longrightarrow> holds t p [] 42 c \<Longrightarrow> length c = 42 \<Longrightarrow> Q p t"
  shows "wp (pbuf_alloc M n PBUF_RAW 42 PBUF_RAM) Q H s"
proof -
  let ?sz = "LWIP_MEM_ALIGN_SIZE (SIZEOF_STRUCT_PBUF + 0) + LWIP_MEM_ALIGN_SIZE 42"
  obtain p mem where p: "M (pbufs s) (blocks s) (mallocs s) ?sz = (p, mem)" by fastforce
  show ?thesis
  proof (cases "p = 0")
    case True
    then show ?thesis using p assms(2) by (simp add: pbuf_alloc_def header_offset_def pbuf_alloc_ram_def wp_def)
  next
    case False
    have m: "pbufs s p = None" "blocks s p = None" "p mod 4 = 0" "length mem = ?sz"
      using assms(1) p False unfolding malloc_ok_def by blast+
    let ?b = "\<lparr>pnext = 0, payload = Some (p, 0), tot_len = 42, len = 42, ptype = PBUF_RAM, flags = 0, ref = 1\<rparr>"
    let ?d = "drop SIZEOF_STRUCT_PBUF mem"
    let ?t = "s\<lparr>mallocs := mallocs s + 1, pbufs := (pbufs s)(p \<mapsto> ?b), blocks := (blocks s)(p \<mapsto> ?d)\<rparr>"
    have d: "length ?d = 44" using m(4) by (simp add: pbuf_consts)
    then have "holds ?t p [] 42 (take 42 ?d)"
      using False by (simp add: holds_def packet_def payload_ok_def in_block_def own_payload_def bytes_at_def block_read_def)
    then have "Q p ?t" by (rule assms(3) [OF refl False m(1,2), rotated 2]) (use d in simp_all)
    moreover have "LWIP_MEM_ALIGN (p + SIZEOF_STRUCT_PBUF) = p + SIZEOF_STRUCT_PBUF"
      using align_offset [OF m(3), of 0] by (simp add: LWIP_MEM_ALIGN_SIZE_def)
    moreover have "(p + SIZEOF_STRUCT_PBUF) mod 4 = 0" using align_mod calculation(2) by metis
    ultimately show ?thesis
      using p False by (simp add: pbuf_alloc_def header_offset_def pbuf_alloc_ram_def wp_def Let_def)
  qed
qed

text \<open>The packet \<^verbatim>\<open>etharp_raw\<close> builds.\<close>

definition arp_built :: "u8 list \<Rightarrow> u8 list \<Rightarrow> u8 list \<Rightarrow> u32 \<Rightarrow> u8 list \<Rightarrow> u32 \<Rightarrow> u16 \<Rightarrow> arp_pkt" where
  "arp_built src dst hsrc isrc hdst idst op =
     \<lparr>eth_dest = dst, eth_src = src, eth_type = [8, 6], hwtype = [0, 1], proto = [8, 0], hwlen = [6], protolen = [4],
      opcode = [ucast (drop_bit 8 op), ucast op], shwaddr = hsrc, sipaddr = le_bytes 4 isrc, dhwaddr = hdst, dipaddr = le_bytes 4 idst,
      padding = []\<rparr>"

lemma be_bytes: "le_bytes 2 (lwip_htons v) = [ucast (drop_bit 8 v), ucast v]"
proof -
  have m: "(0xff :: u16) = Bit_Operations.mask 8" "(0xff00 :: u16) = push_bit 8 (Bit_Operations.mask 8)" by (simp_all add: mask_eq_decr_exp)
  have "ucast (lwip_htons v) = (ucast (drop_bit 8 v) :: u8)" "ucast (drop_bit 8 (lwip_htons v)) = (ucast v :: u8)"
    unfolding lwip_htons_def m by (rule bit_word_eqI, auto simp: bit_simps)+
  then show ?thesis by (simp add: numeral_2_eq_2)
qed

lemma wp_hwaddr_len_ok: "length (netif_hwaddr s) = 6 \<Longrightarrow> Q () s \<Longrightarrow> wp (hwaddr_len_ok msg) Q H s"
  by (simp add: hwaddr_len_ok_def arp_consts)

lemma wp_lwip_assert: "b \<Longrightarrow> Q () s \<Longrightarrow> wp (lwip_assert msg b) Q H s"
  by (simp add: wp_def)

lemma wp_deref: "pbufs s p = Some b \<Longrightarrow> Q b s \<Longrightarrow> wp (deref p) Q H s"
  by (simp add: wp_def)

lemma wp_raw:
  assumes M: "malloc_ok M" and n: "1 < n" and hw: "length (netif_hwaddr s) = 6"
    and len: "length src = 6" "length dst = 6" "length hsrc = 6" "length hdst = 6"
    and fail: "Q ERR_MEM (s\<lparr>mallocs := mallocs s + 1\<rparr>)"
    and sent: "\<And>es. enc_bus None es = (None, chip_frames (arp_bytes (arp_built src dst hsrc isrc hdst idst op))) \<Longrightarrow>
      Q ERR_OK (s\<lparr>mallocs := mallocs s + 1, txbusy := True, trace := trace s @ es\<rparr>)"
  shows "wp (etharp_raw E M n True src dst hsrc isrc hdst idst op) Q H s"
  unfolding etharp_raw_def wp_thenM wp_bindM arp_consts of_nat_numeral seqM.simps
proof (rule wp_lwip_assert, simp, simp, rule wp_alloc_arp [OF M], goal_cases)
  case 1
  then show ?case using fail by simp
next
  case (2 p b d c t)
  let ?k = "arp_built src dst hsrc isrc hdst idst op"
  have at: "arp_at t p [] (arp_parse c)" by (rule arp_atI [OF 2(7)])
  have pad: "padding (arp_parse c) = []" using 2(8) by (simp add: arp_parse_def)
  have built: "x\<lparr>opcode := le_bytes 2 (lwip_htons op), shwaddr := hsrc, dhwaddr := hdst, sipaddr := le_bytes 4 isrc,
      dipaddr := le_bytes 4 idst, hwtype := le_bytes 2 (lwip_htons 1), proto := le_bytes 2 (lwip_htons 2048), hwlen := [6],
      protolen := [4], eth_type := le_bytes 2 (lwip_htons 2054), eth_dest := dst, eth_src := src\<rparr> = ?k" if "padding x = []" for x
    using that by (cases x) (simp add: arp_built_def be_bytes)
  have same: "length (netif_hwaddr t) = 6" "pbufs t p = Some b" using hw 2(1) by simp_all
  have fin: "wp (linkoutput E n p) (\<lambda>r. wp (pbuf_free n p) (\<lambda>_. wp (ret r) Q H) H) H (with_block t p e)"
    if "arp_at (with_block t p e) p [] ?k" for e
  proof (rule wp_linkoutput)
    let ?u = "with_block t p e"
    show "holds ?u p [] 42 (arp_bytes ?k)" using that by (simp add: arp_at_def)
    fix es assume es: "enc_bus None es = (None, chip_frames (arp_bytes ?k))"
    let ?v = "?u\<lparr>txbusy := True, trace := trace ?u @ es\<rparr>"
    have v: "?v\<lparr>pbufs := (pbufs ?v)(p := None), blocks := (blocks ?v)(p := None)\<rparr> = s\<lparr>mallocs := mallocs s + 1, txbusy := True, trace := trace s @ es\<rparr>"
      using 2(1,3,4) by (simp add: with_block_def fun_upd_idem upd_same)
    show "wp (pbuf_free n p) (\<lambda>_. wp (ret 0) Q H) H ?v"
    proof (rule wp_free_one)
      show "holds ?v p [] 42 (arp_bytes ?k)" by (rule holds_cong [of ?u]) (use that in \<open>simp_all add: arp_at_def\<close>)
      show "wp (ret 0) Q H (?v\<lparr>pbufs := (pbufs ?v)(p := None), blocks := (blocks ?v)(p := None)\<rparr>)"
        unfolding v using sent [OF es] by (simp add: ERR_OK_def)
    qed (use same 2(5) n in simp_all)
  qed (use n that in \<open>simp_all add: arp_at_def arp_bytes_def arp_fields_def arp_built_def\<close>)
  show ?case
    apply (simp only: 2(2) if_False wp_thenM wp_bindM)
    apply (rule wp_deref [OF same(2)], rule wp_lwip_assert, simp add: 2(6))
    apply (rule wp_arp_put(8) [OF at], simp, rule wp_hwaddr_len_ok, simp add: same)
    apply (rule wp_arp_put, assumption, simp add: len)+
    subgoal premises prems for d0 d1 d2 d3 d4 d5 d6 d7 d8 d9 d10 d11
      using fin [of d11] prems(12) by (simp add: built [OF pad])
    done
qed

lemma request_wp:
  assumes "malloc_ok M" and "1 < n" and "length (netif_hwaddr s) = 6"
    and "Q ERR_MEM (s\<lparr>mallocs := mallocs s + 1\<rparr>)"
    and "\<And>es. enc_bus None es = (None, chip_frames (arp_bytes (arp_built (netif_hwaddr s) ethbroadcast (netif_hwaddr s) (netif_ip_addr s)
        ethzero a ARP_REQUEST))) \<Longrightarrow> Q ERR_OK (s\<lparr>mallocs := mallocs s + 1, txbusy := True, trace := trace s @ es\<rparr>)"
  shows "wp (etharp_request E M n True a) Q H s"
  unfolding etharp_request_def wp_bindM wp_gets
  by (rule wp_raw [OF assms(1-3)]) (use assms in \<open>simp_all add: ethbroadcast_def ethzero_def\<close>)

text \<open>
  An ARP request is one broadcast frame that carries the addresses of the interface and the address asked for; the buffer it was
  built in is given back. When there is no memory nothing is sent.
\<close>

theorem arp_request_frame:
  assumes "malloc_ok M" and "1 < n" and "length (netif_hwaddr s) = 6"
  shows "\<exists>r t. etharp_request E M n True a s = Ret r t \<and>
    (r = ERR_MEM \<and> t = s\<lparr>mallocs := mallocs s + 1\<rparr> \<or>
     r = ERR_OK \<and> (\<exists>es. t = s\<lparr>mallocs := mallocs s + 1, txbusy := True, trace := trace s @ es\<rparr> \<and>
       enc_bus None es = (None, chip_frames (replicate 6 0xff @ netif_hwaddr s @ [8, 6, 0, 1, 8, 0, 6, 4, 0, 1] @
         netif_hwaddr s @ le_bytes 4 (netif_ip_addr s) @ replicate 6 0 @ le_bytes 4 a))))"
proof -
  have "arp_bytes (arp_built (netif_hwaddr s) ethbroadcast (netif_hwaddr s) (netif_ip_addr s) ethzero a ARP_REQUEST) =
     replicate 6 0xff @ netif_hwaddr s @ [8, 6, 0, 1, 8, 0, 6, 4, 0, 1] @ netif_hwaddr s @ le_bytes 4 (netif_ip_addr s) @ replicate 6 0 @ le_bytes 4 a"
    by (simp add: arp_bytes_def arp_built_def ethbroadcast_def ethzero_def ARP_REQUEST_def)
  then show ?thesis
    by (intro iffD1 [OF wp_total_ex] request_wp [OF assms]) auto
qed

section \<open>Learning with empty queues\<close>

definition no_queues :: "etharp_entry list \<Rightarrow> bool" where
  "no_queues tab \<longleftrightarrow> (\<forall>e \<in> set tab. arp_q e = 0)"

lemma no_queuesD: "no_queues tab \<Longrightarrow> i < length tab \<Longrightarrow> arp_q (tab ! i) = 0"
  by (simp add: no_queues_def)

lemma learn_at_unqueued:
  assumes "i < length (arp_table s)" and "arp_q (arp_table s ! i) = 0" and "arp_ipaddr (arp_table s ! i) = a"
    and "Q ERR_OK (s\<lparr>arp_table := (arp_table s)[i := learned a mac (arp_table s ! i)]\<rparr>)"
  shows "wp (learn_at E n mac i) Q H s"
proof -
  have "learned a mac (arp_table s ! i) =
      (arp_table s ! i)\<lparr>arp_entry_state := ETHARP_STATE_STABLE, arp_netif := True, arp_ethaddr := mac, arp_ctime := 0\<rparr>"
    using assms(2,3) by (simp add: learned_def)
  then show ?thesis using assms by (simp add: learn_at_def wp_entry wp_upd_entry)
qed

lemma fresh_ipaddr: "arp_ipaddr (fresh a e) = a"
  by (simp add: fresh_def)

lemma update_unqueued:
  assumes tab: "table_ok (arp_table s)" "no_queues (arp_table s)" and hw: "length (netif_hwaddr s) = 6"
    and a: "host_addr a" "\<not> ip4_addr_isbroadcast a s"
    and Q: "\<And>k. k < ARP_TABLE_SIZE \<Longrightarrow> only_at (arp_table s) k a \<Longrightarrow>
      live (arp_table s ! k) \<and> arp_ipaddr (arp_table s ! k) = a \<or> (\<forall>e \<in> set (arp_table s). live e \<longrightarrow> arp_ipaddr e \<noteq> a) \<and> victim (arp_table s) k \<Longrightarrow>
      Q ERR_OK (s\<lparr>arp_table := (arp_table s)[k := learned a mac (arp_table s ! k)]\<rparr>)"
  shows "wp (etharp_update_arp_entry E n a mac ETHARP_FLAG_TRY_HARD) Q H s"
proof -
  let ?tab = "arp_table s"
  have len: "length ?tab = ARP_TABLE_SIZE" using tab(1) by (simp add: table_ok_def)
  have "wp (etharp_find_entry n (Some a) ETHARP_FLAG_TRY_HARD) (\<lambda>i. wp (if i < 0 then ret i else learn_at E n mac (nat i)) Q H) H s"
  proof (rule find_entry_wp [where F = "\<lambda>t. t = s", OF tab(1)])
    fix k assume k: "k < ARP_TABLE_SIZE" "live (?tab ! k)" "arp_ipaddr (?tab ! k) = a"
    then have "only_at ?tab k a" using table_ok_only [OF tab(1)] by blast
    from Q [OF k(1) this] have "wp (learn_at E n mac k) Q H s"
      using k len no_queuesD [OF tab(2), of k] by (intro learn_at_unqueued [where a = a]) simp_all
    then show "wp (if int k < 0 then ret (int k) else learn_at E n mac (nat (int k))) Q H s" by simp
  next
    fix k t assume miss: "\<forall>e \<in> set ?tab. live e \<longrightarrow> arp_ipaddr e \<noteq> a" and v: "victim ?tab k" and t: "t = s"
    let ?u = "s\<lparr>arp_table := ?tab[k := fresh a (?tab ! k)]\<rparr>"
    have k: "k < ARP_TABLE_SIZE" using v by (simp add: victim_def)
    have "arp_q (fresh a (?tab ! k)) = 0" using no_queuesD [OF tab(2), of k] k len by (simp add: fresh_def cleared_def)
    then have "wp (learn_at E n mac k) Q H ?u"
      by (intro learn_at_unqueued [where a = a]) (use k len Q [OF k only_at_miss [OF miss]] miss v in \<open>simp_all add: fresh_ipaddr\<close>)
    then show "wp (if int k < 0 then ret (int k) else learn_at E n mac (nat (int k))) Q H (t\<lparr>arp_table := ?tab[k := fresh a (?tab ! k)]\<rparr>)"
      using t by simp
  qed (use no_queuesD [OF tab(2)] len in \<open>auto simp: releases_def victim_def arp_consts\<close>)
  then show ?thesis
    using a unfolding etharp_update_arp_entry_def wp_thenM
    by (intro wp_hwaddr_len_ok [OF hw]) (simp add: host_addr_def ip_addr_isany_def)
qed

section \<open>Answering\<close>

definition arp_answer :: "u8 list \<Rightarrow> u32 \<Rightarrow> arp_pkt \<Rightarrow> arp_pkt" where
  "arp_answer hw ip k = k\<lparr>eth_dest := shwaddr k, eth_src := hw, opcode := [0, 2], shwaddr := hw, sipaddr := le_bytes 4 ip,
     dhwaddr := shwaddr k, dipaddr := sipaddr k\<rparr>"

lemma arp_answer_fields: "arp_fields k \<Longrightarrow> length hw = 6 \<Longrightarrow> arp_fields (arp_answer hw ip k)"
  by (simp add: arp_fields_def arp_answer_def)

lemma reply_wp:
  assumes at: "arp_at s p [] k" and hw: "length (netif_hwaddr s) = 6" and n: "1 < n" and small: "length (arp_bytes k) \<le> 1024"
    and Q: "\<And>d es. enc_bus None es = (None, chip_frames (arp_bytes (arp_answer (netif_hwaddr s) (netif_ip_addr s) k))) \<Longrightarrow>
      holds (with_block s p d) p [] 42 (arp_bytes (arp_answer (netif_hwaddr s) (netif_ip_addr s) k)) \<Longrightarrow>
      Q () ((with_block s p d)\<lparr>txbusy := True, trace := trace s @ es\<rparr>)"
  shows "wp (arp_reply E n p) Q H s"
proof -
  let ?k = "arp_answer (netif_hwaddr s) (netif_ip_addr s) k"
  have len: "length (sipaddr k) = 4" "length (shwaddr k) = 6" using at by (simp_all add: arp_at_def arp_fields_def)
  have fin: "wp (linkoutput E n p) (\<lambda>_. Q ()) H (with_block s p d)" if "arp_at (with_block s p d) p [] ?k" for d
  proof (rule wp_linkoutput)
    show "holds (with_block s p d) p [] 42 (arp_bytes ?k)" using that by (simp add: arp_at_def)
    fix es assume "enc_bus None es = (None, chip_frames (arp_bytes ?k))"
    then show "Q () ((with_block s p d)\<lparr>txbusy := True, trace := trace (with_block s p d) @ es\<rparr>)"
      using Q that by (simp add: arp_at_def)
  next
    have "length (arp_bytes ?k) = length (arp_bytes k)"
      using that at by (simp add: arp_at_def arp_bytes_def arp_fields_def) (simp add: arp_answer_def)
    then show "1024 < length (arp_bytes ?k) \<Longrightarrow> Q () (with_block s p d)" using small by simp
  qed (use n in simp)
  have answer: "k\<lparr>opcode := le_bytes 2 (lwip_htons ARP_REPLY), dipaddr := sipaddr k, sipaddr := le_bytes 4 (netif_ip_addr s), dhwaddr := shwaddr k,
      eth_dest := shwaddr k, shwaddr := netif_hwaddr s, eth_src := netif_hwaddr s\<rparr> = ?k"
    by (cases k) (simp add: arp_answer_def be_bytes ARP_REPLY_def)
  show ?thesis
    unfolding arp_reply_def wp_bindM wp_gets wp_thenM
    apply (rule wp_arp_put(8) [OF at], simp, rule wp_arp_get(9), assumption)
    apply (rule wp_arp_put, assumption, simp add: len)+
    apply (rule wp_hwaddr_len_ok, simp add: hw, rule wp_arp_get(8), assumption)
    apply (rule wp_arp_put, assumption, simp add: len, rule wp_arp_get(8), assumption)
    apply (rule wp_arp_put, assumption, simp add: len hw)+
    subgoal premises prems for d1 d2 d3 d4 d5 d6 d7
      using fin [of d7] prems(7) by (simp add: answer)
    done
qed

text \<open>A well-formed request for the address \<open>ip\<close>.\<close>

definition request_for :: "u32 \<Rightarrow> arp_pkt \<Rightarrow> bool" where
  "request_for ip k \<longleftrightarrow> arp_fields k \<and> eth_type k = [8, 6] \<and> hwtype k = [0, 1] \<and> proto k = [8, 0] \<and> hwlen k = [6] \<and>
     protolen k = [4] \<and> opcode k = [0, 1] \<and> dipaddr k = le_bytes 4 ip"

lemma wire_words:
  "le_word [8, 6] = lwip_htons ETHTYPE_ARP" "le_word [8, 0] = lwip_htons ETHTYPE_IP" "le_word [0, 1] = lwip_htons HWTYPE_ETHERNET"
  "le_word [0, 1] = lwip_htons ARP_REQUEST" "le_word [6] = (of_nat ETHARP_HWADDR_LEN :: u8)" "le_word [4] = (4 :: u8)"
  "lwip_htons ETHTYPE_ARP \<noteq> lwip_htons ETHTYPE_IP"
  by (simp_all add: arp_consts lwip_htons_def)

lemma arp_at_cong:
  "arp_at s p ps k \<Longrightarrow> (\<And>q. q \<in> set (p # ps) \<Longrightarrow> pbufs t q = pbufs s q \<and> blocks t q = blocks s q) \<Longrightarrow> arp_at t p ps k"
  unfolding arp_at_def using holds_cong [of s p ps 42 "arp_bytes k" t] by blast

lemma arp_input_answers:
  assumes at: "arp_at s p [] k" and r: "ref (the (pbufs s p)) = 1" and k: "request_for (netif_ip_addr s) k"
    and small: "length (arp_bytes k) \<le> 1024" and n: "1 < n"
    and s: "table_ok (arp_table s)" "no_queues (arp_table s)" "length (netif_hwaddr s) = 6" "netif_ip_addr s \<noteq> IPADDR_ANY"
    and a: "host_addr (le_word (sipaddr k))" "\<not> ip4_addr_isbroadcast (le_word (sipaddr k)) s"
    and Q: "\<And>i es. i < ARP_TABLE_SIZE \<Longrightarrow> only_at (arp_table s) i (le_word (sipaddr k)) \<Longrightarrow>
      enc_bus None es = (None, chip_frames (arp_bytes (arp_answer (netif_hwaddr s) (netif_ip_addr s) k))) \<Longrightarrow>
      Q () (s\<lparr>arp_table := (arp_table s)[i := learned (le_word (sipaddr k)) (shwaddr k) (arp_table s ! i)],
        pbufs := (pbufs s)(p := None), blocks := (blocks s)(p := None), txbusy := True, trace := trace s @ es\<rparr>)"
  shows "wp (etharp_arp_input E n p) Q H s"
proof -
  have hd: "holds s p [] 42 (arp_bytes k)" using at by (simp add: arp_at_def)
  obtain b where b: "pbufs s p = Some b" "42 \<le> unat (len b)" using holds_head [OF hd] by metis
  have dst: "le_word (dipaddr k) = netif_ip_addr s" using k by (simp add: request_for_def)
  have nl: "\<not> unat (len b) < SIZEOF_ETHARP_PACKET" using b(2) by (simp add: arp_consts)
  have hdr: "\<not> (le_word (hwtype k) \<noteq> lwip_htons HWTYPE_ETHERNET \<or> le_word (hwlen k) \<noteq> (of_nat ETHARP_HWADDR_LEN :: u8) \<or>
      le_word (protolen k) \<noteq> (4 :: u8) \<or> le_word (proto k) \<noteq> lwip_htons ETHTYPE_IP)"
    and op: "le_word (opcode k) = lwip_htons ARP_REQUEST"
    using k wire_words by (simp_all add: request_for_def del: le_word.simps)
  have us: "\<not> ip_addr_isany (netif_ip_addr s) \<and> le_word (dipaddr k) = netif_ip_addr s" using dst s(4) by (simp add: ip_addr_isany_def)
  have finish: "wp (arp_reply E n p) (\<lambda>_. wp (pbuf_free n p) (\<lambda>_. Q ()) H) H (s\<lparr>arp_table := (arp_table s)[i := learned (le_word (sipaddr k)) (shwaddr k) (arp_table s ! i)]\<rparr>)"
    if i: "i < ARP_TABLE_SIZE" "only_at (arp_table s) i (le_word (sipaddr k))" for i
  proof (rule reply_wp)
    let ?u = "s\<lparr>arp_table := (arp_table s)[i := learned (le_word (sipaddr k)) (shwaddr k) (arp_table s ! i)]\<rparr>"
    show "arp_at ?u p [] k" by (rule arp_at_cong [OF at]) simp
    fix d es
    let ?c = "arp_bytes (arp_answer (netif_hwaddr ?u) (netif_ip_addr ?u) k)"
    let ?v = "(with_block ?u p d)\<lparr>txbusy := True, trace := trace ?u @ es\<rparr>"
    assume es: "enc_bus None es = (None, chip_frames ?c)" and hv: "holds (with_block ?u p d) p [] 42 ?c"
    have v: "?v\<lparr>pbufs := (pbufs ?v)(p := None), blocks := (blocks ?v)(p := None)\<rparr> =
        s\<lparr>arp_table := (arp_table s)[i := learned (le_word (sipaddr k)) (shwaddr k) (arp_table s ! i)],
        pbufs := (pbufs s)(p := None), blocks := (blocks s)(p := None), txbusy := True, trace := trace s @ es\<rparr>"
      by (cases s) (simp add: with_block_def)
    show "wp (pbuf_free n p) (\<lambda>_. Q ()) H ?v"
    proof (rule wp_free_one)
      show "holds ?v p [] 42 ?c" by (rule holds_cong [OF hv]) simp
      show "Q () (?v\<lparr>pbufs := (pbufs ?v)(p := None), blocks := (blocks ?v)(p := None)\<rparr>)"
        unfolding v by (rule Q [OF i]) (use es in simp)
    qed (use r n in simp_all)
  qed (use s n small in simp_all)
  show ?thesis
    unfolding etharp_arp_input_def Let_def wp_bindM
    apply (rule wp_deref [OF b(1)], unfold if_not_P [OF nl] wp_bindM)
    apply (rule wp_arp_get(3) [OF at], rule wp_arp_get(4) [OF at], rule wp_arp_get(5) [OF at], rule wp_arp_get(6) [OF at])
    apply (unfold if_not_P [OF hdr] wp_bindM)
    apply (rule wp_arp_get(9) [OF at], rule wp_arp_get(10) [OF at], rule wp_arp_get(8) [OF at])
    apply (unfold wp_gets wp_thenM wp_bindM if_P [OF us])
    apply (rule update_unqueued [OF s(1-3) a])
    subgoal premises prems for i
      by (rule wp_arp_get(7) [OF arp_at_cong [OF at]], simp, unfold if_P [OF op])
        (use finish [OF prems(1,2)] us in simp)
    done
qed

section \<open>Looking up\<close>

lemma find_entry_at:
  assumes "table_ok (arp_table s)" and "i < ARP_TABLE_SIZE" and "live (arp_table s ! i)" and "arp_ipaddr (arp_table s ! i) = a"
    and "Q (int i) s"
  shows "wp (etharp_find_entry n (Some a) fl) Q H s"
proof (rule find_entry_wp [where F = "\<lambda>_. False", OF assms(1)])
  fix k assume k: "k < ARP_TABLE_SIZE" "live (arp_table s ! k)" "arp_ipaddr (arp_table s ! k) = a"
  then have "k = i" using table_ok_only [OF assms(1,2,3)] assms(1,4) by (auto simp: only_at_def table_ok_def)
  then show "Q (int k) s" using assms(5) by simp
qed (use assms(1-4) in \<open>auto simp: table_ok_def\<close>)

lemma find_addr_at:
  assumes "table_ok (arp_table s)" and "i < ARP_TABLE_SIZE" and "stable_e (arp_table s ! i)"
  shows "etharp_find_addr n (arp_ipaddr (arp_table s ! i)) s = Ret (Some (i, arp_ethaddr (arp_table s ! i), arp_ipaddr (arp_table s ! i))) s"
proof -
  have "wp (etharp_find_addr n (arp_ipaddr (arp_table s ! i)))
      (\<lambda>x t. x = Some (i, arp_ethaddr (arp_table s ! i), arp_ipaddr (arp_table s ! i)) \<and> t = s) (\<lambda>_ _. False) s"
    unfolding etharp_find_addr_def wp_bindM
    by (rule find_entry_at [OF assms(1,2)]) (use assms kinds(1) in \<open>auto simp: wp_entry stable_e_def table_ok_def\<close>)
  then show ?thesis by (simp add: wp_eq_Ret)
qed

section \<open>A request for our address\<close>

lemma holds_flags:
  assumes "holds s p ps m c" and "pbufs s p = Some b"
  shows "holds (s\<lparr>pbufs := (pbufs s)(p \<mapsto> b\<lparr>flags := f\<rparr>)\<rparr>) p ps m c"
proof -
  define hp where "hp = (pbufs s)(p \<mapsto> b\<lparr>flags := f\<rparr>)"
  have the: "len (the (hp q)) = len (the (pbufs s q))" "tot_len (the (hp q)) = tot_len (the (pbufs s q))"
    "payload (the (hp q)) = payload (the (pbufs s q))" "ref (the (hp q)) = ref (the (pbufs s q))" for q
    using assms(2) by (simp_all add: hp_def fun_upd_apply)
  have sel: "pbufs (s\<lparr>pbufs := hp\<rparr>) = hp" "blocks (s\<lparr>pbufs := hp\<rparr>) = blocks s" by simp_all
  have "chain hp p (p # ps) = chain (pbufs s) p (p # ps)"
    by (rule chain_cong) (use assms(2) in \<open>simp add: hp_def fun_upd_apply\<close>)
  moreover have "tots hp 0 (p # ps) = tots (pbufs s) 0 (p # ps)" by (rule tots_cong) (simp add: the)
  moreover have "bytes_at hp (blocks s) = bytes_at (pbufs s) (blocks s)" by (simp add: bytes_at_def fun_eq_iff the)
  ultimately show ?thesis
    using assms(1) unfolding hp_def [symmetric] holds_def packet_def own_payload_def payload_ok_def content_def by (simp only: the sel) blast
qed

lemma broadcast_cong:
  "netif_flags t = netif_flags s \<Longrightarrow> netif_ip_addr t = netif_ip_addr s \<Longrightarrow> netif_netmask t = netif_netmask s \<Longrightarrow>
   ip4_addr_isbroadcast a t = ip4_addr_isbroadcast a s"
  unfolding ip4_addr_isbroadcast_def by (simp only:)

lemma ethernet_input_answers:
  assumes at: "arp_at s p [] k" and r: "ref (the (pbufs s p)) = 1" and k: "request_for (netif_ip_addr s) k"
    and small: "length (arp_bytes k) \<le> 1024" and n: "1 < n" and up: "netif_flags s AND NETIF_FLAG_ETHARP \<noteq> 0"
    and s: "table_ok (arp_table s)" "no_queues (arp_table s)" "length (netif_hwaddr s) = 6" "netif_ip_addr s \<noteq> IPADDR_ANY"
    and a: "host_addr (le_word (sipaddr k))" "\<not> ip4_addr_isbroadcast (le_word (sipaddr k)) s"
    and Q: "\<And>i es. i < ARP_TABLE_SIZE \<Longrightarrow> only_at (arp_table s) i (le_word (sipaddr k)) \<Longrightarrow>
      enc_bus None es = (None, chip_frames (arp_bytes (arp_answer (netif_hwaddr s) (netif_ip_addr s) k))) \<Longrightarrow>
      Q ERR_OK (s\<lparr>arp_table := (arp_table s)[i := learned (le_word (sipaddr k)) (shwaddr k) (arp_table s ! i)],
        pbufs := (pbufs s)(p := None), blocks := (blocks s)(p := None), txbusy := True, trace := trace s @ es\<rparr>)"
  shows "wp (ethernet_input E n ip_input p) Q H s"
proof -
  have hd: "holds s p [] 42 (arp_bytes k)" and f: "arp_fields k" using at by (simp_all add: arp_at_def)
  obtain b where b: "pbufs s p = Some b" "42 \<le> unat (len b)" using holds_head [OF hd] by metis
  have nl: "\<not> unat (len b) \<le> SIZEOF_ETH_HDR" using b(2) by (simp add: arp_consts)
  have ty: "le_word (eth_type k) \<noteq> lwip_htons ETHTYPE_IP" "le_word (eth_type k) = lwip_htons ETHTYPE_ARP"
    using k wire_words by (simp_all add: request_for_def del: le_word.simps)
  have arp: "wp (etharp_arp_input E n p) (\<lambda>_. Q ERR_OK) H (s\<lparr>pbufs := (pbufs s)(p \<mapsto> b\<lparr>flags := g\<rparr>)\<rparr>)" for g
  proof (rule arp_input_answers)
    let ?u = "s\<lparr>pbufs := (pbufs s)(p \<mapsto> b\<lparr>flags := g\<rparr>)\<rparr>"
    show "arp_at ?u p [] k" using holds_flags [OF hd b(1)] f by (simp add: arp_at_def)
    show "\<not> ip4_addr_isbroadcast (le_word (sipaddr k)) ?u" using a(2) broadcast_cong [of ?u s] by simp
    fix i es assume "i < ARP_TABLE_SIZE" "only_at (arp_table ?u) i (le_word (sipaddr k))"
      "enc_bus None es = (None, chip_frames (arp_bytes (arp_answer (netif_hwaddr ?u) (netif_ip_addr ?u) k)))"
    then show "Q ERR_OK (?u\<lparr>arp_table := (arp_table ?u)[i := learned (le_word (sipaddr k)) (shwaddr k) (arp_table ?u ! i)],
        pbufs := (pbufs ?u)(p := None), blocks := (blocks ?u)(p := None), txbusy := True, trace := trace ?u @ es\<rparr>)"
      using Q [of i es] by simp
  qed (use r b(1) k small n s a(1) in simp_all)
  have same: "s\<lparr>pbufs := (pbufs s)(p \<mapsto> b\<lparr>flags := flags b\<rparr>)\<rparr> = s" using b(1) by (simp add: fun_upd_idem)
  have rest: "wp (bindM (gets netif_flags) (\<lambda>nf.
           if le_word (eth_type k) = lwip_htons ETHTYPE_IP then X nf
           else if le_word (eth_type k) = lwip_htons ETHTYPE_ARP then
             (if nf AND NETIF_FLAG_ETHARP = 0 then Y else thenM (etharp_arp_input E n p) (ret ERR_OK))
           else Z)) Q H (s\<lparr>pbufs := (pbufs s)(p \<mapsto> b\<lparr>flags := g\<rparr>)\<rparr>)" for g X Y Z
    using arp up ty by simp
  show ?thesis
    unfolding ethernet_input_def Let_def wp_bindM [of "deref p"]
    apply (rule wp_deref [OF b(1)], unfold if_not_P [OF nl] wp_bindM [of "get_field _ _ _"])
    apply (rule wp_arp_get(2) [OF at], rule wp_arp_get(1) [OF at])
    apply (unfold wp_thenM [of "whenM _ _"] wp_whenM)
    using rest [where g = "flags b", unfolded same] rest
    by (simp add: wp_def [of "store _ _"] b(1) del: wp_bindM)
qed

lemma table_ok_learned:
  "table_ok tab \<Longrightarrow> only_at tab i a \<Longrightarrow> host_addr a \<Longrightarrow> length mac = 6 \<Longrightarrow> table_ok (tab[i := learned a mac e])"
  by (rule table_ok_upd) (simp_all add: entry_ok_learned)

lemma learned_stable [simp]: "stable_e (learned a mac e)" "arp_ethaddr (learned a mac e) = mac"
  by (simp_all add: learned_def stable_e_def at_least_stable_def)

text \<open>
  C30. A host that asks for the address of the amplifier gets its answer: the frame that goes to the Ethernet chip is the request with
  the addresses exchanged and the hardware address filled in, the host is in the table from then on, and the buffer of the
  request is given back.
\<close>

theorem arp_request_is_answered:
  assumes "arp_ok s" and "no_queues (arp_table s)" and "length (netif_hwaddr s) = 6" and "netif_ip_addr s \<noteq> IPADDR_ANY"
    and "netif_flags s AND NETIF_FLAG_ETHARP \<noteq> 0" and "holds s p [] 42 (arp_bytes k)" and "ref (the (pbufs s p)) = 1"
    and "request_for (netif_ip_addr s) k" and "length (arp_bytes k) \<le> 1024" and "1 < n"
    and "host_addr (le_word (sipaddr k))" and "\<not> ip4_addr_isbroadcast (le_word (sipaddr k)) s"
  shows "\<exists>t es i. ethernet_input E n ip_input p s = Ret ERR_OK t \<and> trace t = trace s @ es \<and>
    enc_bus None es = (None, chip_frames (arp_bytes (arp_answer (netif_hwaddr s) (netif_ip_addr s) k))) \<and>
    pbufs t = (pbufs s)(p := None) \<and> blocks t = (blocks s)(p := None) \<and>
    etharp_find_addr n (le_word (sipaddr k)) t = Ret (Some (i, shwaddr k, le_word (sipaddr k))) t"
proof -
  let ?a = "le_word (sipaddr k)"
  have k: "arp_fields k" "length (shwaddr k) = 6" using assms(8) by (simp_all add: request_for_def arp_fields_def)
  have tab: "table_ok (arp_table s)" using assms(1) by (simp add: arp_ok_def)
  have at: "arp_at s p [] k" using assms(6) k(1) by (simp add: arp_at_def)
  have "wp (ethernet_input E n ip_input p) (\<lambda>r t. r = ERR_OK \<and> (\<exists>es i. trace t = trace s @ es \<and>
    enc_bus None es = (None, chip_frames (arp_bytes (arp_answer (netif_hwaddr s) (netif_ip_addr s) k))) \<and>
    pbufs t = (pbufs s)(p := None) \<and> blocks t = (blocks s)(p := None) \<and>
    etharp_find_addr n ?a t = Ret (Some (i, shwaddr k, ?a)) t)) (\<lambda>_ _. False) s"
  proof (rule ethernet_input_answers [OF at assms(7,8,9,10,5) tab assms(2,3,4,11,12)], goal_cases)
    case (1 i es)
    let ?t = "s\<lparr>arp_table := (arp_table s)[i := learned ?a (shwaddr k) (arp_table s ! i)],
        pbufs := (pbufs s)(p := None), blocks := (blocks s)(p := None), txbusy := True, trace := trace s @ es\<rparr>"
    have i: "i < length (arp_table s)" using 1(1) tab by (simp add: table_ok_def)
    have "table_ok (arp_table ?t)" using table_ok_learned [OF tab 1(2) assms(11) k(2)] by simp
    then have "etharp_find_addr n ?a ?t = Ret (Some (i, shwaddr k, ?a)) ?t"
      using find_addr_at [of ?t i n] 1(1) i by simp
    then show ?case using 1(3) by (intro conjI exI [of _ es] exI [of _ i]) simp_all
  qed
  then show ?thesis unfolding wp_total_ex by blast
qed

section \<open>The table as a map\<close>

text \<open>The hardware addresses the table knows.\<close>

definition known :: "etharp_entry list \<Rightarrow> u32 \<Rightarrow> u8 list option" where
  "known tab a = map_option arp_ethaddr (List.find (\<lambda>e. stable_e e \<and> arp_ipaddr e = a) tab)"

lemma known_at:
  assumes "table_ok tab" and "i < ARP_TABLE_SIZE" and "stable_e (tab ! i)"
  shows "known tab (arp_ipaddr (tab ! i)) = Some (arp_ethaddr (tab ! i))"
proof -
  let ?P = "\<lambda>e. stable_e e \<and> arp_ipaddr e = arp_ipaddr (tab ! i)"
  have len: "i < length tab" using assms(1,2) by (simp add: table_ok_def)
  then have "tab ! i \<in> set tab" by simp
  then have "List.find ?P tab \<noteq> None" using assms(3) by (auto simp: find_None_iff)
  then obtain e where e: "List.find ?P tab = Some e" by blast
  then obtain j where j: "j < length tab" "?P (tab ! j)" "e = tab ! j" unfolding find_Some_iff by blast
  then have "j = i"
    using table_ok_only [OF assms(1,2)] assms(3) kinds(1) unfolding only_at_def by blast
  then show ?thesis using e j by (simp add: known_def)
qed

lemma known_None: "known tab a = None \<longleftrightarrow> (\<forall>e \<in> set tab. stable_e e \<longrightarrow> arp_ipaddr e \<noteq> a)"
  by (auto simp: known_def find_None_iff)

text \<open>What a lookup answers: the hardware address, when there is one.\<close>

abbreviation mac_of :: "(nat \<times> u8 list \<times> u32) option \<Rightarrow> u8 list option" where
  "mac_of \<equiv> map_option (\<lambda>(i, mac, ip). mac)"

lemma find_addr_known:
  assumes "table_ok (arp_table s)"
  shows "\<exists>r. etharp_find_addr n a s = Ret r s \<and> mac_of r = known (arp_table s) a"
proof -
  have "wp (etharp_find_addr n a) (\<lambda>r t. t = s \<and> mac_of r = known (arp_table s) a) (\<lambda>_ _. False) s"
    unfolding etharp_find_addr_def wp_bindM
  proof (rule find_entry_wp [where F = "\<lambda>_. False", OF assms], goal_cases)
    case (1 k)
    have "\<not> stable_e (arp_table s ! k) \<Longrightarrow> known (arp_table s) a = None"
    proof -
      assume ns: "\<not> stable_e (arp_table s ! k)"
      have "arp_ipaddr (arp_table s ! j) \<noteq> a" if j: "j < length (arp_table s)" "stable_e (arp_table s ! j)" for j
        using table_ok_only [OF assms 1(1,2)] 1(3) ns j kinds(1) unfolding only_at_def by metis
      then show ?thesis unfolding known_None by (metis in_set_conv_nth)
    qed
    then show ?case
      using 1 known_at [OF assms 1(1)] assms by (auto simp: wp_entry table_ok_def stable_e_def)
  next
    case 2
    then have "known (arp_table s) a = None" using kinds(1) unfolding known_None by blast
    then show ?case by (simp add: ERR_MEM_def)
  qed (simp_all add: arp_consts)
  then show ?thesis unfolding wp_total_ex by blast
qed

lemma known_learned:
  assumes "table_ok tab" and "only_at tab k a" and "k < ARP_TABLE_SIZE" and "host_addr a" and "length mac = 6"
  shows "known (tab[k := learned a mac (tab ! k)]) b =
    (if b = a then Some mac else if live (tab ! k) \<and> arp_ipaddr (tab ! k) = b then None else known tab b)"
proof -
  let ?tab = "tab[k := learned a mac (tab ! k)]"
  have ok: "table_ok ?tab" by (rule table_ok_learned [OF assms(1,2,4,5)])
  have len: "length tab = ARP_TABLE_SIZE" using assms(1) by (simp add: table_ok_def)
  have at: "known ?tab a = Some mac" using known_at [OF ok assms(3)] assms(3) len by simp
  show ?thesis
  proof (cases "b = a")
    case False
    show ?thesis
    proof (cases "known ?tab b")
      case None
      then have none: "\<not> (stable_e (?tab ! j) \<and> arp_ipaddr (?tab ! j) = b)" if "j < ARP_TABLE_SIZE" for j
        using that len unfolding known_None by (metis length_list_update nth_mem)
      have "known tab b = None \<or> live (tab ! k) \<and> arp_ipaddr (tab ! k) = b"
        unfolding known_None all_nth [OF len] using none kinds(1) len by (metis nth_list_update_neq)
      then show ?thesis using None False by auto
    next
      case (Some m)
      then obtain j where j: "j < ARP_TABLE_SIZE" "stable_e (?tab ! j)" "arp_ipaddr (?tab ! j) = b" "m = arp_ethaddr (?tab ! j)"
        using len by (auto simp: known_def find_Some_iff)
      have jk: "j \<noteq> k" using j(1,3) False len by auto
      then have "known tab b = Some m" using known_at [OF assms(1) j(1)] j by simp
      moreover have "\<not> (live (tab ! k) \<and> arp_ipaddr (tab ! k) = b)"
        using table_ok_only [OF assms(1) assms(3)] jk j len kinds(1) unfolding only_at_def by (metis nth_list_update_neq)
      ultimately show ?thesis using Some False by auto
    qed
  qed (use at in simp)
qed

text \<open>
  C29. Learning an address is the update of a map from addresses to hardware addresses, with room for three: when the address is new and the
  table is full, one other address is forgotten, the resolved one that was not confirmed for the longest time if there is one.
\<close>

theorem arp_learning_is_map_update:
  assumes "arp_ok s" and "no_queues (arp_table s)" and "length (netif_hwaddr s) = 6"
    and "host_addr a" and "\<not> ip4_addr_isbroadcast a s" and "length mac = 6"
  shows "\<exists>k t. etharp_update_arp_entry E n a mac ETHARP_FLAG_TRY_HARD s = Ret ERR_OK t \<and> arp_ok t \<and>
    (live (arp_table s ! k) \<and> arp_ipaddr (arp_table s ! k) = a \<or> victim (arp_table s) k) \<and>
    (\<forall>b. \<exists>r q. etharp_find_addr n b t = Ret r t \<and> etharp_find_addr n b s = Ret q s \<and>
       mac_of r = (if b = a then Some mac
                   else if live (arp_table s ! k) \<and> arp_ipaddr (arp_table s ! k) = b then None else mac_of q))"
proof -
  have tab: "table_ok (arp_table s)" using assms(1) by (simp add: arp_ok_def)
  have "wp (etharp_update_arp_entry E n a mac ETHARP_FLAG_TRY_HARD) (\<lambda>r t. r = ERR_OK \<and> (\<exists>k. k < ARP_TABLE_SIZE \<and> only_at (arp_table s) k a \<and>
      (live (arp_table s ! k) \<and> arp_ipaddr (arp_table s ! k) = a \<or> victim (arp_table s) k) \<and>
      t = s\<lparr>arp_table := (arp_table s)[k := learned a mac (arp_table s ! k)]\<rparr>)) (\<lambda>_ _. False) s"
    by (rule update_unqueued [OF tab assms(2-5)]) blast
  then obtain k t where run: "etharp_update_arp_entry E n a mac ETHARP_FLAG_TRY_HARD s = Ret ERR_OK t" and k: "k < ARP_TABLE_SIZE"
    "only_at (arp_table s) k a" "live (arp_table s ! k) \<and> arp_ipaddr (arp_table s ! k) = a \<or> victim (arp_table s) k"
    and t: "t = s\<lparr>arp_table := (arp_table s)[k := learned a mac (arp_table s ! k)]\<rparr>"
    unfolding wp_total_ex by blast
  have ok: "table_ok (arp_table t)" using table_ok_learned [OF tab k(2) assms(4,6)] t by simp
  then have "arp_ok t" using assms(1) t by (simp add: arp_ok_def)
  moreover have "\<exists>r q. etharp_find_addr n b t = Ret r t \<and> etharp_find_addr n b s = Ret q s \<and>
       mac_of r = (if b = a then Some mac
                   else if live (arp_table s ! k) \<and> arp_ipaddr (arp_table s ! k) = b then None else mac_of q)" for b
  proof -
    obtain r q where "etharp_find_addr n b t = Ret r t" "mac_of r = known (arp_table t) b"
      "etharp_find_addr n b s = Ret q s" "mac_of q = known (arp_table s) b"
      using find_addr_known [OF ok] find_addr_known [OF tab] by metis
    then show ?thesis using known_learned [OF tab k(2,1) assms(4,6), of b] t by (intro exI [of _ r] exI [of _ q]) simp
  qed
  ultimately show ?thesis using run k(3) by blast
qed

section \<open>An interface to try it on\<close>

text \<open>
  The table after start-up, and the amplifier 192.168.1.10 with the hardware address 02:00:00:00:00:01, which has received a request of the host 192.168.1.20.
\<close>

definition blank_entry :: etharp_entry where
  "blank_entry = \<lparr>arp_q = 0, arp_ipaddr = 0, arp_netif = False, arp_ethaddr = ethzero, arp_ctime = 0, arp_entry_state = ETHARP_STATE_EMPTY\<rparr>"

definition arp_start :: arp_state where
  "arp_start = pbuf_state.extend empty_heap (arp_state.fields (replicate ARP_TABLE_SIZE blank_entry) 0)"

definition asking :: arp_pkt where
  "asking = \<lparr>eth_dest = ethbroadcast, eth_src = [2, 0, 0, 0, 0, 9], eth_type = [8, 6], hwtype = [0, 1], proto = [8, 0], hwlen = [6], protolen = [4],
     opcode = [0, 1], shwaddr = [2, 0, 0, 0, 0, 9], sipaddr = [192, 168, 1, 20], dhwaddr = ethzero, dipaddr = [192, 168, 1, 10], padding = []\<rparr>"

definition asked :: arp_state where
  "asked = arp_start\<lparr>trace := [], netif_hwaddr := [2, 0, 0, 0, 0, 1], netif_ip_addr := 0x0a01a8c0, netif_netmask := 0x00ffffff, netif_flags := NETIF_FLAG_ETHARP,
     pbufs := [4 \<mapsto> \<lparr>pnext = 0, payload = Some (4, 0), tot_len = 42, len = 42, ptype = PBUF_POOL, flags = 0, ref = 1\<rparr>],
     blocks := [4 \<mapsto> arp_bytes asking]\<rparr>"

lemma arp_start_fields [simp]:
  "arp_table arp_start = replicate ARP_TABLE_SIZE blank_entry" "etharp_cached_entry arp_start = 0" "pbufs arp_start = Map.empty"
  "blocks arp_start = Map.empty"
  by (simp_all add: arp_start_def empty_heap_def pbuf_state.extend_def arp_state.fields_def net_state.extend_def pbuf_state.fields_def)

lemma arp_start_ok: "arp_ok arp_start"
  by (simp add: arp_ok_def table_ok_def entry_ok_def blank_entry_def live_def ethzero_def ARP_TABLE_SIZE_def)

lemma asked_ok:
  "arp_ok asked" "no_queues (arp_table asked)" "length (netif_hwaddr asked) = 6" "netif_ip_addr asked = 0x0a01a8c0"
  "netif_flags asked AND NETIF_FLAG_ETHARP \<noteq> 0" "netif_hwaddr asked = [2, 0, 0, 0, 0, 1]" "ref (the (pbufs asked 4)) = 1" "trace asked = []"
  using arp_start_ok
  by (simp_all add: asked_def arp_ok_def no_queues_def blank_entry_def NETIF_FLAG_ETHARP_def)

lemma asked_packet: "holds asked 4 [] 42 (arp_bytes asking)" "length (arp_bytes asking) = 42" "request_for 0x0a01a8c0 asking"
  by (simp_all add: asked_def holds_def packet_def payload_ok_def in_block_def own_payload_def bytes_at_def block_read_def
      arp_bytes_def asking_def ethbroadcast_def ethzero_def request_for_def arp_fields_def le_bytes_4)

lemma asking_host: "host_addr 0x1401a8c0" "\<not> ip4_addr_isbroadcast 0x1401a8c0 asked" "le_word (sipaddr asking) = (0x1401a8c0 :: u32)"
  by (simp_all add: host_addr_def IPADDR_ANY_def IPADDR_BROADCAST_def ip_addr_ismulticast_def ip4_addr_isbroadcast_def asked_def
      NETIF_FLAG_ETHARP_def NETIF_FLAG_BROADCAST_def asking_def lwip_htonl_def)

theorem arp_request_frame_witness:
  "\<exists>r t. etharp_request ideal_env (bump 9) 9 True 0x1401a8c0 asked = Ret r t \<and> (r = ERR_MEM \<or> r = ERR_OK)"
  using arp_request_frame [OF bump_ok _ asked_ok(3), of 9 ideal_env 9 "0x1401a8c0"] by auto

theorem arp_request_is_answered_witness:
  "\<exists>t es i. ethernet_input ideal_env 9 (\<lambda>_. ret ()) 4 asked = Ret ERR_OK t \<and>
    enc_bus None es = (None, chip_frames [2, 0, 0, 0, 0, 9, 2, 0, 0, 0, 0, 1, 8, 6, 0, 1, 8, 0, 6, 4, 0, 2,
      2, 0, 0, 0, 0, 1, 192, 168, 1, 10, 2, 0, 0, 0, 0, 9, 192, 168, 1, 20]) \<and> trace t = es \<and>
    etharp_find_addr 9 0x1401a8c0 t = Ret (Some (i, [2, 0, 0, 0, 0, 9], 0x1401a8c0)) t"
proof -
  have "arp_bytes (arp_answer [2, 0, 0, 0, 0, 1] 0x0a01a8c0 asking) = [2, 0, 0, 0, 0, 9, 2, 0, 0, 0, 0, 1, 8, 6, 0, 1, 8, 0, 6, 4, 0, 2,
      2, 0, 0, 0, 0, 1, 192, 168, 1, 10, 2, 0, 0, 0, 0, 9, 192, 168, 1, 20]"
    by (simp add: arp_bytes_def arp_answer_def asking_def le_bytes_4)
  moreover have "shwaddr asking = [2, 0, 0, 0, 0, 9]" by (simp add: asking_def)
  ultimately show ?thesis
    using arp_request_is_answered [of asked 4 asking 9 ideal_env "\<lambda>_. ret ()"] asked_ok asked_packet asking_host
    by (simp add: IPADDR_ANY_def) blast
qed

theorem arp_learning_is_map_update_witness:
  "\<exists>t r. etharp_update_arp_entry ideal_env 9 0x1401a8c0 [2, 0, 0, 0, 0, 9] ETHARP_FLAG_TRY_HARD asked = Ret ERR_OK t \<and>
    etharp_find_addr 9 0x1401a8c0 t = Ret r t \<and> mac_of r = Some [2, 0, 0, 0, 0, 9]"
proof -
  obtain k t where t: "etharp_update_arp_entry ideal_env 9 0x1401a8c0 [2, 0, 0, 0, 0, 9] ETHARP_FLAG_TRY_HARD asked = Ret ERR_OK t"
    "\<forall>b. \<exists>r q. etharp_find_addr 9 b t = Ret r t \<and> etharp_find_addr 9 b asked = Ret q asked \<and>
       mac_of r = (if b = 0x1401a8c0 then Some [2, 0, 0, 0, 0, 9]
                   else if live (arp_table asked ! k) \<and> arp_ipaddr (arp_table asked ! k) = b then None else mac_of q)"
    using arp_learning_is_map_update [OF asked_ok(1-3) asking_host(1,2), of "[2, 0, 0, 0, 0, 9]" ideal_env 9] by auto
  from spec [OF t(2), of "0x1401a8c0"] t(1) show ?thesis by auto
qed

end
