(* ===== verification/IpInv.thy ===== *)
theory IpInv
  imports Ip4 EtharpRun
begin

text \<open>
  The ARP table under the whole stack: whatever arrives, is sent or times out, in any order, the table stays well formed. The layers
  above IP may call what IP and ARP offer, and change anything else.
\<close>

section \<open>IP keeps the table well formed\<close>

lemma keeps_arp_modify: "(\<And>s. arp_table (f s) = arp_table s \<and> etharp_cached_entry (f s) = etharp_cached_entry s) \<Longrightarrow> keeps_arp (modify f)"
  by (simp add: keeps_arp_def arp_ok_def)

lemma heap_hdr: "keeps heap_run (hdr_get ptr ofs k)" "keeps heap_run (hdr_put ptr ofs bs)"
  unfolding hdr_get_def hdr_put_def by (intro heap_keeps)+

lemma heap_chain_blocks: "keeps heap_run (chain_blocks n p)"
  by (induction n arbitrary: p) (simp_all only: chain_blocks.simps, (intro heap_rules heap_access, assumption?)+)

lemma heap_realloc: "keeps heap_run (pbuf_realloc n p k)"
proof -
  have "keeps heap_run (realloc_loop n p r g)" for p r g
    by (induction n arbitrary: p r) (simp_all only: realloc_loop.simps, (intro heap_rules heap_access, assumption?)+)
  then show ?thesis unfolding pbuf_realloc_def by (intro heap_rules heap_access heap_free heap.keeps_case_prod)
qed

lemma heap_header_force: "keeps heap_run (pbuf_header_force p inc)"
  unfolding pbuf_header_force_def pbuf_header_impl_def by (intro heap_rules heap_access)

lemmas keeps_ip_rules = keeps_arp_rules heap_hdr [THEN keeps_arp_heap] heap_chain_blocks [THEN keeps_arp_heap] heap_realloc [THEN keeps_arp_heap]
  heap_header_force [THEN keeps_arp_heap]

lemma keeps_arp_seqM: "keeps_arp (seqM [])" "keeps_arp m \<Longrightarrow> keeps_arp (seqM ms) \<Longrightarrow> keeps_arp (seqM (m # ms))"
  by (simp_all add: keeps_arp_basic keeps_arp_thenM)

lemma keeps_arp_put_header: "keeps_arp (put_ip_header ptr src dest ttl tos pr tot)"
  unfolding put_ip_header_def by (intro keeps_ip_rules keeps_arp_seqM keeps_arp_modify) simp

lemma keeps_arp_ip_output_if: "keeps_arp (ip_output_if E M n p src dest ttl tos pr)"
  unfolding ip_output_if_def ip_output_if_src_def by (intro keeps_ip_rules keeps_arp_put_header keeps_arp_output)

lemma keeps_arp_ip_output: "keeps_arp (ip_output E M n p src dest ttl tos pr)"
  unfolding ip_output_def ip_route_def by (intro keeps_ip_rules keeps_arp_ip_output_if)

lemma keeps_arp_unreach: "keeps_arp (icmp_dest_unreach E M n p t)"
  unfolding icmp_dest_unreach_def icmp_send_response_def by (intro keeps_ip_rules keeps_arp_seqM keeps_arp_ip_output)

lemma keeps_arp_case_prod: "(\<And>x y. keeps_arp (f x y)) \<Longrightarrow> keeps_arp (case v of (x, y) \<Rightarrow> f x y)"
  by (cases v) simp

lemma keeps_arp_icmp_input: "keeps_arp (icmp_input E M n p)"
  unfolding icmp_input_def echo_room_def echo_reply_def Let_def
  by (intro keeps_ip_rules keeps_arp_case_prod keeps_arp_ip_output_if)

lemma keeps_arp_ip_input:
  assumes "\<And>p. keeps_arp (raw_input p)" and "\<And>p. keeps_arp (udp_input p)" and "\<And>p. keeps_arp (tcp_input p)"
  shows "keeps_arp (ip_input E M n raw_input udp_input tcp_input p)"
proof -
  have "keeps_arp (ip_deliver E M n udp_input tcp_input p ptr h)" for ptr h
    unfolding ip_deliver_def Let_def by (intro keeps_ip_rules assms keeps_arp_icmp_input keeps_arp_unreach)
  moreover have "keeps_arp (accept_packet ptr h d)" for ptr h d
    unfolding accept_packet_def by (intro keeps_ip_rules)
  ultimately show ?thesis
    unfolding ip_input_def Let_def by (intro keeps_ip_rules keeps_arp_case_prod keeps_arp_modify assms) simp_all
qed

section \<open>Reachable states\<close>

text \<open>What the layers above do to the table: nothing but call the functions of IP and ARP.\<close>

inductive arp_calls :: "env \<Rightarrow> malloc \<Rightarrow> nat \<Rightarrow> 'z ip_state_scheme \<Rightarrow> 'z ip_state_scheme \<Rightarrow> bool" for E M n where
  calls_none: "arp_calls E M n s s"
| calls_other: "arp_calls E M n s t \<Longrightarrow> arp_table u = arp_table t \<Longrightarrow> etharp_cached_entry u = etharp_cached_entry t \<Longrightarrow> arp_calls E M n s u"
| calls_output: "arp_calls E M n s t \<Longrightarrow> ip_output E M n p src dest ttl tos pr t = Ret r u \<Longrightarrow> arp_calls E M n s u"
| calls_output_if: "arp_calls E M n s t \<Longrightarrow> ip_output_if E M n p src d ttl tos pr t = Ret r u \<Longrightarrow> arp_calls E M n s u"
| calls_unreach: "arp_calls E M n s t \<Longrightarrow> icmp_dest_unreach E M n p c t = Ret x u \<Longrightarrow> arp_calls E M n s u"
| calls_query: "arp_calls E M n s t \<Longrightarrow> etharp_query E M n a q t = Ret r u \<Longrightarrow> arp_calls E M n s u"

definition only_calls :: "env \<Rightarrow> malloc \<Rightarrow> nat \<Rightarrow> (addr \<Rightarrow> ('z ip_state_scheme, 'a) prog) \<Rightarrow> bool" where
  "only_calls E M n f \<longleftrightarrow> (\<forall>p s x t. f p s = Ret x t \<longrightarrow> arp_calls E M n s t)"

lemma keeps_arp_Ret: "keeps_arp m \<Longrightarrow> arp_ok s \<Longrightarrow> m s = Ret x t \<Longrightarrow> arp_ok t"
  using keeps_arpD [of m s] by (auto dest: wp_RetD)

lemma arp_calls_ok: "arp_calls E M n s t \<Longrightarrow> arp_ok s \<Longrightarrow> arp_ok t"
proof (induction rule: arp_calls.induct)
  case (calls_other s t u)
  then show ?case by (simp add: arp_ok_def)
next
  case (calls_output s t p src dest ttl tos pr r u)
  then show ?case using keeps_arp_Ret [OF keeps_arp_ip_output] by blast
next
  case (calls_output_if s t p src d ttl tos pr r u)
  then show ?case using keeps_arp_Ret [OF keeps_arp_ip_output_if] by blast
next
  case (calls_unreach s t p c x u)
  then show ?case using keeps_arp_Ret [OF keeps_arp_unreach] by blast
next
  case (calls_query s t a q r u)
  then show ?case using keeps_arp_Ret [OF keeps_arp_query] by blast
qed

lemma only_calls_keeps:
  fixes f :: "addr \<Rightarrow> ('z ip_state_scheme, 'a) prog"
  shows "only_calls E M n f \<Longrightarrow> keeps_arp (f p)"
proof (rule keeps_arpI)
  fix s :: "'z ip_state_scheme"
  assume "only_calls E M n f" and ok: "arp_ok s"
  then have "arp_ok t" if "f p s = Ret x t" for x t
    using that arp_calls_ok [OF _ ok] unfolding only_calls_def by blast
  then show "returns_with (f p) (\<lambda>_ t. arp_ok t) s"
    unfolding wp_def by (cases "f p s") auto
qed

inductive stack_reach ::
  "env \<Rightarrow> malloc \<Rightarrow> nat \<Rightarrow> (addr \<Rightarrow> ('z ip_state_scheme, u8) prog) \<Rightarrow> (addr \<Rightarrow> ('z ip_state_scheme, unit) prog)
     \<Rightarrow> (addr \<Rightarrow> ('z ip_state_scheme, unit) prog) \<Rightarrow> 'z ip_state_scheme \<Rightarrow> 'z ip_state_scheme \<Rightarrow> bool"
  for E M n raw_input udp_input tcp_input s\<^sub>0 where
  reach_start: "stack_reach E M n raw_input udp_input tcp_input s\<^sub>0 s\<^sub>0"
| reach_input: "stack_reach E M n raw_input udp_input tcp_input s\<^sub>0 s \<Longrightarrow> stack_input E M n raw_input udp_input tcp_input p s = Ret r t \<Longrightarrow>
    stack_reach E M n raw_input udp_input tcp_input s\<^sub>0 t"
| reach_timer: "stack_reach E M n raw_input udp_input tcp_input s\<^sub>0 s \<Longrightarrow> etharp_tmr E M n s = Ret x t \<Longrightarrow>
    stack_reach E M n raw_input udp_input tcp_input s\<^sub>0 t"
| reach_cleanup: "stack_reach E M n raw_input udp_input tcp_input s\<^sub>0 s \<Longrightarrow> etharp_cleanup_netif n s = Ret x t \<Longrightarrow>
    stack_reach E M n raw_input udp_input tcp_input s\<^sub>0 t"
| reach_above: "stack_reach E M n raw_input udp_input tcp_input s\<^sub>0 s \<Longrightarrow> arp_calls E M n s t \<Longrightarrow>
    stack_reach E M n raw_input udp_input tcp_input s\<^sub>0 t"

lemma keeps_arp_stack:
  assumes "only_calls E M n raw_input" and "only_calls E M n udp_input" and "only_calls E M n tcp_input"
  shows "keeps_arp (stack_input E M n raw_input udp_input tcp_input p)"
  unfolding stack_input_def
proof (rule keeps_arp_ethernet, rule keeps_arp_thenM)
  show "keeps_arp (ip_input E M n raw_input udp_input tcp_input p)" for p
    by (rule keeps_arp_ip_input; rule only_calls_keeps; rule assms)
qed (rule keeps_arp_basic)

lemma stack_reach_ok:
  assumes "stack_reach E M n raw_input udp_input tcp_input s\<^sub>0 t" and "arp_ok s\<^sub>0"
    and "only_calls E M n raw_input" and "only_calls E M n udp_input" and "only_calls E M n tcp_input"
  shows "arp_ok t"
  using assms(1,2)
proof (induction rule: stack_reach.induct)
  case (reach_input s p r t)
  have "keeps_arp (stack_input E M n raw_input udp_input tcp_input p)"
    by (rule keeps_arp_stack [OF assms(3-5)])
  then show ?case using reach_input(2) reach_input(3) [OF assms(2)] keeps_arp_Ret by metis
next
  case (reach_timer s x t)
  then show ?case using keeps_arp_Ret [OF keeps_arp_tmr] by blast
next
  case (reach_cleanup s x t)
  then show ?case using keeps_arp_Ret [OF keeps_arp_cleanup] by blast
next
  case (reach_above s t)
  then show ?case using arp_calls_ok by blast
qed

text \<open>
  C36. In every state the stack can reach, with packets arriving, the timer running, the interface going away and the layers above
  sending, in any order: the ARP table has its three entries and the cached index points into it, hardware addresses
  have six bytes, no two entries in use are for the same address, none is for the address 0.0.0.0, the limited broadcast address 255.255.255.255
  or a multicast address (the broadcast address of the subnet is not excluded: the interface does not have the broadcast flag), only an entry that is
  still being resolved has a packet queued, and no entry is older than its limit.
\<close>

theorem arp_table_wellformed:
  assumes "stack_reach E M n raw_input udp_input tcp_input s\<^sub>0 t" and "arp_ok s\<^sub>0"
    and "only_calls E M n raw_input" and "only_calls E M n udp_input" and "only_calls E M n tcp_input"
  shows "length (arp_table t) = 3 \<and> unat (etharp_cached_entry t) < 3 \<and>
    (\<forall>i j. i < 3 \<and> j < 3 \<and> live (arp_table t ! i) \<and> live (arp_table t ! j) \<and> arp_ipaddr (arp_table t ! i) = arp_ipaddr (arp_table t ! j) \<longrightarrow> i = j) \<and>
    (\<forall>e \<in> set (arp_table t). length (arp_ethaddr e) = 6 \<and> (arp_q e \<noteq> 0 \<longrightarrow> arp_entry_state e = ETHARP_STATE_PENDING) \<and>
       (live e \<longrightarrow> arp_ipaddr e \<noteq> IPADDR_ANY \<and> arp_ipaddr e \<noteq> IPADDR_BROADCAST \<and> \<not> ip_addr_ismulticast (arp_ipaddr e) \<and> arp_ctime e < 1200) \<and>
       (arp_entry_state e = ETHARP_STATE_PENDING \<longrightarrow> arp_ctime e < 5))"
proof -
  have "arp_ok t" by (rule stack_reach_ok [OF assms])
  then have tab: "table_ok (arp_table t)" "unat (etharp_cached_entry t) < 3" by (simp_all add: arp_ok_def ARP_TABLE_SIZE_def)
  then have len: "length (arp_table t) = 3" by (simp add: table_ok_def ARP_TABLE_SIZE_def)
  have "i = j" if "i < 3" "j < 3" "live (arp_table t ! i)" "live (arp_table t ! j)" "arp_ipaddr (arp_table t ! i) = arp_ipaddr (arp_table t ! j)" for i j
    using table_ok_only [OF tab(1), of i] that len unfolding only_at_def ARP_TABLE_SIZE_def by metis
  moreover have "entry_ok e \<and> (arp_q e \<noteq> 0 \<longrightarrow> arp_entry_state e = ETHARP_STATE_PENDING)" if "e \<in> set (arp_table t)" for e
    using tab(1) that by (auto simp: table_ok_def entry_ok_def)
  ultimately show ?thesis
    by (intro conjI ballI allI impI)
      (use tab(2) len in \<open>simp_all add: entry_ok_def host_addr_def ARP_MAXAGE_def ARP_MAXPENDING_def\<close>)
qed

text \<open>The stack after start-up, with the request of \<open>EtharpRun\<close> in a buffer.\<close>

definition ip_asked :: ip_state where
  "ip_asked = arp_state.extend asked (ip_state.fields 0 False None 0 0 0)"

lemma ip_asked_fields [simp]:
  "arp_table ip_asked = arp_table asked" "etharp_cached_entry ip_asked = etharp_cached_entry asked" "pbufs ip_asked = pbufs asked"
  "blocks ip_asked = blocks asked" "netif_flags ip_asked = netif_flags asked" "netif_ip_addr ip_asked = netif_ip_addr asked"
  "netif_netmask ip_asked = netif_netmask asked" "netif_hwaddr ip_asked = netif_hwaddr asked" "trace ip_asked = trace asked"
  by (simp_all add: ip_asked_def arp_state.extend_def ip_state.fields_def)

lemma ip_asked_ok: "arp_ok ip_asked"
  using asked_ok(1) by (simp add: arp_ok_def)

text \<open>Layers above that drop every packet.\<close>

lemma dropping_calls: "only_calls E M n (\<lambda>p. thenM (pbuf_free n p) (ret x) :: ('z ip_state_scheme, 'a) prog)"
proof (unfold only_calls_def, intro allI impI)
  fix p :: addr and s t :: "'z ip_state_scheme" and y :: 'a
  assume "thenM (pbuf_free n p) (ret x) s = Ret y t"
  moreover have "keeps heap_run (thenM (pbuf_free n p) (ret x) :: ('z ip_state_scheme, 'a) prog)" by (intro heap_rules heap_free)
  ultimately have "heap_run s t" by (metis keepsD wp_RetD)
  then show "arp_calls E M n s t" using heap_run_table calls_other [OF calls_none] by metis
qed

theorem arp_table_wellformed_witness:
  "\<exists>t r. stack_input ideal_env (bump 9) 9 (\<lambda>p. thenM (pbuf_free 9 p) (ret 1)) (\<lambda>p. thenM (pbuf_free 9 p) (ret ()))
      (\<lambda>p. thenM (pbuf_free 9 p) (ret ())) 4 ip_asked = Ret r t \<and> length (arp_table t) = 3 \<and> unat (etharp_cached_entry t) < 3"
proof -
  let ?in = "stack_input ideal_env (bump 9) 9 (\<lambda>p. thenM (pbuf_free 9 p) (ret 1)) (\<lambda>p. thenM (pbuf_free 9 p) (ret ()))
      (\<lambda>p. thenM (pbuf_free 9 p) (ret ()))"
  have at: "arp_at ip_asked 4 [] asking"
    using asked_packet(1,3) holds_cong [of asked 4 "[]" 42 "arp_bytes asking" ip_asked] by (simp add: arp_at_def request_for_def)
  have "wp (?in 4) (\<lambda>r t. True) (\<lambda>_ _. False) ip_asked"
    unfolding stack_input_def
    by (rule ethernet_input_answers [OF at])
      (use asked_ok asked_packet asking_host ip_asked_ok broadcast_cong [of ip_asked asked] in \<open>simp_all add: arp_ok_def IPADDR_ANY_def\<close>)
  then obtain r t where run: "?in 4 ip_asked = Ret r t" unfolding wp_total_ex by blast
  have "stack_reach ideal_env (bump 9) 9 (\<lambda>p. thenM (pbuf_free 9 p) (ret 1)) (\<lambda>p. thenM (pbuf_free 9 p) (ret ()))
      (\<lambda>p. thenM (pbuf_free 9 p) (ret ())) ip_asked t"
    by (rule reach_input [OF reach_start run])
  from arp_table_wellformed [OF this ip_asked_ok dropping_calls dropping_calls dropping_calls] run show ?thesis by blast
qed

end
