(* ===== verification/IpRun.thy ===== *)
theory IpRun
  imports IpInv
begin

text \<open>
  What the IP layer puts on the wire: the checksum of the headers it builds, and the path of an echo request from the receive buffer
  through ARP, IP and ICMP back to the Ethernet chip.
\<close>

section \<open>Checksums of headers\<close>

text \<open>The header \<^verbatim>\<open>ip_output_if\<close> builds, with the checksum field \<open>c\<close>.\<close>

definition ip_header :: "u8 \<Rightarrow> u8 \<Rightarrow> u8 \<Rightarrow> u16 \<Rightarrow> u16 \<Rightarrow> u32 \<Rightarrow> u32 \<Rightarrow> u16 \<Rightarrow> u8 list" where
  "ip_header ttl tos pr tot i src dest c =
     [0x45, tos] @ le_bytes 2 (lwip_htons tot) @ le_bytes 2 (lwip_htons i) @ [0, 0, ttl, pr] @ le_bytes 2 c @
     le_bytes 4 src @ le_bytes 4 dest"

lemma unat_byte: "unat (ucast (drop_bit k v) :: u8) = unat v div 2 ^ k mod 256" for v :: "'a::len word"
  by (simp add: unsigned_ucast_eq unat_drop_bit take_bit_eq_mod drop_bit_nat_def)

lemma unat_low_byte: "unat (ucast v :: u8) = unat v mod 256" for v :: "'a::len word"
  using unat_byte [of 0 v] by simp

lemma words_sum_pair: "words_sum (le_bytes 2 v @ bs) = unat v + words_sum bs" for v :: u16
  by (simp only: le_bytes_2 append.simps words_sum.simps checksum_field)

lemma words_sum_quad: "words_sum (le_bytes 4 v @ bs) = unat v mod 65536 + unat v div 65536 + words_sum bs" for v :: u32
proof -
  have v: "unat v < 2 ^ 32" using unsigned_less [of v, where 'a = nat] by simp
  have "unat v mod 256 + 256 * (unat v div 2 ^ 8 mod 256) = unat v mod 65536"
    using mod_mult2_eq [of "unat v" 256 256] by simp
  moreover have "unat v div 2 ^ 16 mod 256 + 256 * (unat v div 2 ^ 24 mod 256) = unat v div 65536"
    using v div_mult2_eq [of "unat v" 65536 256] mod_mult_div_eq [of "unat v div 65536" 256] by simp
  ultimately show ?thesis by (simp only: le_bytes_4 append.simps words_sum.simps unat_low_byte unat_drop_bit)
qed

lemma inet_chksum_zero_iff:
  assumes "length bs \<le> 0x20000"
  shows "inet_chksum od bs = 0 \<longleftrightarrow> words_sum bs mod 65535 = 0 \<and> words_sum bs \<noteq> 0"
proof -
  let ?c = "lwip_standard_chksum od bs"
  have "inet_chksum od bs = 0 \<longleftrightarrow> ?c = - 1" unfolding inet_chksum_def by (metis bit.double_compl bit.compl_zero)
  also have "\<dots> \<longleftrightarrow> unat ?c = 65535"
  proof -
    have m: "(- 1 :: u16) = 65535" by simp
    show ?thesis unfolding m word_unat_eq_iff by simp
  qed
  also have "\<dots> \<longleftrightarrow> words_sum bs mod 65535 = 0 \<and> words_sum bs \<noteq> 0"
    using ones_sum_same [of "words_sum bs"] same_sum_unique [OF _ ones_sum_le, of "words_sum bs" 65535]
    unfolding standard_chksum [OF assms] by (auto simp: same_sum_def)
  finally show ?thesis .
qed

lemma NOT_of_nat: "n \<le> 65535 \<Longrightarrow> unat (NOT (of_nat n :: u16)) = 65535 - n"
  by (simp add: unat_NOT16 unat_of_nat take_bit_nat_eq_self)

text \<open>Filling in the complement of the sum of the rest makes a block that passes the test.\<close>

lemma complement_passes: "k \<noteq> 0 \<Longrightarrow> (k + (65535 - ones_sum k)) mod 65535 = 0"
proof -
  have "(ones_sum k + (65535 - ones_sum k)) mod 65535 = 0" using ones_sum_le [of k] by simp
  moreover have "ones_sum k mod 65535 = k mod 65535" using ones_sum_same [of k] by (simp add: same_sum_def)
  ultimately show ?thesis by (metis mod_add_cong)
qed

definition header_sum :: "u8 \<Rightarrow> u8 \<Rightarrow> u8 \<Rightarrow> u16 \<Rightarrow> u16 \<Rightarrow> u32 \<Rightarrow> u32 \<Rightarrow> nat" where
  "header_sum ttl tos pr lenf idf src dest =
     (unat ttl + 256 * unat pr) + unat dest mod 65536 + unat dest div 65536 + (0x45 + 256 * unat tos) + unat lenf + unat idf +
     unat src mod 65536 + unat src div 65536"

lemma unat_MAKE: "unat (LWIP_MAKE_U16 a b) = 256 * unat a + unat b"
proof -
  have dis: "push_bit 8 (ucast a :: u32) AND ucast b = 0" by (rule bit_word_eqI) (auto simp: bit_simps dest: bit_imp_le_length)
  have "LWIP_MAKE_U16 a b = ucast b + push_bit 8 (ucast a)"
    unfolding LWIP_MAKE_U16_def disjunctive_add_eq_or [OF dis, symmetric] by (rule add.commute)
  then show ?thesis by (simp add: unat_pair)
qed

lemma second_fold: "(ucast (NOT (drop_bit 16 u + u)) :: u16) = NOT (ucast (FOLD_U32T u))" for u :: u32
proof -
  have "(ucast (u AND 0xffff) :: u16) = ucast u"
  proof -
    have "u AND 0xffff = take_bit 16 u" by (simp add: take_bit_eq_mask mask_eq_exp_minus_1)
    then show ?thesis by (auto intro!: bit_word_eqI simp: bit_simps)
  qed
  moreover have "(ucast (x + y) :: u16) = ucast x + ucast y" for x y :: u32
    by transfer (simp add: take_bit_eq_mod mod_mod_cancel, intro mod_add_cong, simp_all add: mod_mod_cancel)
  moreover have "(ucast (NOT x) :: u16) = NOT (ucast x)" for x :: u32 by (rule bit_word_eqI) (auto simp: bit_simps)
  ultimately show ?thesis by (simp only: FOLD_U32T_def)
qed

lemma inline_chksum_sum:
  "inline_chksum ttl tos pr lenf idf src dest = NOT (of_nat (ones_sum (header_sum ttl tos pr lenf idf src dest)))"
proof -
  let ?u = "0 + LWIP_MAKE_U16 pr ttl + (dest AND 0xffff) + drop_bit 16 dest + LWIP_MAKE_U16 tos 0x45 + ucast lenf + ucast idf +
    (src AND 0xffff) + drop_bit 16 src"
  have b: "unat x < 256" for x :: u8 by (rule byte_less)
  have h: "unat x div 65536 < 65536" for x :: u32 using unsigned_less [of x, where 'a = nat] by simp
  have uc: "unat (ucast x :: u32) = unat x" "unat x \<le> 65535" for x :: u16
    using unsigned_less [of x, where 'a = nat] by (simp_all add: unsigned_ucast_eq take_bit_nat_eq_self)
  have "unat ?u = header_sum ttl tos pr lenf idf src dest"
    using b [of ttl] b [of tos] b [of pr] h [of src] h [of dest] uc(2) [of lenf] uc(2) [of idf]
    by (simp add: unat_word_ariths unat_MAKE uc(1) unat_low16 unat_high16 header_sum_def)
  moreover have "inline_chksum ttl tos pr lenf idf src dest = ucast (NOT (drop_bit 16 (FOLD_U32T ?u) + FOLD_U32T ?u))"
    by (simp only: inline_chksum_def Let_def FOLD_U32T_def)
  ultimately show ?thesis unfolding second_fold using FOLD_twice [of ?u] ucast_of_sum by metis
qed

lemma header_check:
  "inet_chksum od (ip_header ttl tos pr tot i src dest
     (inline_chksum ttl tos pr (lwip_htons tot) (lwip_htons i) src dest)) = 0"
proof -
  let ?k = "header_sum ttl tos pr (lwip_htons tot) (lwip_htons i) src dest"
  let ?c = "inline_chksum ttl tos pr (lwip_htons tot) (lwip_htons i) src dest"
  have "words_sum (ip_header ttl tos pr tot i src dest ?c) = ?k + unat ?c"
    using words_sum_quad [of dest "[]"] by (simp add: ip_header_def header_sum_def words_sum_pair words_sum_quad)
  also have "unat ?c = 65535 - ones_sum ?k" by (simp add: inline_chksum_sum NOT_of_nat ones_sum_le)
  finally have w: "words_sum (ip_header ttl tos pr tot i src dest ?c) = ?k + (65535 - ones_sum ?k)" .
  have k: "?k \<noteq> 0" by (simp add: header_sum_def)
  have "length (ip_header ttl tos pr tot i src dest ?c) \<le> 0x20000" by (simp add: ip_header_def)
  from inet_chksum_zero_iff [OF this] show ?thesis unfolding w using complement_passes [OF k] k by simp
qed

text \<open>
  C35. The checksum that is added up while a header is filled in is the right one: the receiver's test over the twenty bytes passes, whatever the
  addresses, lengths and other fields are and wherever the header lies in memory.
\<close>

theorem built_header_passes_check:
  "inet_chksum od (ip_header ttl tos pr tot i src dest
     (inline_chksum ttl tos pr (lwip_htons tot) (lwip_htons i) src dest)) = 0"
  by (rule header_check)

end
