(* ===== verification/Ping.thy ===== *)
theory Ping
  imports IpRun
begin

text \<open>
  An echo request on its way through the stack: from the receive buffer through the Ethernet, IP and ICMP input functions, back
  through IP and ARP output to the Ethernet chip.
\<close>

section \<open>The checksum of a reply\<close>

lemma words_sum_zero: "words_sum bs = 0 \<longleftrightarrow> set bs \<subseteq> {0}"
  by (induction bs rule: words_sum.induct) (auto simp: unat_eq_zero)

lemma echo_chksum_sum:
  "(unat (echo_chksum c)) mod 65535 = (unat c + 8) mod 65535"
proof -
  have c: "unat c \<le> 65535" using unsigned_less [of c, where 'a = nat] by simp
  have h: "lwip_htons (0xffff - push_bit 8 (ucast ICMP_ECHO)) = 65527" "lwip_htons (push_bit 8 (ucast ICMP_ECHO)) = 8"
    by (simp_all add: lwip_htons_def ICMP_ECHO_def)
  show ?thesis
  proof (cases "c \<ge> 65527")
    case True
    then have "65527 \<le> unat c" by (simp add: word_le_nat_alt)
    then have "(unat c + 9) mod 65536 = unat c + 9 - 65536"
      using c le_mod_geq [of 65536 "unat c + 9"] by simp
    moreover have "c + 8 + 1 = c + 9" by simp
    moreover have "unat (c + 9) = (unat c + 9) mod 65536" by (simp add: unat_word_ariths)
    ultimately have "unat (c + 8 + 1) = unat c + 9 - 65536" by metis
    then show ?thesis
      using True \<open>65527 \<le> unat c\<close> mod_add_self2 [of "unat c + 9 - 65536" 65535] unfolding echo_chksum_def h by (simp add: add.commute)
  next
    case False
    then have "unat c < 65527" by (simp add: word_le_nat_alt)
    then have "unat (c + 8) = unat c + 8" by (simp add: unat_word_ariths)
    then show ?thesis using False unfolding echo_chksum_def h by simp
  qed
qed

text \<open>An echo message: type, code, checksum as it lies in memory, identifier, sequence number and data.\<close>

definition icmp_msg :: "u8 \<Rightarrow> u8 \<Rightarrow> u16 \<Rightarrow> u8 list \<Rightarrow> u8 list" where
  "icmp_msg ty code c rest = [ty, code] @ le_bytes 2 c @ rest"

lemma echo_reply_passes_check:
  assumes "inet_chksum od (icmp_msg ICMP_ECHO code c rest) = 0" and "length rest \<le> 0x10000"
  shows "inet_chksum od' (icmp_msg ICMP_ER code (echo_chksum c) rest) = 0 \<or>
    set (icmp_msg ICMP_ER code (echo_chksum c) rest) \<subseteq> {0}"
proof -
  let ?r = "256 * unat code + words_sum rest"
  have echo: "unat ICMP_ECHO = 8" by (simp add: ICMP_ECHO_def)
  have "words_sum (icmp_msg ICMP_ECHO code c rest) mod 65535 = 0"
    using assms inet_chksum_zero_iff [of "icmp_msg ICMP_ECHO code c rest"] by (simp add: icmp_msg_def)
  then have "(unat c + 8 + ?r) mod 65535 = 0"
    by (simp only: icmp_msg_def append.simps words_sum.simps words_sum_pair echo) (simp only: add_ac)
  then have "(unat (echo_chksum c) + ?r) mod 65535 = 0"
    using echo_chksum_sum [of c] by (metis mod_add_cong)
  moreover have "words_sum (icmp_msg ICMP_ER code (echo_chksum c) rest) = unat (echo_chksum c) + ?r"
    by (simp add: icmp_msg_def words_sum_pair ICMP_ER_def)
  moreover have "length (icmp_msg ICMP_ER code (echo_chksum c) rest) \<le> 0x20000" using assms(2) by (simp add: icmp_msg_def)
  ultimately show ?thesis unfolding words_sum_zero [symmetric] using inet_chksum_zero_iff by metis
qed

section \<open>A packet in one buffer\<close>

text \<open>
  The buffer \<open>p\<close> is a packet of its own that nobody else refers to; from the offset \<open>base\<close> on its memory has the bytes \<open>f\<close>, and the payload is what
  follows the first \<open>i\<close> of them.
\<close>

definition one_buffer :: "pbuf \<Rightarrow> addr \<Rightarrow> nat \<Rightarrow> nat \<Rightarrow> nat \<Rightarrow> bool" where
  "one_buffer b p base i l \<longleftrightarrow> pnext b = 0 \<and> payload b = Some (p, int (base + i)) \<and> (ptype b = PBUF_RAM \<or> ptype b = PBUF_POOL) \<and> ref b = 1 \<and>
     i \<le> l \<and> l < 65536 \<and> unat (len b) = l - i \<and> tot_len b = len b"

definition frame_at :: "'z pbuf_state_scheme \<Rightarrow> addr \<Rightarrow> nat \<Rightarrow> nat \<Rightarrow> u8 list \<Rightarrow> bool" where
  "frame_at s p base i f \<longleftrightarrow> p \<noteq> 0 \<and> (\<exists>b d. pbufs s p = Some b \<and> one_buffer b p base i (length f) \<and> blocks s p = Some d \<and>
     base + length f \<le> length d \<and> take (length f) (drop base d) = f)"

text \<open>The buffer and its memory replaced.\<close>

definition with_buf :: "'z pbuf_state_scheme \<Rightarrow> addr \<Rightarrow> pbuf option \<Rightarrow> u8 list option \<Rightarrow> 'z pbuf_state_scheme" where
  "with_buf s p b d = s\<lparr>pbufs := (pbufs s)(p := b), blocks := (blocks s)(p := d)\<rparr>"

lemma with_buf_twice [simp]: "with_buf (with_buf s p b d) p b' d' = with_buf s p b' d'"
  by (simp add: with_buf_def)

lemma with_buf_same: "with_buf s p (pbufs s p) (blocks s p) = s"
  by (simp add: with_buf_def)

lemma with_buf_at [simp]: "pbufs (with_buf s p b d) = (pbufs s)(p := b)" "blocks (with_buf s p b d) = (blocks s)(p := d)"
  by (simp_all add: with_buf_def)

lemma with_buf_sel [simp]:
  "trace (with_buf s p b d) = trace s" "netif_hwaddr (with_buf s p b d) = netif_hwaddr s" "netif_ip_addr (with_buf s p b d) = netif_ip_addr s"
  "netif_netmask (with_buf s p b d) = netif_netmask s" "netif_gw (with_buf s p b d) = netif_gw s" "netif_flags (with_buf s p b d) = netif_flags s"
  by (simp_all add: with_buf_def)

lemma with_buf_arp [simp]:
  "arp_table (with_buf s p b d) = arp_table s" "etharp_cached_entry (with_buf s p b d) = etharp_cached_entry s"
  for s :: "'z arp_state_scheme"
  by (simp_all add: with_buf_def)

lemma with_buf_hint: "with_buf (s\<lparr>etharp_cached_entry := c\<rparr>) p b d = (with_buf s p b d)\<lparr>etharp_cached_entry := c\<rparr>"
  by (cases s) (simp add: with_buf_def)

lemma with_buf_ip [simp]:
  "current_ip4_header (with_buf s p b d) = current_ip4_header s" "current_iphdr_dest (with_buf s p b d) = current_iphdr_dest s"
  "current_iphdr_src (with_buf s p b d) = current_iphdr_src s"
  for s :: "'z ip_state_scheme"
  by (simp_all add: with_buf_def)

lemma with_buf_env [simp]:
  "ip4_addr_isbroadcast a (with_buf s p b d) = ip4_addr_isbroadcast a s" "arp_ok (with_buf t p b d) = arp_ok t"
  by (rule broadcast_cong; simp) (simp add: arp_ok_def)

lemma wp_asserted: "b \<Longrightarrow> wp (lwip_assert msg b) Q H s \<longleftrightarrow> Q () s"
  by (simp add: wp_def)

lemma frame_cong: "frame_at s p base i f \<Longrightarrow> pbufs t p = pbufs s p \<Longrightarrow> blocks t p = blocks s p \<Longrightarrow> frame_at t p base i f"
  by (simp add: frame_at_def)

lemma frame_len: "frame_at s p base i f \<Longrightarrow> i \<le> length f \<and> length f < 65536"
  by (auto simp: frame_at_def one_buffer_def)

lemma frame_deref:
  assumes "frame_at s p base i f"
    and "\<And>b. pbufs s p = Some b \<Longrightarrow> one_buffer b p base i (length f) \<Longrightarrow> Q b s"
  shows "wp (deref p) Q H s"
  using assms by (auto simp: frame_at_def wp_def)

lemma wp_mem_get:
  assumes "frame_at s p base i f" and "x + k \<le> length f" and "Q (take k (drop x f)) s"
  shows "wp (memcpy_from (Some (p, int (base + x))) k) Q H s"
proof -
  obtain d where d: "blocks s p = Some d" "base + length f \<le> length d" "take (length f) (drop base d) = f"
    using assms(1) by (auto simp: frame_at_def)
  have "take k (drop (base + x) d) = take k (drop x (take (length f) (drop base d)))"
    using assms(2) by (simp add: drop_take min_def add.commute)
  then have "take k (drop (base + x) d) = take k (drop x f)" using d(3) by simp
  then show ?thesis
    using assms(2,3) d(1,2) by (cases "k = 0") (simp_all add: memcpy_from_def in_block_def block_read_def nat_add_distrib del: of_nat_add)
qed

lemma wp_mem_put:
  assumes "frame_at s p base i f" and "x + length bs \<le> length f" and "bs \<noteq> []"
    and "\<And>b d. frame_at (with_buf s p b d) p base i (overwrite x bs f) \<Longrightarrow> Q () (with_buf s p b d)"
  shows "wp (memcpy_to (Some (p, int (base + x))) bs) Q H s"
proof -
  obtain b d where d: "pbufs s p = Some b" "one_buffer b p base i (length f)" "blocks s p = Some d" "base + length f \<le> length d"
    "take (length f) (drop base d) = f" "p \<noteq> 0" using assms(1) by (auto simp: frame_at_def)
  let ?d = "overwrite (base + x) bs d"
  have l: "length (overwrite x bs f) = length f" by (rule overwrite_length [OF assms(2)])
  have "drop base ?d = overwrite x bs (drop base d)" using assms(2) d(4) by (simp add: overwrite_def drop_take add.commute add.left_commute)
  moreover have "take (length f) (overwrite x bs (drop base d)) = overwrite x bs (take (length f) (drop base d))"
    using assms(2) d(4) by (simp add: overwrite_def drop_take)
  ultimately have "frame_at (with_buf s p (Some b) (Some ?d)) p base i (overwrite x bs f)"
    using d l overwrite_length [of "base + x" bs d] assms(2) by (simp add: frame_at_def)
  from assms(4) [OF this] have "Q () (s\<lparr>blocks := (blocks s)(p \<mapsto> ?d)\<rparr>)" using d(1) by (simp add: with_buf_def fun_upd_idem)
  then show ?thesis using assms(2,3) d(3,4) by (simp add: memcpy_to_def in_block_def block_write_def del: of_nat_add)
qed

lemma wp_hdr_get: "frame_at s p base i f \<Longrightarrow> x + j + k \<le> length f \<Longrightarrow> Q (take k (drop (x + j) f)) s \<Longrightarrow>
    wp (hdr_get (Some (p, int (base + x))) j k) Q H s"
  using wp_mem_get [of s p base i f "x + j" k Q H] by (simp add: hdr_get_def ptr_add_def add.assoc)

lemma wp_hdr_put:
  "frame_at s p base i f \<Longrightarrow> x + j + length bs \<le> length f \<Longrightarrow> bs \<noteq> [] \<Longrightarrow>
    (\<And>b d. frame_at (with_buf s p b d) p base i (overwrite (x + j) bs f) \<Longrightarrow> Q () (with_buf s p b d)) \<Longrightarrow>
    wp (hdr_put (Some (p, int (base + x))) j bs) Q H s"
  using wp_mem_put [of s p base i f "x + j" bs Q H] by (simp add: hdr_put_def ptr_add_def add.assoc)

lemma frame_payload: "frame_at s p base i f \<Longrightarrow> \<exists>b. pbufs s p = Some b \<and> payload b = Some (p, int (base + i))"
  by (auto simp: frame_at_def one_buffer_def)

lemma wp_field_get:
  assumes "frame_at s p base i f" and "i + j + k \<le> length f" and "Q (take k (drop (i + j) f)) s"
  shows "wp (get_field p j k) Q H s"
  using frame_payload [OF assms(1)] wp_mem_get [OF assms(1), of "i + j" k Q H] assms(2,3)
  by (auto simp: get_field_def wp_def [of "deref p"] ptr_add_def add.assoc)

lemma wp_field_put:
  assumes "frame_at s p base i f" and "i + j + length bs \<le> length f" and "bs \<noteq> []"
    and "\<And>b d. frame_at (with_buf s p b d) p base i (overwrite (i + j) bs f) \<Longrightarrow> Q () (with_buf s p b d)"
  shows "wp (put_field p j bs) Q H s"
  using frame_payload [OF assms(1)] wp_mem_put [OF assms(1), of "i + j" bs Q H] assms(2-4)
  by (auto simp: put_field_def wp_def [of "deref p"] ptr_add_def add.assoc)

text \<open>Moving the payload inside the bytes of the frame.\<close>

lemma wp_move:
  assumes "frame_at s p base i f" and "j \<le> length f" and "inc = int i - int j" and "\<bar>inc\<bar> < 32768" and "inc \<noteq> 0"
    and "\<And>b d. frame_at (with_buf s p b d) p base j f \<Longrightarrow> Q 0 (with_buf s p b d)"
  shows "wp (pbuf_header p inc) Q H s"
proof -
  obtain b d where b: "pbufs s p = Some b" "one_buffer b p base i (length f)" "blocks s p = Some d" "p \<noteq> 0"
    "base + length f \<le> length d" "take (length f) (drop base d) = f" using assms(1) by (auto simp: frame_at_def)
  have o: "pnext b = 0" "payload b = Some (p, int (base + i))" "ptype b = PBUF_RAM \<or> ptype b = PBUF_POOL" "ref b = 1" "i \<le> length f"
    "length f < 65536" "unat (len b) = length f - i" "tot_len b = len b" using b(2) by (simp_all add: one_buffer_def)
  let ?b = "move_header inc b"
  have l: "unat (len b + word_of_int inc) = length f - j"
  proof -
    have "len b = of_nat (length f - i)" unfolding o(7) [symmetric] using word_unat_eq_iff [of "len b" "of_nat (unat (len b))"] by simp
    then have "len b + word_of_int inc = word_of_int (int (length f - i) + inc)" by simp
    also have "int (length f - i) + inc = int (length f - j)" using assms(2,3) o(5) by simp
    finally have "len b + word_of_int inc = of_nat (length f - j)" by simp
    then show ?thesis using o(6) by (simp add: unat_of_nat take_bit_nat_eq_self)
  qed
  have "one_buffer ?b p base j (length f)"
    using o l assms(2,3) by (simp add: one_buffer_def move_header_def ptr_add_def)
  then have "frame_at (with_buf s p (Some ?b) (Some d)) p base j f" using b by (simp add: frame_at_def)
  from assms(6) [OF this] have Q: "Q 0 (s\<lparr>pbufs := (pbufs s)(p \<mapsto> ?b)\<rparr>)" using b(3) by (simp add: with_buf_def fun_upd_idem)
  have le: "word_of_int (- inc) \<le> len b" if "inc < 0"
  proof -
    have "0 \<le> - inc" "- inc < 65536" using that assms(4) by auto
    then have "unat (word_of_int (- inc) :: u16) = nat (- inc)"
      by (simp only: unat_eq_nat_uint uint_word_of_int) simp
    then show ?thesis using that assms(2,3) o(5,7) by (simp add: word_le_nat_alt)
  qed
  have room: "\<not> int (base + i) - inc < 0" using assms(3) by simp
  have "pbuf_header p inc s = Ret 0 (s\<lparr>pbufs := (pbufs s)(p \<mapsto> ?b)\<rparr>)"
    unfolding pbuf_header_def pbuf_header_impl_def
    by (cases "inc < 0") (simp_all only: lwip_assert_run thenM_def bindM_def b deref_run [OF b(1)] o if_True if_False simp_thms
      option.case prod.case room store_run [OF b(1)] whenM_def le ret_def assms(5) outcome.case not_False_eq_True)
  then show ?thesis using Q by (simp add: wp_def)
qed

lemma frame_holds: "frame_at s p base 0 f \<Longrightarrow> holds s p [] (length f) f"
  by (auto simp: frame_at_def one_buffer_def holds_def packet_def payload_ok_def in_block_def own_payload_def bytes_at_def block_read_def)

lemma wp_free_frame:
  assumes "frame_at s p base i f" and "1 < n" and "Q 1 (with_buf s p None None)"
  shows "wp (pbuf_free n p) Q H s"
proof -
  obtain b where b: "pbufs s p = Some b" "p \<noteq> 0" "pnext b = 0" "ref b = 1" using assms(1) by (auto simp: frame_at_def one_buffer_def)
  then have "chain (pbufs s) p [p]" by simp
  then have "free_loop n p 0 s = Ret 1 (with_buf s p None None)"
    using free_loop_run [of s p "[p]" n 0] assms(2) b by (simp add: gone_def kept_def drop_ref_def without_insert with_buf_def)
  then show ?thesis using assms(3) b by (simp add: pbuf_free_def wp_def)
qed

lemma wp_cut_frame:
  assumes "frame_at s p base i f" and "i \<le> l" and "l \<le> length f" and "unat nl = l - i" and "0 < n"
    and "\<And>b d. frame_at (with_buf s p b d) p base i (take l f) \<Longrightarrow> Q () (with_buf s p b d)"
  shows "wp (pbuf_realloc n p nl) Q H s"
proof -
  obtain b d where b: "pbufs s p = Some b" "one_buffer b p base i (length f)" "blocks s p = Some d" "p \<noteq> 0"
    "base + length f \<le> length d" "take (length f) (drop base d) = f" using assms(1) by (auto simp: frame_at_def)
  have o: "pnext b = 0" "unat (len b) = length f - i" "tot_len b = len b" "length f < 65536" using b(2) by (simp_all add: one_buffer_def)
  show ?thesis
  proof (cases "l = length f")
    case True
    then have "nl \<ge> tot_len b" using assms(4) o by (simp add: word_le_nat_alt)
    moreover have "Q () s" using assms(6) [of "pbufs s p" "blocks s p"] assms(1) True by (simp add: with_buf_same)
    ultimately show ?thesis using b by (simp add: pbuf_realloc_def wp_def)
  next
    case False
    have lt: "\<not> nl \<ge> tot_len b" "\<not> nl > len b" using False assms(2-4) o by (simp_all add: word_le_nat_alt word_less_nat_alt)
    obtain k where k: "n = Suc k" using assms(5) by (cases n) auto
    have loop: "realloc_loop n p nl g s = Ret (p, nl) s" for g using lt(2) b(1) k by simp
    let ?b = "b\<lparr>len := nl, tot_len := nl, pnext := 0\<rparr>"
    have "take l (drop base d) = take l (take (length f) (drop base d))" using assms(3) by (simp add: min_def)
    then have "take l (drop base d) = take l f" using b(6) by simp
    moreover have "length (take l f) = l" using assms(3) by simp
    moreover have "one_buffer ?b p base i l" using b(2) assms(2-4) by (simp add: one_buffer_def)
    ultimately have "frame_at (with_buf s p (Some ?b) (Some d)) p base i (take l f)"
      using b assms(3) by (simp add: frame_at_def)
    from assms(6) [OF this] have "Q () (s\<lparr>pbufs := (pbufs s)(p \<mapsto> ?b)\<rparr>)" using b(3) by (simp add: with_buf_def fun_upd_idem)
    moreover have "pbuf_realloc n p nl s = Ret () (s\<lparr>pbufs := (pbufs s)(p \<mapsto> ?b)\<rparr>)"
      using lt(1) b(1,4) o(1) loop by (simp add: pbuf_realloc_def)
    ultimately show ?thesis by (simp add: wp_def)
  qed
qed

section \<open>Sending to a resolved address\<close>

text \<open>The Ethernet header in front of a packet.\<close>

lemma eth_header:
  assumes "14 \<le> length f" and "length dst = 6" and "length src = 6" and "length ty = 2"
  shows "overwrite 6 src (overwrite 0 dst (overwrite 12 ty f)) = dst @ src @ ty @ drop 14 f"
  using assms by (simp add: overwrite_def min_def drop_take)

lemma send_frame:
  assumes "frame_at s p base 0 f" and "14 \<le> length f" and "length f \<le> 1024" and "1 < n" and "length (netif_hwaddr s) = 6"
    and "length src = 6" and "length dst = 6"
    and Q: "\<And>b d es. enc_bus None es = (None, chip_frames (dst @ src @ [8, 0] @ drop 14 f)) \<Longrightarrow>
      frame_at (with_buf s p b d) p base 0 (dst @ src @ [8, 0] @ drop 14 f) \<Longrightarrow>
      Q ERR_OK ((with_buf s p b d)\<lparr>txbusy := True, trace := trace s @ es\<rparr>)"
  shows "wp (etharp_send_ip E n p src dst) Q H s"
proof -
  have ty: "le_bytes 2 (lwip_htons ETHTYPE_IP) = [8, 0]" by (simp add: be_bytes ETHTYPE_IP_def)
  let ?g = "dst @ src @ [8, 0] @ drop 14 f"
  have fin: "wp (linkoutput E n p) Q H (with_buf s p b d)" if fr: "frame_at (with_buf s p b d) p base 0 ?g" for b d
  proof (rule wp_linkoutput [OF frame_holds [OF fr]])
    fix es assume "enc_bus None es = (None, chip_frames ?g)"
    from Q [OF this fr] show "Q 0 ((with_buf s p b d)\<lparr>txbusy := True, trace := trace (with_buf s p b d) @ es\<rparr>)"
      by (simp add: ERR_OK_def)
  qed (use assms in simp_all)
  show ?thesis
    unfolding etharp_send_ip_def wp_thenM ty
    apply (rule wp_hwaddr_len_ok, simp add: assms)
    apply (rule wp_field_put [OF assms(1)], use assms in simp, simp)
    apply (rule wp_field_put, assumption, use assms in \<open>simp add: overwrite_length\<close>, use assms in force)
    apply (rule wp_field_put, assumption, use assms in \<open>simp add: overwrite_length\<close>, use assms in force)
    subgoal premises prems for b1 d1 b2 d2 b3 d3
      using fin [of b3 d3] prems(3) eth_header [OF assms(2,7,6), of "[8, 0]"] by simp
    done
qed

text \<open>The driver drops a frame that does not fit the transmit buffer of the chip, without an error.\<close>

lemma send_long_frame:
  assumes "frame_at s p base 0 f" and "1024 < length f" and "length (netif_hwaddr s) = 6" and "length src = 6" and "length dst = 6"
    and Q: "\<And>b d. frame_at (with_buf s p b d) p base 0 (dst @ src @ [8, 0] @ drop 14 f) \<Longrightarrow> Q ERR_OK (with_buf s p b d)"
  shows "wp (etharp_send_ip E n p src dst) Q H s"
proof -
  have ty: "le_bytes 2 (lwip_htons ETHTYPE_IP) = [8, 0]" by (simp add: be_bytes ETHTYPE_IP_def)
  let ?g = "dst @ src @ [8, 0] @ drop 14 f"
  have fin: "wp (linkoutput E n p) Q H (with_buf s p b d)" if fr: "frame_at (with_buf s p b d) p base 0 ?g" for b d
    unfolding linkoutput_def wp_bindM
  proof (rule frame_deref [OF fr])
    fix c assume "one_buffer c p base 0 (length ?g)"
    then have "uint (tot_len c) > uint ENC424J600_RXBUF_START - uint ENC424J600_TXBUF_START"
      using assms(2,4,5) by (simp add: one_buffer_def enc_buf_consts uint_nat)
    then show "wp (if uint (tot_len c) > uint ENC424J600_RXBUF_START - uint ENC424J600_TXBUF_START
        then enc424j600_spi_linkoutput E [] (tot_len c)
        else bindM (chain_segments n p) (\<lambda>segs. enc424j600_spi_linkoutput E segs (tot_len c))) Q H (with_buf s p b d)"
      using Q [OF fr] by (simp add: enc424j600_spi_linkoutput_def enc424j600_spi_send_def ERR_OK_def)
  qed
  show ?thesis
    unfolding etharp_send_ip_def wp_thenM ty
    apply (rule wp_hwaddr_len_ok, simp add: assms)
    apply (rule wp_field_put [OF assms(1)], use assms in simp, simp)
    apply (rule wp_field_put, assumption, use assms in \<open>simp add: overwrite_length\<close>, use assms in force)
    apply (rule wp_field_put, assumption, use assms in \<open>simp add: overwrite_length\<close>, use assms in force)
    subgoal premises prems for b1 d1 b2 d2 b3 d3
      using fin [of b3 d3] prems(3) eth_header [OF _ assms(5,4), of f "[8, 0]"] assms(2) by simp
    done
qed

text \<open>The entry of the table a packet for the host \<open>a\<close> can be sent with at once.\<close>

definition resolved :: "etharp_entry list \<Rightarrow> u32 \<Rightarrow> u8 list \<Rightarrow> bool" where
  "resolved tab a mac \<longleftrightarrow> (\<exists>e \<in> set tab. stable_e e \<and> arp_ipaddr e = a \<and> arp_ethaddr e = mac \<and> arp_ctime e < ARP_AGE_REREQUEST_USED)"

text \<open>The host that packets for \<open>a\<close> go to: \<open>a\<close> itself on the local network, else the gateway.\<close>

definition next_hop :: "'z netif_state_scheme \<Rightarrow> u32 \<Rightarrow> u32 option" where
  "next_hop s a = (if \<not> ip_addr_netcmp a (netif_ip_addr s) (netif_netmask s) \<and> \<not> ip_addr_islinklocal a
     then (if ip_addr_isany (netif_gw s) then None else Some (netif_gw s)) else Some a)"

lemma next_hop_cong:
  "netif_ip_addr t = netif_ip_addr s \<Longrightarrow> netif_netmask t = netif_netmask s \<Longrightarrow> netif_gw t = netif_gw s \<Longrightarrow> next_hop t a = next_hop s a"
  by (simp only: next_hop_def)

lemma with_buf_hop [simp]: "next_hop (with_buf s p b d) a = next_hop s a"
  by (simp only: next_hop_def with_buf_sel)

lemma stable_entry_at:
  assumes "j < length es" and "stable_e (es ! j)" and "arp_ipaddr (es ! j) = a"
    and "\<And>k. k < length es \<Longrightarrow> stable_e (es ! k) \<Longrightarrow> arp_ipaddr (es ! k) = a \<Longrightarrow> k = j"
  shows "stable_entry a i es = Some (i + j)"
  using assms
proof (induction es arbitrary: i j)
  case (Cons e es)
  show ?case
  proof (cases j)
    case 0
    then show ?thesis using Cons.prems(2,3) by (simp add: stable_e_def)
  next
    case (Suc m)
    then have no: "\<not> (stable_e e \<and> arp_ipaddr e = a)" using Cons.prems(4) [of 0] by auto
    have m: "m < length es" "stable_e (es ! m)" "arp_ipaddr (es ! m) = a" using Suc Cons.prems(1-3) by simp_all
    have "k = m" if "k < length es" "stable_e (es ! k)" "arp_ipaddr (es ! k) = a" for k
      using Cons.prems(4) [of "Suc k"] that unfolding Suc by simp
    from Cons.IH [OF m this] have "stable_entry a (Suc i) es = Some (Suc i + m)" .
    then show ?thesis using Suc no by (auto simp: stable_e_def)
  qed
qed simp

lemma resolved_at:
  assumes "resolved tab a mac" and "table_ok tab"
  obtains i where "i < ARP_TABLE_SIZE" "i < length tab" "stable_e (tab ! i)" "arp_ipaddr (tab ! i) = a" "arp_ethaddr (tab ! i) = mac"
    "arp_ctime (tab ! i) < ARP_AGE_REREQUEST_USED" "stable_entry a 0 tab = Some i"
    "\<And>k. k < length tab \<Longrightarrow> stable_e (tab ! k) \<Longrightarrow> arp_ipaddr (tab ! k) = a \<Longrightarrow> k = i"
proof -
  have len: "length tab = ARP_TABLE_SIZE" using assms(2) by (simp add: table_ok_def)
  obtain i where i: "i < length tab" "stable_e (tab ! i)" "arp_ipaddr (tab ! i) = a" "arp_ethaddr (tab ! i) = mac"
    "arp_ctime (tab ! i) < ARP_AGE_REREQUEST_USED" using assms(1) unfolding resolved_def by (metis in_set_conv_nth)
  have u: "k = i" if "k < length tab" "stable_e (tab ! k)" "arp_ipaddr (tab ! k) = a" for k
    using table_ok_only [OF assms(2), of i] i that len kinds(1) unfolding only_at_def by metis
  have "stable_entry a 0 tab = Some (0 + i)" by (rule stable_entry_at [OF i(1-3)]) (rule u)
  then have st: "stable_entry a 0 tab = Some i" by simp
  have "i < ARP_TABLE_SIZE" using i(1) len by simp
  from that [OF this i st] show thesis using u by blast
qed

lemma resolved_mac: "resolved tab a mac \<Longrightarrow> table_ok tab \<Longrightarrow> length mac = 6"
  by (auto simp: resolved_def table_ok_def entry_ok_def)

lemma output_to_wp:
  assumes "frame_at s p base 14 f" and "arp_ok s" and "host_addr a" and "\<not> ip4_addr_isbroadcast a s" and "next_hop s a = Some g"
    and "resolved (arp_table s) g mac"
    and Q: "\<And>b d c. frame_at (with_buf s p b d) p base 0 f \<Longrightarrow>
      wp (etharp_send_ip E n p (netif_hwaddr s) mac) Q H ((with_buf s p b d)\<lparr>etharp_cached_entry := c\<rparr>)"
  shows "wp (etharp_output E M n p a) Q H s"
proof -
  have tab: "table_ok (arp_table s)" and hint: "unat (etharp_cached_entry s) < length (arp_table s)"
    using assms(2) by (simp_all add: arp_ok_def table_ok_def)
  obtain i where i: "i < ARP_TABLE_SIZE" "i < length (arp_table s)" "stable_e (arp_table s ! i)" "arp_ipaddr (arp_table s ! i) = g"
    "arp_ethaddr (arp_table s ! i) = mac" "arp_ctime (arp_table s ! i) < ARP_AGE_REREQUEST_USED" "stable_entry g 0 (arp_table s) = Some i"
    "\<And>k. k < length (arp_table s) \<Longrightarrow> stable_e (arp_table s ! k) \<Longrightarrow> arp_ipaddr (arp_table s ! k) = g \<Longrightarrow> k = i"
    using resolved_at [OF assms(6) tab] by metis
  have send: "wp (etharp_output_to_arp_index E M n p i) Q H ((with_buf s p b d)\<lparr>etharp_cached_entry := c\<rparr>)"
    if "frame_at (with_buf s p b d) p base 0 f" for b d c
    using Q [OF that, of c] i(2,3,5) i(6) [unfolded not_le [symmetric]]
    by (simp add: etharp_output_to_arp_index_def wp_entry wp_asserted stable_e_def)
  have cached: "(with_buf s p b d)\<lparr>etharp_cached_entry := etharp_cached_entry s\<rparr> = with_buf s p b d" for b d
    by (simp add: with_buf_def)
  have idx: "unat (etharp_cached_entry s) = i"
    if "at_least_stable (arp_entry_state (arp_table s ! unat (etharp_cached_entry s)))" "g = arp_ipaddr (arp_table s ! unat (etharp_cached_entry s))"
    using i(8) [OF hint] that by (simp add: stable_e_def)
  have fin: "wp (thenM (ETHARP_SET_HINT i) (etharp_output_to_arp_index E M n p i)) Q H (with_buf s p b d)"
    if "frame_at (with_buf s p b d) p base 0 f" for b d
    using send [OF that] by (simp add: ETHARP_SET_HINT_def)
  have lookup: "wp (bindM (gets etharp_cached_entry) (\<lambda>c. bindM (entry (unat c)) (\<lambda>e.
      if at_least_stable (arp_entry_state e) \<and> g = arp_ipaddr e then etharp_output_to_arp_index E M n p (unat c)
      else bindM (gets arp_table) (\<lambda>tab. case stable_entry g 0 tab of
         Some i \<Rightarrow> thenM (ETHARP_SET_HINT i) (etharp_output_to_arp_index E M n p i) | None \<Rightarrow> etharp_query E M n g p)))) Q H (with_buf s p b d)"
    if fr: "frame_at (with_buf s p b d) p base 0 f" for b d
    using hint idx send [OF fr, of "etharp_cached_entry s", unfolded cached] fin [OF fr] i(7) by (auto simp: wp_entry simp del: wp_thenM)
  have "p \<noteq> 0" using assms(1) by (simp add: frame_at_def)
  then show ?thesis
    unfolding etharp_output_def wp_thenM
  proof (intro wp_lwip_assert, simp, unfold wp_bindM, goal_cases)
    case 1
    show ?case
    proof (rule wp_move [OF assms(1), of 0], goal_cases)
      case (5 b d)
      let ?u = "with_buf s p b d"
      let ?out = "\<not> ip_addr_netcmp a (netif_ip_addr s) (netif_netmask s) \<and> \<not> ip_addr_islinklocal a"
      have cast: "\<not> ip4_addr_isbroadcast a ?u" "\<not> ip_addr_ismulticast a"
        using assms(3,4) by (simp_all add: host_addr_def)
      have hop: "\<not> (?out \<and> ip_addr_isany (netif_gw s))" "(if ?out then netif_gw s else a) = g"
        using assms(5) by (auto simp: next_hop_def split: if_splits)
      show ?case
        using lookup [OF 5] unfolding wp_bindM wp_gets Let_def with_buf_sel
        by (simp only: not_False_eq_True if_not_P [OF cast(1)] if_not_P [OF cast(2)] if_not_P [OF hop(1)] hop(2) wp_bindM wp_gets with_buf_sel
          Let_def if_False simp_thms)
    qed (use assms(1) in \<open>simp_all add: SIZEOF_ETH_HDR_def\<close>)
  qed
qed

lemma output_frame:
  assumes "frame_at s p base 14 f" and "length f \<le> 1024" and "1 < n" and "length (netif_hwaddr s) = 6" and "arp_ok s"
    and "host_addr a" and "\<not> ip4_addr_isbroadcast a s" and "next_hop s a = Some g" and "resolved (arp_table s) g mac"
    and Q: "\<And>b d es c. enc_bus None es = (None, chip_frames (mac @ netif_hwaddr s @ [8, 0] @ drop 14 f)) \<Longrightarrow>
      frame_at (with_buf s p b d) p base 0 (mac @ netif_hwaddr s @ [8, 0] @ drop 14 f) \<Longrightarrow>
      Q ERR_OK ((with_buf s p b d)\<lparr>etharp_cached_entry := c, txbusy := True, trace := trace s @ es\<rparr>)"
  shows "wp (etharp_output E M n p a) Q H s"
proof (rule output_to_wp [OF assms(1,5-9)])
  fix b d c
  assume fr: "frame_at (with_buf s p b d) p base 0 f"
  let ?u = "(with_buf s p b d)\<lparr>etharp_cached_entry := c\<rparr>"
  have mac: "length mac = 6" using resolved_mac assms(5,9) by (auto simp: arp_ok_def)
  have fru: "frame_at ?u p base 0 f" by (rule frame_cong [OF fr]) simp_all
  show "wp (etharp_send_ip E n p (netif_hwaddr s) mac) Q H ?u"
  proof (rule send_frame [OF fru])
    fix b' d' es
    assume es: "enc_bus None es = (None, chip_frames (mac @ netif_hwaddr s @ [8, 0] @ drop 14 f))"
      and fr': "frame_at (with_buf ?u p b' d') p base 0 (mac @ netif_hwaddr s @ [8, 0] @ drop 14 f)"
    have "frame_at (with_buf s p b' d') p base 0 (mac @ netif_hwaddr s @ [8, 0] @ drop 14 f)" by (rule frame_cong [OF fr']) simp_all
    from Q [OF es this, of c] show "Q ERR_OK ((with_buf ?u p b' d')\<lparr>txbusy := True, trace := trace ?u @ es\<rparr>)"
      by (simp add: with_buf_hint)
  qed (use assms mac frame_len [OF assms(1)] in simp_all)
qed

section \<open>Echo messages\<close>

text \<open>The parts of a frame with an echo message: Ethernet header, IP header without options, ICMP message.\<close>

record echo_pkt =
  ek_eth :: "u8 list"
  ek_tos :: u8
  ek_len :: "u8 list"
  ek_id :: "u8 list"
  ek_off :: "u8 list"
  ek_ttl :: u8
  ek_chk :: "u8 list"
  ek_src :: "u8 list"
  ek_dst :: "u8 list"
  ek_type :: u8
  ek_code :: u8
  ek_sum :: "u8 list"
  ek_data :: "u8 list"

definition echo_hdr :: "echo_pkt \<Rightarrow> u8 list" where
  "echo_hdr k = [0x45, ek_tos k] @ ek_len k @ ek_id k @ ek_off k @ [ek_ttl k, 1] @ ek_chk k @ ek_src k @ ek_dst k"

definition echo_msg :: "echo_pkt \<Rightarrow> u8 list" where
  "echo_msg k = [ek_type k, ek_code k] @ ek_sum k @ ek_data k"

definition echo_bytes :: "echo_pkt \<Rightarrow> u8 list" where
  "echo_bytes k = ek_eth k @ echo_hdr k @ echo_msg k"

definition echo_fields :: "echo_pkt \<Rightarrow> bool" where
  "echo_fields k \<longleftrightarrow> length (ek_eth k) = 14 \<and> length (ek_len k) = 2 \<and> length (ek_id k) = 2 \<and> length (ek_off k) = 2 \<and> length (ek_chk k) = 2 \<and>
     length (ek_src k) = 4 \<and> length (ek_dst k) = 4 \<and> length (ek_sum k) = 2"

lemma echo_length: "echo_fields k \<Longrightarrow> length (echo_hdr k) = 20 \<and> length (echo_msg k) = 4 + length (ek_data k) \<and>
    length (echo_bytes k) = 38 + length (ek_data k)"
  by (simp add: echo_fields_def echo_bytes_def echo_hdr_def echo_msg_def)

lemma echo_fields_upd [simp]:
  "echo_fields k \<Longrightarrow> length bs = 4 \<Longrightarrow> echo_fields (k\<lparr>ek_src := bs\<rparr>)" "echo_fields k \<Longrightarrow> length bs = 4 \<Longrightarrow> echo_fields (k\<lparr>ek_dst := bs\<rparr>)"
  "echo_fields k \<Longrightarrow> length bs = 2 \<Longrightarrow> echo_fields (k\<lparr>ek_chk := bs\<rparr>)" "echo_fields k \<Longrightarrow> length bs = 2 \<Longrightarrow> echo_fields (k\<lparr>ek_sum := bs\<rparr>)"
  "echo_fields k \<Longrightarrow> echo_fields (k\<lparr>ek_ttl := x\<rparr>)" "echo_fields k \<Longrightarrow> echo_fields (k\<lparr>ek_type := x\<rparr>)"
  by (simp_all add: echo_fields_def)

lemma echo_get:
  assumes "echo_fields k"
  shows "take 1 (drop (14 + 0) (echo_bytes k)) = [0x45]" "take 2 (drop (14 + 2) (echo_bytes k)) = ek_len k"
    "take 2 (drop (14 + 6) (echo_bytes k)) = ek_off k" "take 1 (drop (14 + 9) (echo_bytes k)) = [1]"
    "take 4 (drop (14 + 12) (echo_bytes k)) = ek_src k" "take 4 (drop (14 + 16) (echo_bytes k)) = ek_dst k"
    "take 20 (drop (14 + 0) (echo_bytes k)) = echo_hdr k" "take 1 (drop (34 + 0) (echo_bytes k)) = [ek_type k]"
    "take 2 (drop (34 + 2) (echo_bytes k)) = ek_sum k" "drop 34 (echo_bytes k) = echo_msg k"
  using assms by (simp_all add: echo_fields_def echo_bytes_def echo_hdr_def echo_msg_def)

lemma echo_put:
  assumes "echo_fields k"
  shows "length bs = 4 \<Longrightarrow> overwrite (14 + 12) bs (echo_bytes k) = echo_bytes (k\<lparr>ek_src := bs\<rparr>)"
    "length bs = 4 \<Longrightarrow> overwrite (14 + 16) bs (echo_bytes k) = echo_bytes (k\<lparr>ek_dst := bs\<rparr>)"
    "overwrite (14 + 8) [x] (echo_bytes k) = echo_bytes (k\<lparr>ek_ttl := x\<rparr>)"
    "length bs = 2 \<Longrightarrow> overwrite (14 + 10) bs (echo_bytes k) = echo_bytes (k\<lparr>ek_chk := bs\<rparr>)"
    "overwrite (34 + 0) [x] (echo_bytes k) = echo_bytes (k\<lparr>ek_type := x\<rparr>)"
    "length bs = 2 \<Longrightarrow> overwrite (34 + 2) bs (echo_bytes k) = echo_bytes (k\<lparr>ek_sum := bs\<rparr>)"
  using assms by (simp_all add: echo_fields_def echo_bytes_def echo_hdr_def echo_msg_def overwrite_def)

text \<open>The packet in the buffer \<open>p\<close>, with the payload at the offset \<open>i\<close>.\<close>

definition echo_at :: "'z pbuf_state_scheme \<Rightarrow> addr \<Rightarrow> nat \<Rightarrow> echo_pkt \<Rightarrow> bool" where
  "echo_at s p i k \<longleftrightarrow> frame_at s p 0 i (echo_bytes k) \<and> echo_fields k"

lemma echo_cong: "echo_at s p i k \<Longrightarrow> pbufs t p = pbufs s p \<Longrightarrow> blocks t p = blocks s p \<Longrightarrow> echo_at t p i k"
  by (simp add: echo_at_def frame_at_def)

lemma wp_echo_get:
  assumes "echo_at s p i k"
  shows "Q [0x45] s \<Longrightarrow> wp (hdr_get (Some (p, 14)) 0 1) Q H s" "Q (ek_len k) s \<Longrightarrow> wp (hdr_get (Some (p, 14)) 2 2) Q H s"
    "Q (ek_off k) s \<Longrightarrow> wp (hdr_get (Some (p, 14)) 6 2) Q H s" "Q [1] s \<Longrightarrow> wp (hdr_get (Some (p, 14)) 9 1) Q H s"
    "Q (ek_src k) s \<Longrightarrow> wp (hdr_get (Some (p, 14)) 12 4) Q H s" "Q (ek_dst k) s \<Longrightarrow> wp (hdr_get (Some (p, 14)) 16 4) Q H s"
    "Q (echo_hdr k) s \<Longrightarrow> wp (hdr_get (Some (p, 14)) 0 20) Q H s"
  using assms echo_get [of k] echo_length [of k] wp_hdr_get [of s p 0 i "echo_bytes k" 14] by (simp_all add: echo_at_def)

lemma wp_echo_hdr:
  assumes "echo_at s p i k" and "overwrite (14 + j) bs (echo_bytes k) = echo_bytes k'" and "echo_fields k'" and "14 + j + length bs \<le> 38" and "bs \<noteq> []"
    and "\<And>b d. echo_at (with_buf s p b d) p i k' \<Longrightarrow> Q () (with_buf s p b d)"
  shows "wp (hdr_put (Some (p, 14)) j bs) Q H s"
  using wp_hdr_put [of s p 0 i "echo_bytes k" 14 j bs Q H] assms echo_length [of k] by (auto simp: echo_at_def)

lemma wp_echo_body:
  assumes "echo_at s p 34 k" and "overwrite (34 + j) bs (echo_bytes k) = echo_bytes k'" and "echo_fields k'" and "34 + j + length bs \<le> 38" and "bs \<noteq> []"
    and "\<And>b d. echo_at (with_buf s p b d) p 34 k' \<Longrightarrow> Q () (with_buf s p b d)"
  shows "wp (put_field p j bs) Q H s"
  using wp_field_put [of s p 0 34 "echo_bytes k" j bs Q H] assms echo_length [of k] by (auto simp: echo_at_def)

lemma wp_echo_put:
  assumes "echo_at s p i k"
  shows "length bs = 4 \<Longrightarrow> (\<And>b d. echo_at (with_buf s p b d) p i (k\<lparr>ek_src := bs\<rparr>) \<Longrightarrow> Q () (with_buf s p b d)) \<Longrightarrow>
      wp (hdr_put (Some (p, 14)) 12 bs) Q H s"
    "length bs = 4 \<Longrightarrow> (\<And>b d. echo_at (with_buf s p b d) p i (k\<lparr>ek_dst := bs\<rparr>) \<Longrightarrow> Q () (with_buf s p b d)) \<Longrightarrow>
      wp (hdr_put (Some (p, 14)) 16 bs) Q H s"
    "(\<And>b d. echo_at (with_buf s p b d) p i (k\<lparr>ek_ttl := x\<rparr>) \<Longrightarrow> Q () (with_buf s p b d)) \<Longrightarrow>
      wp (hdr_put (Some (p, 14)) 8 [x]) Q H s"
    "length bs = 2 \<Longrightarrow> (\<And>b d. echo_at (with_buf s p b d) p i (k\<lparr>ek_chk := bs\<rparr>) \<Longrightarrow> Q () (with_buf s p b d)) \<Longrightarrow>
      wp (hdr_put (Some (p, 14)) 10 bs) Q H s"
  by (rule wp_echo_hdr, rule assms, rule echo_put, use assms in \<open>auto simp: echo_at_def\<close>)+

lemma wp_echo_field:
  assumes "echo_at s p 34 k"
  shows "Q [ek_type k] s \<Longrightarrow> wp (get_field p 0 1) Q H s" "Q (ek_sum k) s \<Longrightarrow> wp (get_field p 2 2) Q H s"
  using assms echo_get(8,9) [of k] echo_length [of k] wp_field_get [of s p 0 34 "echo_bytes k"] by (auto simp: echo_at_def)

lemma wp_echo_store:
  assumes "echo_at s p 34 k"
  shows "(\<And>b d. echo_at (with_buf s p b d) p 34 (k\<lparr>ek_type := x\<rparr>) \<Longrightarrow> Q () (with_buf s p b d)) \<Longrightarrow> wp (put_field p 0 [x]) Q H s"
    "length bs = 2 \<Longrightarrow> (\<And>b d. echo_at (with_buf s p b d) p 34 (k\<lparr>ek_sum := bs\<rparr>) \<Longrightarrow> Q () (with_buf s p b d)) \<Longrightarrow>
      wp (put_field p 2 bs) Q H s"
  by (rule wp_echo_body, rule assms, rule echo_put, use assms in \<open>auto simp: echo_at_def\<close>)+

section \<open>The reply\<close>

text \<open>
  The answer to an echo request: addresses exchanged, hardware addresses filled in, a new time to live and header checksum, the type
  changed and the checksum of the message adjusted.
\<close>

definition echo_turned :: "echo_pkt \<Rightarrow> echo_pkt" where
  "echo_turned k = k\<lparr>ek_src := ek_dst k, ek_dst := ek_src k, ek_type := ICMP_ER, ek_sum := le_bytes 2 (echo_chksum (le_word (ek_sum k))),
     ek_ttl := ICMP_TTL, ek_chk := [0, 0]\<rparr>"

definition echo_answer :: "u8 list \<Rightarrow> u8 list \<Rightarrow> echo_pkt \<Rightarrow> echo_pkt" where
  "echo_answer mac hw k = (echo_turned k)\<lparr>ek_chk := le_bytes 2 (inet_chksum False (echo_hdr (echo_turned k))), ek_eth := mac @ hw @ [8, 0]\<rparr>"

lemma echo_turned_fields: "echo_fields k \<Longrightarrow> echo_fields (echo_turned k)"
  by (simp add: echo_turned_def echo_fields_def)

lemma inet_chksum_align: "length bs \<le> 0x20000 \<Longrightarrow> inet_chksum od bs = inet_chksum False bs"
proof -
  assume "length bs \<le> 0x20000"
  then have "lwip_standard_chksum od bs = lwip_standard_chksum False bs" by (simp add: word_unat_eq_iff standard_chksum)
  then show ?thesis by (simp only: inet_chksum_def)
qed

lemma output_echo:
  assumes "echo_at s p 14 k" and "length (echo_bytes k) \<le> 1024" and "1 < n" and "length (netif_hwaddr s) = 6" and "arp_ok s"
    and "ek_dst k = le_bytes 4 a"
    and "host_addr a" and "\<not> ip4_addr_isbroadcast a s" and "next_hop s a = Some g" and "resolved (arp_table s) g mac"
    and Q: "\<And>b d es c. enc_bus None es = (None, chip_frames (echo_bytes (k\<lparr>ek_eth := mac @ netif_hwaddr s @ [8, 0]\<rparr>))) \<Longrightarrow>
      frame_at (with_buf s p b d) p 0 0 (echo_bytes (k\<lparr>ek_eth := mac @ netif_hwaddr s @ [8, 0]\<rparr>)) \<Longrightarrow>
      Q ERR_OK ((with_buf s p b d)\<lparr>etharp_cached_entry := c, txbusy := True, trace := trace s @ es\<rparr>)"
  shows "wp (ip_output_if E M n p src None ttl tos pr) Q H s"
proof -
  have fr: "frame_at s p 0 14 (echo_bytes k)" and k: "echo_fields k" using assms(1) by (simp_all add: echo_at_def)
  have d: "mac @ netif_hwaddr s @ [8, 0] @ drop 14 (echo_bytes k) = echo_bytes (k\<lparr>ek_eth := mac @ netif_hwaddr s @ [8, 0]\<rparr>)"
    using k by (simp add: echo_fields_def echo_bytes_def echo_hdr_def echo_msg_def)
  show ?thesis
    unfolding ip_output_if_def ip_output_if_src_def wp_bindM wp_gets wp_thenM option.case
  proof (rule frame_deref [OF fr], rule wp_lwip_assert, goal_cases)
    case (1 b)
    then show ?case by (simp add: one_buffer_def)
  next
    case (2 b)
    then have "payload b = Some (p, 14)" by (simp add: one_buffer_def)
    then show ?case
      using wp_echo_get(6) [OF assms(1)] output_frame [OF fr assms(2-5,7-10), unfolded d] Q assms(6) by (simp add: wp_bindM)
  qed
qed

lemma echo_reply_wp:
  assumes at: "echo_at s p 34 k" and "length (echo_bytes k) \<le> 1024" and "1 < n" and "length (netif_hwaddr s) = 6" and "arp_ok s"
    and k: "ek_src k = le_bytes 4 (current_iphdr_src s)" "ek_dst k = le_bytes 4 (current_iphdr_dest s)"
    and a: "host_addr (current_iphdr_src s)" "\<not> ip4_addr_isbroadcast (current_iphdr_src s) s" "next_hop s (current_iphdr_src s) = Some g"
    "resolved (arp_table s) g mac"
    and Q: "\<And>b d es c. enc_bus None es = (None, chip_frames (echo_bytes (echo_answer mac (netif_hwaddr s) k))) \<Longrightarrow>
      frame_at (with_buf s p b d) p 0 0 (echo_bytes (echo_answer mac (netif_hwaddr s) k)) \<Longrightarrow>
      Q () ((with_buf s p b d)\<lparr>etharp_cached_entry := c, txbusy := True, trace := trace s @ es\<rparr>)"
  shows "wp (echo_reply E M n p (Some (p, 14)) 20) Q H s"
proof -
  let ?chk = "le_bytes 2 (inet_chksum (odd_ptr (Some (p, 14))) (echo_hdr (echo_turned k)))"
  let ?k = "(echo_turned k)\<lparr>ek_chk := ?chk\<rparr>"
  have f: "echo_fields k" using at by (simp add: echo_at_def)
  have turned: "k\<lparr>ek_src := le_bytes 4 (current_iphdr_dest s), ek_dst := le_bytes 4 (current_iphdr_src s), ek_type := ICMP_ER,
      ek_sum := le_bytes 2 (echo_chksum (le_word (ek_sum k))), ek_ttl := ICMP_TTL, ek_chk := le_bytes 2 (0 :: u16)\<rparr> = echo_turned k"
    by (cases k) (use k in \<open>simp add: echo_turned_def le_bytes_2\<close>)
  have eth: "?k\<lparr>ek_eth := mac @ netif_hwaddr s @ [8, 0]\<rparr> = echo_answer mac (netif_hwaddr s) k"
    using inet_chksum_align [of "echo_hdr (echo_turned k)" "odd_ptr (Some (p, 14))"] echo_length [OF echo_turned_fields [OF f]]
    by (simp add: echo_answer_def del: One_nat_def)
  have len: "length (echo_bytes ?k) = length (echo_bytes k)"
  proof -
    have "echo_fields ?k" using echo_turned_fields [OF f] by simp
    moreover have "ek_data ?k = ek_data k" by (simp add: echo_turned_def)
    ultimately show ?thesis using echo_length [OF f] echo_length [of ?k] by simp
  qed
  have out: "wp (ip_output_if E M n p src None ttl tos pr) (\<lambda>_. Q ()) H (with_buf s p b d)"
    if at': "echo_at (with_buf s p b d) p 14 ?k" for b d src ttl tos pr
  proof (rule output_echo [OF at'])
    let ?u = "with_buf s p b d"
    show "ek_dst ?k = le_bytes 4 (current_iphdr_src s)" using k by (simp add: echo_turned_def)
    fix b' d' es c
    assume "enc_bus None es = (None, chip_frames (echo_bytes (?k\<lparr>ek_eth := mac @ netif_hwaddr ?u @ [8, 0]\<rparr>)))"
      "frame_at (with_buf ?u p b' d') p 0 0 (echo_bytes (?k\<lparr>ek_eth := mac @ netif_hwaddr ?u @ [8, 0]\<rparr>))"
    then show "Q () ((with_buf ?u p b' d')\<lparr>etharp_cached_entry := c, txbusy := True, trace := trace ?u @ es\<rparr>)"
      using Q eth by simp
  qed (use assms(2-5) a len in simp_all)
  have move: "wp (pbuf_header p 20) R H (with_buf s p b d)" if "echo_at (with_buf s p b d) p 34 ?k"
    "\<And>b d. echo_at (with_buf s p b d) p 14 ?k \<Longrightarrow> R 0 (with_buf s p b d)" for b d R
    by (rule wp_move [where i = 34 and j = 14 and f = "echo_bytes ?k"])
      (use that f echo_length [of ?k] echo_turned_fields [OF f] in \<open>auto simp: echo_at_def\<close>)
  show ?thesis
    unfolding echo_reply_def wp_bindM wp_gets wp_thenM IP_HLEN_def of_nat_numeral
    apply (rule wp_echo_put(1) [OF at], simp, rule wp_echo_put(2), assumption, simp)
    apply (rule wp_echo_store(1), assumption, rule wp_echo_field(2), assumption, rule wp_echo_store(2), assumption, simp)
    apply (rule wp_echo_put(3), assumption, rule wp_echo_put(4), assumption, simp)
    apply (rule wp_echo_get(7), assumption, rule wp_echo_put(4), assumption, simp)
    subgoal premises prems for b1 d1 b2 d2 b3 d3 b4 d4 b5 d5 b6 d6 b7 d7
      using prems(7) move [of b7 d7] out by (simp add: turned)
    done
qed

section \<open>The way in\<close>

lemma chain_blocks_frame:
  assumes "frame_at s p 0 i f" and "1 < n"
  shows "chain_blocks n p s = Ret [(odd_ptr (Some (p, int i)), drop i f)] s"
proof -
  obtain b d where b: "pbufs s p = Some b" "one_buffer b p 0 i (length f)" "p \<noteq> 0" using assms(1) by (auto simp: frame_at_def)
  have o: "payload b = Some (p, int i)" "pnext b = 0" "unat (len b) = length f - i" "i \<le> length f" using b(2) by (simp_all add: one_buffer_def)
  obtain m where m: "n = Suc (Suc m)" using assms(2) by (metis less_iff_Suc_add plus_1_eq_Suc add_Suc_right add.commute Suc_eq_plus1)
  have "wp (memcpy_from (Some (p, int i)) (length f - i)) (\<lambda>r t. r = drop i f \<and> t = s) (\<lambda>_ _. False) s"
    using wp_mem_get [OF assms(1), of i "length f - i" "\<lambda>r t. r = drop i f \<and> t = s" "\<lambda>_ _. False"] o(4) by simp
  then have "memcpy_from (Some (p, int i)) (length f - i) s = Ret (drop i f) s" by (simp add: wp_eq_Ret)
  then show ?thesis using b(1,3) o m by simp
qed

text \<open>A well-formed echo request for the address \<open>ip\<close> of the host \<open>src\<close>.\<close>

definition ping_for :: "u32 \<Rightarrow> u32 \<Rightarrow> echo_pkt \<Rightarrow> bool" where
  "ping_for ip src k \<longleftrightarrow> echo_fields k \<and> drop 12 (ek_eth k) = [8, 0] \<and> ek_len k = le_bytes 2 (lwip_htons (of_nat (20 + length (echo_msg k)))) \<and>
     (ek_off k = [0, 0] \<or> ek_off k = [0x40, 0]) \<and> ek_src k = le_bytes 4 src \<and> ek_dst k = le_bytes 4 ip \<and> ek_type k = ICMP_ECHO \<and>
     4 \<le> length (ek_data k) \<and> inet_chksum False (echo_hdr k) = 0 \<and> inet_chksum False (echo_msg k) = 0"

lemma echo_room_wp:
  assumes "echo_at s p 34 k" and "\<And>b d. echo_at (with_buf s p b d) p 34 k \<Longrightarrow> Q (Some (p, iphdr)) (with_buf s p b d)"
  shows "wp (echo_room M n p iphdr hlen) Q H s"
proof -
  have h: "int (PBUF_IP_HLEN + PBUF_LINK_HLEN) = 34" by (simp add: pbuf_consts)
  have fr: "frame_at s p 0 34 (echo_bytes k)" and f: "echo_fields k" using assms(1) by (simp_all add: echo_at_def)
  have len: "34 \<le> length (echo_bytes k)" using frame_len [OF fr] by simp
  show ?thesis
    unfolding echo_room_def h wp_bindM
  proof (rule wp_move [OF fr, of 0], goal_cases)
    case (5 b d)
    show ?case
    proof (simp only: simp_thms not_True_eq_False if_False wp_bindM, rule wp_move [OF 5, of 34], goal_cases)
      case (5 b' d')
      then show ?case using assms(2) [of b' d'] f by (simp add: echo_at_def)
    qed (use len in simp_all)
  qed simp_all
qed

lemma inet_chksum_ones: "length bs \<le> 0x20000 \<Longrightarrow> inet_chksum od bs = NOT (of_nat (ones_sum (words_sum bs)))"
proof -
  assume l: "length bs \<le> 0x20000"
  have "inet_chksum od bs = NOT (of_nat (unat (lwip_standard_chksum od bs)))" by (simp add: inet_chksum_def)
  then show ?thesis by (simp only: standard_chksum [OF l])
qed

lemma chain_checksum: "length bs \<le> 0x20000 \<Longrightarrow> inet_chksum False bs = 0 \<Longrightarrow> inet_chksum_pbuf [(od, bs)] = 0"
proof -
  assume l: "length bs \<le> 0x20000" and z: "inet_chksum False bs = 0"
  have "inet_chksum False bs = NOT (of_nat (ones_sum (words_sum bs)))" by (rule inet_chksum_ones [OF l])
  also have "\<dots> = inet_chksum_pbuf [(od, bs)]" using pbuf_chksum [of "[(od, bs)]"] l by (simp add: payload_of_def)
  finally show ?thesis using z by simp
qed

lemma icmp_echo_wp:
  assumes at: "echo_at s p 34 k" and "length (echo_bytes k) \<le> 1024" and n: "1 < n" and "length (netif_hwaddr s) = 6" and "arp_ok s"
    and k: "ping_for (current_iphdr_dest s) (current_iphdr_src s) k" and h: "current_ip4_header s = Some (p, 14)"
    and ip: "\<not> ip_addr_ismulticast (current_iphdr_dest s)"
    and a: "host_addr (current_iphdr_src s)" "\<not> ip4_addr_isbroadcast (current_iphdr_src s) s" "next_hop s (current_iphdr_src s) = Some g"
    "resolved (arp_table s) g mac"
    and Q: "\<And>es c. enc_bus None es = (None, chip_frames (echo_bytes (echo_answer mac (netif_hwaddr s) k))) \<Longrightarrow>
      Q () ((with_buf s p None None)\<lparr>etharp_cached_entry := c, txbusy := True, trace := trace s @ es\<rparr>)"
  shows "wp (icmp_input E M n p) Q H s"
proof -
  have fr: "frame_at s p 0 34 (echo_bytes k)" and f: "echo_fields k" using at by (simp_all add: echo_at_def)
  have kk: "ek_src k = le_bytes 4 (current_iphdr_src s)" "ek_dst k = le_bytes 4 (current_iphdr_dest s)" "ek_type k = ICMP_ECHO"
    "4 \<le> length (ek_data k)" "inet_chksum False (echo_msg k) = 0" using k by (simp_all add: ping_for_def)
  have sum: "inet_chksum_pbuf [(od, echo_msg k)] = 0" for od
    using chain_checksum [OF _ kk(5)] echo_length [OF f] assms(2) by simp
  have reply: "wp (echo_reply E M n p (Some (p, 14)) 20) (\<lambda>_. wp (pbuf_free n p) (\<lambda>_. Q ()) H) H (with_buf s p b d)"
    if at': "echo_at (with_buf s p b d) p 34 k" for b d
  proof (rule echo_reply_wp [OF at'])
    let ?u = "with_buf s p b d"
    fix b' d' es c
    let ?t = "(with_buf ?u p b' d')\<lparr>etharp_cached_entry := c, txbusy := True, trace := trace ?u @ es\<rparr>"
    assume es: "enc_bus None es = (None, chip_frames (echo_bytes (echo_answer mac (netif_hwaddr ?u) k)))"
      and fr': "frame_at (with_buf ?u p b' d') p 0 0 (echo_bytes (echo_answer mac (netif_hwaddr ?u) k))"
    have free: "with_buf ?t p None None = (with_buf s p None None)\<lparr>etharp_cached_entry := c, txbusy := True, trace := trace s @ es\<rparr>"
      by (cases s) (simp add: with_buf_def)
    show "wp (pbuf_free n p) (\<lambda>_. Q ()) H ?t"
      by (rule wp_free_frame [OF frame_cong [OF fr'] n], simp, simp, unfold free, rule Q) (use es in simp)
  qed (use assms(2,4,5) kk a n in simp_all)
  have room: "wp (bindM (echo_room M n p (Some (p, 14)) 20) (\<lambda>r. case r of None \<Rightarrow> X | Some (q, hdr) \<Rightarrow> thenM (echo_reply E M n q hdr 20)
      (thenM (pbuf_free n q) (ret ())))) Q H s" for X
    unfolding wp_bindM by (rule echo_room_wp [OF at]) (use reply in simp)
  show ?thesis
    unfolding icmp_input_def wp_bindM wp_gets h Let_def
  proof (rule wp_echo_get(1) [OF at], rule frame_deref [OF fr], goal_cases)
    case (1 b)
    have len: "unat (len b) = 4 + length (ek_data k)" "tot_len b = len b" using 1(2) echo_length [OF f] by (simp_all add: one_buffer_def)
    have hl: "IPH_HL (le_word [0x45]) * 4 = 20" by (simp add: IPH_HL_def)
    have l: "\<not> unat (len b) < 4" "\<not> unat (tot_len b) < sizeof_icmp_echo_hdr" using len kk(4) by (simp_all add: sizeof_icmp_echo_hdr_def)
    have ty: "le_word [ek_type k] \<noteq> ICMP_ER" "le_word [ek_type k] = ICMP_ECHO" by (simp_all add: kk(3) ICMP_ER_def ICMP_ECHO_def)
    show ?case
      apply (unfold if_not_P [OF l(1)] wp_bindM, rule wp_echo_field(1) [OF at])
      apply (unfold if_not_P [OF ty(1)] if_P [OF ty(2)] wp_bindM wp_gets if_not_P [OF ip] if_not_P [OF l(2)] hl)
      using room chain_blocks_frame [OF fr n] echo_get(10) [OF f] sum by (simp add: wp_def [of "chain_blocks _ _"] del: wp_thenM wp_bindM)
  qed
qed

text \<open>A frame may be longer than the packet in it, because short frames are padded.\<close>

lemma padded_get:
  assumes "frame_at s p 0 i (echo_bytes k @ pad)" and "echo_fields k"
  shows "Q [0x45] s \<Longrightarrow> wp (hdr_get (Some (p, 14)) 0 1) Q H s" "Q (ek_len k) s \<Longrightarrow> wp (hdr_get (Some (p, 14)) 2 2) Q H s"
    "Q (echo_hdr k) s \<Longrightarrow> wp (hdr_get (Some (p, 14)) 0 20) Q H s"
  using assms echo_get [of k] echo_length [of k] wp_hdr_get [of s p 0 i "echo_bytes k @ pad" 14] by simp_all

lemma deliver_echo_wp:
  assumes at: "echo_at s p 14 k" and "length (echo_bytes k) \<le> 1024" and n: "1 < n" and "length (netif_hwaddr s) = 6" and "arp_ok s"
    and k: "ping_for (current_iphdr_dest s) (current_iphdr_src s) k" and h: "current_ip4_header s = Some (p, 14)"
    and ip: "\<not> ip_addr_ismulticast (current_iphdr_dest s)"
    and a: "host_addr (current_iphdr_src s)" "\<not> ip4_addr_isbroadcast (current_iphdr_src s) s" "next_hop s (current_iphdr_src s) = Some g"
    "resolved (arp_table s) g mac"
    and Q: "\<And>es c. enc_bus None es = (None, chip_frames (echo_bytes (echo_answer mac (netif_hwaddr s) k))) \<Longrightarrow>
      Q () ((with_buf s p None None)\<lparr>etharp_cached_entry := c, txbusy := True, trace := trace s @ es\<rparr>)"
  shows "wp (ip_deliver E M n udp_input tcp_input p (Some (p, 14)) 20) Q H s"
proof -
  have fr: "frame_at s p 0 14 (echo_bytes k)" and f: "echo_fields k" using at by (simp_all add: echo_at_def)
  have pr: "le_word [1] \<noteq> IP_PROTO_UDP" "le_word [1] \<noteq> IP_PROTO_TCP" "le_word [1] = IP_PROTO_ICMP" by (simp_all add: ip_consts)
  show ?thesis
    unfolding ip_deliver_def wp_thenM wp_bindM Let_def of_nat_numeral
  proof (rule wp_move [OF fr, of 34], goal_cases)
    case (5 b d)
    then have at': "echo_at (with_buf s p b d) p 34 k" using f by (simp add: echo_at_def)
    show ?case
    proof (rule wp_echo_get(4) [OF at'], unfold if_not_P [OF pr(1)] if_not_P [OF pr(2)] if_P [OF pr(3)], rule icmp_echo_wp [where g = g and mac = mac, OF at'], goal_cases)
      case (12 es c)
      then show ?case using Q [of es c] by simp
    qed (use assms in simp_all)
  qed (use echo_length [OF f] in simp_all)
qed

lemma ip_echo_wp:
  assumes fr: "frame_at s p 0 14 (echo_bytes k @ pad)" and len: "length (echo_bytes k) \<le> 1024" and n: "1 < n" and hw: "length (netif_hwaddr s) = 6"
    and ok: "arp_ok s" and k: "ping_for (netif_ip_addr s) src k" and up: "netif_is_up s" and ip: "host_addr (netif_ip_addr s)"
    and a: "host_addr src" "\<not> ip4_addr_isbroadcast src s" "next_hop s src = Some g" "resolved (arp_table s) g mac"
    and raw: "\<And>u. raw_input p u = Ret 0 u"
    and Q: "\<And>es t. enc_bus None es = (None, chip_frames (echo_bytes (echo_answer mac (netif_hwaddr s) k))) \<Longrightarrow>
      trace t = trace s @ es \<Longrightarrow> pbufs t = (pbufs s)(p := None) \<Longrightarrow> blocks t = (blocks s)(p := None) \<Longrightarrow> arp_table t = arp_table s \<Longrightarrow>
      Q ERR_OK t"
  shows "wp (ip_input E M n raw_input udp_input tcp_input p) Q H s"
proof -
  have f: "echo_fields k" using k by (simp add: ping_for_def)
  let ?ip = "netif_ip_addr s" and ?hlen = "IPH_HL (le_word [0x45]) * 4"
  let ?il = "lwip_ntohs (le_word (ek_len k)) :: u16"
  have hlen: "?hlen = 20" by (simp add: IPH_HL_def)
  have v: "\<not> IPH_V (le_word [0x45]) \<noteq> 4" by (simp add: IPH_V_def)
  have il: "unat ?il = length (echo_bytes k) - 14"
  proof -
    have "ek_len k = le_bytes 2 (lwip_htons (of_nat (20 + length (echo_msg k))))" using k by (simp add: ping_for_def)
    then have "?il = of_nat (20 + length (echo_msg k))" by (simp only: le_word_le_bytes_id len_of_numeral_defs) (simp add: htons_ntohs)
    moreover have "20 + length (echo_msg k) < 65536" using echo_length [OF f] len by simp
    ultimately have "unat ?il = 20 + length (echo_msg k)" by (simp only: unat_of_nat) (simp add: take_bit_nat_eq_self)
    then show ?thesis using echo_length [OF f] by simp
  qed
  have sum: "\<not> inet_chksum (odd_ptr (Some (p, 14))) (echo_hdr k) \<noteq> 0"
    using k inet_chksum_align [of "echo_hdr k" "odd_ptr (Some (p, 14))"] echo_length [OF f] by (simp add: ping_for_def)
  have off: "\<not> le_word (ek_off k) AND lwip_htons (IP_OFFMASK OR IP_MF) \<noteq> 0"
    using k by (auto simp: ping_for_def IP_OFFMASK_def IP_MF_def lwip_htons_def)
  have addr: "le_word (ek_dst k) = ?ip" "le_word (ek_src k) = src" using k by (simp_all add: ping_for_def)
  have deliver: "wp (ip_deliver E M n udp_input tcp_input p (Some (p, 14)) 20) R H ((with_buf s p b d)\<lparr>current_iphdr_dest := ?ip,
      current_iphdr_src := src, current_netif := True, current_ip4_header := Some (p, 14), current_ip_header_tot_len := of_nat 20\<rparr>)"
    if at: "echo_at (with_buf s p b d) p 14 k" and R: "\<And>t es. trace t = trace s @ es \<Longrightarrow> pbufs t = (pbufs s)(p := None) \<Longrightarrow>
      blocks t = (blocks s)(p := None) \<Longrightarrow> arp_table t = arp_table s \<Longrightarrow>
      enc_bus None es = (None, chip_frames (echo_bytes (echo_answer mac (netif_hwaddr s) k))) \<Longrightarrow> R () t" for b d R
  proof -
    let ?u = "(with_buf s p b d)\<lparr>current_iphdr_dest := ?ip,
      current_iphdr_src := src, current_netif := True, current_ip4_header := Some (p, 14), current_ip_header_tot_len := of_nat 20\<rparr>"
    have "frame_at ?u p 0 14 (echo_bytes k)"
      by (rule frame_cong [of "with_buf s p b d"]) (use at in \<open>simp_all add: echo_at_def\<close>)
    then have at': "echo_at ?u p 14 k" using f by (simp add: echo_at_def)
    have env: "\<not> ip4_addr_isbroadcast src ?u" "arp_ok ?u" "next_hop ?u src = Some g"
      using a(2,3) ok broadcast_cong [of ?u s] next_hop_cong [of ?u s] by (simp_all add: arp_ok_def)
    show ?thesis
      by (rule deliver_echo_wp [where g = g and mac = mac, OF at' len n]) (use hw env k a(1,4) ip R in \<open>simp_all add: host_addr_def\<close>)
  qed
  have nl: "\<not> (unat (len b) < 20 \<or> tot_len b < ?il)" if "one_buffer b p 0 14 (length (echo_bytes k @ pad))" for b
    using that il echo_length [OF f] by (simp add: one_buffer_def word_less_nat_alt)
  have here: "accepted_addr ?ip s" using up ip by (simp add: accepted_addr_def host_addr_def ip_addr_isany_def)
  have src: "\<not> (True \<and> \<not> ip_addr_isany src \<and> (ip4_addr_isbroadcast src s \<or> ip_addr_ismulticast src))"
    using a(1,2) by (simp add: host_addr_def)
  have cut: "wp (pbuf_realloc n p ?il) R H s" if "\<And>b d. echo_at (with_buf s p b d) p 14 k \<Longrightarrow> R () (with_buf s p b d)" for R
    by (rule wp_cut_frame [OF fr, of "length (echo_bytes k)"]) (use that il n f echo_length [OF f] in \<open>auto simp: echo_at_def\<close>)
  have acc: "accepted_addr ?ip ((with_buf s p b d)\<lparr>current_iphdr_dest := ?ip, current_iphdr_src := src\<rparr>)"
    "ip4_addr_isbroadcast src ((with_buf s p b d)\<lparr>current_iphdr_dest := ?ip, current_iphdr_src := src\<rparr>) = ip4_addr_isbroadcast src s" for b d
    using here broadcast_cong [of "(with_buf s p b d)\<lparr>current_iphdr_dest := ?ip, current_iphdr_src := src\<rparr>" s src]
    by (simp_all add: accepted_addr_def netif_is_up_def)
  have wp_raw_input: "wp (raw_input p) X H u \<longleftrightarrow> X 0 u" for X u by (simp add: wp_def raw)
  have pl: "payload b = Some (p, 14)" if "one_buffer b p 0 14 l" for b l using that by (simp add: one_buffer_def)
  show ?thesis
    unfolding ip_input_def wp_bindM Let_def
  proof (rule frame_deref [OF fr], goal_cases)
    case (1 b)
    show ?case
      unfolding pl [OF 1(2)]
      apply (rule padded_get(1) [OF fr f], unfold if_not_P [OF v] wp_bindM, rule padded_get(2) [OF fr f])
      apply (unfold hlen if_not_P [OF nl [OF 1(2)]] wp_bindM, rule padded_get(3) [OF fr f], unfold if_not_P [OF sum] wp_thenM, rule cut)
      subgoal premises at for b d
        apply (unfold wp_bindM, rule wp_echo_get(6) [OF at], rule wp_echo_get(5) [OF at], unfold addr)
        apply (unfold accept_packet_def wp_thenM wp_modify wp_bindM wp_gets if_P [OF acc(1)] wp_ret prod.case acc(2) if_not_P [OF src])
        apply (simp only: simp_thms not_True_eq_False if_False wp_bindM)
        apply (rule wp_echo_get(3) [OF echo_cong [OF at]], simp, simp, unfold if_not_P [OF off] wp_thenM wp_modify wp_bindM)
        apply (unfold wp_raw_input wp_whenM wp_thenM wp_modify wp_ret)
        using deliver [OF at] Q by simp
      done
  qed
qed

lemma ethernet_echo_wp:
  assumes fr: "frame_at s p 0 0 (echo_bytes k @ pad)" and f: "echo_fields k" "drop 12 (ek_eth k) = [8, 0]"
    and up: "netif_flags s AND NETIF_FLAG_ETHARP \<noteq> 0"
    and go: "\<And>b d. frame_at (with_buf s p b d) p 0 14 (echo_bytes k @ pad) \<Longrightarrow> wp (inp p) (\<lambda>_. Q ERR_OK) H (with_buf s p b d)"
  shows "wp (ethernet_input E n inp p) Q H s"
proof -
  let ?f = "echo_bytes k @ pad"
  have ty: "take 2 (drop (0 + 12) ?f) = [8, 0]" and l: "14 \<le> length ?f" "38 \<le> length ?f"
    using f echo_length [OF f(1)] by (simp_all add: echo_bytes_def echo_fields_def)
  have ip: "le_word [8, 0] = lwip_htons ETHTYPE_IP" by (rule wire_words(2))
  have rest: "wp (bindM (gets netif_flags) (\<lambda>nf.
           if le_word [8, 0] = lwip_htons ETHTYPE_IP then
             (if nf AND NETIF_FLAG_ETHARP = 0 then X
              else bindM (pbuf_header p (- int SIZEOF_ETH_HDR)) (\<lambda>r.
                if r \<noteq> 0 then Y else thenM (inp p) (ret ERR_OK)))
           else Z nf)) Q H (with_buf s p b d)" if fr': "frame_at (with_buf s p b d) p 0 0 ?f" for b d X Y Z
    unfolding wp_bindM wp_gets with_buf_sel if_not_P [OF up] if_P [OF ip]
    by (rule wp_move [OF fr', of 14]) (use l go in \<open>simp_all add: SIZEOF_ETH_HDR_def\<close>)
  have flag: "frame_at (with_buf s p (Some (b\<lparr>flags := g\<rparr>)) (blocks s p)) p 0 0 ?f" if "pbufs s p = Some b" for b g
    using fr that by (auto simp: frame_at_def one_buffer_def)
  have store: "wp (store p (\<lambda>b. b\<lparr>flags := h b\<rparr>)) R H s \<longleftrightarrow> R () (with_buf s p (Some (b\<lparr>flags := h b\<rparr>)) (blocks s p))"
    if "pbufs s p = Some b" for R b h using that by (simp add: wp_def with_buf_def)
  have mark: "wp (whenM (dest ! 0 AND 1 \<noteq> 0)
                  (if dest ! 0 = LL_MULTICAST_ADDR_0 then
                     whenM (dest ! 1 = LL_MULTICAST_ADDR_1 \<and> dest ! 2 = LL_MULTICAST_ADDR_2)
                       (store p (\<lambda>b. b\<lparr>flags := flags b OR PBUF_FLAG_LLMCAST\<rparr>))
                   else whenM (dest = ethbroadcast) (store p (\<lambda>b. b\<lparr>flags := flags b OR PBUF_FLAG_LLBCAST\<rparr>)))) R H s"
    if b: "pbufs s p = Some b" and R: "\<And>g. R () (with_buf s p (Some (b\<lparr>flags := g\<rparr>)) (blocks s p))" "R () s" for b R dest
    using R by (simp add: store [OF b])
  show ?thesis
    unfolding ethernet_input_def Let_def wp_bindM [of "deref p"]
  proof (rule frame_deref [OF fr], goal_cases)
    case (1 b)
    have nl: "\<not> unat (len b) \<le> SIZEOF_ETH_HDR" using 1(2) l by (simp add: one_buffer_def SIZEOF_ETH_HDR_def)
    show ?case
      apply (unfold if_not_P [OF nl] wp_bindM [of "get_field _ _ _"])
      apply (rule wp_field_get [OF fr], use l in simp, unfold ty, rule wp_field_get [OF fr], use l in simp)
      apply (unfold wp_thenM [of "whenM _ _"], rule mark [OF 1(1)])
      by (rule rest [OF flag [OF 1(1)]], rule rest [of "pbufs s p" "blocks s p", unfolded with_buf_same, OF fr])
  qed
qed

section \<open>The checksums of the answer\<close>

lemma answer_header_passes:
  assumes "echo_fields k"
  shows "inet_chksum od (echo_hdr (echo_answer mac hw k)) = 0"
proof -
  let ?t = "echo_turned k"
  let ?c = "inet_chksum False (echo_hdr ?t)"
  let ?xs = "[0x45, ek_tos k] @ ek_len k @ ek_id k @ ek_off k @ [ICMP_TTL, 1]" and ?ys = "ek_dst k @ ek_src k"
  have sum: "words_sum (?xs @ le_bytes 2 c @ ?ys) = words_sum ?xs + words_sum ?ys + unat c" for c :: u16
  proof -
    have "even (length ?xs)" using assms by (simp add: echo_fields_def)
    then have "words_sum (?xs @ le_bytes 2 c @ ?ys) = words_sum ?xs + words_sum (le_bytes 2 c @ ?ys)" by (rule words_sum_even)
    then show ?thesis unfolding words_sum_pair by simp
  qed
  have hd: "echo_hdr ?t = ?xs @ le_bytes 2 (0 :: u16) @ ?ys" "echo_hdr (echo_answer mac hw k) = ?xs @ le_bytes 2 ?c @ ?ys"
    by (simp_all add: echo_hdr_def echo_turned_def echo_answer_def le_bytes_2)
  let ?w = "words_sum ?xs + words_sum ?ys"
  have len: "length (echo_hdr ?t) \<le> 0x20000" "length (echo_hdr (echo_answer mac hw k)) \<le> 0x20000"
    using assms unfolding hd by (simp_all add: echo_fields_def)
  have "words_sum (echo_hdr ?t) = ?w" unfolding hd(1) sum by simp
  then have "?c = NOT (of_nat (ones_sum ?w))" using inet_chksum_ones [OF len(1), of False] by simp
  then have "unat ?c = 65535 - ones_sum ?w" by (simp only: NOT_of_nat [OF ones_sum_le])
  then have "words_sum (echo_hdr (echo_answer mac hw k)) = ?w + (65535 - ones_sum ?w)" unfolding hd(2) sum by simp
  moreover have "?w \<noteq> 0" by simp
  ultimately show ?thesis using inet_chksum_zero_iff [OF len(2)] complement_passes by simp
qed

lemma answer_message_passes:
  assumes "echo_fields k" and "ek_type k = ICMP_ECHO" and "inet_chksum False (echo_msg k) = 0" and "length (ek_data k) \<le> 0x10000"
  shows "inet_chksum False (echo_msg (echo_answer mac hw k)) = 0 \<or> set (echo_msg (echo_answer mac hw k)) \<subseteq> {0}"
proof -
  obtain x y where xy: "ek_sum k = [x, y]"
    using assms(1) unfolding echo_fields_def by (metis (no_types) length_0_conv length_Suc_conv numeral_2_eq_2)
  have "ek_sum k = le_bytes 2 (le_word (ek_sum k) :: u16)"
    unfolding xy by (simp add: le_bytes_2) (auto intro!: bit_word_eqI simp: bit_simps, drule bit_imp_le_length, simp)
  then have "echo_msg k = icmp_msg ICMP_ECHO (ek_code k) (le_word (ek_sum k)) (ek_data k)"
    using assms(2) by (simp add: echo_msg_def icmp_msg_def)
  moreover have "echo_msg (echo_answer mac hw k) = icmp_msg ICMP_ER (ek_code k) (echo_chksum (le_word (ek_sum k))) (ek_data k)"
    by (simp add: echo_msg_def icmp_msg_def echo_answer_def echo_turned_def)
  ultimately show ?thesis using echo_reply_passes_check assms(3,4) by metis
qed

section \<open>The whole path\<close>

text \<open>
  C33. A ping is answered: when an echo request for the address of the amplifier arrives in one buffer, padded or not and of at most 1024 bytes, from a host whose next hop is
  resolved and not about to expire, the frame that goes to the Ethernet chip is the request with the addresses exchanged, the type changed and the checksums
  adjusted; the buffer is given back and the table stays as it is. The checksum of the new header passes the receiver's test, and so does the one
  of the message, unless all of its bytes are zero.
\<close>

theorem ping_is_answered:
  assumes "arp_ok s" and "length (netif_hwaddr s) = 6" and "netif_is_up s" and "netif_flags s AND NETIF_FLAG_ETHARP \<noteq> 0"
    and "host_addr (netif_ip_addr s)" and "frame_at s p 0 0 (echo_bytes k @ pad)" and "ping_for (netif_ip_addr s) src k"
    and "length (echo_bytes k) \<le> 1024" and "1 < n" and "host_addr src" and "\<not> ip4_addr_isbroadcast src s"
    and "next_hop s src = Some g" and "resolved (arp_table s) g mac" and "\<And>u. raw_input p u = Ret 0 u"
  shows "\<exists>t es. stack_input E M n raw_input udp_input tcp_input p s = Ret ERR_OK t \<and> trace t = trace s @ es \<and>
    enc_bus None es = (None, chip_frames (echo_bytes (echo_answer mac (netif_hwaddr s) k))) \<and>
    pbufs t = (pbufs s)(p := None) \<and> blocks t = (blocks s)(p := None) \<and> arp_table t = arp_table s \<and>
    inet_chksum False (echo_hdr (echo_answer mac (netif_hwaddr s) k)) = 0 \<and>
    (inet_chksum False (echo_msg (echo_answer mac (netif_hwaddr s) k)) = 0 \<or> set (echo_msg (echo_answer mac (netif_hwaddr s) k)) \<subseteq> {0})"
proof -
  have k: "echo_fields k" "drop 12 (ek_eth k) = [8, 0]" "ek_type k = ICMP_ECHO" "inet_chksum False (echo_msg k) = 0"
    using assms(7) by (simp_all add: ping_for_def)
  let ?ok = "\<lambda>r t. r = ERR_OK \<and> (\<exists>es. trace t = trace s @ es \<and>
    enc_bus None es = (None, chip_frames (echo_bytes (echo_answer mac (netif_hwaddr s) k))) \<and>
    pbufs t = (pbufs s)(p := None) \<and> blocks t = (blocks s)(p := None) \<and> arp_table t = arp_table s)"
  have "wp (stack_input E M n raw_input udp_input tcp_input p) ?ok (\<lambda>_ _. False) s"
    unfolding stack_input_def
  proof (rule ethernet_echo_wp [OF assms(6) k(1,2) assms(4)], unfold wp_thenM wp_ret)
    fix b d assume fr: "frame_at (with_buf s p b d) p 0 14 (echo_bytes k @ pad)"
    show "wp (ip_input E M n raw_input udp_input tcp_input p) (\<lambda>_. ?ok ERR_OK) (\<lambda>_ _. False) (with_buf s p b d)"
      by (rule ip_echo_wp [where src = src and g = g and mac = mac, OF fr assms(8,9)]) (use assms in \<open>simp_all add: netif_is_up_def\<close>)
  qed
  moreover have "length (ek_data k) \<le> 0x10000" using assms(8) echo_length [OF k(1)] by simp
  ultimately show ?thesis
    using answer_header_passes [OF k(1)] answer_message_passes [OF k(1,3,4)] unfolding wp_total_ex by blast
qed

text \<open>The host 192.168.1.20 of \<open>EtharpRun\<close>, resolved, sends a request with four bytes of data.\<close>

definition ping_pkt :: echo_pkt where
  "ping_pkt = \<lparr>ek_eth = [2, 0, 0, 0, 0, 1, 2, 0, 0, 0, 0, 9, 8, 0], ek_tos = 0, ek_len = [0, 28], ek_id = [0, 0], ek_off = [0x40, 0], ek_ttl = 64,
     ek_chk = [0xb7, 0x72], ek_src = [192, 168, 1, 20], ek_dst = [192, 168, 1, 10], ek_type = 8, ek_code = 0, ek_sum = [0xf7, 0xfd],
     ek_data = [0, 1, 0, 1]\<rparr>"

definition pinged :: ip_state where
  "pinged = ip_asked\<lparr>netif_flags := NETIF_FLAG_UP OR NETIF_FLAG_ETHARP,
     arp_table := [learned 0x1401a8c0 [2, 0, 0, 0, 0, 9] blank_entry, blank_entry, blank_entry],
     pbufs := [4 \<mapsto> \<lparr>pnext = 0, payload = Some (4, 0), tot_len = 60, len = 60, ptype = PBUF_POOL, flags = 0, ref = 1\<rparr>],
     blocks := [4 \<mapsto> echo_bytes ping_pkt @ replicate 18 0]\<rparr>"

lemma ping_pkt_ok: "ping_for 0x0a01a8c0 0x1401a8c0 ping_pkt" "length (echo_bytes ping_pkt) = 42"
  by (simp_all add: ping_for_def ping_pkt_def echo_fields_def echo_bytes_def echo_hdr_def echo_msg_def le_bytes_2 le_bytes_4 lwip_htons_def ICMP_ECHO_def
      inet_chksum_def lwip_standard_chksum_def FOLD_U32T_def)

lemma pinged_fields [simp]:
  "netif_flags pinged = NETIF_FLAG_UP OR NETIF_FLAG_ETHARP" "netif_hwaddr pinged = [2, 0, 0, 0, 0, 1]" "netif_ip_addr pinged = 0x0a01a8c0"
  "netif_netmask pinged = 0x00ffffff" "arp_table pinged = [learned 0x1401a8c0 [2, 0, 0, 0, 0, 9] blank_entry, blank_entry, blank_entry]"
  "etharp_cached_entry pinged = 0"
  "pbufs pinged = [4 \<mapsto> \<lparr>pnext = 0, payload = Some (4, 0), tot_len = 60, len = 60, ptype = PBUF_POOL, flags = 0, ref = 1\<rparr>]"
  "blocks pinged = [4 \<mapsto> echo_bytes ping_pkt @ replicate 18 0]"
  using asked_ok(4,6) by (simp_all add: pinged_def) (simp_all add: asked_def)

lemma pinged_table: "table_ok [learned 0x1401a8c0 [2, 0, 0, 0, 0, 9] blank_entry, blank_entry, blank_entry]"
proof -
  have "table_ok (replicate 3 blank_entry)" using arp_start_ok by (simp add: arp_ok_def ARP_TABLE_SIZE_def)
  moreover have "only_at (replicate 3 blank_entry) 0 0x1401a8c0" by (simp add: only_at_def blank_entry_def live_def)
  ultimately have "table_ok ((replicate 3 blank_entry)[0 := learned 0x1401a8c0 [2, 0, 0, 0, 0, 9] blank_entry])"
    by (rule table_ok_learned) (simp_all add: asking_host)
  then show ?thesis by (simp add: numeral_3_eq_3)
qed

lemma pinged_ok:
  "arp_ok pinged" "length (netif_hwaddr pinged) = 6" "netif_is_up pinged" "netif_flags pinged AND NETIF_FLAG_ETHARP \<noteq> 0"
  "netif_ip_addr pinged = 0x0a01a8c0" "host_addr 0x0a01a8c0" "frame_at pinged 4 0 0 (echo_bytes ping_pkt @ replicate 18 0)"
  "\<not> ip4_addr_isbroadcast 0x1401a8c0 pinged" "next_hop pinged 0x1401a8c0 = Some 0x1401a8c0"
  "resolved (arp_table pinged) 0x1401a8c0 [2, 0, 0, 0, 0, 9]" "netif_hwaddr pinged = [2, 0, 0, 0, 0, 1]"
  using pinged_table ping_pkt_ok(2)
  by (simp_all add: arp_ok_def ARP_TABLE_SIZE_def netif_is_up_def netif_consts host_addr_def IPADDR_ANY_def IPADDR_BROADCAST_def
      ip_addr_ismulticast_def frame_at_def one_buffer_def ip4_addr_isbroadcast_def next_hop_def ip_addr_netcmp_def resolved_def learned_def
      stable_e_def at_least_stable_def ARP_AGE_REREQUEST_USED_def ARP_MAXAGE_def lwip_htonl_def)

theorem ping_is_answered_witness:
  "\<exists>t es. stack_input ideal_env (bump 9) 9 (\<lambda>_. ret 0) (\<lambda>_. ret ()) (\<lambda>_. ret ()) 4 pinged = Ret ERR_OK t \<and> trace t = trace pinged @ es \<and>
    enc_bus None es = (None, chip_frames (echo_bytes (echo_answer [2, 0, 0, 0, 0, 9] [2, 0, 0, 0, 0, 1] ping_pkt)))"
proof -
  have "\<exists>t es. stack_input ideal_env (bump 9) 9 (\<lambda>_. ret 0) (\<lambda>_. ret ()) (\<lambda>_. ret ()) 4 pinged = Ret ERR_OK t \<and> trace t = trace pinged @ es \<and>
    enc_bus None es = (None, chip_frames (echo_bytes (echo_answer [2, 0, 0, 0, 0, 9] (netif_hwaddr pinged) ping_pkt))) \<and>
    pbufs t = (pbufs pinged)(4 := None) \<and> blocks t = (blocks pinged)(4 := None) \<and> arp_table t = arp_table pinged \<and>
    inet_chksum False (echo_hdr (echo_answer [2, 0, 0, 0, 0, 9] (netif_hwaddr pinged) ping_pkt)) = 0 \<and>
    (inet_chksum False (echo_msg (echo_answer [2, 0, 0, 0, 0, 9] (netif_hwaddr pinged) ping_pkt)) = 0 \<or>
     set (echo_msg (echo_answer [2, 0, 0, 0, 0, 9] (netif_hwaddr pinged) ping_pkt)) \<subseteq> {0})"
    by (rule ping_is_answered [OF pinged_ok(1-4) _ pinged_ok(7)]) (use pinged_ok ping_pkt_ok asking_host(1) in simp_all)
  then show ?thesis unfolding pinged_ok(11) by blast
qed

end
