(* ===== verification/UdpBind.thy ===== *)
theory UdpBind
  imports UdpList Ping
begin

text \<open>
  Binding, connecting and removing control blocks: what the operations do to the list, and that in every state they lead to no two control
  blocks compete for the same datagrams.
\<close>

section \<open>The invariant\<close>

text \<open>
  The bound blocks \<open>xs\<close> are the live ones with a port; they are linked into the list, and no two of them are bound to the same
  address and port, an unspecified address standing for all.
\<close>

definition udp_ok :: "'z udp_state_scheme \<Rightarrow> addr list \<Rightarrow> bool" where
  "udp_ok s xs \<longleftrightarrow> bound s xs \<and> 0xc000 \<le> udp_port s \<and> udp_heap s 0 = None \<and>
     (\<forall>p c. udp_heap s p = Some c \<longrightarrow> blocks s p \<noteq> None \<and> (local_port c \<noteq> 0 \<longleftrightarrow> p \<in> set xs)) \<and>
     (\<forall>x \<in> set xs. \<forall>y \<in> set xs. x \<noteq> y \<longrightarrow> \<not> clash (pcb_at s x) (local_ip (pcb_at s y)) (local_port (pcb_at s y)))"

lemma clash_sym: "clash c (local_ip d) (local_port d) \<longleftrightarrow> clash d (local_ip c) (local_port c)"
  by (auto simp: clash_def)

lemma udp_ok_alive: "udp_ok s xs \<Longrightarrow> x \<in> set xs \<Longrightarrow> \<exists>c. udp_heap s x = Some c \<and> local_port c \<noteq> 0"
  using linked_alive by (fastforce simp: udp_ok_def bound_def)

lemma udp_ok_apart: "udp_ok s xs \<Longrightarrow> x \<in> set xs \<Longrightarrow> y \<in> set xs \<Longrightarrow> x \<noteq> y \<Longrightarrow>
    \<not> clash (pcb_at s x) (local_ip (pcb_at s y)) (local_port (pcb_at s y))"
  by (simp add: udp_ok_def)

lemma udp_ok_heap: "udp_ok s xs \<Longrightarrow> udp_heap s p = Some c \<Longrightarrow> blocks s p \<noteq> None \<and> (local_port c \<noteq> 0 \<longleftrightarrow> p \<in> set xs)"
  unfolding udp_ok_def by blast

lemma udp_ok_live: "udp_ok s xs \<Longrightarrow> udp_heap s p = Some c \<Longrightarrow> p \<noteq> 0"
  by (rule notI) (simp add: udp_ok_def)

text \<open>The state with a block rebound; a block that was not bound comes to the front.\<close>

definition rebound :: "'z udp_state_scheme \<Rightarrow> addr list \<Rightarrow> addr \<Rightarrow> u32 \<Rightarrow> u16 \<Rightarrow> u16 \<Rightarrow> 'z udp_state_scheme" where
  "rebound s xs p ip q v = s\<lparr>udp_port := v, udp_pcbs := if p \<in> set xs then udp_pcbs s else p,
     udp_heap := (udp_heap s)(p \<mapsto> (pcb_at s p)\<lparr>local_ip := ip, local_port := q,
       pcb_next := if p \<in> set xs then pcb_next (pcb_at s p) else udp_pcbs s\<rparr>)\<rparr>"

lemma same_next: "c\<lparr>local_ip := ip, local_port := q, pcb_next := pcb_next c\<rparr> = c\<lparr>local_ip := ip, local_port := q\<rparr>"
  by (cases c) simp

lemma udp_bind_run:
  assumes "udp_ok s xs" and "length xs < n" and "length xs < 0x4000" and "udp_heap s p = Some c"
  shows "if \<exists>x \<in> set xs. x \<noteq> p \<and> clash (pcb_at s x) ip port then udp_bind n p ip port s = Ret ERR_USE s
    else \<exists>q v. udp_bind n p ip port s = Ret ERR_OK (rebound s xs p ip q v) \<and> q \<noteq> 0 \<and> 0xc000 \<le> v \<and>
      (if port = 0 then q = v \<and> q \<notin> used_ports s xs else q = port)"
proof -
  have b: "bound s xs" and v: "0xc000 \<le> udp_port s" using assms(1) by (simp_all add: udp_ok_def)
  have scan: "bind_scan n p ip port (udp_pcbs s) False s =
      Ret (if \<exists>x \<in> set xs. x \<noteq> p \<and> clash (pcb_at s x) ip port then None else Some (p \<in> set xs)) s"
    using bind_scan_run [of s "udp_pcbs s" xs n False] b assms(2) by (simp add: bound_def)
  let ?u = "s\<lparr>udp_heap := (udp_heap s)(p \<mapsto> c\<lparr>local_ip := ip\<rparr>)\<rparr>"
  have b': "bound ?u xs" using b linked_field [of pcb_next "udp_heap s" _ xs p c, OF _ assms(4)] by (simp add: bound_def)
  have used: "used_ports ?u xs = used_ports s xs" unfolding used_ports_def by (rule image_cong) (use assms(4) in \<open>simp_all add: pcb_at_def\<close>)
  obtain r w where r: "udp_new_port n ?u = Ret r (?u\<lparr>udp_port := w\<rparr>)" "0xc000 \<le> w" "r = w" "r \<notin> used_ports s xs"
    using udp_new_port_run [OF b' assms(2)] v ports_left [OF assms(3), of s] unfolding used by auto
  show ?thesis
  proof (cases "\<exists>x \<in> set xs. x \<noteq> p \<and> clash (pcb_at s x) ip port")
    case True
    then show ?thesis using scan by (simp add: udp_bind_def)
  next
    case False
    have scan': "bind_scan n p ip port (udp_pcbs s) False s = Ret (Some (p \<in> set xs)) s" using scan False by simp
    have at: "pcb_at s p = c" by (rule pcb_at_Some [OF assms(4)])
    have r0: "r \<noteq> 0" using r(2,3) by auto
    have "udp_bind n p ip port s = Ret ERR_OK (rebound s xs p ip (if port = 0 then r else port) (if port = 0 then w else udp_port s))"
    proof -
      have "udp_bind n p ip port s = bindM (if port = 0 then udp_new_port n else ret port) (\<lambda>port'. if port' = 0 then ret ERR_USE
          else thenM (upcb_set p (\<lambda>c. c\<lparr>local_port := port'\<rparr>)) (thenM (whenM (p \<notin> set xs) (list_pcb p)) (ret ERR_OK))) ?u"
        using scan' assms(4) by (simp add: udp_bind_def)
      also have "\<dots> = Ret ERR_OK (rebound s xs p ip (if port = 0 then r else port) (if port = 0 then w else udp_port s))"
      proof (cases "port = 0")
        case True
        then show ?thesis using r(1) r0 unfolding rebound_def at by (simp add: same_next)
      next
        case False
        then show ?thesis unfolding rebound_def at by (simp add: same_next)
      qed
      finally show ?thesis .
    qed
    moreover note r0
    ultimately show ?thesis using False r v by (simp split: if_splits) blast+
  qed
qed

text \<open>A block is bound to an address and a port that nobody else has.\<close>

lemma rebound_ok:
  assumes "udp_ok s xs" and "udp_heap s p = Some c" and "q \<noteq> 0" and "0xc000 \<le> v"
    and "\<And>x. x \<in> set xs \<Longrightarrow> x \<noteq> p \<Longrightarrow> \<not> clash (pcb_at s x) ip q"
  shows "udp_ok (rebound s xs p ip q v) (if p \<in> set xs then xs else p # xs)"
proof -
  let ?t = "rebound s xs p ip q v" and ?ys = "if p \<in> set xs then xs else p # xs"
  have b: "bound s xs" and p0: "p \<noteq> 0" using assms(1) udp_ok_live [OF assms(1,2)] by (simp_all add: udp_ok_def)
  have at: "pcb_at s p = c" by (rule pcb_at_Some [OF assms(2)])
  have tp: "pcb_at ?t x = (if x = p then c\<lparr>local_ip := ip, local_port := q, pcb_next := if p \<in> set xs then pcb_next c else udp_pcbs s\<rparr>
      else pcb_at s x)" for x by (simp add: rebound_def pcb_at_def assms(2))
  have "bound ?t ?ys"
  proof (cases "p \<in> set xs")
    case True
    then show ?thesis using b linked_field [of pcb_next "udp_heap s" "udp_pcbs s" xs p c, OF _ assms(2)] by (simp add: bound_def rebound_def at)
  next
    case False
    then show ?thesis using b p0 linked_upd [of pcb_next "udp_heap s" "udp_pcbs s" xs p] by (simp add: bound_def rebound_def linked_Cons at del: fun_upd_apply)
  qed
  moreover have "\<not> clash (pcb_at ?t x) (local_ip (pcb_at ?t y)) (local_port (pcb_at ?t y))" if xy: "x \<in> set ?ys" "y \<in> set ?ys" "x \<noteq> y" for x y
  proof -
    have "x \<in> set xs \<or> x = p" "y \<in> set xs \<or> y = p" using xy(1,2) by (auto split: if_splits)
    then consider "x = p" "y \<in> set xs" "y \<noteq> p" | "y = p" "x \<in> set xs" "x \<noteq> p" | "x \<in> set xs" "y \<in> set xs" "x \<noteq> p" "y \<noteq> p" using xy(3) by blast
    then show ?thesis
    proof cases
      case 1
      then show ?thesis using assms(5) [of y] unfolding tp by (auto simp: clash_def)
    next
      case 2
      then show ?thesis using assms(5) [of x] unfolding tp by simp
    next
      case 3
      then show ?thesis using assms(1) xy(3) unfolding tp by (simp add: udp_ok_def)
    qed
  qed
  ultimately show ?thesis
    using assms p0 by (auto simp: udp_ok_def rebound_def split: if_splits)
qed

text \<open>Fields other than the local address, the local port and the pointer do not matter.\<close>

lemma udp_ok_field:
  assumes "udp_ok s xs" and "udp_heap s p = Some c" and "local_ip c' = local_ip c" and "local_port c' = local_port c" and "pcb_next c' = pcb_next c"
  shows "udp_ok (s\<lparr>udp_heap := (udp_heap s)(p \<mapsto> c')\<rparr>) xs"
proof -
  let ?t = "s\<lparr>udp_heap := (udp_heap s)(p \<mapsto> c')\<rparr>"
  have "local_ip (pcb_at ?t x) = local_ip (pcb_at s x)" "local_port (pcb_at ?t x) = local_port (pcb_at s x)" for x
    using assms(2-4) by (simp_all add: pcb_at_def)
  moreover have "bound ?t xs"
    using assms(1) linked_field [of pcb_next "udp_heap s" "udp_pcbs s" xs p c, OF _ assms(2)] assms(5) by (simp add: bound_def udp_ok_def)
  ultimately show ?thesis using assms(1,2,4) udp_ok_live [OF assms(1,2)] by (auto simp: udp_ok_def clash_def)
qed

text \<open>The list in another order: only pointers have changed.\<close>

definition relinked :: "'z udp_state_scheme \<Rightarrow> 'z udp_state_scheme \<Rightarrow> bool" where
  "relinked s t \<longleftrightarrow> (\<exists>hp ps. t = s\<lparr>udp_heap := hp, udp_pcbs := ps\<rparr> \<and>
     (\<forall>p. map_option (pcb_next_update (\<lambda>_. 0)) (hp p) = map_option (pcb_next_update (\<lambda>_. 0)) (udp_heap s p)))"

lemma relinked_refl: "relinked s s"
  unfolding relinked_def by (intro exI [of _ "udp_heap s"] exI [of _ "udp_pcbs s"]) simp

lemma relinked_next:
  assumes "relinked s t" and "udp_heap t p = Some c"
  shows "relinked s (t\<lparr>udp_heap := (udp_heap t)(p \<mapsto> c\<lparr>pcb_next := q\<rparr>)\<rparr>)"
proof -
  obtain hp ps where t: "t = s\<lparr>udp_heap := hp, udp_pcbs := ps\<rparr>"
    and e: "\<And>p. map_option (pcb_next_update (\<lambda>_. 0)) (hp p) = map_option (pcb_next_update (\<lambda>_. 0)) (udp_heap s p)"
    using assms(1) by (auto simp: relinked_def)
  have "hp p = Some c" using assms(2) t by simp
  then have "map_option (pcb_next_update (\<lambda>_. 0)) ((hp(p \<mapsto> c\<lparr>pcb_next := q\<rparr>)) x) = map_option (pcb_next_update (\<lambda>_. 0)) (udp_heap s x)" for x
    using e [of x] by auto
  then show ?thesis unfolding relinked_def t by (intro exI [of _ "hp(p \<mapsto> c\<lparr>pcb_next := q\<rparr>)"] exI [of _ ps]) simp
qed

lemma relinked_head: "relinked s t \<Longrightarrow> relinked s (t\<lparr>udp_pcbs := q\<rparr>)"
  unfolding relinked_def
proof (elim exE conjE)
  fix hp ps
  assume "t = s\<lparr>udp_heap := hp, udp_pcbs := ps\<rparr>"
    and "\<forall>p. map_option (pcb_next_update (\<lambda>_. 0)) (hp p) = map_option (pcb_next_update (\<lambda>_. 0)) (udp_heap s p)"
  then show "\<exists>hp ps. t\<lparr>udp_pcbs := q\<rparr> = s\<lparr>udp_heap := hp, udp_pcbs := ps\<rparr> \<and>
      (\<forall>p. map_option (pcb_next_update (\<lambda>_. 0)) (hp p) = map_option (pcb_next_update (\<lambda>_. 0)) (udp_heap s p))"
    by (intro exI [of _ hp] exI [of _ q]) simp
qed

lemma relinked_at:
  assumes "relinked s t" and "udp_heap s p = Some c"
  shows "\<exists>q. udp_heap t p = Some (c\<lparr>pcb_next := q\<rparr>)"
proof -
  have "map_option (pcb_next_update (\<lambda>_. 0)) (udp_heap t p) = map_option (pcb_next_update (\<lambda>_. 0)) (udp_heap s p)"
    using assms(1) by (auto simp: relinked_def)
  then obtain d where "udp_heap t p = Some d" "d\<lparr>pcb_next := 0\<rparr> = c\<lparr>pcb_next := 0\<rparr>" using assms(2) by auto
  moreover from this have "d = c\<lparr>pcb_next := pcb_next d\<rparr>" by (cases c; cases d) simp
  ultimately show ?thesis by metis
qed

lemma relinked_none: "relinked s t \<Longrightarrow> udp_heap t p = None \<longleftrightarrow> udp_heap s p = None"
  by (auto simp: relinked_def) (metis option.map_disc_iff)+

lemma relinked_same:
  assumes "relinked s t"
  shows "local_ip (pcb_at t p) = local_ip (pcb_at s p)" "local_port (pcb_at t p) = local_port (pcb_at s p)"
  using relinked_none [OF assms, of p] relinked_at [OF assms, of p] by (cases "udp_heap s p"; auto simp: pcb_at_def)+

lemma relinked_rest: "relinked s t \<Longrightarrow> udp_port t = udp_port s \<and> blocks t = blocks s"
  by (auto simp: relinked_def)

lemma relinked_ok:
  assumes "udp_ok s xs" and "relinked s t" and "bound t ys" and "set ys = set xs"
  shows "udp_ok t ys"
proof -
  have "blocks t p \<noteq> None \<and> (local_port c \<noteq> 0 \<longleftrightarrow> p \<in> set ys)" if c: "udp_heap t p = Some c" for p c
  proof -
    obtain d where d: "udp_heap s p = Some d" using c relinked_none [OF assms(2), of p] by fastforce
    then have "local_port c = local_port d" using relinked_at [OF assms(2) d] c by auto
    then show ?thesis using assms(1,4) d relinked_rest [OF assms(2)] by (simp add: udp_ok_def)
  qed
  moreover have "udp_heap t 0 = None" using assms(1) relinked_none [OF assms(2)] by (simp add: udp_ok_def)
  ultimately show ?thesis
    using assms(1,3,4) relinked_rest [OF assms(2)] by (simp add: udp_ok_def clash_def relinked_same [OF assms(2)])
qed

section \<open>Unlinking\<close>

lemma unlink_loop_skip:
  "linked pcb_next (udp_heap s) p2 ys \<Longrightarrow> length ys < n \<Longrightarrow> p \<notin> set ys \<Longrightarrow> unlink_loop n p p2 s = Ret () s"
proof (induction ys arbitrary: p2 n)
  case Nil
  then show ?case by (cases n) auto
next
  case (Cons y ys)
  then obtain k c where c: "n = Suc k" "udp_heap s y = Some c" "p2 = y" "y \<noteq> 0" "linked pcb_next (udp_heap s) (pcb_next c) ys"
    by (cases n) (auto simp: linked_Cons)
  have "\<not> (pcb_next c \<noteq> 0 \<and> pcb_next c = p)" using c(5) Cons.prems(3) by (cases ys) (auto simp: linked_Cons)
  then show ?case using Cons.IH [OF c(5), of k] Cons.prems(2,3) c(1-4) by auto
qed

lemma unlink_loop_run:
  assumes "linked pcb_next (udp_heap s) p2 (us @ a # p # vs)" and "length us + length vs + 2 < n" and "udp_heap s a = Some c" and "udp_heap s p = Some d"
  shows "unlink_loop n p p2 s = Ret () (s\<lparr>udp_heap := (udp_heap s)(a \<mapsto> c\<lparr>pcb_next := pcb_next d\<rparr>)\<rparr>)"
  using assms(1,2)
proof (induction us arbitrary: p2 n)
  case Nil
  then obtain k where k: "n = Suc k" "p2 = a" "a \<noteq> 0" "pcb_next c = p" "p \<noteq> 0" using assms(3) by (cases n) (auto simp: linked_Cons)
  let ?t = "s\<lparr>udp_heap := (udp_heap s)(a \<mapsto> c\<lparr>pcb_next := pcb_next d\<rparr>)\<rparr>"
  have dis: "p \<notin> set vs" "a \<notin> set vs" "a \<noteq> p" using linked_distinct [OF Nil(1)] by auto
  have "linked pcb_next (udp_heap s) (pcb_next d) vs" using Nil(1) assms(3,4) by (auto simp: linked_Cons)
  then have "linked pcb_next (udp_heap ?t) (pcb_next d) vs" using dis(2) by (simp add: linked_upd)
  then have "unlink_loop k p (pcb_next d) ?t = Ret () ?t" using Nil(2) k(1) dis(1) by (intro unlink_loop_skip) simp_all
  then show ?case using k assms(3,4) dis(3) by (simp add: fun_upd_def)
next
  case (Cons y us)
  then obtain k e where e: "n = Suc k" "udp_heap s y = Some e" "p2 = y" "y \<noteq> 0" "linked pcb_next (udp_heap s) (pcb_next e) (us @ a # p # vs)"
    by (cases n) (auto simp: linked_Cons)
  have "pcb_next e \<noteq> p"
  proof -
    have "distinct (us @ a # p # vs)" by (rule linked_distinct [OF e(5)])
    then show ?thesis using e(5) by (cases us) (auto simp: linked_Cons)
  qed
  then show ?case using Cons.IH [OF e(5), of k] Cons.prems(2) e(1-4) by simp
qed

text \<open>The control block is out of the list and out of memory, and nothing else has changed but pointers.\<close>

lemma udp_remove_run:
  assumes "udp_ok s xs" and "length xs < n" and "udp_heap s p = Some d"
  shows "\<exists>t. udp_remove n p s = Ret () (t\<lparr>udp_heap := (udp_heap t)(p := None), blocks := (blocks t)(p := None)\<rparr>) \<and>
    relinked s t \<and> bound t (remove1 p xs)"
proof -
  have b: "linked pcb_next (udp_heap s) (udp_pcbs s) xs" using assms(1) by (simp add: udp_ok_def bound_def)
  have p0: "p \<noteq> 0" by (rule udp_ok_live [OF assms(1,3)])
  consider (first) vs where "xs = p # vs" | (later) us a vs where "xs = us @ a # p # vs" "udp_pcbs s \<noteq> p" | (out) "p \<notin> set xs" "udp_pcbs s \<noteq> p"
  proof (cases "p \<in> set xs")
    case True
    then obtain us vs where xs: "xs = us @ p # vs" "p \<notin> set us" by (meson split_list_first)
    show ?thesis
    proof (cases us rule: rev_cases)
      case (snoc ws a)
      have "udp_pcbs s \<noteq> p" using b xs snoc by (cases ws) (auto simp: linked_Cons)
      then show ?thesis using later xs snoc by simp
    qed (use first xs in simp)
  next
    case False
    then have "udp_pcbs s \<noteq> p" using b p0 by (cases xs) (auto simp: linked_Cons)
    then show ?thesis using out False by blast
  qed
  then show ?thesis
  proof cases
    case first
    then have "udp_pcbs s = p" "linked pcb_next (udp_heap s) (pcb_next d) vs" using b assms(3) by (auto simp: linked_Cons)
    then show ?thesis using assms(3) first
      by (intro exI [of _ "s\<lparr>udp_pcbs := pcb_next d\<rparr>"]) (simp add: udp_remove_def bound_def relinked_head [OF relinked_refl])
  next
    case later
    then obtain c where c: "udp_heap s a = Some c" using linked_alive [OF b, of a] by auto
    let ?t = "s\<lparr>udp_heap := (udp_heap s)(a \<mapsto> c\<lparr>pcb_next := pcb_next d\<rparr>)\<rparr>"
    have "linked pcb_next ((udp_heap s)(a \<mapsto> c\<lparr>pcb_next := pcb_next d\<rparr>)) (udp_pcbs s) (us @ a # vs)"
      by (rule linked_unlink [where b = p and cb = d]) (use b later c assms(3) in simp_all)
    moreover have "p \<notin> set us" "a \<noteq> p" using linked_distinct [OF b] later by auto
    then have "remove1 p xs = us @ a # vs" using later by (simp add: remove1_append)
    ultimately have "bound ?t (remove1 p xs)" by (simp add: bound_def)
    moreover have "unlink_loop n p (udp_pcbs s) s = Ret () ?t"
      by (rule unlink_loop_run [where us = us and vs = vs]) (use b later c assms in simp_all)
    ultimately show ?thesis using later(2) assms(3) \<open>a \<noteq> p\<close> relinked_next [OF relinked_refl c]
      by (intro exI [of _ ?t]) (simp add: udp_remove_def)
  next
    case out
    then show ?thesis using unlink_loop_skip [OF b assms(2)] assms(3) b relinked_refl
      by (intro exI [of _ s]) (simp add: udp_remove_def bound_def remove1_idem)
  qed
qed

lemma removed_ok:
  assumes "udp_ok s xs" and "relinked s t" and "bound t (remove1 p xs)"
  shows "udp_ok (t\<lparr>udp_heap := (udp_heap t)(p := None), blocks := (blocks t)(p := None)\<rparr>) (remove1 p xs)"
proof -
  let ?u = "t\<lparr>udp_heap := (udp_heap t)(p := None), blocks := (blocks t)(p := None)\<rparr>"
  have dis: "distinct xs" using assms(1) linked_distinct by (auto simp: udp_ok_def bound_def)
  have ys: "set (remove1 p xs) = set xs - {p}" by (rule set_remove1_eq [OF dis])
  have at: "pcb_at ?u x = pcb_at t x" if "x \<noteq> p" for x using that by (simp add: pcb_at_def)
  have "bound ?u (remove1 p xs)" using assms(3) linked_upd [of pcb_next "udp_heap t" "udp_pcbs t" "remove1 p xs" p None] ys by (simp add: bound_def)
  moreover have "blocks ?u q \<noteq> None \<and> (local_port c \<noteq> 0 \<longleftrightarrow> q \<in> set xs - {p})" if c: "udp_heap ?u q = Some c" for q c
  proof -
    have q: "q \<noteq> p" "udp_heap t q = Some c" using c by (auto split: if_splits)
    then obtain d where d: "udp_heap s q = Some d" using relinked_none [OF assms(2), of q] by fastforce
    then have "local_port c = local_port d" using relinked_at [OF assms(2) d] q(2) by auto
    then show ?thesis using assms(1) d q(1) relinked_rest [OF assms(2)] by (simp add: udp_ok_def)
  qed
  moreover have "\<not> clash (pcb_at ?u x) (local_ip (pcb_at ?u y)) (local_port (pcb_at ?u y))"
    if "x \<in> set xs - {p}" "y \<in> set xs - {p}" "x \<noteq> y" for x y
    using udp_ok_apart [OF assms(1)] that by (simp add: at clash_def relinked_same [OF assms(2)]) blast
  moreover have "udp_heap ?u 0 = None" using assms(1) relinked_none [OF assms(2)] by (simp add: udp_ok_def)
  ultimately show ?thesis using assms(1) relinked_rest [OF assms(2)] by (simp add: udp_ok_def ys)
qed

section \<open>The operations keep the invariant\<close>

lemma udp_new_run:
  assumes "udp_ok s xs" and "malloc_ok M"
  shows "\<exists>a t. udp_new M s = Ret a t \<and> udp_ok t xs"
proof -
  obtain a mem where m: "M (pbufs s) (blocks s) (mallocs s) memp_size_UDP_PCB = (a, mem)" by fastforce
  show ?thesis
  proof (cases "a = 0")
    case True
    then show ?thesis using assms(1) m by (simp add: udp_new_def udp_ok_def bound_def pcb_at_def)
  next
    case False
    have new: "blocks s a = None" using assms(2) m False unfolding malloc_ok_def by blast
    then have h: "udp_heap s a = None" using udp_ok_heap [OF assms(1), of a] by (cases "udp_heap s a") auto
    have xs: "a \<notin> set xs" using h udp_ok_alive [OF assms(1)] by fastforce
    let ?c = "\<lparr>local_ip = 0, remote_ip = 0, so_options = 0, pcb_tos = 0, pcb_ttl = UDP_TTL, pcb_next = 0,
      pcb_flags = 0, local_port = 0, remote_port = 0, pcb_recv = 0, pcb_recv_arg = 0\<rparr>"
    let ?t = "s\<lparr>mallocs := mallocs s + 1, blocks := (blocks s)(a \<mapsto> mem), udp_heap := (udp_heap s)(a \<mapsto> ?c)\<rparr>"
    have "pcb_at ?t x = pcb_at s x" if "x \<in> set xs" for x using that xs by (auto simp: pcb_at_def)
    moreover have "bound ?t xs" using assms(1) xs linked_upd [of pcb_next "udp_heap s" "udp_pcbs s" xs a] by (simp add: udp_ok_def bound_def)
    ultimately have "udp_ok ?t xs" using assms(1) xs False by (auto simp: udp_ok_def)
    moreover have "udp_new M s = Ret a ?t" using m False by (simp add: udp_new_def)
    ultimately show ?thesis by blast
  qed
qed

lemma bind_keeps:
  assumes "udp_ok s xs" and "length xs < n" and "length xs < 0x4000" and "udp_heap s p = Some c"
  shows "\<exists>r t. udp_bind n p ip port s = Ret r t \<and> (\<exists>ys. udp_ok t ys \<and> length ys \<le> length xs + 1 \<and> (r = ERR_OK \<longrightarrow> p \<in> set ys))
    \<and> (\<exists>d. udp_heap t p = Some d)"
proof (cases "\<exists>x \<in> set xs. x \<noteq> p \<and> clash (pcb_at s x) ip port")
  case True
  then show ?thesis using udp_bind_run [OF assms, of ip port] assms(1,4) by (auto simp: ERR_USE_def ERR_OK_def)
next
  case False
  then obtain q v where q: "udp_bind n p ip port s = Ret ERR_OK (rebound s xs p ip q v)" "q \<noteq> 0" "0xc000 \<le> v"
    "if port = 0 then q = v \<and> q \<notin> used_ports s xs else q = port"
    using udp_bind_run [OF assms, of ip port] unfolding if_not_P [OF False] by blast
  have "\<not> clash (pcb_at s x) ip q" if "x \<in> set xs" "x \<noteq> p" for x
    using that q(4) False by (cases "port = 0") (auto simp: clash_def used_ports_def)
  then have "udp_ok (rebound s xs p ip q v) (if p \<in> set xs then xs else p # xs)" using rebound_ok [OF assms(1,4) q(2,3)] by blast
  then show ?thesis using q(1)
    by (intro exI [of _ ERR_OK] exI [of _ "rebound s xs p ip q v"]) (auto simp: rebound_def split: if_splits intro: exI [of _ "p # xs"])
qed

section \<open>Finding the receiver\<close>

text \<open>The control blocks that are connected to the sender of the current datagram, and those that are open to all senders.\<close>

definition takes_from :: "'z udp_state_scheme \<Rightarrow> u16 \<Rightarrow> u16 \<Rightarrow> bool \<Rightarrow> addr \<Rightarrow> bool" where
  "takes_from s src dest bc x \<longleftrightarrow> local_match (pcb_at s x) dest bc s \<and> remote_match (pcb_at s x) src s"

definition takes_all :: "'z udp_state_scheme \<Rightarrow> u16 \<Rightarrow> bool \<Rightarrow> addr \<Rightarrow> bool" where
  "takes_all s dest bc x \<longleftrightarrow> local_match (pcb_at s x) dest bc s \<and> pcb_flags (pcb_at s x) AND UDP_FLAGS_CONNECTED = 0"

definition first_of :: "(addr \<Rightarrow> bool) \<Rightarrow> addr list \<Rightarrow> addr" where
  "first_of P xs = (case find P xs of Some x \<Rightarrow> x | None \<Rightarrow> 0)"

definition receiver :: "'z udp_state_scheme \<Rightarrow> addr list \<Rightarrow> u16 \<Rightarrow> u16 \<Rightarrow> bool \<Rightarrow> addr" where
  "receiver s xs src dest bc =
     (case find (takes_from s src dest bc) xs of Some x \<Rightarrow> x | None \<Rightarrow> first_of (takes_all s dest bc) xs)"

text \<open>The list afterwards: a block that is connected to the sender comes first.\<close>

definition reordered :: "'z udp_state_scheme \<Rightarrow> addr list \<Rightarrow> u16 \<Rightarrow> u16 \<Rightarrow> bool \<Rightarrow> addr list" where
  "reordered s xs src dest bc = (case find (takes_from s src dest bc) xs of Some x \<Rightarrow> x # remove1 x xs | None \<Rightarrow> xs)"

lemma to_front_run:
  assumes "bound s (us @ a # x # vs)"
  shows "\<exists>t. to_front a x s = Ret () t \<and> relinked s t \<and> bound t (x # us @ a # vs)"
proof -
  have b: "linked pcb_next (udp_heap s) (udp_pcbs s) (us @ a # x # vs)" using assms by (simp add: bound_def)
  obtain c d where c: "udp_heap s a = Some c" "udp_heap s x = Some d" "x \<noteq> 0"
    using linked_alive [OF b, of a] linked_alive [OF b, of x] by auto
  have dis: "x \<notin> set (us @ a # vs)" using linked_distinct [OF b] by auto
  let ?u = "s\<lparr>udp_heap := (udp_heap s)(a \<mapsto> c\<lparr>pcb_next := pcb_next d\<rparr>)\<rparr>"
  have u: "udp_heap ?u x = Some d" "udp_pcbs ?u = udp_pcbs s" using c dis by auto
  let ?t = "?u\<lparr>udp_heap := (udp_heap ?u)(x \<mapsto> d\<lparr>pcb_next := udp_pcbs s\<rparr>)\<rparr>\<lparr>udp_pcbs := x\<rparr>"
  have "linked pcb_next (udp_heap ?u) (udp_pcbs s) (us @ a # vs)"
    using linked_unlink [OF b c(1,2), of "c\<lparr>pcb_next := pcb_next d\<rparr>"] by simp
  then have "linked pcb_next ((udp_heap ?u)(x \<mapsto> d\<lparr>pcb_next := udp_pcbs s\<rparr>)) (udp_pcbs s) (us @ a # vs)" by (rule linked_upd [OF _ dis])
  then have "bound ?t (x # us @ a # vs)" using c(3) by (simp add: bound_def linked_Cons)
  moreover have "to_front a x s = Ret () ?t"
    using c(1,2) list_pcb_run [OF u(1)] by (simp add: to_front_def)
  moreover have "relinked s ?t" by (rule relinked_head [OF relinked_next [OF relinked_next [OF relinked_refl c(1)] u(1)]])
  ultimately show ?thesis by blast
qed

lemma match_loop_run:
  assumes "bound s (us @ ys)" and "linked pcb_next (udp_heap s) p ys" and "length ys < n" and "prev = (if us = [] then 0 else last us)"
  shows "case find (takes_from s src dest bc) ys of
      None \<Rightarrow> match_loop n src dest bc prev p unc s = Ret (0, if unc = 0 then first_of (takes_all s dest bc) ys else unc) s
    | Some x \<Rightarrow> \<exists>u t. match_loop n src dest bc prev p unc s = Ret (x, u) t \<and> relinked s t \<and> bound t (x # remove1 x (us @ ys))"
  using assms
proof (induction ys arbitrary: us p n prev unc)
  case Nil
  then show ?case by (cases n) (auto simp: first_of_def)
next
  case (Cons y ys)
  then obtain k c where c: "n = Suc k" "udp_heap s y = Some c" "p = y" "y \<noteq> 0" "linked pcb_next (udp_heap s) (pcb_next c) ys"
    by (cases n) (auto simp: linked_Cons)
  have at: "pcb_at s y = c" by (rule pcb_at_Some [OF c(2)])
  have dis: "distinct (us @ y # ys)" by (rule linked_distinct [OF Cons.prems(1) [unfolded bound_def]])
  let ?unc = "if local_match c dest bc s \<and> unc = 0 \<and> pcb_flags c AND UDP_FLAGS_CONNECTED = 0 then y else unc"
  have run: "match_loop n src dest bc prev p unc s = (if takes_from s src dest bc y
      then thenM (whenM (prev \<noteq> 0) (to_front prev y)) (ret (y, ?unc)) s
      else match_loop k src dest bc y (pcb_next c) ?unc s)"
    using c at by (simp add: takes_from_def Let_def)
  show ?case
  proof (cases "takes_from s src dest bc y")
    case True
    show ?thesis
    proof (cases us rule: rev_cases)
      case Nil
      then show ?thesis using run True Cons.prems(1,4) relinked_refl by auto
    next
      case (snoc ws a)
      have a: "prev = a" "a \<noteq> 0" using Cons.prems(4) snoc linked_alive [OF Cons.prems(1) [unfolded bound_def], of a] by auto
      obtain t where t: "to_front a y s = Ret () t" "relinked s t" "bound t (y # ws @ a # ys)"
        using to_front_run [of s ws a y ys] Cons.prems(1) snoc by auto
      moreover have "remove1 y (us @ y # ys) = ws @ a # ys" using dis snoc by (simp add: remove1_append)
      ultimately show ?thesis using run True a by auto
    qed
  next
    case False
    have b': "bound s ((us @ [y]) @ ys)" using Cons.prems(1) by simp
    have "takes_all s dest bc y \<longleftrightarrow> local_match c dest bc s \<and> pcb_flags c AND UDP_FLAGS_CONNECTED = 0" by (simp add: takes_all_def at)
    then have f: "(if ?unc = 0 then first_of (takes_all s dest bc) ys else ?unc) = (if unc = 0 then first_of (takes_all s dest bc) (y # ys) else unc)"
      using c(4) by (auto simp: first_of_def)
    have "case find (takes_from s src dest bc) ys of
        None \<Rightarrow> match_loop k src dest bc y (pcb_next c) ?unc s = Ret (0, if ?unc = 0 then first_of (takes_all s dest bc) ys else ?unc) s
      | Some x \<Rightarrow> \<exists>u t. match_loop k src dest bc y (pcb_next c) ?unc s = Ret (x, u) t \<and> relinked s t \<and> bound t (x # remove1 x ((us @ [y]) @ ys))"
      by (rule Cons.IH [OF b' c(5)]) (use Cons.prems(3) c(1) in simp_all)
    moreover have "match_loop n src dest bc prev p unc s = match_loop k src dest bc y (pcb_next c) ?unc s" using run False by (simp only: if_False)
    moreover have "find (takes_from s src dest bc) (y # ys) = find (takes_from s src dest bc) ys" using False by simp
    ultimately show ?thesis unfolding f by (simp only: append_assoc append.simps)
  qed
qed

text \<open>Datagrams for the port of the DHCP client go to it, and only from a DHCP server.\<close>

lemma udp_find_run:
  assumes "udp_ok s xs" and "length xs < n" and "dest \<noteq> DHCP_CLIENT_PORT"
  shows "\<exists>t. udp_find n src dest bc s = Ret (receiver s xs src dest bc) t \<and> relinked s t \<and> bound t (reordered s xs src dest bc)"
proof -
  have b: "bound s xs" "linked pcb_next (udp_heap s) (udp_pcbs s) xs" using assms(1) by (simp_all add: udp_ok_def bound_def)
  note m = match_loop_run [of s "[]" xs "udp_pcbs s" n 0 src dest bc 0, simplified, OF b assms(2)]
  show ?thesis
  proof (cases "find (takes_from s src dest bc) xs")
    case None
    then show ?thesis using m assms(3) b(1) relinked_refl by (simp add: udp_find_def receiver_def reordered_def)
  next
    case (Some x)
    then have "x \<in> set xs" by (auto simp: find_Some_iff)
    then have "x \<noteq> 0" using linked_alive [OF b(2)] by simp
    then show ?thesis using m assms(3) Some by (auto simp: udp_find_def receiver_def reordered_def)
  qed
qed

lemma set_reordered: "distinct xs \<Longrightarrow> set (reordered s xs src dest bc) = set xs"
  by (auto simp: reordered_def find_Some_iff set_remove1_eq split: option.splits)

section \<open>Every sequence of operations\<close>

lemma connect_keeps:
  assumes "udp_ok s xs" and "length xs + 1 < n" and "length xs < 0x4000" and "udp_heap s p = Some c"
  shows "\<exists>r t ys. udp_connect n p ip port s = Ret r t \<and> udp_ok t ys"
proof -
  let ?m = "if local_port c = 0 then udp_bind n p (local_ip c) (local_port c) else ret ERR_OK"
  obtain r t ys d where t: "?m s = Ret r t" "udp_ok t ys" "length ys \<le> length xs + 1" "r = ERR_OK \<longrightarrow> p \<in> set ys" "udp_heap t p = Some d"
  proof (cases "local_port c = 0")
    case True
    then show ?thesis using that bind_keeps [OF assms(1) _ assms(3,4), of n "local_ip c" "local_port c"] assms(2) by auto
  next
    case False
    then show ?thesis using that [of ERR_OK s xs c] assms udp_ok_heap [OF assms(1,4)] by simp
  qed
  show ?thesis
  proof (cases "r = ERR_OK")
    case False
    then show ?thesis using t(1,2) assms(4) by (auto simp: udp_connect_def)
  next
    case True
    let ?d = "d\<lparr>remote_ip := ip, remote_port := port, pcb_flags := pcb_flags d OR UDP_FLAGS_CONNECTED\<rparr>"
    let ?u = "t\<lparr>udp_heap := (udp_heap t)(p \<mapsto> ?d)\<rparr>"
    have u: "udp_ok ?u ys" by (rule udp_ok_field [OF t(2,5)]) simp_all
    then have "is_listed n p (udp_pcbs ?u) ?u = Ret True ?u"
      using is_listed_run [of ?u "udp_pcbs ?u" ys n p] t(3,4) True assms(2) by (simp add: udp_ok_def bound_def)
    then have "udp_connect n p ip port s = Ret ERR_OK ?u"
      using t(1,5) True assms(4) by (simp add: udp_connect_def del: is_listed.simps)
    then show ?thesis using u by blast
  qed
qed

text \<open>The operations of the interface, and the search of \<^verbatim>\<open>udp_input\<close>.\<close>

datatype udp_op = OpNew | OpBind addr u32 u16 | OpConnect addr u32 u16 | OpDisconnect addr | OpRecv addr nat nat | OpRemove addr | OpFind u16 u16 bool

definition udp_op_prog :: "malloc \<Rightarrow> nat \<Rightarrow> udp_op \<Rightarrow> ('z udp_state_scheme, unit) prog" where
  "udp_op_prog M n w = (case w of
       OpNew \<Rightarrow> thenM (udp_new M) (ret ())
     | OpBind p ip port \<Rightarrow> thenM (udp_bind n p ip port) (ret ())
     | OpConnect p ip port \<Rightarrow> thenM (udp_connect n p ip port) (ret ())
     | OpDisconnect p \<Rightarrow> udp_disconnect p
     | OpRecv p f a \<Rightarrow> udp_recv p f a
     | OpRemove p \<Rightarrow> udp_remove n p
     | OpFind src dest bc \<Rightarrow> thenM (udp_find n src dest bc) (ret ()))"

text \<open>The caller passes a control block that is live.\<close>

definition op_live :: "udp_op \<Rightarrow> 'z udp_state_scheme \<Rightarrow> bool" where
  "op_live w s = (case w of
       OpBind p ip port \<Rightarrow> udp_heap s p \<noteq> None | OpConnect p ip port \<Rightarrow> udp_heap s p \<noteq> None | OpDisconnect p \<Rightarrow> udp_heap s p \<noteq> None
     | OpRecv p f a \<Rightarrow> udp_heap s p \<noteq> None | OpRemove p \<Rightarrow> udp_heap s p \<noteq> None | _ \<Rightarrow> True)"

text \<open>There are fewer bound control blocks than dynamic ports, and the rounds of the loops are enough for the list.\<close>

definition few_bound :: "nat \<Rightarrow> 'z udp_state_scheme \<Rightarrow> bool" where
  "few_bound n s \<longleftrightarrow> (\<forall>xs. bound s xs \<longrightarrow> length xs + 1 < n \<and> length xs < 0x4000)"

inductive udp_reach :: "malloc \<Rightarrow> nat \<Rightarrow> 'z udp_state_scheme \<Rightarrow> 'z udp_state_scheme \<Rightarrow> bool" for M n s\<^sub>0 where
  udp_start: "udp_reach M n s\<^sub>0 s\<^sub>0"
| udp_step: "udp_reach M n s\<^sub>0 s \<Longrightarrow> few_bound n s \<Longrightarrow> op_live w s \<Longrightarrow> udp_op_prog M n w s = Ret () t \<Longrightarrow> udp_reach M n s\<^sub>0 t"

lemma find_keeps:
  assumes "udp_ok s xs" and "length xs < n" and "udp_find n src dest bc s = Ret r t"
  shows "\<exists>ys. udp_ok t ys"
proof (cases "dest = DHCP_CLIENT_PORT")
  case True
  then have "t = s" using assms(3)
    by (cases "udp_heap s (dhcp_pcb s)") (auto simp: udp_find_def upcb_def split: if_splits)
  then show ?thesis using assms(1) by blast
next
  case False
  then have t: "relinked s t" "bound t (reordered s xs src dest bc)" using udp_find_run [OF assms(1,2) False, of src bc] assms(3) by auto
  have "distinct xs" using assms(1) linked_distinct by (auto simp: udp_ok_def bound_def)
  then show ?thesis using relinked_ok [OF assms(1) t set_reordered] by blast
qed

lemma op_keeps:
  assumes "udp_ok s xs" and "few_bound n s" and "malloc_ok M" and "op_live w s" and "udp_op_prog M n w s = Ret () t"
  shows "\<exists>ys. udp_ok t ys"
proof -
  have l: "length xs + 1 < n" "length xs < n" "length xs < 0x4000" using assms(1,2) by (auto simp: udp_ok_def few_bound_def)
  show ?thesis
  proof (cases w)
    case OpNew
    then show ?thesis using udp_new_run [OF assms(1,3)] assms(5) by (auto simp: udp_op_prog_def)
  next
    case (OpBind p ip port)
    then obtain c where "udp_heap s p = Some c" using assms(4) by (auto simp: op_live_def)
    then show ?thesis using bind_keeps [OF assms(1) l(2,3), of p c ip port] OpBind assms(5) by (auto simp: udp_op_prog_def)
  next
    case (OpConnect p ip port)
    then obtain c where "udp_heap s p = Some c" using assms(4) by (auto simp: op_live_def)
    then show ?thesis using connect_keeps [OF assms(1) l(1,3), of p c ip port] OpConnect assms(5) by (auto simp: udp_op_prog_def)
  next
    case (OpDisconnect p)
    then obtain c where c: "udp_heap s p = Some c" using assms(4) by (auto simp: op_live_def)
    then have t: "t = s\<lparr>udp_heap := (udp_heap s)(p \<mapsto> c\<lparr>remote_ip := IPADDR_ANY, remote_port := 0, pcb_flags := pcb_flags c AND NOT UDP_FLAGS_CONNECTED\<rparr>)\<rparr>"
      using OpDisconnect assms(5) by (simp add: udp_op_prog_def udp_disconnect_def)
    show ?thesis unfolding t by (rule exI, rule udp_ok_field [OF assms(1) c]) simp_all
  next
    case (OpRecv p f a)
    then obtain c where c: "udp_heap s p = Some c" using assms(4) by (auto simp: op_live_def)
    then have t: "t = s\<lparr>udp_heap := (udp_heap s)(p \<mapsto> c\<lparr>pcb_recv := f, pcb_recv_arg := a\<rparr>)\<rparr>"
      using OpRecv assms(5) by (simp add: udp_op_prog_def udp_recv_def)
    show ?thesis unfolding t by (rule exI, rule udp_ok_field [OF assms(1) c]) simp_all
  next
    case (OpRemove p)
    then obtain c where "udp_heap s p = Some c" using assms(4) by (auto simp: op_live_def)
    then show ?thesis using udp_remove_run [OF assms(1) l(2), of p c] removed_ok [OF assms(1)] OpRemove assms(5) by (auto simp: udp_op_prog_def)
  next
    case (OpFind src dest bc)
    then obtain r where "udp_find n src dest bc s = Ret r t"
      using assms(5) by (cases "udp_find n src dest bc s") (simp_all add: udp_op_prog_def)
    then show ?thesis by (rule find_keeps [OF assms(1) l(2)])
  qed
qed

section \<open>Properties\<close>

text \<open>
  C38. Binding a control block: if another bound block has the port and an overlapping address, the call is refused with \<^verbatim>\<open>ERR_USE\<close> and nothing
  changes. Otherwise the block is bound to the address and to the port asked for, or to a dynamic port that no bound block has if none
  was asked for; the search for it ends, and the blocks are still linked and apart from each other. No other block is touched.
\<close>

theorem udp_bind_outcome:
  assumes "udp_ok s xs" and "length xs < n" and "length xs < 0x4000" and "udp_heap s p = Some c"
  shows "if \<exists>x \<in> set xs. x \<noteq> p \<and> clash (pcb_at s x) ip port then udp_bind n p ip port s = Ret ERR_USE s
    else \<exists>t ys. udp_bind n p ip port s = Ret ERR_OK t \<and> udp_ok t ys \<and> set ys = insert p (set xs) \<and> local_ip (pcb_at t p) = ip \<and>
      (if port = 0 then 0xc000 \<le> local_port (pcb_at t p) \<and> local_port (pcb_at t p) \<notin> used_ports s xs else local_port (pcb_at t p) = port) \<and>
      (\<forall>x. x \<noteq> p \<longrightarrow> udp_heap t x = udp_heap s x)"
proof (cases "\<exists>x \<in> set xs. x \<noteq> p \<and> clash (pcb_at s x) ip port")
  case True
  then show ?thesis using udp_bind_run [OF assms, of ip port] by simp
next
  case False
  then obtain q v where q: "udp_bind n p ip port s = Ret ERR_OK (rebound s xs p ip q v)" "q \<noteq> 0" "0xc000 \<le> v"
    "if port = 0 then q = v \<and> q \<notin> used_ports s xs else q = port"
    using udp_bind_run [OF assms, of ip port] unfolding if_not_P [OF False] by blast
  have "\<not> clash (pcb_at s x) ip q" if "x \<in> set xs" "x \<noteq> p" for x
    using that q(4) False by (cases "port = 0") (auto simp: clash_def used_ports_def)
  then have "udp_ok (rebound s xs p ip q v) (if p \<in> set xs then xs else p # xs)" using rebound_ok [OF assms(1,4) q(2,3)] by blast
  moreover have "set (if p \<in> set xs then xs else p # xs) = insert p (set xs)" by auto
  moreover have "local_ip (pcb_at (rebound s xs p ip q v) p) = ip" "local_port (pcb_at (rebound s xs p ip q v) p) = q"
    "\<forall>x. x \<noteq> p \<longrightarrow> udp_heap (rebound s xs p ip q v) x = udp_heap s x" by (simp_all add: rebound_def pcb_at_def)
  ultimately show ?thesis unfolding if_not_P [OF False] using q(1,3,4)
    by (intro exI [of _ "rebound s xs p ip q v"] exI [of _ "if p \<in> set xs then xs else p # xs"]) (simp split del: if_split, auto split: if_splits)
qed

text \<open>The stack after start-up, without control blocks.\<close>

definition udp_boot :: udp_state where
  "udp_boot = ip_state.extend (pinged\<lparr>pbufs := Map.empty, blocks := Map.empty, mallocs := 0\<rparr>) \<lparr>udp_heap = Map.empty, udp_pcbs = 0, udp_port = UDP_LOCAL_PORT_RANGE_START, dhcp_pcb = 0\<rparr>"

definition example_pcb :: "u16 \<Rightarrow> udp_pcb" where
  "example_pcb port = \<lparr>local_ip = 0, remote_ip = 0, so_options = 0, pcb_tos = 0, pcb_ttl = 255, pcb_next = 0, pcb_flags = 0,
     local_port = port, remote_port = 0, pcb_recv = 1, pcb_recv_arg = 0\<rparr>"

definition one_bound :: udp_state where
  "one_bound = udp_boot\<lparr>udp_heap := [4 \<mapsto> example_pcb 5000, 8 \<mapsto> example_pcb 0], blocks := [4 \<mapsto> [], 8 \<mapsto> []], udp_pcbs := 4\<rparr>"

lemma one_bound_fields [simp]:
  "udp_heap one_bound = [4 \<mapsto> example_pcb 5000, 8 \<mapsto> example_pcb 0]" "udp_pcbs one_bound = 4" "udp_port one_bound = 0xc000"
  "blocks one_bound = [4 \<mapsto> [], 8 \<mapsto> []]"
  by (simp_all add: one_bound_def udp_boot_def ip_state.defs udp_consts)

lemma example_pcb_sel [simp]: "local_port (example_pcb q) = q" "local_ip (example_pcb q) = 0" "pcb_next (example_pcb q) = 0"
  by (simp_all add: example_pcb_def)

lemma one_bound_ok: "udp_ok one_bound [4]"
  by (auto simp: udp_ok_def bound_def linked_Cons split: if_splits)

theorem udp_bind_outcome_witness:
  "udp_bind 9 8 0 5000 one_bound = Ret ERR_USE one_bound \<and>
   (\<exists>t. udp_bind 9 8 0 0 one_bound = Ret ERR_OK t \<and> local_port (pcb_at t 8) \<noteq> 5000 \<and> udp_heap t 4 = udp_heap one_bound 4)"
  using udp_bind_outcome [OF one_bound_ok, of 9 8 "example_pcb 0" 0 5000] udp_bind_outcome [OF one_bound_ok, of 9 8 "example_pcb 0" 0 0]
  by (auto simp: clash_def pcb_at_def IPADDR_ANY_def used_ports_def)

text \<open>
  C37. Whatever sequence of calls creates, binds, connects, disconnects and removes control blocks and whatever datagrams are looked up between
  them: the list has exactly the live blocks with a port, each once, and no two of them are bound to the same port with overlapping
  addresses. So a port has one owner, although the list is relinked by every removal and by the moving of a block to the front.
\<close>

theorem udp_bindings_exclusive:
  assumes "udp_reach M n s\<^sub>0 t" and "malloc_ok M" and "udp_heap s\<^sub>0 = Map.empty" and "udp_pcbs s\<^sub>0 = 0" and "udp_port s\<^sub>0 = UDP_LOCAL_PORT_RANGE_START"
  shows "(\<exists>xs. linked pcb_next (udp_heap t) (udp_pcbs t) xs \<and> distinct xs \<and> set xs = {p. \<exists>c. udp_heap t p = Some c \<and> local_port c \<noteq> 0}) \<and>
    (\<forall>p q c d. udp_heap t p = Some c \<and> udp_heap t q = Some d \<and> p \<noteq> q \<and> local_port c = local_port d \<and> local_port c \<noteq> 0 \<longrightarrow>
       local_ip c \<noteq> IPADDR_ANY \<and> local_ip d \<noteq> IPADDR_ANY \<and> local_ip c \<noteq> local_ip d)"
proof -
  have "\<exists>xs. udp_ok t xs"
    using assms(1)
  proof (induction rule: udp_reach.induct)
    case udp_start
    then show ?case using assms(3-5) by (intro exI [of _ "[]"]) (simp add: udp_ok_def bound_def udp_consts)
  next
    case (udp_step s w t)
    then show ?case using op_keeps assms(2) by blast
  qed
  then obtain xs where xs: "udp_ok t xs" by blast
  then have b: "linked pcb_next (udp_heap t) (udp_pcbs t) xs" by (simp add: udp_ok_def bound_def)
  have set: "set xs = {p. \<exists>c. udp_heap t p = Some c \<and> local_port c \<noteq> 0}"
    using udp_ok_alive [OF xs] udp_ok_heap [OF xs] by blast
  have "local_ip c \<noteq> IPADDR_ANY \<and> local_ip d \<noteq> IPADDR_ANY \<and> local_ip c \<noteq> local_ip d"
    if "udp_heap t p = Some c" "udp_heap t q = Some d" "p \<noteq> q" "local_port c = local_port d" "local_port c \<noteq> 0" for p q c d
    using udp_ok_apart [OF xs, of p q] that udp_ok_heap [OF xs that(1)] udp_ok_heap [OF xs that(2)]
    by (simp add: pcb_at_Some [OF that(1)] pcb_at_Some [OF that(2)] clash_def)
  then show ?thesis using b set linked_distinct [OF b] by blast
qed

definition unbound_pcb :: udp_pcb where
  "unbound_pcb = \<lparr>local_ip = 0, remote_ip = 0, so_options = 0, pcb_tos = 0, pcb_ttl = UDP_TTL, pcb_next = 0,
     pcb_flags = 0, local_port = 0, remote_port = 0, pcb_recv = 0, pcb_recv_arg = 0\<rparr>"

lemma udp_boot_fields [simp]:
  "udp_heap udp_boot = Map.empty" "udp_pcbs udp_boot = 0" "udp_port udp_boot = UDP_LOCAL_PORT_RANGE_START"
  "pbufs udp_boot = Map.empty" "blocks udp_boot = Map.empty" "mallocs udp_boot = 0"
  by (simp_all add: udp_boot_def ip_state.defs)

lemma boot_new:
  "udp_new (bump 9) udp_boot = Ret 4 (udp_boot\<lparr>mallocs := 1, blocks := [4 \<mapsto> replicate 32 0], udp_heap := [4 \<mapsto> unbound_pcb]\<rparr>)"
  by (simp add: udp_new_def bump_def memp_size_UDP_PCB_def unbound_pcb_def)

lemma boot_bound: "\<exists>t. udp_reach (bump 9) 9 udp_boot t \<and> udp_heap t = [4 \<mapsto> unbound_pcb\<lparr>local_port := 5000\<rparr>]"
proof -
  let ?s = "udp_boot\<lparr>mallocs := 1, blocks := [4 \<mapsto> replicate 32 0], udp_heap := [4 \<mapsto> unbound_pcb]\<rparr>"
  have "udp_op_prog (bump 9) 9 OpNew udp_boot = Ret () ?s" using boot_new by (simp add: udp_op_prog_def)
  then have s: "udp_reach (bump 9) 9 udp_boot ?s"
    by (intro udp_step [OF udp_start]) (simp_all add: few_bound_def bound_def op_live_def)
  have ok: "udp_ok ?s []" by (auto simp: udp_ok_def bound_def unbound_pcb_def udp_consts split: if_splits)
  then obtain q v where "udp_bind 9 4 0 5000 ?s = Ret ERR_OK (rebound ?s [] 4 0 q v)" "q = 5000"
    using udp_bind_run [OF ok, of 9 4 unbound_pcb 0 5000] by auto
  moreover from this have "udp_heap (rebound ?s [] 4 0 q v) = [4 \<mapsto> unbound_pcb\<lparr>local_port := 5000\<rparr>]"
    by (simp add: rebound_def pcb_at_def unbound_pcb_def)
  ultimately have "\<exists>t. udp_op_prog (bump 9) 9 (OpBind 4 0 5000) ?s = Ret () t \<and> udp_heap t = [4 \<mapsto> unbound_pcb\<lparr>local_port := 5000\<rparr>]"
    by (simp add: udp_op_prog_def)
  then obtain t where t: "udp_op_prog (bump 9) 9 (OpBind 4 0 5000) ?s = Ret () t" "udp_heap t = [4 \<mapsto> unbound_pcb\<lparr>local_port := 5000\<rparr>]" by blast
  have "udp_reach (bump 9) 9 udp_boot t"
    by (rule udp_step [OF s _ _ t(1)]) (simp_all add: few_bound_def bound_def op_live_def)
  then show ?thesis using t(2) by blast
qed

theorem udp_bindings_exclusive_witness:
  "\<exists>t xs. udp_reach (bump 9) 9 udp_boot t \<and> udp_heap t = [4 \<mapsto> unbound_pcb\<lparr>local_port := 5000\<rparr>] \<and> linked pcb_next (udp_heap t) (udp_pcbs t) xs \<and>
    distinct xs \<and> 4 \<in> set xs"
proof -
  obtain t where t: "udp_reach (bump 9) 9 udp_boot t" "udp_heap t = [4 \<mapsto> unbound_pcb\<lparr>local_port := 5000\<rparr>]" using boot_bound by blast
  then show ?thesis using udp_bindings_exclusive [OF t(1) bump_ok] by (intro exI [of _ t]) auto
qed

end
