(* ===== verification/IpSend.thy ===== *)
theory IpSend
  imports Ping
begin

text \<open>
  Sending through IP: the frame a packet becomes when it is handed to \<^verbatim>\<open>ip_output\<close> and its hardware address is known, and what happens
  when there is no route, no gateway, no room for a header, or the frame is too long for the chip.
\<close>

section \<open>Filling in the header\<close>

lemma overwrite_between:
  assumes "length e = i" and "j + length bs \<le> length hb"
  shows "overwrite (i + j) bs (e @ hb @ r) = e @ overwrite j bs hb @ r"
  using assms by (simp add: overwrite_def)

lemma header_bytes:
  fixes c i tot :: u16 and src dest :: u32
  assumes "length hb = 20"
  shows "overwrite 10 (le_bytes 2 c) (overwrite 12 (le_bytes 4 src) (overwrite 4 (le_bytes 2 i) (overwrite 6 (le_bytes 2 (0 :: u16))
    (overwrite 2 (le_bytes 2 tot) (overwrite 1 [tos] (overwrite 0 [0x45] (overwrite 16 (le_bytes 4 dest) (overwrite 9 [pr] (overwrite 8 [ttl] hb))))))))) =
    [0x45, tos] @ le_bytes 2 tot @ le_bytes 2 i @ [0, 0, ttl, pr] @ le_bytes 2 c @ le_bytes 4 src @ le_bytes 4 dest"
proof -
  obtain x0 x1 x2 x3 x4 x5 x6 x7 x8 x9 y0 y1 y2 y3 y4 y5 y6 y7 y8 y9
    where "hb = [x0, x1, x2, x3, x4, x5, x6, x7, x8, x9, y0, y1, y2, y3, y4, y5, y6, y7, y8, y9]"
    using assms by (auto simp: numeral_eq_Suc length_Suc_conv)
  then show ?thesis by (simp add: overwrite_def le_bytes_2 le_bytes_4)
qed

lemma wp_hdr_between:
  assumes "frame_at s p base i (e @ hb @ r)" and "length e = i" and "j + length bs \<le> length hb" and "bs \<noteq> []"
    and "\<And>b d. frame_at (with_buf s p b d) p base i (e @ overwrite j bs hb @ r) \<Longrightarrow> Q () (with_buf s p b d)"
  shows "wp (hdr_put (Some (p, int (base + i))) j bs) Q H s"
  using wp_hdr_put [of s p base i "e @ hb @ r" i j bs Q H] assms overwrite_between [OF assms(2,3), of r] by simp

lemma with_buf_id: "with_buf (s\<lparr>ip_id := x\<rparr>) p b d = (with_buf s p b d)\<lparr>ip_id := x\<rparr>"
  by (cases s) (simp add: with_buf_def)

lemma with_buf_ip_id [simp]: "ip_id (with_buf s p b d) = ip_id s"
  by (simp add: with_buf_def)

lemma put_ip_header_wp:
  assumes "frame_at s p base i (e @ hb @ r)" and "length e = i" and "length hb = 20"
    and Q: "\<And>b d. frame_at (with_buf s p b d) p base i (e @ ip_header ttl tos pr tot (ip_id s) src dest
      (inline_chksum ttl tos pr (lwip_htons tot) (lwip_htons (ip_id s)) src dest) @ r) \<Longrightarrow> Q () ((with_buf s p b d)\<lparr>ip_id := ip_id s + 1\<rparr>)"
  shows "wp (put_ip_header (Some (p, int (base + i))) src dest ttl tos pr tot) Q H s"
  unfolding put_ip_header_def wp_bindM wp_gets seqM.simps wp_thenM
  apply (rule wp_hdr_between [OF assms(1,2)], simp add: assms, simp)
  apply (rule wp_hdr_between, assumption, simp add: assms, simp add: assms overwrite_length, simp add: le_bytes_2 le_bytes_4)+
  apply (unfold wp_modify with_buf_twice)
  apply (rule wp_hdr_between, rule frame_cong, assumption, simp, simp, simp add: assms, simp add: assms overwrite_length, simp add: le_bytes_2 le_bytes_4)
  apply (rule wp_hdr_between, assumption, simp add: assms, simp add: assms overwrite_length, simp add: le_bytes_2 le_bytes_4)
  subgoal premises prems for b1 d1 b2 d2 b3 d3 b4 d4 b5 d5 b6 d6 b7 d7 b8 d8 b9 d9 b10 d10
    using prems(10) Q [of b10 d10] header_bytes [OF assms(3)]
      frame_cong [OF prems(10), of "with_buf s p b10 d10"]
    by (simp add: with_buf_id ip_header_def)
  done

section \<open>Sending\<close>

lemma broadcast_id [simp]: "ip4_addr_isbroadcast a (s\<lparr>ip_id := x\<rparr>) = ip4_addr_isbroadcast a s"
  by (rule broadcast_cong) simp_all

lemma next_hop_id [simp]: "next_hop (s\<lparr>ip_id := x\<rparr>) a = next_hop s a"
  by (rule next_hop_cong) simp_all

lemma arp_ok_id [simp]: "arp_ok (s\<lparr>ip_id := x\<rparr>) = arp_ok s"
  by (simp add: arp_ok_def)

text \<open>The IP header of a packet whose data are \<open>bs\<close>, and its frame.\<close>

definition ip_head :: "u8 \<Rightarrow> u8 \<Rightarrow> u8 \<Rightarrow> u16 \<Rightarrow> u32 \<Rightarrow> u32 \<Rightarrow> u8 list \<Rightarrow> u8 list" where
  "ip_head ttl tos pr i src dest bs = (let tot = of_nat (20 + length bs) in
     ip_header ttl tos pr tot i src dest (inline_chksum ttl tos pr (lwip_htons tot) (lwip_htons i) src dest))"

definition ip_frame :: "u8 list \<Rightarrow> u8 list \<Rightarrow> u8 \<Rightarrow> u8 \<Rightarrow> u8 \<Rightarrow> u16 \<Rightarrow> u32 \<Rightarrow> u32 \<Rightarrow> u8 list \<Rightarrow> u8 list" where
  "ip_frame mac hw ttl tos pr i src dest bs = mac @ hw @ [8, 0] @ ip_head ttl tos pr i src dest bs @ bs"

lemma length_ip_head [simp]: "length (ip_head ttl tos pr i src dest bs) = 20"
  by (simp add: ip_head_def Let_def ip_header_def)

lemma ip_head_check: "inet_chksum False (ip_head ttl tos pr i src dest bs) = 0"
  by (simp only: ip_head_def Let_def header_check)

text \<open>The header is written and the packet is handed to the link layer.\<close>

lemma output_header_wp:
  assumes fr: "frame_at s p base i f" and i: "20 \<le> i"
    and Q: "\<And>b d. frame_at (with_buf s p b d) p base (i - 20) (take (i - 20) f @ ip_head ttl tos pr (ip_id s) src dest (drop i f) @ drop i f) \<Longrightarrow>
      wp (etharp_output E M n p dest) Q H ((with_buf s p b d)\<lparr>ip_id := ip_id s + 1\<rparr>)"
  shows "wp (ip_output_if_src E M n p src (Some dest) ttl tos pr) Q H s"
proof -
  let ?e = "take (i - 20) f" and ?hb = "take 20 (drop (i - 20) f)" and ?r = "drop i f"
  have split: "f = ?e @ ?hb @ ?r" using take_drop_join [of 20 "i - 20" f] i by simp
  have l: "length ?e = i - 20" "length ?hb = 20" "i \<le> length f" using frame_len [OF fr] i by (auto simp: min_def)
  let ?tot = "of_nat (20 + length ?r) :: u16"
  show ?thesis
    unfolding ip_output_if_src_def wp_bindM wp_thenM option.case
  proof (rule frame_deref [OF fr], rule wp_lwip_assert, goal_cases)
    case (2 b)
    show ?case
    proof (rule wp_move [OF fr, of "i - 20"], goal_cases)
      case (5 b1 d1)
      show ?case
      proof (simp only: simp_thms not_True_eq_False if_False wp_bindM wp_thenM, rule frame_deref [OF 5], rule wp_lwip_assert, goal_cases)
        case (2 b2)
        have b2: "payload b2 = Some (p, int (base + (i - 20)))" "tot_len b2 = ?tot"
        proof -
          have "unat (tot_len b2) = 20 + length ?r" using 2(2) l i by (simp add: one_buffer_def)
          moreover have "tot_len b2 = of_nat (unat (tot_len b2))" by simp
          ultimately show "tot_len b2 = ?tot" by (simp only:)
        qed (use 2(2) in \<open>simp add: one_buffer_def\<close>)
        show ?case
          unfolding b2
          by (rule put_ip_header_wp [of _ _ _ _ ?e ?hb ?r], use 5 split in simp, use l in simp, use l in simp) (use Q in \<open>simp add: ip_head_def Let_def\<close>)
      qed (use l i in \<open>simp add: one_buffer_def IP_HLEN_def\<close>)
    qed (use l i in \<open>simp_all add: IP_HLEN_def\<close>)
  qed (simp add: one_buffer_def)
qed

text \<open>
  The hardware address a packet goes to: all ones for a broadcast, the group's address with 23 bits of the IP address for a
  multicast, and for a host the one that the table has for the next hop.
\<close>

definition link_addr :: "'z arp_state_scheme \<Rightarrow> u32 \<Rightarrow> u8 list \<Rightarrow> bool" where
  "link_addr s a mac \<longleftrightarrow>
     (if ip4_addr_isbroadcast a s then mac = replicate 6 0xff
      else if ip_addr_ismulticast a then mac = [1, 0, 0x5e, ip4_addr2 a AND 0x7f, ip4_addr3 a, ip4_addr4 a]
      else \<exists>g. next_hop s a = Some g \<and> resolved (arp_table s) g mac)"

lemma unicast: "\<not> ip4_addr_isbroadcast a s \<Longrightarrow> \<not> ip_addr_ismulticast a \<Longrightarrow> host_addr a"
  by (auto simp: host_addr_def ip4_addr_isbroadcast_def IPADDR_ANY_def IPADDR_BROADCAST_def)

lemma link_addr_length: "link_addr s a mac \<Longrightarrow> arp_ok s \<Longrightarrow> length mac = 6"
  using resolved_mac by (auto simp: link_addr_def arp_ok_def split: if_splits)

lemma link_addr_cong:
  assumes "netif_flags t = netif_flags s" "netif_ip_addr t = netif_ip_addr s" "netif_netmask t = netif_netmask s" "netif_gw t = netif_gw s"
    and "arp_table t = arp_table s"
  shows "link_addr t a mac = link_addr s a mac"
  using assms broadcast_cong [of t s a] next_hop_cong [of t s a] by (simp add: link_addr_def)

lemma same_hint: "(with_buf s p b d)\<lparr>etharp_cached_entry := etharp_cached_entry s\<rparr> = with_buf s p b d"
  by (simp add: with_buf_def)

lemma output_via:
  assumes "frame_at s p base 14 f" and "arp_ok s" and "link_addr s a mac"
    and Q: "\<And>b d c. frame_at (with_buf s p b d) p base 0 f \<Longrightarrow>
      wp (etharp_send_ip E n p (netif_hwaddr s) mac) Q H ((with_buf s p b d)\<lparr>etharp_cached_entry := c\<rparr>)"
  shows "wp (etharp_output E M n p a) Q H s"
proof (cases "ip4_addr_isbroadcast a s \<or> ip_addr_ismulticast a")
  case True
  have p0: "p \<noteq> 0" using assms(1) by (simp add: frame_at_def)
  have mac: "mac = (if ip4_addr_isbroadcast a s then ethbroadcast else
      [LL_MULTICAST_ADDR_0, LL_MULTICAST_ADDR_1, LL_MULTICAST_ADDR_2, ip4_addr2 a AND 0x7f, ip4_addr3 a, ip4_addr4 a])"
    using True assms(3) by (auto simp: link_addr_def ethbroadcast_def LL_MULTICAST_ADDR_0_def LL_MULTICAST_ADDR_1_def LL_MULTICAST_ADDR_2_def)
  show ?thesis
    unfolding etharp_output_def wp_thenM
  proof (intro wp_lwip_assert, simp add: p0, unfold wp_bindM, rule wp_move [OF assms(1), of 0], goal_cases)
    case (5 b d)
    have "wp (etharp_send_ip E n p (netif_hwaddr s) mac) Q H (with_buf s p b d)"
      using Q [OF 5, of "etharp_cached_entry s"] unfolding same_hint .
    then show ?case using True mac by (auto simp del: wp_thenM)
  qed (use assms(1) in \<open>simp_all add: SIZEOF_ETH_HDR_def\<close>)
next
  case False
  then obtain g where "next_hop s a = Some g" "resolved (arp_table s) g mac" using assms(3) by (auto simp: link_addr_def)
  then show ?thesis using output_to_wp [OF assms(1,2) unicast, of a s g mac E n Q H M] False Q by blast
qed

lemma ip_send_wp:
  assumes fr: "frame_at s p base 34 f" and n: "1 < n" and hw: "length (netif_hwaddr s) = 6" and ok: "arp_ok s" and a: "link_addr s dest mac"
    and Q: "\<And>b d es c. frame_at (with_buf s p b d) p base 0 (ip_frame mac (netif_hwaddr s) ttl tos pr (ip_id s) src dest (drop 34 f)) \<Longrightarrow>
      enc_bus None es = (None, chip_frames (ip_frame mac (netif_hwaddr s) ttl tos pr (ip_id s) src dest (drop 34 f))) \<Longrightarrow> length f \<le> 1024 \<Longrightarrow>
      Q ERR_OK ((with_buf s p b d)\<lparr>ip_id := ip_id s + 1, etharp_cached_entry := c, txbusy := True, trace := trace s @ es\<rparr>)"
    and R: "\<And>b d c. frame_at (with_buf s p b d) p base 0 (ip_frame mac (netif_hwaddr s) ttl tos pr (ip_id s) src dest (drop 34 f)) \<Longrightarrow> 1024 < length f \<Longrightarrow>
      Q ERR_OK ((with_buf s p b d)\<lparr>ip_id := ip_id s + 1, etharp_cached_entry := c\<rparr>)"
  shows "wp (ip_output_if_src E M n p src (Some dest) ttl tos pr) Q H s"
proof (rule output_header_wp [OF fr], simp, rule output_via)
  fix b d
  let ?g = "take 14 f @ ip_head ttl tos pr (ip_id s) src dest (drop 34 f) @ drop 34 f"
  let ?u = "(with_buf s p b d)\<lparr>ip_id := ip_id s + 1\<rparr>" and ?hw = "netif_hwaddr s"
  have l: "34 \<le> length f" "length ?g = length f" using frame_len [OF fr] by simp_all
  assume "frame_at (with_buf s p b d) p base (34 - 20) (take (34 - 20) f @ ip_head ttl tos pr (ip_id s) src dest (drop 34 f) @ drop 34 f)"
  then have fr': "frame_at (with_buf s p b d) p base 14 ?g" by simp
  show "frame_at ?u p base 14 ?g" by (rule frame_cong [OF fr']) simp_all
  show "link_addr ?u dest mac" using a link_addr_cong [of ?u s] by simp
  fix b1 d1 c
  let ?v = "(with_buf ?u p b1 d1)\<lparr>etharp_cached_entry := c\<rparr>" and ?fr = "ip_frame mac ?hw ttl tos pr (ip_id s) src dest (drop 34 f)"
  assume "frame_at (with_buf ?u p b1 d1) p base 0 ?g"
  then have v: "frame_at ?v p base 0 ?g" by (rule frame_cong) simp_all
  have fm: "mac @ ?hw @ [8, 0] @ drop 14 ?g = ?fr" using l by (simp add: ip_frame_def min_def)
  have mac: "length mac = 6" by (rule link_addr_length [OF a ok])
  have pb: "frame_at (with_buf s p b' d') p base 0 ?fr" if "frame_at (with_buf ?v p b' d') p base 0 ?fr" for b' d'
    by (rule frame_cong [OF that]) simp_all
  show "wp (etharp_send_ip E n p (netif_hwaddr ?u) mac) Q H ?v"
  proof (cases "length f \<le> 1024")
    case True
    have "wp (etharp_send_ip E n p ?hw mac) Q H ?v"
    proof (rule send_frame [OF v], goal_cases)
      case (7 b' d' es)
      then show ?case using Q [OF pb, of b' d' es c] True unfolding fm by (simp add: with_buf_id with_buf_hint)
    qed (use True n hw mac l in simp_all)
    then show ?thesis by simp
  next
    case False
    have "wp (etharp_send_ip E n p ?hw mac) Q H ?v"
    proof (rule send_long_frame [OF v], goal_cases)
      case (5 b' d')
      then show ?case using R [OF pb, of b' d' c] False unfolding fm by (simp add: with_buf_id with_buf_hint)
    qed (use False hw mac l in simp_all)
    then show ?thesis by simp
  qed
qed (use ok in simp)

lemma output_if_wp:
  assumes fr: "frame_at s p base 34 f" and len: "length f \<le> 1024" and n: "1 < n" and hw: "length (netif_hwaddr s) = 6" and ok: "arp_ok s"
    and a: "host_addr dest" "\<not> ip4_addr_isbroadcast dest s" "next_hop s dest = Some g" "resolved (arp_table s) g mac"
    and Q: "\<And>b d es c. enc_bus None es = (None, chip_frames (ip_frame mac (netif_hwaddr s) ttl tos pr (ip_id s) src dest (drop 34 f))) \<Longrightarrow>
      frame_at (with_buf s p b d) p base 0 (ip_frame mac (netif_hwaddr s) ttl tos pr (ip_id s) src dest (drop 34 f)) \<Longrightarrow>
      Q ERR_OK ((with_buf s p b d)\<lparr>ip_id := ip_id s + 1, etharp_cached_entry := c, txbusy := True, trace := trace s @ es\<rparr>)"
  shows "wp (ip_output_if_src E M n p src (Some dest) ttl tos pr) Q H s"
  by (rule ip_send_wp [OF fr n hw ok]) (use a len Q in \<open>auto simp: link_addr_def host_addr_def\<close>)

lemma no_room_wp:
  assumes "frame_at s p base i f" and "base + i < 34" and "20 \<le> i" and "\<And>b d. Q ERR_BUF ((with_buf s p b d)\<lparr>ip_id := ip_id s + 1\<rparr>)"
  shows "wp (ip_output_if_src E M n p src (Some dest) ttl tos pr) Q H s"
proof (rule output_header_wp [OF assms(1,3)])
  fix b d
  let ?u = "(with_buf s p b d)\<lparr>ip_id := ip_id s + 1\<rparr>"
  let ?g = "take (i - 20) f @ ip_head ttl tos pr (ip_id s) src dest (drop i f) @ drop i f"
  assume "frame_at (with_buf s p b d) p base (i - 20) ?g"
  then obtain c where c: "pbufs ?u p = Some c" "p \<noteq> 0" "payload c = Some (p, int (base + (i - 20)))" "ptype c = PBUF_RAM \<or> ptype c = PBUF_POOL"
    by (auto simp: frame_at_def one_buffer_def)
  have "pbuf_header p 14 ?u = Ret 1 ?u" using c assms(2,3) by (auto simp: pbuf_header_def pbuf_header_impl_def)
  then show "wp (etharp_output E M n p dest) Q H ?u"
    using assms(4) [of b d] c(2) by (simp add: etharp_output_def SIZEOF_ETH_HDR_def wp_def [of "pbuf_header p 14"] wp_asserted)
qed

lemma no_gateway_wp:
  assumes "frame_at s p base 34 f" and "\<not> ip4_addr_isbroadcast dest s" and "\<not> ip_addr_ismulticast dest" and "next_hop s dest = None"
    and Q: "\<And>b d. Q ERR_RTE ((with_buf s p b d)\<lparr>ip_id := ip_id s + 1\<rparr>)"
  shows "wp (ip_output_if_src E M n p src (Some dest) ttl tos pr) Q H s"
proof (rule output_header_wp [OF assms(1)], simp)
  fix b d
  let ?u = "(with_buf s p b d)\<lparr>ip_id := ip_id s + 1\<rparr>"
  let ?g = "take 14 f @ ip_head ttl tos pr (ip_id s) src dest (drop 34 f) @ drop 34 f"
  assume "frame_at (with_buf s p b d) p base (34 - 20) (take (34 - 20) f @ ip_head ttl tos pr (ip_id s) src dest (drop 34 f) @ drop 34 f)"
  then have "frame_at (with_buf s p b d) p base 14 ?g" by simp
  then have fr: "frame_at ?u p base 14 ?g" by (rule frame_cong) simp_all
  then have p0: "p \<noteq> 0" by (simp add: frame_at_def)
  have gw: "\<not> ip_addr_netcmp dest (netif_ip_addr s) (netif_netmask s) \<and> \<not> ip_addr_islinklocal dest \<and> ip_addr_isany (netif_gw s)"
    using assms(4) by (simp add: next_hop_def split: if_splits)
  show "wp (etharp_output E M n p dest) Q H ?u"
    unfolding etharp_output_def wp_thenM
  proof (intro wp_lwip_assert, simp add: p0, unfold wp_bindM, rule wp_move [OF fr, of 0], goal_cases)
    case (5 b' d')
    then show ?case using gw assms(2,3) Q [of b' d'] by (simp add: with_buf_id)
  qed (use fr in \<open>simp_all add: SIZEOF_ETH_HDR_def\<close>)
qed

lemma ip_output_wp:
  assumes "frame_at s p base i f" and "netif_default s" and "netif_is_up s"
    and "wp (ip_output_if_src E M n p (if src = IPADDR_ANY then netif_ip_addr s else src) (Some dest) ttl tos pr) Q H s"
  shows "wp (ip_output E M n p src dest ttl tos pr) Q H s"
proof -
  obtain b where "pbufs s p = Some b" "ref b = 1" "p \<noteq> 0" using assms(1) by (auto simp: frame_at_def one_buffer_def)
  then show ?thesis using assms(2-) by (simp add: ip_output_def ip_route_def ip_output_if_def wp_def [of "deref p"] wp_asserted ip_addr_isany_def)
qed

lemma ip_sent_wp:
  assumes fr: "frame_at s p base 34 f" and "1 < n" and "length (netif_hwaddr s) = 6" and "arp_ok s" and "link_addr s dest mac"
  shows "wp (ip_output_if_src E M n p src (Some dest) ttl tos pr) (\<lambda>r t. r = ERR_OK \<and>
    (let fr = ip_frame mac (netif_hwaddr s) ttl tos pr (ip_id s) src dest (drop 34 f) in
      \<exists>es. trace t = trace s @ es \<and> (if length f \<le> 1024 then enc_bus None es = (None, chip_frames fr) else es = []) \<and>
        ip_id t = ip_id s + 1 \<and> arp_table t = arp_table s \<and> frame_at t p base 0 fr)) (\<lambda>_ _. False) s"
  unfolding Let_def
proof (rule ip_send_wp [OF assms], goal_cases)
  case (1 b d es c)
  let ?t = "(with_buf s p b d)\<lparr>ip_id := ip_id s + 1, etharp_cached_entry := c, txbusy := True, trace := trace s @ es\<rparr>"
  have "frame_at ?t p base 0 (ip_frame mac (netif_hwaddr s) ttl tos pr (ip_id s) src dest (drop 34 f))" by (rule frame_cong [OF 1(1)]) simp_all
  then show ?case using 1(2,3) by (intro conjI exI [of _ es]) (assumption | simp)+
next
  case (2 b d c)
  let ?t = "(with_buf s p b d)\<lparr>ip_id := ip_id s + 1, etharp_cached_entry := c\<rparr>"
  have "frame_at ?t p base 0 (ip_frame mac (netif_hwaddr s) ttl tos pr (ip_id s) src dest (drop 34 f))" by (rule frame_cong [OF 2(1)]) simp_all
  then show ?case using 2(2) by (intro conjI exI [of _ "[]"]) (assumption | simp)+
qed

text \<open>
  C34. What becomes of a packet in one buffer that is handed to \<^verbatim>\<open>ip_output\<close>. Without a route it is refused with \<^verbatim>\<open>ERR_RTE\<close> and without room for
  the IP header in front of the data with \<^verbatim>\<open>ERR_BUF\<close>; nothing changes then. Without room for the link header (\<^verbatim>\<open>ERR_BUF\<close>) and without a
  gateway for a host outside (\<^verbatim>\<open>ERR_RTE\<close>) it is refused after the IP header has been written and the identification counted, with no access to the
  chip. If the hardware address is known (broadcast, multicast, or a next hop that is resolved and not about to
  expire) and the frame has at most 1024 bytes, exactly one frame goes to the Ethernet chip: the hardware
  addresses, a header with the fields asked for, the address of the interface if the caller gave none and a fresh identification, and the data.
  The header passes the receiver's test, the next packet gets the next identification, and the buffer still belongs to the caller.
  A longer frame is built in the same way, reported as sent and never reaches the chip. Not covered: a next hop without an entry, for which the
  packet is queued and a request sent, and an entry old enough that a request is sent in front of the frame.
\<close>

theorem ip_output_frame:
  assumes "arp_ok s" and "length (netif_hwaddr s) = 6" and "frame_at s p base i f" and "1 < n"
  shows "(\<not> (netif_listed s \<or> netif_default s) \<or> \<not> netif_is_up s \<longrightarrow> ip_output E M n p src dest ttl tos pr s = Ret ERR_RTE s) \<and>
    (netif_default s \<and> netif_is_up s \<longrightarrow>
      (base + i < 20 \<longrightarrow> ip_output E M n p src dest ttl tos pr s = Ret ERR_BUF s) \<and>
      (20 \<le> i \<and> base + i < 34 \<longrightarrow>
         (\<exists>b d. ip_output E M n p src dest ttl tos pr s = Ret ERR_BUF ((with_buf s p b d)\<lparr>ip_id := ip_id s + 1\<rparr>))) \<and>
      (i = 34 \<and> \<not> ip4_addr_isbroadcast dest s \<and> \<not> ip_addr_ismulticast dest \<and> next_hop s dest = None \<longrightarrow>
         (\<exists>b d. ip_output E M n p src dest ttl tos pr s = Ret ERR_RTE ((with_buf s p b d)\<lparr>ip_id := ip_id s + 1\<rparr>))) \<and>
      (i = 34 \<and> link_addr s dest mac \<longrightarrow>
         (let fr = ip_frame mac (netif_hwaddr s) ttl tos pr (ip_id s) (if src = IPADDR_ANY then netif_ip_addr s else src) dest (drop 34 f) in
          inet_chksum False (take 20 (drop 14 fr)) = 0 \<and>
          (\<exists>t es. ip_output E M n p src dest ttl tos pr s = Ret ERR_OK t \<and> trace t = trace s @ es \<and>
             (if length f \<le> 1024 then enc_bus None es = (None, chip_frames fr) else es = []) \<and>
             ip_id t = ip_id s + 1 \<and> arp_table t = arp_table s \<and> frame_at t p base 0 fr))))"
proof -
  obtain b where b: "pbufs s p = Some b" "ref b = 1" "p \<noteq> 0" "payload b = Some (p, int (base + i))" "ptype b = PBUF_RAM \<or> ptype b = PBUF_POOL"
    using assms(3) by (auto simp: frame_at_def one_buffer_def)
  let ?src = "if src = IPADDR_ANY then netif_ip_addr s else src"
  let ?out = "ip_output_if_src E M n p ?src (Some dest) ttl tos pr"
  note whole = ip_output_wp [OF assms(3), where E = E and M = M and n = n and src = src and dest = dest and ttl = ttl and tos = tos and pr = pr]
  show ?thesis
  proof (intro conjI impI, goal_cases)
    case 1
    then show ?case using b by (auto simp: ip_output_def ip_route_def)
  next
    case 2
    then have "pbuf_header p 20 s = Ret 1 s" using b frame_len [OF assms(3)] by (auto simp: pbuf_header_def pbuf_header_impl_def)
    then show ?case using b 2 by (simp add: ip_output_def ip_route_def ip_output_if_def ip_output_if_src_def IP_HLEN_def)
  next
    case 3
    have "wp ?out (\<lambda>r t. r = ERR_BUF \<and> (\<exists>b d. t = (with_buf s p b d)\<lparr>ip_id := ip_id s + 1\<rparr>)) (\<lambda>_ _. False) s"
      by (rule no_room_wp [OF assms(3)]) (use 3 in auto)
    from whole [OF _ _ this] 3 show ?case unfolding wp_total_ex by blast
  next
    case 4
    have "wp ?out (\<lambda>r t. r = ERR_RTE \<and> (\<exists>b d. t = (with_buf s p b d)\<lparr>ip_id := ip_id s + 1\<rparr>)) (\<lambda>_ _. False) s"
      by (rule no_gateway_wp [of s p base f]) (use 4 assms(3) in auto)
    from whole [OF _ _ this] 4 show ?case unfolding wp_total_ex by blast
  next
    case 5
    let ?fr = "ip_frame mac (netif_hwaddr s) ttl tos pr (ip_id s) ?src dest (drop 34 f)"
    have "take 20 (drop 14 ?fr) = ip_head ttl tos pr (ip_id s) ?src dest (drop 34 f)"
      using link_addr_length [of s dest mac] 5 assms(1,2) by (simp add: ip_frame_def)
    moreover have "frame_at s p base 34 f" using 5 assms(3) by simp
    note whole [OF _ _ ip_sent_wp [where mac = mac, OF this assms(4,2,1)]]
    ultimately show ?case using 5 ip_head_check unfolding Let_def wp_total_ex by metis
  qed
qed

text \<open>The amplifier of \<open>Ping\<close> with four bytes to send.\<close>

definition sending :: ip_state where
  "sending = pinged\<lparr>netif_default := True,
     pbufs := [4 \<mapsto> \<lparr>pnext = 0, payload = Some (4, 36), tot_len = 4, len = 4, ptype = PBUF_RAM, flags = 0, ref = 1\<rparr>],
     blocks := [4 \<mapsto> replicate 36 0 @ [1, 2, 3, 4]]\<rparr>"

lemma sending_fields [simp]:
  "netif_flags sending = NETIF_FLAG_UP OR NETIF_FLAG_ETHARP" "netif_hwaddr sending = [2, 0, 0, 0, 0, 1]" "netif_ip_addr sending = 0x0a01a8c0"
  "netif_netmask sending = 0x00ffffff" "netif_default sending" "arp_table sending = arp_table pinged" "etharp_cached_entry sending = 0"
  "netif_gw sending = netif_gw pinged"
  "pbufs sending = [4 \<mapsto> \<lparr>pnext = 0, payload = Some (4, 36), tot_len = 4, len = 4, ptype = PBUF_RAM, flags = 0, ref = 1\<rparr>]"
  "blocks sending = [4 \<mapsto> replicate 36 0 @ [1, 2, 3, 4]]"
  using pinged_fields by (simp_all add: sending_def)

lemma sending_ok:
  "arp_ok sending" "netif_is_up sending" "frame_at sending 4 2 34 (replicate 34 0 @ [1, 2, 3, 4])"
  "\<not> ip4_addr_isbroadcast 0x1401a8c0 sending" "next_hop sending 0x1401a8c0 = Some 0x1401a8c0"
  using pinged_ok broadcast_cong [of sending pinged] next_hop_cong [of sending pinged]
  by (simp_all add: arp_ok_def netif_is_up_def frame_at_def one_buffer_def)

theorem ip_output_frame_witness:
  "\<exists>t es. ip_output ideal_env (bump 9) 9 4 0 0x1401a8c0 255 0 17 sending = Ret ERR_OK t \<and> trace t = trace sending @ es \<and>
    enc_bus None es = (None, chip_frames (ip_frame [2, 0, 0, 0, 0, 9] [2, 0, 0, 0, 0, 1] 255 0 17 (ip_id sending) 0x0a01a8c0 0x1401a8c0 [1, 2, 3, 4]))"
proof -
  have "link_addr sending 0x1401a8c0 [2, 0, 0, 0, 0, 9]"
    using sending_ok(4,5) asking_host(1) pinged_ok(10) by (simp add: link_addr_def host_addr_def)
  then show ?thesis
    using ip_output_frame [OF sending_ok(1) _ sending_ok(3), of 9 ideal_env "bump 9" 0 "0x1401a8c0" 255 0 17 "[2, 0, 0, 0, 0, 9]"] sending_ok(2)
    by (simp add: Let_def IPADDR_ANY_def) blast
qed

end
