(* ===== verification/UdpRun.thy ===== *)
theory UdpRun
  imports UdpBind IpSend
begin

text \<open>Datagrams on their way through \<^verbatim>\<open>udp_input\<close> to a receive function, and from \<^verbatim>\<open>udp_sendto\<close> to the Ethernet chip.\<close>

section \<open>A datagram in one buffer\<close>

text \<open>Ports, length and checksum as they lie in memory, and the data.\<close>

definition udp_bytes :: "u16 \<Rightarrow> u16 \<Rightarrow> u16 \<Rightarrow> u16 \<Rightarrow> u8 list \<Rightarrow> u8 list" where
  "udp_bytes src dest l ck bs = le_bytes 2 (lwip_htons src) @ le_bytes 2 (lwip_htons dest) @ le_bytes 2 (lwip_htons l) @ le_bytes 2 ck @ bs"

lemma length_udp_bytes [simp]: "length (udp_bytes src dest l ck bs) = 8 + length bs"
  by (simp add: udp_bytes_def le_bytes_2)

lemma udp_bytes_fields:
  "take 2 (udp_bytes src dest l ck bs) = le_bytes 2 (lwip_htons src)" "take 2 (drop 2 (udp_bytes src dest l ck bs)) = le_bytes 2 (lwip_htons dest)"
  "take 2 (drop 6 (udp_bytes src dest l ck bs)) = le_bytes 2 ck"
  by (simp_all add: udp_bytes_def le_bytes_2)

lemma two_bytes: "length xs = 2 \<Longrightarrow> \<exists>a b. xs = [a, b]"
  by (auto simp: length_Suc_conv numeral_2_eq_2)

lemma word_zero: "le_word [a, b] = (0 :: u16) \<longleftrightarrow> a = 0 \<and> b = 0"
proof -
  have "unat a < 256" "unat b < 256" using unsigned_less [of a, where 'a = nat] unsigned_less [of b, where 'a = nat] by simp_all
  then have "unat (ucast a :: u16) = unat a" "unat (push_bit 8 (ucast b) :: u16) = 256 * unat b"
    by (simp_all add: push_bit_eq_mult unat_word_ariths unsigned_ucast_eq take_bit_nat_eq_self)
  then have "(ucast a :: u16) = 0 \<longleftrightarrow> a = 0" "(push_bit 8 (ucast b) :: u16) = 0 \<longleftrightarrow> b = 0" by (simp_all add: word_unat_eq_iff)
  then show ?thesis by (simp add: or_eq_0_iff)
qed

lemma frame_get:
  assumes "frame_at s p base i f" and "i + j + k \<le> length f"
  shows "hdr_get (Some (p, int (base + i))) j k s = Ret (take k (drop (i + j) f)) s"
  by (rule wp_eq_Ret [THEN iffD1], rule wp_hdr_get [OF assms(1)]) (use assms(2) in simp_all)

lemma frame_chain:
  assumes "frame_at s p base i f" and "1 < n"
  shows "chain_blocks n p s = Ret [(odd (p + base + i), drop i f)] s"
proof -
  obtain b where b: "pbufs s p = Some b" "pnext b = 0" "payload b = Some (p, int (base + i))" "unat (len b) = length f - i" "p \<noteq> 0" "i \<le> length f"
    using assms(1) by (auto simp: frame_at_def one_buffer_def)
  have "memcpy_from (payload b) (unat (len b)) s = Ret (drop i f) s"
    using frame_get [OF assms(1), of 0 "length f - i"] b by (simp add: hdr_get_def ptr_add_def)
  moreover have "n = Suc (Suc (n - 2))" using assms(2) by simp
  then obtain k where "n = Suc (Suc k)" by blast
  moreover have "odd_ptr (payload b) \<longleftrightarrow> odd (p + base + i)" unfolding odd_ptr_def b(3) by (simp add: add.assoc)
  ultimately show ?thesis using b by simp
qed

lemma frame_skip:
  assumes "frame_at s p base i f" and "i + 8 \<le> length f"
  obtains b d where "pbuf_header p (- 8) s = Ret 0 (with_buf s p b d)" and "frame_at (with_buf s p b d) p base (i + 8) f"
proof -
  have "wp (pbuf_header p (- 8)) (\<lambda>r t. r = 0 \<and> (\<exists>b d. t = with_buf s p b d \<and> frame_at t p base (i + 8) f)) (\<lambda>_ _. False) s"
    by (rule wp_move [OF assms(1), of "i + 8"]) (use assms(2) in auto)
  then show ?thesis using that unfolding wp_total_ex by blast
qed

lemma frame_free: "frame_at s p base i f \<Longrightarrow> 1 < n \<Longrightarrow> pbuf_free n p s = Ret 1 (with_buf s p None None)"
  by (rule wp_eq_Ret [THEN iffD1], rule wp_free_frame) simp_all

lemma with_buf_udp [simp]: "udp_heap (with_buf s p b d) = udp_heap s"
  by (simp add: with_buf_def)

lemma pseudo_parity: "length bs \<le> 0x20000 \<Longrightarrow> inet_chksum_pseudo [(od, bs)] pr l src dest = inet_chksum_pseudo [(False, bs)] pr l src dest"
  by (simp add: pseudo_chksum payload_of_def)

section \<open>Receiving\<close>

lemma relinked_view:
  assumes "relinked s t"
  shows "pbufs t = pbufs s" "blocks t = blocks s" "current_iphdr_src t = current_iphdr_src s" "current_iphdr_dest t = current_iphdr_dest s"
    "netif_ip_addr t = netif_ip_addr s"
  using assms by (auto simp: relinked_def)

text \<open>Whether the receiver is satisfied with the checksum.\<close>

definition chksum_good :: "u32 \<Rightarrow> u32 \<Rightarrow> u8 list \<Rightarrow> bool" where
  "chksum_good src dest bs \<longleftrightarrow> take 2 (drop 6 bs) = [0, 0] \<or> inet_chksum_pseudo [(False, bs)] IP_PROTO_UDP (of_nat (length bs)) src dest = 0"

lemma udp_chkerr_run:
  assumes "frame_at s p base i f" and "1 < n" and "i + 8 \<le> length f" and "tot = of_nat (length f - i)"
  shows "udp_chkerr n p (Some (p, int (base + i))) tot s = Ret (\<not> chksum_good (current_iphdr_src s) (current_iphdr_dest s) (drop i f)) s"
proof -
  let ?ck = "take 2 (drop 6 (drop i f))"
  have "length ?ck = 2" using assms(3) by simp
  then obtain a b where ck: "?ck = [a, b]" using two_bytes by blast
  have "hdr_get (Some (p, int (base + i))) 6 2 s = Ret [a, b] s"
    using frame_get [OF assms(1), of 6 2] assms(3) ck by (simp add: add.commute)
  moreover have "inet_chksum_pseudo [(odd (p + base + i), drop i f)] IP_PROTO_UDP tot src dest =
      inet_chksum_pseudo [(False, drop i f)] IP_PROTO_UDP (of_nat (length (drop i f))) src dest" for src dest
  proof -
    have "length (drop i f) \<le> 0x20000" using frame_len [OF assms(1)] unfolding length_drop by linarith
    then show ?thesis unfolding assms(4) by (subst pseudo_parity) simp_all
  qed
  ultimately show ?thesis
    unfolding udp_chkerr_def chksum_good_def ck using frame_chain [OF assms(1,2)] word_zero [of a b] by (simp del: le_word.simps)
qed

lemma udp_deliver_run:
  assumes "udp_heap s r = Some c" and "r \<noteq> 0" and "frame_at s p base i f" and "1 < n"
  shows "udp_deliver E M n cb p r src bc s =
    (if pcb_recv c \<noteq> 0 then cb (pcb_recv c) (pcb_recv_arg c) r p (current_iphdr_src s) src s else Ret () (with_buf s p None None))"
  using assms frame_free [OF assms(3,4)] by (simp add: udp_deliver_def)

lemma udp_header_run:
  assumes "frame_at s p base i f" and "drop i f = udp_bytes src dest l ck bs"
  shows "hdr_get (Some (p, int (base + i))) 0 2 s = Ret (le_bytes 2 (lwip_htons src)) s"
    "hdr_get (Some (p, int (base + i))) 2 2 s = Ret (le_bytes 2 (lwip_htons dest)) s" "i + 8 \<le> length f"
proof -
  have "length (drop i f) = 8 + length bs" using assms(2) by simp
  then show le: "i + 8 \<le> length f" by simp
  have "take 2 (drop (i + 2) f) = take 2 (drop 2 (drop i f))" by (simp add: add.commute)
  then show "hdr_get (Some (p, int (base + i))) 0 2 s = Ret (le_bytes 2 (lwip_htons src)) s"
    "hdr_get (Some (p, int (base + i))) 2 2 s = Ret (le_bytes 2 (lwip_htons dest)) s"
    using frame_get [OF assms(1), of 0 2] frame_get [OF assms(1), of 2 2] le udp_bytes_fields [of src dest l ck bs] assms(2) by simp_all
qed

text \<open>What \<^verbatim>\<open>udp_input\<close> does once the receiver is known.\<close>

lemma udp_input_found:
  assumes "frame_at s p base i f" and "1 < n" and "drop i f = udp_bytes src dest l ck bs"
    and "udp_find n src dest (ip4_addr_isbroadcast (current_iphdr_dest s) s) s = Ret r t" and "relinked s t"
    and "r \<noteq> 0 \<Longrightarrow> udp_heap t r = Some c"
  shows "\<exists>b d. frame_at (with_buf t p b d) p base (i + 8) f \<and> udp_input E M n cb p s =
    (if r = 0 \<and> netif_ip_addr s \<noteq> current_iphdr_dest s \<or> \<not> chksum_good (current_iphdr_src s) (current_iphdr_dest s) (drop i f)
     then Ret () (with_buf t p None None)
     else if r = 0 then udp_deliver E M n cb p 0 src (ip4_addr_isbroadcast (current_iphdr_dest s) s) (with_buf t p b d)
     else if pcb_recv c = 0 then Ret () (with_buf t p None None)
     else cb (pcb_recv c) (pcb_recv_arg c) r p (current_iphdr_src s) src (with_buf t p b d))"
proof -
  obtain b where b: "pbufs s p = Some b" "payload b = Some (p, int (base + i))" "unat (len b) = length f - i" "tot_len b = len b" "i \<le> length f"
    using assms(1) by (auto simp: frame_at_def one_buffer_def)
  note h = udp_header_run [OF assms(1,3)]
  note v = relinked_view [OF assms(5)]
  have ft: "frame_at t p base i f" by (rule frame_cong [OF assms(1)]) (simp_all add: v)
  obtain b' d' where m: "pbuf_header p (- 8) t = Ret 0 (with_buf t p b' d')" "frame_at (with_buf t p b' d') p base (i + 8) f"
    using frame_skip [OF ft h(3)] by blast
  have "tot_len b = of_nat (unat (len b))" using b(4) by simp
  then have tot: "tot_len b = of_nat (length f - i)" unfolding b(3) .
  note ce = udp_chkerr_run [OF ft assms(2) h(3) tot]
  note fr = frame_free [OF ft assms(2)]
  have len: "\<not> unat (len b) < UDP_HLEN" using b(3) h(3) by (simp add: UDP_HLEN_def)
  let ?bad = "\<not> chksum_good (current_iphdr_src s) (current_iphdr_dest s) (drop i f)"
  have run: "udp_input E M n cb p s =
      (if \<not> (r \<noteq> 0 \<or> netif_ip_addr s = current_iphdr_dest s) then Ret () (with_buf t p None None)
       else if ?bad then Ret () (with_buf t p None None)
       else udp_deliver E M n cb p r src (ip4_addr_isbroadcast (current_iphdr_dest s) s) (with_buf t p b' d'))"
    using len h(1,2) assms(4) ce fr m(1)
    by (simp add: udp_input_def Let_def b(1,2) v UDP_HLEN_def htons_ntohs)
  have "udp_deliver E M n cb p r src bc (with_buf t p b' d') =
      (if pcb_recv c \<noteq> 0 then cb (pcb_recv c) (pcb_recv_arg c) r p (current_iphdr_src s) src (with_buf t p b' d')
       else Ret () (with_buf t p None None))" if "r \<noteq> 0" for bc
    using udp_deliver_run [OF _ that m(2) assms(2), of c E M cb src bc] assms(6) [OF that] by (simp add: v)
  then show ?thesis using run m(2) by (intro exI [of _ b'] exI [of _ d']) auto
qed

lemma find_in: "find P xs = Some x \<Longrightarrow> x \<in> set xs"
  by (auto simp: find_Some_iff)

lemma receiver_alive: "receiver s xs src dest bc \<noteq> 0 \<Longrightarrow> receiver s xs src dest bc \<in> set xs"
  by (cases "find (takes_from s src dest bc) xs"; cases "find (takes_all s dest bc) xs") (simp_all add: receiver_def first_of_def find_in)

text \<open>
  The rules by which a datagram finds its receiver, written on the bits of the addresses: whether the destination is a broadcast address (all ones,
  all zeros, or, on an interface with the broadcast flag, all ones behind the network part of the own address), whether a control block
  is bound to the destination, and whether it is set to the sender.
\<close>

definition broadcast_to :: "'z udp_state_scheme \<Rightarrow> bool" where
  "broadcast_to s \<longleftrightarrow> (let a = current_iphdr_dest s in
     a = 0 \<or> a = 0xffffffff \<or>
     (bit (netif_flags s) 1 \<and> a \<noteq> netif_ip_addr s \<and> (\<forall>k<32. if bit (netif_netmask s) k then bit a k = bit (netif_ip_addr s) k else bit a k)))"

definition addressed :: "'z udp_state_scheme \<Rightarrow> u16 \<Rightarrow> addr \<Rightarrow> bool" where
  "addressed s port x \<longleftrightarrow> (let c = pcb_at s x in
     local_port c = port \<and>
     (local_ip c = 0 \<or> local_ip c = current_iphdr_dest s \<or>
      (broadcast_to s \<and> (\<forall>k<32. bit (netif_netmask s) k \<longrightarrow> bit (local_ip c) k = bit (current_iphdr_dest s) k))))"

definition set_to_sender :: "'z udp_state_scheme \<Rightarrow> u16 \<Rightarrow> addr \<Rightarrow> bool" where
  "set_to_sender s port x \<longleftrightarrow> remote_port (pcb_at s x) = port \<and> remote_ip (pcb_at s x) \<in> {0, current_iphdr_src s}"

text \<open>First the blocks that are set to the sender, then those that are not connected, in the order of the list.\<close>

definition candidates :: "'z udp_state_scheme \<Rightarrow> addr list \<Rightarrow> u16 \<Rightarrow> u16 \<Rightarrow> addr list" where
  "candidates s xs src dest =
     filter (\<lambda>x. addressed s dest x \<and> set_to_sender s src x) xs @
     filter (\<lambda>x. addressed s dest x \<and> \<not> bit (pcb_flags (pcb_at s x)) 2) xs"

lemma same_network: "a AND m = b AND m \<longleftrightarrow> (\<forall>k<32. bit m k \<longrightarrow> bit a k = bit b k)" for a b m :: u32
  by (auto simp: bit_eq_iff bit_and_iff dest: bit_imp_le_length)

lemma host_ones: "a AND NOT m = IPADDR_BROADCAST AND NOT m \<longleftrightarrow> (\<forall>k<32. \<not> bit m k \<longrightarrow> bit a k)" for a m :: u32
proof -
  have "IPADDR_BROADCAST = NOT (0 :: u32)" by (simp add: IPADDR_BROADCAST_def)
  then show ?thesis by (auto simp: bit_eq_iff bit_simps dest: bit_imp_le_length)
qed

lemma flag_bit: "f AND NETIF_FLAG_BROADCAST = 0 \<longleftrightarrow> \<not> bit f 1" "f AND UDP_FLAGS_CONNECTED = 0 \<longleftrightarrow> \<not> bit f 2" for f :: u8
  using and_exp_eq_0_iff_not_bit [of f 1] and_exp_eq_0_iff_not_bit [of f 2] by (simp_all add: NETIF_FLAG_BROADCAST_def UDP_FLAGS_CONNECTED_def)

lemma broadcast_rule: "ip4_addr_isbroadcast (current_iphdr_dest s) s \<longleftrightarrow> broadcast_to s"
proof -
  have "NOT (0 :: u32) = 0xffffffff" by simp
  then have "NOT a = (0 :: u32) \<longleftrightarrow> a = 0xffffffff" for a by (metis bit.double_compl)
  then show ?thesis
    unfolding ip4_addr_isbroadcast_def broadcast_to_def Let_def ip_addr_netcmp_def host_ones flag_bit IPADDR_ANY_def
    unfolding same_network by auto
qed

lemma matching_rules:
  "takes_from s src dest (broadcast_to s) = (\<lambda>x. addressed s dest x \<and> set_to_sender s src x)"
  "takes_all s dest (broadcast_to s) = (\<lambda>x. addressed s dest x \<and> \<not> bit (pcb_flags (pcb_at s x)) 2)"
proof -
  have "local_match (pcb_at s x) dest (broadcast_to s) s \<longleftrightarrow> addressed s dest x" for x
    by (auto simp: local_match_def addressed_def Let_def ip_addr_isany_def IPADDR_ANY_def ip_addr_netcmp_def same_network)
  then show "takes_from s src dest (broadcast_to s) = (\<lambda>x. addressed s dest x \<and> set_to_sender s src x)"
    "takes_all s dest (broadcast_to s) = (\<lambda>x. addressed s dest x \<and> \<not> bit (pcb_flags (pcb_at s x)) 2)"
    by (auto simp: fun_eq_iff takes_from_def takes_all_def set_to_sender_def remote_match_def ip_addr_isany_def IPADDR_ANY_def flag_bit)
qed

lemma find_filter: "find P xs = (case filter P xs of [] \<Rightarrow> None | x # _ \<Rightarrow> Some x)"
  by (induction xs) auto

lemma receiver_rule: "receiver s xs src dest (broadcast_to s) = hd (candidates s xs src dest @ [0])"
  by (simp add: receiver_def first_of_def find_filter candidates_def matching_rules split: list.split)

lemma reordered_rule:
  assumes "distinct xs"
  shows "reordered s xs src dest (broadcast_to s) =
    (case filter (\<lambda>x. addressed s dest x \<and> set_to_sender s src x) xs of [] \<Rightarrow> xs | x # _ \<Rightarrow> x # filter (\<lambda>y. y \<noteq> x) xs)"
proof -
  have "remove1 x xs = filter (\<lambda>y. y \<noteq> x) xs" for x by (simp add: distinct_remove1_removeAll [OF assms] removeAll_filter_not_eq eq_commute)
  then show ?thesis unfolding reordered_def find_filter matching_rules
    by (cases "filter (\<lambda>x. addressed s dest x \<and> set_to_sender s src x) xs") simp_all
qed

text \<open>
  C39. To whom a datagram goes. For a datagram that is in one buffer and not for the DHCP client, the receiver is the first bound control
  block that is bound to the destination and set to the sender, by port and by address if it has one, and if there is none the first that is bound to the destination and not connected. (A block that
  is not connected has remote port 0 and no address, so for a datagram with source port 0 it counts as set to the sender.) If the receiver exists, the checksum is absent or right and
  it has a receive function, this function is called with the block, the sender and the buffer, whose payload is now the data; a block that is set to the sender has moved to
  the front of the list. A datagram with a good checksum to the own address that nobody takes is given to ICMP with its IP header, to be answered as unreachable
  port, unless that address is a broadcast or multicast one, and is then freed. In all other cases the buffer is freed and nothing is called.
\<close>

theorem udp_datagram_delivered:
  assumes "udp_ok s xs" and "length xs < n" and "1 < n" and "frame_at s p base i f" and "drop i f = udp_bytes src dest l ck bs"
    and "dest \<noteq> DHCP_CLIENT_PORT"
  shows "let r = hd (candidates s xs src dest @ [0]);
           good = chksum_good (current_iphdr_src s) (current_iphdr_dest s) (drop i f);
           c = pcb_at s r in
    \<exists>t b d. relinked s t \<and>
      udp_ok t (case filter (\<lambda>x. addressed s dest x \<and> set_to_sender s src x) xs of [] \<Rightarrow> xs | x # _ \<Rightarrow> x # filter (\<lambda>y. y \<noteq> x) xs) \<and>
      frame_at (with_buf t p b d) p base (i + 8) f \<and>
      udp_input E M n cb p s =
        (if r \<noteq> 0 \<and> good \<and> pcb_recv c \<noteq> 0 then cb (pcb_recv c) (pcb_recv_arg c) r p (current_iphdr_src s) src (with_buf t p b d)
         else if r = 0 \<and> good \<and> netif_ip_addr s = current_iphdr_dest s then
           thenM (whenM (\<not> broadcast_to s \<and> \<not> ip_addr_ismulticast (current_iphdr_dest s))
                    (thenM (pbuf_header_force p (int (unat (current_ip_header_tot_len s)) + 8)) (icmp_dest_unreach E M n p ICMP_DUR_PORT)))
             (thenM (pbuf_free n p) (ret ())) (with_buf t p b d)
         else Ret () (with_buf t p None None))"
proof -
  let ?r = "hd (candidates s xs src dest @ [0])"
  have r: "receiver s xs src dest (broadcast_to s) = ?r" by (rule receiver_rule)
  have dis: "distinct xs" using assms(1) linked_distinct unfolding udp_ok_def bound_def by blast
  obtain t where t: "udp_find n src dest (broadcast_to s) s = Ret ?r t" "relinked s t" "bound t (reordered s xs src dest (broadcast_to s))"
    using udp_find_run [OF assms(1,2,6), of src "broadcast_to s"] unfolding r by blast
  have ok: "udp_ok t (reordered s xs src dest (broadcast_to s))" by (rule relinked_ok [OF assms(1) t(2,3) set_reordered [OF dis]])
  obtain c where c: "?r \<noteq> 0 \<Longrightarrow> udp_heap t ?r = Some c" "?r \<noteq> 0 \<Longrightarrow> pcb_recv c = pcb_recv (pcb_at s ?r)"
    "?r \<noteq> 0 \<Longrightarrow> pcb_recv_arg c = pcb_recv_arg (pcb_at s ?r)"
  proof (cases "?r = 0")
    case False
    then obtain d where "udp_heap s ?r = Some d"
      using udp_ok_alive [OF assms(1) receiver_alive [of s xs src dest "broadcast_to s"]] unfolding r by blast
    then obtain q where "udp_heap t ?r = Some ((pcb_at s ?r)\<lparr>pcb_next := q\<rparr>)" using relinked_at [OF t(2)] pcb_at_Some by metis
    then show ?thesis using that [of "(pcb_at s ?r)\<lparr>pcb_next := q\<rparr>"] by simp
  qed (use that in blast)
  obtain b d where fr: "frame_at (with_buf t p b d) p base (i + 8) f" and run: "udp_input E M n cb p s =
    (if ?r = 0 \<and> netif_ip_addr s \<noteq> current_iphdr_dest s \<or> \<not> chksum_good (current_iphdr_src s) (current_iphdr_dest s) (drop i f)
     then Ret () (with_buf t p None None)
     else if ?r = 0 then udp_deliver E M n cb p 0 src (broadcast_to s) (with_buf t p b d)
     else if pcb_recv c = 0 then Ret () (with_buf t p None None)
     else cb (pcb_recv c) (pcb_recv_arg c) ?r p (current_iphdr_src s) src (with_buf t p b d))"
    using udp_input_found [OF assms(4,3,5) _ t(2) c(1), of E M cb] t(1) unfolding broadcast_rule by blast
  have v: "current_iphdr_dest (with_buf t p b d) = current_iphdr_dest s" "current_ip_header_tot_len (with_buf t p b d) = current_ip_header_tot_len s"
    using t(2) by (auto simp: relinked_def with_buf_def)
  have un: "udp_deliver E M n cb p 0 src (broadcast_to s) (with_buf t p b d) =
      thenM (whenM (\<not> broadcast_to s \<and> \<not> ip_addr_ismulticast (current_iphdr_dest s))
               (thenM (pbuf_header_force p (int (unat (current_ip_header_tot_len s)) + 8)) (icmp_dest_unreach E M n p ICMP_DUR_PORT)))
        (thenM (pbuf_free n p) (ret ())) (with_buf t p b d)"
    by (simp add: udp_deliver_def UDP_HLEN_def v relinked_view [OF t(2)] whenM_def thenM_def bindM_def)
  show ?thesis
    unfolding Let_def using t(2) ok [unfolded reordered_rule [OF dis]] fr run c(2,3) un
    by - (rule exI [of _ t], rule exI [of _ b], rule exI [of _ d], auto simp only: if_True if_False simp_thms split: if_splits)
qed

text \<open>
  A datagram for the port 5000 has arrived. One block is bound to this port of another address; the second to the own address, and connected
  to the sender.
\<close>

definition datagram_in :: udp_state where
  "datagram_in = one_bound\<lparr>udp_heap :=
     [4 \<mapsto> (example_pcb 5000)\<lparr>local_ip := 0x6301a8c0, pcb_next := 8\<rparr>,
      8 \<mapsto> (example_pcb 5000)\<lparr>local_ip := 0x0a01a8c0, remote_ip := 0x1401a8c0, remote_port := 7000, pcb_flags := 4\<rparr>],
     pbufs := [12 \<mapsto> \<lparr>pnext = 0, payload = Some (12, 34), tot_len = 9, len = 9, ptype = PBUF_POOL, flags = 0, ref = 1\<rparr>],
     blocks := [4 \<mapsto> [], 8 \<mapsto> [], 12 \<mapsto> replicate 34 0 @ udp_bytes 7000 5000 9 0 [1]], netif_flags := 0,
     current_iphdr_dest := 0x0a01a8c0, current_iphdr_src := 0x1401a8c0\<rparr>"

lemma datagram_in_fields [simp]:
  "udp_heap datagram_in = [4 \<mapsto> (example_pcb 5000)\<lparr>local_ip := 0x6301a8c0, pcb_next := 8\<rparr>,
      8 \<mapsto> (example_pcb 5000)\<lparr>local_ip := 0x0a01a8c0, remote_ip := 0x1401a8c0, remote_port := 7000, pcb_flags := 4\<rparr>]"
  "udp_pcbs datagram_in = 4" "udp_port datagram_in = 0xc000" "netif_flags datagram_in = 0"
  "current_iphdr_src datagram_in = 0x1401a8c0" "current_iphdr_dest datagram_in = 0x0a01a8c0"
  "blocks datagram_in = [4 \<mapsto> [], 8 \<mapsto> [], 12 \<mapsto> replicate 34 0 @ udp_bytes 7000 5000 9 0 [1]]"
  "pbufs datagram_in = [12 \<mapsto> \<lparr>pnext = 0, payload = Some (12, 34), tot_len = 9, len = 9, ptype = PBUF_POOL, flags = 0, ref = 1\<rparr>]"
  by (simp_all add: datagram_in_def)

lemma datagram_in_ok:
  "udp_ok datagram_in [4, 8]" "frame_at datagram_in 12 0 34 (replicate 34 0 @ udp_bytes 7000 5000 9 0 [1])"
  "chksum_good src dest (udp_bytes 7000 5000 9 0 [1])"
  by (auto simp: udp_ok_def bound_def linked_Cons frame_at_def one_buffer_def chksum_good_def udp_bytes_def le_bytes_2 clash_def pcb_at_def
      ip_addr_isany_def IPADDR_ANY_def split: if_splits)

lemma datagram_in_rules:
  "addressed datagram_in 5000 4 = False" "addressed datagram_in 5000 8" "set_to_sender datagram_in 7000 8"
  by (simp_all add: addressed_def set_to_sender_def broadcast_to_def pcb_at_def Let_def)

theorem udp_datagram_delivered_witness:
  "\<forall>cb. \<exists>u. udp_input ideal_env (bump 9) 9 cb 12 datagram_in = cb 1 0 8 12 0x1401a8c0 7000 u \<and>
     frame_at u 12 0 42 (replicate 34 0 @ udp_bytes 7000 5000 9 0 [1])"
proof
  fix cb
  have "candidates datagram_in [4, 8] 7000 5000 = [8]"
    by (simp add: candidates_def datagram_in_rules) (simp add: pcb_at_def)
  then show "\<exists>u. udp_input ideal_env (bump 9) 9 cb 12 datagram_in = cb 1 0 8 12 0x1401a8c0 7000 u \<and>
     frame_at u 12 0 42 (replicate 34 0 @ udp_bytes 7000 5000 9 0 [1])"
    using udp_datagram_delivered [OF datagram_in_ok(1) _ _ datagram_in_ok(2), of 9 7000 5000 9 0 "[1]" ideal_env "bump 9" cb]
    by (auto simp: Let_def datagram_in_ok(3) pcb_at_def example_pcb_def DHCP_CLIENT_PORT_def)
qed

section \<open>Sending\<close>

text \<open>The checksum that is filled in satisfies the receiver, and is never the value that stands for none.\<close>

lemma udp_filled_good:
  assumes "length bs < 65528" and "ck = udp_chksum [(od, udp_bytes sp dp l 0 bs)] (of_nat (8 + length bs)) src dest"
  shows "chksum_good src dest (udp_bytes sp dp l ck bs)" "ck \<noteq> 0"
proof -
  let ?len = "of_nat (8 + length bs) :: u16"
  define k where "k = words_sum (udp_bytes sp dp l 0 bs) + pseudo_sum IP_PROTO_UDP ?len src dest"
  have sum: "words_sum (udp_bytes sp dp l v bs) = words_sum (udp_bytes sp dp l 0 bs) + unat v" for v
    by (simp add: udp_bytes_def words_sum_pair)
  have k0: "k \<noteq> 0" by (simp add: k_def pseudo_sum_def IP_PROTO_UDP_def lwip_htons_def)
  have ps: "inet_chksum_pseudo [(o', udp_bytes sp dp l v bs)] IP_PROTO_UDP ?len src dest = NOT (of_nat (ones_sum (k + unat v)))" for o' v
    using assms(1) by (subst pseudo_chksum) (simp_all add: payload_of_def sum [of v] k_def add_ac)
  let ?c = "NOT (of_nat (ones_sum k)) :: u16"
  have "unat (of_nat (ones_sum k) :: u16) = ones_sum k" using ones_sum_le [of k] by (simp add: unsigned_of_nat take_bit_nat_eq_self)
  then have c: "unat ?c = 65535 - ones_sum k" using unat_NOT16 [of "of_nat (ones_sum k)"] by simp
  have ck: "ck = (if ?c = 0 then 0xffff else ?c)" using ps [of od 0] assms(2) by (simp add: udp_chksum_def)
  have "unat ck mod 65535 = (65535 - ones_sum k) mod 65535" using c unfolding ck by (cases "?c = 0") simp_all
  then have "(k + unat ck) mod 65535 = 0" using complement_passes [OF k0] by (metis mod_add_cong)
  then have "ones_sum (k + unat ck) = 65535" using ones_sumI [of 65535 "k + unat ck"] k0 by (simp add: same_sum_def)
  then have "inet_chksum_pseudo [(False, udp_bytes sp dp l ck bs)] IP_PROTO_UDP ?len src dest = 0" unfolding ps by simp
  then show "chksum_good src dest (udp_bytes sp dp l ck bs)" by (simp add: chksum_good_def)
  show "ck \<noteq> 0" unfolding ck by simp
qed

lemma udp_header_bytes:
  fixes sp dp l :: u16
  assumes "length hb = 8"
  shows "overwrite 4 (le_bytes 2 l) (overwrite 6 (le_bytes 2 (0 :: u16)) (overwrite 2 (le_bytes 2 dp) (overwrite 0 (le_bytes 2 sp) hb))) =
      le_bytes 2 sp @ le_bytes 2 dp @ le_bytes 2 l @ [0, 0]"
proof -
  obtain x0 x1 x2 x3 x4 x5 x6 x7 where "hb = [x0, x1, x2, x3, x4, x5, x6, x7]"
    using assms by (auto simp: numeral_eq_Suc length_Suc_conv)
  then show ?thesis by (simp add: overwrite_def le_bytes_2)
qed

lemma udp_fill:
  "overwrite 6 (le_bytes 2 ck) (le_bytes 2 (lwip_htons sp) @ le_bytes 2 (lwip_htons dp) @ le_bytes 2 (lwip_htons l) @ [0, 0]) @ r = udp_bytes sp dp l ck r"
  by (simp add: overwrite_def udp_bytes_def le_bytes_2)

lemma wp_hdr_within:
  assumes "frame_at s p base i (e @ hb @ r)" and "length e = i" and "j + length bs \<le> length hb" and "bs \<noteq> []"
    and "\<And>b d. frame_at (with_buf s p b d) p base i (e @ overwrite j bs hb @ r) \<Longrightarrow> Q () (with_buf s p b d)"
  shows "wp (hdr_put (Some (p, int (base + i))) j bs) Q H s"
  using wp_hdr_put [of s p base i "e @ hb @ r" i j bs Q H] assms overwrite_between [OF assms(2,3), of r] by simp

lemma wp_upcb: "udp_heap s p = Some c \<Longrightarrow> Q c s \<Longrightarrow> wp (upcb p) Q H s"
  by (simp add: wp_def)

lemma put_udp_header_wp:
  assumes "frame_at s p base 34 (e @ hb @ r)" and "length e = 34" and "length hb = 8"
    and "\<And>b d. frame_at (with_buf s p b d) p base 34 (e @ udp_bytes sp dp l 0 r) \<Longrightarrow> Q () (with_buf s p b d)"
  shows "wp (seqM [hdr_put (Some (p, int (base + 34))) 0 (le_bytes 2 (lwip_htons sp)), hdr_put (Some (p, int (base + 34))) 2 (le_bytes 2 (lwip_htons dp)),
      hdr_put (Some (p, int (base + 34))) 6 (le_bytes 2 (0 :: u16)), hdr_put (Some (p, int (base + 34))) 4 (le_bytes 2 (lwip_htons l))]) Q H s"
  unfolding seqM.simps wp_thenM
  apply (rule wp_hdr_within [OF assms(1,2)], simp add: assms, simp add: le_bytes_2)
  apply (rule wp_hdr_within, assumption, simp add: assms, simp add: assms overwrite_length, simp add: le_bytes_2)+
  subgoal premises prems for b1 d1 b2 d2 b3 d3 b4 d4
    using prems(4) assms(4) [of b4 d4] udp_header_bytes [OF assms(3), of "lwip_htons l" "lwip_htons dp" "lwip_htons sp"]
    by (simp add: udp_bytes_def le_bytes_2)
  done

lemma fill_udp_chksum_wp:
  assumes "frame_at s p base 34 (e @ udp_bytes sp dp l 0 r)" and "length e = 34" and "1 < n" and "tot = of_nat (8 + length r)"
    and "\<And>b d ck. frame_at (with_buf s p b d) p base 34 (e @ udp_bytes sp dp l ck r) \<Longrightarrow> chksum_good src dest (udp_bytes sp dp l ck r) \<Longrightarrow>
      (y \<Longrightarrow> ck \<noteq> 0) \<Longrightarrow> Q () (with_buf s p b d)"
  shows "wp (whenM y (bindM (chain_blocks n p) (\<lambda>ch. hdr_put (Some (p, int (base + 34))) 6 (le_bytes 2 (udp_chksum ch tot src dest))))) Q H s"
proof (cases y)
  case False
  have "chksum_good src dest (udp_bytes sp dp l 0 r)" by (simp add: chksum_good_def udp_bytes_def le_bytes_2)
  then show ?thesis using assms(1) assms(5) [of "pbufs s p" "blocks s p" 0] False by (simp add: with_buf_same)
next
  case True
  let ?ch = "[(odd (p + base + 34), udp_bytes sp dp l 0 r)]"
  define ck where "ck = udp_chksum ?ch (of_nat (8 + length r)) src dest"
  have "length r < 65528" using frame_len [OF assms(1)] assms(2) by simp
  note good = udp_filled_good [OF this ck_def]
  have ch: "chain_blocks n p s = Ret ?ch s" using frame_chain [OF assms(1,3)] assms(2) by simp
  let ?hb = "le_bytes 2 (lwip_htons sp) @ le_bytes 2 (lwip_htons dp) @ le_bytes 2 (lwip_htons l) @ [0, 0]"
  have "frame_at s p base 34 (e @ ?hb @ r)" using assms(1) by (simp add: udp_bytes_def le_bytes_2)
  then have "wp (hdr_put (Some (p, int (base + 34))) 6 (le_bytes 2 ck)) Q H s"
  proof (rule wp_hdr_within [OF _ assms(2)])
    fix b d
    assume "frame_at (with_buf s p b d) p base 34 (e @ overwrite 6 (le_bytes 2 ck) ?hb @ r)"
    then show "Q () (with_buf s p b d)" using assms(5) [of b d ck] good unfolding udp_fill by blast
  qed (simp_all add: le_bytes_2)
  then show ?thesis using True ch unfolding assms(4) ck_def by (simp add: wp_def [of "chain_blocks n p"])
qed

lemma wp_skip: "wp (whenM False m) R K = R ()"
  by (rule ext) simp

lemma udp_room_wp:
  assumes "frame_at s p base 42 f" and "\<And>b d. frame_at (with_buf s p b d) p base 34 f \<Longrightarrow> Q p (with_buf s p b d)"
  shows "wp (udp_room M n p) Q H s"
  unfolding udp_room_def wp_bindM
  by (rule wp_move [OF assms(1), of 34]) (use assms frame_len [OF assms(1)] in \<open>simp_all add: UDP_HLEN_def\<close>)

lemma udp_send_wp:
  assumes fr: "frame_at s p base 42 f" and len: "length f \<le> 1024" and n: "1 < n" and hw: "length (netif_hwaddr s) = 6" and ok: "arp_ok s"
    and a: "host_addr dest" "\<not> ip4_addr_isbroadcast dest s" "next_hop s dest = Some g" "resolved (arp_table s) g mac"
    and c: "udp_heap s pcb = Some c" "local_port c \<noteq> 0"
    and Q: "\<And>b d es k ck. chksum_good src dest (udp_bytes (local_port c) dp (of_nat (length f - 34)) ck (drop 42 f)) \<Longrightarrow>
      (pcb_flags c AND UDP_FLAGS_NOCHKSUM = 0 \<Longrightarrow> ck \<noteq> 0) \<Longrightarrow>
      enc_bus None es = (None, chip_frames (ip_frame mac (netif_hwaddr s) (pcb_ttl c) (pcb_tos c) IP_PROTO_UDP (ip_id s) src dest
        (udp_bytes (local_port c) dp (of_nat (length f - 34)) ck (drop 42 f)))) \<Longrightarrow>
      frame_at (with_buf s p b d) p base 0 (ip_frame mac (netif_hwaddr s) (pcb_ttl c) (pcb_tos c) IP_PROTO_UDP (ip_id s) src dest
        (udp_bytes (local_port c) dp (of_nat (length f - 34)) ck (drop 42 f))) \<Longrightarrow>
      Q ERR_OK ((with_buf s p b d)\<lparr>ip_id := ip_id s + 1, etharp_cached_entry := k, txbusy := True, trace := trace s @ es\<rparr>)"
  shows "wp (udp_sendto_if_src E M n pcb p dest dp src) Q H s"
proof -
  let ?e = "take 34 f" and ?hb = "take 8 (drop 34 f)" and ?r = "drop 42 f" and ?l = "of_nat (length f - 34) :: u16"
  have split: "f = ?e @ ?hb @ ?r" using take_drop_join [of 8 34 f] by simp
  have l: "length ?e = 34" "length ?hb = 8" "42 \<le> length f" using frame_len [OF fr] by (auto simp: min_def)
  have p0: "p \<noteq> 0" using fr by (simp add: frame_at_def)
  have tot: "?l = of_nat (8 + length ?r)" using l(3) by simp
  let ?dg = "\<lambda>ck. udp_bytes (local_port c) dp ?l ck ?r"
  have out: "wp (ip_output_if_src E M n p src (Some dest) (pcb_ttl c) (pcb_tos c) IP_PROTO_UDP)
      (\<lambda>err t. wp (thenM (whenM (p \<noteq> p) (thenM (pbuf_free n p) (ret ()))) (ret err)) Q H t) H (with_buf s p b d)"
    if x: "frame_at (with_buf s p b d) p base 34 (?e @ ?dg ck)" "chksum_good src dest (?dg ck)" "pcb_flags c AND UDP_FLAGS_NOCHKSUM = 0 \<Longrightarrow> ck \<noteq> 0"
    for b d ck
  proof (rule output_if_wp [where g = g and mac = mac, OF x(1)], goal_cases)
    case (9 b' d' es k)
    have "drop 34 (?e @ ?dg ck) = ?dg ck" using l(1) by simp
    then show ?case using Q [OF x(2,3), of es b' d' k] 9 by simp
  qed (use len n hw ok a l in simp_all)
  show ?thesis
    unfolding udp_sendto_if_src_def wp_bindM wp_thenM
  proof (rule wp_upcb [OF c(1)], simp only: c(2) if_False wp_ret simp_thms wp_bindM, rule udp_room_wp [OF fr], goal_cases)
    case (1 b1 d1)
    show ?case
      unfolding if_not_P [OF p0] wp_bindM wp_thenM
    proof (rule frame_deref [OF 1], rule wp_lwip_assert, goal_cases)
      case (2 b)
      have b: "payload b = Some (p, int (base + 34))" "tot_len b = ?l"
      proof -
        have "unat (tot_len b) = length f - 34" using 2(2) l by (simp add: one_buffer_def)
        moreover have "tot_len b = of_nat (unat (tot_len b))" by simp
        ultimately show "tot_len b = ?l" by (simp only:)
      qed (use 2(2) in \<open>simp add: one_buffer_def\<close>)
      have f1: "frame_at (with_buf s p b1 d1) p base 34 (?e @ ?hb @ ?r)" using 1 split by simp
      have u: "udp_heap (with_buf s p b1 d1) pcb = Some c" using c(1) by simp
      show ?case
        unfolding b
      proof (rule wp_upcb [OF u], rule put_udp_header_wp [OF f1 l(1,2)], goal_cases)
        case (1 b2 d2)
        then have f2: "frame_at (with_buf s p b2 d2) p base 34 (?e @ ?dg 0)" by simp
        show ?case
          unfolding with_buf_twice
        proof (rule fill_udp_chksum_wp [OF f2 l(1) n tot], goal_cases)
          case (1 b3 d3 ck)
          then show ?case using out [of b3 d3 ck] by (simp add: wp_skip)
        qed
      qed
    qed (use l in \<open>simp add: one_buffer_def UDP_HLEN_def\<close>)
  qed
qed

text \<open>
  C40. Sending a datagram through a bound control block. Without a route it is refused with \<^verbatim>\<open>ERR_RTE\<close>, and if the block is bound to an address
  that the interface does not have any more with \<^verbatim>\<open>ERR_VAL\<close>; nothing changes then. Otherwise, with room for the headers in front of the data and
  the next hop resolved, exactly one frame goes to the Ethernet chip: the data behind a UDP header with the ports and the length, an IP header
  and the hardware addresses. A receiver of this code accepts the checksum, which is only left out if the block says so, and the
  buffer still belongs to the caller.
\<close>

theorem udp_sendto_frame:
  assumes "arp_ok s" and "length (netif_hwaddr s) = 6" and "frame_at s p base 42 f" and "length f \<le> 1024" and "1 < n"
    and "udp_heap s pcb = Some c" and "local_port c \<noteq> 0"
  shows "(\<not> (netif_listed s \<or> netif_default s) \<or> \<not> netif_is_up s \<longrightarrow> udp_sendto E M n pcb p dest dp s = Ret ERR_RTE s) \<and>
    (netif_default s \<and> netif_is_up s \<and> local_ip c \<noteq> IPADDR_ANY \<and> local_ip c \<noteq> netif_ip_addr s \<longrightarrow>
       udp_sendto E M n pcb p dest dp s = Ret ERR_VAL s) \<and>
    (netif_default s \<and> netif_is_up s \<and> (local_ip c = IPADDR_ANY \<or> local_ip c = netif_ip_addr s) \<and> host_addr dest \<and>
       \<not> ip4_addr_isbroadcast dest s \<and> next_hop s dest = Some g \<and> resolved (arp_table s) g mac \<longrightarrow>
       (\<exists>ck t es. let dg = udp_bytes (local_port c) dp (of_nat (length f - 34)) ck (drop 42 f);
                     fr = ip_frame mac (netif_hwaddr s) (pcb_ttl c) (pcb_tos c) IP_PROTO_UDP (ip_id s) (netif_ip_addr s) dest dg in
          udp_sendto E M n pcb p dest dp s = Ret ERR_OK t \<and> trace t = trace s @ es \<and> enc_bus None es = (None, chip_frames fr) \<and>
          chksum_good (netif_ip_addr s) dest dg \<and> (pcb_flags c AND UDP_FLAGS_NOCHKSUM = 0 \<longrightarrow> ck \<noteq> 0) \<and>
          udp_heap t = udp_heap s \<and> frame_at t p base 0 fr))"
proof (intro conjI impI, goal_cases)
  case 1
  then show ?case by (auto simp: udp_sendto_def ip_route_def)
next
  case 2
  then show ?case using assms(6) by (simp add: udp_sendto_def ip_route_def udp_sendto_if_def ip_addr_isany_def)
next
  case 3
  let ?dg = "\<lambda>ck. udp_bytes (local_port c) dp (of_nat (length f - 34)) ck (drop 42 f)"
  let ?fr = "\<lambda>ck. ip_frame mac (netif_hwaddr s) (pcb_ttl c) (pcb_tos c) IP_PROTO_UDP (ip_id s) (netif_ip_addr s) dest (?dg ck)"
  let ?ok = "\<lambda>r t. r = ERR_OK \<and> (\<exists>ck es. trace t = trace s @ es \<and> enc_bus None es = (None, chip_frames (?fr ck)) \<and>
      chksum_good (netif_ip_addr s) dest (?dg ck) \<and> (pcb_flags c AND UDP_FLAGS_NOCHKSUM = 0 \<longrightarrow> ck \<noteq> 0) \<and> udp_heap t = udp_heap s \<and> frame_at t p base 0 (?fr ck))"
  have "wp (udp_sendto_if_src E M n pcb p dest dp (netif_ip_addr s)) ?ok (\<lambda>_ _. False) s"
  proof (rule udp_send_wp [where g = g and mac = mac, OF assms(3-5,2,1) _ _ _ _ assms(6,7)], goal_cases)
    case (5 b d es k ck)
    let ?t = "(with_buf s p b d)\<lparr>ip_id := ip_id s + 1, etharp_cached_entry := k, txbusy := True, trace := trace s @ es\<rparr>"
    have "frame_at ?t p base 0 (?fr ck)" by (rule frame_cong [OF 5(4)]) simp_all
    then show ?case using 5(1-3) by (intro conjI exI [of _ ck] exI [of _ es]) (assumption | simp)+
  qed (use 3 in simp_all)
  then have "wp (udp_sendto E M n pcb p dest dp) ?ok (\<lambda>_ _. False) s"
    using 3 assms(6) by (auto simp: udp_sendto_def ip_route_def udp_sendto_if_def wp_def [of "upcb pcb"] ip_addr_isany_def)
  then show ?case unfolding Let_def wp_total_ex by blast
qed

text \<open>The host of \<open>IpSend\<close> with a bound control block and four bytes to send.\<close>

definition datagram_out :: udp_state where
  "datagram_out = ip_state.extend (sending\<lparr>
     pbufs := [4 \<mapsto> \<lparr>pnext = 0, payload = Some (4, 44), tot_len = 4, len = 4, ptype = PBUF_RAM, flags = 0, ref = 1\<rparr>],
     blocks := [4 \<mapsto> replicate 44 0 @ [1, 2, 3, 4]]\<rparr>)
     \<lparr>udp_heap = [8 \<mapsto> example_pcb 5000], udp_pcbs = 8, udp_port = UDP_LOCAL_PORT_RANGE_START, dhcp_pcb = 0\<rparr>"

lemma datagram_out_fields [simp]:
  "netif_flags datagram_out = NETIF_FLAG_UP OR NETIF_FLAG_ETHARP" "netif_hwaddr datagram_out = [2, 0, 0, 0, 0, 1]" "netif_ip_addr datagram_out = 0x0a01a8c0"
  "netif_netmask datagram_out = 0x00ffffff" "netif_default datagram_out" "arp_table datagram_out = arp_table pinged" "etharp_cached_entry datagram_out = 0"
  "netif_gw datagram_out = netif_gw pinged" "udp_heap datagram_out = [8 \<mapsto> example_pcb 5000]"
  "pbufs datagram_out = [4 \<mapsto> \<lparr>pnext = 0, payload = Some (4, 44), tot_len = 4, len = 4, ptype = PBUF_RAM, flags = 0, ref = 1\<rparr>]"
  "blocks datagram_out = [4 \<mapsto> replicate 44 0 @ [1, 2, 3, 4]]"
  by (simp_all add: datagram_out_def ip_state.defs sending_def)

lemma datagram_out_ok:
  "arp_ok datagram_out" "netif_is_up datagram_out" "frame_at datagram_out 4 2 42 (replicate 42 0 @ [1, 2, 3, 4])"
  "\<not> ip4_addr_isbroadcast 0x1401a8c0 datagram_out" "next_hop datagram_out 0x1401a8c0 = Some 0x1401a8c0"
  using pinged_ok broadcast_cong [of datagram_out pinged] next_hop_cong [of datagram_out pinged]
  by (simp_all add: arp_ok_def netif_is_up_def frame_at_def one_buffer_def)

theorem udp_sendto_frame_witness:
  "\<exists>ck t es. udp_sendto ideal_env (bump 9) 9 8 4 0x1401a8c0 7000 datagram_out = Ret ERR_OK t \<and> trace t = trace datagram_out @ es \<and> ck \<noteq> 0 \<and>
    enc_bus None es = (None, chip_frames (ip_frame [2, 0, 0, 0, 0, 9] [2, 0, 0, 0, 0, 1] 255 0 IP_PROTO_UDP (ip_id datagram_out) 0x0a01a8c0 0x1401a8c0
      (udp_bytes 5000 7000 12 ck [1, 2, 3, 4])))"
proof -
  have c: "pcb_ttl (example_pcb 5000) = 255" "pcb_tos (example_pcb 5000) = 0" "pcb_flags (example_pcb 5000) = 0" by (simp_all add: example_pcb_def)
  show ?thesis
    using udp_sendto_frame [OF datagram_out_ok(1) _ datagram_out_ok(3), of 9 8 "example_pcb 5000" ideal_env "bump 9" "0x1401a8c0" 7000 "0x1401a8c0" "[2, 0, 0, 0, 0, 9]"]
      datagram_out_ok(2,4,5) asking_host(1) pinged_ok(10)
    by (simp add: Let_def IPADDR_ANY_def c) blast
qed

end
