(* ===== verification/Spec2Isabelle.thy ===== *)
theory Spec2Isabelle
  imports Boot Races UdpRun
begin

text \<open>
  A verification of the firmware of the AsD preamplifier (asd\_pre\_1/mcu), the program of an EFM32
  microcontroller (Cortex-M3) that controls a DAC, an FPGA with the digital inputs, a mute relay, a
  rotary encoder, a source button, an SD card socket and an Ethernet chip, and that serves text
  commands over TCP.

  \<^bold>\<open>Parts of the program and where they are modelled.\<close>

  \<^item> \<open>Prelude\<close>: C integers, programs as functions from the state of the globals to an
    outcome (a value and a state, or a reason why the processor makes no progress any more),
    the combinators function bodies are written with, weakest preconditions, and the locale
    \<open>frame_relation\<close> with the rules for what a program leaves alone.
  \<^item> \<open>Hardware\<close>: the trace of everything the program does to the outside (pins, SPI, I2C,
    registers, console, library calls), the environment that answers (every answer is a function of the trace so far),
    the bus decoders that read pin levels and SPI frames off a trace, and \<^verbatim>\<open>usleep\<close> and \<^verbatim>\<open>panic\<close> of main.c.
  \<^item> \<open>CLib\<close>, \<open>CText\<close>: the parts of the C library the program uses (\<^verbatim>\<open>strncmp\<close>, \<^verbatim>\<open>strcpy\<close>, \<^verbatim>\<open>strtok\<close>,
    \<^verbatim>\<open>strtol\<close>, the \<^verbatim>\<open>printf\<close> conversions) on bytes and strings, with their round trips.
  \<^item> \<open>Interfaces\<close>: the contract of a bounded store of settings as a locale; \<open>Config\<close> (config.c)
    interprets it for the four value types and proves lookup after store, the full table, flash and restart.
  \<^item> \<open>Dac\<close> (dac.c), \<open>Fpga\<close> (fpga.c), \<open>Swo\<close> (swo.c): the drivers of the DAC, the FPGA and the
    debug console.
  \<^item> \<open>MicroSd\<close> (fatfs/src/microsd.c) and \<open>DiskIo\<close> (diskio.c): the SD card and the functions FatFs
    calls on it.
  \<^item> \<open>Netif\<close> (lwip core/netif.c), \<open>Enc424\<close> (enc424j600\_spi.c): the network interface record and the driver of
    the Ethernet chip, with packet reception and transmission as SPI frames.
  \<^item> \<open>Preamp\<close> (main.c without \<^verbatim>\<open>main\<close> and the handlers): volume, encoder, mute, source, gain, LEDs, card
    socket, tick counter; \<^verbatim>\<open>f_mount\<close> of ff.c.
  \<^item> \<open>Timers\<close> (lwip core/timers.c): the delta list of timeouts and the function that runs it, with callbacks that arm themselves again. What
    \<^verbatim>\<open>PBUF_CHECK_FREE_OOSEQ\<close> makes TCP give back is a recorded call.
  \<^item> \<open>Chksum\<close> (lwip core/inet\_chksum.c, def.c): the Internet checksum of every packet, against the sum modulo 65535.
  \<^item> \<open>Pbuf\<close>, \<open>PbufChain\<close>, \<open>PbufOps\<close>, \<open>PbufData\<close> (lwip core/pbuf.c): packet buffers on an explicit store: the
    functions of the file, chains and reference counts, allocation and release, concatenation, trimming and
    headers, and the content as one array of bytes.
  \<^item> \<open>Ip4Addr\<close> (lwip core/ipv4/ip4\_addr.c): kinds of addresses, netmasks, and addresses as text.
  \<^item> \<open>Etharp\<close> (lwip netif/etharp.c): the Address Resolution Protocol over the packet buffers and the Ethernet driver;
    \<open>EtharpFrame\<close>: what it leaves alone; \<open>EtharpTable\<close>: the invariant of its table; \<open>EtharpRun\<close>: the frames it sends and the
    table as a map.
  \<^item> \<open>Ip4\<close> (lwip core/ipv4/ip4.c and icmp.c): the Internet Protocol and its control messages, between ARP and the layers
    above; \<open>IpInv\<close>: the ARP table in every state the stack can reach; \<open>IpRun\<close>: the checksum of built headers; \<open>Ping\<close>: the
    path of an echo request through the stack and back; \<open>IpSend\<close>: what becomes of a packet that is sent.
  \<^item> \<open>Udp\<close> (lwip core/udp.c): datagrams, with the control blocks as a linked list in a heap; \<open>UdpList\<close>: that list as a list of addresses
    and the search for a free port; \<open>UdpBind\<close>: the operations on control blocks, the invariant of every sequence of them and the choice of the
    receiver; \<open>UdpRun\<close>: datagrams on their way in and out.
  \<^item> \<open>Net\<close> (net.c, with the callback registration of lwip core/tcp.c): the command server, and the
    abstract amplifier it is proved to implement.
  \<^item> \<open>Frame\<close>: what every driver function leaves alone.
  \<^item> \<open>Firmware\<close> (\<^verbatim>\<open>main\<close> and the interrupt handlers): start-up, the statements of the main loop as
    atomic steps, and the step relation that interleaves them with the handlers. Until \<^verbatim>\<open>init\<close> is set the GPIO handlers only acknowledge;
    from then on a schedule says which of them run between the statements of start-up and in every round of the two second wait. In the loop they
    run between any two steps: the call \<^verbatim>\<open>setMute(false)\<close> is taken apart into assignment, evaluation of the level,
    write to the pin and the LEDs, and the tick handler into count, test, load and store, because the GPIO handlers have the higher priority.
  \<^item> \<open>Running\<close>, \<open>Startup\<close>, \<open>Boot\<close>, \<open>Races\<close>: properties of the whole program: the invariant of every reachable
    state, the outcome of start-up, when it first unmutes and what it restores, saving and restarting, and two interleavings the code
    does not expect.

  \<^bold>\<open>How state and operations correspond.\<close> Every global variable is a field of a record; the records of the
  components extend each other in the order hw, config, sd, disk, netif, enc, preamp, timers, net, pbuf, arp, ip, udp,
  so an operation of a lower component is polymorphic in what is above it and runs on the state of the whole
  firmware. A C function is a definition with its name; its body is written statement by statement
  with \<open>thenM\<close>, \<open>bindM\<close>, \<open>seqM\<close>, \<open>whenM\<close> and \<open>if\<close>. Unsigned integers are words of their width,
  signed ones integers with the conversions of the source written out. Array accesses that C
  leaves undefined and null pointers are the outcome \<^const>\<open>Undefined\<close>; \<^verbatim>\<open>panic\<close> and
  failed assertions are \<^const>\<open>Panic\<close> with their message.

  \<^bold>\<open>Bounds and fuel.\<close> A busy wait has no bound in the code. It is given \<^const>\<open>env_fuel\<close>
  rounds and running out of them is the outcome \<^const>\<open>Hang\<close>; since the number is part of the environment, a theorem that a wait ends says for which
  environments it does (\<^const>\<open>timer_runs\<close>, \<^const>\<open>i2c_responds\<close>, \<^const>\<open>flags_rise\<close>, \<^const>\<open>fpga_loads\<close>, \<^const>\<open>ticks_run\<close>), and the theorems that start-up succeeds say what the
  parts answer (\<^const>\<open>parts_answer\<close>), with a concrete set-up that does (\<^const>\<open>bench_env\<close>); and
  a theorem that it does not end says so for every number of rounds. Loops over linked structures get a number of rounds \<open>n\<close>; the theorems ask for more rounds than the
  list has elements, which is enough for them to end. Loops with a bound in the code have it in the model and need no such condition.

  \<^bold>\<open>What the lemmas show.\<close> For the settings: the table is a bounded map, survives a restart and drops silently when full.
  For the drivers: the exact frames on the buses, totality of every wait under the
  stated behaviour of the hardware, and the error branches. For the preamplifier: volume, encoder,
  source, gain and mute reach the hardware as intended, and where arguments outside the expected
  range lead. For the timers: what insertion, removal and expiry do to all deadlines,
  including the delays that an insertion in front of the list causes. For the server:
  each line is one request of an abstract protocol, answers fit their buffer. For the checksum: the optimised
  routine is the ones' complement sum for every alignment and segmentation. For the packet buffers: the shape
  of a packet, that allocation gives one and release takes exactly the unshared part away again, and that the
  functions on content see the concatenation of the buffers whatever the segmentation. For addresses: printing and reading
  are inverse. For ARP: every function keeps the table well formed, learning is the update of a map of three, requests are answered, and the bytes on the bus of the
  Ethernet chip are the ones of the protocol. For IP: whatever arrives, is sent or times out, in any order, the ARP table stays well formed; headers are built
  with a valid checksum, pings are answered, and a packet that is sent to a known hardware address becomes one frame, while no route, no gateway, no room for a header and a frame
  that is too long have the outcomes of the code. For UDP: a port has one owner in every state the operations lead to, the receiver of a datagram is
  the one that rules on ports and address bits name, and a datagram that is sent has a checksum its receiver accepts. For the whole: nothing unmutes the amplifier
  in the first two seconds but a command from the network, start-up ends, settings come back, in every reachable state the variables are in range and
  the DAC holds the volume, and the relay agrees with the mute flag unless a handler mutes or unmutes in the one gap that \<open>Races\<close> shows to be open.

  \<^bold>\<open>Not modelled.\<close> The protocols of lwIP beyond the files named (TCP, DHCP, raw sockets): the firmware calls them through a few functions, which are recorded in the trace and
  answered by the environment, and they call back through \<open>inp\<close> and \<open>tmr\<close>, parameters of the
  definitions with the contract \<open>lwip_ok\<close>. FatFs beyond \<^verbatim>\<open>f_mount\<close>: the firmware opens no file. The vendor
  library of the microcontroller is not part of the repository: its functions are calls in the trace. Code that
  the build leaves out (IPv6, SNMP, PPP, sockets, character tables) has no model. Not taken apart are \<^verbatim>\<open>netPeriodic\<close>,
  \<^verbatim>\<open>setUint32\<close> and \<^verbatim>\<open>flushConfig\<close> in the main loop, which share no variable of the amplifier with the handlers once their argument has been read
  (the settings table is only used by the main loop, and the callbacks of the timers leave the amplifier alone); the counting of the ticks, which happens at each look at
  the counter in the waits of start-up; and the lwIP functions, which the firmware calls from the main loop and from the network
  interrupt without protection: each call is one step. The initial values of the name and number of the interface are not recorded.
\<close>

end
